(* ===== verification/Lifecycle.thy ===== *)
theory Lifecycle
  imports Js_Base
begin

text \<open>
  The lifecycle vocabulary of \<open>src/src/lifecycle-status.ts\<close> and the stage predicates of
  \<open>src/src/store.ts\<close>: stage, run and task statuses, the semantics table of the run
  statuses, the resolution of untrusted archived values, and the predicates derived from
  it.  A status read from \<open>run.json\<close> is a JSON value; only a string of the table (or the
  legacy \<open>stopped\<close>) has a meaning.
\<close>

section \<open>Stage statuses\<close>

datatype stage_state = SPending | SRunning | SComplete | SFailed | SSkipped

fun stage_state_name :: "stage_state \<Rightarrow> string" where
  "stage_state_name SPending = ''pending''"
| "stage_state_name SRunning = ''running''"
| "stage_state_name SComplete = ''complete''"
| "stage_state_name SFailed = ''failed''"
| "stage_state_name SSkipped = ''skipped''"

definition all_stage_states :: "stage_state list" where
  "all_stage_states = [SPending, SRunning, SComplete, SFailed, SSkipped]"

definition isRunningStageStatus :: "stage_state \<Rightarrow> bool" where
  [status_simps]: "isRunningStageStatus s = (s = SRunning)"

definition isPendingStageStatus :: "stage_state \<Rightarrow> bool" where
  [status_simps]: "isPendingStageStatus s = (s = SPending)"

definition settled_stage_statuses :: "stage_state list" where
  "settled_stage_statuses = [SComplete, SFailed]"

definition satisfied_stage_dependency_statuses :: "stage_state list" where
  "satisfied_stage_dependency_statuses = [SComplete]"

definition isSettledStageStatus :: "stage_state \<Rightarrow> bool" where
  "isSettledStageStatus s = (s \<in> set settled_stage_statuses)"

definition isSatisfiedStageDependencyStatus :: "stage_state \<Rightarrow> bool" where
  "isSatisfiedStageDependencyStatus s = (s \<in> set satisfied_stage_dependency_statuses)"

lemma isSettledStageStatus_iff [status_simps]:
  "isSettledStageStatus s \<longleftrightarrow> s = SComplete \<or> s = SFailed"
  by (simp add: isSettledStageStatus_def settled_stage_statuses_def)

lemma isSatisfiedStageDependencyStatus_iff [status_simps]:
  "isSatisfiedStageDependencyStatus s \<longleftrightarrow> s = SComplete"
  by (simp add: isSatisfiedStageDependencyStatus_def satisfied_stage_dependency_statuses_def)

section \<open>Run statuses and their semantics\<close>

datatype run_status =
    RPending | RRunning | RParked | RComplete | RFailed | RShipped | RCeilingHit
  | REscalated | RRealityGateFailed | RCancelled | RIncomplete

fun run_status_name :: "run_status \<Rightarrow> string" where
  "run_status_name RPending = ''pending''"
| "run_status_name RRunning = ''running''"
| "run_status_name RParked = ''parked''"
| "run_status_name RComplete = ''complete''"
| "run_status_name RFailed = ''failed''"
| "run_status_name RShipped = ''shipped''"
| "run_status_name RCeilingHit = ''ceiling_hit''"
| "run_status_name REscalated = ''escalated''"
| "run_status_name RRealityGateFailed = ''reality_gate_failed''"
| "run_status_name RCancelled = ''cancelled''"
| "run_status_name RIncomplete = ''incomplete''"

definition run_statuses :: "run_status list" where
  \<comment> \<open>\<open>Object.values(RUN_STATUS)\<close>\<close>
  "run_statuses = [RPending, RRunning, RParked, RComplete, RFailed, RShipped, RCeilingHit,
     REscalated, RRealityGateFailed, RCancelled, RIncomplete]"

datatype bucket = Queued | Executing | Paused | Terminal

record run_status_semantics =
  lifecycle :: bucket
  successful :: bool
  mutationBlocked :: bool
  resumable :: bool

fun run_semantics :: "run_status \<Rightarrow> run_status_semantics" where
  "run_semantics RPending =
     \<lparr>lifecycle = Queued, successful = False, mutationBlocked = False, resumable = False\<rparr>"
| "run_semantics RRunning =
     \<lparr>lifecycle = Executing, successful = False, mutationBlocked = True, resumable = False\<rparr>"
| "run_semantics RParked =
     \<lparr>lifecycle = Paused, successful = False, mutationBlocked = True, resumable = True\<rparr>"
| "run_semantics RComplete =
     \<lparr>lifecycle = Terminal, successful = True, mutationBlocked = False, resumable = False\<rparr>"
| "run_semantics RFailed =
     \<lparr>lifecycle = Terminal, successful = False, mutationBlocked = False, resumable = True\<rparr>"
| "run_semantics RShipped =
     \<lparr>lifecycle = Terminal, successful = True, mutationBlocked = False, resumable = False\<rparr>"
| "run_semantics RCeilingHit =
     \<lparr>lifecycle = Terminal, successful = True, mutationBlocked = False, resumable = False\<rparr>"
| "run_semantics REscalated =
     \<lparr>lifecycle = Terminal, successful = False, mutationBlocked = False, resumable = False\<rparr>"
| "run_semantics RRealityGateFailed =
     \<lparr>lifecycle = Terminal, successful = False, mutationBlocked = False, resumable = False\<rparr>"
| "run_semantics RCancelled =
     \<lparr>lifecycle = Terminal, successful = False, mutationBlocked = False, resumable = True\<rparr>"
| "run_semantics RIncomplete =
     \<lparr>lifecycle = Terminal, successful = False, mutationBlocked = False, resumable = True\<rparr>"

datatype run_status_resolution =
    Known run_status run_status_semantics
  | Unknown json

definition resolveRunStatus :: "json \<Rightarrow> run_status_resolution" where
  "resolveRunStatus v =
     (let v = (if v = JStr ''stopped'' then JStr (run_status_name RCancelled) else v)
      in case v of
           JStr s \<Rightarrow> (case find (\<lambda>st. run_status_name st = s) run_statuses of
                       Some st \<Rightarrow> Known st (run_semantics st)
                     | None \<Rightarrow> Unknown v)
         | _ \<Rightarrow> Unknown v)"

datatype status_error = UnknownRunStatusError json string

definition requireKnownRunStatus :: "json \<Rightarrow> string \<Rightarrow> status_error + run_status" where
  "requireKnownRunStatus v action =
     (case resolveRunStatus v of
        Unknown raw \<Rightarrow> Inl (UnknownRunStatusError raw action)
      | Known st _ \<Rightarrow> Inr st)"

definition terminal_statuses :: "run_status list" where
  "terminal_statuses = filter (\<lambda>st. lifecycle (run_semantics st) = Terminal) run_statuses"

definition known_with :: "(run_status_semantics \<Rightarrow> bool) \<Rightarrow> json \<Rightarrow> bool" where
  \<comment> \<open>\<open>resolution.kind === 'known' && P(resolution.semantics)\<close>\<close>
  "known_with P v = (case resolveRunStatus v of Known _ sem \<Rightarrow> P sem | Unknown _ \<Rightarrow> False)"

definition isTerminalRunStatus :: "json \<Rightarrow> bool" where
  "isTerminalRunStatus v = known_with (\<lambda>sem. lifecycle sem = Terminal) v"

definition isPausedRunStatus :: "json \<Rightarrow> bool" where
  "isPausedRunStatus v = known_with (\<lambda>sem. lifecycle sem = Paused) v"

definition isPendingRunStatus :: "json \<Rightarrow> bool" where
  "isPendingRunStatus v = known_with (\<lambda>sem. lifecycle sem = Queued) v"

definition isRunningRunStatus :: "json \<Rightarrow> bool" where
  "isRunningRunStatus v = known_with (\<lambda>sem. lifecycle sem = Executing) v"

definition isResumableRunStatus :: "json \<Rightarrow> bool" where
  "isResumableRunStatus v = known_with resumable v"

definition isSuccessfulRunStatus :: "json \<Rightarrow> bool" where
  "isSuccessfulRunStatus v = known_with successful v"

section \<open>Task statuses\<close>

datatype task_status =
    TPending | TDeferred | TRunning | TCancelling | TDone | TStuck | TNeedsSummary
  | TCancelled | TFailed | TRealityGateFailed

fun task_status_name :: "task_status \<Rightarrow> string" where
  "task_status_name TPending = ''pending''"
| "task_status_name TDeferred = ''deferred''"
| "task_status_name TRunning = ''running''"
| "task_status_name TCancelling = ''cancelling''"
| "task_status_name TDone = ''done''"
| "task_status_name TStuck = ''stuck''"
| "task_status_name TNeedsSummary = ''needs_summary''"
| "task_status_name TCancelled = ''cancelled''"
| "task_status_name TFailed = ''failed''"
| "task_status_name TRealityGateFailed = ''reality_gate_failed''"

definition task_statuses :: "task_status list" where
  "task_statuses = [TPending, TDeferred, TRunning, TCancelling, TDone, TStuck, TNeedsSummary,
     TCancelled, TFailed, TRealityGateFailed]"

definition active_task_statuses :: "task_status list" where
  "active_task_statuses = [TPending, TDeferred, TRunning, TCancelling]"

definition isKnownTaskStatus :: "json \<Rightarrow> bool" where
  "isKnownTaskStatus v = (case v of JStr s \<Rightarrow> s \<in> set (map task_status_name task_statuses)
                          | _ \<Rightarrow> False)"

definition isActiveTaskStatus :: "string \<Rightarrow> bool" where
  "isActiveTaskStatus s = (s \<in> set (map task_status_name active_task_statuses))"

definition launch_control_statuses :: "task_status list" where
  "launch_control_statuses =
     [TPending, TDeferred, TRunning, TCancelling, TStuck, TNeedsSummary]"

definition taskDisplayStatus :: "string \<Rightarrow> json \<Rightarrow> string" where
  "taskDisplayStatus taskStatus runStatus =
     (if taskStatus \<in> set (map task_status_name launch_control_statuses) \<or> runStatus = JUndef
      then taskStatus
      else case resolveRunStatus runStatus of
             Known st _ \<Rightarrow> run_status_name st
           | Unknown _ \<Rightarrow> (case runStatus of JStr s \<Rightarrow> s | _ \<Rightarrow> taskStatus))"

section \<open>Facts\<close>

lemma run_statuses_all [simp]: "st \<in> set run_statuses"
  by (cases st) (simp_all add: run_statuses_def)

lemma run_status_name_inj [simp]: "run_status_name a = run_status_name b \<longleftrightarrow> a = b"
  by (cases a; cases b) simp_all

lemma run_status_name_not_stopped [simp]:
  "run_status_name st \<noteq> ''stopped''" "''stopped'' \<noteq> run_status_name st"
  by (cases st; simp)+

lemma find_run_status [simp]: "find (\<lambda>x. x = st) run_statuses = Some st"
  by (cases st) (simp_all add: run_statuses_def)

lemma resolveRunStatus_name [simp]:
  "resolveRunStatus (JStr (run_status_name st)) = Known st (run_semantics st)"
  by (simp add: resolveRunStatus_def)

lemma resolveRunStatus_stopped [simp]:
  "resolveRunStatus (JStr ''stopped'') = Known RCancelled (run_semantics RCancelled)"
  using resolveRunStatus_name [of RCancelled] by (simp add: resolveRunStatus_def)

text \<open>The resolution is known exactly on the spelled table and the legacy alias.\<close>

lemma resolveRunStatus_Known_iff:
  "resolveRunStatus v = Known st sem \<longleftrightarrow>
     sem = run_semantics st \<and>
     (v = JStr (run_status_name st) \<or> (v = JStr ''stopped'' \<and> st = RCancelled))"
proof
  assume k: "resolveRunStatus v = Known st sem"
  show "sem = run_semantics st \<and>
     (v = JStr (run_status_name st) \<or> (v = JStr ''stopped'' \<and> st = RCancelled))"
  proof (cases "v = JStr ''stopped''")
    case True
    with k show ?thesis by simp
  next
    case False
    with k show ?thesis
      by (auto simp: resolveRunStatus_def Let_def split: json.splits option.splits
          dest!: find_SomeD)
  qed
next
  assume "sem = run_semantics st \<and>
     (v = JStr (run_status_name st) \<or> (v = JStr ''stopped'' \<and> st = RCancelled))"
  then show "resolveRunStatus v = Known st sem" by auto
qed

lemma resolveRunStatus_Unknown_raw: "resolveRunStatus v = Unknown raw \<Longrightarrow> raw = v"
  using resolveRunStatus_stopped
  by (cases "v = JStr ''stopped''")
     (auto simp: resolveRunStatus_def Let_def split: json.splits option.splits)

lemma known_with_iff: "known_with P v \<longleftrightarrow> (\<exists>st. resolveRunStatus v = Known st (run_semantics st) \<and> P (run_semantics st))"
  by (auto simp: known_with_def resolveRunStatus_Known_iff split: run_status_resolution.splits)

lemmas run_predicates =
  isTerminalRunStatus_def isPausedRunStatus_def isPendingRunStatus_def isRunningRunStatus_def
  isResumableRunStatus_def isSuccessfulRunStatus_def

section \<open>Properties of the vocabulary\<close>

text \<open>The four lifecycle predicates partition the recognised archived values: a value
  resolves to a known status exactly when one of them holds, and no two hold together.\<close>

lemma lifecycle_partition:
  "(\<exists>st sem. resolveRunStatus v = Known st sem) =
     (length (filter (\<lambda>p. p v) [isPendingRunStatus, isRunningRunStatus, isPausedRunStatus,
        isTerminalRunStatus]) = 1)"
proof (cases "resolveRunStatus v")
  case (Known st sem)
  then have "sem = run_semantics st" unfolding resolveRunStatus_Known_iff by blast
  with Known show ?thesis
    by (cases st) (simp_all add: run_predicates known_with_def)
next
  case (Unknown raw)
  then show ?thesis by (simp add: run_predicates known_with_def)
qed

text \<open>The semantics table is coherent: a successful outcome is terminal and offers no
  resume, the statuses that block dashboard mutations are exactly the ones some scheduler
  may still own (executing or paused), and a run that can be resumed is stopped or parked,
  never queued or executing.\<close>

lemma run_semantics_coherent:
  "(successful (run_semantics st) \<longrightarrow>
      lifecycle (run_semantics st) = Terminal \<and> \<not> resumable (run_semantics st)) \<and>
   (mutationBlocked (run_semantics st) \<longleftrightarrow>
      lifecycle (run_semantics st) = Executing \<or> lifecycle (run_semantics st) = Paused) \<and>
   (resumable (run_semantics st) \<longrightarrow>
      lifecycle (run_semantics st) = Paused \<or> lifecycle (run_semantics st) = Terminal)"
  by (cases st) simp_all

end
