(* ===== verification/Usage.thy ===== *)
theory Usage
  imports Js_Base
begin

text \<open>
  Invocation usage (\<open>src/src/invocation-usage.ts\<close>): the token and cost counters of one
  adapter call, the completeness predicates, and the aggregation of several calls.  Costs
  are lower bounds unless every contributing call settled with complete counters.

  Counters are exact rationals.  The source accepts a counter or a total only when it is a
  safe integer, and a sum of non-negative counters that leaves the safe range stays outside
  it under rounding, so the token arithmetic agrees with the binary one; the cost total is
  the exact sum where the source rounds it.
\<close>

datatype token_usage = UKnown | UPartial | UUnknown

record usage =
  tokens_in :: "rat option"
  tokens_out :: "rat option"
  tokens_cached :: "rat option"
  tokens_cache_created :: "rat option"
  tokens_reasoning :: "rat option"
  cost_usd :: "rat option"
  tokenUsage :: "token_usage option"
  costUsage :: "token_usage option"

definition no_usage :: usage where
  "no_usage = \<lparr>tokens_in = None, tokens_out = None, tokens_cached = None,
     tokens_cache_created = None, tokens_reasoning = None, cost_usd = None,
     tokenUsage = None, costUsage = None\<rparr>"

definition max_safe_integer :: rat where
  "max_safe_integer = 9007199254740991"

definition is_integer :: "rat \<Rightarrow> bool" where
  "is_integer r = (of_int \<lfloor>r\<rfloor> = r)"

definition quantity :: "rat \<Rightarrow> bool" where
  "quantity r = (is_integer r \<and> 0 \<le> r \<and> r \<le> max_safe_integer)"

definition cost :: "rat \<Rightarrow> bool" where
  "cost r = (0 \<le> r)"

definition has :: "(rat \<Rightarrow> bool) \<Rightarrow> rat option \<Rightarrow> bool" where
  \<comment> \<open>the type guards applied to an optional field\<close>
  "has p f = (case f of None \<Rightarrow> False | Some r \<Rightarrow> p r)"

definition incomplete_mark :: "token_usage option \<Rightarrow> bool" where
  "incomplete_mark u = (u = Some UPartial \<or> u = Some UUnknown)"

definition tokensComplete :: "'a usage_scheme \<Rightarrow> bool" where
  "tokensComplete u = (\<not> incomplete_mark (tokenUsage u)
     \<and> has quantity (tokens_in u) \<and> has quantity (tokens_out u))"

definition usageComplete :: "'a usage_scheme \<Rightarrow> bool" where
  "usageComplete u = (tokensComplete u \<and> has cost (cost_usd u) \<and> \<not> incomplete_mark (costUsage u))"

definition observed :: "(rat \<Rightarrow> bool) \<Rightarrow> rat option list \<Rightarrow> rat list" where
  "observed p fs = filter p (map the (filter (\<lambda>f. f \<noteq> None) fs))"

definition sum_counter :: "rat option list \<Rightarrow> rat option" where
  "sum_counter fs =
     (let counters = observed quantity fs; total = sum_list counters
      in if counters \<noteq> [] \<and> quantity total then Some total else None)"

definition sumInvocationUsage :: "'a usage_scheme list \<Rightarrow> usage" where
  "sumInvocationUsage values =
     (let result = no_usage\<lparr>
            tokens_in := sum_counter (map tokens_in values),
            tokens_out := sum_counter (map tokens_out values),
            tokens_cached := sum_counter (map tokens_cached values),
            tokens_cache_created := sum_counter (map tokens_cache_created values),
            tokens_reasoning := sum_counter (map tokens_reasoning values)\<rparr>;
          costs = observed cost (map cost_usd values);
          totalCost = sum_list costs;
          result = (if costs \<noteq> [] \<and> cost totalCost
                    then result\<lparr>cost_usd := Some totalCost\<rparr> else result)
      in result\<lparr>
           tokenUsage := Some
             (if values \<noteq> [] \<and> (\<forall>v \<in> set values. tokensComplete v) \<and> tokensComplete result
              then UKnown
              else if (\<exists>f \<in> {tokens_in, tokens_out, tokens_cached, tokens_cache_created,
                             tokens_reasoning}. f result \<noteq> None)
              then UPartial else UUnknown),
           costUsage := Some
             (if values \<noteq> [] \<and> (\<forall>v \<in> set values. has cost (cost_usd v)
                                 \<and> \<not> incomplete_mark (costUsage v))
              then UKnown else if costs \<noteq> [] then UPartial else UUnknown)\<rparr>)"

section \<open>Facts\<close>

lemma has_Some [simp]: "has p (Some r) = p r"
  by (simp add: has_def)

lemma has_None [simp]: "has p None = False"
  by (simp add: has_def)

lemma has_iff: "has p f \<longleftrightarrow> (\<exists>r. f = Some r \<and> p r)"
  by (auto simp: has_def split: option.splits)

lemma quantity_ge_0: "quantity r \<Longrightarrow> 0 \<le> r"
  by (simp add: quantity_def)

lemma is_integer_add: "is_integer a \<Longrightarrow> is_integer b \<Longrightarrow> is_integer (a + b)"
  unfolding is_integer_def by (metis floor_of_int of_int_add)

lemma is_integer_sum_list: "(\<And>r. r \<in> set rs \<Longrightarrow> is_integer r) \<Longrightarrow> is_integer (sum_list rs)"
  by (induction rs) (auto intro: is_integer_add, simp add: is_integer_def)

lemma observed_sat: "r \<in> set (observed p fs) \<Longrightarrow> p r \<and> Some r \<in> set fs"
  by (auto simp: observed_def)

lemma observed_all: "\<forall>f \<in> set fs. has p f \<Longrightarrow> observed p fs = map the fs"
proof (induction fs)
  case (Cons f fs)
  then obtain r where "f = Some r" "p r" by (auto simp: has_iff)
  with Cons show ?case by (simp add: observed_def)
qed (simp add: observed_def)

lemma sum_list_observed_nonneg:
  "(\<And>r. p r \<Longrightarrow> (0::rat) \<le> r) \<Longrightarrow> 0 \<le> sum_list (observed p fs)"
  by (rule sum_list_nonneg) (auto dest: observed_sat)

text \<open>The total of the counters is refused only when it leaves the safe integers.\<close>

lemma sum_counter_Some_iff:
  "sum_counter fs = Some t \<longleftrightarrow>
     observed quantity fs \<noteq> [] \<and> t = sum_list (observed quantity fs) \<and> t \<le> max_safe_integer"
proof -
  have "is_integer (sum_list (observed quantity fs))"
    by (rule is_integer_sum_list) (auto dest!: observed_sat simp: quantity_def)
  moreover have "0 \<le> sum_list (observed quantity fs)"
    by (rule sum_list_observed_nonneg) (rule quantity_ge_0)
  ultimately show ?thesis by (auto simp: sum_counter_def quantity_def Let_def)
qed

lemma sumInvocationUsage_tokens:
  "tokens_in (sumInvocationUsage vs) = sum_counter (map tokens_in vs)"
  "tokens_out (sumInvocationUsage vs) = sum_counter (map tokens_out vs)"
  "tokens_cached (sumInvocationUsage vs) = sum_counter (map tokens_cached vs)"
  "tokens_cache_created (sumInvocationUsage vs) = sum_counter (map tokens_cache_created vs)"
  "tokens_reasoning (sumInvocationUsage vs) = sum_counter (map tokens_reasoning vs)"
  by (simp_all add: sumInvocationUsage_def Let_def no_usage_def)

lemma sumInvocationUsage_known:
  "tokenUsage (sumInvocationUsage vs) = Some UKnown \<longleftrightarrow>
     vs \<noteq> [] \<and> (\<forall>v \<in> set vs. tokensComplete v) \<and>
     sum_counter (map tokens_in vs) \<noteq> None \<and> sum_counter (map tokens_out vs) \<noteq> None"
  by (auto simp: sumInvocationUsage_def Let_def no_usage_def tokensComplete_def has_def
      incomplete_mark_def sum_counter_def split: option.splits if_splits)

text \<open>Aggregated usage claims to be known only when it is exact: a \<open>known\<close> token
  summary means that every call settled with complete counters and that the reported totals
  are the sums of all of them; nothing missing was counted as zero.\<close>

lemma known_usage_is_exact:
  assumes "tokenUsage (sumInvocationUsage vs) = Some UKnown"
  shows "(\<forall>v \<in> set vs. tokensComplete v) \<and>
     tokens_in (sumInvocationUsage vs) = Some (sum_list (map (the \<circ> tokens_in) vs)) \<and>
     tokens_out (sumInvocationUsage vs) = Some (sum_list (map (the \<circ> tokens_out) vs))"
proof -
  from assms have all: "\<forall>v \<in> set vs. tokensComplete v"
    and totals: "sum_counter (map tokens_in vs) \<noteq> None" "sum_counter (map tokens_out vs) \<noteq> None"
    by (simp_all add: sumInvocationUsage_known)
  from all have "observed quantity (map tokens_in vs) = map the (map tokens_in vs)"
    and "observed quantity (map tokens_out vs) = map the (map tokens_out vs)"
    by (auto simp: tokensComplete_def observed_all simp del: map_map)
  with all totals show ?thesis
    by (auto simp: sumInvocationUsage_tokens sum_counter_Some_iff)
qed

end
