(* ===== verification/Attempts.thy ===== *)
theory Attempts
  imports Lifecycle Usage
begin

text \<open>
  The execution ledger of a stage (\<open>src/src/store.ts\<close>, the attempt operations): the
  records of one attempt and of a stage, the pure calculations of every transition (begin,
  complete, close, settle, suspend, re-pend, constraint audit, interruption), and the
  operations that publish them to the per-stage \<open>status.json\<close> and the aggregate
  \<open>run.json\<close>.

  A timestamp is the instant (milliseconds) its ISO string denotes.  Payloads no transition
  inspects (provider failures, audits, native invocations) are carried as JSON.  The files
  are the fields of \<open>run_store\<close>; publication runs under the run-state lock, so each
  operation is one atomic step of that state, returned also when the operation raises.
\<close>

type_synonym instant = int

datatype attempt_state = ARunning | AClosed | AComplete | AFailed | ASuspended
datatype disposition = DPending | DAccepted | DDiscarded | DSuperseded | DRepaired
datatype cause = CExit | CStageAbort | CAttemptTimeout | CCancelled | CHostRestart | CEngineVoid

record timeout_summary =
  t_budgetMs :: rat
  t_legacyCause :: "string option"
  t_facts :: json

record continuation =
  k_forced :: bool
  k_handoff :: string
  k_summary :: "string option"

record attribution =
  role :: string
  iteration :: nat

record stage_attempt = usage +
  a_attribution :: "attribution option"
  a_disposition :: "disposition option"
  a_invocations :: "json option"
  a_index :: nat
  a_startedAt :: instant
  a_completedAt :: "instant option"
  a_status :: attempt_state
  a_duration_ms :: "rat option"
  a_exitCode :: "int option"
  a_processExitCode :: "json option"
  a_processSignal :: "json option"
  a_providerFailure :: "json option"
  a_error :: "string option"
  a_terminationCause :: "cause option"
  a_engineVoid :: "bool option"
  a_adapterFailureKind :: "json option"
  a_writes :: "string list option"
  a_writeAttribution :: "string option"
  a_validationGeneratedWrites :: "string list option"
  a_constraintAudit :: "json option"
  a_timeout :: "timeout_summary option"
  a_continuation :: "continuation option"

record stage_status = usage +
  s_admissionFailure :: "json option"
  s_acceptedFrom :: "json option"
  s_gate :: "json option"
  s_status :: stage_state
  s_exitCode :: "int option"
  s_processExitCode :: "json option"
  s_processSignal :: "json option"
  s_providerFailure :: "json option"
  s_duration_ms :: "rat option"
  s_artifacts :: "string list option"
  s_retries :: nat
  s_startedAt :: "instant option"
  s_completedAt :: "instant option"
  s_error :: "string option"
  s_attempts :: "stage_attempt list option"
  s_reruns :: "nat option"
  s_writes :: "string list option"
  s_writeAttribution :: "string option"
  s_validationGeneratedWrites :: "string list option"
  s_constraintAudit :: "json option"
  s_timeout :: "timeout_summary option"
  s_continuation :: "continuation option"

definition new_attempt :: "nat \<Rightarrow> instant \<Rightarrow> attribution option \<Rightarrow> stage_attempt" where
  \<comment> \<open>\<open>{ index, startedAt, status: 'running', ...attribution }\<close>\<close>
  "new_attempt i started attr =
     \<lparr>tokens_in = None, tokens_out = None, tokens_cached = None, tokens_cache_created = None,
      tokens_reasoning = None, cost_usd = None, tokenUsage = None, costUsage = None,
      a_attribution = attr, a_disposition = None, a_invocations = None, a_index = i,
      a_startedAt = started, a_completedAt = None, a_status = ARunning, a_duration_ms = None,
      a_exitCode = None, a_processExitCode = None, a_processSignal = None,
      a_providerFailure = None, a_error = None, a_terminationCause = None,
      a_engineVoid = None, a_adapterFailureKind = None, a_writes = None,
      a_writeAttribution = None, a_validationGeneratedWrites = None,
      a_constraintAudit = None, a_timeout = None, a_continuation = None\<rparr>"

definition bare_status :: "stage_state \<Rightarrow> nat \<Rightarrow> stage_status" where
  \<comment> \<open>\<open>{ status, retries }\<close>, every other property undefined\<close>
  "bare_status st n =
     \<lparr>tokens_in = None, tokens_out = None, tokens_cached = None, tokens_cache_created = None,
      tokens_reasoning = None, cost_usd = None, tokenUsage = None, costUsage = None,
      s_admissionFailure = None, s_acceptedFrom = None, s_gate = None, s_status = st,
      s_exitCode = None, s_processExitCode = None, s_processSignal = None,
      s_providerFailure = None, s_duration_ms = None, s_artifacts = None, s_retries = n,
      s_startedAt = None, s_completedAt = None, s_error = None, s_attempts = None,
      s_reruns = None, s_writes = None, s_writeAttribution = None,
      s_validationGeneratedWrites = None, s_constraintAudit = None, s_timeout = None,
      s_continuation = None\<rparr>"

definition attempts_of :: "stage_status \<Rightarrow> stage_attempt list" where
  "attempts_of st = dflt (s_attempts st) []"

definition attempts_if :: "stage_status option \<Rightarrow> stage_attempt list" where
  "attempts_if p = (case p of None \<Rightarrow> [] | Some st \<Rightarrow> attempts_of st)"

definition field :: "('a \<Rightarrow> 'b option) \<Rightarrow> 'a option \<Rightarrow> 'b option" where
  \<comment> \<open>\<open>previous?.f\<close>\<close>
  "field f p = Option.bind p f"

definition at_last :: "'a list \<Rightarrow> 'a option" where
  "at_last xs = (if xs = [] then None else Some (last xs))"

definition set_last :: "'a \<Rightarrow> 'a list \<Rightarrow> 'a list" where
  "set_last x xs = xs[length xs - 1 := x]"

definition next_index :: "stage_attempt list \<Rightarrow> nat" where
  "next_index as = fold max (map a_index as) 0 + 1"

fun find_index :: "('a \<Rightarrow> bool) \<Rightarrow> 'a list \<Rightarrow> nat option" where
  "find_index P [] = None"
| "find_index P (x # xs) = (if P x then Some 0 else map_option Suc (find_index P xs))"

section \<open>Aggregates\<close>

definition sumAttemptField :: "rat option list \<Rightarrow> rat option" where
  "sumAttemptField fs =
     (let vs = map the (filter (\<lambda>f. f \<noteq> None) fs) in if vs \<noteq> [] then Some (sum_list vs) else None)"

definition uniqueStrings :: "string list option list \<Rightarrow> string list option" where
  "uniqueStrings groups =
     (let vs = uniq (filter (\<lambda>s. s \<noteq> []) (concat (map (\<lambda>g. dflt g []) groups)))
      in if vs \<noteq> [] then Some vs else None)"

definition runningStageAttempt :: "stage_status option \<Rightarrow> stage_attempt option" where
  "runningStageAttempt p = find (\<lambda>a. a_status a = ARunning) (rev (attempts_if p))"

section \<open>Legacy causes\<close>

definition legacy_cause :: "stage_attempt \<Rightarrow> cause option" where
  "legacy_cause a =
     (let legacy = Option.bind (a_timeout a) t_legacyCause in
      if (case a_error a of Some e \<Rightarrow> starts_with ''HOST_RESTART_INTERRUPTED:'' e | None \<Rightarrow> False)
      then Some CHostRestart
      else if dflt legacy [] \<noteq> []
      then Some (if legacy = Some ''attempt_timeout'' then CAttemptTimeout
                 else if legacy = Some ''stage_abort'' then CStageAbort else CExit)
      else if a_exitCode a = Some 143 then Some CCancelled
      else if a_exitCode a = Some 124
              \<or> (case a_error a of Some e \<Rightarrow> starts_with ''timed out after'' e | None \<Rightarrow> False)
      then Some CAttemptTimeout
      else if a_exitCode a = Some 137 then Some CStageAbort
      else if a_engineVoid a = Some True then Some CEngineVoid
      else None)"

definition projectAttemptCause :: "stage_attempt \<Rightarrow> stage_attempt" where
  "projectAttemptCause a =
     (if a_terminationCause a \<noteq> None \<or> a_status a = ARunning then a
      else case legacy_cause a of None \<Rightarrow> a | Some c \<Rightarrow> a\<lparr>a_terminationCause := Some c\<rparr>)"

definition projectAttemptCauses :: "stage_status \<Rightarrow> stage_status" where
  "projectAttemptCauses st = st\<lparr>s_attempts := map_option (map projectAttemptCause) (s_attempts st)\<rparr>"

section \<open>The transitions of one ledger\<close>

definition supersede :: "stage_attempt \<Rightarrow> stage_attempt" where
  "supersede prior =
     (if a_status prior = AComplete
         \<and> (a_disposition prior = None \<or> a_disposition prior = Some DAccepted
            \<or> a_disposition prior = Some DRepaired)
      then prior\<lparr>a_disposition := Some DSuperseded\<rparr> else prior)"

definition begunStageStatus ::
  "stage_status option \<Rightarrow> nat \<Rightarrow> instant \<Rightarrow> attribution option \<Rightarrow> stage_status" where
  "begunStageStatus previous retries started attr =
     (let attempts = attempts_if previous;
          attempts = (case at_last attempts of
                        None \<Rightarrow> attempts | Some prior \<Rightarrow> set_last (supersede prior) attempts);
          attempts = attempts @ [new_attempt (next_index attempts) started attr];
          base = (case previous of None \<Rightarrow> bare_status SRunning retries | Some st \<Rightarrow> st)
      in base\<lparr>s_gate := None, s_status := SRunning, s_retries := retries,
              s_attempts := Some attempts, s_reruns := Some (length attempts - 1),
              s_startedAt := Some (a_startedAt (hd attempts))\<rparr>)"

record completion = usage +
  c_attribution :: "attribution option"
  c_disposition :: "disposition option"
  c_invocations :: "json option"
  c_exitCode :: int
  c_suspended :: bool
  c_processExitCode :: "json option"
  c_processSignal :: "json option"
  c_providerFailure :: "json option"
  c_duration_ms :: rat
  c_completedAt :: "instant option"
  c_artifacts :: "string list option"
  c_error :: "string option"
  c_terminationCause :: "cause option"
  c_engineVoid :: "bool option"
  c_adapterFailureKind :: "json option"
  c_writes :: "string list option"
  c_writeAttribution :: "string option"
  c_validationGeneratedWrites :: "string list option"
  c_constraintAudit :: "json option"
  c_timeout :: "timeout_summary option"
  c_continuation :: "continuation option"

definition plain_completion :: "int \<Rightarrow> rat \<Rightarrow> completion" where
  "plain_completion code duration =
     \<lparr>tokens_in = None, tokens_out = None, tokens_cached = None, tokens_cache_created = None,
      tokens_reasoning = None, cost_usd = None, tokenUsage = None, costUsage = None,
      c_attribution = None, c_disposition = None, c_invocations = None, c_exitCode = code,
      c_suspended = False, c_processExitCode = None, c_processSignal = None,
      c_providerFailure = None, c_duration_ms = duration, c_completedAt = None,
      c_artifacts = None, c_error = None, c_terminationCause = None, c_engineVoid = None,
      c_adapterFailureKind = None, c_writes = None, c_writeAttribution = None,
      c_validationGeneratedWrites = None, c_constraintAudit = None, c_timeout = None,
      c_continuation = None\<rparr>"

text \<open>The attempt list with a running last element: appended when there is none.\<close>

definition ensure_running ::
  "stage_status option \<Rightarrow> instant \<Rightarrow> attribution option \<Rightarrow> stage_attempt list" where
  "ensure_running previous completed attr =
     (let attempts = attempts_if previous in
      if (case at_last attempts of Some a \<Rightarrow> a_status a = ARunning | None \<Rightarrow> False) then attempts
      else attempts @ [new_attempt (next_index attempts)
                         (dflt (field s_startedAt previous) completed) attr])"

definition completed_attempt :: "completion \<Rightarrow> instant \<Rightarrow> stage_attempt \<Rightarrow> stage_attempt" where
  "completed_attempt c completed current =
     current\<lparr>
       a_disposition := or_else (c_disposition c) (a_disposition current),
       a_completedAt := Some completed,
       a_status := (if c_suspended c then ASuspended
                    else if c_exitCode c = 0 then AComplete else AFailed),
       a_duration_ms := Some (c_duration_ms c),
       a_exitCode := Some (c_exitCode c),
       a_processExitCode := c_processExitCode c,
       a_processSignal := c_processSignal c,
       a_providerFailure := c_providerFailure c,
       tokens_in := or_else (tokens_in c) (tokens_in current),
       tokens_out := or_else (tokens_out c) (tokens_out current),
       tokens_cached := or_else (tokens_cached c) (tokens_cached current),
       tokens_cache_created := or_else (tokens_cache_created c) (tokens_cache_created current),
       tokens_reasoning := or_else (tokens_reasoning c) (tokens_reasoning current),
       cost_usd := or_else (cost_usd c) (cost_usd current),
       costUsage := or_else (costUsage c) (costUsage current),
       tokenUsage := Some (dflt (or_else (tokenUsage c) (tokenUsage current))
                             (if tokensComplete c then UKnown else UUnknown)),
       a_invocations := or_else (c_invocations c) (a_invocations current),
       a_error := c_error c,
       a_terminationCause := Some (dflt (c_terminationCause c) CExit),
       a_engineVoid := c_engineVoid c,
       a_adapterFailureKind := c_adapterFailureKind c,
       a_writes := c_writes c,
       a_writeAttribution := c_writeAttribution c,
       a_validationGeneratedWrites := c_validationGeneratedWrites c,
       a_constraintAudit := c_constraintAudit c,
       a_timeout := c_timeout c,
       a_continuation := c_continuation c\<rparr>"

definition completedStageAttemptStatus ::
  "instant \<Rightarrow> stage_status option \<Rightarrow> nat \<Rightarrow> completion \<Rightarrow> stage_status" where
  "completedStageAttemptStatus now previous retries c =
     (let completed = dflt (c_completedAt c) now;
          attempts = ensure_running previous completed (c_attribution c);
          attempts = set_last (completed_attempt c completed (last attempts)) attempts;
          usage = sumInvocationUsage attempts
      in (bare_status (if c_suspended c then SPending
                       else if c_exitCode c = 0 then SComplete else SFailed) retries)\<lparr>
           s_exitCode := Some (c_exitCode c),
           s_processExitCode := c_processExitCode c,
           s_processSignal := c_processSignal c,
           s_providerFailure := c_providerFailure c,
           s_duration_ms := sumAttemptField (map a_duration_ms attempts),
           s_artifacts := uniqueStrings [field s_artifacts previous, c_artifacts c],
           s_startedAt := map_option a_startedAt (if attempts = [] then None else Some (hd attempts)),
           s_completedAt := (if c_suspended c then None else Some completed),
           s_error := (if c_suspended c then None else c_error c),
           tokens_in := sumAttemptField (map tokens_in attempts),
           tokens_out := sumAttemptField (map tokens_out attempts),
           tokens_cached := tokens_cached usage,
           tokens_cache_created := tokens_cache_created usage,
           tokens_reasoning := tokens_reasoning usage,
           cost_usd := cost_usd usage,
           costUsage := costUsage usage,
           s_attempts := Some attempts,
           s_reruns := Some (length attempts - 1),
           s_writes := uniqueStrings [field s_writes previous, c_writes c],
           s_writeAttribution := or_else (c_writeAttribution c) (field s_writeAttribution previous),
           s_validationGeneratedWrites := uniqueStrings
             [field s_validationGeneratedWrites previous, c_validationGeneratedWrites c],
           s_constraintAudit := or_else (c_constraintAudit c) (field s_constraintAudit previous),
           s_timeout := or_else (c_timeout c) (field s_timeout previous),
           s_continuation := c_continuation c\<rparr>)"

datatype store_error =
    LedgerUnreadable
  | RunCancelled
  | IdentityInvalid
  | ExecutionIdentityChanged nat
  | NotClosedChild nat
  | AttemptMissing nat

record failure =
  f_exitCode :: int
  f_error :: string
  f_terminationCause :: "cause option"

definition closedStageStatus ::
  "instant \<Rightarrow> stage_status \<Rightarrow> nat \<Rightarrow> completion \<Rightarrow> store_error + stage_status" where
  "closedStageStatus now previous attemptIndex c =
     (case at_last (attempts_of previous) of
        None \<Rightarrow> Inl (ExecutionIdentityChanged attemptIndex)
      | Some active \<Rightarrow>
          if a_index active \<noteq> attemptIndex \<or> a_status active \<noteq> ARunning
          then Inl (ExecutionIdentityChanged attemptIndex)
          else let status = completedStageAttemptStatus now (Some previous) (s_retries previous) c;
                   attempts = attempts_of status
               in Inr (status\<lparr>
                    s_attempts := Some (set_last ((last attempts)\<lparr>a_status := AClosed\<rparr>) attempts),
                    s_status := SRunning, s_completedAt := None, s_error := None\<rparr>))"

definition settled_attempt :: "bool \<Rightarrow> failure option \<Rightarrow> stage_attempt \<Rightarrow> stage_attempt" where
  "settled_attempt suspended failure attempt =
     (let attempt = (case failure of
            None \<Rightarrow> attempt
          | Some f \<Rightarrow> attempt\<lparr>a_exitCode := Some (f_exitCode f), a_error := Some (f_error f),
                       a_terminationCause := Some (dflt (f_terminationCause f) CExit)\<rparr>);
          attempt = (if a_exitCode attempt \<noteq> Some 0
                     then attempt\<lparr>a_continuation := None\<rparr> else attempt)
      in attempt\<lparr>a_status := (if a_exitCode attempt \<noteq> Some 0 then AFailed
                              else if suspended \<or> a_status attempt = ASuspended then ASuspended
                              else AComplete)\<rparr>)"

fun settled_stage_state :: "attempt_state \<Rightarrow> stage_state" where
  \<comment> \<open>\<open>attempt.status === 'suspended' ? PENDING : attempt.status\<close> of a settled attempt\<close>
  "settled_stage_state ASuspended = SPending"
| "settled_stage_state AComplete = SComplete"
| "settled_stage_state AFailed = SFailed"
| "settled_stage_state ARunning = SRunning"
| "settled_stage_state AClosed = SRunning"

definition settledStageAttemptStatus ::
  "stage_status \<Rightarrow> nat \<Rightarrow> bool \<Rightarrow> failure option \<Rightarrow> store_error + stage_status" where
  "settledStageAttemptStatus previous attemptIndex suspended failure =
     (case at_last (attempts_of previous) of
        None \<Rightarrow> Inl (NotClosedChild attemptIndex)
      | Some attempt \<Rightarrow>
          if a_index attempt \<noteq> attemptIndex \<or> a_status attempt = ARunning
          then Inl (NotClosedChild attemptIndex)
          else let attempt = settled_attempt suspended failure attempt;
                   susp = (a_status attempt = ASuspended)
               in Inr (previous\<lparr>
                    s_attempts := Some (set_last attempt (attempts_of previous)),
                    s_continuation := a_continuation attempt,
                    s_status := settled_stage_state (a_status attempt),
                    s_exitCode := (if susp then None else a_exitCode attempt),
                    s_completedAt := (if susp then None else a_completedAt attempt),
                    s_error := (if susp then None else a_error attempt)\<rparr>))"

definition attachedAuditStatus ::
  "stage_status \<Rightarrow> nat \<Rightarrow> json \<Rightarrow> string option \<Rightarrow> store_error + stage_status" where
  "attachedAuditStatus status attemptIndex audit violationError =
     (let attempts = attempts_of status; violated = (dflt violationError [] \<noteq> []) in
      case find_index (\<lambda>a. a_index a = attemptIndex) attempts of
        None \<Rightarrow> Inl (AttemptMissing attemptIndex)
      | Some i \<Rightarrow>
          let a = (attempts ! i)\<lparr>a_constraintAudit := Some audit\<rparr>;
              a = (if violated then a\<lparr>a_status := AFailed, a_exitCode := Some 1,
                       a_error := violationError, a_continuation := None\<rparr> else a);
              st = status\<lparr>s_attempts := Some (attempts[i := a]), s_constraintAudit := Some audit\<rparr>
          in Inr (if violated then st\<lparr>s_status := SFailed, s_exitCode := Some 1,
                       s_error := violationError, s_continuation := None\<rparr> else st))"

definition suspendedStageStatus ::
  "instant \<Rightarrow> stage_status \<Rightarrow> nat \<Rightarrow> store_error + stage_status" where
  "suspendedStageStatus now previous attemptIndex =
     (let attempts = attempts_of previous in
      case find_index (\<lambda>a. a_index a = attemptIndex) attempts of
        None \<Rightarrow> Inl (AttemptMissing attemptIndex)
      | Some i \<Rightarrow>
          let a = (attempts ! i)\<lparr>a_status := ASuspended,
                     a_completedAt := Some (dflt (a_completedAt (attempts ! i)) now)\<rparr>
          in Inr (previous\<lparr>s_status := SPending, s_exitCode := None, s_completedAt := None,
                    s_error := None, s_attempts := Some (attempts[i := a])\<rparr>))"

definition rependStageStatus ::
  "stage_status option \<Rightarrow> nat option \<Rightarrow> string option \<Rightarrow> stage_status" where
  "rependStageStatus previous retries error =
     (let base = (case previous of None \<Rightarrow> bare_status SPending 0 | Some st \<Rightarrow> st)
      in base\<lparr>s_status := SPending,
              s_retries := dflt retries (case previous of None \<Rightarrow> 0 | Some st \<Rightarrow> s_retries st),
              s_error := or_else error (field s_error previous),
              s_gate := None, s_acceptedFrom := None, s_continuation := None\<rparr>)"

definition interruption_completion ::
  "stage_attempt \<Rightarrow> instant \<Rightarrow> string \<Rightarrow> cause \<Rightarrow> completion" where
  "interruption_completion attempt completed error c =
     (let u = sumInvocationUsage [attempt\<lparr>tokenUsage := Some UUnknown, costUsage := Some UUnknown\<rparr>]
      in (plain_completion 143 (of_int (max 0 (completed - a_startedAt attempt))))\<lparr>
           tokens_in := tokens_in u, tokens_out := tokens_out u,
           tokens_cached := tokens_cached u, tokens_cache_created := tokens_cache_created u,
           tokens_reasoning := tokens_reasoning u, cost_usd := cost_usd u,
           tokenUsage := tokenUsage u, costUsage := costUsage u,
           c_terminationCause := Some c, c_completedAt := Some completed,
           c_error := Some error\<rparr>)"

definition interruptedStageStatus ::
  "instant \<Rightarrow> stage_status \<Rightarrow> instant \<Rightarrow> string \<Rightarrow> cause \<Rightarrow> store_error + stage_status" where
  "interruptedStageStatus now previous completed error c =
     (case at_last (attempts_of previous) of
        Some attempt \<Rightarrow>
          (if a_status attempt = AClosed
           then settledStageAttemptStatus previous (a_index attempt) False
                  (Some \<lparr>f_exitCode = 143, f_error = error, f_terminationCause = Some c\<rparr>)
           else if a_status attempt = ARunning
           then Inr (completedStageAttemptStatus now (Some previous) (s_retries previous)
                       (interruption_completion attempt completed error c))
           else if s_status previous = SRunning then Inr (previous\<lparr>s_status := SFailed\<rparr>)
           else Inr previous)
      | None \<Rightarrow> if s_status previous = SRunning then Inr (previous\<lparr>s_status := SFailed\<rparr>)
                 else Inr previous)"

end
