(* ===== verification/Run_Store.thy ===== *)
theory Run_Store
  imports Attempts
begin

text \<open>
  The run store of \<open>src/src/store.ts\<close>: the compact projection \<open>run.json\<close>, the append-only
  history file it acknowledges, the commit of a new state
  (\<open>persistRunStateUnlocked\<close>), the compare-and-swap mutation loop
  (\<open>updateRunStateInDirectory\<close>), and the status observer of \<open>src/src/run-events.ts\<close>.

  Files.  The history file is a list of items: a complete JSON line or a torn tail left by a
  crash.  A byte offset is represented by the number of items before it, so
  \<open>committedBytes\<close> counts items; the comparisons of the source between the file size and
  the acknowledged length are kept.  A state is the record of the properties the store
  inspects, the remaining ones carried as \<open>rs_rest\<close>; property order is not observable.
  Each operation runs under the run-state lock, which every current writer takes, so between
  lock holders it is one step.  A legacy writer does not take the lock; what it does to the
  directory between the read of a mutation and its commit, and to \<open>run.json\<close> before each
  comparison inside the commit, are the fields of \<open>outside\<close>, a parameter of the mutation loop.
\<close>

datatype history_kind = RetiredStageUsage | StageEvidence

datatype history_item = HRec history_kind nat json | HTorn

record history_ref =
  h_committed :: nat
  h_retired_count :: nat
  h_evidence_count :: nat

record state_format =
  sf_revision :: nat
  sf_history :: "history_ref option"

record checkpoint =
  ck_at :: string
  ck_pid :: nat
  ck_processes :: "json list option"

record store_state =
  rs_runId :: string
  rs_projectDir :: string
  rs_workflowName :: string
  rs_currentIteration :: "nat option"
  rs_gateRetryRound :: "(nat \<times> nat) option"
  rs_status :: json
  rs_stages :: "(string \<times> stage_status) list"
  rs_retiredStageUsage :: "json list option"
  rs_stageEvidence :: "json list option"
  rs_engineHistory :: "json list option"
  rs_checkpoint :: "checkpoint option"
  rs_format :: "state_format option"
  rs_rest :: json

record run_event =
  e_type :: string
  e_status :: json
  e_observation :: "(instant option \<times> json) \<times> json"
  e_timestamp :: instant

record status_cursor =
  cu_status :: json
  cu_observedAt :: "instant option"

datatype run_json = NoRunJson | MalformedRunJson string | RunJson store_state

record run_dir =
  d_runjson :: run_json
  d_history :: "history_item list option"
  d_events :: "run_event list"
  d_cursor :: "status_cursor option"
  d_ledgers :: "(string \<times> stage_status) list"
  d_summaries :: "store_state list"
  d_gateRounds :: "(nat \<times> nat) list"
  d_livelogs :: "(string \<times> nat \<times> instant) list"

datatype persist_error =
    UnknownStatus json
  | RunIdMismatch
  | ProjectionConflict
  | CancelledPublication
  | HistoryMissing
  | HistoryTruncated
  | HistoryRewrite history_kind nat
  | HistoryMalformed
  | HistoryOffsetChanged
  | HistoryChanged
  | RunIdentityBinding
  | RunJsonUnreadable

section \<open>Comparison of persisted values\<close>

definition same_stages ::
  "(string \<times> stage_status) list \<Rightarrow> (string \<times> stage_status) list \<Rightarrow> bool" where
  "same_stages m m' = (\<forall>k \<in> set (map fst m @ map fst m'). map_of m k = map_of m' k)"

definition isJsonPersistedEqual :: "store_state \<Rightarrow> store_state \<Rightarrow> bool" where
  "isJsonPersistedEqual s t =
     (s\<lparr>rs_stages := []\<rparr> = t\<lparr>rs_stages := []\<rparr> \<and> same_stages (rs_stages s) (rs_stages t))"

section \<open>Histories\<close>

fun records_of :: "history_item list \<Rightarrow> persist_error + (history_kind \<times> nat \<times> json) list" where
  "records_of [] = Inr []"
| "records_of (HTorn # xs) = Inl HistoryMalformed"
| "records_of (HRec k i v # xs) = rbind (records_of xs) (\<lambda>rs. Inr ((k, i, v) # rs))"

definition slot :: "(history_kind \<times> nat \<times> json) list \<Rightarrow> history_kind \<Rightarrow> nat \<Rightarrow> json option" where
  \<comment> \<open>\<open>slots[kind].get(index)\<close>: the last record set wins\<close>
  "slot rs k i = map_of (map (\<lambda>(k, i, v). ((k, i), v)) (rev rs)) (k, i)"

fun materialize ::
  "(history_kind \<times> nat \<times> json) list \<Rightarrow> history_kind \<Rightarrow> nat \<Rightarrow> nat \<Rightarrow> persist_error + json list" where
  "materialize rs k i 0 = Inr []"
| "materialize rs k i (Suc n) =
     (case slot rs k i of
        None \<Rightarrow> Inl HistoryMalformed
      | Some v \<Rightarrow> rbind (materialize rs k (Suc i) n) (\<lambda>vs. Inr (v # vs)))"

definition readPrefix :: "history_item list option \<Rightarrow> nat \<Rightarrow> persist_error + history_item list" where
  "readPrefix file n =
     (if n = 0 then Inr []
      else case file of
             None \<Rightarrow> Inl HistoryMissing
           | Some items \<Rightarrow> if length items < n then Inl HistoryTruncated else Inr (take n items))"

definition readRunHistories ::
  "run_dir \<Rightarrow> history_ref option \<Rightarrow> persist_error + (json list \<times> json list)" where
  "readRunHistories dir ref =
     (case ref of
        None \<Rightarrow> Inr ([], [])
      | Some r \<Rightarrow>
          rbind (readPrefix (d_history dir) (h_committed r)) (\<lambda>items.
          rbind (records_of items) (\<lambda>rs.
          rbind (materialize rs RetiredStageUsage 0 (h_retired_count r)) (\<lambda>retired.
          rbind (materialize rs StageEvidence 0 (h_evidence_count r)) (\<lambda>evidence.
          Inr (retired, evidence))))))"

definition format_ref :: "state_format option \<Rightarrow> history_ref option" where
  "format_ref f = Option.bind f sf_history"

definition normalize_status :: "json \<Rightarrow> json" where
  "normalize_status v =
     (case resolveRunStatus v of Known st _ \<Rightarrow> JStr (run_status_name st) | Unknown _ \<Rightarrow> v)"

definition with_histories :: "store_state \<Rightarrow> json list \<times> json list \<Rightarrow> store_state" where
  "with_histories st h =
     (let st = (if fst h \<noteq> [] then st\<lparr>rs_retiredStageUsage := Some (fst h)\<rparr> else st)
      in if snd h \<noteq> [] then st\<lparr>rs_stageEvidence := Some (snd h)\<rparr> else st)"

definition migrate_round :: "(nat \<times> nat) list \<Rightarrow> store_state \<Rightarrow> store_state" where
  \<comment> \<open>the gate coordinate of a run older than the field: the highest archived round of the current
    iteration that holds a \<open>repair_diff.json\<close>\<close>
  "migrate_round archive parsed =
     (case (rs_gateRetryRound parsed, rs_currentIteration parsed) of
        (None, Some it) \<Rightarrow>
          let round = fold max (map snd (filter (\<lambda>(i, _). i = it) archive)) 0
          in if round > 0 then parsed\<lparr>rs_gateRetryRound := Some (it, round)\<rparr> else parsed
      | _ \<Rightarrow> parsed)"

definition project_reading :: "run_dir \<Rightarrow> store_state \<Rightarrow> store_state" where
  "project_reading dir parsed =
     migrate_round (d_gateRounds dir) (parsed\<lparr>
       rs_workflowName := (if rs_workflowName parsed = ''default'' then ''planner'' else rs_workflowName parsed),
       rs_status := normalize_status (rs_status parsed),
       rs_stages := map (\<lambda>(k, st). (k, projectAttemptCauses st)) (rs_stages parsed)\<rparr>)"

definition hydrateRunProjection :: "run_dir \<Rightarrow> store_state \<Rightarrow> persist_error + store_state" where
  "hydrateRunProjection dir parsed =
     (case rs_format parsed of
        None \<Rightarrow> Inr (project_reading dir parsed)
      | Some f \<Rightarrow> rbind (readRunHistories dir (format_ref (Some f)))
                    (\<lambda>h. Inr (with_histories (project_reading dir parsed) h)))"

fun first_difference :: "nat \<Rightarrow> json list \<Rightarrow> json list \<Rightarrow> nat option" where
  "first_difference i (x # xs) (y # ys) =
     (if x \<noteq> y then Some i else first_difference (Suc i) xs ys)"
| "first_difference i _ _ = None"

definition mergeImmutableHistory ::
  "history_kind \<Rightarrow> json list \<Rightarrow> json list option \<Rightarrow> persist_error + json list" where
  "mergeImmutableHistory k current incoming =
     (case incoming of
        None \<Rightarrow> Inr current
      | Some xs \<Rightarrow>
          (case first_difference 0 current xs of
             Some i \<Rightarrow> Inl (HistoryRewrite k i)
           | None \<Rightarrow> Inr (if length xs > length current then xs else current)))"

definition mergeStateHistories ::
  "store_state option \<Rightarrow> store_state \<Rightarrow> persist_error + store_state" where
  "mergeStateHistories current incoming =
     rbind (mergeImmutableHistory RetiredStageUsage
              (dflt (field rs_retiredStageUsage current) []) (rs_retiredStageUsage incoming)) (\<lambda>retired.
     rbind (mergeImmutableHistory StageEvidence
              (dflt (field rs_stageEvidence current) []) (rs_stageEvidence incoming)) (\<lambda>evidence.
     Inr (incoming\<lparr>rs_retiredStageUsage := Some retired, rs_stageEvidence := Some evidence\<rparr>)))"

definition normalizeHistoryTail :: "history_item list option \<Rightarrow> nat \<Rightarrow>
    persist_error + history_item list option" where
  "normalizeHistoryTail file committed =
     (case file of
        None \<Rightarrow> if committed > 0 then Inl HistoryMissing else Inr None
      | Some items \<Rightarrow> if length items < committed then Inl HistoryTruncated
                      else Inr (Some (take committed items)))"

definition delta_of :: "history_kind \<Rightarrow> json list \<Rightarrow> json list \<Rightarrow> history_item list" where
  "delta_of k committed desired =
     map (\<lambda>i. HRec k i (desired ! i))
       (filter (\<lambda>i. i \<ge> length committed \<or> committed ! i \<noteq> desired ! i) [0..<length desired])"

definition appendHistoryDelta ::
  "history_item list option \<Rightarrow> json list \<times> json list \<Rightarrow> json list \<times> json list \<Rightarrow> nat \<Rightarrow>
   persist_error + (history_item list option \<times> nat)" where
  "appendHistoryDelta file committed desired committedBytes =
     (let records = delta_of RetiredStageUsage (fst committed) (fst desired)
                    @ delta_of StageEvidence (snd committed) (snd desired)
      in if records = [] then Inr (file, committedBytes)
         else let items = dflt file []
              in if length items \<noteq> committedBytes then Inl HistoryOffsetChanged
                 else Inr (Some (items @ records), committedBytes + length records))"

section \<open>The status observer\<close>

definition observed_status :: "status_cursor option \<Rightarrow> json" where
  "observed_status cursor = (case cursor of None \<Rightarrow> JUndef | Some c \<Rightarrow> cu_status c)"

definition observed_timestamp :: "instant \<Rightarrow> run_event list \<Rightarrow> instant" where
  "observed_timestamp now recorded = (case recorded of [] \<Rightarrow> now | e # _ \<Rightarrow> e_timestamp e)"

definition status_events ::
  "(instant option \<times> json) \<times> json \<Rightarrow> json \<Rightarrow> json \<Rightarrow> instant \<Rightarrow> run_event list" where
  "status_events observation prior status timestamp =
     (let event = (\<lambda>t. \<lparr>e_type = t, e_status = status, e_observation = observation,
                      e_timestamp = timestamp\<rparr>)
      in event ''run_status_changed''
         # (if isTerminalRunStatus status \<and> \<not> isTerminalRunStatus prior
            then [event ''operator_wrap_up_required''] else []))"

definition observeRunStatusChange :: "instant \<Rightarrow> run_dir \<Rightarrow> json \<Rightarrow> run_dir" where
  "observeRunStatusChange now dir status =
     (let cursor = d_cursor dir; prior = observed_status cursor
      in if prior = status then dir
         else
           let observation = ((Option.bind cursor cu_observedAt, prior), status);
               recorded = filter (\<lambda>e. e_observation e = observation) (d_events dir);
               timestamp = observed_timestamp now recorded;
               fresh = filter (\<lambda>e. e_type e \<notin> set (map e_type recorded))
                         (status_events observation prior status timestamp)
           in dir\<lparr>d_events := d_events dir @ fresh,
                  d_cursor := Some \<lparr>cu_status = status, cu_observedAt = Some timestamp\<rparr>\<rparr>)"

section \<open>Committing a state\<close>

definition compactProjection :: "store_state \<Rightarrow> history_ref option \<Rightarrow> nat \<Rightarrow> store_state" where
  "compactProjection state ref revision =
     state\<lparr>rs_retiredStageUsage := None, rs_stageEvidence := None,
           rs_format := Some \<lparr>sf_revision = revision, sf_history = ref\<rparr>\<rparr>"

definition publishRunProjection :: "instant \<Rightarrow> run_dir \<Rightarrow> store_state \<Rightarrow> store_state \<Rightarrow> run_dir" where
  "publishRunProjection now dir projection summaryState =
     (let dir = (if isTerminalRunStatus (rs_status projection)
                 then dir\<lparr>d_summaries := d_summaries dir @ [summaryState]\<rparr> else dir)
      in observeRunStatusChange now (dir\<lparr>d_runjson := RunJson projection\<rparr>) (rs_status projection))"

definition overlay_attempt :: "stage_attempt \<Rightarrow> stage_attempt \<Rightarrow> stage_attempt" where
  \<comment> \<open>\<open>{ ...base, ...a }\<close>: every property \<open>a\<close> defines wins\<close>
  "overlay_attempt base a =
     a\<lparr>tokens_in := or_else (tokens_in a) (tokens_in base),
       tokens_out := or_else (tokens_out a) (tokens_out base),
       tokens_cached := or_else (tokens_cached a) (tokens_cached base),
       tokens_cache_created := or_else (tokens_cache_created a) (tokens_cache_created base),
       tokens_reasoning := or_else (tokens_reasoning a) (tokens_reasoning base),
       cost_usd := or_else (cost_usd a) (cost_usd base),
       tokenUsage := or_else (tokenUsage a) (tokenUsage base),
       costUsage := or_else (costUsage a) (costUsage base),
       a_attribution := or_else (a_attribution a) (a_attribution base),
       a_disposition := or_else (a_disposition a) (a_disposition base),
       a_invocations := or_else (a_invocations a) (a_invocations base),
       a_completedAt := or_else (a_completedAt a) (a_completedAt base),
       a_duration_ms := or_else (a_duration_ms a) (a_duration_ms base),
       a_exitCode := or_else (a_exitCode a) (a_exitCode base),
       a_processExitCode := or_else (a_processExitCode a) (a_processExitCode base),
       a_processSignal := or_else (a_processSignal a) (a_processSignal base),
       a_providerFailure := or_else (a_providerFailure a) (a_providerFailure base),
       a_error := or_else (a_error a) (a_error base),
       a_terminationCause := or_else (a_terminationCause a) (a_terminationCause base),
       a_engineVoid := or_else (a_engineVoid a) (a_engineVoid base),
       a_adapterFailureKind := or_else (a_adapterFailureKind a) (a_adapterFailureKind base),
       a_writes := or_else (a_writes a) (a_writes base),
       a_writeAttribution := or_else (a_writeAttribution a) (a_writeAttribution base),
       a_validationGeneratedWrites :=
         or_else (a_validationGeneratedWrites a) (a_validationGeneratedWrites base),
       a_constraintAudit := or_else (a_constraintAudit a) (a_constraintAudit base),
       a_timeout := or_else (a_timeout a) (a_timeout base),
       a_continuation := or_else (a_continuation a) (a_continuation base)\<rparr>"

definition merge_legacy_attempts :: "stage_attempt list \<Rightarrow> stage_attempt list \<Rightarrow> stage_attempt list" where
  \<comment> \<open>the rows \<open>run.json\<close> selects over the ledger's, by attempt index, in index order\<close>
  "merge_legacy_attempts ledger own =
     (let own = map (\<lambda>a. case find (\<lambda>b. a_index b = a_index a) ledger of
                         None \<Rightarrow> a | Some b \<Rightarrow> overlay_attempt b a) own
      in sort_key a_index (map snd (fold (\<lambda>a. amap_set (a_index a) a) (ledger @ own) [])))"

definition project_legacy_ledgers :: "run_dir \<Rightarrow> store_state \<Rightarrow> run_dir \<times> store_state" where
  "project_legacy_ledgers dir merged =
     (let upgrade = (\<lambda>id st. case map_of (d_ledgers dir) id of
            None \<Rightarrow> st
          | Some led \<Rightarrow> if attempts_of led \<noteq> []
                        then st\<lparr>s_attempts := Some (merge_legacy_attempts (attempts_of led) (attempts_of st))\<rparr>
                        else st);
          stages = map (\<lambda>(id, st). (id, upgrade id st)) (rs_stages merged)
      in (dir\<lparr>d_ledgers := fold (\<lambda>(id, st). amap_set id st) stages (d_ledgers dir)\<rparr>,
          merged\<lparr>rs_stages := stages\<rparr>))"

definition merge_processes :: "store_state option \<Rightarrow> store_state \<Rightarrow> store_state" where
  "merge_processes current merged =
     (case rs_checkpoint merged of
        None \<Rightarrow> merged
      | Some ck \<Rightarrow>
          (case Option.bind current rs_checkpoint of
             None \<Rightarrow> merged
           | Some cur \<Rightarrow>
               if ck_at cur = ck_at ck \<and> ck_pid cur = ck_pid ck \<and> ck_processes ck \<noteq> None
               then merged\<lparr>rs_checkpoint := Some (ck\<lparr>ck_processes := Some
                      (uniq (the (ck_processes ck) @ dflt (ck_processes cur) []))\<rparr>)\<rparr>
               else merged))"

definition merge_engine_history :: "store_state option \<Rightarrow> store_state \<Rightarrow> store_state" where
  "merge_engine_history current merged =
     merged\<lparr>rs_engineHistory := Some
       (uniq (dflt (field rs_engineHistory current) [] @ dflt (rs_engineHistory merged) []))\<rparr>"

definition current_of :: "run_dir \<Rightarrow> persist_error + (store_state \<times> store_state) option" where
  \<comment> \<open>the parsed projection and its hydrated state; a malformed file may be replaced\<close>
  "current_of dir =
     (case d_runjson dir of
        RunJson parsed \<Rightarrow>
          (case resolveRunStatus (rs_status parsed) of
             Unknown raw \<Rightarrow> Inl (UnknownStatus raw)
           | Known _ _ \<Rightarrow> rbind (hydrateRunProjection dir parsed) (\<lambda>st. Inr (Some (parsed, st))))
      | _ \<Rightarrow> Inr None)"

definition copyPersistedHistoryState :: "store_state \<Rightarrow> store_state \<Rightarrow> store_state \<Rightarrow> store_state" where
  "copyPersistedHistoryState target merged projection =
     target\<lparr>rs_format := rs_format projection,
            rs_retiredStageUsage := rs_retiredStageUsage merged,
            rs_stageEvidence := rs_stageEvidence merged\<rparr>"

definition publish_commit ::
  "instant \<Rightarrow> run_dir \<Rightarrow> store_state \<Rightarrow> store_state \<Rightarrow> history_ref option \<Rightarrow> nat \<Rightarrow>
   run_dir \<times> (persist_error + store_state)" where
  "publish_commit now dir state merged ref revision =
     (let projection = compactProjection merged ref revision
      in (publishRunProjection now dir projection merged,
          Inr (copyPersistedHistoryState state merged projection)))"

definition commit_projection ::
  "instant \<Rightarrow> run_dir \<Rightarrow> store_state option \<Rightarrow> store_state \<Rightarrow> store_state \<Rightarrow>
   history_ref option \<Rightarrow> run_dir \<times> (persist_error + store_state)" where
  "commit_projection now dir currentProjection state merged ref =
     (let revision = (case field rs_format currentProjection of None \<Rightarrow> 0 | Some f \<Rightarrow> sf_revision f);
          comparable = compactProjection merged ref revision
      in (case currentProjection of
            Some p \<Rightarrow>
              if isJsonPersistedEqual p comparable
              then (observeRunStatusChange now dir (rs_status comparable),
                    Inr (copyPersistedHistoryState state merged comparable))
              else let (dir, merged) = (if rs_format p = None
                         then project_legacy_ledgers dir merged else (dir, merged))
                   in publish_commit now dir state merged ref (revision + 1)
          | None \<Rightarrow> publish_commit now dir state merged ref (revision + 1)))"

definition committed_bytes :: "history_ref option \<Rightarrow> nat" where
  "committed_bytes ref = (case ref of None \<Rightarrow> 0 | Some r \<Rightarrow> h_committed r)"

definition ref_after :: "nat \<Rightarrow> json list \<Rightarrow> json list \<Rightarrow> history_ref option" where
  "ref_after n d1 d2 =
     (if n > 0 \<or> d1 \<noteq> [] \<or> d2 \<noteq> []
      then Some \<lparr>h_committed = n, h_retired_count = length d1, h_evidence_count = length d2\<rparr>
      else None)"

definition merge_state :: "store_state option \<Rightarrow> store_state \<Rightarrow> persist_error + store_state" where
  "merge_state current state =
     rbind (mergeStateHistories current state)
       (\<lambda>m. Inr (merge_processes current (merge_engine_history current m)))"

definition histories_of :: "store_state \<Rightarrow> json list \<times> json list" where
  "histories_of st = (dflt (rs_retiredStageUsage st) [], dflt (rs_stageEvidence st) [])"

definition persist_merged ::
  "instant \<Rightarrow> run_dir \<Rightarrow> (store_state \<times> store_state) option \<Rightarrow> store_state \<Rightarrow>
   run_dir \<times> (persist_error + store_state)" where
  \<comment> \<open>from the history tail to the published projection; the caller's state receives the
    committed histories and format (\<open>copyPersistedHistoryState\<close>)\<close>
  "persist_merged now dir current state =
     (let currentProjection = map_option fst current; currentState = map_option snd current;
          ref = format_ref (field rs_format currentProjection)
      in case normalizeHistoryTail (d_history dir) (committed_bytes ref) of
           Inl e \<Rightarrow> (dir, Inl e)
         | Inr file \<Rightarrow>
             let dir = dir\<lparr>d_history := file\<rparr> in
             (case readRunHistories dir ref of
                Inl e \<Rightarrow> (dir, Inl e)
              | Inr committedHistories \<Rightarrow>
                  (case merge_state currentState state of
                     Inl e \<Rightarrow> (dir, Inl e)
                   | Inr merged \<Rightarrow>
                       let desired = histories_of merged in
                       (case appendHistoryDelta file committedHistories desired (committed_bytes ref) of
                          Inl e \<Rightarrow> (dir, Inl e)
                        | Inr (file, nextBytes) \<Rightarrow>
                            commit_projection now (dir\<lparr>d_history := file\<rparr>) currentProjection state merged
                              (ref_after nextBytes (fst desired) (snd desired))))))"

definition persist_over ::
  "instant \<Rightarrow> run_dir \<Rightarrow> (store_state \<times> store_state) option \<Rightarrow> store_state \<Rightarrow> run_json option \<Rightarrow>
   run_dir \<times> (persist_error + store_state)" where
  \<comment> \<open>the cancellation fence, then the commit\<close>
  "persist_over now dir current state expectation =
     (case current of
        Some (p, cur) \<Rightarrow>
          if rs_status cur = JStr ''cancelled''
          then if isJsonPersistedEqual cur state
               then (observeRunStatusChange now dir (rs_status state),
                     Inr (copyPersistedHistoryState state cur cur))
               else if expectation = None \<or> rs_status state \<noteq> JStr ''running''
               then (dir, Inl CancelledPublication)
               else persist_merged now dir current state
          else persist_merged now dir current state
      | None \<Rightarrow> persist_merged now dir current state)"

definition persistRunStateUnlocked ::
  "instant \<Rightarrow> run_dir \<Rightarrow> string \<Rightarrow> store_state \<Rightarrow> run_json option \<Rightarrow>
   run_dir \<times> (persist_error + store_state)" where
  "persistRunStateUnlocked now dir runId state expectation =
     (case resolveRunStatus (rs_status state) of
        Unknown raw \<Rightarrow> (dir, Inl (UnknownStatus raw))
      | Known st _ \<Rightarrow>
          let state = state\<lparr>rs_status := JStr (run_status_name st)\<rparr> in
          if rs_runId state \<noteq> runId then (dir, Inl RunIdMismatch)
          else
            (case current_of dir of
               Inl e \<Rightarrow> (dir, Inl e)
             | Inr current \<Rightarrow>
                 if expectation \<noteq> None \<and> the expectation \<noteq> d_runjson dir
                 then (dir, Inl ProjectionConflict)
                 else persist_over now dir current state expectation))"

definition writeRunState ::
  "instant \<Rightarrow> run_dir \<Rightarrow> string \<Rightarrow> store_state \<Rightarrow>
   run_dir \<times> (persist_error + store_state)" where
  "writeRunState now dir runId state = persistRunStateUnlocked now dir runId state None"

text \<open>
  \<open>assertProjectionUnchanged\<close>: a commit compares the bytes of \<open>run.json\<close> with the ones it
  started from once before it publishes anything and, for a terminal status, once more after
  the summary is written.  \<open>w\<close> gives what a writer outside the lock has put there by each
  comparison, if anything.  A commit that observes an acknowledged cancellation returns before
  the comparisons; one that changes nothing makes the first only.  The history tail and the
  upgraded ledgers are on disk by then, and stay there when the comparison fails.  Between the
  last comparison and the rename nothing is compared: a write there is overwritten.
\<close>

datatype check_point = AtPublication | AfterSummary

definition observes_cancelled :: "run_dir \<Rightarrow> store_state \<Rightarrow> bool" where
  "observes_cancelled dir state =
     (case current_of dir of
        Inr (Some (p, cur)) \<Rightarrow> rs_status cur = JStr ''cancelled''
          \<and> isJsonPersistedEqual cur (state\<lparr>rs_status := normalize_status (rs_status state)\<rparr>)
      | _ \<Rightarrow> False)"

definition persist_racing ::
  "instant \<Rightarrow> (check_point \<Rightarrow> run_json option) \<Rightarrow> run_dir \<Rightarrow> string \<Rightarrow> store_state \<Rightarrow> run_json option \<Rightarrow>
   run_dir \<times> (persist_error + store_state)" where
  "persist_racing now w dir runId state expectation =
     (case persistRunStateUnlocked now dir runId state expectation of
        (dir', Inl e) \<Rightarrow> (dir', Inl e)
      | (dir', Inr state') \<Rightarrow>
          let currentRaw = d_runjson dir;
              prepared = dir\<lparr>d_history := d_history dir', d_ledgers := d_ledgers dir'\<rparr>;
              latestRaw = dflt (w AtPublication) currentRaw
          in if observes_cancelled dir state then (dir', Inr state')
             else if latestRaw \<noteq> currentRaw
             then (prepared\<lparr>d_runjson := latestRaw\<rparr>, Inl ProjectionConflict)
             else if d_summaries dir' = d_summaries dir then (dir', Inr state')
             else let latestRaw = dflt (w AfterSummary) currentRaw
                  in if latestRaw \<noteq> currentRaw
                     then (prepared\<lparr>d_runjson := latestRaw, d_summaries := d_summaries dir'\<rparr>,
                           Inl ProjectionConflict)
                     else (dir', Inr state'))"

text \<open>
  The mutation loop: read, hydrate, mutate, commit against the bytes read.  Only a conflict
  is retried, at most five times.  The mutator may raise.  In attempt \<open>k\<close> a writer outside
  the lock applies \<open>before_commit k\<close> between the read and the commit, and
  \<open>during_commit k\<close> within it.
\<close>

record outside =
  before_commit :: "nat \<Rightarrow> run_dir \<Rightarrow> run_dir"
  during_commit :: "nat \<Rightarrow> check_point \<Rightarrow> run_json option"

fun mutation_attempts ::
  "instant \<Rightarrow> outside \<Rightarrow> string \<Rightarrow>
   (run_dir \<Rightarrow> store_state \<Rightarrow> run_dir \<times> (persist_error + store_state)) \<Rightarrow> nat \<Rightarrow> nat \<Rightarrow> run_dir \<Rightarrow>
   run_dir \<times> (persist_error + store_state)" where
  "mutation_attempts now others runId mutator k 0 dir = (dir, Inl ProjectionConflict)"
| "mutation_attempts now others runId mutator k (Suc n) dir =
     (case d_runjson dir of
        RunJson parsed \<Rightarrow>
          (case hydrateRunProjection dir parsed of
             Inl e \<Rightarrow> (dir, Inl e)
           | Inr state \<Rightarrow>
               (case mutator dir state of
                  (dir, Inl e) \<Rightarrow> (dir, Inl e)
                | (dir, Inr state) \<Rightarrow>
                    (case persist_racing now (during_commit others k) (before_commit others k dir)
                            runId state (Some (RunJson parsed)) of
                       (dir, Inr state) \<Rightarrow> (dir, Inr state)
                     | (dir, Inl ProjectionConflict) \<Rightarrow>
                         mutation_attempts now others runId mutator (Suc k) n dir
                     | (dir, Inl e) \<Rightarrow> (dir, Inl e))))
      | _ \<Rightarrow> (dir, Inl RunJsonUnreadable))"

definition updateRunState ::
  "instant \<Rightarrow> outside \<Rightarrow> string \<Rightarrow>
   (run_dir \<Rightarrow> store_state \<Rightarrow> run_dir \<times> (persist_error + store_state)) \<Rightarrow> run_dir \<Rightarrow>
   run_dir \<times> (persist_error + store_state)" where
  "updateRunState now others runId mutator dir =
     mutation_attempts now others runId mutator 0 5 dir"

end
