(* ===== verification/Run_Commit.thy ===== *)
theory Run_Commit
  imports Run_Store
begin

text \<open>
  What a commit of the run store guarantees: the histories a reader reconstructs from the
  two files are exactly the ones committed, acknowledged records are never rewritten or
  lost, a torn tail of a crashed writer is dropped, an acknowledged cancellation is not
  overwritten, and a failed commit leaves the projection alone.
\<close>

section \<open>Reading back what was appended\<close>

lemma records_of_append:
  "records_of (xs @ ys) = rbind (records_of xs) (\<lambda>a. rbind (records_of ys) (\<lambda>b. Inr (a @ b)))"
proof (induction xs)
  case Nil
  show ?case by (cases "records_of ys") simp_all
next
  case (Cons x xs)
  then show ?case
    by (cases x; cases "records_of xs"; cases "records_of ys") simp_all
qed

definition delta_indexes :: "json list \<Rightarrow> json list \<Rightarrow> nat list" where
  "delta_indexes committed desired =
     filter (\<lambda>i. i \<ge> length committed \<or> committed ! i \<noteq> desired ! i) [0..<length desired]"

lemma records_of_recs: "records_of (map (\<lambda>i. HRec k i (f i)) js) = Inr (map (\<lambda>i. (k, i, f i)) js)"
  by (induction js) simp_all

lemma records_of_delta:
  "records_of (delta_of k c d) = Inr (map (\<lambda>i. (k, i, d ! i)) (delta_indexes c d))"
  by (simp add: delta_of_def delta_indexes_def records_of_recs)

lemma slot_append:
  "slot (rs @ rs') k i = (case slot rs' k i of Some v \<Rightarrow> Some v | None \<Rightarrow> slot rs k i)"
  by (auto simp: slot_def map_add_def split: option.splits)

lemma map_of_slots:
  "map_of (map ((\<lambda>(k, i, v). ((k, i), v)) \<circ> (\<lambda>i. (k, i, f i))) js) (k', i)
     = (if k' = k \<and> i \<in> set js then Some (f i) else None)"
  by (induction js) auto

lemma slot_recs:
  "slot (map (\<lambda>i. (k, i, f i)) js) k' i = (if k' = k \<and> i \<in> set js then Some (f i) else None)"
  by (simp add: slot_def rev_map map_of_slots)

lemma materialize_iff:
  "materialize rs k i n = Inr vs \<longleftrightarrow>
     length vs = n \<and> (\<forall>j < n. slot rs k (i + j) = Some (vs ! j))"
proof (induction n arbitrary: i vs)
  case 0
  show ?case by auto
next
  case (Suc n)
  show ?case
  proof (cases vs)
    case Nil
    then show ?thesis by (auto split: option.splits)
  next
    case (Cons w ws)
    have "(\<forall>j < Suc n. slot rs k (i + j) = Some ((w # ws) ! j)) \<longleftrightarrow>
      slot rs k i = Some w \<and> (\<forall>j < n. slot rs k (Suc i + j) = Some (ws ! j))"
      by (auto simp: less_Suc_eq_0_disj)
    with Cons show ?thesis by (auto simp: Suc.IH split: option.splits)
  qed
qed

lemma delta_slot:
  assumes "\<forall>j < length c. slot rs k j = Some (c ! j)" and "j < length d"
  shows "(case slot (map (\<lambda>i. (k, i, d ! i)) (delta_indexes c d)) k j of
            Some v \<Rightarrow> Some v | None \<Rightarrow> slot rs k j) = Some (d ! j)"
  using assms by (auto simp: slot_recs delta_indexes_def not_le)

lemma other_slot:
  "k' \<noteq> k \<Longrightarrow> slot (map (\<lambda>i. (k, i, d ! i)) js) k' j = None"
  by (simp add: slot_recs)

lemma materialize_after_delta:
  assumes r: "materialize rs RetiredStageUsage 0 (length c1) = Inr c1"
    and e: "materialize rs StageEvidence 0 (length c2) = Inr c2"
    and rs': "rs' = rs @ map (\<lambda>i. (RetiredStageUsage, i, d1 ! i)) (delta_indexes c1 d1)
                      @ map (\<lambda>i. (StageEvidence, i, d2 ! i)) (delta_indexes c2 d2)"
  shows "materialize rs' RetiredStageUsage 0 (length d1) = Inr d1"
    and "materialize rs' StageEvidence 0 (length d2) = Inr d2"
proof -
  from r have r': "\<forall>j < length c1. slot rs RetiredStageUsage j = Some (c1 ! j)"
    by (simp add: materialize_iff)
  from e have e': "\<forall>j < length c2. slot rs StageEvidence j = Some (c2 ! j)"
    by (simp add: materialize_iff)
  show "materialize rs' RetiredStageUsage 0 (length d1) = Inr d1"
    using delta_slot [OF r'] by (simp add: materialize_iff rs' slot_append other_slot)
  show "materialize rs' StageEvidence 0 (length d2) = Inr d2"
  proof -
    have "slot (map (\<lambda>i. (RetiredStageUsage, i, d1 ! i)) (delta_indexes c1 d1)) StageEvidence j = None"
      for j by (rule other_slot) simp
    then have "slot rs' StageEvidence j = Some (d2 ! j)" if "j < length d2" for j
      using delta_slot [OF e' that]
      by (cases "slot (map (\<lambda>i. (StageEvidence, i, d2 ! i)) (delta_indexes c2 d2)) StageEvidence j")
         (simp_all add: rs' slot_append)
    then show ?thesis by (simp add: materialize_iff)
  qed
qed

text \<open>The two-file protocol: after the append, the new reference reads back the new histories.\<close>

lemma read_materialized:
  assumes "readRunHistories dir ref = Inr (c1, c2)"
  obtains rs where "records_of (take (committed_bytes ref) (dflt (d_history dir) [])) = Inr rs"
    and "materialize rs RetiredStageUsage 0 (length c1) = Inr c1"
    and "materialize rs StageEvidence 0 (length c2) = Inr c2"
proof (cases ref)
  case None
  with assms have "c1 = []" "c2 = []" by (simp_all add: readRunHistories_def)
  with None that [of "[]"] show thesis by (simp add: committed_bytes_def)
next
  case (Some r)
  with assms obtain items rs where i: "readPrefix (d_history dir) (h_committed r) = Inr items"
    and rs: "records_of items = Inr rs"
    and m: "materialize rs RetiredStageUsage 0 (h_retired_count r) = Inr c1"
      "materialize rs StageEvidence 0 (h_evidence_count r) = Inr c2"
    by (auto simp: readRunHistories_def)
  from i have "items = take (h_committed r) (dflt (d_history dir) [])"
    by (auto simp: readPrefix_def split: if_splits option.splits)
  moreover from m have "length c1 = h_retired_count r" "length c2 = h_evidence_count r"
    by (simp_all add: materialize_iff)
  ultimately show thesis using that [of rs] rs m Some by (simp add: committed_bytes_def)
qed

lemma append_reads_back:
  assumes read: "readRunHistories dir ref = Inr (c1, c2)"
    and tail: "length (dflt (d_history dir) []) = committed_bytes ref"
    and app: "appendHistoryDelta (d_history dir) (c1, c2) (d1, d2) (committed_bytes ref) = Inr (hfile, n)"
    and dir': "d_history dir' = hfile"
  shows "readRunHistories dir' (ref_after n d1 d2) = Inr (d1, d2)"
proof -
  let ?items = "dflt (d_history dir) []"
  let ?delta = "delta_of RetiredStageUsage c1 d1 @ delta_of StageEvidence c2 d2"
  obtain rs where rs: "records_of ?items = Inr rs"
    and c: "materialize rs RetiredStageUsage 0 (length c1) = Inr c1"
      "materialize rs StageEvidence 0 (length c2) = Inr c2"
    using read_materialized [OF read] tail by (metis order_refl take_all)
  let ?rs' = "rs @ map (\<lambda>i. (RetiredStageUsage, i, d1 ! i)) (delta_indexes c1 d1)
                  @ map (\<lambda>i. (StageEvidence, i, d2 ! i)) (delta_indexes c2 d2)"
  have rs': "records_of (?items @ ?delta) = Inr ?rs'"
    by (simp add: records_of_append rs records_of_delta)
  have hf: "dflt hfile [] = ?items @ ?delta" and n: "n = length (?items @ ?delta)"
    using app tail by (auto simp: appendHistoryDelta_def Let_def split: if_splits)
  note m = materialize_after_delta [OF c refl, of d1 d2]
  show ?thesis
  proof (cases "n > 0 \<or> d1 \<noteq> [] \<or> d2 \<noteq> []")
    case False
    then show ?thesis by (simp add: ref_after_def readRunHistories_def)
  next
    case True
    have "readPrefix (d_history dir') n = Inr (?items @ ?delta)"
      using hf n dir' by (cases hfile) (auto simp: readPrefix_def)
    with True rs' m show ?thesis by (simp add: ref_after_def readRunHistories_def)
  qed
qed

section \<open>The histories a reader sees\<close>

definition reader_histories :: "run_dir \<Rightarrow> (json list \<times> json list) option" where
  "reader_histories dir =
     (case d_runjson dir of
        RunJson p \<Rightarrow> (case hydrateRunProjection dir p of Inr st \<Rightarrow> Some (histories_of st) | Inl _ \<Rightarrow> None)
      | _ \<Rightarrow> None)"

definition read_state :: "run_dir \<Rightarrow> store_state option" where
  \<comment> \<open>what a reader of the directory is given\<close>
  "read_state dir =
     (case d_runjson dir of
        RunJson p \<Rightarrow> (case hydrateRunProjection dir p of Inr st \<Rightarrow> Some st | Inl _ \<Rightarrow> None)
      | _ \<Rightarrow> None)"

lemma reader_histories_read: "reader_histories dir = map_option histories_of (read_state dir)"
  by (simp add: reader_histories_def read_state_def split: run_json.split sum.split)

definition upgraded_stage :: "run_dir \<Rightarrow> string \<Rightarrow> stage_status \<Rightarrow> stage_status" where
  \<comment> \<open>the first commit over a projection older than the history format completes the attempts of a
    stage from its ledger\<close>
  "upgraded_stage dir k st =
     (case d_runjson dir of
        RunJson p \<Rightarrow>
          (case map_of (d_ledgers dir) k of
             Some led \<Rightarrow> if rs_format p = None \<and> attempts_of led \<noteq> []
               then st\<lparr>s_attempts := Some (merge_legacy_attempts (attempts_of led) (attempts_of st))\<rparr> else st
           | None \<Rightarrow> st)
      | _ \<Rightarrow> st)"

definition checkpoint_kept :: "checkpoint option \<Rightarrow> checkpoint option \<Rightarrow> bool" where
  \<comment> \<open>the same checkpoint, with at least the processes it had\<close>
  "checkpoint_kept old new =
     (case (old, new) of
        (None, None) \<Rightarrow> True
      | (Some a, Some b) \<Rightarrow> ck_at b = ck_at a \<and> ck_pid b = ck_pid a
          \<and> set (dflt (ck_processes a) []) \<subseteq> set (dflt (ck_processes b) [])
      | _ \<Rightarrow> False)"

definition carries :: "run_dir \<Rightarrow> store_state \<Rightarrow> store_state \<Rightarrow> bool" where
  \<comment> \<open>the reader's state \<open>r\<close> is the committed \<open>state\<close>, after the reader's normalisations\<close>
  "carries dir state r =
     (rs_runId r = rs_runId state \<and> rs_projectDir r = rs_projectDir state
      \<and> rs_currentIteration r = rs_currentIteration state \<and> rs_rest r = rs_rest state
      \<and> rs_status r = normalize_status (rs_status state)
      \<and> rs_workflowName r = (if rs_workflowName state = ''default'' then ''planner'' else rs_workflowName state)
      \<and> rs_gateRetryRound r = rs_gateRetryRound (migrate_round (d_gateRounds dir) state)
      \<and> (\<forall>k. map_of (rs_stages r) k
           = map_option (projectAttemptCauses \<circ> upgraded_stage dir k) (map_of (rs_stages state) k))
      \<and> set (dflt (rs_engineHistory state) []) \<subseteq> set (dflt (rs_engineHistory r) [])
      \<and> checkpoint_kept (rs_checkpoint state) (rs_checkpoint r))"

lemma observe_frame [simp]:
  "d_runjson (observeRunStatusChange now dir s) = d_runjson dir"
  "d_history (observeRunStatusChange now dir s) = d_history dir"
  "d_ledgers (observeRunStatusChange now dir s) = d_ledgers dir"
  "d_gateRounds (observeRunStatusChange now dir s) = d_gateRounds dir"
  by (simp_all add: observeRunStatusChange_def Let_def)

lemma publish_frame [simp]:
  "d_runjson (publishRunProjection now dir p s) = RunJson p"
  "d_history (publishRunProjection now dir p s) = d_history dir"
  by (simp_all add: publishRunProjection_def Let_def)

lemma project_legacy_frame:
  "project_legacy_ledgers dir merged = (dir', merged') \<Longrightarrow>
     d_history dir' = d_history dir \<and> rs_retiredStageUsage merged' = rs_retiredStageUsage merged
     \<and> rs_stageEvidence merged' = rs_stageEvidence merged \<and> d_runjson dir' = d_runjson dir"
  by (auto simp: project_legacy_ledgers_def Let_def)

lemma readRunHistories_cong:
  "d_history dir = d_history dir' \<Longrightarrow> readRunHistories dir ref = readRunHistories dir' ref"
  by (cases ref) (simp_all add: readRunHistories_def)

lemma project_reading_frame [simp]:
  "rs_status (project_reading dir p) = normalize_status (rs_status p)"
  "rs_stages (project_reading dir p) = map (\<lambda>(k, st). (k, projectAttemptCauses st)) (rs_stages p)"
  "rs_format (project_reading dir p) = rs_format p"
  "rs_retiredStageUsage (project_reading dir p) = rs_retiredStageUsage p"
  "rs_stageEvidence (project_reading dir p) = rs_stageEvidence p"
  "rs_runId (project_reading dir p) = rs_runId p"
  by (auto simp: project_reading_def migrate_round_def Let_def split: option.splits)

lemma map_of_tagged: "map_of (map (\<lambda>(k, v). (k, f k v)) m) k = map_option (f k) (map_of m k)"
  by (induction m) auto

lemma hydrate_cong:
  assumes "d_history dir = d_history dir'" and "d_gateRounds dir = d_gateRounds dir'"
  shows "hydrateRunProjection dir p = hydrateRunProjection dir' p"
proof -
  have "readRunHistories dir = readRunHistories dir'"
    by (rule ext) (rule readRunHistories_cong [OF assms(1)])
  moreover have "project_reading dir = project_reading dir'"
    by (rule ext) (simp add: project_reading_def assms(2))
  ultimately show ?thesis by (cases "rs_format p") (simp_all add: hydrateRunProjection_def)
qed

lemma hydrate_compact:
  assumes "readRunHistories dir ref = Inr (d1, d2)"
    and "rs_format p = Some f" "sf_history f = ref"
    and "rs_retiredStageUsage p = None" "rs_stageEvidence p = None"
    and "d_runjson dir = RunJson p"
  shows "reader_histories dir = Some (d1, d2)"
  using assms
  by (auto simp: reader_histories_def hydrateRunProjection_def format_ref_def Let_def histories_of_def with_histories_def)

lemma first_difference_None:
  "first_difference i xs ys = None \<Longrightarrow> take (min (length xs) (length ys)) xs = take (min (length xs) (length ys)) ys"
  by (induction i xs ys rule: first_difference.induct) (auto split: if_splits)

lemma merge_extends: "mergeImmutableHistory k cur inc = Inr xs \<Longrightarrow> prefix cur xs"
proof (cases inc)
  case (Some ys)
  assume m: "mergeImmutableHistory k cur inc = Inr xs"
  with Some have d: "first_difference 0 cur ys = None"
    by (auto simp: mergeImmutableHistory_def split: option.splits)
  show "prefix cur xs"
  proof (cases "length ys > length cur")
    case True
    with m Some d have "xs = ys" by (simp add: mergeImmutableHistory_def)
    moreover have "cur = take (length cur) ys"
      using first_difference_None [OF d] True by (simp add: min_def)
    ultimately show ?thesis by (metis take_is_prefix)
  qed (use m Some d in \<open>simp add: mergeImmutableHistory_def\<close>)
qed (simp add: mergeImmutableHistory_def)

lemma mergeStateHistories_extends:
  assumes "mergeStateHistories cur st = Inr m"
  shows "prefix (dflt (field rs_retiredStageUsage cur) []) (fst (histories_of m))
       \<and> prefix (dflt (field rs_stageEvidence cur) []) (snd (histories_of m))"
proof -
  from assms obtain r e where
    "mergeImmutableHistory RetiredStageUsage (dflt (field rs_retiredStageUsage cur) []) (rs_retiredStageUsage st) = Inr r"
    "mergeImmutableHistory StageEvidence (dflt (field rs_stageEvidence cur) []) (rs_stageEvidence st) = Inr e"
    "m = st\<lparr>rs_retiredStageUsage := Some r, rs_stageEvidence := Some e\<rparr>"
    unfolding mergeStateHistories_def by (simp del: Product_Type.split_paired_Ex) blast
  then show ?thesis by (simp add: histories_of_def merge_extends)
qed

lemma merge_more_frame [simp]:
  "histories_of (merge_processes c m) = histories_of m"
  "histories_of (merge_engine_history c m) = histories_of m"
  by (auto simp: merge_processes_def merge_engine_history_def histories_of_def split: option.splits)

section \<open>The commit\<close>

lemma current_of_Some: "current_of dir = Inr (Some (p, cur)) \<Longrightarrow>
    d_runjson dir = RunJson p \<and> hydrateRunProjection dir p = Inr cur"
  by (auto simp: current_of_def split: run_json.splits run_status_resolution.splits)

lemma normalizeHistoryTail_length:
  "normalizeHistoryTail f n = Inr f' \<Longrightarrow> length (dflt f' []) = n"
  by (auto simp: normalizeHistoryTail_def split: option.splits if_splits)

lemma compact_simps [simp]:
  "rs_format (compactProjection m ref v) = Some \<lparr>sf_revision = v, sf_history = ref\<rparr>"
  "rs_retiredStageUsage (compactProjection m ref v) = None"
  "rs_stageEvidence (compactProjection m ref v) = None"
  "rs_status (compactProjection m ref v) = rs_status m"
  by (simp_all add: compactProjection_def)

lemma histories_of_copy [simp]: "histories_of (copyPersistedHistoryState s m p) = histories_of m"
  by (simp add: copyPersistedHistoryState_def histories_of_def)

lemma equal_projection_fields:
  "isJsonPersistedEqual p q \<Longrightarrow> rs_format p = rs_format q
     \<and> rs_retiredStageUsage p = rs_retiredStageUsage q \<and> rs_stageEvidence p = rs_stageEvidence q
     \<and> rs_status p = rs_status q"
  unfolding isJsonPersistedEqual_def by (cases p; cases q) simp

text \<open>The reader's state against the merged state a commit publishes.\<close>

definition displays :: "run_dir \<Rightarrow> store_state \<Rightarrow> store_state \<Rightarrow> bool" where
  "displays dir m r =
     (rs_runId r = rs_runId m \<and> rs_projectDir r = rs_projectDir m
      \<and> rs_currentIteration r = rs_currentIteration m \<and> rs_rest r = rs_rest m
      \<and> rs_status r = normalize_status (rs_status m)
      \<and> rs_workflowName r = (if rs_workflowName m = ''default'' then ''planner'' else rs_workflowName m)
      \<and> rs_gateRetryRound r = rs_gateRetryRound (migrate_round (d_gateRounds dir) m)
      \<and> (\<forall>k. map_of (rs_stages r) k = map_option projectAttemptCauses (map_of (rs_stages m) k))
      \<and> rs_engineHistory r = rs_engineHistory m \<and> rs_checkpoint r = rs_checkpoint m)"

lemma migrated_round:
  "rs_gateRetryRound (migrate_round a s) = (case (rs_gateRetryRound s, rs_currentIteration s) of
     (None, Some it) \<Rightarrow> (let round = fold max (map snd (filter (\<lambda>(i, _). i = it) a)) 0
                       in if round > 0 then Some (it, round) else None)
   | (g, _) \<Rightarrow> g)"
  by (auto simp: migrate_round_def Let_def split: option.split)

lemma migrate_frame [simp]:
  "rs_runId (migrate_round a s) = rs_runId s" "rs_status (migrate_round a s) = rs_status s"
  "rs_stages (migrate_round a s) = rs_stages s"
  "rs_projectDir (migrate_round a s) = rs_projectDir s" "rs_currentIteration (migrate_round a s) = rs_currentIteration s"
  "rs_rest (migrate_round a s) = rs_rest s" "rs_workflowName (migrate_round a s) = rs_workflowName s"
  "rs_engineHistory (migrate_round a s) = rs_engineHistory s" "rs_checkpoint (migrate_round a s) = rs_checkpoint s"
  by (auto simp: migrate_round_def Let_def split: option.split)

lemma displays_reading: "displays dir p (with_histories (project_reading dir p) h)"
  by (auto simp: displays_def with_histories_def Let_def map_of_tagged migrated_round project_reading_def
      split: option.split)

lemma equal_stages: "same_stages m m' \<Longrightarrow> map_of m k = map_of m' k"
  unfolding same_stages_def
  by (cases "k \<in> set (map fst m @ map fst m')") (auto simp: map_of_eq_None_iff [symmetric])

lemma displays_equal:
  assumes "isJsonPersistedEqual p q" and "displays dir p r"
  shows "displays dir q r"
proof -
  have "p\<lparr>rs_stages := []\<rparr> = q\<lparr>rs_stages := []\<rparr>" and "\<And>k. map_of (rs_stages p) k = map_of (rs_stages q) k"
    using assms(1) equal_stages by (auto simp: isJsonPersistedEqual_def)
  with assms(2) show ?thesis
    by (cases p; cases q) (simp add: displays_def migrated_round)
qed

lemma displays_compact: "displays dir (compactProjection m ref v) r = displays dir m r"
  by (simp add: displays_def compactProjection_def migrated_round)

lemma displays_rounds: "d_gateRounds dir = d_gateRounds dir' \<Longrightarrow> displays dir m r = displays dir' m r"
  by (simp add: displays_def)

lemma read_compact:
  assumes "readRunHistories dir ref = Inr h"
    and "rs_format p = Some f" "sf_history f = ref"
    and "rs_retiredStageUsage p = None" "rs_stageEvidence p = None"
    and "d_runjson dir = RunJson p"
  shows "\<exists>r. read_state dir = Some r \<and> displays dir p r \<and> histories_of r = h \<and> rs_format r = rs_format p"
proof (intro exI conjI)
  let ?r = "with_histories (project_reading dir p) h"
  show "read_state dir = Some ?r"
    using assms by (simp add: read_state_def hydrateRunProjection_def format_ref_def)
  show "displays dir p ?r" by (rule displays_reading)
  show "histories_of ?r = h"
    using assms(4,5) by (cases h) (auto simp: histories_of_def with_histories_def Let_def)
  show "rs_format ?r = rs_format p" by (simp add: with_histories_def Let_def)
qed

text \<open>What a successful publication of the merged state \<open>m\<close> leaves for a reader.\<close>

definition published_as :: "run_dir \<Rightarrow> store_state \<Rightarrow> run_dir \<Rightarrow> store_state \<Rightarrow> bool" where
  "published_as dir m dir' st' =
     (\<exists>r. read_state dir' = Some r \<and> displays dir m r \<and> histories_of r = histories_of st'
        \<and> histories_of st' = histories_of m \<and> rs_format r = rs_format st')"

lemma publish_gateRounds [simp]: "d_gateRounds (publishRunProjection now dir p s) = d_gateRounds dir"
  by (simp add: publishRunProjection_def Let_def)

lemma publish_commit_reads_back:
  assumes "publish_commit now dir state merged ref v = (dir', Inr st')"
    and "readRunHistories dir ref = Inr (histories_of merged)"
  shows "published_as dir merged dir' st'"
proof -
  let ?p = "compactProjection merged ref v"
  from assms(1) have d: "dir' = publishRunProjection now dir ?p merged"
    and s: "histories_of st' = histories_of merged" "rs_format st' = rs_format ?p"
    by (auto simp: publish_commit_def Let_def copyPersistedHistoryState_def histories_of_def)
  have "readRunHistories dir' ref = readRunHistories dir ref"
    by (rule readRunHistories_cong) (simp add: d)
  with assms(2) have "readRunHistories dir' ref = Inr (histories_of merged)" by simp
  from read_compact [OF this, of ?p] obtain r where "read_state dir' = Some r" "displays dir' ?p r"
      "histories_of r = histories_of merged" "rs_format r = rs_format ?p"
    by (auto simp: d)
  moreover have "displays dir' ?p r = displays dir merged r"
    unfolding displays_compact by (rule displays_rounds) (simp add: d)
  ultimately show ?thesis using s by (auto simp: published_as_def)
qed

definition upgraded_state :: "run_dir \<Rightarrow> store_state \<Rightarrow> store_state" where
  "upgraded_state dir m = m\<lparr>rs_stages := map (\<lambda>(k, st). (k, upgraded_stage dir k st)) (rs_stages m)\<rparr>"

lemma upgraded_same [simp]:
  "(\<And>p. d_runjson dir = RunJson p \<Longrightarrow> rs_format p \<noteq> None) \<Longrightarrow> upgraded_stage dir k st = st"
  by (auto simp: upgraded_stage_def split: run_json.split option.split)

lemma upgraded_state_same:
  assumes "\<And>p. d_runjson dir = RunJson p \<Longrightarrow> rs_format p \<noteq> None"
  shows "upgraded_state dir m = m"
proof -
  have "map (\<lambda>(k, st). (k, upgraded_stage dir k st)) (rs_stages m) = rs_stages m"
    by (rule map_idI) (use assms in auto)
  then show ?thesis by (simp add: upgraded_state_def)
qed

lemma project_legacy_state:
  assumes "project_legacy_ledgers dir merged = (dir', merged')" and "d_runjson dir = RunJson p" "rs_format p = None"
  shows "merged' = upgraded_state dir merged"
proof -
  have "(case map_of (d_ledgers dir) k of None \<Rightarrow> st
          | Some led \<Rightarrow> if attempts_of led \<noteq> []
              then st\<lparr>s_attempts := Some (merge_legacy_attempts (attempts_of led) (attempts_of st))\<rparr> else st)
      = upgraded_stage dir k st" for k st
    using assms(2,3) by (simp add: upgraded_stage_def split: option.split)
  with assms(1) show ?thesis by (auto simp: project_legacy_ledgers_def Let_def upgraded_state_def)
qed

lemma upgraded_state_frame [simp]:
  "histories_of (upgraded_state dir m) = histories_of m"
  by (simp add: upgraded_state_def histories_of_def)

lemma commit_projection_reads_back:
  assumes run: "commit_projection now dir cp state merged ref = (dir', Inr st')"
    and read: "readRunHistories dir ref = Inr (histories_of merged)"
    and cp: "\<And>p. cp = Some p \<longleftrightarrow> d_runjson dir = RunJson p"
  shows "published_as dir (upgraded_state dir merged) dir' st'"
proof (cases "\<exists>p. cp = Some p \<and> isJsonPersistedEqual p
    (compactProjection merged ref (case rs_format p of None \<Rightarrow> 0 | Some f \<Rightarrow> sf_revision f))")
  case True
  then obtain p where p: "cp = Some p" and eq: "isJsonPersistedEqual p
    (compactProjection merged ref (case rs_format p of None \<Rightarrow> 0 | Some f \<Rightarrow> sf_revision f))"
    (is "isJsonPersistedEqual p ?q") by blast
  from run p eq have d: "dir' = observeRunStatusChange now dir (rs_status merged)"
    and s: "histories_of st' = histories_of merged" "rs_format st' = rs_format ?q"
    by (auto simp: commit_projection_def Let_def field_def copyPersistedHistoryState_def histories_of_def)
  note fields = equal_projection_fields [OF eq]
  have same: "upgraded_state dir merged = merged"
    by (rule upgraded_state_same) (use fields p cp in auto)
  have "readRunHistories dir' ref = Inr (histories_of merged)"
    using read readRunHistories_cong [of dir' dir ref] by (simp add: d)
  moreover obtain f where "rs_format p = Some f" "sf_history f = ref" using fields by auto
  ultimately obtain r where "read_state dir' = Some r" "displays dir' p r"
      "histories_of r = histories_of merged" "rs_format r = rs_format ?q"
    using read_compact [of dir' ref "histories_of merged" p f] fields cp [of p] p by (auto simp: d)
  moreover from displays_equal [OF eq this(2)] have "displays dir merged r"
    using displays_rounds [of dir' dir] by (simp add: displays_compact d)
  ultimately show ?thesis using s same by (auto simp: published_as_def)
next
  case False
  show ?thesis
  proof (cases "\<exists>p. cp = Some p \<and> rs_format p = None")
    case True
    then obtain p where p: "cp = Some p" "rs_format p = None" by blast
    obtain d m where dm: "project_legacy_ledgers dir merged = (d, m)" by fastforce
    note frame = project_legacy_frame [OF dm]
    from run False p dm have "publish_commit now d state m ref (Suc 0) = (dir', Inr st')"
      by (simp add: commit_projection_def Let_def field_def)
    moreover have m: "m = upgraded_state dir merged"
      by (rule project_legacy_state [OF dm]) (use p cp in auto)
    moreover have "readRunHistories d ref = Inr (histories_of m)"
      using frame read readRunHistories_cong [of d dir ref] m by simp
    ultimately have "published_as d m dir' st'" using publish_commit_reads_back by blast
    moreover have "d_gateRounds d = d_gateRounds dir"
      using dm by (auto simp: project_legacy_ledgers_def Let_def)
    ultimately show ?thesis
      using m displays_rounds [of d dir] by (simp add: published_as_def)
  next
    case nolegacy: False
    then obtain v where "publish_commit now dir state merged ref v = (dir', Inr st')"
      using run False by (cases cp) (auto simp: commit_projection_def Let_def field_def)
    moreover have "upgraded_state dir merged = merged"
      by (rule upgraded_state_same) (use nolegacy cp in auto)
    ultimately show ?thesis using publish_commit_reads_back [OF _ read] by simp
  qed
qed

lemma persist_merged_reads_back:
  assumes run: "persist_merged now dir current state = (dir', Inr st')"
    and cur: "current_of dir = Inr current"
  obtains m where "merge_state (map_option snd current) state = Inr m"
    and "published_as dir (upgraded_state dir m) dir' st'"
proof -
  define cp where "cp = map_option fst current"
  define ref where "ref = format_ref (field rs_format cp)"
  from run obtain hfile c m hfile' n where
    f: "normalizeHistoryTail (d_history dir) (committed_bytes ref) = Inr hfile"
    and c: "readRunHistories (dir\<lparr>d_history := hfile\<rparr>) ref = Inr c"
    and m: "merge_state (map_option snd current) state = Inr m"
    and a: "appendHistoryDelta hfile c (histories_of m) (committed_bytes ref) = Inr (hfile', n)"
    and p: "commit_projection now (dir\<lparr>d_history := hfile'\<rparr>) cp state m
              (ref_after n (fst (histories_of m)) (snd (histories_of m))) = (dir', Inr st')"
    by (auto simp: persist_merged_def Let_def cp_def ref_def split: sum.splits prod.splits)
  let ?d = "dir\<lparr>d_history := hfile'\<rparr>"
  have "readRunHistories ?d (ref_after n (fst (histories_of m)) (snd (histories_of m)))
        = Inr (fst (histories_of m), snd (histories_of m))"
  proof (rule append_reads_back)
    show "readRunHistories (dir\<lparr>d_history := hfile\<rparr>) ref = Inr (fst c, snd c)" using c by simp
    show "length (dflt (d_history (dir\<lparr>d_history := hfile\<rparr>)) []) = committed_bytes ref"
      using normalizeHistoryTail_length [OF f] by simp
    show "appendHistoryDelta (d_history (dir\<lparr>d_history := hfile\<rparr>)) (fst c, snd c)
            (fst (histories_of m), snd (histories_of m)) (committed_bytes ref) = Inr (hfile', n)"
      using a by simp
  qed simp
  moreover have "cp = Some p \<longleftrightarrow> d_runjson ?d = RunJson p" for p
    using cur by (cases "d_runjson dir") (auto simp: cp_def current_of_def split: run_status_resolution.splits)
  ultimately have "published_as ?d (upgraded_state ?d m) dir' st'"
    using commit_projection_reads_back [OF p] by simp
  moreover have "upgraded_state ?d m = upgraded_state dir m"
    by (simp add: upgraded_state_def upgraded_stage_def cong: run_json.case_cong)
  ultimately have "published_as dir (upgraded_state dir m) dir' st'"
    using displays_rounds [of ?d dir] by (simp add: published_as_def)
  with m that show thesis by blast
qed

lemma normalize_again [simp]: "normalize_status (normalize_status v) = normalize_status v"
  by (cases "resolveRunStatus v") (simp_all add: normalize_status_def resolveRunStatus_name)

lemma carries_normalized:
  "carries dir (state\<lparr>rs_status := normalize_status (rs_status state)\<rparr>) r \<Longrightarrow> carries dir state r"
  by (simp add: carries_def migrated_round)

lemma merge_processes_frame [simp]:
  "rs_runId (merge_processes c m) = rs_runId m" "rs_projectDir (merge_processes c m) = rs_projectDir m"
  "rs_currentIteration (merge_processes c m) = rs_currentIteration m" "rs_rest (merge_processes c m) = rs_rest m"
  "rs_status (merge_processes c m) = rs_status m" "rs_workflowName (merge_processes c m) = rs_workflowName m"
  "rs_gateRetryRound (merge_processes c m) = rs_gateRetryRound m" "rs_stages (merge_processes c m) = rs_stages m"
  "rs_engineHistory (merge_processes c m) = rs_engineHistory m"
  by (simp_all add: merge_processes_def split: option.split)

lemma merge_processes_kept: "checkpoint_kept (rs_checkpoint m) (rs_checkpoint (merge_processes c m))"
  by (auto simp: merge_processes_def checkpoint_kept_def split: option.split)

lemma merged_carries:
  assumes m: "merge_state cur state = Inr m" and r: "displays dir (upgraded_state dir m) r"
  shows "carries dir state r"
proof -
  from m obtain xs ys where m: "m = merge_processes cur (merge_engine_history cur
      (state\<lparr>rs_retiredStageUsage := xs, rs_stageEvidence := ys\<rparr>))"
    by (auto simp: merge_state_def mergeStateHistories_def)
  have "map_of (rs_stages r) k
      = map_option (projectAttemptCauses \<circ> upgraded_stage dir k) (map_of (rs_stages state) k)" for k
    using r by (simp add: displays_def upgraded_state_def map_of_tagged m merge_engine_history_def option.map_comp)
  moreover have "checkpoint_kept (rs_checkpoint state) (rs_checkpoint m)"
    using merge_processes_kept [of "merge_engine_history cur
      (state\<lparr>rs_retiredStageUsage := xs, rs_stageEvidence := ys\<rparr>)" cur]
    by (simp add: m merge_engine_history_def)
  moreover have "displays dir (m\<lparr>rs_stages := []\<rparr>) (r\<lparr>rs_stages := []\<rparr>)"
    using r by (simp add: displays_def upgraded_state_def migrated_round)
  moreover have "rs_engineHistory m = Some (uniq (dflt (field rs_engineHistory cur) [] @ dflt (rs_engineHistory state) []))"
    by (simp add: m merge_engine_history_def)
  moreover have "rs_runId m = rs_runId state" "rs_projectDir m = rs_projectDir state"
    "rs_currentIteration m = rs_currentIteration state" "rs_rest m = rs_rest state" "rs_status m = rs_status state"
    "rs_workflowName m = rs_workflowName state" "rs_gateRetryRound m = rs_gateRetryRound state"
    by (simp_all add: m merge_engine_history_def)
  ultimately show ?thesis
    unfolding displays_def carries_def migrated_round by (cases r, cases m) simp
qed

section \<open>Failed commits\<close>

lemma commit_projection_Inr: "\<exists>st'. snd (commit_projection now dir cp state merged ref) = Inr st'"
  by (auto simp: commit_projection_def publish_commit_def Let_def project_legacy_ledgers_def
      split: option.splits)

definition same_but_history :: "run_dir \<Rightarrow> run_dir \<Rightarrow> bool" where
  "same_but_history dir dir' = (dir'\<lparr>d_history := None\<rparr> = dir\<lparr>d_history := None\<rparr>)"

lemma same_but_history_simps [simp]:
  "same_but_history dir dir" "same_but_history dir (dir\<lparr>d_history := f\<rparr>)"
  by (simp_all add: same_but_history_def)

lemma same_but_historyD:
  assumes "same_but_history dir dir'"
  shows "d_runjson dir' = d_runjson dir" "d_events dir' = d_events dir" "d_cursor dir' = d_cursor dir"
    "d_ledgers dir' = d_ledgers dir" "d_summaries dir' = d_summaries dir"
    "d_livelogs dir' = d_livelogs dir" "d_gateRounds dir' = d_gateRounds dir"
  using assms unfolding same_but_history_def by (cases dir; cases dir'; simp)+

lemma persist_merged_error:
  assumes run: "persist_merged now dir current state = (dir', Inl err)"
  shows "same_but_history dir dir' \<and>
    (d_history dir' = d_history dir \<or>
     normalizeHistoryTail (d_history dir)
       (committed_bytes (format_ref (field rs_format (map_option fst current)))) = Inr (d_history dir'))"
proof -
  have "snd (commit_projection now d cp st m ref) \<noteq> Inl err" for d cp st m ref
    using commit_projection_Inr [of now d cp st m ref] by auto
  then have no: "commit_projection now d cp st m ref \<noteq> (dir', Inl err)" for d cp st m ref
    by (metis snd_conv)
  from run no show ?thesis
    by (auto simp: persist_merged_def Let_def split: sum.splits prod.splits)
qed

section \<open>The properties of a commit\<close>

lemma merge_state_extends:
  assumes "merge_state cur st = Inr m"
  shows "prefix (dflt (field rs_retiredStageUsage cur) []) (fst (histories_of m))
       \<and> prefix (dflt (field rs_stageEvidence cur) []) (snd (histories_of m))"
  using assms mergeStateHistories_extends by (auto simp: merge_state_def)

lemma reader_histories_current:
  "reader_histories dir = Some h \<Longrightarrow> current_of dir = Inr current \<Longrightarrow>
     \<exists>p cur. current = Some (p, cur) \<and> h = histories_of cur"
  by (auto simp: reader_histories_def current_of_def split: run_json.splits sum.splits
      run_status_resolution.splits)

lemma with_histories_frame [simp]:
  "rs_status (with_histories st h) = rs_status st"
  "rs_runId (with_histories st h) = rs_runId st"
  "rs_stages (with_histories st h) = rs_stages st"
  "rs_format (with_histories st h) = rs_format st"
  by (simp_all add: with_histories_def Let_def)

lemma hydrate_status:
  "hydrateRunProjection dir p = Inr cur \<Longrightarrow> rs_status cur = normalize_status (rs_status p)"
  by (auto simp: hydrateRunProjection_def split: option.splits)

lemma persist_eq:
  assumes "\<nexists>e. persistRunStateUnlocked now dir runId state expectation = (dir, Inl e)"
  obtains current where "current_of dir = Inr current"
    and "expectation = None \<or> expectation = Some (d_runjson dir)"
    and "persistRunStateUnlocked now dir runId state expectation
      = persist_over now dir current (state\<lparr>rs_status := normalize_status (rs_status state)\<rparr>) expectation"
proof (cases "resolveRunStatus (rs_status state)")
  case (Known rst sem)
  have run: "rs_runId state = runId"
    by (rule ccontr) (use assms Known in \<open>simp add: persistRunStateUnlocked_def\<close>)
  with assms Known obtain current where cur: "current_of dir = Inr current"
    by (cases "current_of dir") (auto simp: persistRunStateUnlocked_def)
  have noconf: "\<not> (expectation \<noteq> None \<and> the expectation \<noteq> d_runjson dir)"
    by (rule notI) (use assms Known run cur in \<open>simp add: persistRunStateUnlocked_def\<close>)
  have "expectation = None \<or> expectation = Some (d_runjson dir)"
    using noconf by (cases expectation) simp_all
  moreover have "persistRunStateUnlocked now dir runId state expectation
      = persist_over now dir current (state\<lparr>rs_status := normalize_status (rs_status state)\<rparr>) expectation"
    unfolding persistRunStateUnlocked_def normalize_status_def
    using noconf by (auto simp: Known cur run)
  ultimately show thesis using cur that by blast
qed (use assms in \<open>simp add: persistRunStateUnlocked_def\<close>)

lemma persist_cases:
  assumes "persistRunStateUnlocked now dir runId state expectation = (dir', r)"
  obtains (refused) e where "dir' = dir" "r = Inl e"
  | (observed) p cur where "current_of dir = Inr (Some (p, cur))" "rs_status cur = JStr ''cancelled''"
      "isJsonPersistedEqual cur (state\<lparr>rs_status := normalize_status (rs_status state)\<rparr>)"
      "dir' = observeRunStatusChange now dir (normalize_status (rs_status state))"
      "r = Inr (copyPersistedHistoryState (state\<lparr>rs_status := normalize_status (rs_status state)\<rparr>) cur cur)"
  | (merged) current where "current_of dir = Inr current"
      "expectation = None \<or> expectation = Some (d_runjson dir)"
      "\<And>p cur. current = Some (p, cur) \<Longrightarrow> rs_status cur = JStr ''cancelled'' \<Longrightarrow>
         expectation \<noteq> None \<and> normalize_status (rs_status state) = JStr ''running''"
      "persist_merged now dir current (state\<lparr>rs_status := normalize_status (rs_status state)\<rparr>)
         = (dir', r)"
proof (cases "\<exists>e. persistRunStateUnlocked now dir runId state expectation = (dir, Inl e)")
  case True
  with assms refused show thesis by auto
next
  case False
  then obtain current where cur: "current_of dir = Inr current"
    and e: "expectation = None \<or> expectation = Some (d_runjson dir)"
    and over: "persist_over now dir current (state\<lparr>rs_status := normalize_status (rs_status state)\<rparr>) expectation
      = (dir', r)" using assms by (metis persist_eq)
  show thesis
  proof (cases "\<exists>p cur. current = Some (p, cur) \<and> rs_status cur = JStr ''cancelled''")
    case True
    then obtain p c where "current = Some (p, c)" "rs_status c = JStr ''cancelled''" by blast
    with over cur e show thesis
      by (auto simp: persist_over_def split: if_splits intro: refused observed merged)
  next
    case noc: False
    with over have "persist_merged now dir current
        (state\<lparr>rs_status := normalize_status (rs_status state)\<rparr>) = (dir', r)"
      by (cases current) (auto simp: persist_over_def)
    with noc cur e show thesis by (intro merged) auto
  qed
qed

lemma persist_expectation:
  assumes "persistRunStateUnlocked now dir runId state expectation = (dir', Inr st')"
  shows "expectation = None \<or> expectation = Some (d_runjson dir)"
  by (rule persist_eq [of now dir runId state expectation]) (use assms in auto)

lemma persist_error:
  assumes "persistRunStateUnlocked now dir runId state expectation = (dir', Inl err)"
  shows "same_but_history dir dir'"
  using assms by (cases rule: persist_cases) (auto dest: persist_merged_error)

text \<open>C1. A successful commit can be read back.  A reader of the directory is given the whole state
  that was committed: the run, its status, iteration, retry round, workflow and remaining fields,
  every stage with exactly the status the caller gave it (as the reader's cause projection shows
  it, and with the attempts of its ledger when the projection was older than the history format),
  all recorded engine admissions and the checkpoint with at least its processes.  The retired usage
  and the stage evidence are the ones the writer was told it committed, and everything a reader
  could reconstruct of them before is still there, in the same places, whatever tail a crashed
  writer had left behind the acknowledged part of the history file.  (Repeating a cancelled state
  over itself writes nothing; the reader's state is then equal to it.)\<close>

theorem commit_reads_back:
  assumes commit: "persistRunStateUnlocked now dir runId state expectation = (dir', Inr st')"
  shows "\<exists>r. read_state dir' = Some r
    \<and> (carries dir state r
         \<or> isJsonPersistedEqual r (state\<lparr>rs_status := normalize_status (rs_status state)\<rparr>))
    \<and> histories_of r = histories_of st' \<and> rs_format r = rs_format st'
    \<and> (\<forall>r0. read_state dir = Some r0 \<longrightarrow>
         prefix (fst (histories_of r0)) (fst (histories_of r))
         \<and> prefix (snd (histories_of r0)) (snd (histories_of r)))"
  using commit
proof (cases rule: persist_cases)
  case (observed p cur)
  then have d: "d_runjson dir' = RunJson p" "hydrateRunProjection dir p = Inr cur" "d_runjson dir = RunJson p"
    by (auto dest: current_of_Some)
  have "d_history dir' = d_history dir" "d_gateRounds dir' = d_gateRounds dir" using observed by simp_all
  then have "hydrateRunProjection dir' p = hydrateRunProjection dir p" by (rule hydrate_cong)
  with d have "read_state dir' = Some cur" "read_state dir = Some cur" by (simp_all add: read_state_def)
  moreover have "rs_format cur = rs_format st'" "histories_of cur = histories_of st'"
    using observed by (simp_all add: copyPersistedHistoryState_def histories_of_def)
  ultimately show ?thesis using observed(3) by simp
next
  case (merged current)
  obtain m where m: "merge_state (map_option snd current)
        (state\<lparr>rs_status := normalize_status (rs_status state)\<rparr>) = Inr m"
    and p: "published_as dir (upgraded_state dir m) dir' st'"
    by (rule persist_merged_reads_back [OF merged(4,1)])
  from p obtain r where r: "read_state dir' = Some r" "displays dir (upgraded_state dir m) r"
      "histories_of r = histories_of st'" "rs_format r = rs_format st'" "histories_of st' = histories_of m"
    by (auto simp: published_as_def)
  have "carries dir state r"
    using carries_normalized merged_carries [OF m r(2)] by blast
  moreover have "prefix (fst (histories_of r0)) (fst (histories_of m)) \<and> prefix (snd (histories_of r0)) (snd (histories_of m))"
    if "read_state dir = Some r0" for r0
    using that merged(1) merge_state_extends [OF m]
    by (auto simp: read_state_def current_of_def histories_of_def field_def
        split: run_json.splits sum.splits run_status_resolution.splits)
  ultimately show ?thesis using r by auto
qed simp

definition demo_state :: store_state where
  "demo_state = \<lparr>rs_runId = ''run'', rs_projectDir = ''/p'', rs_workflowName = ''planner'',
     rs_currentIteration = Some 1, rs_gateRetryRound = None, rs_status = JStr ''running'', rs_stages = [],
     rs_retiredStageUsage = None, rs_stageEvidence = Some [JStr ''review''], rs_engineHistory = None,
     rs_checkpoint = None, rs_format = None, rs_rest = JNull\<rparr>"

definition demo_dir :: run_dir where
  \<comment> \<open>a directory whose only acknowledged record is one review, with a torn tail behind it\<close>
  "demo_dir = \<lparr>d_runjson = RunJson (demo_state\<lparr>rs_stageEvidence := None,
       rs_format := Some \<lparr>sf_revision = 1, sf_history = Some \<lparr>h_committed = 1, h_retired_count = 0,
         h_evidence_count = 1\<rparr>\<rparr>\<rparr>),
     d_history = Some [HRec StageEvidence 0 (JStr ''review''), HTorn],
     d_events = [], d_cursor = None, d_ledgers = [], d_summaries = [], d_gateRounds = [], d_livelogs = []\<rparr>"

definition demo_cancelled :: store_state where
  "demo_cancelled = demo_state\<lparr>rs_status := JStr ''cancelled''\<rparr>"

lemma demo_commit:
  "case persistRunStateUnlocked 7 demo_dir ''run''
          (demo_state\<lparr>rs_stageEvidence := Some [JStr ''review'', JStr ''audit'']\<rparr>) None of
     (dir', Inr st') \<Rightarrow> histories_of st' = ([], [JStr ''review'', JStr ''audit''])
   | (dir', Inl e) \<Rightarrow> False"
  by code_simp

theorem commit_reads_back_witness:
  "case persistRunStateUnlocked 7 demo_dir ''run''
          (demo_state\<lparr>rs_stageEvidence := Some [JStr ''review'', JStr ''audit'']\<rparr>) None of
     (dir', Inr st') \<Rightarrow> \<exists>r. read_state dir' = Some r
        \<and> histories_of r = ([], [JStr ''review'', JStr ''audit'']) \<and> rs_format r = rs_format st'
   | (dir', Inl e) \<Rightarrow> False"
  using demo_commit
  by (auto split: prod.splits sum.splits dest: commit_reads_back)

text \<open>C2. An acknowledged cancellation is final.  While the projection on disk is cancelled, a
  commit that names no expected projection never changes it (it succeeds only when nothing
  would change), and a compare-and-swap replaces it only when it restarts the run.  The two
  publishers' race over \<open>run.json\<close> therefore cannot turn a cancelled run into a finished one.\<close>

theorem cancelled_projection_fenced:
  assumes json: "d_runjson dir = RunJson p" and cancelled: "normalize_status (rs_status p) = JStr ''cancelled''"
    and commit: "persistRunStateUnlocked now dir runId state expectation = (dir', r)"
    and changed: "d_runjson dir' \<noteq> RunJson p"
  shows "expectation = Some (RunJson p) \<and> normalize_status (rs_status state) = JStr ''running''
    \<and> (\<exists>st'. r = Inr st')"
proof (cases r)
  case (Inl err)
  from persist_error [OF commit [unfolded Inl]] json changed show ?thesis
    by (auto dest: same_but_historyD(1))
next
  case (Inr st')
  show ?thesis using commit [unfolded Inr]
  proof (cases rule: persist_cases)
    case (observed p' cur)
    with changed json show ?thesis by simp
  next
    case (merged current)
    from json merged(1) obtain cur where cur: "current = Some (p, cur)" "hydrateRunProjection dir p = Inr cur"
      by (auto simp: current_of_def split: run_status_resolution.splits)
    have "rs_status cur = JStr ''cancelled''"
      using hydrate_status [OF cur(2)] cancelled by simp
    with merged cur json Inr show ?thesis by auto
  qed simp
qed

lemma demo_restart:
  "case persistRunStateUnlocked 7 (demo_dir\<lparr>d_runjson := RunJson demo_cancelled\<rparr>) ''run'' demo_state
          (Some (RunJson demo_cancelled)) of
     (dir', r) \<Rightarrow> d_runjson dir' \<noteq> RunJson demo_cancelled"
  by code_simp

theorem cancelled_projection_fenced_witness:
  "case persistRunStateUnlocked 7 (demo_dir\<lparr>d_runjson := RunJson demo_cancelled\<rparr>) ''run'' demo_state
          (Some (RunJson demo_cancelled)) of
     (dir', r) \<Rightarrow> \<exists>st'. r = Inr st'"
proof -
  have c: "normalize_status (rs_status demo_cancelled) = JStr ''cancelled''" by code_simp
  show ?thesis
    using demo_restart cancelled_projection_fenced
      [of "demo_dir\<lparr>d_runjson := RunJson demo_cancelled\<rparr>", OF _ c, of 7 "''run''" demo_state
        "Some (RunJson demo_cancelled)"]
    by (simp split: prod.splits)
qed

section \<open>The mutation loop\<close>

lemma persist_racing_cases:
  assumes "persist_racing now w dir runId state ex = (dir', r)"
  obtains (committed) "persistRunStateUnlocked now dir runId state ex = (dir', r)"
    "\<And>st'. r = Inr st' \<Longrightarrow> observes_cancelled dir state \<Longrightarrow> d_runjson dir' = d_runjson dir"
    "\<And>st'. r = Inr st' \<Longrightarrow> \<not> observes_cancelled dir state \<Longrightarrow>
       dflt (w AtPublication) (d_runjson dir) = d_runjson dir"
    "\<And>st'. r = Inr st' \<Longrightarrow> d_summaries dir' \<noteq> d_summaries dir \<Longrightarrow>
       dflt (w AfterSummary) (d_runjson dir) = d_runjson dir"
  | (raced) "r = Inl ProjectionConflict"
proof -
  obtain d q where p: "persistRunStateUnlocked now dir runId state ex = (d, q)" by fastforce
  have seen: "d_runjson d = d_runjson dir \<and> d_summaries d = d_summaries dir"
    if "observes_cancelled dir state" and "q = Inr st'" for st'
    using p
  proof (cases rule: persist_cases)
    case (merged current)
    from that(1) obtain p' cur where cur: "current_of dir = Inr (Some (p', cur))"
      and e: "rs_status cur = JStr ''cancelled''"
        "isJsonPersistedEqual cur (state\<lparr>rs_status := normalize_status (rs_status state)\<rparr>)"
      by (auto simp: observes_cancelled_def split: sum.splits option.splits)
    then have "normalize_status (rs_status state) = JStr ''cancelled''"
      using equal_projection_fields [OF e(2)] by simp
    with merged(1) merged(3) [of p' cur] cur e(1) show ?thesis by simp
  qed (use that in \<open>simp_all add: observeRunStatusChange_def Let_def\<close>)
  show thesis
    using assms p seen committed raced
    by (cases q) (auto simp: persist_racing_def Let_def split: if_splits)
qed

lemma mutation_attempts_commit:
  assumes "mutation_attempts now others runId mutator k n dir = (dir', Inr st')"
  shows "\<exists>j d0 d1 d2 p st m. d_runjson d0 = RunJson p \<and> hydrateRunProjection d0 p = Inr st
    \<and> mutator d0 st = (d1, Inr m) \<and> d2 = before_commit others j d1 \<and> d_runjson d2 = RunJson p
    \<and> persistRunStateUnlocked now d2 runId m (Some (RunJson p)) = (dir', Inr st')
    \<and> (observes_cancelled d2 m \<longrightarrow> d_runjson dir' = RunJson p)
    \<and> (\<not> observes_cancelled d2 m \<longrightarrow> dflt (during_commit others j AtPublication) (RunJson p) = RunJson p)
    \<and> (d_summaries dir' \<noteq> d_summaries d2 \<longrightarrow>
         dflt (during_commit others j AfterSummary) (RunJson p) = RunJson p)"
  using assms
proof (induction now others runId mutator k n dir rule: mutation_attempts.induct)
  case (2 now others runId mutator k n dir)
  show ?case
  proof (cases "d_runjson dir")
    case (RunJson p)
    obtain st where st: "hydrateRunProjection dir p = Inr st"
      using 2(2) RunJson by (cases "hydrateRunProjection dir p") auto
    obtain d1 m where m: "mutator dir st = (d1, Inr m)"
      using 2(2) RunJson st by (cases "mutator dir st"; cases "snd (mutator dir st)") auto
    let ?d2 = "before_commit others k d1"
    obtain d3 r where r: "persist_racing now (during_commit others k) ?d2 runId m (Some (RunJson p)) = (d3, r)"
      by fastforce
    show ?thesis
    proof (cases r)
      case (Inr st2)
      with 2(2) RunJson st m r have out: "d3 = dir'" "st2 = st'" by auto
      show ?thesis using r
      proof (cases rule: persist_racing_cases)
        case committed
        have "d_runjson ?d2 = RunJson p"
          using persist_expectation [OF committed(1) [unfolded Inr]] by simp
        with RunJson st m committed Inr out show ?thesis by metis
      qed (use Inr in simp)
    next
      case (Inl e)
      with 2(2) RunJson st m r have "e = ProjectionConflict"
        by (cases e) auto
      with r Inl have r': "persist_racing now (during_commit others k) ?d2 runId m (Some (RunJson p))
          = (d3, Inl ProjectionConflict)" by simp
      with 2(2) RunJson st m
      have "mutation_attempts now others runId mutator (Suc k) n d3 = (dir', Inr st')" by simp
      from 2(1) [OF RunJson st m [symmetric] refl r' [symmetric] refl refl this] show ?thesis .
    qed
  qed (use 2(2) in auto)
qed simp

text \<open>C4. No update that a comparison can see is lost.  When a mutation of the run state commits,
  in any of the at most five attempts, the state the mutator was given is the hydrated form of the
  projection that was in \<open>run.json\<close> when the commit started and still there at every comparison
  the commit makes: before anything is published, and once more after the summary of a terminal
  status.  (Only the repetition of an acknowledged cancellation compares nothing, and changes
  nothing.)  A writer that ignores the run-state lock and publishes before one
  of them makes the attempt fail and be repeated on what it published; only what it writes
  between the last comparison and the rename is overwritten unread.\<close>

theorem update_replaces_what_it_read:
  assumes "updateRunState now others runId mutator dir = (dir', Inr st')"
  shows "\<exists>k d0 d1 d2 p st m. d_runjson d0 = RunJson p \<and> hydrateRunProjection d0 p = Inr st
    \<and> mutator d0 st = (d1, Inr m) \<and> d2 = before_commit others k d1 \<and> d_runjson d2 = RunJson p
    \<and> persistRunStateUnlocked now d2 runId m (Some (RunJson p)) = (dir', Inr st')
    \<and> (observes_cancelled d2 m \<longrightarrow> d_runjson dir' = RunJson p)
    \<and> (\<not> observes_cancelled d2 m \<longrightarrow> dflt (during_commit others k AtPublication) (RunJson p) = RunJson p)
    \<and> (d_summaries dir' \<noteq> d_summaries d2 \<longrightarrow>
         dflt (during_commit others k AfterSummary) (RunJson p) = RunJson p)"
  using assms unfolding updateRunState_def by (rule mutation_attempts_commit)

definition demo_others :: outside where
  \<comment> \<open>another writer replaces the projection before the first commit, and again while the summary
    of the second is written\<close>
  "demo_others = \<lparr>before_commit = (\<lambda>k dir.
       if k = 0 then dir\<lparr>d_runjson := RunJson (demo_state\<lparr>rs_rest := JBool True\<rparr>)\<rparr> else dir),
     during_commit = (\<lambda>k c. if k = 1 \<and> c = AfterSummary
       then Some (RunJson (demo_state\<lparr>rs_rest := JBool False\<rparr>)) else None)\<rparr>"

definition demo_mutator :: "run_dir \<Rightarrow> store_state \<Rightarrow> run_dir \<times> (persist_error + store_state)" where
  "demo_mutator dir st = (dir, Inr (st\<lparr>rs_status := JStr ''complete''\<rparr>))"

lemma demo_update:
  "case updateRunState 7 demo_others ''run'' demo_mutator demo_dir of
     (dir', Inr st') \<Rightarrow> rs_rest st' = JBool False \<and> rs_status st' = JStr ''complete''
   | (dir', Inl e) \<Rightarrow> False"
  by code_simp

theorem update_replaces_what_it_read_witness:
  "case updateRunState 7 demo_others ''run'' demo_mutator demo_dir of
     (dir', Inr st') \<Rightarrow> rs_rest st' = JBool False
       \<and> (\<exists>k d0 p st. d_runjson d0 = RunJson p \<and> hydrateRunProjection d0 p = Inr st
            \<and> demo_mutator d0 st = (d0, Inr (st\<lparr>rs_status := JStr ''complete''\<rparr>))
            \<and> d_runjson (before_commit demo_others k d0) = RunJson p)
   | (dir', Inl e) \<Rightarrow> False"
proof -
  obtain dir' r where u: "updateRunState 7 demo_others ''run'' demo_mutator demo_dir = (dir', r)" by fastforce
  obtain st' where r: "r = Inr st'" and f: "rs_rest st' = JBool False"
    using demo_update u by (cases r) auto
  from update_replaces_what_it_read [OF u [unfolded r]] have "\<exists>k d0 p st. d_runjson d0 = RunJson p
      \<and> hydrateRunProjection d0 p = Inr st \<and> d_runjson (before_commit demo_others k d0) = RunJson p"
    by (auto simp: demo_mutator_def)
  then show ?thesis using u r f by (simp add: demo_mutator_def)
qed

section \<open>The status observer\<close>

definition fresh_events :: "instant \<Rightarrow> run_dir \<Rightarrow> json \<Rightarrow> run_event list" where
  "fresh_events now dir status = drop (length (d_events dir)) (d_events (observeRunStatusChange now dir status))"

lemma status_events_observation:
  "e \<in> set (status_events obs prior st t) \<Longrightarrow> e_observation e = obs \<and> e_timestamp e = t"
  by (auto simp: status_events_def Let_def split: if_splits)

lemma distinct_status_events: "distinct (map e_type (status_events obs prior st t))"
  by (cases "isTerminalRunStatus st \<and> \<not> isTerminalRunStatus prior") (auto simp: status_events_def Let_def)

lemma distinct_append_apart:
  "distinct (map f (xs @ ys)) \<Longrightarrow> x \<in> set ys \<Longrightarrow> f x \<notin> f ` set xs"
  by auto

lemma filter_drop_taken:
  assumes "distinct (map f xs)"
  shows "filter (\<lambda>x. f x \<notin> A \<and> f x \<notin> f ` set (take k (filter (\<lambda>x. f x \<notin> A) xs))) xs
    = drop k (filter (\<lambda>x. f x \<notin> A) xs)"
proof -
  let ?ys = "filter (\<lambda>x. f x \<notin> A) xs"
  have d: "distinct (map f (take k ?ys @ drop k ?ys))"
    using assms by (simp only: append_take_drop_id) (simp add: distinct_map_filter)
  note disj = distinct_append_apart [OF d]
  have "filter (\<lambda>x. f x \<notin> A \<and> f x \<notin> f ` set (take k ?ys)) xs
      = filter (\<lambda>x. f x \<notin> f ` set (take k ?ys)) (take k ?ys @ drop k ?ys)"
    by (simp only: append_take_drop_id filter_filter)
  also have "\<dots> = filter (\<lambda>x. f x \<notin> f ` set (take k ?ys)) (drop k ?ys)"
    unfolding filter_append by (subst filter_False) auto
  also have "\<dots> = drop k ?ys" using disj by (simp add: filter_id_conv)
  finally show ?thesis .
qed

lemma observe_unchanged:
  "observed_status (d_cursor dir) = status \<Longrightarrow> observeRunStatusChange now dir status = dir"
  by (simp add: observeRunStatusChange_def)

lemma observe_eq:
  assumes "observed_status (d_cursor dir) \<noteq> status"
    and "obs = ((Option.bind (d_cursor dir) cu_observedAt, observed_status (d_cursor dir)), status)"
    and "filter (\<lambda>e. e_observation e = obs) (d_events dir) = recorded"
    and "ts = observed_timestamp now recorded"
  shows "observeRunStatusChange now dir status = dir\<lparr>d_events := d_events dir
      @ filter (\<lambda>e. e_type e \<notin> e_type ` set recorded)
          (status_events obs (observed_status (d_cursor dir)) status ts),
      d_cursor := Some \<lparr>cu_status = status, cu_observedAt = Some ts\<rparr>\<rparr>"
  using assms(1) by (simp only: observeRunStatusChange_def Let_def if_False set_map
      assms(2) [symmetric] assms(3) assms(4))

text \<open>A crash of the status observer neither loses nor repeats an operation.  If the observer
  died after any non-empty part of its events reached the journal and before its cursor was
  written, observing the same status again appends exactly the missing events, with the
  original time stamp, and leaves the journal and the cursor the interrupted observation
  would have left.\<close>

lemma observer_resumes:
  assumes "0 < k"
  shows "observeRunStatusChange later (dir\<lparr>d_events := d_events dir @ take k (fresh_events now dir status)\<rparr>) status
    = observeRunStatusChange now dir status"
proof (cases "observed_status (d_cursor dir) = status")
  case True
  then show ?thesis by (simp add: observe_unchanged fresh_events_def)
next
  case False
  define obs where "obs = ((Option.bind (d_cursor dir) cu_observedAt, observed_status (d_cursor dir)), status)"
  define recorded where "recorded = filter (\<lambda>e. e_observation e = obs) (d_events dir)"
  define ts where "ts = observed_timestamp now recorded"
  define evs where "evs = status_events obs (observed_status (d_cursor dir)) status ts"
  define fresh where "fresh = filter (\<lambda>e. e_type e \<notin> e_type ` set recorded) evs"
  have now: "observeRunStatusChange now dir status = dir\<lparr>d_events := d_events dir @ fresh,
      d_cursor := Some \<lparr>cu_status = status, cu_observedAt = Some ts\<rparr>\<rparr>"
    unfolding fresh_def evs_def
    by (rule observe_eq [OF False obs_def recorded_def [symmetric] ts_def])
  then have fe: "fresh_events now dir status = fresh" by (simp add: fresh_events_def)
  let ?dir = "dir\<lparr>d_events := d_events dir @ take k fresh\<rparr>"
  have fobs: "\<forall>e \<in> set fresh. e_observation e = obs \<and> e_timestamp e = ts"
    using status_events_observation [of _ obs] by (auto simp: fresh_def evs_def)
  then have taken: "filter (\<lambda>e. e_observation e = obs) (take k fresh) = take k fresh"
    by (auto simp: filter_id_conv dest: in_set_takeD)
  have "observed_timestamp later (recorded @ take k fresh) = ts"
  proof (cases recorded)
    case Nil
    then have "fresh = evs" by (simp add: fresh_def)
    moreover have "\<exists>e es. evs = e # es" by (auto simp: evs_def status_events_def Let_def)
    ultimately show ?thesis using Nil assms fobs
      by (auto simp: observed_timestamp_def take_Cons split: nat.splits)
  qed (simp add: ts_def observed_timestamp_def)
  then have ts': "ts = observed_timestamp later (recorded @ take k fresh)" by simp
  have rest: "filter (\<lambda>e. e_type e \<notin> e_type ` set (recorded @ take k fresh)) evs = drop k fresh"
    using filter_drop_taken [of e_type evs "e_type ` set recorded" k] distinct_status_events
    by (simp add: image_Un fresh_def evs_def)
  have rec': "filter (\<lambda>e. e_observation e = obs) (d_events ?dir) = recorded @ take k fresh"
    by (simp add: taken recorded_def)
  have "observeRunStatusChange later ?dir status = ?dir\<lparr>d_events := d_events ?dir @ drop k fresh,
      d_cursor := Some \<lparr>cu_status = status, cu_observedAt = Some ts\<rparr>\<rparr>"
    using observe_eq [of ?dir status obs, OF _ _ rec' ts'] False rest
    by (simp add: obs_def [symmetric] evs_def)
  then show ?thesis by (simp add: fe now)
qed

end
