(* ===== verification/Attempt_Ledger.thy ===== *)
theory Attempt_Ledger
  imports Attempts
begin

text \<open>
  The ledger as a state machine.  One step is one transition of \<open>Attempts\<close>; the invariant
  is that attempt indexes are positive and strictly increasing, and the history (index and
  start of every attempt) only grows.  The persisted operations of \<open>src/src/store.ts\<close>
  (\<open>beginStageAttempt\<close> and its peers) are in the second half, over the two files they
  publish.
\<close>

section \<open>The ledger invariant\<close>

definition ledger_ok :: "stage_status \<Rightarrow> bool" where
  "ledger_ok st =
     (sorted_wrt (<) (map a_index (attempts_of st)) \<and> (\<forall>a \<in> set (attempts_of st). 0 < a_index a))"

definition attempt_identity :: "stage_attempt \<Rightarrow> nat \<times> instant" where
  "attempt_identity a = (a_index a, a_startedAt a)"

definition ledger_history :: "stage_status \<Rightarrow> (nat \<times> instant) list" where
  "ledger_history st = map attempt_identity (attempts_of st)"

definition history_ok :: "(nat \<times> instant) list \<Rightarrow> bool" where
  "history_ok h = (sorted_wrt (<) (map fst h) \<and> (\<forall>e \<in> set h. 0 < fst e))"

lemma ledger_ok_history: "ledger_ok st \<longleftrightarrow> history_ok (ledger_history st)"
  by (simp add: ledger_ok_def history_ok_def ledger_history_def attempt_identity_def comp_def)

lemma attempts_if_Some [simp]: "attempts_if (Some st) = attempts_of st"
  by (simp add: attempts_if_def)

lemma attempts_if_None [simp]: "attempts_if None = []"
  by (simp add: attempts_if_def)

lemma at_last_Some_iff: "at_last xs = Some x \<longleftrightarrow> xs \<noteq> [] \<and> x = last xs"
  by (auto simp: at_last_def)

lemma at_last_None_iff: "at_last xs = None \<longleftrightarrow> xs = []"
  by (simp add: at_last_def)

lemma length_set_last [simp]: "length (set_last x xs) = length xs"
  by (simp add: set_last_def)

lemma set_last_Nil [simp]: "set_last x xs = [] \<longleftrightarrow> xs = []"
  by (simp add: set_last_def)

lemma last_set_last [simp]: "xs \<noteq> [] \<Longrightarrow> last (set_last x xs) = x"
  by (simp add: set_last_def last_list_update)

lemma hd_set_last: "xs \<noteq> [] \<Longrightarrow> f x = f (last xs) \<Longrightarrow> f (hd (set_last x xs)) = f (hd xs)"
  by (cases xs rule: rev_cases) (auto simp: set_last_def hd_append list_update_append)

lemma map_set_last: "xs \<noteq> [] \<Longrightarrow> f x = f (last xs) \<Longrightarrow> map f (set_last x xs) = map f xs"
  by (cases xs rule: rev_cases) (auto simp: set_last_def list_update_append)

lemma map_update_same: "i < length xs \<Longrightarrow> f x = f (xs ! i) \<Longrightarrow> map f (xs[i := x]) = map f xs"
  by (metis list_update_id map_update)

lemma find_index_Some: "find_index P xs = Some i \<Longrightarrow> i < length xs \<and> P (xs ! i)"
  by (induction xs arbitrary: i) (auto split: if_splits)

lemma fold_max_ge: "x \<in> set xs \<Longrightarrow> (x :: nat) \<le> fold max xs a"
  and fold_max_ge_init: "(a :: nat) \<le> fold max xs a"
proof (induction xs arbitrary: a)
  case (Cons y ys)
  { case 1 with Cons show ?case by (force intro: order_trans [OF _ Cons(2)]) }
  { case 2 show ?case using Cons(2) [of "max y a"] by simp }
qed simp_all

lemma next_index_fresh: "a \<in> set as \<Longrightarrow> a_index a < next_index as"
  unfolding next_index_def by (simp add: less_Suc_eq_le fold_max_ge)

lemma next_index_pos [simp]: "0 < next_index as"
  by (simp add: next_index_def)

lemma history_snoc:
  "history_ok (map attempt_identity as) \<Longrightarrow>
   history_ok (map attempt_identity (as @ [new_attempt (next_index as) t attr]))"
  by (auto simp: history_ok_def sorted_wrt_append attempt_identity_def new_attempt_def comp_def
      next_index_fresh)

section \<open>How every transition changes the history\<close>

lemma identity_supersede [simp]: "attempt_identity (supersede a) = attempt_identity a"
  by (simp add: supersede_def attempt_identity_def)

lemma identity_completed [simp]:
  "attempt_identity (completed_attempt c t a) = attempt_identity a"
  by (simp add: completed_attempt_def attempt_identity_def)

lemma identity_settled [simp]: "attempt_identity (settled_attempt s f a) = attempt_identity a"
  by (simp add: settled_attempt_def attempt_identity_def Let_def split: option.split)

lemma identity_project [simp]: "attempt_identity (projectAttemptCause a) = attempt_identity a"
  by (simp add: projectAttemptCause_def attempt_identity_def split: option.split)

lemma next_index_identity:
  "map attempt_identity as = map attempt_identity bs \<Longrightarrow> next_index as = next_index bs"
proof -
  assume "map attempt_identity as = map attempt_identity bs"
  then have "map (fst \<circ> attempt_identity) as = map (fst \<circ> attempt_identity) bs"
    by (metis map_map)
  then show ?thesis by (simp add: next_index_def attempt_identity_def comp_def)
qed

definition extends_history ::
  "(nat \<times> instant) list \<Rightarrow> (nat \<times> instant) list \<Rightarrow> bool" where
  \<comment> \<open>unchanged, or one attempt with a fresh index appended\<close>
  "extends_history h h' = (h' = h \<or> (\<exists>i t. h' = h @ [(i, t)] \<and> 0 < i \<and> (\<forall>e \<in> set h. fst e < i)))"

lemma extends_history_ok: "extends_history h h' \<Longrightarrow> history_ok h \<Longrightarrow> history_ok h'"
  by (auto simp: extends_history_def history_ok_def sorted_wrt_append)

lemma extends_history_prefix: "extends_history h h' \<Longrightarrow> prefix h h'"
  by (auto simp: extends_history_def)

lemma extends_history_refl [simp]: "extends_history h h"
  by (simp add: extends_history_def)

lemma extends_history_new:
  "extends_history (map attempt_identity as)
     (map attempt_identity (as @ [new_attempt (next_index as) t attr]))"
  by (auto simp: extends_history_def attempt_identity_def new_attempt_def next_index_fresh)

lemma begun_attempts:
  "attempts_of (begunStageStatus p n t attr) =
     (case at_last (attempts_if p) of None \<Rightarrow> attempts_if p
      | Some prior \<Rightarrow> set_last (supersede prior) (attempts_if p))
     @ [new_attempt (next_index (attempts_if p)) t attr]"
proof -
  let ?as = "attempts_if p"
  let ?bs = "case at_last ?as of None \<Rightarrow> ?as | Some prior \<Rightarrow> set_last (supersede prior) ?as"
  have "map attempt_identity ?bs = map attempt_identity ?as"
    by (auto simp: map_set_last at_last_Some_iff split: option.split)
  then have "next_index ?bs = next_index ?as" by (rule next_index_identity)
  then show ?thesis by (simp add: begunStageStatus_def attempts_of_def Let_def)
qed

lemma begun_history:
  "extends_history (map attempt_identity (attempts_if p))
     (ledger_history (begunStageStatus p n t attr))"
proof -
  let ?as = "attempts_if p"
  let ?bs = "case at_last ?as of None \<Rightarrow> ?as | Some prior \<Rightarrow> set_last (supersede prior) ?as"
  have "map attempt_identity ?bs = map attempt_identity ?as"
    by (auto simp: map_set_last at_last_Some_iff split: option.split)
  then show ?thesis
    using extends_history_new [of ?as t attr] by (simp add: ledger_history_def begun_attempts)
qed

lemma ensure_running_nonempty [simp]: "ensure_running p t attr \<noteq> []"
  by (auto simp: ensure_running_def Let_def at_last_def)

lemma ensure_running_last [simp]: "a_status (last (ensure_running p t attr)) = ARunning"
  by (auto simp: ensure_running_def Let_def at_last_def new_attempt_def)

lemma completed_attempts:
  "attempts_of (completedStageAttemptStatus now p n c) =
     (let as = ensure_running p (dflt (c_completedAt c) now) (c_attribution c)
      in set_last (completed_attempt c (dflt (c_completedAt c) now) (last as)) as)"
  by (simp add: completedStageAttemptStatus_def attempts_of_def Let_def)

lemma ensure_running_keeps:
  "attempts_if p \<noteq> [] \<Longrightarrow> a_status (last (attempts_if p)) = ARunning \<Longrightarrow>
   ensure_running p t attr = attempts_if p"
  by (simp add: ensure_running_def Let_def at_last_def)

lemma ensure_running_history:
  "extends_history (map attempt_identity (attempts_if p))
     (map attempt_identity (ensure_running p t attr))"
  using extends_history_new by (auto simp: ensure_running_def Let_def simp del: map_append)

lemma completed_identities:
  "ledger_history (completedStageAttemptStatus now p n c) =
     map attempt_identity (ensure_running p (dflt (c_completedAt c) now) (c_attribution c))"
  by (simp add: ledger_history_def completed_attempts Let_def map_set_last)

lemma completed_history:
  "extends_history (map attempt_identity (attempts_if p))
     (ledger_history (completedStageAttemptStatus now p n c))"
  by (simp add: completed_identities ensure_running_history)

lemma completed_running_history:
  "attempts_of st \<noteq> [] \<Longrightarrow> a_status (last (attempts_of st)) = ARunning \<Longrightarrow>
   ledger_history (completedStageAttemptStatus now (Some st) n c) = ledger_history st"
  unfolding completed_identities by (simp add: ensure_running_keeps ledger_history_def)

lemma settled_history:
  "settledStageAttemptStatus st i s f = Inr st' \<Longrightarrow> ledger_history st' = ledger_history st"
  by (auto simp: settledStageAttemptStatus_def ledger_history_def attempts_of_def Let_def
      at_last_Some_iff map_set_last split: option.splits if_splits)

lemma closed_history:
  assumes "closedStageStatus now st i c = Inr st'"
  shows "ledger_history st' = ledger_history st"
proof -
  let ?done = "completedStageAttemptStatus now (Some st) (s_retries st) c"
  from assms have ne: "attempts_of st \<noteq> []" and run: "a_status (last (attempts_of st)) = ARunning"
    and st': "attempts_of st' =
      set_last ((last (attempts_of ?done))\<lparr>a_status := AClosed\<rparr>) (attempts_of ?done)"
    by (auto simp: closedStageStatus_def Let_def attempts_of_def at_last_Some_iff
        split: option.splits if_splits)
  have "attempts_of ?done \<noteq> []" by (simp add: completed_attempts Let_def)
  then have "ledger_history st' = ledger_history ?done"
    by (simp add: st' ledger_history_def map_set_last attempt_identity_def)
  also have "\<dots> = ledger_history st"
    using ne run by (rule completed_running_history)
  finally show ?thesis .
qed

lemma audit_history:
  "attachedAuditStatus st i audit v = Inr st' \<Longrightarrow> ledger_history st' = ledger_history st"
  by (auto simp: attachedAuditStatus_def ledger_history_def attempts_of_def Let_def
      attempt_identity_def map_update_same dest!: find_index_Some split: option.splits if_splits)

lemma suspended_history:
  "suspendedStageStatus now st i = Inr st' \<Longrightarrow> ledger_history st' = ledger_history st"
  by (auto simp: suspendedStageStatus_def ledger_history_def attempts_of_def Let_def
      attempt_identity_def map_update_same dest!: find_index_Some split: option.splits)

lemma repend_history: "ledger_history (rependStageStatus (Some st) n e) = ledger_history st"
  by (simp add: rependStageStatus_def ledger_history_def attempts_of_def Let_def)

lemma interrupted_history:
  assumes "interruptedStageStatus now st t e c = Inr st'"
  shows "ledger_history st' = ledger_history st"
proof (cases "at_last (attempts_of st)")
  case None
  with assms show ?thesis
    by (auto simp: interruptedStageStatus_def ledger_history_def attempts_of_def split: if_splits)
next
  case (Some a)
  show ?thesis
  proof (cases "a_status a = ARunning")
    case True
    with Some assms have "st' = completedStageAttemptStatus now (Some st) (s_retries st)
        (interruption_completion a t e c)"
      by (simp add: interruptedStageStatus_def)
    with Some True show ?thesis by (simp add: at_last_Some_iff completed_running_history)
  next
    case False
    with Some assms show ?thesis
      by (auto simp: interruptedStageStatus_def ledger_history_def attempts_of_def
          dest: settled_history split: if_splits)
  qed
qed

section \<open>The machine\<close>

inductive ledger_step :: "stage_status \<Rightarrow> stage_status \<Rightarrow> bool" where
  began: "ledger_step st (begunStageStatus (Some st) n t attr)"
| completed: "ledger_step st (completedStageAttemptStatus now (Some st) n c)"
| closed: "closedStageStatus now st i c = Inr st' \<Longrightarrow> ledger_step st st'"
| settled: "settledStageAttemptStatus st i s f = Inr st' \<Longrightarrow> ledger_step st st'"
| audited: "attachedAuditStatus st i a v = Inr st' \<Longrightarrow> ledger_step st st'"
| suspended: "suspendedStageStatus now st i = Inr st' \<Longrightarrow> ledger_step st st'"
| repended: "ledger_step st (rependStageStatus (Some st) n e)"
| interrupted: "interruptedStageStatus now st t e c = Inr st' \<Longrightarrow> ledger_step st st'"

definition ledger_init :: "stage_status \<Rightarrow> bool" where
  "ledger_init st = (attempts_of st = [])"

lemma ledger_step_extends: "ledger_step st st' \<Longrightarrow> extends_history (ledger_history st) (ledger_history st')"
proof (induction rule: ledger_step.induct)
  case (began st n t attr)
  show ?case using begun_history [of "Some st"] by (simp add: ledger_history_def)
next
  case (completed st now n c)
  show ?case using completed_history [of "Some st"] by (simp add: ledger_history_def)
qed (simp_all add: closed_history settled_history audit_history suspended_history
       repend_history interrupted_history)

interpretation ledger: history_machine ledger_init ledger_step ledger_ok ledger_history
proof unfold_locales
  show "ledger_ok st" if "ledger_init st" for st
    using that by (simp add: ledger_init_def ledger_ok_def)
  show "ledger_ok t" if "ledger_ok s" and "ledger_step s t" for s t
    using that by (auto simp: ledger_ok_history intro: extends_history_ok ledger_step_extends)
  show "prefix (ledger_history s) (ledger_history t)" if "ledger_ok s" and "ledger_step s t" for s t
    using that by (blast intro: extends_history_prefix ledger_step_extends)
qed

section \<open>Properties of the transitions\<close>

text \<open>C3. The ledger is append-only: along any sequence of transitions, whatever their
  order, no attempt disappears, none changes its index or start instant, and attempt indexes
  stay positive and strictly increasing.\<close>

theorem ledger_append_only:
  assumes "ledger_step\<^sup>*\<^sup>* st st'" and "ledger_ok st"
  shows "prefix (ledger_history st) (ledger_history st') \<and> ledger_ok st'"
  using ledger.steps_hist [OF assms] ledger.steps_inv [OF assms] by simp

theorem ledger_append_only_witness:
  "prefix (ledger_history (bare_status SPending 0))
     (ledger_history (rependStageStatus
        (Some (begunStageStatus (Some (bare_status SPending 0)) 0 100 None)) (Some 1) None))"
proof -
  let ?s0 = "bare_status SPending 0"
  let ?s1 = "begunStageStatus (Some ?s0) 0 100 None"
  have "ledger_step ?s0 ?s1" by (rule ledger_step.began)
  moreover have "ledger_step ?s1 (rependStageStatus (Some ?s1) (Some 1) None)"
    by (rule ledger_step.repended)
  ultimately have steps: "ledger_step\<^sup>*\<^sup>* ?s0 (rependStageStatus (Some ?s1) (Some 1) None)"
    by (meson converse_rtranclp_into_rtranclp r_into_rtranclp)
  have "ledger_ok ?s0" by (simp add: ledger_ok_def attempts_of_def bare_status_def)
  from ledger_append_only [OF steps this] show ?thesis by simp
qed

lemma closed_shape:
  assumes "closedStageStatus now st i c = Inr st'"
  shows "s_status st' = SRunning" and "attempts_of st' \<noteq> []"
    and "a_status (last (attempts_of st')) = AClosed" and "a_index (last (attempts_of st')) = i"
proof -
  from assms show "s_status st' = SRunning" "attempts_of st' \<noteq> []"
    "a_status (last (attempts_of st')) = AClosed"
    by (auto simp: closedStageStatus_def Let_def attempts_of_def completedStageAttemptStatus_def
        split: option.splits if_splits)
  from assms have "attempts_of st \<noteq> []" "a_index (last (attempts_of st)) = i"
    by (auto simp: closedStageStatus_def Let_def at_last_Some_iff split: option.splits if_splits)
  moreover have "map (fst \<circ> attempt_identity) (attempts_of st') = map (fst \<circ> attempt_identity) (attempts_of st)"
    using closed_history [OF assms] by (metis ledger_history_def map_map)
  then have "map a_index (attempts_of st') = map a_index (attempts_of st)"
    by (simp add: attempt_identity_def comp_def)
  ultimately show "a_index (last (attempts_of st')) = i"
    by (metis \<open>attempts_of st' \<noteq> []\<close> last_map)
qed

text \<open>Closing the adapter child of an attempt never releases a dependency: the stage
  stays running, the attempt is marked closed, and the only settlement the ledger then accepts
  is the one that names this attempt.\<close>

lemma closed_attempt_holds_dependents:
  assumes "closedStageStatus now st i c = Inr st'"
  shows "\<not> isSatisfiedStageDependencyStatus (s_status st') \<and>
     a_status (last (attempts_of st')) = AClosed \<and>
     ((\<exists>st''. settledStageAttemptStatus st' j s f = Inr st'') \<longleftrightarrow> j = i)"
  using closed_shape [OF assms]
  by (auto simp: status_simps settledStageAttemptStatus_def at_last_def Let_def)

definition demo_running :: stage_status where
  "demo_running = begunStageStatus None 0 1000 None"

lemma demo_running_shape:
  "attempts_of demo_running = [new_attempt 1 1000 None]" "s_retries demo_running = 0"
  by (simp_all add: demo_running_def begun_attempts at_last_def next_index_def)
     (simp add: begunStageStatus_def Let_def)

lemma demo_closes: "\<exists>st'. closedStageStatus 1500 demo_running 1 (plain_completion 0 500) = Inr st'"
  by (simp add: closedStageStatus_def demo_running_shape at_last_def new_attempt_def Let_def)

lemma set_last_set_last [simp]: "set_last x (set_last y xs) = set_last x xs"
  by (simp add: set_last_def)

text \<open>Closing and then settling an attempt is completing it: for a completion that is not a
  suspension and hands no continuation over after a failure, the two-step publication ends in
  exactly the stage status the one-step completion computes.\<close>

lemma close_then_settle_is_complete:
  assumes closed: "closedStageStatus now st i c = Inr st'"
    and "\<not> c_suspended c" and "c_continuation c = None \<or> c_exitCode c = 0"
  shows "settledStageAttemptStatus st' i False None
           = Inr (completedStageAttemptStatus now (Some st) (s_retries st) c)"
proof -
  let ?done = "completedStageAttemptStatus now (Some st) (s_retries st) c"
  let ?as = "ensure_running (Some st) (dflt (c_completedAt c) now) (c_attribution c)"
  let ?a = "completed_attempt c (dflt (c_completedAt c) now) (last ?as)"
  have donest: "s_attempts ?done = Some (set_last ?a ?as)"
    by (simp add: completedStageAttemptStatus_def Let_def)
  from closed have st': "st' = ?done\<lparr>
      s_attempts := Some (set_last (?a\<lparr>a_status := AClosed\<rparr>) ?as),
      s_status := SRunning, s_completedAt := None, s_error := None\<rparr>"
    by (auto simp: closedStageStatus_def Let_def completed_attempts split: option.splits if_splits)
  have idx: "a_index ?a = i"
    using closed_shape(4) [OF closed] by (simp add: st' attempts_of_def)
  have settled: "settled_attempt False None (?a\<lparr>a_status := AClosed\<rparr>) = ?a"
    using assms(2,3) by (auto simp: settled_attempt_def Let_def completed_attempt_def)
  have "settledStageAttemptStatus st' i False None = Inr (st'\<lparr>
      s_attempts := Some (set_last ?a ?as), s_continuation := a_continuation ?a,
      s_status := settled_stage_state (a_status ?a),
      s_exitCode := a_exitCode ?a, s_completedAt := a_completedAt ?a, s_error := a_error ?a\<rparr>)"
    using settled idx assms(2)
    by (simp add: settledStageAttemptStatus_def st' attempts_of_def at_last_def Let_def)
       (simp add: completed_attempt_def)
  also have "\<dots> = Inr ?done"
    using assms(2)
    by (simp add: st' completedStageAttemptStatus_def completed_attempt_def Let_def bare_status_def)
  finally show ?thesis .
qed

end
