(* ===== verification/Attempt_Store.thy ===== *)
theory Attempt_Store
  imports Run_Commit Attempt_Ledger
begin

text \<open>
  The persisted attempt operations of \<open>src/src/store.ts\<close>: every transition reads the stage
  ledger \<open>stages/<id>/status.json\<close>, computes the next status, and publishes it to the
  ledger and the aggregate \<open>run.json\<close> in one mutation of the run state.  An operation returns
  the directory also when it raises.  \<open>runId\<close> and the directory are the resolved identity
  (\<open>resolveRunIdentity\<close>).
\<close>

datatype publish_error =
    Ledger store_error
  | Commit persist_error

definition readStageStatus :: "run_dir \<Rightarrow> string \<Rightarrow> publish_error + stage_status" where
  "readStageStatus dir sid =
     (case map_of (d_ledgers dir) sid of
        None \<Rightarrow> Inl (Ledger LedgerUnreadable)
      | Some st \<Rightarrow> Inr (projectAttemptCauses st))"

definition readStageStatusIfPresent :: "run_dir \<Rightarrow> string \<Rightarrow> stage_status option" where
  "readStageStatusIfPresent dir sid =
     (case readStageStatus dir sid of Inl _ \<Rightarrow> None | Inr st \<Rightarrow> Some st)"

definition put_ledger :: "string \<Rightarrow> stage_status \<Rightarrow> run_dir \<Rightarrow> run_dir" where
  "put_ledger sid status dir = dir\<lparr>d_ledgers := amap_set sid status (d_ledgers dir)\<rparr>"

definition put_stage :: "string \<Rightarrow> stage_status \<Rightarrow> store_state \<Rightarrow> store_state" where
  "put_stage sid status state = state\<lparr>rs_stages := amap_set sid status (rs_stages state)\<rparr>"

definition stage_mutator ::
  "string \<Rightarrow> stage_status \<Rightarrow> run_dir \<Rightarrow> store_state \<Rightarrow> run_dir \<times> (persist_error + store_state)" where
  "stage_mutator sid status dir state =
     (if rs_status state = JStr ''cancelled'' then (dir, Inl CancelledPublication)
      else (put_ledger sid status dir, Inr (put_stage sid status state)))"

definition writeStageStatus ::
  "instant \<Rightarrow> outside \<Rightarrow> string \<Rightarrow> string \<Rightarrow> stage_status \<Rightarrow> run_dir \<Rightarrow>
   run_dir \<times> (publish_error + unit)" where
  "writeStageStatus now others runId sid status dir =
     (if d_runjson dir \<noteq> NoRunJson
      then (case updateRunState now others runId (stage_mutator sid status) dir of
              (dir, Inl e) \<Rightarrow> (dir, Inl (Commit e))
            | (dir, Inr _) \<Rightarrow> (dir, Inr ()))
      else (put_ledger sid status dir, Inr ()))"

definition publish ::
  "instant \<Rightarrow> outside \<Rightarrow> string \<Rightarrow> string \<Rightarrow> store_error + stage_status \<Rightarrow>
   run_dir \<Rightarrow> run_dir \<times> (publish_error + stage_status)" where
  "publish now others runId sid result dir =
     (case result of
        Inl e \<Rightarrow> (dir, Inl (Ledger e))
      | Inr status \<Rightarrow>
          (case writeStageStatus now others runId sid status dir of
             (dir, Inl e) \<Rightarrow> (dir, Inl e)
           | (dir, Inr _) \<Rightarrow> (dir, Inr status)))"

definition publish_from ::
  "instant \<Rightarrow> outside \<Rightarrow> string \<Rightarrow> string \<Rightarrow>
   (stage_status \<Rightarrow> store_error + stage_status) \<Rightarrow> run_dir \<Rightarrow>
   run_dir \<times> (publish_error + stage_status)" where
  "publish_from now others runId sid step dir =
     (case readStageStatus dir sid of
        Inl e \<Rightarrow> (dir, Inl e)
      | Inr previous \<Rightarrow> publish now others runId sid (step previous) dir)"

definition beginStageAttempt where
  "beginStageAttempt now others runId sid retries started attr dir =
     (let running = begunStageStatus (readStageStatusIfPresent dir sid) retries started attr;
          dir = dir\<lparr>d_livelogs := d_livelogs dir
                  @ [(sid, a_index (last (attempts_of running)), started)]\<rparr>
      in publish now others runId sid (Inr running) dir)"

definition completeStageAttempt where
  "completeStageAttempt now others runId sid retries completion dir =
     publish now others runId sid
       (Inr (completedStageAttemptStatus now (readStageStatusIfPresent dir sid) retries completion)) dir"

definition closeStageAttempt where
  "closeStageAttempt now others runId sid attemptIndex completion =
     publish_from now others runId sid (\<lambda>st. closedStageStatus now st attemptIndex completion)"

definition settleStageAttempt where
  "settleStageAttempt now others runId sid attemptIndex suspended failure =
     publish_from now others runId sid
       (\<lambda>st. settledStageAttemptStatus st attemptIndex suspended failure)"

definition attachStageConstraintAudit where
  "attachStageConstraintAudit now others runId sid attemptIndex audit violationError =
     publish_from now others runId sid
       (\<lambda>st. attachedAuditStatus st attemptIndex audit violationError)"

definition suspendStageAttempt where
  "suspendStageAttempt now others runId sid attemptIndex =
     publish_from now others runId sid (\<lambda>st. suspendedStageStatus now st attemptIndex)"

text \<open>Recovery: the mutator sees the fresh state and ledger, and may decline.\<close>

definition updateStageStatusUnderRunLock ::
  "instant \<Rightarrow> string \<Rightarrow> string \<Rightarrow> (store_state \<Rightarrow> stage_status \<Rightarrow> stage_status option) \<Rightarrow>
   run_dir \<Rightarrow> run_dir \<times> (publish_error + store_state)" where
  "updateStageStatusUnderRunLock now runId sid mutator dir =
     (case d_runjson dir of
        RunJson parsed \<Rightarrow>
          (case hydrateRunProjection dir parsed of
             Inl e \<Rightarrow> (dir, Inl (Commit e))
           | Inr state \<Rightarrow>
               (case readStageStatus dir sid of
                  Inl e \<Rightarrow> (dir, Inl e)
                | Inr ledger \<Rightarrow>
                    (case mutator state ledger of
                       None \<Rightarrow> (dir, Inr state)
                     | Some status \<Rightarrow>
                         if rs_status state = JStr ''cancelled''
                         then (dir, Inl (Commit CancelledPublication))
                         else
                           (case persistRunStateUnlocked now (put_ledger sid status dir) runId
                                   (put_stage sid status state) (Some (RunJson parsed)) of
                              (dir, Inl e) \<Rightarrow> (dir, Inl (Commit e))
                            | (dir, Inr state) \<Rightarrow> (dir, Inr state)))))
      | _ \<Rightarrow> (dir, Inl (Commit RunJsonUnreadable)))"

text \<open>
  Operational mutations rewrite the compact projection without reading histories.  Only
  \<open>interruption\<close> may pass the cancelled fence, and it carries changed stages over to ledgers
  that agreed with the projection before.
\<close>

definition interrupt_ledgers :: "store_state \<Rightarrow> store_state \<Rightarrow> run_dir \<Rightarrow> run_dir" where
  "interrupt_ledgers previous state dir =
     fold (\<lambda>(sid, status) dir.
             if map_of (rs_stages previous) sid = Some status then dir
             else case map_of (d_ledgers dir) sid of
                    None \<Rightarrow> dir
                  | Some ledger \<Rightarrow> if map_of (rs_stages previous) sid = Some ledger
                                   then put_ledger sid status dir else dir)
       (rs_stages state) dir"

definition updateOperationalRunState ::
  "instant \<Rightarrow> string \<Rightarrow> string \<Rightarrow> (store_state \<Rightarrow> persist_error + store_state) \<Rightarrow> bool \<Rightarrow>
   run_dir \<Rightarrow> run_dir \<times> (persist_error + store_state)" where
  "updateOperationalRunState now runId projectDir mutator interruption dir =
     (case d_runjson dir of
        RunJson parsed \<Rightarrow>
          let previous = parsed\<lparr>rs_status := normalize_status (rs_status parsed)\<rparr> in
          (case mutator previous of
             Inl e \<Rightarrow> (dir, Inl e)
           | Inr state \<Rightarrow>
               if rs_runId state \<noteq> runId \<or> rs_projectDir state \<noteq> projectDir
               then (dir, Inl RunIdentityBinding)
               else if rs_format previous \<noteq> rs_format state \<or> histories_of previous \<noteq> histories_of state
               then (dir, Inl HistoryChanged)
               else if isJsonPersistedEqual previous state
               then (observeRunStatusChange now dir (rs_status state), Inr state)
               else
                 (case resolveRunStatus (rs_status state) of
                    Unknown raw \<Rightarrow> (dir, Inl (UnknownStatus raw))
                  | Known _ _ \<Rightarrow>
                      if rs_status previous = JStr ''cancelled'' \<and> \<not> interruption
                      then (dir, Inl CancelledPublication)
                      else
                        let dir = (if interruption then interrupt_ledgers previous state dir else dir);
                            state = state\<lparr>rs_format := map_option
                              (\<lambda>f. f\<lparr>sf_revision := sf_revision f + 1\<rparr>) (rs_format state)\<rparr>
                        in (publishRunProjection now dir state state, Inr state)))
      | _ \<Rightarrow> (dir, Inl RunJsonUnreadable))"

section \<open>What a publication leaves on disk\<close>

interpretation ledgers: keyed_store "\<lambda>dir. map_of (d_ledgers dir)" put_ledger
  by unfold_locales (simp add: put_ledger_def)

interpretation stages: keyed_store "\<lambda>state. map_of (rs_stages state)" put_stage
  by unfold_locales (simp add: put_stage_def)

lemma put_ledger_frame [simp]:
  "d_runjson (put_ledger k v dir) = d_runjson dir"
  "d_history (put_ledger k v dir) = d_history dir"
  by (simp_all add: put_ledger_def)

lemma put_stage_frame [simp]:
  "rs_status (put_stage k v st) = rs_status st"
  by (simp add: put_stage_def)

lemma map_of_map_value: "map_of (map (\<lambda>(k, v). (k, f v)) m) k = map_option f (map_of m k)"
  by (induction m) auto

lemma hydrate_stages:
  "hydrateRunProjection dir p = Inr cur \<Longrightarrow>
     map_of (rs_stages cur) k = map_option projectAttemptCauses (map_of (rs_stages p) k)"
  by (auto simp: hydrateRunProjection_def Let_def map_of_map_value split: option.splits)

lemma merge_more_stages [simp]:
  "rs_stages (merge_processes c m) = rs_stages m"
  "rs_stages (merge_engine_history c m) = rs_stages m"
  by (auto simp: merge_processes_def merge_engine_history_def split: option.splits)

lemma merge_state_stages:
  "merge_state cur st = Inr m \<Longrightarrow> rs_stages m = rs_stages st"
  by (auto simp: merge_state_def mergeStateHistories_def)

lemma same_stages_get: "same_stages m m' \<Longrightarrow> map_of m k = map_of m' k"
  unfolding same_stages_def
  by (cases "k \<in> set (map fst m @ map fst m')") (auto simp: map_of_eq_None_iff [symmetric])

lemma compact_stages [simp]: "rs_stages (compactProjection m ref v) = rs_stages m"
  by (simp add: compactProjection_def)

lemma publish_ledgers [simp]:
  "d_ledgers (publishRunProjection now dir p s) = d_ledgers dir"
  by (simp add: publishRunProjection_def Let_def)

lemma commit_projection_stages:
  assumes "commit_projection now dir (Some p) state merged ref = (dir', Inr st')"
    and "rs_format p \<noteq> None" and "d_runjson dir = RunJson p"
  shows "d_ledgers dir' = d_ledgers dir \<and>
    (\<exists>p'. d_runjson dir' = RunJson p' \<and> (\<forall>k. map_of (rs_stages p') k = map_of (rs_stages merged) k))"
proof (cases "isJsonPersistedEqual p
    (compactProjection merged ref (case rs_format p of None \<Rightarrow> 0 | Some f \<Rightarrow> sf_revision f))")
  case True
  then have "\<forall>k. map_of (rs_stages p) k = map_of (rs_stages merged) k"
    by (auto simp: isJsonPersistedEqual_def dest: same_stages_get)
  with assms True show ?thesis
    by (auto simp: commit_projection_def Let_def field_def)
next
  case False
  with assms show ?thesis
    by (auto simp: commit_projection_def Let_def field_def publish_commit_def)
qed

lemma persist_merged_stages:
  assumes "persist_merged now dir (Some (p, cur)) state = (dir', Inr st')"
    and "rs_format p \<noteq> None" and "d_runjson dir = RunJson p"
  shows "d_ledgers dir' = d_ledgers dir \<and>
    (\<exists>p'. d_runjson dir' = RunJson p' \<and> (\<forall>k. map_of (rs_stages p') k = map_of (rs_stages state) k))"
proof -
  from assms(1) obtain f m r where m: "merge_state (Some cur) state = Inr m"
    and c: "commit_projection now (dir\<lparr>d_history := f\<rparr>) (Some p) state m r = (dir', Inr st')"
    by (auto simp: persist_merged_def Let_def split: sum.splits prod.splits)
  from commit_projection_stages [OF c assms(2)] assms(3) merge_state_stages [OF m]
  show ?thesis by simp
qed

lemma commit_stages:
  assumes commit: "persistRunStateUnlocked now dir runId state (Some (RunJson p)) = (dir', Inr st')"
    and "d_runjson dir = RunJson p" "rs_format p \<noteq> None"
    and alive: "normalize_status (rs_status p) \<noteq> JStr ''cancelled''"
  shows "d_ledgers dir' = d_ledgers dir \<and>
    (\<exists>p'. d_runjson dir' = RunJson p' \<and> (\<forall>k. map_of (rs_stages p') k = map_of (rs_stages state) k))"
  using commit
proof (cases rule: persist_cases)
  case (observed p' cur)
  then have "p' = p" "hydrateRunProjection dir p = Inr cur"
    using assms(2) current_of_Some [OF observed(1)] by auto
  with observed alive show ?thesis using hydrate_status by auto
next
  case (merged current)
  then obtain cur where "current = Some (p, cur)"
    using assms(2) by (auto simp: current_of_def split: run_status_resolution.splits)
  with merged(4) have "persist_merged now dir (Some (p, cur))
      (state\<lparr>rs_status := normalize_status (rs_status state)\<rparr>) = (dir', Inr st')" by simp
  from persist_merged_stages [OF this assms(3,2)] show ?thesis by simp
qed simp

text \<open>A commit against the projection it reads never reports a conflict.\<close>

lemma no_conflict_records: "records_of items \<noteq> Inl ProjectionConflict"
  by (induction items rule: records_of.induct) simp_all

lemma no_conflict_materialize: "materialize rs k i n \<noteq> Inl ProjectionConflict"
  by (induction n arbitrary: i) (simp_all split: option.split)

lemma no_conflict_prefix: "readPrefix f n \<noteq> Inl ProjectionConflict"
  by (simp add: readPrefix_def split: option.split)

lemmas no_conflict_read = no_conflict_records no_conflict_materialize no_conflict_prefix

lemma no_conflict_histories: "readRunHistories dir ref \<noteq> Inl ProjectionConflict"
  by (auto simp: readRunHistories_def no_conflict_read split: option.splits)

lemma no_conflict_hydrate: "hydrateRunProjection dir p \<noteq> Inl ProjectionConflict"
  by (auto simp: hydrateRunProjection_def Let_def no_conflict_histories split: option.splits)

lemma no_conflict_merge: "merge_state cur st \<noteq> Inl ProjectionConflict"
  by (auto simp: merge_state_def mergeStateHistories_def mergeImmutableHistory_def split: option.splits)

lemma no_conflict_append: "appendHistoryDelta f c d n \<noteq> Inl ProjectionConflict"
  by (simp add: appendHistoryDelta_def Let_def)

lemma no_conflict_tail: "normalizeHistoryTail f n \<noteq> Inl ProjectionConflict"
  by (simp add: normalizeHistoryTail_def split: option.split)

lemma no_conflict_commit: "commit_projection now dir cp st m ref \<noteq> (dir', Inl e)"
  using commit_projection_Inr [of now dir cp st m ref] by auto

lemma no_conflict_merged: "persist_merged now dir current st \<noteq> (dir', Inl ProjectionConflict)"
  by (auto simp: persist_merged_def Let_def no_conflict_tail no_conflict_histories no_conflict_merge
      no_conflict_append no_conflict_commit split: sum.split prod.split)

lemma no_conflict_over: "persist_over now dir current st ex \<noteq> (dir', Inl ProjectionConflict)"
  using no_conflict_merged by (auto simp: persist_over_def split: option.splits)

lemma no_conflict_current: "current_of dir \<noteq> Inl ProjectionConflict"
  by (auto simp: current_of_def no_conflict_hydrate split: run_json.splits run_status_resolution.splits)

lemma no_conflict:
  "persistRunStateUnlocked now dir runId state (Some (d_runjson dir)) \<noteq> (dir', Inl ProjectionConflict)"
proof (cases "resolveRunStatus (rs_status state)")
  case (Known rst sem)
  then show ?thesis
    using no_conflict_current [of dir] no_conflict_over
    by (cases "current_of dir") (simp_all add: persistRunStateUnlocked_def Let_def)
qed (simp add: persistRunStateUnlocked_def)

text \<open>Without a writer outside the lock the mutation loop commits at its first attempt.\<close>

definition no_writer :: outside where
  "no_writer = \<lparr>before_commit = (\<lambda>_ dir. dir), during_commit = (\<lambda>_ _. None)\<rparr>"

lemma no_writer_simps [simp]:
  "before_commit no_writer k dir = dir" "during_commit no_writer k = (\<lambda>_. None)"
  by (simp_all add: no_writer_def)

lemma persist_alone [simp]:
  "persist_racing now (\<lambda>_. None) dir runId state ex = persistRunStateUnlocked now dir runId state ex"
  by (simp add: persist_racing_def Let_def split: prod.split sum.split)

lemma update_first_attempt:
  assumes "d_runjson dir = RunJson p" and "hydrateRunProjection dir p = Inr cur"
    and "mutator dir cur = (dir1, Inr m)" and "d_runjson dir1 = RunJson p"
  shows "updateRunState now no_writer runId mutator dir
    = persistRunStateUnlocked now dir1 runId m (Some (RunJson p))"
proof -
  obtain d r where r: "persistRunStateUnlocked now dir1 runId m (Some (RunJson p)) = (d, r)" by fastforce
  have "r \<noteq> Inl ProjectionConflict"
    using no_conflict [of now dir1 runId m d] r assms(4) by auto
  with assms r show ?thesis
    unfolding updateRunState_def
    by (cases r) (auto simp: eval_nat_numeral split: persist_error.splits)
qed

lemma write_stage_eq:
  assumes "d_runjson dir = RunJson p" and "hydrateRunProjection dir p = Inr cur"
    and "rs_status cur \<noteq> JStr ''cancelled''"
  shows "writeStageStatus now no_writer runId sid status dir
    = (case persistRunStateUnlocked now (put_ledger sid status dir) runId (put_stage sid status cur)
              (Some (RunJson p)) of
         (dir, Inl e) \<Rightarrow> (dir, Inl (Commit e)) | (dir, Inr _) \<Rightarrow> (dir, Inr ()))"
  using update_first_attempt [OF assms(1,2), of "stage_mutator sid status" "put_ledger sid status dir"
      "put_stage sid status cur" now runId] assms
  by (simp add: writeStageStatus_def stage_mutator_def)

lemma write_stage_hydrates:
  assumes "writeStageStatus now others runId sid status dir = (dir', r)" and "d_runjson dir = RunJson p"
    and "hydrateRunProjection dir p = Inl e \<or>
      (\<exists>cur. hydrateRunProjection dir p = Inr cur \<and> rs_status cur = JStr ''cancelled'')"
  shows "dir' = dir \<and> (\<exists>e. r = Inl (Commit e))"
  using assms
  by (auto simp: writeStageStatus_def updateRunState_def eval_nat_numeral stage_mutator_def)

section \<open>Properties of the persisted operations\<close>

text \<open>The ledger and the public aggregate agree after a publication: when a stage status is
  written and no writer bypasses the run-state lock, the stage ledger and the stage's entry in
  \<open>run.json\<close> both hold exactly the written status, every other ledger is untouched, and every
  other stage of the aggregate keeps the value readers already saw.\<close>

lemma publication_agrees:
  assumes step: "writeStageStatus now no_writer runId sid status dir = (dir', Inr u)"
    and json: "d_runjson dir = RunJson p" and fmt: "rs_format p \<noteq> None"
  shows "(\<forall>k. map_of (d_ledgers dir') k = (if k = sid then Some status else map_of (d_ledgers dir) k))
    \<and> (\<exists>p'. d_runjson dir' = RunJson p' \<and> (\<forall>k. map_of (rs_stages p') k =
          (if k = sid then Some status else map_option projectAttemptCauses (map_of (rs_stages p) k))))"
proof -
  obtain cur where cur: "hydrateRunProjection dir p = Inr cur" and alive: "rs_status cur \<noteq> JStr ''cancelled''"
    using write_stage_hydrates [OF step json] by (cases "hydrateRunProjection dir p") auto
  from step [unfolded write_stage_eq [OF json cur alive]] obtain st'
    where commit: "persistRunStateUnlocked now (put_ledger sid status dir) runId (put_stage sid status cur)
        (Some (RunJson p)) = (dir', Inr st')" by (auto split: prod.splits sum.splits)
  have "normalize_status (rs_status p) \<noteq> JStr ''cancelled''"
    using alive hydrate_status [OF cur] by simp
  from commit_stages [OF commit _ fmt this] json
  have l: "d_ledgers dir' = d_ledgers (put_ledger sid status dir)"
    and s: "\<exists>p'. d_runjson dir' = RunJson p' \<and>
      (\<forall>k. map_of (rs_stages p') k = map_of (rs_stages (put_stage sid status cur)) k)"
    by simp_all
  show ?thesis
    using s unfolding l ledgers.get_put stages.get_put hydrate_stages [OF cur] by simp
qed

definition demo_store :: run_dir where
  "demo_store = demo_dir\<lparr>d_runjson := RunJson (demo_state\<lparr>rs_stageEvidence := None,
      rs_format := Some \<lparr>sf_revision = 1, sf_history = None\<rparr>\<rparr>), d_history := None\<rparr>"

lemma demo_store_json:
  "d_runjson demo_store = RunJson (demo_state\<lparr>rs_stageEvidence := None,
      rs_format := Some \<lparr>sf_revision = 1, sf_history = None\<rparr>\<rparr>)"
  by (simp add: demo_store_def)

lemma demo_write: "\<exists>d. writeStageStatus 7 no_writer ''run'' ''build'' (bare_status SPending 0) demo_store = (d, Inr ())"
  by (rule exI, code_simp)

definition only_livelogs :: "run_dir \<Rightarrow> run_dir \<Rightarrow> bool" where
  "only_livelogs dir dir' = (\<exists>logs. dir' = dir\<lparr>d_livelogs := logs\<rparr>)"

lemma only_livelogs_refl [simp]: "only_livelogs dir dir"
  unfolding only_livelogs_def by (rule exI [of _ "d_livelogs dir"]) simp

lemma cancelled_write:
  assumes "d_runjson dir = RunJson p" and "normalize_status (rs_status p) = JStr ''cancelled''"
  shows "\<exists>e. writeStageStatus now others runId sid status dir = (dir, Inl e)"
proof -
  obtain dir' r where r: "writeStageStatus now others runId sid status dir = (dir', r)" by fastforce
  have "dir' = dir \<and> (\<exists>e. r = Inl (Commit e))"
  proof (cases "hydrateRunProjection dir p")
    case (Inl e)
    with write_stage_hydrates [OF r assms(1)] show ?thesis by blast
  next
    case (Inr cur)
    with write_stage_hydrates [OF r assms(1)] hydrate_status [OF Inr] assms(2) show ?thesis by simp
  qed
  with r show ?thesis by auto
qed

lemma cancelled_publish:
  assumes "d_runjson dir = RunJson p" and "normalize_status (rs_status p) = JStr ''cancelled''"
  shows "\<exists>e. publish now others runId sid result dir = (dir, Inl e)"
    and "\<exists>e. publish_from now others runId sid step dir = (dir, Inl e)"
proof -
  show pub: "\<exists>e. publish now others runId sid result dir = (dir, Inl e)" for result
  proof (cases result)
    case (Inr status)
    obtain e where "writeStageStatus now others runId sid status dir = (dir, Inl e)"
      using cancelled_write [OF assms] by blast
    with Inr show ?thesis by (simp add: publish_def)
  qed (simp add: publish_def)
  show "\<exists>e. publish_from now others runId sid step dir = (dir, Inl e)"
    using pub by (cases "readStageStatus dir sid") (simp_all add: publish_from_def)
qed

text \<open>C5. No attempt operation publishes into a cancelled run.  Once the cancellation is in
  \<open>run.json\<close>, beginning, completing, closing, settling, auditing or suspending an attempt
  raises, and leaves both files, the history and the events as they were (beginning may have
  opened an empty log stream before it was refused).\<close>

theorem cancelled_run_refuses_attempts:
  assumes "d_runjson dir = RunJson p" and "normalize_status (rs_status p) = JStr ''cancelled''"
  shows "(\<exists>dir' e. beginStageAttempt now w runId sid n t attr dir = (dir', Inl e) \<and> only_livelogs dir dir')
    \<and> (\<exists>e. completeStageAttempt now w runId sid n c dir = (dir, Inl e))
    \<and> (\<exists>e. closeStageAttempt now w runId sid i c dir = (dir, Inl e))
    \<and> (\<exists>e. settleStageAttempt now w runId sid i s f dir = (dir, Inl e))
    \<and> (\<exists>e. attachStageConstraintAudit now w runId sid i audit v dir = (dir, Inl e))
    \<and> (\<exists>e. suspendStageAttempt now w runId sid i dir = (dir, Inl e))"
proof -
  let ?dir = "dir\<lparr>d_livelogs := d_livelogs dir @ [(sid, a_index (last (attempts_of
      (begunStageStatus (readStageStatusIfPresent dir sid) n t attr))), t)]\<rparr>"
  have "\<exists>e. publish now w runId sid r ?dir = (?dir, Inl e)" for r
    by (rule cancelled_publish(1)) (use assms in simp_all)
  then have "\<exists>dir' e. beginStageAttempt now w runId sid n t attr dir = (dir', Inl e) \<and> only_livelogs dir dir'"
    unfolding beginStageAttempt_def Let_def only_livelogs_def by blast
  with cancelled_publish [OF assms] show ?thesis
    by (simp add: completeStageAttempt_def closeStageAttempt_def settleStageAttempt_def
        attachStageConstraintAudit_def suspendStageAttempt_def)
qed

theorem cancelled_run_refuses_attempts_witness:
  "\<exists>e. completeStageAttempt 7 no_writer ''run'' ''build'' 0 (plain_completion 0 5)
         (demo_dir\<lparr>d_runjson := RunJson demo_cancelled\<rparr>)
       = (demo_dir\<lparr>d_runjson := RunJson demo_cancelled\<rparr>, Inl e)"
proof -
  have c: "normalize_status (rs_status demo_cancelled) = JStr ''cancelled''" by code_simp
  show ?thesis
    using cancelled_run_refuses_attempts
      [of "demo_dir\<lparr>d_runjson := RunJson demo_cancelled\<rparr>", OF _ c, of 7 no_writer "''run''" "''build''"]
    by simp
qed

text \<open>Interruption (cancellation or a host restart).\<close>

definition not_executing :: "stage_status \<Rightarrow> bool" where
  "not_executing st = (s_status st \<noteq> SRunning \<and>
     (\<forall>a. at_last (attempts_of st) = Some a \<longrightarrow> a_status a \<noteq> ARunning \<and> a_status a \<noteq> AClosed))"

lemma interrupted_running:
  assumes "at_last (attempts_of st) = Some a" and "a_status a = ARunning"
  shows "attempts_of (completedStageAttemptStatus now (Some st) n c)
    = set_last (completed_attempt c (dflt (c_completedAt c) now) a) (attempts_of st)"
proof -
  have "a = last (attempts_of st)" using assms(1) by (simp add: at_last_Some_iff)
  then show ?thesis using assms by (simp add: completed_attempts ensure_running_def Let_def)
qed

text \<open>An interruption ends the execution it finds, and only that one: it always succeeds; a
  running or closed last attempt becomes a failed one with exit code 143 and the given cause,
  the stage is no longer running, the earlier attempts are untouched, and no attempt is
  invented.\<close>

lemma interruption_settles:
  assumes last: "at_last (attempts_of st) = Some a" and live: "a_status a = ARunning \<or> a_status a = AClosed"
  shows "\<exists>st' a'. interruptedStageStatus now st completed err c = Inr st'
    \<and> attempts_of st' = set_last a' (attempts_of st) \<and> attempt_identity a' = attempt_identity a
    \<and> a_status a' = AFailed \<and> a_exitCode a' = Some 143 \<and> a_terminationCause a' = Some c
    \<and> a_error a' = Some err \<and> s_status st' = SFailed"
proof (cases "a_status a = AClosed")
  case True
  then show ?thesis using last
    by (auto simp: interruptedStageStatus_def settledStageAttemptStatus_def Let_def settled_attempt_def
        attempts_of_def attempt_identity_def)
next
  case False
  with live have run: "a_status a = ARunning" by simp
  have "interruptedStageStatus now st completed err c
      = Inr (completedStageAttemptStatus now (Some st) (s_retries st) (interruption_completion a completed err c))"
    using last run by (simp add: interruptedStageStatus_def)
  moreover have "s_status (completedStageAttemptStatus now (Some st) (s_retries st)
      (interruption_completion a completed err c)) = SFailed"
    by (simp add: completedStageAttemptStatus_def Let_def interruption_completion_def plain_completion_def
        bare_status_def)
  moreover have "let a' = completed_attempt (interruption_completion a completed err c)
      (dflt (c_completedAt (interruption_completion a completed err c)) now) a in
      a_status a' = AFailed \<and> a_exitCode a' = Some 143 \<and> a_terminationCause a' = Some c \<and> a_error a' = Some err"
    by (simp add: completed_attempt_def interruption_completion_def plain_completion_def Let_def)
  ultimately show ?thesis
    using interrupted_running [OF last run] by (metis identity_completed)
qed

text \<open>Projecting the causes of legacy records is idempotent and leaves typed outcomes alone:
  an attempt that already carries a cause, or that is still running, is unchanged, and no
  other field of any attempt moves.\<close>

lemma cause_projection_stable:
  "projectAttemptCauses (projectAttemptCauses st) = projectAttemptCauses st
    \<and> (\<forall>a. a_terminationCause a \<noteq> None \<or> a_status a = ARunning \<longrightarrow> projectAttemptCause a = a)
    \<and> (\<forall>a. (projectAttemptCause a)\<lparr>a_terminationCause := None\<rparr> = a\<lparr>a_terminationCause := None\<rparr>)"
proof -
  have idem: "projectAttemptCause (projectAttemptCause a) = projectAttemptCause a" for a
    by (auto simp: projectAttemptCause_def split: option.split)
  have "projectAttemptCauses (projectAttemptCauses st) = projectAttemptCauses st"
    by (simp add: projectAttemptCauses_def option.map_comp comp_def idem cong: option.map_cong)
  then show ?thesis by (auto simp: projectAttemptCause_def split: option.split)
qed

end
