(* ===== verification/Deadline.thy ===== *)
theory Deadline
  imports Attempts
begin

text \<open>
  Attempt deadlines and technical retry budgets (\<open>src/src/attempt-deadline.ts\<close>, and the
  budget part of \<open>src/src/scheduler/sched_settlement/stage-execution.ts\<close>).

  One controller owns one execution attempt.  The monotonic clock is rational milliseconds,
  the wall clock integer milliseconds; every method receives the instant at which it samples
  the clocks.  The pending timer is its delay; firing it is an operation.  The retry-budget
  transition returns the updated state with its result, also when it raises.
\<close>

section \<open>Stage budgets\<close>

definition max_safe :: int where
  "max_safe = 9007199254740991"

datatype budget_error = NotPositiveSafeInteger string | RetryExhaustedWithoutTimeout | NotPrepared

definition positiveSafeInteger :: "int \<Rightarrow> string \<Rightarrow> budget_error + int" where
  "positiveSafeInteger v label =
     (if \<bar>v\<bar> > max_safe \<or> v \<le> 0 then Inl (NotPositiveSafeInteger label) else Inr v)"

definition ATTEMPT_TERMINATION_GRACE_MS :: int where
  "ATTEMPT_TERMINATION_GRACE_MS = 5000"

definition ATTEMPT_CLOSE_OBSERVATION_CUSHION_MS :: int where
  "ATTEMPT_CLOSE_OBSERVATION_CUSHION_MS = 500"

definition ATTEMPT_CLOSE_OBSERVATION_TOLERANCE_MS :: int where
  "ATTEMPT_CLOSE_OBSERVATION_TOLERANCE_MS =
     ATTEMPT_TERMINATION_GRACE_MS + ATTEMPT_CLOSE_OBSERVATION_CUSHION_MS"

record wrap_up_timing =
  warningAfterMs :: int
  finishingMs :: int
  hardLimitMs :: int

definition stageWrapUpTiming :: "int \<Rightarrow> budget_error + wrap_up_timing" where
  "stageWrapUpTiming budget =
     rbind (positiveSafeInteger budget ''stage budget'') (\<lambda>_.
       let finishing = min 300000 (max 1 (budget div 10))
       in Inr \<lparr>warningAfterMs = max 0 (budget - finishing - ATTEMPT_CLOSE_OBSERVATION_TOLERANCE_MS),
               finishingMs = finishing,
               hardLimitMs = max budget (ATTEMPT_CLOSE_OBSERVATION_TOLERANCE_MS + finishing)\<rparr>)"

section \<open>The deadline controller\<close>

definition MAX_TIMER_DELAY_MS :: int where
  "MAX_TIMER_DELAY_MS = 2147483647"

record controller =
  dc_budgetMs :: int
  dc_timing :: "wrap_up_timing option"
  dc_startedMono :: rat
  dc_deadlineMono :: rat
  dc_startedWall :: instant
  dc_deadlineAt :: instant
  dc_budgetDeadlineAt :: instant
  dc_wrapUpAt :: "instant option"
  dc_aborted :: bool
  dc_wrapUpAborted :: bool
  dc_deadlineReachedWall :: "instant option"
  dc_timer :: "int option"

record clock =
  monotonicNow :: rat
  wallNow :: instant

definition elapsedMs :: "clock \<Rightarrow> controller \<Rightarrow> rat" where
  "elapsedMs t c = max 0 (monotonicNow t - dc_startedMono c)"

definition remainingMs :: "clock \<Rightarrow> controller \<Rightarrow> rat" where
  "remainingMs t c = max 0 (dc_deadlineMono c - monotonicNow t)"

definition observeWrapUp :: "clock \<Rightarrow> controller \<Rightarrow> controller" where
  "observeWrapUp t c =
     (case dc_timing c of
        Some timing \<Rightarrow>
          if \<not> dc_wrapUpAborted c \<and> monotonicNow t - dc_startedMono c \<ge> of_int (warningAfterMs timing)
          then c\<lparr>dc_wrapUpAborted := True\<rparr> else c
      | None \<Rightarrow> c)"

definition abortAtDeadline :: "clock \<Rightarrow> controller \<Rightarrow> controller" where
  "abortAtDeadline t c =
     (if dc_aborted c then c
      else c\<lparr>dc_deadlineReachedWall := Some (wallNow t), dc_aborted := True\<rparr>)"

definition timer_delay :: "clock \<Rightarrow> controller \<Rightarrow> int" where
  "timer_delay t c =
     (let remaining = remainingMs t c;
          untilWarning = (case dc_timing c of
             Some timing \<Rightarrow> if \<not> dc_wrapUpAborted c
                            then of_int (warningAfterMs timing) - elapsedMs t c else remaining
           | None \<Rightarrow> remaining)
      in max 1 (min MAX_TIMER_DELAY_MS (min \<lceil>remaining\<rceil> \<lceil>untilWarning\<rceil>)))"

definition scheduleDeadlineCheck :: "clock \<Rightarrow> controller \<Rightarrow> controller" where
  "scheduleDeadlineCheck t c =
     (let c = observeWrapUp t c
      in if remainingMs t c \<le> 0 then abortAtDeadline t c
         else c\<lparr>dc_timer := Some (timer_delay t c)\<rparr>)"

definition timer_fires :: "clock \<Rightarrow> controller \<Rightarrow> controller" where
  \<comment> \<open>the callback of the pending timer; a fired timer is no longer pending\<close>
  "timer_fires t c =
     (let c = observeWrapUp t (c\<lparr>dc_timer := None\<rparr>)
      in if remainingMs t c > 0 then scheduleDeadlineCheck t c else abortAtDeadline t c)"

definition new_controller :: "int \<Rightarrow> bool \<Rightarrow> clock \<Rightarrow> budget_error + controller" where
  "new_controller budget wrapUp t =
     rbind (positiveSafeInteger budget ''attempt timeout'') (\<lambda>budget.
     rbind (if wrapUp then rbind (stageWrapUpTiming budget) (\<lambda>x. Inr (Some x)) else Inr None) (\<lambda>timing.
       let hard = (case timing of Some x \<Rightarrow> hardLimitMs x | None \<Rightarrow> budget)
       in Inr (scheduleDeadlineCheck t
            \<lparr>dc_budgetMs = budget, dc_timing = timing, dc_startedMono = monotonicNow t,
             dc_deadlineMono = monotonicNow t + of_int hard, dc_startedWall = wallNow t,
             dc_deadlineAt = wallNow t + hard, dc_budgetDeadlineAt = wallNow t + budget,
             dc_wrapUpAt = map_option (\<lambda>x. wallNow t + warningAfterMs x) timing,
             dc_aborted = False, dc_wrapUpAborted = False, dc_deadlineReachedWall = None,
             dc_timer = None\<rparr>)))"

definition deadline_cause :: "controller \<Rightarrow> cause option" where
  "deadline_cause c = (if dc_aborted c then Some CAttemptTimeout else None)"

definition deadlineOverrunMs :: "clock \<Rightarrow> controller \<Rightarrow> int" where
  "deadlineOverrunMs t c =
     (let overrun = monotonicNow t - dc_deadlineMono c in if overrun > 0 then max 1 \<lceil>overrun\<rceil> else 0)"

record deadline_snapshot =
  sn_budgetMs :: int
  sn_attemptStartedAt :: instant
  sn_deadlineAt :: instant
  sn_wrapUp :: "(instant \<times> instant option \<times> int) option"
  sn_elapsedMs :: int
  sn_remainingMs :: int
  sn_deadlineReachedAt :: "instant option"
  sn_terminationCause :: "cause option"

definition snapshot :: "clock \<Rightarrow> controller \<Rightarrow> deadline_snapshot" where
  \<comment> \<open>\<open>Math.round(x)\<close> is the floor of \<open>x + 1/2\<close>\<close>
  "snapshot t c =
     \<lparr>sn_budgetMs = dc_budgetMs c, sn_attemptStartedAt = dc_startedWall c,
      sn_deadlineAt = dc_deadlineAt c,
      sn_wrapUp = map_option (\<lambda>x. (dc_budgetDeadlineAt c, dc_wrapUpAt c, finishingMs x)) (dc_timing c),
      sn_elapsedMs = \<lfloor>elapsedMs t c + 1/2\<rfloor>,
      sn_remainingMs = max 0 \<lfloor>remainingMs t c\<rfloor>,
      sn_deadlineReachedAt = dc_deadlineReachedWall c,
      sn_terminationCause = deadline_cause c\<rparr>"

definition sleep_duration :: "clock \<Rightarrow> rat \<Rightarrow> bool \<Rightarrow> controller \<Rightarrow> rat option" where
  \<comment> \<open>how long \<open>boundedSleep\<close> waits; \<open>None\<close> when it returns \<open>false\<close> at once\<close>
  "sleep_duration t delay externalAborted c =
     (let duration = min (max 0 delay) (remainingMs t c)
      in if duration \<le> 0 \<or> dc_aborted c \<or> externalAborted then None else Some duration)"

definition observeSettlement :: "clock \<Rightarrow> controller \<Rightarrow> controller \<times> bool" where
  "observeSettlement t c =
     (let c = observeWrapUp t c;
          c = (if \<not> dc_aborted c \<and> remainingMs t c \<le> 0 then abortAtDeadline t c else c)
      in (c, dc_aborted c))"

definition dispose :: "controller \<Rightarrow> controller" where
  "dispose c = c\<lparr>dc_timer := None\<rparr>"

section \<open>Technical retry budgets\<close>

record retry_budget =
  b_initialBudgetMs :: int
  b_currentBudgetMs :: int
  b_previousEffectiveBudgetMs :: "int option"
  b_increaseAfterTimeout :: bool
  b_attemptsStarted :: nat

datatype budget_event =
    PrepareAttempt
  | AttemptFinished int
  | AttemptTimedOut int
  | RetryExhausted

datatype budget_transition =
    AttemptPrepared int "(int \<times> int) option"
  | StateUpdated
  | TerminalDecision cause

definition nextTechnicalRetryBudget :: "int \<Rightarrow> budget_error + int" where
  "nextTechnicalRetryBudget previous =
     rbind (positiveSafeInteger previous ''previous attempt timeout'') (\<lambda>_.
       positiveSafeInteger (previous * 2) ''retry attempt timeout'')"

definition createTechnicalRetryBudgetState ::
  "int \<Rightarrow> int option \<Rightarrow> int option \<Rightarrow> bool option \<Rightarrow> nat option \<Rightarrow> budget_error + retry_budget" where
  "createTechnicalRetryBudgetState initial current previousEffective increase started =
     rbind (positiveSafeInteger initial ''initial attempt timeout'') (\<lambda>initial.
       Inr \<lparr>b_initialBudgetMs = initial, b_currentBudgetMs = dflt current initial,
            b_previousEffectiveBudgetMs = previousEffective,
            b_increaseAfterTimeout = dflt increase False, b_attemptsStarted = dflt started 0\<rparr>)"

definition transitionTechnicalRetryBudget ::
  "retry_budget \<Rightarrow> budget_event \<Rightarrow> retry_budget \<times> (budget_error + budget_transition)" where
  "transitionTechnicalRetryBudget s ev =
     (let settle = (\<lambda>effective timedOut.
            case positiveSafeInteger effective ''effective attempt timeout'' of
              Inl e \<Rightarrow> (s, Inl e)
            | Inr v \<Rightarrow> (s\<lparr>b_previousEffectiveBudgetMs := Some v, b_increaseAfterTimeout := timedOut\<rparr>,
                        Inr StateUpdated))
      in case ev of
           AttemptFinished v \<Rightarrow> settle v False
         | AttemptTimedOut v \<Rightarrow> settle v True
         | RetryExhausted \<Rightarrow>
             if \<not> b_increaseAfterTimeout s then (s, Inl RetryExhaustedWithoutTimeout)
             else (s\<lparr>b_increaseAfterTimeout := False\<rparr>, Inr (TerminalDecision CAttemptTimeout))
         | PrepareAttempt \<Rightarrow>
             if b_attemptsStarted s = 0
             then (s\<lparr>b_attemptsStarted := 1\<rparr>, Inr (AttemptPrepared (b_currentBudgetMs s) None))
             else if b_increaseAfterTimeout s
             then let previous = dflt (b_previousEffectiveBudgetMs s) (b_currentBudgetMs s)
                  in (case nextTechnicalRetryBudget previous of
                        Inl e \<Rightarrow> (s, Inl e)
                      | Inr next \<Rightarrow>
                          (s\<lparr>b_currentBudgetMs := next, b_increaseAfterTimeout := False,
                             b_attemptsStarted := b_attemptsStarted s + 1\<rparr>,
                           Inr (AttemptPrepared next (Some (previous, next)))))
             else (s\<lparr>b_attemptsStarted := b_attemptsStarted s + 1\<rparr>,
                   Inr (AttemptPrepared (b_currentBudgetMs s) None)))"

fun budgetAfterTimeouts :: "int \<Rightarrow> nat \<Rightarrow> budget_error + int" where
  "budgetAfterTimeouts budget 0 = Inr budget"
| "budgetAfterTimeouts budget (Suc n) =
     rbind (nextTechnicalRetryBudget budget) (\<lambda>b. budgetAfterTimeouts b n)"

definition createSchedulerTechnicalRetryState ::
  "int \<Rightarrow> stage_status option \<Rightarrow> bool \<Rightarrow> budget_error + retry_budget" where
  "createSchedulerTechnicalRetryState initial priorStatus recover =
     (let retryRecovery = (recover \<and> (case priorStatus of
            Some st \<Rightarrow> isPendingStageStatus (s_status st) \<or> isRunningStageStatus (s_status st)
          | None \<Rightarrow> False));
          retries = (if retryRecovery then (case priorStatus of Some st \<Rightarrow> s_retries st | None \<Rightarrow> 0) else 0);
          priorAttempt = (if retries > 0 then at_last (attempts_if priorStatus) else None);
          persisted = map_option t_budgetMs (Option.bind priorAttempt a_timeout);
          usable = (case persisted of
            Some v \<Rightarrow> v = of_int \<lfloor>v\<rfloor> \<and> v > 0 \<and> \<lfloor>v\<rfloor> \<le> max_safe | None \<Rightarrow> False)
      in rbind (if usable then Inr \<lfloor>the persisted\<rfloor> else budgetAfterTimeouts initial (retries - 1)) (\<lambda>previous.
           createTechnicalRetryBudgetState initial
             (Some (if retries > 0 then previous else initial))
             (if retries > 0 then Some previous else None)
             (Some (Option.bind priorAttempt a_terminationCause = Some CAttemptTimeout))
             (Some retries)))"

definition prepareSchedulerTechnicalAttempt ::
  "retry_budget \<Rightarrow> retry_budget \<times> (budget_error + (int \<times> (int \<times> int) option))" where
  "prepareSchedulerTechnicalAttempt chain =
     (case transitionTechnicalRetryBudget chain PrepareAttempt of
        (s, Inl e) \<Rightarrow> (s, Inl e)
      | (s, Inr (AttemptPrepared b ctx)) \<Rightarrow> (s, Inr (b, ctx))
      | (s, Inr _) \<Rightarrow> (s, Inl NotPrepared))"

definition recordSchedulerTechnicalAttemptResult ::
  "retry_budget \<Rightarrow> int option \<Rightarrow> cause option \<Rightarrow> int \<Rightarrow> retry_budget \<times> (budget_error + budget_transition)" where
  "recordSchedulerTechnicalAttemptResult chain effective termination prepared =
     (let effectiveBudget = dflt effective prepared
      in transitionTechnicalRetryBudget chain
           (if termination = Some CAttemptTimeout then AttemptTimedOut effectiveBudget
            else AttemptFinished effectiveBudget))"

datatype provider_kind = PTransient | PAuthentication | POther
datatype retry_decision = REngineVoid | RRetry | RStop

definition decideStageRetry ::
  "int \<Rightarrow> cause option \<Rightarrow> bool \<Rightarrow> provider_kind option \<Rightarrow> nat \<Rightarrow> nat \<Rightarrow> nat \<Rightarrow> retry_decision" where
  "decideStageRetry exitCode termination engineVoid providerFailure retries technicalLimit failureLimit =
     (if engineVoid \<or> termination = Some CEngineVoid then REngineVoid
      else if exitCode = 0 \<or> termination \<in> {Some CStageAbort, Some CCancelled, Some CHostRestart} then RStop
      else if providerFailure = Some PAuthentication then RStop
      else let limit = (if providerFailure = Some PTransient \<or> termination = Some CAttemptTimeout
                        then technicalLimit else failureLimit)
           in if retries < limit then RRetry else RStop)"

section \<open>The reserve\<close>

lemma positiveSafeInteger_Inr [simp]:
  "positiveSafeInteger v l = Inr w \<longleftrightarrow> w = v \<and> 0 < v \<and> v \<le> max_safe"
  by (auto simp: positiveSafeInteger_def)

lemma tolerance_value: "ATTEMPT_CLOSE_OBSERVATION_TOLERANCE_MS = 5500"
  by (simp add: ATTEMPT_CLOSE_OBSERVATION_TOLERANCE_MS_def
      ATTEMPT_TERMINATION_GRACE_MS_def ATTEMPT_CLOSE_OBSERVATION_CUSHION_MS_def)

lemmas timing_defs = stageWrapUpTiming_def tolerance_value Let_def

text \<open>The wrap-up reserve is exact: between the warning and the hard limit there is always the
  finishing interval plus the child-retirement tolerance, no more and no less, the finishing
  interval is between one millisecond and five minutes, and the hard limit never cuts the
  configured budget.\<close>

lemma wrap_up_reserve_exact:
  assumes "stageWrapUpTiming budget = Inr t"
  shows "hardLimitMs t - warningAfterMs t = finishingMs t + ATTEMPT_CLOSE_OBSERVATION_TOLERANCE_MS
    \<and> 1 \<le> finishingMs t \<and> finishingMs t \<le> 300000 \<and> 0 \<le> warningAfterMs t \<and> budget \<le> hardLimitMs t"
proof -
  let ?f = "min 300000 (max 1 (budget div 10))"
  from assms have t: "t = \<lparr>warningAfterMs = max 0 (budget - ?f - 5500), finishingMs = ?f,
      hardLimitMs = max budget (5500 + ?f)\<rparr>" by (auto simp: timing_defs)
  have "1 \<le> ?f \<and> ?f \<le> 300000" by simp
  moreover have "max budget (5500 + f) - max 0 (budget - f - 5500) = f + 5500" for f :: int
    by (simp add: max_def)
  ultimately show ?thesis unfolding t tolerance_value by simp
qed

section \<open>The controller as a machine\<close>

text \<open>The state is the controller with the latest clock sample; the monotonic clock never goes back.\<close>

inductive deadline_step :: "controller \<times> clock \<Rightarrow> controller \<times> clock \<Rightarrow> bool" where
  fired: "monotonicNow t \<le> monotonicNow t' \<Longrightarrow> dc_timer c \<noteq> None \<Longrightarrow> deadline_step (c, t) (timer_fires t' c, t')"
| settled: "monotonicNow t \<le> monotonicNow t' \<Longrightarrow> deadline_step (c, t) (fst (observeSettlement t' c), t')"
| disposed: "monotonicNow t \<le> monotonicNow t' \<Longrightarrow> deadline_step (c, t) (dispose c, t')"

definition deadline_init :: "controller \<times> clock \<Rightarrow> bool" where
  "deadline_init = (\<lambda>(c, t). \<exists>budget wrapUp. new_controller budget wrapUp t = Inr c)"

definition hard_limit :: "controller \<Rightarrow> int" where
  "hard_limit c = (case dc_timing c of Some x \<Rightarrow> hardLimitMs x | None \<Rightarrow> dc_budgetMs c)"

definition deadline_ok :: "controller \<times> clock \<Rightarrow> bool" where
  "deadline_ok = (\<lambda>(c, t).
     dc_deadlineMono c = dc_startedMono c + of_int (hard_limit c)
     \<and> dc_startedMono c \<le> monotonicNow t
     \<and> (\<forall>x. dc_timing c = Some x \<longrightarrow> warningAfterMs x \<le> hardLimitMs x)
     \<and> (dc_aborted c \<longleftrightarrow> dc_deadlineReachedWall c \<noteq> None)
     \<and> (dc_aborted c \<longrightarrow> dc_deadlineMono c \<le> monotonicNow t \<and> (dc_timing c \<noteq> None \<longrightarrow> dc_wrapUpAborted c))
     \<and> (\<forall>d. dc_timer c = Some d \<longrightarrow> 1 \<le> d \<and> d \<le> MAX_TIMER_DELAY_MS))"

lemma observeWrapUp_frame [simp]:
  "dc_deadlineMono (observeWrapUp t c) = dc_deadlineMono c"
  "dc_startedMono (observeWrapUp t c) = dc_startedMono c"
  "dc_aborted (observeWrapUp t c) = dc_aborted c"
  "dc_timing (observeWrapUp t c) = dc_timing c"
  "dc_timer (observeWrapUp t c) = dc_timer c"
  "dc_budgetMs (observeWrapUp t c) = dc_budgetMs c"
  "dc_deadlineReachedWall (observeWrapUp t c) = dc_deadlineReachedWall c"
  by (auto simp: observeWrapUp_def split: option.splits)

lemma remainingMs_observe [simp]: "remainingMs t (observeWrapUp t' c) = remainingMs t c"
  by (simp add: remainingMs_def)

lemma hard_limit_frame [simp]:
  "hard_limit (observeWrapUp t c) = hard_limit c"
  "hard_limit (c\<lparr>dc_timer := tm\<rparr>) = hard_limit c"
  "hard_limit (c\<lparr>dc_deadlineReachedWall := w, dc_aborted := a\<rparr>) = hard_limit c"
  by (simp_all add: hard_limit_def split: option.split)

lemma observeWrapUp_keeps: "dc_wrapUpAborted c \<Longrightarrow> dc_wrapUpAborted (observeWrapUp t c)"
  by (auto simp: observeWrapUp_def split: option.splits)

lemma deadline_ok_observe:
  "deadline_ok (c, t) \<Longrightarrow> monotonicNow t \<le> monotonicNow t' \<Longrightarrow> deadline_ok (observeWrapUp t' c, t')"
  using observeWrapUp_keeps by (fastforce simp: deadline_ok_def)

lemma wrap_up_before_deadline:
  assumes "deadline_ok (c, t)" and "dc_deadlineMono c \<le> monotonicNow t'"
  shows "dc_timing c \<noteq> None \<Longrightarrow> dc_wrapUpAborted (observeWrapUp t' c)"
proof -
  assume "dc_timing c \<noteq> None"
  then obtain x where x: "dc_timing c = Some x" by blast
  with assms have "dc_startedMono c + of_int (hardLimitMs x) \<le> monotonicNow t'" "warningAfterMs x \<le> hardLimitMs x"
    by (auto simp: deadline_ok_def hard_limit_def)
  then have "of_int (warningAfterMs x) \<le> monotonicNow t' - dc_startedMono c"
    by (metis add.commute le_diff_eq of_int_le_iff order_trans add_left_mono)
  with x show ?thesis by (simp add: observeWrapUp_def)
qed

lemma timer_delay_bounds: "1 \<le> timer_delay t c \<and> timer_delay t c \<le> MAX_TIMER_DELAY_MS"
  by (simp add: timer_delay_def Let_def MAX_TIMER_DELAY_MS_def)

lemma deadline_ok_abort:
  assumes "deadline_ok (c, t)" and "dc_deadlineMono c \<le> monotonicNow t"
    and "dc_timing c \<noteq> None \<Longrightarrow> dc_wrapUpAborted c"
  shows "deadline_ok (abortAtDeadline t c, t)"
  using assms by (auto simp: deadline_ok_def abortAtDeadline_def)

lemma deadline_ok_timer:
  "deadline_ok (c, t) \<Longrightarrow> (\<And>d. tm = Some d \<Longrightarrow> 1 \<le> d \<and> d \<le> MAX_TIMER_DELAY_MS) \<Longrightarrow>
    deadline_ok (c\<lparr>dc_timer := tm\<rparr>, t)"
  by (auto simp: deadline_ok_def)

lemma deadline_ok_expire:
  assumes "deadline_ok (c, t)" and "monotonicNow t \<le> monotonicNow t'" and "remainingMs t' c \<le> 0"
  shows "deadline_ok (abortAtDeadline t' (observeWrapUp t' c), t')"
proof (rule deadline_ok_abort [OF deadline_ok_observe [OF assms(1,2)]])
  show "dc_deadlineMono (observeWrapUp t' c) \<le> monotonicNow t'"
    using assms(3) by (simp add: remainingMs_def)
  then show "dc_timing (observeWrapUp t' c) \<noteq> None \<Longrightarrow> dc_wrapUpAborted (observeWrapUp t' c)"
    using wrap_up_before_deadline [OF assms(1)] by simp
qed

lemma deadline_ok_schedule:
  assumes "deadline_ok (c, t)" and "monotonicNow t \<le> monotonicNow t'"
  shows "deadline_ok (scheduleDeadlineCheck t' c, t')"
proof (cases "remainingMs t' c \<le> 0")
  case True
  with deadline_ok_expire [OF assms] show ?thesis by (simp add: scheduleDeadlineCheck_def Let_def)
next
  case False
  have "deadline_ok (observeWrapUp t' c\<lparr>dc_timer := Some (timer_delay t' (observeWrapUp t' c))\<rparr>, t')"
    by (rule deadline_ok_timer [OF deadline_ok_observe [OF assms]]) (use timer_delay_bounds in auto)
  with False show ?thesis by (simp add: scheduleDeadlineCheck_def Let_def)
qed

lemma deadline_ok_fires:
  assumes "deadline_ok (c, t)" and "monotonicNow t \<le> monotonicNow t'"
  shows "deadline_ok (timer_fires t' c, t')"
proof -
  have c: "deadline_ok (c\<lparr>dc_timer := None\<rparr>, t)" using assms(1) by (rule deadline_ok_timer) simp
  have "remainingMs t' (c\<lparr>dc_timer := None\<rparr>) = remainingMs t' c" by (simp add: remainingMs_def)
  with deadline_ok_expire [OF c assms(2)] deadline_ok_schedule [OF deadline_ok_observe [OF c assms(2)] order_refl]
  show ?thesis by (auto simp: timer_fires_def Let_def)
qed

lemma deadline_ok_new:
  assumes "new_controller budget w t = Inr c"
  shows "deadline_ok (c, t)"
proof -
  from assms obtain timing where timing: "(if w then rbind (stageWrapUpTiming budget) (\<lambda>x. Inr (Some x)) else Inr None) = Inr timing"
    and c: "c = scheduleDeadlineCheck t
            \<lparr>dc_budgetMs = budget, dc_timing = timing, dc_startedMono = monotonicNow t,
             dc_deadlineMono = monotonicNow t + of_int (case timing of Some x \<Rightarrow> hardLimitMs x | None \<Rightarrow> budget),
             dc_startedWall = wallNow t,
             dc_deadlineAt = wallNow t + (case timing of Some x \<Rightarrow> hardLimitMs x | None \<Rightarrow> budget),
             dc_budgetDeadlineAt = wallNow t + budget,
             dc_wrapUpAt = map_option (\<lambda>x. wallNow t + warningAfterMs x) timing,
             dc_aborted = False, dc_wrapUpAborted = False, dc_deadlineReachedWall = None,
             dc_timer = None\<rparr>"
    by (auto simp: new_controller_def Let_def)
  from timing have "\<forall>x. timing = Some x \<longrightarrow> warningAfterMs x \<le> hardLimitMs x"
    by (auto simp: timing_defs max_def min_def split: if_splits)
  then show ?thesis unfolding c
    by (intro deadline_ok_schedule [OF _ order_refl]) (simp add: deadline_ok_def hard_limit_def split: option.split)
qed

interpretation deadline: machine deadline_init deadline_step deadline_ok
proof unfold_locales
  show "deadline_ok s" if "deadline_init s" for s
    using that by (auto simp: deadline_init_def intro: deadline_ok_new)
  show "deadline_ok s'" if ok: "deadline_ok s" and step: "deadline_step s s'" for s s'
    using step ok
  proof cases
    case (settled t t' c)
    have "deadline_ok (fst (observeSettlement t' c), t')"
      using ok settled deadline_ok_observe deadline_ok_expire by (auto simp: observeSettlement_def Let_def)
    with settled show ?thesis by simp
  next
    case (disposed t t' c)
    then have "deadline_ok (c, t')" using ok by (force simp: deadline_ok_def)
    then have "deadline_ok (c\<lparr>dc_timer := None\<rparr>, t')" by (rule deadline_ok_timer) simp
    with disposed show ?thesis by (simp add: dispose_def)
  qed (use ok deadline_ok_fires in auto)
qed

text \<open>C17. A deadline is immutable and never early: in every run of the controller, however often
  timers fire or settlements are observed, the attempt is marked timed out only once the
  monotonic clock has reached start plus hard limit, the wrap-up warning has then been
  delivered, and every timer that is set can be represented by the platform.\<close>

theorem deadline_never_early:
  assumes "reachable deadline_init deadline_step (c, t)"
  shows "dc_deadlineMono c = dc_startedMono c + of_int (hard_limit c)
    \<and> (dc_aborted c \<longrightarrow> dc_deadlineMono c \<le> monotonicNow t \<and> (dc_timing c \<noteq> None \<longrightarrow> dc_wrapUpAborted c))
    \<and> (\<forall>d. dc_timer c = Some d \<longrightarrow> 1 \<le> d \<and> d \<le> 2147483647)"
  using deadline.reachable_inv [OF assms] by (auto simp: deadline_ok_def MAX_TIMER_DELAY_MS_def)

theorem deadline_never_early_witness:
  "\<exists>c. new_controller 1000 False \<lparr>monotonicNow = 5, wallNow = 100\<rparr> = Inr c \<and> dc_deadlineMono c = dc_startedMono c + of_int (hard_limit c)"
proof -
  obtain c where c: "new_controller 1000 False \<lparr>monotonicNow = 5, wallNow = 100\<rparr> = Inr c"
    by (simp add: new_controller_def max_safe_def Let_def)
  then have "reachable deadline_init deadline_step (c, \<lparr>monotonicNow = 5, wallNow = 100\<rparr>)"
    by (intro reach_init) (auto simp: deadline_init_def)
  from deadline_never_early [OF this] c show ?thesis by blast
qed

text \<open>A deadline is never missed: observing a settlement reports a timeout exactly when one was
  already recorded or the monotonic clock has reached the deadline, even if every timer
  callback was starved; and an armed timer is due less than one millisecond after the deadline.\<close>

lemma deadline_never_missed:
  shows "snd (observeSettlement t c) = (dc_aborted c \<or> dc_deadlineMono c \<le> monotonicNow t)
    \<and> (0 < remainingMs t c \<longrightarrow> dc_timer (scheduleDeadlineCheck t c) \<noteq> None
         \<and> of_int (the (dc_timer (scheduleDeadlineCheck t c))) < remainingMs t c + 1)"
proof -
  have "of_int (timer_delay t c') < remainingMs t c' + 1" if "0 < remainingMs t c'" for c'
  proof -
    have "timer_delay t c' \<le> max 1 \<lceil>remainingMs t c'\<rceil>"
      by (auto simp: timer_delay_def Let_def)
    moreover have "1 \<le> \<lceil>remainingMs t c'\<rceil>" using that by (simp add: one_le_ceiling)
    ultimately have "timer_delay t c' \<le> \<lceil>remainingMs t c'\<rceil>" by simp
    then have "(of_int (timer_delay t c') :: rat) \<le> of_int \<lceil>remainingMs t c'\<rceil>" by simp
    also have "\<dots> < remainingMs t c' + 1" by linarith
    finally show ?thesis .
  qed
  from this [of "observeWrapUp t c"] show ?thesis
    by (auto simp: observeSettlement_def Let_def abortAtDeadline_def scheduleDeadlineCheck_def remainingMs_def)
qed

section \<open>Retry budgets across timeouts and restarts\<close>

text \<open>One timed-out attempt of the chain: prepare, then record the timeout at its own budget.\<close>

fun timed_out_attempts :: "nat \<Rightarrow> retry_budget \<Rightarrow> budget_error + retry_budget" where
  "timed_out_attempts 0 s = Inr s"
| "timed_out_attempts (Suc n) s =
     (case prepareSchedulerTechnicalAttempt s of
        (s, Inl e) \<Rightarrow> Inl e
      | (s, Inr (budget, _)) \<Rightarrow>
          (case recordSchedulerTechnicalAttemptResult s None (Some CAttemptTimeout) budget of
             (s, Inl e) \<Rightarrow> Inl e
           | (s, Inr _) \<Rightarrow> timed_out_attempts n s))"

definition timed_out_state :: "int \<Rightarrow> int \<Rightarrow> nat \<Rightarrow> retry_budget" where
  "timed_out_state initial budget n = \<lparr>b_initialBudgetMs = initial, b_currentBudgetMs = budget,
     b_previousEffectiveBudgetMs = Some budget, b_increaseAfterTimeout = True, b_attemptsStarted = n\<rparr>"

lemma next_budget: "0 < b \<Longrightarrow> 2 * b \<le> max_safe \<Longrightarrow> nextTechnicalRetryBudget b = Inr (2 * b)"
  by (simp add: nextTechnicalRetryBudget_def positiveSafeInteger_def max_safe_def)

lemma prepare_timed_out:
  "0 < n \<Longrightarrow> snd (prepareSchedulerTechnicalAttempt (timed_out_state i b n))
    = (case nextTechnicalRetryBudget b of Inl e \<Rightarrow> Inl e | Inr c \<Rightarrow> Inr (c, Some (b, c)))"
  by (simp add: prepareSchedulerTechnicalAttempt_def transitionTechnicalRetryBudget_def
      timed_out_state_def Let_def split: sum.splits)

lemma timed_out_step:
  assumes "0 < n" "0 < b" "2 * b \<le> max_safe"
  shows "timed_out_attempts (Suc m) (timed_out_state i b n) = timed_out_attempts m (timed_out_state i (2 * b) (Suc n))"
  using assms next_budget [OF assms(2,3)]
  by (simp add: prepareSchedulerTechnicalAttempt_def transitionTechnicalRetryBudget_def
      recordSchedulerTechnicalAttemptResult_def timed_out_state_def Let_def positiveSafeInteger_def)

lemma timed_out_many:
  "0 < n \<Longrightarrow> 0 < b \<Longrightarrow> b * 2 ^ m \<le> max_safe \<Longrightarrow>
    timed_out_attempts m (timed_out_state i b n) = Inr (timed_out_state i (b * 2 ^ m) (n + m))"
proof (induction m arbitrary: n b)
  case (Suc m)
  have "2 * b \<le> 2 * b * 2 ^ m" using Suc.prems(2) by simp
  moreover have "2 * b * 2 ^ m = b * 2 ^ Suc m" by simp
  ultimately have "2 * b \<le> max_safe" using Suc.prems(3) by linarith
  with Suc show ?case by (simp only: timed_out_step) (simp add: mult.assoc mult.left_commute)
qed simp

lemma first_timed_out:
  assumes "createTechnicalRetryBudgetState b None None None None = Inr s"
  shows "timed_out_attempts (Suc m) s = timed_out_attempts m (timed_out_state b b 1)"
proof -
  from assms have b: "0 < b" "b \<le> max_safe" and s: "s = \<lparr>b_initialBudgetMs = b, b_currentBudgetMs = b,
      b_previousEffectiveBudgetMs = None, b_increaseAfterTimeout = False, b_attemptsStarted = 0\<rparr>"
    by (auto simp: createTechnicalRetryBudgetState_def)
  then show ?thesis
    by (simp add: prepareSchedulerTechnicalAttempt_def transitionTechnicalRetryBudget_def
        recordSchedulerTechnicalAttemptResult_def timed_out_state_def Let_def positiveSafeInteger_def)
qed

text \<open>Every timeout doubles the budget and nothing else moves it: after \<open>n + 1\<close> attempts that all
  timed out, the next attempt is prepared with the initial budget times \<open>2 ^ (n + 1)\<close> and names
  the budget it grew from, as long as that is a safe integer; beyond it preparing raises
  instead of running with a wrong budget.\<close>

lemma timeouts_double_the_budget:
  assumes create: "createTechnicalRetryBudgetState b None None None None = Inr s"
    and small: "b * 2 ^ n \<le> max_safe"
  shows "\<exists>s'. timed_out_attempts (Suc n) s = Inr s' \<and>
    snd (prepareSchedulerTechnicalAttempt s') =
      (if b * 2 ^ Suc n \<le> max_safe then Inr (b * 2 ^ Suc n, Some (b * 2 ^ n, b * 2 ^ Suc n))
       else Inl (NotPositiveSafeInteger ''retry attempt timeout''))"
proof -
  from create have b: "0 < b" by (auto simp: createTechnicalRetryBudgetState_def)
  then have pos: "0 < b * 2 ^ n" by simp
  have "timed_out_attempts (Suc n) s = Inr (timed_out_state b (b * 2 ^ n) (1 + n))"
    using first_timed_out [OF create] timed_out_many [of 1 b n b] b small by simp
  moreover have "nextTechnicalRetryBudget (b * 2 ^ n) = (if b * 2 ^ Suc n \<le> max_safe
      then Inr (b * 2 ^ Suc n) else Inl (NotPositiveSafeInteger ''retry attempt timeout''))"
    using pos small by (auto simp: nextTechnicalRetryBudget_def positiveSafeInteger_def mult.assoc)
  ultimately show ?thesis by (simp add: prepare_timed_out)
qed

text \<open>A host restart does not change the retry budget.  When a stage is recovered from its
  ledger, whose last attempt timed out with its budget persisted, the recovered chain prepares
  exactly the attempt the interrupted process would have prepared after the same timeouts.\<close>

lemma recovered_budget_agrees:
  assumes create: "createTechnicalRetryBudgetState b None None None None = Inr s"
    and small: "b * 2 ^ n \<le> max_safe"
    and live: "timed_out_attempts (Suc n) s = Inr s'"
    and retries: "s_retries st = Suc n" and status: "s_status st = SPending \<or> s_status st = SRunning"
    and last: "at_last (attempts_of st) = Some a" "a_terminationCause a = Some CAttemptTimeout"
    and persisted: "a_timeout a = Some t" "t_budgetMs t = of_int (b * 2 ^ n)"
  shows "\<exists>r. createSchedulerTechnicalRetryState b (Some st) True = Inr r
    \<and> snd (prepareSchedulerTechnicalAttempt r) = snd (prepareSchedulerTechnicalAttempt s')"
proof -
  from create have b: "0 < b" "b \<le> max_safe" by (auto simp: createTechnicalRetryBudgetState_def)
  have s': "s' = timed_out_state b (b * 2 ^ n) (Suc n)"
    using live first_timed_out [OF create] timed_out_many [of 1 b n b] b small by simp
  have recovering: "isPendingStageStatus (s_status st) \<or> isRunningStageStatus (s_status st)"
    using status by (auto simp: status_simps)
  define v where "v = b * 2 ^ n"
  have "0 < v" "v \<le> max_safe" "t_budgetMs t = of_int v"
    using b small persisted(2) by (simp_all add: v_def)
  then have "createSchedulerTechnicalRetryState b (Some st) True = Inr (timed_out_state b v (Suc n))"
    using recovering retries last persisted(1) b
    by (simp add: createSchedulerTechnicalRetryState_def createTechnicalRetryBudgetState_def
        timed_out_state_def attempts_if_def Let_def)
  with s' show ?thesis by (simp add: v_def)
qed

definition demo_timed_out :: stage_status where
  "demo_timed_out = (bare_status SPending 2)\<lparr>s_attempts := Some [new_attempt 1 0 None,
     (new_attempt 2 5 None)\<lparr>a_status := AFailed, a_terminationCause := Some CAttemptTimeout,
       a_timeout := Some \<lparr>t_budgetMs = 2000, t_legacyCause = None, t_facts = JNull\<rparr>\<rparr>]\<rparr>"

end
