(* ===== verification/Condition.thy ===== *)
theory Condition
  imports Js_Base Lifecycle
begin

text \<open>
  Stage conditions (\<open>src/src/condition.ts\<close>): the expression parser with its quoting rules
  and JavaScript's number conversion, the typed comparison, and the facts a condition reads.

  A number is an exact rational (JSON literals and condition literals are compared as
  doubles in the source; the two agree wherever the literals have at most 15 significant
  digits), together with the infinities and \<open>NaN\<close> that \<open>Number\<close> produces.
  The files of a run are the record \<open>run_facts\<close>; an unreadable or malformed file is \<open>Inl\<close>.
\<close>

section \<open>Number conversion\<close>

datatype js_num = NaN | Infinite bool | Finite rat

definition is_digit :: "char \<Rightarrow> bool" where
  "is_digit c = (c \<in> set ''0123456789'')"

definition digit_value :: "char \<Rightarrow> nat" where
  "digit_value c =
     (if is_digit c then of_char c - of_char (CHR ''0'')
      else if c \<in> set ''abcdef'' then of_char c - of_char (CHR ''a'') + 10
      else if c \<in> set ''ABCDEF'' then of_char c - of_char (CHR ''A'') + 10
      else 99)"

definition digits_value :: "nat \<Rightarrow> string \<Rightarrow> nat" where
  "digits_value base ds = foldl (\<lambda>n c. n * base + digit_value c) 0 ds"

definition pow10 :: "int \<Rightarrow> rat" where
  "pow10 e = (if e \<ge> 0 then 10 ^ nat e else 1 / 10 ^ nat (- e))"

definition exponent_part :: "string \<Rightarrow> int option" where
  \<comment> \<open>an exponent part, or nothing; \<open>None\<close> for anything else\<close>
  "exponent_part s =
     (case s of
        [] \<Rightarrow> Some 0
      | c # cs \<Rightarrow>
          if c \<noteq> CHR ''e'' \<and> c \<noteq> CHR ''E'' then None
          else let ds = (case cs of x # xs \<Rightarrow> if x \<in> set ''+-'' then xs else cs | [] \<Rightarrow> []);
                   neg = (case cs of x # xs \<Rightarrow> x = CHR ''-'' | [] \<Rightarrow> False)
               in if ds = [] \<or> \<not> list_all is_digit ds then None
                  else Some (if neg then - int (digits_value 10 ds) else int (digits_value 10 ds)))"

definition unsigned_decimal :: "string \<Rightarrow> js_num" where
  "unsigned_decimal s =
     (if s = ''Infinity'' then Infinite True
      else
        let whole = takeWhile is_digit s; r = dropWhile is_digit s;
            (frac, r) = (case r of
               c # cs \<Rightarrow> if c = CHR ''.'' then (takeWhile is_digit cs, dropWhile is_digit cs) else ([], r)
             | [] \<Rightarrow> ([], []))
        in if whole @ frac = [] then NaN
           else case exponent_part r of
             None \<Rightarrow> NaN
           | Some e \<Rightarrow> Finite (of_nat (digits_value 10 (whole @ frac)) * pow10 (e - int (length frac))))"

fun js_negate :: "js_num \<Rightarrow> js_num" where
  "js_negate NaN = NaN"
| "js_negate (Infinite b) = Infinite (\<not> b)"
| "js_negate (Finite q) = Finite (- q)"

definition radix_of :: "string \<Rightarrow> nat option" where
  "radix_of s =
     (if take 1 s \<noteq> ''0'' then None
      else case drop 1 s of
        [] \<Rightarrow> None
      | c # _ \<Rightarrow> if c \<in> set ''xX'' then Some 16 else if c \<in> set ''oO'' then Some 8
                else if c \<in> set ''bB'' then Some 2 else None)"

definition js_number :: "string \<Rightarrow> js_num" where
  \<comment> \<open>\<open>Number(s)\<close> of a string\<close>
  "js_number raw =
     (let s = trim raw
      in if s = [] then Finite 0
         else case radix_of s of
           Some base \<Rightarrow>
             if drop 2 s = [] \<or> \<not> list_all (\<lambda>c. digit_value c < base) (drop 2 s) then NaN
             else Finite (of_nat (digits_value base (drop 2 s)))
         | None \<Rightarrow>
             if take 1 s = ''-'' then js_negate (unsigned_decimal (drop 1 s))
             else if take 1 s = ''+'' then unsigned_decimal (drop 1 s)
             else unsigned_decimal s)"

section \<open>Parsing\<close>

datatype cond_op = OpGe | OpLe | OpNe | OpEq | OpGt | OpLt

fun op_text :: "cond_op \<Rightarrow> string" where
  "op_text OpGe = ''>=''"
| "op_text OpLe = ''<=''"
| "op_text OpNe = ''!=''"
| "op_text OpEq = ''==''"
| "op_text OpGt = ''>''"
| "op_text OpLt = ''<''"

definition OPS :: "cond_op list" where
  "OPS = [OpGe, OpLe, OpNe, OpEq, OpGt, OpLt]"

datatype cond_value = VStr string | VNum js_num | VBool bool

record parsed_condition =
  c_stageId :: string
  c_field :: string
  c_op :: cond_op
  c_value :: cond_value

datatype condition_error = InvalidLeftSide string | NoOperator string | UnreadableFact

abbreviation (input) squote :: char where "squote \<equiv> CHR 0x27"
abbreviation (input) dquote :: char where "dquote \<equiv> CHR 0x22"

definition is_quote :: "char \<Rightarrow> bool" where
  "is_quote c = (c = squote \<or> c = dquote)"

fun find_op :: "string \<Rightarrow> bool \<Rightarrow> bool \<Rightarrow> string \<Rightarrow> string \<Rightarrow> (string \<times> string) option" where
  \<comment> \<open>the text before and after the first occurrence of the operator outside quotes\<close>
  "find_op opr inSingle inDouble before [] = None"
| "find_op opr inSingle inDouble before (c # cs) =
     (if length (c # cs) < length opr then None
      else if c = squote \<and> \<not> inDouble then find_op opr (\<not> inSingle) inDouble (before @ [c]) cs
      else if c = dquote \<and> \<not> inSingle then find_op opr inSingle (\<not> inDouble) (before @ [c]) cs
      else if inSingle \<or> inDouble then find_op opr inSingle inDouble (before @ [c]) cs
      else if starts_with opr (c # cs) then Some (before, drop (length opr) (c # cs))
      else find_op opr inSingle inDouble (before @ [c]) cs)"

definition unquote :: "string \<Rightarrow> string" where
  \<comment> \<open>one leading and one trailing quote, of either kind\<close>
  "unquote s =
     (let s = (case s of c # cs \<Rightarrow> if is_quote c then cs else s | [] \<Rightarrow> [])
      in if s \<noteq> [] \<and> is_quote (last s) then butlast s else s)"

definition condition_literal :: "string \<Rightarrow> cond_value" where
  "condition_literal right =
     (let unquoted = unquote right
      in if right \<noteq> [] \<and> is_quote (hd right) then VStr unquoted
         else if unquoted = ''true'' then VBool True
         else if unquoted = ''false'' then VBool False
         else case js_number unquoted of
           NaN \<Rightarrow> if unquoted = ''NaN'' then VNum NaN else VStr unquoted
         | n \<Rightarrow> VNum n)"

definition condition_at :: "cond_op \<Rightarrow> string \<times> string \<Rightarrow> condition_error + parsed_condition" where
  "condition_at opr sides =
     (let left = trim (fst sides); right = trim (snd sides)
      in case index_of (CHR ''.'') left of
           None \<Rightarrow> Inl (InvalidLeftSide left)
         | Some dot \<Rightarrow> Inr \<lparr>c_stageId = take dot left, c_field = drop (Suc dot) left,
                            c_op = opr, c_value = condition_literal right\<rparr>)"

fun parse_with :: "cond_op list \<Rightarrow> string \<Rightarrow> condition_error + parsed_condition" where
  "parse_with [] expr = Inl (NoOperator expr)"
| "parse_with (opr # ops) expr =
     (case find_op (op_text opr) False False [] expr of
        Some sides \<Rightarrow> condition_at opr sides
      | None \<Rightarrow> parse_with ops expr)"

definition parseCondition :: "string \<Rightarrow> condition_error + parsed_condition" where
  "parseCondition expr = parse_with OPS expr"

section \<open>Comparison\<close>

fun js_less :: "js_num \<Rightarrow> js_num \<Rightarrow> bool" where
  \<comment> \<open>of finite numbers; the source leaves the comparison before any other\<close>
  "js_less (Finite a) (Finite b) = (a < b)"
| "js_less _ _ = False"

fun is_finite :: "js_num \<Rightarrow> bool" where
  "is_finite (Finite _) = True"
| "is_finite _ = False"

definition ordered_compare :: "cond_op \<Rightarrow> js_num \<Rightarrow> js_num \<Rightarrow> bool" where
  "ordered_compare opr a b =
     (if \<not> is_finite a \<or> \<not> is_finite b then False
      else case opr of
        OpGt \<Rightarrow> js_less b a
      | OpLt \<Rightarrow> js_less a b
      | OpGe \<Rightarrow> \<not> js_less a b
      | OpLe \<Rightarrow> \<not> js_less b a
      | _ \<Rightarrow> False)"

definition typed_compare :: "cond_op \<Rightarrow> bool \<Rightarrow> js_num \<Rightarrow> js_num \<Rightarrow> bool" where
  \<comment> \<open>the switch once both operands have one type: their identity and their numbers\<close>
  "typed_compare opr same a b =
     (case opr of OpEq \<Rightarrow> same | OpNe \<Rightarrow> \<not> same | _ \<Rightarrow> ordered_compare opr a b)"

definition bool_number :: "bool \<Rightarrow> js_num" where
  "bool_number b = Finite (if b then 1 else 0)"

fun compare_fact :: "json \<Rightarrow> cond_op \<Rightarrow> cond_value \<Rightarrow> bool" where
  "compare_fact (JStr a) opr (VStr b) = typed_compare opr (a = b) (js_number a) (js_number b)"
| "compare_fact (JNum a) opr (VNum b) = typed_compare opr (Finite a = b) (Finite a) b"
| "compare_fact (JBool a) opr (VBool b) = typed_compare opr (a = b) (bool_number a) (bool_number b)"
| "compare_fact _ _ _ = False"

section \<open>Facts\<close>

record run_facts =
  f_research :: "(unit + json) option"
  \<comment> \<open>\<open>research_decision.json\<close>, if it exists\<close>
  f_status :: "string \<Rightarrow> unit + (string \<times> json) list"
  \<comment> \<open>the object \<open>readStageStatus\<close> returns for a stage\<close>
  f_verdict :: "string \<Rightarrow> unit + json"
  \<comment> \<open>\<open>verdict_<stageId>.json\<close>; a missing file is unreadable\<close>

definition own_field :: "json \<Rightarrow> string \<Rightarrow> json" where
  \<comment> \<open>an own property of a JSON object, \<open>undefined\<close> of anything else\<close>
  "own_field v k = (case v of JObj m \<Rightarrow> dflt (map_of m k) JUndef | _ \<Rightarrow> JUndef)"

definition readConditionFact :: "run_facts \<Rightarrow> string \<Rightarrow> string \<Rightarrow> condition_error + json" where
  "readConditionFact facts stageId k =
     (if stageId = ''research'' then
        (case f_research facts of
           None \<Rightarrow> Inr JUndef
         | Some (Inl _) \<Rightarrow> Inl UnreadableFact
         | Some (Inr v) \<Rightarrow> Inr (own_field v k))
      else
        case f_status facts stageId of
          Inl _ \<Rightarrow> Inl UnreadableFact
        | Inr status \<Rightarrow>
            (case map_of status k of
               Some v \<Rightarrow> Inr v
             | None \<Rightarrow>
                 (case f_verdict facts stageId of
                    Inl _ \<Rightarrow> Inl UnreadableFact
                  | Inr v \<Rightarrow> Inr (own_field v k))))"

definition evaluateCondition :: "run_facts \<Rightarrow> string \<Rightarrow> bool" where
  "evaluateCondition facts expr =
     (case parseCondition expr of
        Inl _ \<Rightarrow> False
      | Inr p \<Rightarrow>
          (case readConditionFact facts (c_stageId p) (c_field p) of
             Inl _ \<Rightarrow> False
           | Inr actual \<Rightarrow> compare_fact actual (c_op p) (c_value p)))"

section \<open>Printed conditions parse back\<close>

definition plain_char :: "char \<Rightarrow> bool" where
  "plain_char c = (\<not> is_quote c \<and> \<not> is_space c \<and> c \<notin> set ''<>=!'')"

definition print_condition :: "string \<Rightarrow> string \<Rightarrow> cond_op \<Rightarrow> string \<Rightarrow> string" where
  "print_condition sid fld opr v = sid @ ''.'' @ fld @ '' '' @ op_text opr @ '' '' @ [squote] @ v @ [squote]"

lemma find_op_skip_plain:
  "list_all (\<lambda>c. \<not> is_quote c \<and> c \<notin> set ''<>=!'') xs \<Longrightarrow> opr \<noteq> [] \<Longrightarrow> hd opr \<in> set ''<>=!'' \<Longrightarrow> length opr \<le> length ys \<Longrightarrow>
    find_op opr False False b (xs @ ys) = find_op opr False False (b @ xs) ys"
proof (induction xs arbitrary: b)
  case (Cons x xs)
  have "\<not> starts_with opr (x # zs)" for zs using Cons.prems by (cases opr) (auto simp: starts_with_def)
  with Cons show ?case by (simp add: is_quote_def)
qed simp

lemma find_op_quoted:
  "squote \<notin> set v \<Longrightarrow> opr \<noteq> [] \<Longrightarrow> find_op opr True False b (v @ [squote]) = None"
proof (induction v arbitrary: b)
  case Nil
  then show ?case by (cases opr) auto
next
  case (Cons x v)
  then show ?case by (cases opr) auto
qed

lemma index_of_append: "c \<notin> set xs \<Longrightarrow> index_of c (xs @ c # ys) = Some (length xs)"
  by (induction xs) auto

lemma trim_plain: "xs \<noteq> [] \<Longrightarrow> \<not> is_space (hd xs) \<Longrightarrow> \<not> is_space (last xs) \<Longrightarrow> trim xs = xs"
proof -
  assume a: "xs \<noteq> []" "\<not> is_space (hd xs)" "\<not> is_space (last xs)"
  have keep: "dropWhile is_space ys = ys" if "ys \<noteq> []" "\<not> is_space (hd ys)" for ys
    using that by (cases ys) auto
  have "dropWhile is_space (rev xs) = rev xs" using a by (intro keep) (auto simp: hd_rev)
  then show ?thesis using keep [OF a(1,2)] by (simp add: trim_def)
qed

lemma trim_space: "trim (CHR '' '' # xs) = trim xs" 
  by (simp add: trim_def is_space_def)

lemma trim_space_end: "xs \<noteq> [] \<Longrightarrow> \<not> is_space (hd xs) \<Longrightarrow> trim (xs @ [CHR '' '']) = trim xs"
  by (cases xs) (auto simp: trim_def is_space_def dropWhile_append)

lemma parse_with_hit:
  "\<forall>o' \<in> set xs. find_op (op_text o') False False [] e = None \<Longrightarrow> find_op (op_text opr) False False [] e = Some sides
    \<Longrightarrow> parse_with (xs @ opr # ys) e = condition_at opr sides"
  by (induction xs) auto

lemma condition_parses_back:
  assumes s: "list_all plain_char sid" "CHR ''.'' \<notin> set sid" "sid \<noteq> []"
    and f: "list_all plain_char fld" "fld \<noteq> []" and v: "squote \<notin> set v"
  shows "parseCondition (print_condition sid fld opr v)
    = Inr \<lparr>c_stageId = sid, c_field = fld, c_op = opr, c_value = VStr v\<rparr>"
proof -
  let ?left = "sid @ ''.'' @ fld @ '' ''" and ?right = "'' '' @ [squote] @ v @ [squote]"
  have e: "print_condition sid fld opr v = ?left @ op_text opr @ ?right"
    by (simp add: print_condition_def)
  have plain: "list_all (\<lambda>c. \<not> is_quote c \<and> c \<notin> set ''<>=!'') ?left"
    using s f by (auto simp: list_all_iff plain_char_def is_quote_def)
  have skip: "find_op (op_text o') False False [] (?left @ op_text opr @ ?right)
    = find_op (op_text o') False False ?left (op_text opr @ ?right)" for o'
    using find_op_skip_plain [OF plain, of "op_text o'" "op_text opr @ ?right" "[]"] by (cases o') simp_all
  have hit: "find_op (op_text opr) False False ?left (op_text opr @ ?right) = Some (?left, ?right)"
    by (cases opr) (simp_all add: starts_with_def)
  have miss: "\<forall>o' \<in> set (takeWhile (\<lambda>x. x \<noteq> opr) OPS).
      find_op (op_text o') False False ?left (op_text opr @ ?right) = None"
    using find_op_quoted [OF v, of "''>=''"] find_op_quoted [OF v, of "''<=''"]
      find_op_quoted [OF v, of "''!=''"] find_op_quoted [OF v, of "''==''"] find_op_quoted [OF v, of "''>''"]
    by (cases opr) (simp_all add: OPS_def starts_with_def)
  have at: "condition_at opr (?left, ?right) = Inr \<lparr>c_stageId = sid, c_field = fld, c_op = opr, c_value = VStr v\<rparr>"
  proof -
    have l: "trim ?left = sid @ CHR ''.'' # fld"
    proof -
      have h: "\<not> is_space (hd (sid @ CHR ''.'' # fld))" "\<not> is_space (last (sid @ CHR ''.'' # fld))"
        using s f by (auto simp: list_all_iff plain_char_def hd_append)
      have "trim ((sid @ CHR ''.'' # fld) @ [CHR '' '']) = trim (sid @ CHR ''.'' # fld)"
        by (rule trim_space_end) (use h in auto)
      also have "\<dots> = sid @ CHR ''.'' # fld" by (rule trim_plain) (use h in auto)
      finally show ?thesis by simp
    qed
    have r: "trim ?right = squote # v @ [squote]"
      by (simp add: trim_space) (rule trim_plain; simp add: is_space_def)
    have "condition_literal (squote # v @ [squote]) = VStr v"
      by (simp add: condition_literal_def unquote_def is_quote_def)
    then show ?thesis
      unfolding condition_at_def Let_def fst_conv snd_conv l r index_of_append [OF s(2)] by simp
  qed
  have "OPS = takeWhile (\<lambda>x. x \<noteq> opr) OPS @ opr # tl (dropWhile (\<lambda>x. x \<noteq> opr) OPS)"
    by (cases opr) (simp_all add: OPS_def)
  then have "parseCondition (print_condition sid fld opr v) = condition_at opr (?left, ?right)"
    unfolding parseCondition_def e using parse_with_hit [OF _ hit [folded skip]] miss [folded skip] by metis
  then show ?thesis using at by simp
qed


text \<open>Round trip: a condition printed from a stage id without a dot, a field, any of the six
  operators and any single-quoted value parses back to exactly those four parts, whatever the
  value contains - operators, dots, spaces or double quotes included.\<close>

lemma condition_roundtrip:
  assumes "list_all plain_char sid" "CHR ''.'' \<notin> set sid" "sid \<noteq> []"
    and "list_all plain_char fld" "fld \<noteq> []" and "squote \<notin> set v"
  shows "parseCondition (print_condition sid fld opr v)
    = Inr \<lparr>c_stageId = sid, c_field = fld, c_op = opr, c_value = VStr v\<rparr>"
  by (rule condition_parses_back [OF assms])

section \<open>What a condition reads\<close>

definition same_evidence :: "run_facts \<Rightarrow> run_facts \<Rightarrow> string \<Rightarrow> bool" where
  "same_evidence a b sid =
     (if sid = ''research'' then f_research a = f_research b
      else f_status a sid = f_status b sid \<and> f_verdict a sid = f_verdict b sid)"

definition names_stage :: "string \<Rightarrow> string \<Rightarrow> bool" where
  "names_stage expr sid = (\<forall>p. parseCondition expr = Inr p \<longrightarrow> c_stageId p = sid)"

text \<open>A condition reads the evidence of the stage it names and nothing else: two runs in which
  that stage has the same status object and the same own verdict (for the reserved
  \<open>research\<close> stage: the same policy decision) evaluate it alike, whatever sibling stages report.
  A run with neither a status field nor a readable verdict satisfies no condition.\<close>

lemma condition_reads_own_evidence:
  assumes "names_stage expr sid"
  shows "(same_evidence a b sid \<longrightarrow> evaluateCondition a expr = evaluateCondition b expr)
    \<and> (sid \<noteq> ''research'' \<and> f_status a sid = Inr [] \<and> f_verdict a sid = Inl () \<longrightarrow> \<not> evaluateCondition a expr)"
proof (cases "parseCondition expr")
  case (Inr p)
  with assms have "c_stageId p = sid" by (simp add: names_stage_def)
  moreover have "same_evidence a b sid \<Longrightarrow> readConditionFact a sid (c_field p) = readConditionFact b sid (c_field p)"
    by (cases "f_status b sid") (auto simp: same_evidence_def readConditionFact_def split: if_splits option.splits)
  ultimately show ?thesis
    using Inr by (simp add: evaluateCondition_def) (simp add: readConditionFact_def)
qed (simp add: evaluateCondition_def)

end
