(* ===== verification/Search.thy ===== *)
theory Search
  imports Js_Base
begin

text \<open>
  Depth-first search with a visited set, the shape of every recursive \<open>visit\<close> closure of the
  scheduler: a visited node answers false, a node answers at once or asks its successors in
  order and stops at the first that answers true.  The fuel bounds the recursion depth;
  \<open>search_correct\<close> shows that one more than the number of reachable nodes is enough and that
  the answer is then reachability of an accepting node.
\<close>

fun dfs :: "('n \<Rightarrow> bool + 'n list) \<Rightarrow> nat \<Rightarrow> 'n \<Rightarrow> 'n list \<Rightarrow> (bool \<times> 'n list) option"
  and dfs_some :: "('n \<Rightarrow> bool + 'n list) \<Rightarrow> nat \<Rightarrow> 'n list \<Rightarrow> 'n list \<Rightarrow> (bool \<times> 'n list) option" where
  "dfs ex 0 n v = None"
| "dfs ex (Suc k) n v =
     (if n \<in> set v then Some (False, v)
      else case ex n of Inl b \<Rightarrow> Some (b, n # v) | Inr cs \<Rightarrow> dfs_some ex k cs (n # v))"
| "dfs_some ex k [] v = Some (False, v)"
| "dfs_some ex k (c # cs) v =
     (case dfs ex k c v of
        None \<Rightarrow> None
      | Some (b, v') \<Rightarrow> if b then Some (True, v') else dfs_some ex k cs v')"

definition search :: "('n \<Rightarrow> bool + 'n list) \<Rightarrow> nat \<Rightarrow> 'n \<Rightarrow> bool" where
  "search ex fuel n = (case dfs ex fuel n [] of Some (b, _) \<Rightarrow> b | None \<Rightarrow> False)"

definition search_edge :: "('n \<Rightarrow> bool + 'n list) \<Rightarrow> 'n \<Rightarrow> 'n \<Rightarrow> bool" where
  "search_edge ex n c = (\<exists>cs. ex n = Inr cs \<and> c \<in> set cs)"

definition search_accepts :: "('n \<Rightarrow> bool + 'n list) \<Rightarrow> 'n \<Rightarrow> bool" where
  "search_accepts ex n = (\<exists>m. (search_edge ex)\<^sup>*\<^sup>* n m \<and> ex m = Inl True)"

lemma search_accepts_step:
  "search_accepts ex n \<longleftrightarrow> (case ex n of Inl b \<Rightarrow> b | Inr cs \<Rightarrow> (\<exists>c \<in> set cs. search_accepts ex c))"
proof
  assume "search_accepts ex n"
  then obtain m where "(search_edge ex)\<^sup>*\<^sup>* n m" "ex m = Inl True" by (auto simp: search_accepts_def)
  then show "case ex n of Inl b \<Rightarrow> b | Inr cs \<Rightarrow> (\<exists>c \<in> set cs. search_accepts ex c)"
  proof (cases rule: converse_rtranclpE)
    case (step c)
    then have "search_accepts ex c" using \<open>ex m = Inl True\<close> unfolding search_accepts_def by blast
    with step show ?thesis by (auto simp: search_edge_def)
  qed auto
next
  assume r: "case ex n of Inl b \<Rightarrow> b | Inr cs \<Rightarrow> (\<exists>c \<in> set cs. search_accepts ex c)"
  show "search_accepts ex n"
  proof (cases "ex n")
    case (Inl b)
    with r show ?thesis by (auto simp: search_accepts_def)
  next
    case (Inr cs)
    with r obtain c m where c: "c \<in> set cs" and m: "(search_edge ex)\<^sup>*\<^sup>* c m" "ex m = Inl True"
      by (auto simp: search_accepts_def)
    from c Inr have "search_edge ex n c" by (auto simp: search_edge_def)
    with m show ?thesis unfolding search_accepts_def by (meson converse_rtranclp_into_rtranclp)
  qed
qed

text \<open>A positive answer is an accepting node that was reached.\<close>

lemma dfs_sound:
  "dfs ex k n v = Some (True, v') \<Longrightarrow> search_accepts ex n"
  "dfs_some ex k cs v = Some (True, v') \<Longrightarrow> \<exists>c \<in> set cs. search_accepts ex c"
proof (induction ex k n v and ex k cs v arbitrary: v' and v' rule: dfs_dfs_some.induct)
  case (2 ex k n v)
  then show ?case
    by (subst search_accepts_step) (auto split: if_splits sum.splits)
next
  case (4 ex k c cs v)
  from 4(3) obtain b w where w: "dfs ex k c v = Some (b, w)" by (auto split: option.splits)
  show ?case
  proof (cases b)
    case True
    with 4(1) [of w] w show ?thesis by simp
  next
    case False
    with 4(3) w have "dfs_some ex k cs w = Some (True, v')" by simp
    with 4(2) [OF w refl] False show ?thesis by simp
  qed
qed auto

text \<open>
  A negative answer leaves a visited set in which every new node refuses and has all its
  successors visited.
\<close>

definition closed_off :: "('n \<Rightarrow> bool + 'n list) \<Rightarrow> 'n list \<Rightarrow> 'n list \<Rightarrow> bool" where
  "closed_off ex v v' =
     (set v \<subseteq> set v' \<and>
      (\<forall>m \<in> set v' - set v. ex m \<noteq> Inl True \<and> (\<forall>c. search_edge ex m c \<longrightarrow> c \<in> set v')))"

lemma closed_off_trans: "closed_off ex v v' \<Longrightarrow> closed_off ex v' v'' \<Longrightarrow> closed_off ex v v''"
  unfolding closed_off_def by blast

lemma dfs_negative:
  "dfs ex k n v = Some (False, v') \<Longrightarrow> closed_off ex v v' \<and> n \<in> set v'"
  "dfs_some ex k cs v = Some (False, v') \<Longrightarrow> closed_off ex v v' \<and> set cs \<subseteq> set v'"
proof (induction ex k n v and ex k cs v arbitrary: v' and v' rule: dfs_dfs_some.induct)
  case (2 ex k n v)
  show ?case
  proof (cases "n \<in> set v")
    case False
    note fresh = this
    show ?thesis
    proof (cases "ex n")
      case (Inl b)
      with 2(2) fresh show ?thesis by (auto simp: closed_off_def search_edge_def)
    next
      case (Inr cs)
      with 2 fresh have c: "closed_off ex (n # v) v'" and cs: "set cs \<subseteq> set v'" by simp_all
      have "ex m \<noteq> Inl True \<and> (\<forall>c. search_edge ex m c \<longrightarrow> c \<in> set v')" if "m \<in> set v' - set v" for m
      proof (cases "m = n")
        case True
        with Inr cs show ?thesis by (auto simp: search_edge_def)
      next
        case False
        with that have "m \<in> set v' - set (n # v)" by simp
        with c show ?thesis unfolding closed_off_def by blast
      qed
      moreover from c have "set v \<subseteq> set v'" "n \<in> set v'" by (simp_all add: closed_off_def)
      ultimately show ?thesis by (simp add: closed_off_def)
    qed
  qed (use 2(2) in \<open>auto simp: closed_off_def\<close>)
next
  case (3 ex k v)
  then show ?case by (simp add: closed_off_def)
next
  case (4 ex k c cs v)
  from 4(3) obtain w where w: "dfs ex k c v = Some (False, w)" and rest: "dfs_some ex k cs w = Some (False, v')"
    by (auto split: option.splits if_splits)
  from 4(1) [OF w] 4(2) [OF w refl] rest have "closed_off ex v w" "c \<in> set w" "closed_off ex w v'" "set cs \<subseteq> set v'"
    by auto
  moreover from this have "set w \<subseteq> set v'" by (simp add: closed_off_def)
  ultimately show ?case using closed_off_trans by auto
qed simp

lemma dfs_grows:
  "dfs ex k n v = Some (b, v') \<Longrightarrow> set v \<subseteq> set v'"
  "dfs_some ex k cs v = Some (b, v') \<Longrightarrow> set v \<subseteq> set v'"
proof (induction ex k n v and ex k cs v arbitrary: b v' and b v' rule: dfs_dfs_some.induct)
  case (2 ex k n v)
  then show ?case by (auto split: if_splits sum.splits)
next
  case (4 ex k c cs v)
  then show ?case by (fastforce split: option.splits if_splits)
qed auto

lemma dfs_enough_fuel:
  assumes "finite N" and closed: "\<And>n c. n \<in> N \<Longrightarrow> search_edge ex n c \<Longrightarrow> c \<in> N"
  shows "n \<in> N \<Longrightarrow> card (N - set v) < k \<Longrightarrow> dfs ex k n v \<noteq> None"
    and "set cs \<subseteq> N \<Longrightarrow> card (N - set v) < k \<Longrightarrow> dfs_some ex k cs v \<noteq> None"
  using closed
proof (induction ex k n v and ex k cs v rule: dfs_dfs_some.induct)
  case (2 ex k n v)
  show ?case
  proof (cases "n \<in> set v")
    case False
    with 2 have "card (N - set (n # v)) < card (N - set v)"
      by (intro psubset_card_mono) (use assms(1) in auto)
    then have less: "card (N - set (n # v)) < k" using 2(3) by linarith
    show ?thesis
    proof (cases "ex n")
      case (Inr cs)
      have "set cs \<subseteq> N" using 2(2,4) Inr by (auto simp: search_edge_def)
      from 2(1) [OF False Inr this less 2(4)] False Inr show ?thesis by simp
    qed (use False in simp)
  qed simp
next
  case (4 ex k c cs v)
  have "dfs ex k c v \<noteq> None" using 4(1) 4(3-5) by simp
  then obtain b w where w: "dfs ex k c v = Some (b, w)" by fastforce
  then have "set v \<subseteq> set w" by (rule dfs_grows)
  then have "card (N - set w) \<le> card (N - set v)" by (intro card_mono) (use assms(1) in auto)
  then have "\<not> b \<Longrightarrow> dfs_some ex k cs w \<noteq> None"
    using 4(2) [OF w refl] 4(3-5) by simp
  with w show ?case by (cases b) simp_all
qed simp_all

lemma search_correct:
  assumes "finite N" and "\<And>n c. n \<in> N \<Longrightarrow> search_edge ex n c \<Longrightarrow> c \<in> N"
    and "n \<in> N" and "card N < fuel"
  shows "search ex fuel n \<longleftrightarrow> search_accepts ex n"
proof -
  have "dfs ex fuel n [] \<noteq> None"
    by (rule dfs_enough_fuel(1) [OF assms(1) _ assms(3)]) (use assms(2,4) in auto)
  then obtain b v where d: "dfs ex fuel n [] = Some (b, v)" by auto
  show ?thesis
  proof (cases b)
    case True
    with d show ?thesis using dfs_sound(1) by (fastforce simp: search_def)
  next
    case False
    with d have "dfs ex fuel n [] = Some (False, v)" by simp
    from dfs_negative(1) [OF this] have c: "closed_off ex [] v" "n \<in> set v" by auto
    have "m \<in> set v" if "(search_edge ex)\<^sup>*\<^sup>* n m" for m
      using that by (induction rule: rtranclp_induct) (use c in \<open>auto simp: closed_off_def\<close>)
    with c False d show ?thesis by (auto simp: search_accepts_def search_def closed_off_def)
  qed
qed

end
