(* ===== verification/Frontier.thy ===== *)
theory Frontier
  imports "HOL-Library.Multiset" Search Attempts
begin

text \<open>
  The stage graph and its frontier (\<open>src/src/scheduler/sched_admission/frontier.ts\<close> and the
  dependents of \<open>dispatch.ts\<close>): graph inspection by Kahn's algorithm, transitive dependency,
  skipped branches, readiness and the one-author batch.

  A stage record keeps the properties the scheduler's graph code reads; the rest is \<open>sc_rest\<close>.
  The gate readers (\<open>GateReadServices\<close>) and the existence of a verdict file are parameters.
\<close>

record stage_config =
  sc_id :: string
  sc_depends_on :: "string list"
  sc_condition :: "string option"
  sc_is_gate :: bool
  sc_retry_to :: "string list option"
  sc_dynamic_dispatch :: bool
  sc_scope :: "string list option"
  sc_criterion_refs :: "string list"
  sc_rest :: json

definition stage_map :: "stage_config list \<Rightarrow> (string \<times> stage_config) list" where
  "stage_map stages = amap_of sc_id stages"

definition lookup :: "'b \<Rightarrow> ('a \<times> 'b) list \<Rightarrow> 'a \<Rightarrow> 'b" where
  \<comment> \<open>\<open>m.get(k) ?? d\<close>\<close>
  "lookup d m k = dflt (map_of m k) d"

section \<open>Transitive dependency\<close>

definition deps_in :: "(string \<times> stage_config) list \<Rightarrow> string \<Rightarrow> string list" where
  "deps_in byId k = (case map_of byId k of None \<Rightarrow> [] | Some s \<Rightarrow> sc_depends_on s)"

function depends_loop ::
  "(string \<times> stage_config) list \<Rightarrow> string \<Rightarrow> string list \<Rightarrow> string list \<Rightarrow> bool" where
  "depends_loop byId ancestor [] seen = False"
| "depends_loop byId ancestor (current # queue) seen =
     (if current = ancestor then True
      else if current \<in> set seen then depends_loop byId ancestor queue seen
      else depends_loop byId ancestor (queue @ deps_in byId current) (current # seen))"
  by pat_completeness auto

termination
proof (relation "measures [\<lambda>(byId, a, q, seen). card (fst ` set byId - set seen),
    \<lambda>(byId, a, q, seen). length q]")
  fix byId :: "(string \<times> stage_config) list" and ancestor current :: string and queue seen :: "string list"
  assume new: "current \<notin> set seen"
  show "((byId, ancestor, queue @ deps_in byId current, current # seen), (byId, ancestor, current # queue, seen))
    \<in> measures [\<lambda>(byId, a, q, seen). card (fst ` set byId - set seen), \<lambda>(byId, a, q, seen). length q]"
  proof (cases "current \<in> fst ` set byId")
    case True
    then have "card (fst ` set byId - set (current # seen)) < card (fst ` set byId - set seen)"
      using new by (intro psubset_card_mono) auto
    then show ?thesis by simp
  next
    case False
    then have "deps_in byId current = []" using map_of_eq_None_iff [of byId current] by (simp add: deps_in_def)
    moreover have "fst ` set byId - set (current # seen) = fst ` set byId - set seen" using False by auto
    ultimately show ?thesis by simp
  qed
qed auto

definition transitivelyDependsOn :: "string \<Rightarrow> string \<Rightarrow> (string \<times> stage_config) list \<Rightarrow> bool" where
  "transitivelyDependsOn stageId ancestorId byId = depends_loop byId ancestorId (deps_in byId stageId) []"

section \<open>Graph inspection\<close>

datatype graph_error =
    DuplicateId string
  | UnknownDependency string string
  | SelfDependency string string
  | DependencyCycle string

type_synonym graph_state = "graph_error list \<times> (string \<times> string list) list \<times> (string \<times> int) list"

fun add_edge :: "string list \<Rightarrow> string \<times> string \<Rightarrow> graph_state \<Rightarrow> graph_state" where
  "add_edge ids (s, d) (errors, adj, inDeg) =
     (if d \<notin> set ids then (errors @ [UnknownDependency s d], adj, inDeg)
      else (if d = s then errors @ [SelfDependency s d] else errors,
            amap_set d (lookup [] adj d @ [s]) adj,
            amap_set s (lookup 0 inDeg s + 1) inDeg))"

definition graph_edges :: "stage_config list \<Rightarrow> (string \<times> string) list" where
  "graph_edges stages = concat (map (\<lambda>s. map (\<lambda>d. (sc_id s, d)) (sc_depends_on s)) stages)"

definition duplicate_errors :: "stage_config list \<Rightarrow> graph_error list" where
  "duplicate_errors stages =
     map DuplicateId (filter (\<lambda>i. length (filter (\<lambda>s. sc_id s = i) stages) > 1) (uniq (map sc_id stages)))"

definition build_graph :: "stage_config list \<Rightarrow> graph_state" where
  "build_graph stages =
     (let ids = uniq (map sc_id stages)
      in fold (add_edge ids) (graph_edges stages)
           (duplicate_errors stages, map (\<lambda>i. (i, [])) ids, map (\<lambda>i. (i, 0)) ids))"

fun release :: "string list \<Rightarrow> (string \<times> int) list \<Rightarrow> string list \<Rightarrow> (string \<times> int) list \<times> string list" where
  "release [] inDeg queue = (inDeg, queue)"
| "release (nb # nbs) inDeg queue =
     (let d = lookup 0 inDeg nb - 1
      in release nbs (amap_set nb d inDeg) (if d = 0 then queue @ [nb] else queue))"

definition positives :: "(string \<times> int) list \<Rightarrow> nat" where
  "positives m = length (filter (\<lambda>(_, v). v > 0) m)"

lemma positives_set: "positives (amap_set k v m) \<le> positives m + (if v > 0 then 1 else 0)"
  by (induction k v m rule: amap_set.induct) (auto simp: positives_def)

lemma positives_drop: "lookup 0 m k = 1 \<Longrightarrow> Suc (positives (amap_set k 0 m)) = positives m"
proof (induction k "0 :: int" m rule: amap_set.induct)
  case (2 k k' v' m)
  then show ?case by (auto simp: positives_def lookup_def)
qed (simp add: lookup_def)

lemma positives_dec: "d = lookup 0 m k - 1 \<Longrightarrow> positives (amap_set k d m) \<le> positives m"
proof (induction k d m rule: amap_set.induct)
  case (2 k v k' v' m)
  then show ?case by (auto simp: positives_def lookup_def)
qed (simp add: lookup_def positives_def)

lemma release_measure:
  "release nbs inDeg queue = (inDeg', queue') \<Longrightarrow> positives inDeg' + length queue' \<le> positives inDeg + length queue"
proof (induction nbs inDeg queue rule: release.induct)
  case (2 nb nbs inDeg queue)
  let ?d = "lookup 0 inDeg nb - 1"
  have "positives (amap_set nb ?d inDeg) + length (if ?d = 0 then queue @ [nb] else queue)
      \<le> positives inDeg + length queue"
    using positives_dec [of ?d inDeg nb] positives_drop [of inDeg nb] by (cases "?d = 0") auto
  with 2 show ?case by (simp add: Let_def)
qed simp

function kahn ::
  "(string \<times> string list) list \<Rightarrow> string list \<Rightarrow> (string \<times> int) list \<Rightarrow> string list \<Rightarrow> string list" where
  "kahn adj [] inDeg ordered = ordered"
| "kahn adj (n # queue) inDeg ordered =
     (case release (lookup [] adj n) inDeg queue of
        (inDeg', queue') \<Rightarrow> kahn adj queue' inDeg' (ordered @ [n]))"
  by pat_completeness auto
termination
  by (relation "measure (\<lambda>(adj, q, m, s). positives m + length q)")
     (auto dest: release_measure [OF sym])

fun position :: "string list \<Rightarrow> string \<Rightarrow> nat" where
  "position [] k = 0"
| "position (x # xs) k = (if x = k then 0 else Suc (position xs k))"

definition topo_ids :: "stage_config list \<Rightarrow> string list" where
  "topo_ids stages =
     (case build_graph stages of
        (_, adj, inDeg) \<Rightarrow> kahn adj (map fst (filter (\<lambda>(_, v). v = 0) inDeg)) inDeg [])"

definition inspectStageGraph :: "stage_config list \<Rightarrow> stage_config list \<times> graph_error list" where
  \<comment> \<open>with a stage missing from the order the source sorts by NaN differences and some order
    comes back; there are errors then and no caller reads the order: the model keeps the input's\<close>
  "inspectStageGraph stages =
     (let errors = fst (build_graph stages); ordered = topo_ids stages; byId = stage_map stages;
          errors = errors @ (if length ordered \<noteq> length stages
            then map (\<lambda>s. DependencyCycle (sc_id s))
                   (filter (\<lambda>s. transitivelyDependsOn (sc_id s) (sc_id s) byId) stages)
            else [])
      in (if length ordered = length stages then sort_key (\<lambda>s. position ordered (sc_id s)) stages else stages,
          errors))"

definition topoSort :: "stage_config list \<Rightarrow> graph_error list + stage_config list" where
  "topoSort stages =
     (case inspectStageGraph stages of
        (ordered, errors) \<Rightarrow> if errors \<noteq> [] then Inl errors else Inr ordered)"

section \<open>Dependents\<close>

function dependents_loop :: "string \<Rightarrow> stage_config list \<Rightarrow> string list \<Rightarrow> string list \<Rightarrow> string list" where
  "dependents_loop start stages [] dependents = dependents"
| "dependents_loop start stages (current # queue) dependents =
     (let fresh = uniq (map sc_id (filter (\<lambda>s. sc_id s \<notin> set dependents \<and> sc_id s \<noteq> start
                                  \<and> current \<in> set (sc_depends_on s)) stages))
      in dependents_loop start stages (queue @ fresh) (dependents @ fresh))"
  by pat_completeness auto
termination
proof (relation "measure (\<lambda>(start, stages, q, dep). length q + card (set (map sc_id stages) - set dep))")
  fix start current :: string and stages :: "stage_config list" and queue dependents fresh :: "string list"
  assume fresh: "fresh = uniq (map sc_id (filter (\<lambda>s. sc_id s \<notin> set dependents \<and> sc_id s \<noteq> start
      \<and> current \<in> set (sc_depends_on s)) stages))"
  let ?ids = "set (map sc_id stages)"
  have f: "set fresh \<subseteq> ?ids - set dependents" "distinct fresh" using fresh by auto
  have "card (?ids - set dependents - set fresh) = card (?ids - set dependents) - card (set fresh)"
    by (rule card_Diff_subset [OF _ f(1)]) simp
  moreover have "card (set fresh) \<le> card (?ids - set dependents)"
    by (rule card_mono [OF _ f(1)]) simp
  moreover have "?ids - set (dependents @ fresh) = ?ids - set dependents - set fresh" by auto
  ultimately have "card (?ids - set (dependents @ fresh)) + length fresh = card (?ids - set dependents)"
    by (simp add: distinct_card [OF f(2)])
  then show "((start, stages, queue @ fresh, dependents @ fresh), (start, stages, current # queue, dependents))
      \<in> measure (\<lambda>(start, stages, q, dep). length q + card (set (map sc_id stages) - set dep))"
    by simp
qed simp

definition collectTransitiveDependents :: "string \<Rightarrow> stage_config list \<Rightarrow> string list" where
  "collectTransitiveDependents stageId stages = dependents_loop stageId stages [stageId] []"

section \<open>Skipped branches and readiness\<close>

definition stage_state_of :: "(string \<times> stage_status) list \<Rightarrow> string \<Rightarrow> stage_state option" where
  "stage_state_of st sid = map_option s_status (map_of st sid)"

definition conditional :: "stage_config \<Rightarrow> bool" where
  \<comment> \<open>\<open>Boolean(stage.condition?.trim())\<close>\<close>
  "conditional s = (trim (dflt (sc_condition s) []) \<noteq> [])"

definition skip_step ::
  "string \<Rightarrow> (string \<times> stage_config) list \<Rightarrow> (string \<times> stage_status) list \<Rightarrow> string \<Rightarrow> bool + string list" where
  "skip_step stageId stages st sid =
     (case (map_of stages sid, stage_state_of st sid) of
        (Some stage, Some SPending) \<Rightarrow> Inr (sc_depends_on stage)
      | (Some stage, Some SSkipped) \<Rightarrow>
          if sid \<noteq> stageId \<and> conditional stage then Inl True else Inr (sc_depends_on stage)
      | _ \<Rightarrow> Inl False)"

definition isStageInSkippedBranch ::
  "string \<Rightarrow> (string \<times> stage_config) list \<Rightarrow> (string \<times> stage_status) list \<Rightarrow> bool" where
  "isStageInSkippedBranch stageId stages st =
     search (skip_step stageId stages st)
       (length stages + length (concat (map (sc_depends_on \<circ> snd) stages)) + 2) stageId"

definition dep_ready ::
  "(string \<Rightarrow> bool) \<Rightarrow> (string \<Rightarrow> bool \<Rightarrow> bool option) \<Rightarrow> (string \<times> stage_config) list \<Rightarrow>
   (string \<times> stage_status) list \<Rightarrow> stage_config \<Rightarrow> string \<Rightarrow> bool" where
  \<comment> \<open>\<open>evaluate d gate\<close> is the \<open>pass\<close> of \<open>readGateEvaluation\<close>, \<open>None\<close> for no evaluation\<close>
  "dep_ready hasVerdict evaluate byId st s d =
     (case map_of st d of
        None \<Rightarrow> False
      | Some ds \<Rightarrow>
          if s_continuation ds \<noteq> None \<or> \<not> isSatisfiedStageDependencyStatus (s_status ds) then False
          else
            let gate = (case map_of byId d of Some dep \<Rightarrow> sc_is_gate dep | None \<Rightarrow> False);
                verdict = (if gate \<or> hasVerdict d then evaluate d gate else None)
            in if verdict = Some False then False
               else if d \<in> set (dflt (sc_retry_to s) []) then False
               else if \<not> gate then True
               else verdict = Some True)"

definition findAllReady ::
  "(string \<Rightarrow> bool) \<Rightarrow> (string \<Rightarrow> bool \<Rightarrow> bool option) \<Rightarrow> stage_config list \<Rightarrow>
   (string \<times> stage_status) list \<Rightarrow> stage_config list" where
  "findAllReady hasVerdict evaluate stages st =
     filter (\<lambda>s. (case map_of st (sc_id s) of
                    None \<Rightarrow> False
                  | Some ss \<Rightarrow> isPendingStageStatus (s_status ss)
                      \<and> list_all (dep_ready hasVerdict evaluate (stage_map stages) st s) (sc_depends_on s)))
       stages"

section \<open>One author at a time\<close>

record scope_conflict =
  leftStageId :: string
  rightStageId :: string
  conflictReason :: string

definition findScopeConflict :: "stage_config \<Rightarrow> stage_config \<Rightarrow> scope_conflict option" where
  \<comment> \<open>stages share one mutable project tree: any two conflict\<close>
  "findScopeConflict left right = Some \<lparr>leftStageId = sc_id left, rightStageId = sc_id right,
     conflictReason = ''stages share one mutable project tree; wait for the active stage to settle''\<rparr>"

fun first_conflict :: "stage_config list \<Rightarrow> stage_config \<Rightarrow> scope_conflict option" where
  "first_conflict [] s = None"
| "first_conflict (a # as) s =
     (case findScopeConflict a s of Some c \<Rightarrow> Some c | None \<Rightarrow> first_conflict as s)"

definition selectRunnableBatch ::
  "stage_config list \<Rightarrow> stage_config list \<times> (stage_config \<times> scope_conflict) list" where
  "selectRunnableBatch ready =
     fold (\<lambda>s (selected, deferred).
             case first_conflict selected s of
               Some c \<Rightarrow> (selected, deferred @ [(s, c)])
             | None \<Rightarrow> (selected @ [s], deferred))
       ready ([], [])"

section \<open>Dependency is decided exactly\<close>

definition depends_edge :: "(string \<times> stage_config) list \<Rightarrow> string \<Rightarrow> string \<Rightarrow> bool" where
  "depends_edge byId k d = (d \<in> set (deps_in byId k))"

lemma leaves_seen:
  assumes "(depends_edge byId)\<^sup>*\<^sup>* x a" and "x \<in> S" and "a \<notin> S"
    and "\<And>y. y \<in> S \<Longrightarrow> set (deps_in byId y) \<subseteq> S \<union> Q"
  shows "\<exists>c \<in> Q. (depends_edge byId)\<^sup>*\<^sup>* c a"
  using assms(1,2)
proof (induction rule: converse_rtranclp_induct)
  case base
  with assms(3) show ?case by simp
next
  case (step y z)
  show ?case
  proof (cases "z \<in> S")
    case False
    with step(1,4) assms(4) [of y] have "z \<in> Q" by (auto simp: depends_edge_def)
    with step(2) show ?thesis by blast
  qed (use step in blast)
qed

lemma depends_loop_correct:
  assumes "ancestor \<notin> set seen" and "\<And>y. y \<in> set seen \<Longrightarrow> set (deps_in byId y) \<subseteq> set seen \<union> set q"
  shows "depends_loop byId ancestor q seen \<longleftrightarrow> (\<exists>c \<in> set q. (depends_edge byId)\<^sup>*\<^sup>* c ancestor)"
  using assms
proof (induction byId ancestor q seen rule: depends_loop.induct)
  case (2 byId ancestor current q seen)
  let ?r = "\<lambda>c. (depends_edge byId)\<^sup>*\<^sup>* c ancestor"
  consider "current = ancestor" | "current \<noteq> ancestor" "current \<in> set seen"
    | "current \<noteq> ancestor" "current \<notin> set seen" by blast
  then show ?case
  proof cases
    case 2
    have "?r current \<Longrightarrow> \<exists>c \<in> set q. ?r c"
      by (rule leaves_seen [of _ _ _ "set seen"]) (use 2 "2.prems" in auto)
    moreover have "depends_loop byId ancestor q seen \<longleftrightarrow> (\<exists>c \<in> set q. ?r c)"
      by (rule "2.IH"(1)) (use 2 "2.prems" in auto)
    ultimately show ?thesis using 2 by auto
  next
    case 3
    have "?r current \<longleftrightarrow> (\<exists>d \<in> set (deps_in byId current). ?r d)"
    proof
      assume "?r current"
      then show "\<exists>d \<in> set (deps_in byId current). ?r d"
        by (cases rule: converse_rtranclpE) (use 3(1) in \<open>auto simp: depends_edge_def\<close>)
    next
      assume "\<exists>d \<in> set (deps_in byId current). ?r d"
      then show "?r current" by (auto simp: depends_edge_def intro: converse_rtranclp_into_rtranclp)
    qed
    moreover have "depends_loop byId ancestor (q @ deps_in byId current) (current # seen)
      \<longleftrightarrow> (\<exists>c \<in> set (q @ deps_in byId current). ?r c)"
      by (rule "2.IH"(2)) (use 3 "2.prems" in auto)
    ultimately show ?thesis using 3 by auto
  qed simp
qed simp

lemma transitivelyDependsOn_correct:
  "transitivelyDependsOn x a byId \<longleftrightarrow> (depends_edge byId)\<^sup>+\<^sup>+ x a"
proof -
  have "transitivelyDependsOn x a byId \<longleftrightarrow> (\<exists>c \<in> set (deps_in byId x). (depends_edge byId)\<^sup>*\<^sup>* c a)"
    unfolding transitivelyDependsOn_def by (rule depends_loop_correct) simp_all
  then show ?thesis
    by (auto simp: depends_edge_def tranclp_unfold_left OO_def)
qed

text \<open>The dependents of a stage.\<close>

lemma stage_map_distinct:
  assumes "distinct (map sc_id stages)" and "s \<in> set stages"
  shows "map_of (stage_map stages) (sc_id s) = Some s"
proof -
  obtain t where "map_of (stage_map stages) (sc_id s) = Some t"
    using assms(2) map_of_amap_of_None [of sc_id stages "sc_id s"] unfolding stage_map_def by fastforce
  moreover from this have "t \<in> set stages \<and> sc_id t = sc_id s"
    unfolding stage_map_def by (rule map_of_amap_of_Some)
  ultimately show ?thesis using assms by (auto simp: distinct_map inj_on_def)
qed

lemma stage_map_deps:
  assumes "distinct (map sc_id stages)"
  shows "depends_edge (stage_map stages) k d \<longleftrightarrow> (\<exists>s \<in> set stages. sc_id s = k \<and> d \<in> set (sc_depends_on s))"
proof
  assume "depends_edge (stage_map stages) k d"
  then obtain s where "map_of (stage_map stages) k = Some s" "d \<in> set (sc_depends_on s)"
    by (cases "map_of (stage_map stages) k") (auto simp: depends_edge_def deps_in_def)
  then show "\<exists>s \<in> set stages. sc_id s = k \<and> d \<in> set (sc_depends_on s)"
    using map_of_amap_of_Some [of sc_id stages k s] by (auto simp: stage_map_def)
next
  assume "\<exists>s \<in> set stages. sc_id s = k \<and> d \<in> set (sc_depends_on s)"
  then show "depends_edge (stage_map stages) k d"
    using stage_map_distinct [OF assms] by (auto simp: depends_edge_def deps_in_def)
qed

definition named_edge :: "stage_config list \<Rightarrow> string \<Rightarrow> string \<Rightarrow> bool" where
  "named_edge stages k d = (\<exists>s \<in> set stages. sc_id s = k \<and> d \<in> set (sc_depends_on s))"

lemma dependents_loop_sound:
  "\<lbrakk>\<forall>y \<in> set dep. (named_edge stages)\<^sup>+\<^sup>+ y start \<and> y \<noteq> start; set q \<subseteq> insert start (set dep);
    k \<in> set (dependents_loop start stages q dep)\<rbrakk> \<Longrightarrow> (named_edge stages)\<^sup>+\<^sup>+ k start \<and> k \<noteq> start"
proof (induction start stages q dep rule: dependents_loop.induct)
  case (2 start stages current q dep)
  let ?fresh = "uniq (map sc_id (filter (\<lambda>s. sc_id s \<notin> set dep \<and> sc_id s \<noteq> start
                                  \<and> current \<in> set (sc_depends_on s)) stages))"
  have new: "(named_edge stages)\<^sup>+\<^sup>+ y start \<and> y \<noteq> start" if "y \<in> set ?fresh" for y
  proof -
    from that have e: "named_edge stages y current" and "y \<noteq> start" by (auto simp: named_edge_def)
    moreover have "current = start \<or> (named_edge stages)\<^sup>+\<^sup>+ current start"
      using "2.prems"(1,2) by (simp) blast
    ultimately show ?thesis by (metis tranclp.r_into_trancl tranclp_into_tranclp2)
  qed
  have "\<forall>y \<in> set (dep @ ?fresh). (named_edge stages)\<^sup>+\<^sup>+ y start \<and> y \<noteq> start"
    using new "2.prems"(1) unfolding set_append by blast
  moreover have "set (q @ ?fresh) \<subseteq> insert start (set (dep @ ?fresh))"
    using "2.prems"(2) by (auto simp del: set_uniq)
  moreover have "k \<in> set (dependents_loop start stages (q @ ?fresh) (dep @ ?fresh))"
    using "2.prems"(3) by (simp add: Let_def)
  ultimately show ?case by (rule "2.IH" [OF refl])
qed auto

lemma dependents_loop_grows: "set dep \<subseteq> set (dependents_loop start stages q dep)"
proof (induction start stages q dep rule: dependents_loop.induct)
  case (2 start stages current q dep)
  then show ?case by (auto simp: Let_def)
qed simp

lemma dependents_loop_closed:
  "\<lbrakk>\<And>y k. y \<in> insert start (set dep) \<Longrightarrow> y \<notin> set q \<Longrightarrow> named_edge stages k y \<Longrightarrow> k \<noteq> start \<Longrightarrow> k \<in> set dep;
    y \<in> insert start (set (dependents_loop start stages q dep)); named_edge stages k y; k \<noteq> start\<rbrakk>
   \<Longrightarrow> k \<in> set (dependents_loop start stages q dep)"
proof (induction start stages q dep arbitrary: y k rule: dependents_loop.induct)
  case (2 start stages current q dep)
  let ?fresh = "uniq (map sc_id (filter (\<lambda>s. sc_id s \<notin> set dep \<and> sc_id s \<noteq> start
                                  \<and> current \<in> set (sc_depends_on s)) stages))"
  have closed: "k \<in> set (dep @ ?fresh)"
    if "y \<in> insert start (set (dep @ ?fresh))" "y \<notin> set (q @ ?fresh)" "named_edge stages k y" "k \<noteq> start" for y k
  proof (cases "y = current")
    case True
    with that(3,4) show ?thesis by (force simp: named_edge_def)
  next
    case False
    with that "2.prems"(1) [of y k] show ?thesis by auto
  qed
  have "k \<in> set (dependents_loop start stages (q @ ?fresh) (dep @ ?fresh))"
    by (rule "2.IH" [OF refl closed]) (use "2.prems"(2-) in \<open>auto simp: Let_def\<close>)
  then show ?case by (simp add: Let_def)
qed auto

lemma collect_correct:
  "k \<in> set (collectTransitiveDependents start stages) \<longleftrightarrow> (named_edge stages)\<^sup>+\<^sup>+ k start \<and> k \<noteq> start"
proof
  assume "k \<in> set (collectTransitiveDependents start stages)"
  then show "(named_edge stages)\<^sup>+\<^sup>+ k start \<and> k \<noteq> start"
    unfolding collectTransitiveDependents_def by (rule dependents_loop_sound [rotated 2]) auto
next
  assume k: "(named_edge stages)\<^sup>+\<^sup>+ k start \<and> k \<noteq> start"
  have closed: "k' \<in> set (collectTransitiveDependents start stages)"
    if "y \<in> insert start (set (collectTransitiveDependents start stages))" "named_edge stages k' y" "k' \<noteq> start"
    for y k'
    using that unfolding collectTransitiveDependents_def by (rule dependents_loop_closed [rotated]) auto
  have "k \<in> insert start (set (collectTransitiveDependents start stages))"
    using k [THEN conjunct1]
    by (induction rule: converse_tranclp_induct) (use closed in blast)+
  with k show "k \<in> set (collectTransitiveDependents start stages)" by simp
qed

text \<open>The two traversals of the stage graph agree: with unique stage ids, the dependents
  collected from a stage are exactly the other stages that transitively depend on it, so a
  retry resets every stage whose input it replaces and no other.\<close>

lemma dependents_are_exact:
  assumes "distinct (map sc_id stages)"
  shows "k \<in> set (collectTransitiveDependents start stages)
    \<longleftrightarrow> k \<noteq> start \<and> transitivelyDependsOn k start (stage_map stages)"
proof -
  have "depends_edge (stage_map stages) = named_edge stages"
    using stage_map_deps [OF assms] by (simp add: named_edge_def fun_eq_iff)
  then show ?thesis by (auto simp: collect_correct transitivelyDependsOn_correct)
qed

definition plain_stage :: "string \<Rightarrow> string list \<Rightarrow> stage_config" where
  "plain_stage n ds = \<lparr>sc_id = n, sc_depends_on = ds, sc_condition = None, sc_is_gate = False,
     sc_retry_to = None, sc_dynamic_dispatch = False, sc_scope = None, sc_criterion_refs = [],
     sc_rest = JNull\<rparr>"

text \<open>At most one stage authors the shared project tree: of any ready list the batch selects
  exactly the first stage, and every other ready stage is deferred with the selected stage
  named as the reason.\<close>

lemma one_author_at_a_time:
  "fst (selectRunnableBatch ready) = take 1 ready
   \<and> map fst (snd (selectRunnableBatch ready)) = drop 1 ready
   \<and> (\<forall>(s, c) \<in> set (snd (selectRunnableBatch ready)). leftStageId c = sc_id (hd ready) \<and> rightStageId c = sc_id s)"
proof (cases ready)
  case (Cons a rest)
  let ?step = "\<lambda>s (selected, deferred). case first_conflict selected s of
               Some c \<Rightarrow> (selected, deferred @ [(s, c)]) | None \<Rightarrow> (selected @ [s], deferred)"
  have "fold ?step xs ([a], d) = ([a], d @ map (\<lambda>s. (s, the (findScopeConflict a s))) xs)" for xs d
    by (induction xs arbitrary: d) (simp_all add: findScopeConflict_def)
  from this [of rest "[]"] Cons show ?thesis
    by (auto simp: selectRunnableBatch_def comp_def findScopeConflict_def)
qed (simp add: selectRunnableBatch_def)

section \<open>The graph the inspection builds\<close>

lemma lookup_set [simp]: "lookup d (amap_set k v m) x = (if x = k then v else lookup d m x)"
  by (simp add: lookup_def)

fun edge_errors :: "string list \<Rightarrow> string \<times> string \<Rightarrow> graph_error list" where
  "edge_errors ids (s, d) =
     (if d \<notin> set ids then [UnknownDependency s d] else if d = s then [SelfDependency s d] else [])"

lemma amap_set_keys: "k \<in> fst ` set m \<Longrightarrow> map fst (amap_set k v m) = map fst m"
  by (induction k v m rule: amap_set.induct) auto

lemma fold_add_edge_keys:
  "fold (add_edge ids) es (er, adj, deg) = (er', adj', deg') \<Longrightarrow> \<forall>(s, d) \<in> set es. s \<in> fst ` set deg
    \<Longrightarrow> map fst deg' = map fst deg"
proof (induction es arbitrary: er adj deg)
  case (Cons e es)
  obtain s d where e: "e = (s, d)" by (cases e)
  obtain er1 adj1 deg1 where step: "add_edge ids e (er, adj, deg) = (er1, adj1, deg1)"
    by (cases "add_edge ids e (er, adj, deg)") auto
  have "s \<in> fst ` set deg" using Cons.prems(2) e by auto
  then have k: "map fst deg1 = map fst deg"
    using step e amap_set_keys [of s deg "lookup 0 deg s + 1"] by (cases "d \<in> set ids") auto
  then have k': "fst ` set deg1 = fst ` set deg" by (metis list.set_map)
  have "map fst deg' = map fst deg1"
    by (rule Cons.IH [of er1 adj1]) (use Cons.prems step k' in auto)
  with k show ?case by simp
qed simp

lemma fold_add_edge:
  "fold (add_edge ids) es (er, adj, deg) = (er', adj', deg') \<Longrightarrow>
     er' = er @ concat (map (edge_errors ids) es)
     \<and> (\<forall>d. lookup [] adj' d = lookup [] adj d @ map fst (filter (\<lambda>(s, d'). d' = d \<and> d \<in> set ids) es))
     \<and> (\<forall>s. lookup 0 deg' s = lookup 0 deg s + int (length (filter (\<lambda>(s', d). s' = s \<and> d \<in> set ids) es)))"
proof (induction es arbitrary: er adj deg)
  case (Cons e es)
  obtain s d where e: "e = (s, d)" by (cases e)
  obtain er1 adj1 deg1 where step: "add_edge ids e (er, adj, deg) = (er1, adj1, deg1)"
    by (cases "add_edge ids e (er, adj, deg)") auto
  have rest: "fold (add_edge ids) es (er1, adj1, deg1) = (er', adj', deg')"
    using Cons.prems step by simp
  note IH = Cons.IH [OF rest]
  show ?case
  proof (cases "d \<in> set ids")
    case False
    with step e have "er1 = er @ [UnknownDependency s d]" "adj1 = adj" "deg1 = deg" by auto
    with IH False e show ?thesis by auto
  next
    case True
    with step e have "er1 = er @ edge_errors ids e" "adj1 = amap_set d (lookup [] adj d @ [s]) adj"
      "deg1 = amap_set s (lookup 0 deg s + 1) deg" by auto
    with IH True e show ?thesis by auto
  qed
qed simp

section \<open>Kahn's algorithm\<close>

lemma release_correct:
  "release nbs m q = (m', q') \<Longrightarrow> \<forall>x. int (count_list nbs x) \<le> lookup 0 m x \<or> count_list nbs x = 0 \<Longrightarrow>
     (\<forall>x. lookup 0 m' x = lookup 0 m x - int (count_list nbs x))
     \<and> (\<exists>P. q' = q @ P \<and> distinct P \<and> set P = {x \<in> set nbs. lookup 0 m x = int (count_list nbs x)})"
proof (induction nbs m q rule: release.induct)
  case (2 nb nbs m q)
  let ?d = "lookup 0 m nb - 1"
  let ?m = "amap_set nb ?d m"
  let ?q = "if ?d = 0 then q @ [nb] else q"
  from 2(2) have run: "release nbs ?m ?q = (m', q')" by (simp add: Let_def)
  have nb: "int (count_list nbs nb) + 1 \<le> lookup 0 m nb" using 2(3) [rule_format, of nb] by simp
  have pre: "\<forall>x. int (count_list nbs x) \<le> lookup 0 ?m x \<or> count_list nbs x = 0"
    using 2(3) nb by (auto split: if_splits)
  from 2(1) [OF refl run pre] obtain P where m': "\<forall>x. lookup 0 m' x = lookup 0 ?m x - int (count_list nbs x)"
    and P: "q' = ?q @ P" "distinct P" "set P = {x \<in> set nbs. lookup 0 ?m x = int (count_list nbs x)}" by auto
  show ?case
  proof (cases "?d = 0")
    case True
    then have none: "nb \<notin> set nbs" using nb by (simp add: count_list_0_iff [symmetric])
    have "set (nb # P) = {x \<in> set (nb # nbs). lookup 0 m x = int (count_list (nb # nbs) x)}"
      using P(3) True none by (auto simp: count_list_0_iff)
    moreover have "distinct (nb # P)" using P none by auto
    ultimately show ?thesis using m' P(1) True by (auto intro!: exI [of _ "nb # P"])
  next
    case False
    have "x \<in> set P \<longleftrightarrow> x \<in> set (nb # nbs) \<and> lookup 0 m x = int (count_list (nb # nbs) x)" for x
    proof (cases "x = nb")
      case True
      have "nb \<notin> set nbs \<Longrightarrow> count_list nbs nb = 0" by (simp add: count_list_0_iff)
      with True P(3) False show ?thesis by auto
    next
      case False
      with P(3) show ?thesis by auto
    qed
    then have "set P = {x \<in> set (nb # nbs). lookup 0 m x = int (count_list (nb # nbs) x)}" by blast
    then show ?thesis using m' P(1,2) False by (auto intro!: exI [of _ P])
  qed
qed simp

definition ordered_deps :: "(string \<Rightarrow> string list) \<Rightarrow> string list \<Rightarrow> bool" where
  "ordered_deps D r = (\<forall>xs y ys. r = xs @ y # ys \<longrightarrow> set (D y) \<subseteq> set xs)"

lemma ordered_deps_snoc: "ordered_deps D r \<Longrightarrow> set (D n) \<subseteq> set r \<Longrightarrow> ordered_deps D (r @ [n])"
  unfolding ordered_deps_def
proof (intro allI impI)
  fix xs y ys assume r: "\<forall>xs y ys. r = xs @ y # ys \<longrightarrow> set (D y) \<subseteq> set xs" and n: "set (D n) \<subseteq> set r"
    and e: "r @ [n] = xs @ y # ys"
  show "set (D y) \<subseteq> set xs"
  proof (cases ys rule: rev_cases)
    case Nil
    with e n show ?thesis by simp
  next
    case (snoc zs z)
    with e have "r = xs @ y # zs" by simp
    with r show ?thesis by blast
  qed
qed

definition kahn_inv ::
  "string set \<Rightarrow> (string \<Rightarrow> string list) \<Rightarrow> string list \<Rightarrow> (string \<times> int) list \<Rightarrow> string list \<Rightarrow> bool" where
  "kahn_inv ids D q m r =
     ((\<forall>k \<in> ids. lookup 0 m k = int (length (filter (\<lambda>d. d \<notin> set r) (D k))))
      \<and> distinct (r @ q) \<and> set (r @ q) = {k \<in> ids. lookup 0 m k = 0} \<and> ordered_deps D r)"

lemma kahn_step:
  assumes inv: "kahn_inv ids D (n # q) m r"
    and adj: "\<forall>k. count_list (lookup [] adj n) k = (if k \<in> ids then count_list (D k) n else 0)"
    and rel: "release (lookup [] adj n) m q = (m', q')"
  shows "kahn_inv ids D q' m' (r @ [n])"
proof -
  from inv have deg: "\<And>k. k \<in> ids \<Longrightarrow> lookup 0 m k = int (length (filter (\<lambda>d. d \<notin> set r) (D k)))"
    and dist: "distinct (r @ n # q)" and zero: "set (r @ n # q) = {k \<in> ids. lookup 0 m k = 0}"
    and ord: "ordered_deps D r" by (auto simp: kahn_inv_def)
  have n: "n \<in> ids" "lookup 0 m n = 0" "n \<notin> set r" using dist zero by auto
  have split: "int (length (filter (\<lambda>d. d \<notin> set r) xs)) = int (length (filter (\<lambda>d. d \<notin> set (r @ [n])) xs)) + int (count_list xs n)"
    for xs using n(3) by (induction xs) auto
  have pre: "\<forall>x. int (count_list (lookup [] adj n) x) \<le> lookup 0 m x \<or> count_list (lookup [] adj n) x = 0"
    using adj deg split by simp
  from release_correct [OF rel pre] obtain P where
    m': "\<And>x. lookup 0 m' x = lookup 0 m x - int (count_list (lookup [] adj n) x)"
    and P: "q' = q @ P" "distinct P"
      "set P = {x \<in> set (lookup [] adj n). lookup 0 m x = int (count_list (lookup [] adj n) x)}" by blast
  have deg': "lookup 0 m' k = int (length (filter (\<lambda>d. d \<notin> set (r @ [n])) (D k)))" if "k \<in> ids" for k
    using m' [of k] deg [OF that] adj that split [of "D k"] by simp
  have inP: "x \<in> set P \<longleftrightarrow> x \<in> ids \<and> lookup 0 m x \<noteq> 0 \<and> lookup 0 m' x = 0" for x
  proof -
    have "x \<in> set (lookup [] adj n) \<longleftrightarrow> count_list (lookup [] adj n) x \<noteq> 0" by (simp add: count_list_0_iff)
    with P(3) adj m' [of x] show ?thesis by (auto split: if_splits)
  qed
  have stay: "lookup 0 m' k = 0" if "k \<in> ids" "lookup 0 m k = 0" for k
    using that(2) m' [of k] deg' [OF that(1)] by linarith
  have "set (r @ n # q) \<inter> set P = {}" using inP zero by auto
  with dist P(1,2) have "distinct ((r @ [n]) @ q')" by auto
  moreover have "set ((r @ [n]) @ q') = {k \<in> ids. lookup 0 m' k = 0}"
    using P(1) inP zero stay by auto
  moreover have "set (D n) \<subseteq> set r"
    using deg [OF n(1)] n(2) by (auto simp: filter_empty_conv)
  ultimately show ?thesis
    using deg' ordered_deps_snoc [OF ord] by (simp add: kahn_inv_def)
qed

lemma kahn_correct:
  assumes "kahn_inv ids D q m r" and "\<forall>n \<in> ids. \<forall>k. count_list (lookup [] adj n) k = (if k \<in> ids then count_list (D k) n else 0)"
  shows "distinct (kahn adj q m r) \<and> set (kahn adj q m r) \<subseteq> ids \<and> ordered_deps D (kahn adj q m r)
    \<and> (\<forall>k \<in> ids - set (kahn adj q m r). \<exists>d \<in> set (D k). d \<notin> set (kahn adj q m r))"
  using assms
proof (induction adj q m r rule: kahn.induct)
  case (1 adj m r)
  from 1(1) have deg: "\<And>k. k \<in> ids \<Longrightarrow> lookup 0 m k = int (length (filter (\<lambda>d. d \<notin> set r) (D k)))"
    and dist: "distinct r" and zero: "set r = {k \<in> ids. lookup 0 m k = 0}" and ord: "ordered_deps D r"
    unfolding kahn_inv_def append_Nil2 by blast+
  have "\<exists>d \<in> set (D k). d \<notin> set r" if k: "k \<in> ids - set r" for k
  proof -
    from k zero have "lookup 0 m k \<noteq> 0" by blast
    with deg [of k] k have "filter (\<lambda>d. d \<notin> set r) (D k) \<noteq> []" by auto
    then show ?thesis by (auto simp: filter_empty_conv)
  qed
  moreover have "set r \<subseteq> ids" using zero by blast
  ultimately show ?case using dist ord by simp
next
  case (2 adj n q m r)
  obtain m' q' where rel: "release (lookup [] adj n) m q = (m', q')" by fastforce
  have n: "n \<in> ids" using 2(2) unfolding kahn_inv_def by fastforce
  have "kahn_inv ids D q' m' (r @ [n])"
    by (rule kahn_step [OF 2(2) bspec [OF 2(3) n] rel])
  from 2(1) [OF rel [symmetric] this 2(3)] show ?case by (simp add: rel)
qed

section \<open>Admission accepts exactly the acyclic graphs\<close>

definition stage_graph_ok :: "stage_config list \<Rightarrow> bool" where
  "stage_graph_ok stages =
     (distinct (map sc_id stages) \<and> (\<forall>s \<in> set stages. set (sc_depends_on s) \<subseteq> sc_id ` set stages)
      \<and> (\<forall>k. \<not> (named_edge stages)\<^sup>+\<^sup>+ k k))"

lemma set_graph_edges: "(k, d) \<in> set (graph_edges stages) \<longleftrightarrow> named_edge stages k d"
  by (auto simp: graph_edges_def named_edge_def)

lemma duplicate_errors_none: "duplicate_errors stages = [] \<longleftrightarrow> distinct (map sc_id stages)"
proof -
  have "duplicate_errors stages = [] \<longleftrightarrow> (\<forall>i. length (filter (\<lambda>s. sc_id s = i) stages) \<le> 1)"
  proof -
    have "i \<notin> sc_id ` set stages \<Longrightarrow> filter (\<lambda>s. sc_id s = i) stages = []" for i
      by (auto simp: filter_empty_conv)
    then have "i \<notin> sc_id ` set stages \<Longrightarrow> length (filter (\<lambda>s. sc_id s = i) stages) \<le> 1" for i by simp
    then have "(\<forall>i \<in> sc_id ` set stages. length (filter (\<lambda>s. sc_id s = i) stages) \<le> 1)
      \<longleftrightarrow> (\<forall>i. length (filter (\<lambda>s. sc_id s = i) stages) \<le> 1)" by blast
    moreover have "duplicate_errors stages = []
      \<longleftrightarrow> (\<forall>i \<in> sc_id ` set stages. length (filter (\<lambda>s. sc_id s = i) stages) \<le> 1)"
      by (simp add: duplicate_errors_def filter_empty_conv not_less)
    ultimately show ?thesis by simp
  qed
  also have "\<dots> \<longleftrightarrow> distinct (map sc_id stages)"
  proof (induction stages)
    case (Cons a stages)
    have "length (filter (\<lambda>s. sc_id s = i) (a # stages)) \<le> 1 \<longleftrightarrow>
      (if sc_id a = i then filter (\<lambda>s. sc_id s = i) stages = [] else length (filter (\<lambda>s. sc_id s = i) stages) \<le> 1)" for i
      by simp
    moreover have "filter (\<lambda>s. sc_id s = sc_id a) stages = [] \<longleftrightarrow> sc_id a \<notin> sc_id ` set stages"
      unfolding filter_empty_conv image_iff by metis
    ultimately have "(\<forall>i. length (filter (\<lambda>s. sc_id s = i) (a # stages)) \<le> 1) \<longleftrightarrow>
      sc_id a \<notin> sc_id ` set stages \<and> (\<forall>i. length (filter (\<lambda>s. sc_id s = i) stages) \<le> 1)"
      by (metis le_zero_eq length_0_conv linear)
    with Cons show ?case by simp
  qed simp
  finally show ?thesis .
qed

lemma build_graph_errors:
  "fst (build_graph stages) = [] \<longleftrightarrow> distinct (map sc_id stages)
     \<and> (\<forall>k d. named_edge stages k d \<longrightarrow> d \<in> sc_id ` set stages \<and> d \<noteq> k)"
proof -
  let ?ids = "uniq (map sc_id stages)"
  obtain er adj deg where b: "build_graph stages = (er, adj, deg)" by (cases "build_graph stages")
  then have "er = duplicate_errors stages @ concat (map (edge_errors ?ids) (graph_edges stages))"
    using fold_add_edge unfolding build_graph_def Let_def by blast
  moreover have "concat (map (edge_errors ?ids) es) = [] \<longleftrightarrow> (\<forall>(k, d) \<in> set es. d \<in> sc_id ` set stages \<and> d \<noteq> k)" for es
  proof (induction es)
    case (Cons e es)
    obtain k d where "e = (k, d)" by (cases e)
    with Cons show ?case by (simp del: set_map add: set_map [symmetric] split: if_splits)
  qed simp
  ultimately have "er = [] \<longleftrightarrow> distinct (map sc_id stages) \<and> (\<forall>(k, d) \<in> set (graph_edges stages). d \<in> sc_id ` set stages \<and> d \<noteq> k)"
    by (simp only: append_is_Nil_conv duplicate_errors_none)
  moreover have "(\<forall>(k, d) \<in> set (graph_edges stages). P k d) \<longleftrightarrow> (\<forall>k d. named_edge stages k d \<longrightarrow> P k d)" for P
    by (auto simp: set_graph_edges [symmetric])
  ultimately show ?thesis unfolding b fst_conv by simp
qed

lemma edges_from:
  assumes "distinct (map sc_id stages)"
  shows "filter (\<lambda>(s, d). s = k) (graph_edges stages) = map (Pair k) (deps_in (stage_map stages) k)"
proof (cases "k \<in> sc_id ` set stages")
  case True
  then obtain s where s: "s \<in> set stages" "sc_id s = k" by blast
  then have d: "deps_in (stage_map stages) k = sc_depends_on s"
    using stage_map_distinct [OF assms s(1)] by (simp add: deps_in_def)
  have none: "k \<notin> sc_id ` set xs \<Longrightarrow> filter (\<lambda>(s, d). s = k) (graph_edges xs) = []" for xs
    by (auto simp: filter_empty_conv graph_edges_def)
  have own: "filter (\<lambda>(s, d). s = k) (map (Pair k) ds) = map (Pair k) ds" for ds by (induction ds) auto
  obtain xs ys where st: "stages = xs @ s # ys" using s(1) by (auto dest: split_list)
  with assms s(2) have "k \<notin> sc_id ` set xs" "k \<notin> sc_id ` set ys" by auto
  moreover have "graph_edges stages = graph_edges xs @ map (Pair k) (sc_depends_on s) @ graph_edges ys"
    by (simp add: graph_edges_def st s(2))
  ultimately show ?thesis by (simp add: none own d)
next
  case False
  then have "map_of (stage_map stages) k = None" by (simp add: stage_map_def map_of_amap_of_None)
  with False show ?thesis by (auto simp: deps_in_def filter_empty_conv graph_edges_def)
qed

lemma count_edges_swap:
  "count_list (map fst (filter (\<lambda>(s, d). d = n) es)) k = count_list (map snd (filter (\<lambda>(s, d). s = k) es)) n"
  by (induction es) auto

lemma build_graph_ok:
  assumes dist: "distinct (map sc_id stages)" and known: "\<forall>k d. named_edge stages k d \<longrightarrow> d \<in> sc_id ` set stages"
    and b: "build_graph stages = (er, adj, deg)"
  defines "D \<equiv> deps_in (stage_map stages)"
  shows "\<forall>n \<in> sc_id ` set stages. \<forall>k. count_list (lookup [] adj n) k = (if k \<in> sc_id ` set stages then count_list (D k) n else 0)"
    and "kahn_inv (sc_id ` set stages) D (map fst (filter (\<lambda>(_, v). v = 0) deg)) deg []"
proof -
  let ?ids = "uniq (map sc_id stages)" and ?E = "graph_edges stages"
  have known': "\<forall>(s, d) \<in> set ?E. d \<in> set ?ids"
    using known by (auto simp: set_graph_edges)
  note f = fold_add_edge [OF b [unfolded build_graph_def Let_def]]
  have adj: "lookup [] adj n = map fst (filter (\<lambda>(s, d). d = n) ?E)" if "n \<in> sc_id ` set stages" for n
  proof -
    have "lookup [] (map (\<lambda>i. (i, [] :: string list)) ?ids) n = []"
      by (simp add: lookup_def map_of_map_restrict restrict_map_def)
    moreover have "filter (\<lambda>(s, d). d = n \<and> n \<in> set ?ids) ?E = filter (\<lambda>(s, d). d = n) ?E"
      using that by (intro filter_cong) auto
    ultimately show ?thesis using f by simp
  qed
  have deg: "lookup 0 deg k = int (length (D k))" for k
  proof -
    have "lookup 0 (map (\<lambda>i. (i, 0 :: int)) ?ids) k = 0"
      by (simp add: lookup_def map_of_map_restrict restrict_map_def)
    moreover have "filter (\<lambda>(s, d). s = k \<and> d \<in> set ?ids) ?E = filter (\<lambda>(s, d). s = k) ?E"
      using known' by (intro filter_cong) auto
    ultimately show ?thesis using f edges_from [OF dist, of k] by (simp add: D_def)
  qed
  have noedge: "D k = []" if "k \<notin> sc_id ` set stages" for k
    using that by (simp add: D_def deps_in_def stage_map_def map_of_amap_of_None [THEN iffD2])
  show "\<forall>n \<in> sc_id ` set stages. \<forall>k. count_list (lookup [] adj n) k = (if k \<in> sc_id ` set stages then count_list (D k) n else 0)"
  proof (intro ballI allI)
    fix n k assume n: "n \<in> sc_id ` set stages"
    have "count_list (lookup [] adj n) k = count_list (D k) n"
      unfolding adj [OF n] count_edges_swap edges_from [OF dist] by (simp add: D_def comp_def)
    with noedge [of k] show "count_list (lookup [] adj n) k = (if k \<in> sc_id ` set stages then count_list (D k) n else 0)"
      by simp
  qed
  have keys: "map fst deg = ?ids"
  proof -
    have "\<forall>(s, d) \<in> set ?E. s \<in> fst ` set (map (\<lambda>i. (i, 0 :: int)) ?ids)"
      by (force simp: graph_edges_def)
    from fold_add_edge_keys [OF b [unfolded build_graph_def Let_def] this] show ?thesis by (simp add: comp_def)
  qed
  have z: "set (map fst (filter (\<lambda>(_, v). v = 0) deg)) = {k \<in> sc_id ` set stages. lookup 0 deg k = 0}"
  proof -
    have dk: "distinct (map fst deg)" and sk: "fst ` set deg = sc_id ` set stages"
      using keys distinct_uniq set_uniq by (metis, metis list.set_map)
    have "(k, 0) \<in> set deg \<longleftrightarrow> k \<in> sc_id ` set stages \<and> lookup 0 deg k = 0" for k
    proof -
      have "(k, 0) \<in> set deg \<longleftrightarrow> map_of deg k = Some 0" using dk by simp
      moreover have "k \<in> sc_id ` set stages \<longleftrightarrow> map_of deg k \<noteq> None"
        unfolding sk [symmetric] map_of_eq_None_iff by simp
      ultimately show ?thesis by (cases "map_of deg k") (simp_all add: lookup_def)
    qed
    moreover have "k \<in> set (map fst (filter (\<lambda>(_, v). v = 0) deg)) \<longleftrightarrow> (k, 0) \<in> set deg" for k
      by force
    ultimately show ?thesis by blast
  qed
  moreover have "distinct (map fst (filter (\<lambda>(_, v). v = 0) deg))"
    by (rule distinct_map_filter) (metis keys distinct_uniq)
  ultimately show "kahn_inv (sc_id ` set stages) D (map fst (filter (\<lambda>(_, v). v = 0) deg)) deg []"
    unfolding kahn_inv_def by (simp add: deg ordered_deps_def)
qed


lemma ordered_no_cycle:
  assumes "ordered_deps D r" "(\<lambda>k d. d \<in> set (D k))\<^sup>+\<^sup>+ k d" "k \<in> set r" "distinct r"
  shows "k \<noteq> d"
proof -
  have "\<forall>xs ys. r = xs @ k # ys \<longrightarrow> d \<in> set xs"
    using assms(2)
  proof (induction rule: tranclp_induct)
    case (base y)
    with assms(1) show ?case unfolding ordered_deps_def by blast
  next
    case (step y z)
    show ?case
    proof (intro allI impI)
      fix xs ys assume r: "r = xs @ k # ys"
      with step(3) have "y \<in> set xs" by blast
      then obtain us vs where x: "xs = us @ y # vs" by (auto dest: split_list)
      with r have "r = us @ y # (vs @ k # ys)" by simp
      with assms(1) step(2) have "z \<in> set us" unfolding ordered_deps_def by blast
      with x show "z \<in> set xs" by simp
    qed
  qed
  moreover obtain xs ys where "r = xs @ k # ys" using assms(3) by (auto dest: split_list)
  ultimately show ?thesis using assms(4) by auto
qed

lemma endless_has_cycle:
  assumes "finite U" "u \<in> U" and out: "\<And>k. k \<in> U \<Longrightarrow> \<exists>d \<in> U. E k d"
  shows "\<exists>k \<in> U. E\<^sup>+\<^sup>+ k k"
proof (rule ccontr)
  assume acy: "\<not> (\<exists>k \<in> U. E\<^sup>+\<^sup>+ k k)"
  let ?r = "{(d, k). k \<in> U \<and> d \<in> U \<and> E k d}"
  have fin: "finite ?r" by (rule finite_subset [of _ "U \<times> U"]) (use assms(1) in auto)
  have sub: "(x, y) \<in> ?r\<^sup>+ \<Longrightarrow> E\<^sup>+\<^sup>+ y x \<and> y \<in> U" for x y
  proof (induction rule: trancl_induct)
    case (base y)
    then show ?case by auto
  next
    case (step y z)
    then have "E z y" "z \<in> U" "E\<^sup>+\<^sup>+ y x" by auto
    then show ?case by (meson tranclp_into_tranclp2)
  qed
  have "acyclic ?r" unfolding acyclic_def using sub acy by blast
  with fin have "wf ?r" by (rule finite_acyclic_wf)
  then have "\<exists>z \<in> U. \<forall>y. (y, z) \<in> ?r \<longrightarrow> y \<notin> U"
    using assms(2) unfolding wf_eq_minimal by (elim allE [of _ U]) blast
  then obtain z where "z \<in> U" "\<And>y. y \<in> U \<Longrightarrow> \<not> E z y" by blast
  with out [of z] show False by blast
qed

lemma topo_ids_correct:
  assumes dist: "distinct (map sc_id stages)" and known: "\<forall>k d. named_edge stages k d \<longrightarrow> d \<in> sc_id ` set stages"
  defines "r \<equiv> topo_ids stages"
  shows "distinct r" and "set r \<subseteq> sc_id ` set stages" and "ordered_deps (deps_in (stage_map stages)) r"
    and "length r = length stages \<longleftrightarrow> set r = sc_id ` set stages"
    and "length r = length stages \<longleftrightarrow> (\<forall>k. \<not> (named_edge stages)\<^sup>+\<^sup>+ k k)"
proof -
  obtain er adj deg where b: "build_graph stages = (er, adj, deg)" by (cases "build_graph stages")
  let ?D = "deps_in (stage_map stages)" and ?ids = "sc_id ` set stages"
  have E: "named_edge stages = (\<lambda>k d. d \<in> set (?D k))"
    using stage_map_deps [OF dist] by (simp add: named_edge_def depends_edge_def fun_eq_iff)
  have r: "r = kahn adj (map fst (filter (\<lambda>(_, v). v = 0) deg)) deg []"
    by (simp add: r_def topo_ids_def b)
  note k = kahn_correct [OF build_graph_ok(2) [OF dist known b] build_graph_ok(1) [OF dist known b], folded r]
  show d: "distinct r" and sub: "set r \<subseteq> ?ids" and ord: "ordered_deps ?D r" using k by blast+
  have n: "length stages = card ?ids" using distinct_card [OF dist] by simp
  show len: "length r = length stages \<longleftrightarrow> set r = ?ids"
    using distinct_card [OF d] n sub by (metis List.finite_set card_subset_eq finite_imageI)
  show "length r = length stages \<longleftrightarrow> (\<forall>k. \<not> (named_edge stages)\<^sup>+\<^sup>+ k k)"
  proof
    assume "length r = length stages"
    then have all: "set r = ?ids" using len by simp
    show "\<forall>k. \<not> (named_edge stages)\<^sup>+\<^sup>+ k k"
    proof (intro allI notI)
      fix k assume c: "(named_edge stages)\<^sup>+\<^sup>+ k k"
      then have "k \<in> ?ids" by (induction rule: converse_tranclp_induct) (auto simp: named_edge_def)
      with ordered_no_cycle [OF ord c [unfolded E] _ d] all show False by simp
    qed
  next
    assume acy: "\<forall>k. \<not> (named_edge stages)\<^sup>+\<^sup>+ k k"
    have "?ids - set r = {}"
    proof (rule ccontr)
      assume "?ids - set r \<noteq> {}"
      then obtain u where u: "u \<in> ?ids - set r" by blast
      have "\<exists>d \<in> ?ids - set r. named_edge stages k d" if kk: "k \<in> ?ids - set r" for k
      proof -
        from k have "\<forall>k \<in> ?ids - set r. \<exists>d \<in> set (?D k). d \<notin> set r" by (elim conjE)
        from bspec [OF this kk] obtain d where d: "d \<in> set (?D k)" "d \<notin> set r" by (elim bexE)
        from d(1) have e: "named_edge stages k d" by (simp only: E)
        then have "d \<in> ?ids" using known by blast
        with d(2) e show ?thesis by blast
      qed
      from endless_has_cycle [of "?ids - set r" u "named_edge stages", OF _ u this] acy show False by simp
    qed
    with sub have "set r = ?ids" by blast
    then show "length r = length stages" by (rule len [THEN iffD2])
  qed
qed

lemma position_less: "x \<in> set xs \<Longrightarrow> distinct (xs @ y # ys) \<Longrightarrow> position (xs @ y # ys) x < position (xs @ y # ys) y"
  by (induction xs) auto


lemma topoSort_result:
  assumes "topoSort stages = Inr ordered"
  shows "fst (build_graph stages) = []" and "length (topo_ids stages) = length stages"
    and "ordered = sort_key (\<lambda>s. position (topo_ids stages) (sc_id s)) stages"
proof -
  let ?ok = "length (topo_ids stages) = length stages"
  let ?cyc = "map (\<lambda>s. DependencyCycle (sc_id s))
     (filter (\<lambda>s. transitivelyDependsOn (sc_id s) (sc_id s) (stage_map stages)) stages)"
  have *: "fst (build_graph stages) = [] \<and> (\<not> ?ok \<longrightarrow> ?cyc = [])"
    "ordered = (if ?ok then sort_key (\<lambda>s. position (topo_ids stages) (sc_id s)) stages else stages)"
    using assms by (simp_all add: topoSort_def inspectStageGraph_def Let_def split: if_splits)
  then show e: "fst (build_graph stages) = []" by simp
  then have d: "distinct (map sc_id stages)"
    and known: "\<forall>k d. named_edge stages k d \<longrightarrow> d \<in> sc_id ` set stages"
    using build_graph_errors by blast+
  have E: "depends_edge (stage_map stages) = named_edge stages"
    using stage_map_deps [OF d] by (simp add: named_edge_def fun_eq_iff)
  show ok: ?ok
  proof (rule ccontr)
    assume n: "\<not> ?ok"
    then obtain k where c: "(named_edge stages)\<^sup>+\<^sup>+ k k" using topo_ids_correct(5) [OF d known] by blast
    then have "k \<in> sc_id ` set stages"
      by (induction rule: converse_tranclp_induct) (auto simp: named_edge_def)
    then obtain s where "s \<in> set stages" "k = sc_id s" by blast
    with c have "\<exists>s \<in> set stages. transitivelyDependsOn (sc_id s) (sc_id s) (stage_map stages)"
      by (auto simp: transitivelyDependsOn_correct E)
    with * n show False by (auto simp: filter_empty_conv)
  qed
  show "ordered = sort_key (\<lambda>s. position (topo_ids stages) (sc_id s)) stages" using *(2) ok by simp
qed

lemma topoSort_accepts: "(\<exists>ordered. topoSort stages = Inr ordered) \<longleftrightarrow> stage_graph_ok stages"
proof
  assume "\<exists>ordered. topoSort stages = Inr ordered"
  then obtain ordered where t: "topoSort stages = Inr ordered" by blast
  note e = topoSort_result(1) [OF t, unfolded build_graph_errors]
  then have known: "\<forall>k d. named_edge stages k d \<longrightarrow> d \<in> sc_id ` set stages" by blast
  have "set (sc_depends_on s) \<subseteq> sc_id ` set stages" if "s \<in> set stages" for s
    using known that unfolding named_edge_def by blast
  with e topoSort_result(2) [OF t] topo_ids_correct(5) [OF _ known] show "stage_graph_ok stages"
    unfolding stage_graph_ok_def by blast
next
  assume ok: "stage_graph_ok stages"
  then have d: "distinct (map sc_id stages)" and acy: "\<forall>k. \<not> (named_edge stages)\<^sup>+\<^sup>+ k k"
    and known: "\<forall>k d. named_edge stages k d \<longrightarrow> d \<in> sc_id ` set stages"
    unfolding stage_graph_ok_def named_edge_def by (blast, simp add: named_edge_def [abs_def], blast)
  have "fst (build_graph stages) = []"
    unfolding build_graph_errors using d known acy by (metis tranclp.r_into_trancl)
  moreover have "length (topo_ids stages) = length stages"
    using topo_ids_correct(5) [OF d known] acy by blast
  ultimately show "\<exists>ordered. topoSort stages = Inr ordered"
    by (simp add: topoSort_def inspectStageGraph_def Let_def)
qed

lemma sorted_key_split:
  "sorted (map f (xs @ y # ys)) \<Longrightarrow> x \<in> set (xs @ y # ys) \<Longrightarrow> f x < f y \<Longrightarrow> x \<in> set xs"
  for f :: "'a \<Rightarrow> nat"
  by (auto simp: sorted_append)

lemma topoSort_orders:
  assumes t: "topoSort stages = Inr ordered"
  shows "mset ordered = mset stages" and "ordered = xs @ s # ys \<Longrightarrow> set (sc_depends_on s) \<subseteq> sc_id ` set xs"
proof -
  let ?f = "\<lambda>s. position (topo_ids stages) (sc_id s)"
  note o = topoSort_result(3) [OF t]
  show m: "mset ordered = mset stages" by (simp add: o)
  assume e: "ordered = xs @ s # ys"
  note g = topoSort_result(1) [OF t, unfolded build_graph_errors]
  then have dist: "distinct (map sc_id stages)" and known: "\<forall>k d. named_edge stages k d \<longrightarrow> d \<in> sc_id ` set stages"
    by blast+
  note r = topo_ids_correct [OF dist known]
  have all: "set (topo_ids stages) = sc_id ` set stages" using r(4) topoSort_result(2) [OF t] by blast
  have mem: "set stages = set ordered" using m by (metis set_mset_mset)
  have s: "s \<in> set stages" using mem e by simp
  show "set (sc_depends_on s) \<subseteq> sc_id ` set xs"
  proof
    fix d assume d: "d \<in> set (sc_depends_on s)"
    have "sc_id s \<in> set (topo_ids stages)" using all s by simp
    then obtain us vs where u: "topo_ids stages = us @ sc_id s # vs" by (auto dest: split_list)
    have "deps_in (stage_map stages) (sc_id s) = sc_depends_on s"
      using stage_map_distinct [OF dist s] by (simp add: deps_in_def)
    moreover have "set (deps_in (stage_map stages) (sc_id s)) \<subseteq> set us"
      using r(3) u unfolding ordered_deps_def by (elim allE [of _ us] allE [of _ "sc_id s"] allE [of _ vs] impE)
    ultimately have "d \<in> set us" using d by auto
    then have less: "position (topo_ids stages) d < position (topo_ids stages) (sc_id s)"
      using r(1) position_less unfolding u by blast
    have "d \<in> sc_id ` set stages" using \<open>d \<in> set us\<close> u all by auto
    then obtain t where t: "t \<in> set stages" "d = sc_id t" by blast
    have "sorted (map ?f ordered)" by (simp add: o)
    then have "t \<in> set xs"
      using sorted_key_split [of ?f xs s ys t] less t mem e by simp
    with t(2) show "d \<in> sc_id ` set xs" by blast
  qed
qed


text \<open>C6. Dispatch admission is exact: the stage list is accepted if and only if its ids are unique,
  every dependency names a stage and no stage depends on itself along any chain; and an accepted
  list comes back as a permutation of itself in which every stage follows all its dependencies.
  Kahn's loop itself always ends (its termination is proved with the definition).\<close>

theorem topoSort_exact:
  "((\<exists>ordered. topoSort stages = Inr ordered) \<longleftrightarrow> stage_graph_ok stages)
   \<and> (\<forall>ordered. topoSort stages = Inr ordered \<longrightarrow> mset ordered = mset stages
        \<and> (\<forall>xs s ys. ordered = xs @ s # ys \<longrightarrow> set (sc_depends_on s) \<subseteq> sc_id ` set xs))"
  using topoSort_accepts topoSort_orders by blast

theorem topoSort_exact_witness:
  "topoSort [plain_stage ''b'' [''a''], plain_stage ''a'' []] = Inr [plain_stage ''a'' [], plain_stage ''b'' [''a'']]
   \<and> stage_graph_ok [plain_stage ''b'' [''a''], plain_stage ''a'' []]"
proof -
  have "topoSort [plain_stage ''b'' [''a''], plain_stage ''a'' []] = Inr [plain_stage ''a'' [], plain_stage ''b'' [''a'']]"
    by code_simp
  with topoSort_exact [of "[plain_stage ''b'' [''a''], plain_stage ''a'' []]"] show ?thesis by blast
qed

section \<open>Skipped branches\<close>

lemma skip_step_edge:
  "search_edge (skip_step x stages st) n c \<Longrightarrow> \<exists>s. map_of stages n = Some s \<and> c \<in> set (sc_depends_on s)"
  by (auto simp: search_edge_def skip_step_def split: option.splits stage_state.splits if_splits)

lemma skipped_correct:
  "isStageInSkippedBranch x stages st \<longleftrightarrow> search_accepts (skip_step x stages st) x"
  unfolding isStageInSkippedBranch_def
proof (rule search_correct [of "insert x (fst ` set stages \<union> set (concat (map (sc_depends_on \<circ> snd) stages)))"])
  let ?N = "insert x (fst ` set stages \<union> set (concat (map (sc_depends_on \<circ> snd) stages)))"
  show "c \<in> ?N" if e: "search_edge (skip_step x stages st) n c" for n c
  proof -
    from skip_step_edge [OF e] obtain s where "(n, s) \<in> set stages" "c \<in> set (sc_depends_on s)"
      by (auto dest: map_of_SomeD)
    then show ?thesis by fastforce
  qed
  have "card ?N \<le> Suc (card (fst ` set stages \<union> set (concat (map (sc_depends_on \<circ> snd) stages))))"
    by (rule card_insert_le_m1) simp_all
  also have "\<dots> \<le> Suc (card (fst ` set stages) + card (set (concat (map (sc_depends_on \<circ> snd) stages))))"
    using card_Un_le by (rule Suc_le_mono [THEN iffD2])
  also have "\<dots> \<le> Suc (length stages + length (concat (map (sc_depends_on \<circ> snd) stages)))"
    using card_length [of "map fst stages"] card_length [of "concat (map (sc_depends_on \<circ> snd) stages)"] by simp
  finally show "card ?N < length stages + length (concat (map (sc_depends_on \<circ> snd) stages)) + 2" by simp
qed simp_all

text \<open>A pending stage, or the stage asked about when it is itself skipped, is walked through.\<close>

definition walks :: "string \<Rightarrow> (string \<times> stage_config) list \<Rightarrow> (string \<times> stage_status) list \<Rightarrow> string \<Rightarrow> string \<Rightarrow> bool" where
  "walks x stages st n c =
     (\<exists>s. map_of stages n = Some s \<and> c \<in> set (sc_depends_on s)
        \<and> (stage_state_of st n = Some SPending
           \<or> stage_state_of st n = Some SSkipped \<and> (n = x \<or> \<not> conditional s)))"

text \<open>A stage is in a skipped branch exactly when some other stage skipped by its own condition
  is reached upstream through stages that are pending, or skipped without a condition of their
  own: running, completed or failed work in between breaks the chain.\<close>

lemma skipped_branch_exact:
  "isStageInSkippedBranch x stages st \<longleftrightarrow>
     (\<exists>n s. (walks x stages st)\<^sup>*\<^sup>* x n \<and> n \<noteq> x \<and> map_of stages n = Some s
        \<and> stage_state_of st n = Some SSkipped \<and> conditional s)"
proof -
  have e: "search_edge (skip_step x stages st) = walks x stages st"
    by (intro ext) (auto simp: search_edge_def skip_step_def walks_def split: option.splits stage_state.splits if_splits)
  have a: "skip_step x stages st n = Inl True \<longleftrightarrow>
      (\<exists>s. n \<noteq> x \<and> map_of stages n = Some s \<and> stage_state_of st n = Some SSkipped \<and> conditional s)" for n
    by (auto simp: skip_step_def split: option.splits stage_state.splits if_splits)
  show ?thesis unfolding skipped_correct search_accepts_def e a by blast
qed


section \<open>The frontier never deadlocks\<close>

definition settled_well :: "(string \<Rightarrow> bool) \<Rightarrow> (string \<Rightarrow> bool \<Rightarrow> bool option) \<Rightarrow> stage_config \<Rightarrow> stage_status \<Rightarrow> bool" where
  \<comment> \<open>a settled stage that holds nothing back: satisfied, not suspended, and not rejected\<close>
  "settled_well hasVerdict evaluate s ss =
     (isSatisfiedStageDependencyStatus (s_status ss) \<and> s_continuation ss = None
      \<and> (if sc_is_gate s then evaluate (sc_id s) True = Some True
         else hasVerdict (sc_id s) \<longrightarrow> evaluate (sc_id s) False \<noteq> Some False))"

lemma first_pending:
  assumes "\<exists>x \<in> set xs. P x"
  shows "\<exists>us x vs. xs = us @ x # vs \<and> P x \<and> (\<forall>u \<in> set us. \<not> P u)"
  using assms by (rule split_list_first_prop)

lemma frontier_progress:
  assumes t: "topoSort stages = Inr ordered"
    and present: "\<And>s. s \<in> set stages \<Longrightarrow> \<exists>ss. map_of st (sc_id s) = Some ss
       \<and> (isPendingStageStatus (s_status ss) \<or> settled_well hasVerdict evaluate s ss)"
    and free: "\<And>s. s \<in> set stages \<Longrightarrow> sc_id s \<notin> held \<Longrightarrow>
       set (sc_depends_on s) \<inter> (held \<union> set (dflt (sc_retry_to s) [])) = {}"
    and pending: "\<exists>s \<in> set stages. sc_id s \<notin> held
       \<and> (\<exists>ss. map_of st (sc_id s) = Some ss \<and> isPendingStageStatus (s_status ss))"
  shows "findAllReady hasVerdict evaluate stages st \<noteq> []"
proof -
  let ?P = "\<lambda>s. sc_id s \<notin> held \<and> (\<exists>ss. map_of st (sc_id s) = Some ss \<and> isPendingStageStatus (s_status ss))"
  have mem: "set ordered = set stages" using topoSort_orders(1) [OF t] by (metis set_mset_mset)
  with pending have "\<exists>s \<in> set ordered. ?P s" by simp
  from first_pending [OF this] obtain us s vs where o: "ordered = us @ s # vs" and p: "?P s"
    and before: "\<forall>u \<in> set us. \<not> ?P u" by blast
  have s: "s \<in> set stages" using mem o by auto
  have dist: "distinct (map sc_id stages)" using topoSort_result(1) [OF t] build_graph_errors by blast
  have ready: "dep_ready hasVerdict evaluate (stage_map stages) st s d" if d: "d \<in> set (sc_depends_on s)" for d
  proof -
    have "d \<in> sc_id ` set us" using topoSort_orders(2) [OF t o] d by blast
    then obtain u where u: "u \<in> set us" "d = sc_id u" by blast
    then have us: "u \<in> set stages" using mem o by auto
    have nh: "d \<notin> held" "d \<notin> set (dflt (sc_retry_to s) [])" using free [OF s] p d by blast+
    with present [OF us] before u obtain ss where ss: "map_of st d = Some ss" "settled_well hasVerdict evaluate u ss"
      by blast
    have "map_of (stage_map stages) d = Some u" using stage_map_distinct [OF dist us] u(2) by simp
    then show ?thesis using ss u(2) nh by (auto simp: dep_ready_def settled_well_def Let_def split: if_splits)
  qed
  from p obtain ss where "map_of st (sc_id s) = Some ss" "isPendingStageStatus (s_status ss)" by blast
  with ready s have "s \<in> set (findAllReady hasVerdict evaluate stages st)"
    by (simp add: findAllReady_def list_all_iff)
  then show ?thesis by auto
qed

end
