(* ===== verification/Scope.thy ===== *)
theory Scope
  imports Search
begin

text \<open>
  Declared scopes and their intersection
  (\<open>src/src/scheduler/sched_admission/scope-services.ts\<close>): lexical normalisation of
  project-relative paths, the parser of scope declarations, and the two product traversals
  that decide whether two scopes can name a common path.

  The traversals are instances of the memoised search of \<open>Search\<close>; an index into a pattern
  is represented by the remaining suffix.  Node's \<open>posix.matchesGlob\<close> is a parameter of every
  definition that calls it (\<open>mg path pattern\<close>); it answers false where the call raises.
\<close>

section \<open>Paths\<close>

definition replace_char :: "char \<Rightarrow> char \<Rightarrow> string \<Rightarrow> string" where
  "replace_char a b s = map (\<lambda>c. if c = a then b else c) s"

definition slashed :: "string \<Rightarrow> string" where
  \<comment> \<open>\<open>s.replace(/\\/g, '/')\<close>\<close>
  "slashed s = replace_char (CHR 0x5C) (CHR ''/'') s"

fun collapse_slashes :: "string \<Rightarrow> string" where
  "collapse_slashes (CHR ''/'' # CHR ''/'' # s) = collapse_slashes (CHR ''/'' # s)"
| "collapse_slashes (c # s) = c # collapse_slashes s"
| "collapse_slashes [] = []"

definition isAbsolute :: "string \<Rightarrow> bool" where
  "isAbsolute p = starts_with ''/'' p"

definition is_letter :: "char \<Rightarrow> bool" where
  "is_letter c = ((CHR ''A'' \<le> c \<and> c \<le> CHR ''Z'') \<or> (CHR ''a'' \<le> c \<and> c \<le> CHR ''z''))"

definition drive_path :: "string \<Rightarrow> bool" where
  \<comment> \<open>\<open>/^[A-Za-z]:\//\<close>\<close>
  "drive_path p = (case p of c # d # e # _ \<Rightarrow> is_letter c \<and> d = CHR '':'' \<and> e = CHR ''/'' | _ \<Rightarrow> False)"

text \<open>Node's \<open>posix.normalize\<close>, on path segments.\<close>

fun norm_segs :: "bool \<Rightarrow> string list \<Rightarrow> string list \<Rightarrow> string list" where
  "norm_segs up acc [] = rev acc"
| "norm_segs up acc (s # ss) =
     (if s = [] \<or> s = ''.'' then norm_segs up acc ss
      else if s = ''..'' then
        (case acc of
           x # xs \<Rightarrow> if x \<noteq> ''..'' then norm_segs up xs ss
                      else if up then norm_segs up (s # acc) ss else norm_segs up acc ss
         | [] \<Rightarrow> if up then norm_segs up [s] ss else norm_segs up [] ss)
      else norm_segs up (s # acc) ss)"

definition posix_normalize :: "string \<Rightarrow> string" where
  "posix_normalize p =
     (if p = [] then ''.''
      else let abs = isAbsolute p; trailing = ends_with ''/'' p;
               body = join_with ''/'' (norm_segs (\<not> abs) [] (split_on (CHR ''/'') p))
           in if body = [] then (if abs then ''/'' else if trailing then ''./'' else ''.'')
              else (if abs then ''/'' else []) @ body @ (if trailing then ''/'' else []))"

definition normalizedProjectPath :: "string \<Rightarrow> string option" where
  "normalizedProjectPath value =
     (let normalized = posix_normalize (slashed (trim value))
      in if normalized = [] \<or> normalized = ''.'' \<or> normalized = ''..'' \<or> starts_with ''../'' normalized
            \<or> isAbsolute normalized \<or> drive_path normalized
         then None else Some normalized)"

definition normalizedProjectContentPath :: "string \<Rightarrow> string option" where
  "normalizedProjectContentPath value =
     (case normalizedProjectPath value of
        None \<Rightarrow> None
      | Some path \<Rightarrow> if ''.git'' \<in> set (split_on (CHR ''/'') path) then None else Some path)"

section \<open>Scope declarations\<close>

datatype scope_segment =
    SLiteral string
  | SWildcard string
  | SGlobstar bool

datatype scope_reason = EmptyEntry | NotProjectRelative | TraversesOutside

datatype parsed_scope =
    ScopeExact string string
  | ScopeTree string string
  | ScopeGlob string string "scope_segment list"
  | ScopeUnknown string scope_reason

fun glob_index :: "string \<Rightarrow> nat option" where
  \<comment> \<open>\<open>s.search(/[*!?[{]|[+@]\(/)\<close>\<close>
  "glob_index [] = None"
| "glob_index (c # s) =
     (if c \<in> {CHR ''*'', CHR ''!'', CHR ''?'', CHR ''['', CHR ''{''}
         \<or> (c \<in> {CHR ''+'', CHR ''@''} \<and> starts_with ''('' s)
      then Some 0 else map_option Suc (glob_index s))"

fun complex_glob :: "string \<Rightarrow> bool" where
  \<comment> \<open>\<open>/[![{]|[+@?*]\(/.test(s)\<close>\<close>
  "complex_glob [] = False"
| "complex_glob (c # s) =
     (c \<in> {CHR ''!'', CHR ''['', CHR ''{''}
      \<or> (c \<in> {CHR ''+'', CHR ''@'', CHR ''?'', CHR ''*''} \<and> starts_with ''('' s)
      \<or> complex_glob s)"

definition scopeSegments :: "string \<Rightarrow> scope_segment list" where
  "scopeSegments path =
     map (\<lambda>s. if s = ''**'' then SGlobstar False
               else if glob_index s \<noteq> None then SWildcard s else SLiteral s)
       (split_on (CHR ''/'') path)"

definition strip_slash :: "string \<Rightarrow> string" where
  \<comment> \<open>\<open>s.replace(/\/$/, '')\<close>\<close>
  "strip_slash s = (if ends_with ''/'' s then butlast s else s)"

definition before_last_slash :: "string \<Rightarrow> string" where
  \<comment> \<open>the part before the last slash, empty when there is none\<close>
  "before_last_slash s = join_with ''/'' (butlast (split_on (CHR ''/'') s))"

definition parseDeclaredScope :: "string \<Rightarrow> parsed_scope" where
  "parseDeclaredScope rawValue =
     (let raw = trim rawValue; slashNormalized = collapse_slashes (slashed raw)
      in if slashNormalized = [] then ScopeUnknown raw EmptyEntry
         else if isAbsolute slashNormalized \<or> drive_path slashNormalized
         then ScopeUnknown raw NotProjectRelative
         else if ''..'' \<in> set (split_on (CHR ''/'') slashNormalized)
         then ScopeUnknown raw TraversesOutside
         else
           let explicitDirectory = ends_with ''/'' slashNormalized \<or> ends_with ''/.'' slashNormalized
           in (case map_option strip_slash (normalizedProjectPath slashNormalized) of
                 None \<Rightarrow> ScopeUnknown raw EmptyEntry
               | Some normalized \<Rightarrow>
                   if normalized = [] then ScopeUnknown raw EmptyEntry
                   else (case glob_index normalized of
                           Some i \<Rightarrow> ScopeGlob raw (before_last_slash (take i normalized)) (scopeSegments normalized)
                         | None \<Rightarrow> if explicitDirectory then ScopeTree raw normalized
                                   else ScopeExact raw normalized)))"

definition literalTreeCapabilityRoot :: "parsed_scope \<Rightarrow> string option" where
  "literalTreeCapabilityRoot scope =
     (case scope of
        ScopeExact _ v \<Rightarrow> Some v
      | ScopeTree _ v \<Rightarrow> Some v
      | ScopeUnknown _ _ \<Rightarrow> None
      | ScopeGlob raw _ _ \<Rightarrow>
          (case normalizedProjectPath raw of
             None \<Rightarrow> None
           | Some pattern \<Rightarrow>
               if \<not> ends_with ''/**'' pattern then None
               else let base = take (length pattern - 3) pattern
                    in if base \<noteq> [] \<and> glob_index base = None then Some base else None))"

section \<open>Wildcard segments\<close>

definition is_wild :: "char \<Rightarrow> bool" where
  "is_wild c = (c = CHR ''*'' \<or> c = CHR ''?'')"

fun rest_unless_star :: "string \<Rightarrow> string" where
  "rest_unless_star [] = []"
| "rest_unless_star (c # s) = (if c = CHR ''*'' then c # s else s)"

fun wild_step :: "string \<times> string \<times> bool \<Rightarrow> bool + (string \<times> string \<times> bool) list" where
  "wild_step (left, right, consumed) =
     (if left = [] \<and> right = [] then Inl consumed
      else Inr (
        (case left of c # s \<Rightarrow> if c = CHR ''*'' then [(s, right, consumed)] else [] | [] \<Rightarrow> []) @
        (case right of c # s \<Rightarrow> if c = CHR ''*'' then [(left, s, consumed)] else [] | [] \<Rightarrow> []) @
        (case (left, right) of
           (a # _, b # _) \<Rightarrow>
             if \<not> is_wild a \<and> \<not> is_wild b \<and> a \<noteq> b then []
             else if \<not> consumed \<and> ((a = CHR ''.'' \<and> is_wild b) \<or> (b = CHR ''.'' \<and> is_wild a)) then []
             else [(rest_unless_star left, rest_unless_star right, True)]
         | _ \<Rightarrow> [])))"

definition wildcardSegmentsIntersect :: "string \<Rightarrow> string \<Rightarrow> bool" where
  "wildcardSegmentsIntersect left right =
     search wild_step (2 * (length left + 1) * (length right + 1) + 1) (left, right, False)"

section \<open>Segment languages\<close>

fun segmentsMayIntersect :: "(string \<Rightarrow> string \<Rightarrow> bool) \<Rightarrow> scope_segment \<Rightarrow> scope_segment \<Rightarrow> bool" where
  "segmentsMayIntersect mg (SGlobstar d) (SGlobstar d') = True"
| "segmentsMayIntersect mg (SGlobstar d) (SLiteral v) = (d \<or> \<not> starts_with ''.'' v)"
| "segmentsMayIntersect mg (SGlobstar d) (SWildcard v) = (d \<or> \<not> starts_with ''.'' v)"
| "segmentsMayIntersect mg (SLiteral v) (SGlobstar d) = (d \<or> \<not> starts_with ''.'' v)"
| "segmentsMayIntersect mg (SWildcard v) (SGlobstar d) = (d \<or> \<not> starts_with ''.'' v)"
| "segmentsMayIntersect mg (SLiteral v) (SLiteral w) = (v = w)"
| "segmentsMayIntersect mg (SLiteral v) (SWildcard w) = mg v w"
| "segmentsMayIntersect mg (SWildcard v) (SLiteral w) = mg w v"
| "segmentsMayIntersect mg (SWildcard v) (SWildcard w) =
     (complex_glob v \<or> complex_glob w \<or> wildcardSegmentsIntersect v w)"

fun is_globstar :: "scope_segment \<Rightarrow> bool" where
  "is_globstar (SGlobstar _) = True"
| "is_globstar _ = False"

fun lang_step :: "(string \<Rightarrow> string \<Rightarrow> bool) \<Rightarrow> scope_segment list \<times> scope_segment list \<Rightarrow>
    bool + (scope_segment list \<times> scope_segment list) list" where
  "lang_step mg (left, right) =
     (if left = [] \<and> right = [] then Inl True
      else Inr (
        (case left of a # s \<Rightarrow> if is_globstar a then [(s, right)] else [] | [] \<Rightarrow> []) @
        (case right of b # s \<Rightarrow> if is_globstar b then [(left, s)] else [] | [] \<Rightarrow> []) @
        (case (left, right) of
           (a # s, b # t) \<Rightarrow>
             if segmentsMayIntersect mg a b
             then [(if is_globstar a then left else s, if is_globstar b then right else t)] else []
         | _ \<Rightarrow> [])))"

definition languagesIntersect ::
  "(string \<Rightarrow> string \<Rightarrow> bool) \<Rightarrow> scope_segment list \<Rightarrow> scope_segment list \<Rightarrow> bool" where
  "languagesIntersect mg left right =
     search (lang_step mg) ((length left + 1) * (length right + 1) + 1) (left, right)"

definition literal_path :: "string \<Rightarrow> scope_segment list" where
  "literal_path v = map SLiteral (split_on (CHR ''/'') v)"

definition languageSegments :: "parsed_scope \<Rightarrow> scope_segment list" where
  "languageSegments scope =
     (case scope of
        ScopeExact _ v \<Rightarrow> literal_path v @ [SGlobstar True]
      | ScopeTree _ v \<Rightarrow> literal_path v @ [SGlobstar True]
      | ScopeUnknown _ _ \<Rightarrow> []
      | ScopeGlob _ _ segments \<Rightarrow>
          (case literalTreeCapabilityRoot scope of
             Some base \<Rightarrow> scopeSegments base @ [SGlobstar True]
           | None \<Rightarrow> segments))"

definition scopeMatchesProjectPath :: "(string \<Rightarrow> string \<Rightarrow> bool) \<Rightarrow> parsed_scope \<Rightarrow> string \<Rightarrow> bool" where
  "scopeMatchesProjectPath mg scope path =
     (case scope of
        ScopeUnknown _ _ \<Rightarrow> True
      | ScopeGlob raw _ _ \<Rightarrow>
          (if literalTreeCapabilityRoot scope = None
           then (case normalizedProjectPath raw of
                   None \<Rightarrow> False
                 | Some pattern \<Rightarrow> pattern \<noteq> [] \<and> mg path pattern)
           else languagesIntersect mg (languageSegments scope) (literal_path path))
      | _ \<Rightarrow> languagesIntersect mg (languageSegments scope) (literal_path path))"

section \<open>The wildcard traversal decides intersection\<close>

text \<open>
  The language of a wildcard segment: a star stands for any characters, a question mark for
  one, and neither introduces a leading dot (\<open>first\<close> marks the first character of a segment).
\<close>

fun wild_matches :: "string \<Rightarrow> string \<Rightarrow> bool \<Rightarrow> bool" where
  "wild_matches [] s first = (s = [])"
| "wild_matches (x # p) s first =
     (if x = CHR ''*'' then wild_matches p s first \<or>
        (case s of [] \<Rightarrow> False
         | c # s' \<Rightarrow> \<not> (first \<and> c = CHR ''.'') \<and> wild_matches (x # p) s' False)
      else (case s of [] \<Rightarrow> False
            | c # s' \<Rightarrow> (if x = CHR ''?'' then \<not> (first \<and> c = CHR ''.'') else c = x)
                        \<and> wild_matches p s' False))"

definition consumes :: "char \<Rightarrow> char \<Rightarrow> bool \<Rightarrow> bool" where
  "consumes x c first = (if is_wild x then \<not> (first \<and> c = CHR ''.'') else c = x)"

lemma wild_matches_Cons:
  "wild_matches (x # p) (c # s) first \<longleftrightarrow>
     (x = CHR ''*'' \<and> wild_matches p (c # s) first)
     \<or> (consumes x c first \<and> wild_matches (rest_unless_star (x # p)) s False)"
  by (auto simp: consumes_def is_wild_def)

lemma wild_matches_Nil: "wild_matches (x # p) [] first \<longleftrightarrow> x = CHR ''*'' \<and> wild_matches p [] first"
  by auto

declare wild_matches.simps(2) [simp del]

lemma dot_not_wild [simp]: "\<not> is_wild (CHR ''.'')"
  by (simp add: is_wild_def)

lemma suffix_rest: "suffix (rest_unless_star p) p"
  by (cases p) (auto simp: suffix_ConsI)

lemma wild_step_suffixes:
  assumes "search_edge wild_step (p, q, c) (p', q', c')"
  shows "suffix p' p \<and> suffix q' q"
  using assms suffix_rest
  by (auto simp: search_edge_def suffix_ConsI split: list.splits if_splits)

lemma card_suffixes: "card {p. suffix p (s :: 'a list)} = length s + 1"
proof -
  have "card (set (suffixes s)) = length (suffixes s)"
    by (rule distinct_card) (rule distinct_suffixes)
  then show ?thesis by (simp add: set_suffixes_eq)
qed

lemma finite_suffixes: "finite {p. suffix p (s :: 'a list)}"
  by (metis List.finite_set set_suffixes_eq)

lemma wild_search:
  "wildcardSegmentsIntersect left right \<longleftrightarrow> search_accepts wild_step (left, right, False)"
  unfolding wildcardSegmentsIntersect_def
proof (rule search_correct)
  let ?N = "{p. suffix p left} \<times> {q. suffix q right} \<times> (UNIV :: bool set)"
  show "finite ?N" by (simp add: finite_suffixes)
  show "(left, right, False) \<in> ?N" by simp
  show "card ?N < 2 * (length left + 1) * (length right + 1) + 1"
    by (simp add: card_cartesian_product card_suffixes)
  show "c \<in> ?N" if "n \<in> ?N" and "search_edge wild_step n c" for n c
    using that wild_step_suffixes
    by (cases n; cases c) (auto dest: wild_step_suffixes intro: suffix_order.trans)
qed

lemma common_char:
  assumes "is_wild a \<or> is_wild b \<or> a = b"
    and "\<not> (first \<and> ((a = CHR ''.'' \<and> is_wild b) \<or> (b = CHR ''.'' \<and> is_wild a)))"
  shows "\<exists>c. consumes a c first \<and> consumes b c first"
proof (cases "is_wild a")
  case True
  show ?thesis
  proof (cases "is_wild b")
    case True
    with \<open>is_wild a\<close> show ?thesis by (intro exI [of _ "CHR ''x''"]) (simp add: consumes_def)
  next
    case False
    with \<open>is_wild a\<close> assms show ?thesis by (intro exI [of _ b]) (auto simp: consumes_def)
  qed
next
  case False
  with assms show ?thesis by (intro exI [of _ a]) (auto simp: consumes_def)
qed

definition common_match :: "string \<times> string \<times> bool \<Rightarrow> string \<Rightarrow> bool" where
  "common_match = (\<lambda>(p, q, consumed) s. (consumed \<or> s \<noteq> []) \<and>
     wild_matches p s (\<not> consumed) \<and> wild_matches q s (\<not> consumed))"

lemma wild_edge_sound:
  assumes "search_edge wild_step n m" and "common_match m s"
  shows "\<exists>s. common_match n s"
proof -
  obtain p q c where n: "n = (p, q, c)" by (cases n)
  from assms(1) consider
      (l) p' where "p = CHR ''*'' # p'" "m = (p', q, c)"
    | (r) q' where "q = CHR ''*'' # q'" "m = (p, q', c)"
    | (both) a p' b q' where "p = a # p'" "q = b # q'" "m = (rest_unless_star p, rest_unless_star q, True)"
        "is_wild a \<or> is_wild b \<or> a = b"
        "\<not> (\<not> c \<and> ((a = CHR ''.'' \<and> is_wild b) \<or> (b = CHR ''.'' \<and> is_wild a)))"
    unfolding n by (auto simp: search_edge_def split: list.splits if_splits)
  then show ?thesis
  proof cases
    case l
    with assms(2) have "common_match n s"
      by (cases s) (auto simp: n common_match_def wild_matches_Cons wild_matches_Nil)
    then show ?thesis by blast
  next
    case r
    with assms(2) have "common_match n s"
      by (cases s) (auto simp: n common_match_def wild_matches_Cons wild_matches_Nil)
    then show ?thesis by blast
  next
    case both
    from common_char [OF both(4,5)] obtain ch where "consumes a ch (\<not> c)" "consumes b ch (\<not> c)" by blast
    with both assms(2) have "common_match n (ch # s)"
      by (auto simp: n common_match_def wild_matches_Cons simp del: rest_unless_star.simps)
    then show ?thesis by blast
  qed
qed

lemma wild_accepts_sound: "search_accepts wild_step n \<Longrightarrow> \<exists>s. common_match n s"
proof -
  assume "search_accepts wild_step n"
  then obtain m where m: "(search_edge wild_step)\<^sup>*\<^sup>* n m" "wild_step m = Inl True"
    by (auto simp: search_accepts_def)
  from m(1) show ?thesis
  proof (induction rule: converse_rtranclp_induct)
    case base
    from m(2) have "common_match m []"
      by (cases m) (auto simp: common_match_def split: if_splits)
    then show ?case by blast
  next
    case (step y z)
    then show ?case using wild_edge_sound by blast
  qed
qed

lemma accepts_edge: "search_edge ex n c \<Longrightarrow> search_accepts ex c \<Longrightarrow> search_accepts ex n"
  unfolding search_accepts_def by (meson converse_rtranclp_into_rtranclp)

lemma wild_accepts_complete:
  "common_match (p, q, c) s \<Longrightarrow> search_accepts wild_step (p, q, c)"
proof (induction "length p + length q + length s" arbitrary: p q c s rule: less_induct)
  case less
  show ?case
  proof (cases "p = [] \<and> q = []")
    case True
    with less.prems show ?thesis
      by (subst search_accepts_step) (auto simp: common_match_def)
  next
    case nonempty: False
    show ?thesis
    proof (cases "(\<exists>p'. p = CHR ''*'' # p' \<and> wild_matches p' s (\<not> c))")
      case True
      then obtain p' where p: "p = CHR ''*'' # p'" "wild_matches p' s (\<not> c)" by blast
      have "search_accepts wild_step (p', q, c)"
        by (rule less.hyps [of _ _ s]) (use less.prems p in \<open>auto simp: common_match_def\<close>)
      then show ?thesis by (rule accepts_edge [rotated]) (simp add: search_edge_def p)
    next
      case nol: False
      show ?thesis
      proof (cases "(\<exists>q'. q = CHR ''*'' # q' \<and> wild_matches q' s (\<not> c))")
        case True
        then obtain q' where q: "q = CHR ''*'' # q'" "wild_matches q' s (\<not> c)" by blast
        have "search_accepts wild_step (p, q', c)"
          by (rule less.hyps [of _ _ s]) (use less.prems q in \<open>auto simp: common_match_def\<close>)
        then show ?thesis by (rule accepts_edge [rotated]) (auto simp: search_edge_def q)
      next
        case nor: False
        have w: "wild_matches p s (\<not> c)" "wild_matches q s (\<not> c)"
          using less.prems by (auto simp: common_match_def)
        have "s \<noteq> []"
          using w nol nor nonempty by (cases p; cases q) (auto simp: wild_matches_Nil)
        then obtain ch s' where s: "s = ch # s'" by (cases s) auto
        from w s obtain a p' b q' where pq: "p = a # p'" "q = b # q'" by (cases p; cases q) auto
        have both: "consumes a ch (\<not> c)" "consumes b ch (\<not> c)"
          "wild_matches (rest_unless_star p) s' False" "wild_matches (rest_unless_star q) s' False"
          using w nol nor unfolding pq s wild_matches_Cons by auto
        have "length (rest_unless_star p) \<le> length p" "length (rest_unless_star q) \<le> length q"
          by (simp_all add: pq)
        then have "search_accepts wild_step (rest_unless_star p, rest_unless_star q, True)"
          by (intro less.hyps [of _ _ s']) (use both in \<open>auto simp: common_match_def s\<close>)
        moreover have "search_edge wild_step (p, q, c) (rest_unless_star p, rest_unless_star q, True)"
          using both(1,2) by (auto simp: search_edge_def pq consumes_def simp del: rest_unless_star.simps split: if_splits)
        ultimately show ?thesis by (blast intro: accepts_edge)
      qed
    qed
  qed
qed

text \<open>Two wildcard segments are reported as intersecting exactly when some non-empty file name
  matches both, under the segment language in which a wildcard never introduces a leading
  dot.  The memoised product traversal neither misses a common name nor invents one, for
  patterns of any length.\<close>

lemma wildcard_intersection_exact:
  "wildcardSegmentsIntersect left right \<longleftrightarrow>
     (\<exists>name. name \<noteq> [] \<and> wild_matches left name True \<and> wild_matches right name True)"
proof -
  have "wildcardSegmentsIntersect left right \<longleftrightarrow> (\<exists>s. common_match (left, right, False) s)"
    using wild_search wild_accepts_sound wild_accepts_complete by blast
  then show ?thesis by (auto simp: common_match_def)
qed

section \<open>Literal scopes\<close>

lemma lang_search:
  "languagesIntersect mg left right \<longleftrightarrow> search_accepts (lang_step mg) (left, right)"
  unfolding languagesIntersect_def
proof (rule search_correct)
  let ?N = "{p. suffix p left} \<times> {q. suffix q right}"
  show "finite ?N" by (simp add: finite_suffixes)
  show "(left, right) \<in> ?N" by simp
  show "card ?N < (length left + 1) * (length right + 1) + 1"
    by (simp add: card_cartesian_product card_suffixes)
  have step: "search_edge (lang_step mg) (p, q) (p', q') \<Longrightarrow> suffix p' p \<and> suffix q' q" for p q p' q'
    by (auto simp: search_edge_def suffix_ConsI split: list.splits if_splits)
  show "c \<in> ?N" if "n \<in> ?N" and "search_edge (lang_step mg) n c" for n c
    using that by (cases n; cases c) (auto dest: step intro: suffix_order.trans)
qed

abbreviation tree_of :: "string list \<Rightarrow> scope_segment list" where
  "tree_of xs \<equiv> map SLiteral xs @ [SGlobstar True]"

lemma accepts_tree_path:
  "search_accepts (lang_step mg) (tree_of xs, map SLiteral ys) \<longleftrightarrow> prefix xs ys"
proof (induction ys arbitrary: xs)
  case Nil
  have e: "search_accepts (lang_step mg) ([], [])" by (subst search_accepts_step) simp
  show ?case by (subst search_accepts_step; cases xs) (simp_all add: e)
next
  case (Cons y ys)
  have n: "search_accepts (lang_step mg) ([], map SLiteral (y # ys)) = False"
    by (subst search_accepts_step) simp
  show ?case
  proof (cases xs)
    case Nil
    with Cons [of "[]"] n show ?thesis by (subst search_accepts_step) simp
  next
    case (Cons x xs')
    with Cons.IH [of xs'] show ?thesis by (subst search_accepts_step) auto
  qed
qed

lemma accepts_trees:
  "search_accepts (lang_step mg) (tree_of xs, tree_of ys) \<longleftrightarrow> prefix xs ys \<or> prefix ys xs"
proof (induction ys arbitrary: xs)
  case Nil
  have e: "search_accepts (lang_step mg) ([], [])" by (subst search_accepts_step) simp
  have g: "search_accepts (lang_step mg) ([], [SGlobstar True])"
    by (subst search_accepts_step) (simp add: e)
  have "search_accepts (lang_step mg) (tree_of xs, [SGlobstar True])" for xs
  proof (induction xs)
    case Nil
    show ?case by (subst search_accepts_step) (simp add: g)
  next
    case (Cons x xs)
    then show ?case by (subst search_accepts_step) simp
  qed
  then show ?case by simp
next
  case (Cons y ys)
  show ?case
  proof (cases xs)
    case Nil
    have e: "search_accepts (lang_step mg) ([], [])" by (subst search_accepts_step) simp
    have "search_accepts (lang_step mg) ([SGlobstar True], tree_of zs)" for zs
    proof (induction zs)
      case Nil
      have "search_accepts (lang_step mg) ([SGlobstar True], [])"
        by (subst search_accepts_step) (simp add: e)
      then show ?case by (subst search_accepts_step) simp
    next
      case (Cons z zs)
      then show ?case by (subst search_accepts_step) simp
    qed
    from this [of "y # ys"] Nil show ?thesis by simp
  next
    case (Cons x xs')
    with Cons.IH [of xs'] show ?thesis by (subst search_accepts_step) auto
  qed
qed

abbreviation segs :: "string \<Rightarrow> string list" where
  "segs \<equiv> split_on (CHR ''/'')"

definition literal_scope :: "parsed_scope \<Rightarrow> string option" where
  "literal_scope sc = (case sc of ScopeExact _ v \<Rightarrow> Some v | ScopeTree _ v \<Rightarrow> Some v | _ \<Rightarrow> None)"

lemma literal_scope_segments:
  "literal_scope a = Some v \<Longrightarrow> languageSegments a = tree_of (segs v)"
  by (auto simp: literal_scope_def languageSegments_def literal_path_def split: parsed_scope.splits)

lemma literal_scope_matches:
  assumes "literal_scope a = Some v"
  shows "scopeMatchesProjectPath mg a path \<longleftrightarrow> prefix (segs v) (segs path)"
proof -
  have "scopeMatchesProjectPath mg a path = languagesIntersect mg (languageSegments a) (literal_path path)"
    using assms by (auto simp: literal_scope_def scopeMatchesProjectPath_def split: parsed_scope.splits)
  then show ?thesis
    by (simp add: literal_scope_segments [OF assms] literal_path_def lang_search accepts_tree_path)
qed

text \<open>A literal scope owns its node and everything below it, and nothing else: it matches a
  project path exactly when its segments are a prefix of the path's, and two literal scopes
  conflict exactly when one of them lies on or below the other.\<close>

lemma literal_scope_ownership:
  assumes "literal_scope a = Some v" and "literal_scope b = Some w"
  shows "(scopeMatchesProjectPath mg a path \<longleftrightarrow> prefix (segs v) (segs path))
    \<and> (languagesIntersect mg (languageSegments a) (languageSegments b)
        \<longleftrightarrow> prefix (segs v) (segs w) \<or> prefix (segs w) (segs v))"
  using literal_scope_matches [OF assms(1)] literal_scope_segments [OF assms(1)] literal_scope_segments [OF assms(2)]
  by (simp add: lang_search accepts_trees)

section \<open>Normalised paths stay inside the project\<close>

definition plain_segments :: "string list \<Rightarrow> bool" where
  "plain_segments ss = (\<forall>s \<in> set ss. s \<noteq> [] \<and> s \<noteq> ''.'' \<and> s \<noteq> ''..'' \<and> CHR ''/'' \<notin> set s)"

definition stack_ok :: "bool \<Rightarrow> string list \<Rightarrow> bool" where
  "stack_ok up acc = (\<exists>ts k. plain_segments ts \<and> acc = ts @ replicate k ''..'' \<and> (\<not> up \<longrightarrow> k = 0))"

lemma stack_push: "stack_ok up acc \<Longrightarrow> plain_segments [s] \<Longrightarrow> stack_ok up (s # acc)"
proof -
  assume "stack_ok up acc" and s: "plain_segments [s]"
  then obtain ts k where "plain_segments ts" "acc = ts @ replicate k ''..''" "\<not> up \<longrightarrow> k = 0"
    by (auto simp: stack_ok_def)
  with s show ?thesis unfolding stack_ok_def
    by (intro exI [of _ "s # ts"] exI [of _ k]) (auto simp: plain_segments_def)
qed

lemma stack_pop: "stack_ok up (x # xs) \<Longrightarrow> x \<noteq> ''..'' \<Longrightarrow> stack_ok up xs"
proof -
  assume "stack_ok up (x # xs)" and x: "x \<noteq> ''..''"
  then obtain ts k where t: "plain_segments ts" "x # xs = ts @ replicate k ''..''" "\<not> up \<longrightarrow> k = 0"
    by (auto simp: stack_ok_def)
  with x have "ts \<noteq> []" by (cases k) auto
  with t show ?thesis unfolding stack_ok_def
    by (intro exI [of _ "tl ts"] exI [of _ k]) (cases ts, auto simp: plain_segments_def)
qed

lemma stack_up: "stack_ok True acc \<Longrightarrow> acc = [] \<or> hd acc = ''..'' \<Longrightarrow> stack_ok True (''..'' # acc)"
proof -
  assume "stack_ok True acc" and h: "acc = [] \<or> hd acc = ''..''"
  then obtain ts k where t: "plain_segments ts" "acc = ts @ replicate k ''..''"
    by (auto simp: stack_ok_def)
  with h have "ts = []" by (cases ts) (auto simp: plain_segments_def)
  with t show ?thesis unfolding stack_ok_def
    by (intro exI [of _ "[]"] exI [of _ "Suc k"]) (simp add: plain_segments_def)
qed

lemma norm_segs_shape:
  "\<forall>s \<in> set ss. CHR ''/'' \<notin> set s \<Longrightarrow> stack_ok up acc \<Longrightarrow>
    \<exists>acc'. norm_segs up acc ss = rev acc' \<and> stack_ok up acc'"
proof (induction ss arbitrary: acc)
  case Nil
  then show ?case by auto
next
  case (Cons s ss)
  have IH: "\<exists>acc'. norm_segs up a ss = rev acc' \<and> stack_ok up acc'" if "stack_ok up a" for a
    using Cons that by simp
  consider "s = [] \<or> s = ''.''" | "s = ''..''" | "plain_segments [s]"
    using Cons.prems(1) by (auto simp: plain_segments_def)
  then show ?case
  proof cases
    case 2
    show ?thesis
    proof (cases acc)
      case Nil
      with 2 IH Cons.prems(2) stack_up [of "[]"] show ?thesis by (cases up) auto
    next
      case (Cons x xs)
      with 2 IH Cons.prems(2) stack_pop [of up x xs] stack_up [of acc] show ?thesis
        by (cases "x = ''..''"; cases up) auto
    qed
  next
    case 3
    with IH [OF stack_push [OF Cons.prems(2) 3]] show ?thesis by (simp add: plain_segments_def)
  qed (use IH Cons.prems(2) in auto)
qed

lemma split_no_sep: "\<forall>x \<in> set (split_on c s). c \<notin> set x"
  by (induction s) (auto split: list.splits)

lemma split_append_sep: "c \<notin> set x \<Longrightarrow> split_on c (x @ c # s) = x # split_on c s"
  by (induction x) auto

lemma split_plain: "c \<notin> set x \<Longrightarrow> split_on c x = [x]"
  by (induction x) auto

lemma split_join: "ss \<noteq> [] \<Longrightarrow> \<forall>x \<in> set ss. c \<notin> set x \<Longrightarrow> split_on c (join_with [c] ss) = ss"
proof (induction ss)
  case (Cons x xs)
  then show ?case by (cases xs) (auto simp: split_plain split_append_sep)
qed simp

lemma split_trailing: "split_on c (s @ [c]) = split_on c s @ [[]]"
proof (induction s)
  case (Cons x s)
  then show ?case by (cases "split_on c s") auto
qed simp

lemma join_Nil_iff: "plain_segments ss \<Longrightarrow> join_with sep ss = [] \<longleftrightarrow> ss = []"
  by (cases ss; cases "tl ss") (auto simp: plain_segments_def)

lemma plain_replicate_up:
  assumes "p = join_with ''/'' (replicate k ''..'' @ ts) @ t" and "t = [] \<or> t = ''/''"
    and "p \<noteq> ''..''" "\<not> starts_with ''../'' p"
  shows "k = 0"
proof (rule ccontr)
  assume "k \<noteq> 0"
  then obtain m where k: "k = Suc m" by (cases k) auto
  have "p = ''..'' @ (if replicate m ''..'' @ ts = [] then [] else ''/'' @ join_with ''/'' (replicate m ''..'' @ ts)) @ t"
    unfolding assms(1) k by (cases "replicate m ''..'' @ ts") auto
  with assms(2-4) show False by (auto simp: starts_with_def split: if_splits)
qed

lemma normalized_segments:
  assumes "normalizedProjectPath value = Some p"
  shows "\<not> isAbsolute p \<and> ''..'' \<notin> set (segs p) \<and> (''.'' \<in> set (segs p) \<longrightarrow> p = ''./'')"
proof -
  define q where "q = slashed (trim value)"
  from assms have p: "p = posix_normalize q" and not: "p \<noteq> []" "p \<noteq> ''.''" "p \<noteq> ''..''"
    "\<not> starts_with ''../'' p" "\<not> isAbsolute p"
    by (auto simp: normalizedProjectPath_def Let_def q_def split: if_splits)
  define ns where "ns = norm_segs (\<not> isAbsolute q) [] (segs q)"
  have "\<exists>acc'. ns = rev acc' \<and> stack_ok (\<not> isAbsolute q) acc'"
    unfolding ns_def by (rule norm_segs_shape) (auto simp: split_no_sep stack_ok_def plain_segments_def)
  then obtain acc' where acc': "ns = rev acc'" "stack_ok (\<not> isAbsolute q) acc'" by blast
  from acc'(2) obtain us k where us: "acc' = us @ replicate k ''..''" "plain_segments us"
    unfolding stack_ok_def by blast
  define ts where "ts = rev us"
  have ns: "ns = replicate k ''..'' @ ts" "plain_segments ts"
    using us acc'(1) by (simp_all add: ts_def plain_segments_def)
  from not(2) p have q: "q \<noteq> []" by (auto simp: posix_normalize_def)
  have shape: "p = (if join_with ''/'' ns = [] then (if isAbsolute q then ''/'' else if ends_with ''/'' q then ''./'' else ''.'')
      else (if isAbsolute q then ''/'' else []) @ join_with ''/'' ns @ (if ends_with ''/'' q then ''/'' else []))"
    using q by (simp add: p posix_normalize_def Let_def ns_def)
  have rel: "\<not> isAbsolute q"
    using shape not(5) by (auto simp: isAbsolute_def starts_with_def split: if_splits)
  show ?thesis
  proof (cases "join_with ''/'' ns = []")
    case True
    with shape rel not(2) have "p = ''./''" by (auto split: if_splits)
    with not(5) show ?thesis by simp
  next
    case False
    define t where "t = (if ends_with ''/'' q then ''/'' else [])"
    from shape False rel have pt: "p = join_with ''/'' (replicate k ''..'' @ ts) @ t" by (simp add: ns(1) t_def)
    have "k = 0" by (rule plain_replicate_up [OF pt _ not(3,4)]) (simp add: t_def)
    have nts: "ns = ts" using ns(1) \<open>k = 0\<close> by simp
    have p': "p = join_with ''/'' ts @ t" unfolding pt \<open>k = 0\<close> by simp
    have ts: "ts \<noteq> []" using False unfolding nts by (cases ts) simp_all
    have "segs (join_with ''/'' ts) = ts"
      using ts ns(2) by (intro split_join) (auto simp: plain_segments_def)
    then have "segs p = ts \<or> segs p = ts @ [[]]"
      by (auto simp: p' t_def split_trailing)
    then have "''..'' \<notin> set (segs p)" "''.'' \<notin> set (segs p)"
      using ns(2) unfolding plain_segments_def by fastforce+
    with not(5) show ?thesis by blast
  qed
qed

text \<open>A normalised project path stays inside the project: whatever text it was computed from,
  it is relative and no segment of it is the parent directory, so no declared scope, produced
  file or notification that went through the normaliser can name a file outside the project.
  The one path with a dot segment is the directory itself, \<open>./\<close>.\<close>

lemma normalized_path_contained:
  assumes "normalizedProjectPath value = Some p"
  shows "\<not> isAbsolute p \<and> ''..'' \<notin> set (segs p) \<and> (''.'' \<in> set (segs p) \<longrightarrow> p = ''./'')"
  by (rule normalized_segments [OF assms])

text \<open>The two spellings of the project directory are not treated alike: the entry \<open>.\<close> is refused
  as an empty scope (and an unknown scope conflicts with every path), while \<open>./\<close> is accepted as
  a directory scope whose value is a dot segment, which owns no path the normaliser returns
  for a file.\<close>

lemma dot_slash_scope_owns_nothing:
  assumes "normalizedProjectPath value = Some path" and "path \<noteq> ''./''"
  shows "parseDeclaredScope ''.'' = ScopeUnknown ''.'' EmptyEntry
    \<and> scopeMatchesProjectPath mg (parseDeclaredScope ''.'') path
    \<and> parseDeclaredScope ''./'' = ScopeTree ''./'' ''.''
    \<and> \<not> scopeMatchesProjectPath mg (parseDeclaredScope ''./'') path"
proof -
  have dot: "parseDeclaredScope ''.'' = ScopeUnknown ''.'' EmptyEntry" by code_simp
  have tree: "parseDeclaredScope ''./'' = ScopeTree ''./'' ''.''" by code_simp
  have "''.'' \<notin> set (segs path)" using normalized_segments [OF assms(1)] assms(2) by blast
  then have "\<not> prefix (segs ''.'') (segs path)"
    using split_plain [of "CHR ''/''" "''.''"] by (auto simp: prefix_def)
  then have "\<not> scopeMatchesProjectPath mg (ScopeTree ''./'' ''.'') path"
    by (simp add: literal_scope_matches literal_scope_def)
  with dot tree show ?thesis by (simp add: scopeMatchesProjectPath_def)
qed

end
