(* ===== verification/Coverage.thy ===== *)
theory Coverage
  imports Condition Frontier Scope
begin

text \<open>
  Static coverage of terminal owners
  (\<open>src/src/scheduler/sched_admission/condition-coverage.ts\<close>): the admission check that
  some terminal owner becomes eligible once the stage graph has settled.  The main theorem
  ties it to the evaluator the scheduler uses at run time.
\<close>

record terminal_declaration =
  td_status :: string
  td_path :: string

definition EMITTED_RESEARCH_DECISIONS :: "string list" where
  "EMITTED_RESEARCH_DECISIONS = [''ship'', ''stop_ceiling'']"

definition emitted_decision :: "cond_value \<Rightarrow> bool" where
  "emitted_decision v = (case v of VStr d \<Rightarrow> d \<in> set EMITTED_RESEARCH_DECISIONS | _ \<Rightarrow> False)"

definition excludes_continue :: "parsed_condition \<Rightarrow> terminal_declaration \<Rightarrow> bool" where
  "excludes_continue p decl =
     (if c_stageId p \<noteq> ''research'' then False
      else if c_field p = ''decision'' then
        (if c_op p = OpNe \<and> c_value p = VStr ''continue'' then True
         else c_op p = OpEq \<and> emitted_decision (c_value p))
      else case c_value p of
        VStr v \<Rightarrow>
          if c_op p \<noteq> OpEq then False
          else if c_field p = ''terminalPath'' then
            normalizedProjectPath v = normalizedProjectPath (td_path decl)
          else if c_field p = ''terminalStatus'' then v = td_status decl
          else False
      | _ \<Rightarrow> False)"

definition researchTerminalConditionExcludesContinue :: "string option \<Rightarrow> terminal_declaration \<Rightarrow> bool" where
  "researchTerminalConditionExcludesContinue condition decl =
     (if trim (dflt condition []) = [] then False
      else case parseCondition (dflt condition []) of
        Inl _ \<Rightarrow> False
      | Inr p \<Rightarrow> excludes_continue p decl)"

definition stage_states :: "stage_state list" where
  "stage_states = [SPending, SRunning, SComplete, SFailed, SSkipped]"

definition finiteStatusConditionDomainError :: "parsed_condition \<Rightarrow> cond_value option" where
  \<comment> \<open>the status literal that cannot occur\<close>
  "finiteStatusConditionDomainError p =
     (if c_field p \<noteq> ''status'' then None
      else case c_value p of
        VStr v \<Rightarrow> if v \<in> stage_state_name ` set stage_states then None else Some (VStr v)
      | v \<Rightarrow> Some v)"

section \<open>The assessment\<close>

datatype coverage_reason =
    OwnerMissing
  | UnparsableCondition string
  | NonStatusEvidence string
  | DependsOnTerminalOwner string
  | UnknownStage string
  | DomainTooLarge nat

type_synonym assignment = "(string \<times> stage_state) list"
type_synonym status_domains = "(string \<times> stage_state list) list"

record coverage_assessment =
  cov_checked :: bool
  cov_covers :: "bool option"
  cov_evaluated :: nat
  cov_domains :: status_domains
  cov_uncovered :: "assignment option"
  cov_reason :: "coverage_reason option"

definition not_checked :: "status_domains \<Rightarrow> coverage_reason \<Rightarrow> coverage_assessment" where
  "not_checked domains reason =
     \<lparr>cov_checked = False, cov_covers = None, cov_evaluated = 0, cov_domains = domains,
      cov_uncovered = None, cov_reason = Some reason\<rparr>"

definition statusConditionMatches :: "string \<Rightarrow> parsed_condition \<Rightarrow> bool" where
  "statusConditionMatches actual p =
     (case c_value p of
        VStr v \<Rightarrow> (case c_op p of OpEq \<Rightarrow> actual = v | OpNe \<Rightarrow> actual \<noteq> v | _ \<Rightarrow> False)
      | _ \<Rightarrow> False)"

definition owner_condition ::
  "(string \<times> stage_config) list \<Rightarrow> string list \<Rightarrow> stage_config \<Rightarrow> coverage_reason + parsed_condition" where
  "owner_condition byId ownerIds s =
     (case parseCondition (dflt (sc_condition s) []) of
        Inl _ \<Rightarrow> Inl (UnparsableCondition (sc_id s))
      | Inr p \<Rightarrow>
          if c_field p \<noteq> ''status'' then Inl (NonStatusEvidence (sc_id s))
          else if c_stageId p \<in> set ownerIds then Inl (DependsOnTerminalOwner (sc_id s))
          else if map_of byId (c_stageId p) = None then Inl (UnknownStage (sc_id s))
          else Inr p)"

fun owner_conditions ::
  "(string \<times> stage_config) list \<Rightarrow> string list \<Rightarrow> stage_config list \<Rightarrow> coverage_reason + parsed_condition list" where
  "owner_conditions byId ownerIds [] = Inr []"
| "owner_conditions byId ownerIds (s # ss) =
     rbind (owner_condition byId ownerIds s) (\<lambda>p.
       rbind (owner_conditions byId ownerIds ss) (\<lambda>ps. Inr (p # ps)))"

definition optional_stage :: "stage_config \<Rightarrow> bool" where
  "optional_stage s = (conditional s \<or> (\<not> sc_is_gate s \<and> dflt (sc_retry_to s) [] \<noteq> []))"

definition status_domain :: "stage_config \<Rightarrow> stage_state list" where
  "status_domain s = (if optional_stage s then [SComplete, SSkipped] else [SComplete])"

definition status_domains_of :: "(string \<times> stage_config) list \<Rightarrow> parsed_condition list \<Rightarrow> status_domains" where
  "status_domains_of byId ps =
     map (\<lambda>k. (k, case map_of byId k of Some s \<Rightarrow> status_domain s | None \<Rightarrow> []))
         (sort (uniq (map c_stageId ps)))"

definition assignment_count :: "status_domains \<Rightarrow> nat" where
  "assignment_count entries = foldl (\<lambda>n e. n * length (snd e)) 1 entries"

definition covered :: "parsed_condition list \<Rightarrow> assignment \<Rightarrow> bool" where
  "covered ps a = list_ex (\<lambda>p. (case map_of a (c_stageId p) of
     Some st \<Rightarrow> statusConditionMatches (stage_state_name st) p | None \<Rightarrow> False)) ps"

function visit ::
  "parsed_condition list \<Rightarrow> status_domains \<Rightarrow> assignment \<Rightarrow> nat \<times> assignment option \<Rightarrow> nat \<times> assignment option" where
  "visit ps [] a (n, un) =
     (if un \<noteq> None then (n, un) else (Suc n, if covered ps a then None else Some a))"
| "visit ps ((k, dm) # es) a (n, un) =
     (if un \<noteq> None then (n, un) else fold (\<lambda>st. visit ps es (a @ [(k, st)])) dm (n, un))"
  by pat_completeness auto
termination by (relation "measure (\<lambda>(ps, es, a, acc). length es)") auto

definition assessTerminalConditionCoverage :: "stage_config list \<Rightarrow> string list \<Rightarrow> coverage_assessment" where
  "assessTerminalConditionCoverage stages ownerIds =
     (let byId = stage_map stages;
          owners = List.map_filter (map_of byId) ownerIds
      in if length owners \<noteq> length ownerIds then not_checked [] OwnerMissing
         else if list_ex (\<lambda>s. \<not> conditional s) owners then
           \<lparr>cov_checked = True, cov_covers = Some True, cov_evaluated = 1, cov_domains = [],
            cov_uncovered = None, cov_reason = None\<rparr>
         else case owner_conditions byId ownerIds owners of
           Inl reason \<Rightarrow> not_checked [] reason
         | Inr ps \<Rightarrow>
             let entries = status_domains_of byId ps
             in if assignment_count entries > 4096 then not_checked entries (DomainTooLarge (assignment_count entries))
                else case visit ps entries [] (0, None) of
                  (n, un) \<Rightarrow>
                    \<lparr>cov_checked = True, cov_covers = Some (un = None), cov_evaluated = n,
                     cov_domains = entries, cov_uncovered = un, cov_reason = None\<rparr>)"

section \<open>The traversal visits every assignment\<close>

fun assignments :: "status_domains \<Rightarrow> assignment list" where
  "assignments [] = [[]]"
| "assignments ((k, dm) # es) = concat (map (\<lambda>st. map ((#) (k, st)) (assignments es)) dm)"

definition check_one :: "parsed_condition list \<Rightarrow> assignment \<Rightarrow> nat \<times> assignment option \<Rightarrow> nat \<times> assignment option" where
  "check_one ps a acc =
     (if snd acc \<noteq> None then acc else (Suc (fst acc), if covered ps a then None else Some a))"

lemma fold_check_stops: "un \<noteq> None \<Longrightarrow> fold (check_one ps) as (n, un) = (n, un)"
  by (induction as) (auto simp: check_one_def)

lemma visit_stops: "un \<noteq> None \<Longrightarrow> visit ps es a (n, un) = (n, un)"
  by (cases es) auto

lemma visit_assignments: "visit ps es a acc = fold (check_one ps) (map ((@) a) (assignments es)) acc"
proof (induction es arbitrary: a acc)
  case Nil
  show ?case by (cases acc) (auto simp: check_one_def)
next
  case (Cons e es)
  obtain k dm where e: "e = (k, dm)" by (cases e)
  obtain n un where acc: "acc = (n, un)" by (cases acc)
  show ?case
  proof (cases un)
    case (Some x)
    then show ?thesis by (simp add: acc e fold_check_stops)
  next
    case None
    have "fold (\<lambda>st. visit ps es (a @ [(k, st)])) dm acc'
        = fold (check_one ps) (map ((@) a) (concat (map (\<lambda>st. map ((#) (k, st)) (assignments es)) dm))) acc'" for acc'
      by (induction dm arbitrary: acc') (simp_all add: Cons.IH comp_def)
    with None show ?thesis by (simp add: acc e)
  qed
qed

lemma fold_check:
  "fold (check_one ps) as (n, None) = (n', un) \<Longrightarrow>
     un = find (\<lambda>a. \<not> covered ps a) as \<and> n' \<le> n + length as"
proof (induction as arbitrary: n)
  case (Cons a as)
  show ?case
  proof (cases "covered ps a")
    case True
    then have "check_one ps a (n, None) = (Suc n, None)" by (simp add: check_one_def)
    with Cons.prems have "fold (check_one ps) as (Suc n, None) = (n', un)" by (simp only: fold_simps(2))
    from Cons.IH [OF this] True show ?thesis by simp
  next
    case False
    then have "check_one ps a (n, None) = (Suc n, Some a)" by (simp add: check_one_def)
    with Cons.prems have "fold (check_one ps) as (Suc n, Some a) = (n', un)" by (simp only: fold_simps(2))
    then have "(Suc n, Some a) = (n', un)" by (simp only: fold_check_stops [of "Some a"] option.distinct simp_thms)
    with False show ?thesis by auto
  qed
qed simp

lemma length_assignments: "length (assignments es) = assignment_count es"
proof -
  have f: "foldl (\<lambda>n e. n * length (snd e)) m xs = m * assignment_count xs" for m and xs :: status_domains
    unfolding assignment_count_def
  proof (induction xs arbitrary: m)
    case (Cons x xs)
    show ?case by (simp add: Cons [of "m * length (snd x)"] Cons [of "length (snd x)"])
  qed simp
  show ?thesis
  proof (induction es)
    case (Cons e es)
    obtain k dm where e: "e = (k, dm)" by (cases e)
    have "length (concat (map (\<lambda>st. map ((#) (k, st)) (assignments es)) dm)) = length dm * assignment_count es"
      by (induction dm) (simp_all add: Cons)
    then show ?case using f [of "length dm" es] by (simp add: e assignment_count_def)
  qed (simp add: assignment_count_def)
qed

lemma assignments_iff:
  "a \<in> set (assignments es) \<longleftrightarrow> map fst a = map fst es \<and> list_all2 (\<lambda>(k, st) (k', dm). st \<in> set dm) a es"
proof (induction es arbitrary: a)
  case (Cons e es)
  note IH = Cons
  obtain k dm where e: "e = (k, dm)" by (cases e)
  show ?case
  proof (cases a)
    case (Cons b bs)
    obtain k' st where b: "b = (k', st)" by (cases b)
    have "a \<in> set (assignments (e # es)) \<longleftrightarrow> k' = k \<and> st \<in> set dm \<and> bs \<in> set (assignments es)"
      by (auto simp: e b Cons)
    with IH [of bs] show ?thesis by (auto simp: e b Cons)
  qed (auto simp: e)
qed simp

lemma function_assignment:
  "(\<And>k dm. (k, dm) \<in> set es \<Longrightarrow> f k \<in> set dm) \<Longrightarrow> map (\<lambda>(k, _). (k, f k)) es \<in> set (assignments es)"
  by (induction es) (auto simp: assignments_iff list_all2_map1 list_all2_same)


section \<open>Coverage is what the evaluator decides\<close>

definition status_facts :: "(string \<Rightarrow> stage_state) \<Rightarrow> run_facts" where
  "status_facts f = \<lparr>f_research = None,
     f_status = (\<lambda>sid. Inr [(''status'', JStr (stage_state_name (f sid)))]), f_verdict = (\<lambda>_. Inl ())\<rparr>"

definition settled_facts :: "stage_config list \<Rightarrow> run_facts \<Rightarrow> bool" where
  \<comment> \<open>every stage reports complete; a conditional stage, or a repair stage, complete or skipped\<close>
  "settled_facts stages facts =
     (\<forall>k s. map_of (stage_map stages) k = Some s \<longrightarrow>
        (\<exists>m st. f_status facts k = Inr m \<and> map_of m ''status'' = Some (JStr (stage_state_name st))
           \<and> (st = SComplete
              \<or> st = SSkipped \<and> (conditional s \<or> \<not> sc_is_gate s \<and> dflt (sc_retry_to s) [] \<noteq> []))))"

lemma settled_facts_domain:
  "settled_facts stages facts =
     (\<forall>k s. map_of (stage_map stages) k = Some s \<longrightarrow>
        (\<exists>m st. f_status facts k = Inr m \<and> map_of m ''status'' = Some (JStr (stage_state_name st))
           \<and> st \<in> set (status_domain s)))"
proof -
  have d: "st \<in> set (status_domain s) \<longleftrightarrow> st = SComplete \<or> st = SSkipped
      \<and> (conditional s \<or> \<not> sc_is_gate s \<and> dflt (sc_retry_to s) [] \<noteq> [])" for st s
    by (auto simp: status_domain_def optional_stage_def)
  show ?thesis unfolding d by (simp add: settled_facts_def)
qed

definition eligible :: "run_facts \<Rightarrow> stage_config \<Rightarrow> bool" where
  "eligible facts s = (\<not> conditional s \<or> evaluateCondition facts (dflt (sc_condition s) []))"

lemma names_not_numbers: "js_number (stage_state_name st) = NaN"
proof -
  have "\<forall>s \<in> set stage_states. js_number (stage_state_name s) = NaN" by code_simp
  moreover have "st \<in> set stage_states" by (cases st) (simp_all add: stage_states_def)
  ultimately show ?thesis by blast
qed

lemma compare_status:
  "compare_fact (JStr (stage_state_name st)) opr v
     = statusConditionMatches (stage_state_name st) \<lparr>c_stageId = k, c_field = fld, c_op = opr, c_value = v\<rparr>"
  by (cases v; cases opr)
     (simp_all add: statusConditionMatches_def typed_compare_def ordered_compare_def names_not_numbers)

lemma evaluate_status:
  assumes p: "parseCondition expr = Inr p" "c_field p = ''status''" "c_stageId p \<noteq> ''research''"
    and m: "f_status facts (c_stageId p) = Inr m" "map_of m ''status'' = Some (JStr (stage_state_name st))"
  shows "evaluateCondition facts expr = statusConditionMatches (stage_state_name st) p"
proof -
  obtain k fld opr v where e: "p = \<lparr>c_stageId = k, c_field = fld, c_op = opr, c_value = v\<rparr>" by (cases p)
  then show ?thesis
    using p m compare_status [of st opr v k fld]
    by (simp add: evaluateCondition_def readConditionFact_def)
qed

lemma owner_conditions_ok:
  "owner_conditions byId ids ss = Inr ps \<Longrightarrow>
     list_all2 (\<lambda>s p. parseCondition (dflt (sc_condition s) []) = Inr p \<and> c_field p = ''status''
       \<and> map_of byId (c_stageId p) \<noteq> None) ss ps"
proof (induction ss arbitrary: ps)
  case (Cons s ss)
  then obtain p qs where p: "owner_condition byId ids s = Inr p" "owner_conditions byId ids ss = Inr qs" "ps = p # qs"
    by auto
  from p(1) have "parseCondition (dflt (sc_condition s) []) = Inr p \<and> c_field p = ''status'' \<and> map_of byId (c_stageId p) \<noteq> None"
    by (auto simp: owner_condition_def split: sum.splits if_splits)
  with Cons.IH [OF p(2)] p(3) show ?case by simp
qed simp

lemma domains_keys: "fst ` set (status_domains_of byId ps) = c_stageId ` set ps"
  by (force simp: status_domains_of_def image_iff)

lemma domains_entry:
  "(k, dm) \<in> set (status_domains_of byId ps) \<Longrightarrow> map_of byId k = Some s \<Longrightarrow> dm = status_domain s"
  by (auto simp: status_domains_of_def)

lemma assignment_of_function:
  "c_stageId p \<in> fst ` set es \<Longrightarrow> map_of (map (\<lambda>(k, _). (k, f k)) es) (c_stageId p) = Some (f (c_stageId p))"
  by (induction es) auto

lemma covered_iff:
  assumes o: "list_all2 (\<lambda>s p. parseCondition (dflt (sc_condition s) []) = Inr p \<and> c_field p = ''status''
       \<and> map_of byId (c_stageId p) \<noteq> None) ss ps"
    and cnd: "\<forall>s \<in> set ss. conditional s"
    and res: "map_of byId ''research'' = None"
    and facts: "\<And>p. p \<in> set ps \<Longrightarrow> \<exists>m st. f_status facts (c_stageId p) = Inr m
        \<and> map_of m ''status'' = Some (JStr (stage_state_name st)) \<and> map_of a (c_stageId p) = Some st"
  shows "covered ps a \<longleftrightarrow> (\<exists>s \<in> set ss. eligible facts s)"
  using o cnd facts
proof (induction rule: list_all2_induct)
  case (Cons s ss p ps)
  from Cons.prems(2) [of p] obtain m st where st: "f_status facts (c_stageId p) = Inr m"
    "map_of m ''status'' = Some (JStr (stage_state_name st))" "map_of a (c_stageId p) = Some st" by auto
  have p: "parseCondition (dflt (sc_condition s) []) = Inr p" "c_field p = ''status''" "c_stageId p \<noteq> ''research''"
    using Cons.hyps(1) res by auto
  have "covered ps a \<longleftrightarrow> (\<exists>s \<in> set ss. eligible facts s)"
    by (rule Cons.IH) (use Cons.prems in auto)
  with evaluate_status [OF p st(1,2)] st(3) Cons.prems(1) show ?case
    by (auto simp: covered_def eligible_def)
qed (simp add: covered_def)


lemma assignment_member:
  assumes "a \<in> set (assignments es)"
  shows "fst ` set a = fst ` set es" and "map_of a k = Some st \<Longrightarrow> \<exists>dm. (k, dm) \<in> set es \<and> st \<in> set dm"
proof -
  have a: "map fst a = map fst es" "list_all2 (\<lambda>(k, st) (k', dm). st \<in> set dm) a es"
    using assms by (simp_all add: assignments_iff)
  then show "fst ` set a = fst ` set es" by (metis list.set_map)
  assume "map_of a k = Some st"
  then have "(k, st) \<in> set a" by (rule map_of_SomeD)
  then obtain i where i: "i < length a" "a ! i = (k, st)" unfolding in_set_conv_nth by blast
  then have l: "i < length es" using a(2) by (simp add: list_all2_lengthD [symmetric])
  have "fst (es ! i) = k" using a(1) i l by (metis fst_conv nth_map)
  moreover have "st \<in> set (snd (es ! i))" using list_all2_nthD [OF a(2) i(1)] i(2) by (cases "es ! i") auto
  ultimately show "\<exists>dm. (k, dm) \<in> set es \<and> st \<in> set dm" using l by (metis nth_mem prod.collapse)
qed

lemma all_covered_iff:
  fixes stages ids
  defines "byId \<equiv> stage_map stages"
  assumes o: "owner_conditions byId ids ss = Inr ps" and cnd: "\<forall>s \<in> set ss. conditional s"
    and res: "''research'' \<notin> sc_id ` set stages"
  shows "(\<forall>a \<in> set (assignments (status_domains_of byId ps)). covered ps a)
    \<longleftrightarrow> (\<forall>facts. settled_facts stages facts \<longrightarrow> (\<exists>s \<in> set ss. eligible facts s))"
proof -
  let ?es = "status_domains_of byId ps"
  note ok = owner_conditions_ok [OF o]
  have res': "map_of byId ''research'' = None" using res by (simp add: byId_def stage_map_def map_of_amap_of_None)
  have known: "map_of byId (c_stageId p) \<noteq> None" if "p \<in> set ps" for p
    using ok that by (auto simp: list_all2_conv_all_nth in_set_conv_nth)
  note ci = covered_iff [OF ok cnd res']
  have keys: "c_stageId p \<in> fst ` set ?es" if "p \<in> set ps" for p using that domains_keys by blast
  show ?thesis
  proof
    assume all: "\<forall>a \<in> set (assignments ?es). covered ps a"
    show "\<forall>facts. settled_facts stages facts \<longrightarrow> (\<exists>s \<in> set ss. eligible facts s)"
    proof (intro allI impI)
      fix facts assume "settled_facts stages facts"
      then have "\<forall>k. \<exists>st. \<forall>s. map_of byId k = Some s \<longrightarrow> (\<exists>m. f_status facts k = Inr m
          \<and> map_of m ''status'' = Some (JStr (stage_state_name st)) \<and> st \<in> set (status_domain s))"
        unfolding settled_facts_domain byId_def
      proof (intro allI)
        fix k assume all: "\<forall>k s. map_of (stage_map stages) k = Some s \<longrightarrow> (\<exists>m st. f_status facts k = Inr m
            \<and> map_of m ''status'' = Some (JStr (stage_state_name st)) \<and> st \<in> set (status_domain s))"
        show "\<exists>st. \<forall>s. map_of (stage_map stages) k = Some s \<longrightarrow> (\<exists>m. f_status facts k = Inr m
            \<and> map_of m ''status'' = Some (JStr (stage_state_name st)) \<and> st \<in> set (status_domain s))"
          using all [rule_format, of k] by (cases "map_of (stage_map stages) k") auto
      qed
      from choice [OF this] obtain f where f: "\<And>k s. map_of byId k = Some s \<Longrightarrow> \<exists>m. f_status facts k = Inr m
          \<and> map_of m ''status'' = Some (JStr (stage_state_name (f k))) \<and> f k \<in> set (status_domain s)"
        by blast
      have "f k \<in> set dm" if e: "(k, dm) \<in> set ?es" for k dm
      proof -
        have "k \<in> c_stageId ` set ps" using e domains_keys [of byId ps] by force
        then obtain s where s: "map_of byId k = Some s" using known by auto
        with f [OF s] domains_entry [OF e s] show ?thesis by blast
      qed
      then have "map (\<lambda>(k, _). (k, f k)) ?es \<in> set (assignments ?es)" by (rule function_assignment)
      with all have "covered ps (map (\<lambda>(k, _). (k, f k)) ?es)" by blast
      moreover have "covered ps (map (\<lambda>(k, _). (k, f k)) ?es) \<longleftrightarrow> (\<exists>s \<in> set ss. eligible facts s)"
      proof (rule ci)
        fix p assume p: "p \<in> set ps"
        then obtain s where "map_of byId (c_stageId p) = Some s" using known by blast
        with f assignment_of_function [OF keys [OF p]]
        show "\<exists>m st. f_status facts (c_stageId p) = Inr m \<and> map_of m ''status'' = Some (JStr (stage_state_name st))
            \<and> map_of (map (\<lambda>(k, _). (k, f k)) ?es) (c_stageId p) = Some st" by blast
      qed
      ultimately show "\<exists>s \<in> set ss. eligible facts s" by blast
    qed
  next
    assume all: "\<forall>facts. settled_facts stages facts \<longrightarrow> (\<exists>s \<in> set ss. eligible facts s)"
    show "\<forall>a \<in> set (assignments ?es). covered ps a"
    proof
      fix a assume a: "a \<in> set (assignments ?es)"
      let ?f = "\<lambda>k. dflt (map_of a k) SComplete"
      have "?f k \<in> set (status_domain s)" if s: "map_of byId k = Some s" for k s
      proof (cases "map_of a k")
        case (Some st)
        with assignment_member(2) [OF a Some] domains_entry [OF _ s] show ?thesis by auto
      qed (simp add: status_domain_def)
      then have "settled_facts stages (status_facts ?f)"
        unfolding settled_facts_domain byId_def [symmetric] status_facts_def by auto
      with all have "\<exists>s \<in> set ss. eligible (status_facts ?f) s" by blast
      moreover have "covered ps a \<longleftrightarrow> (\<exists>s \<in> set ss. eligible (status_facts ?f) s)"
      proof (rule ci)
        fix p assume p: "p \<in> set ps"
        have "c_stageId p \<in> fst ` set a" using keys [OF p] assignment_member(1) [OF a] by simp
        then obtain st where "map_of a (c_stageId p) = Some st" by (metis map_of_eq_None_iff not_None_eq)
        then show "\<exists>m st. f_status (status_facts ?f) (c_stageId p) = Inr m
            \<and> map_of m ''status'' = Some (JStr (stage_state_name st)) \<and> map_of a (c_stageId p) = Some st"
          by (simp add: status_facts_def)
      qed
      ultimately show "covered ps a" by blast
    qed
  qed
qed

lemma visit_result:
  assumes "visit ps es [] (0, None) = (n, un)"
  shows "un = None \<longleftrightarrow> (\<forall>a \<in> set (assignments es). covered ps a)" and "n \<le> assignment_count es"
    and "un = Some a \<Longrightarrow> a \<in> set (assignments es) \<and> \<not> covered ps a"
proof -
  have f: "fold (check_one ps) (assignments es) (0, None) = (n, un)"
    using assms unfolding visit_assignments by (simp add: map_idI)
  note r = fold_check [OF f]
  show "un = None \<longleftrightarrow> (\<forall>a \<in> set (assignments es). covered ps a)" using r by (auto simp: find_None_iff)
  show "n \<le> assignment_count es" using r by (simp add: length_assignments)
  show "un = Some a \<Longrightarrow> a \<in> set (assignments es) \<and> \<not> covered ps a" using r find_SomeD [of "\<lambda>a. \<not> covered ps a"] by auto
qed

lemma set_map_filter_option: "set (List.map_filter f xs) = {y. \<exists>x \<in> set xs. f x = Some y}"
  by (induction xs) (auto simp: List.map_filter_def)

lemma assessment_exact:
  assumes "cov_checked (assessTerminalConditionCoverage stages ids)" and "''research'' \<notin> sc_id ` set stages"
  shows "(cov_covers (assessTerminalConditionCoverage stages ids) = Some True \<longleftrightarrow>
      (\<forall>facts. settled_facts stages facts \<longrightarrow>
         (\<exists>k \<in> set ids. \<exists>s. map_of (stage_map stages) k = Some s \<and> eligible facts s)))
    \<and> cov_evaluated (assessTerminalConditionCoverage stages ids) \<le> 4096"
proof -
  let ?byId = "stage_map stages" and ?r = "assessTerminalConditionCoverage stages ids"
  let ?ss = "List.map_filter (map_of ?byId) ids"
  have own: "(\<exists>k \<in> set ids. \<exists>s. map_of ?byId k = Some s \<and> eligible facts s) \<longleftrightarrow> (\<exists>s \<in> set ?ss. eligible facts s)" for facts
    by (auto simp: set_map_filter_option)
  have len: "length ?ss = length ids"
    using assms(1) by (auto simp: assessTerminalConditionCoverage_def Let_def not_checked_def split: if_splits)
  show ?thesis
  proof (cases "list_ex (\<lambda>s. \<not> conditional s) ?ss")
    case True
    then show ?thesis unfolding own
      by (auto simp: assessTerminalConditionCoverage_def Let_def len list_ex_iff eligible_def)
  next
    case False
    then have cnd: "\<forall>s \<in> set ?ss. conditional s" by (simp add: list_ex_iff)
    obtain ps where ps: "owner_conditions ?byId ids ?ss = Inr ps"
      using assms(1) False len
      by (cases "owner_conditions ?byId ids ?ss") (simp_all add: assessTerminalConditionCoverage_def Let_def not_checked_def)
    let ?es = "status_domains_of ?byId ps"
    have small: "assignment_count ?es \<le> 4096"
      using assms(1) False len ps
      by (simp add: assessTerminalConditionCoverage_def Let_def not_checked_def split: if_splits)
    obtain n un where v: "visit ps ?es [] (0, None) = (n, un)" by (cases "visit ps ?es [] (0, None)")
    have r: "cov_covers ?r = Some (un = None)" "cov_evaluated ?r = n"
      using False len ps small v by (simp_all add: assessTerminalConditionCoverage_def Let_def)
    show ?thesis
      unfolding own r visit_result(1) [OF v] option.inject eq_True all_covered_iff [OF ps cnd assms(2)]
      using visit_result(2) [OF v] small by simp
  qed
qed

text \<open>C10. The coverage assessment is exact: whenever admission checks it, its verdict is that in
  every settled run - each stage complete, an optional one complete or skipped - the runtime
  evaluator makes some terminal owner eligible; and the check never evaluates more than the
  4096 assignments of its bound.  (The reserved pseudo-stage \<open>research\<close> is no stage.)\<close>

theorem coverage_exact:
  assumes "cov_checked (assessTerminalConditionCoverage stages ids)" and "''research'' \<notin> sc_id ` set stages"
  shows "(cov_covers (assessTerminalConditionCoverage stages ids) = Some True \<longleftrightarrow>
      (\<forall>facts. settled_facts stages facts \<longrightarrow>
         (\<exists>k \<in> set ids. \<exists>s. map_of (stage_map stages) k = Some s \<and> eligible facts s)))
    \<and> cov_evaluated (assessTerminalConditionCoverage stages ids) \<le> 4096"
  by (rule assessment_exact [OF assms])

definition demo_owners :: "stage_config list" where
  "demo_owners =
     [plain_stage ''build'' [],
      (plain_stage ''ship'' [''build''])\<lparr>sc_condition := Some ''build.status == complete''\<rparr>,
      (plain_stage ''stop'' [''build''])\<lparr>sc_condition := Some ''build.status == failed''\<rparr>]"

definition demo_facts :: run_facts where
  "demo_facts = \<lparr>f_research = None, f_status = (\<lambda>_. Inr [(''status'', JStr ''complete'')]), f_verdict = (\<lambda>_. Inl ())\<rparr>"

lemma demo_facts_settled: "settled_facts stages demo_facts"
proof -
  have "SComplete \<in> set (status_domain s)" "stage_state_name SComplete = ''complete''" for s
    by (simp_all add: status_domain_def)
  then show ?thesis by (auto simp: settled_facts_domain demo_facts_def intro!: exI [of _ SComplete])
qed

theorem coverage_exact_witness:
  "\<exists>k \<in> {''ship'', ''stop''}. \<exists>s. map_of (stage_map demo_owners) k = Some s \<and> eligible demo_facts s"
proof -
  have "cov_checked (assessTerminalConditionCoverage demo_owners [''ship'', ''stop''])"
    and c: "cov_covers (assessTerminalConditionCoverage demo_owners [''ship'', ''stop'']) = Some True"
    and r: "''research'' \<notin> sc_id ` set demo_owners" by code_simp+
  from coverage_exact [OF this(1) r] c demo_facts_settled show ?thesis by simp
qed

section \<open>Terminal owners wait while research continues\<close>

definition continuing :: "run_facts \<Rightarrow> bool" where
  \<comment> \<open>the policy decision says continue and names no terminal outcome\<close>
  "continuing facts =
     (\<exists>m. f_research facts = Some (Inr (JObj m)) \<and> map_of m ''decision'' = Some (JStr ''continue'')
        \<and> map_of m ''terminalPath'' \<in> {None, Some JNull} \<and> map_of m ''terminalStatus'' \<in> {None, Some JNull})"

lemma exclusion_sound:
  assumes "researchTerminalConditionExcludesContinue condition decl" and "continuing facts"
  shows "\<not> evaluateCondition facts (dflt condition [])"
proof -
  from assms(1) obtain p where p: "parseCondition (dflt condition []) = Inr p" "excludes_continue p decl"
    by (auto simp: researchTerminalConditionExcludesContinue_def split: if_splits sum.splits)
  from assms(2) obtain m where m: "f_research facts = Some (Inr (JObj m))" "map_of m ''decision'' = Some (JStr ''continue'')"
    "map_of m ''terminalPath'' \<in> {None, Some JNull}" "map_of m ''terminalStatus'' \<in> {None, Some JNull}"
    by (auto simp: continuing_def)
  have sid: "c_stageId p = ''research''" using p(2) by (auto simp: excludes_continue_def split: if_splits)
  have "\<not> compare_fact (own_field (JObj m) (c_field p)) (c_op p) (c_value p)"
  proof (cases "c_field p = ''decision''")
    case True
    with p(2) sid have "c_op p = OpNe \<and> c_value p = VStr ''continue'' \<or> c_op p = OpEq \<and> emitted_decision (c_value p)"
      by (auto simp: excludes_continue_def split: if_splits)
    with True m(2) show ?thesis
      by (cases "c_value p") (auto simp: own_field_def typed_compare_def emitted_decision_def EMITTED_RESEARCH_DECISIONS_def)
  next
    case False
    with p(2) sid have "c_field p \<in> {''terminalPath'', ''terminalStatus''}"
      by (auto simp: excludes_continue_def split: if_splits cond_value.splits)
    with m(3,4) show ?thesis by (auto simp: own_field_def)
  qed
  then show ?thesis using p(1) sid m(1) by (simp add: evaluateCondition_def readConditionFact_def)
qed

text \<open>The static exclusion test is sound for the evaluator: a terminal owner whose condition it
  accepts is never eligible while the research policy decision is \<open>continue\<close>.\<close>

lemma excluded_owner_waits:
  assumes "researchTerminalConditionExcludesContinue condition decl" and "continuing facts"
  shows "\<not> evaluateCondition facts (dflt condition [])"
  by (rule exclusion_sound [OF assms])

end
