(* ===== verification/Admission.thy ===== *)
theory Admission
  imports Coverage
begin

text \<open>
  Whole-proposal admission (\<open>inspectDispatchAdmission\<close> of
  \<open>src/src/scheduler/sched_admission/dispatch.ts\<close>, the scope warnings of \<open>frontier.ts\<close> and
  the retry topology of \<open>configuration.ts\<close>): what a planner's answer must satisfy before any of
  its stages runs.

  The findings of \<open>artifact-declarations.ts\<close>, which inspects the artifact contracts and the
  file system, are an argument here (\<open>Artifact_Declarations\<close> supplies them); an error is the constructor
  that builds its message.
\<close>

section \<open>Retry topology\<close>

text \<open>
  The first loop of \<open>normalizeStageContracts\<close>.  The stages are objects the map shares, so the
  model updates the list by position; the map holds the last stage of an id.
\<close>

definition last_index :: "stage_config list \<Rightarrow> string \<Rightarrow> nat option" where
  "last_index stages k = find (\<lambda>j. sc_id (stages ! j) = k) (rev [0 ..< length stages])"

definition link_gate :: "nat \<Rightarrow> string \<Rightarrow> stage_config list \<Rightarrow> stage_config list" where
  "link_gate i g stages =
     (case last_index stages g of
        None \<Rightarrow> stages
      | Some j \<Rightarrow>
          let marked = stages[j := (stages ! j)\<lparr>sc_is_gate := True\<rparr>]; repair = marked ! i
          in if g \<in> set (sc_depends_on repair) then marked
             else marked[i := repair\<lparr>sc_depends_on := sc_depends_on repair @ [g]\<rparr>])"

definition link_repair :: "nat \<Rightarrow> stage_config list \<Rightarrow> stage_config list" where
  "link_repair i stages =
     (if sc_is_gate (stages ! i) then stages
      else fold (link_gate i) (dflt (sc_retry_to (stages ! i)) []) stages)"

definition linkRetryGates :: "stage_config list \<Rightarrow> stage_config list" where
  "linkRetryGates stages = fold link_repair [0 ..< length stages] stages"

section \<open>Scope warnings\<close>

record scope_warning =
  w_component :: "string list"
  w_details :: "scope_conflict list"

definition conflict_pairs :: "stage_config list \<Rightarrow> scope_conflict list" where
  "conflict_pairs frontier =
     List.map_filter (\<lambda>(l, r). findScopeConflict (frontier ! l) (frontier ! r))
       (concat (map (\<lambda>l. map (Pair l) [Suc l ..< length frontier]) [0 ..< length frontier]))"

definition add_neighbour :: "string \<Rightarrow> string \<Rightarrow> (string \<times> string list) list \<Rightarrow> (string \<times> string list) list" where
  "add_neighbour a b adj =
     amap_set a (let ns = lookup [] adj a in if b \<in> set ns then ns else ns @ [b]) adj"

definition adjacency_of :: "stage_config list \<Rightarrow> (string \<times> string list) list" where
  "adjacency_of frontier =
     fold (\<lambda>c adj. add_neighbour (rightStageId c) (leftStageId c) (add_neighbour (leftStageId c) (rightStageId c) adj))
       (conflict_pairs frontier) (map (\<lambda>s. (sc_id s, [])) frontier)"

function component_loop :: "(string \<times> string list) list \<Rightarrow> string list \<Rightarrow> string list \<Rightarrow> string list" where
  "component_loop adj [] cmp = cmp"
| "component_loop adj (current # queue) cmp =
     (if current \<in> set cmp then component_loop adj queue cmp
      else component_loop adj (queue @ lookup [] adj current) (cmp @ [current]))"
  by pat_completeness auto

termination
proof (relation "measures [\<lambda>(adj, q, cmp). card (fst ` set adj - set cmp), \<lambda>(adj, q, cmp). length q]")
  fix adj :: "(string \<times> string list) list" and current :: string and queue cmp :: "string list"
  assume new: "current \<notin> set cmp"
  show "((adj, queue @ lookup [] adj current, cmp @ [current]), (adj, current # queue, cmp))
    \<in> measures [\<lambda>(adj, q, cmp). card (fst ` set adj - set cmp), \<lambda>(adj, q, cmp). length q]"
  proof (cases "current \<in> fst ` set adj")
    case True
    then have "card (fst ` set adj - set (cmp @ [current])) < card (fst ` set adj - set cmp)"
      using new by (intro psubset_card_mono) auto
    then show ?thesis by simp
  next
    case False
    then have "lookup [] adj current = []" using map_of_eq_None_iff [of adj current] by (simp add: lookup_def)
    moreover have "fst ` set adj - set (cmp @ [current]) = fst ` set adj - set cmp" using False by auto
    ultimately show ?thesis by simp
  qed
qed auto

fun components :: "(string \<times> string list) list \<Rightarrow> string list \<Rightarrow> string list \<Rightarrow> string list list" where
  "components adj visited [] = []"
| "components adj visited (s # ss) =
     (if s \<in> set visited \<or> lookup [] adj s = [] then components adj visited ss
      else let cmp = component_loop adj [s] [] in cmp # components adj (visited @ cmp) ss)"

definition frontier_warnings :: "stage_config list \<Rightarrow> scope_warning list" where
  "frontier_warnings frontier =
     map (\<lambda>cmp. \<lparr>w_component = cmp,
             w_details = filter (\<lambda>c. leftStageId c \<in> set cmp \<and> rightStageId c \<in> set cmp) (conflict_pairs frontier)\<rparr>)
       (components (adjacency_of frontier) [] (map sc_id frontier))"

definition open_frontier :: "stage_config list \<Rightarrow> stage_config list" where
  "open_frontier remaining =
     filter (\<lambda>s. list_all (\<lambda>d. d \<notin> sc_id ` set remaining) (sc_depends_on s)) remaining"

function warning_loop :: "stage_config list \<Rightarrow> scope_warning list" where
  "warning_loop remaining =
     (if open_frontier remaining = [] then []
      else frontier_warnings (open_frontier remaining)
           @ warning_loop (filter (\<lambda>s. sc_id s \<notin> sc_id ` set (open_frontier remaining)) remaining))"
  by pat_completeness auto
termination
proof (relation "measure length")
  fix remaining :: "stage_config list"
  assume "open_frontier remaining \<noteq> []"
  then obtain s where "s \<in> set (open_frontier remaining)" by (meson list.set_sel(1))
  moreover from this have "s \<in> set remaining" unfolding open_frontier_def by simp
  ultimately have "length (filter (\<lambda>s. sc_id s \<notin> sc_id ` set (open_frontier remaining)) remaining) < length remaining"
    by (intro length_filter_less [of s]) auto
  then show "(filter (\<lambda>s. sc_id s \<notin> sc_id ` set (open_frontier remaining)) remaining, remaining) \<in> measure length" by simp
qed simp

declare warning_loop.simps [simp del]

definition parallelScopeAdmissionWarnings :: "stage_config list \<Rightarrow> scope_warning list" where
  "parallelScopeAdmissionWarnings stages = warning_loop (map snd (stage_map stages))"

section \<open>Errors\<close>

datatype admission_error =
    ArtifactFinding json
  | GraphError graph_error
  | MissingRepairRoute string
  | ReservedResearchId string
  | ConditionUnparsable string condition_error
  | ResearchFactsOutsideResearch string
  | StatusLiteral string cond_value
  | DecisionLiteral string cond_value
  | TerminalStatusLiteral string cond_value
  | TerminalPathLiteral string cond_value
  | ScopeEntry string nat scope_reason
  | UnknownRetryGate string string
  | NotAGate string string
  | MissingRetryDependency string string
  | DuplicateTerminalPath string "string list"
  | ProducerCount string "string list"
  | OwnerAdmitsContinue string string
  | OwnerOwnsResearchResult string string
  | QuiescenceUncovered assignment
  | CriteriaMissing
  | UnknownCriterion string string
  | CriterionUnassigned string
  | CriterionGateWrites string
  | CriterionWithoutGate string "string option"
  | CriterionGateNotDownstream string

record criterion_discharge =
  d_criterionId :: string
  d_briefDigest :: string
  d_rest :: json

record brief_criteria =
  bc_digest :: string
  bc_ids :: "string list"

record admission_input =
  in_dispatched :: "stage_config list"
  in_base :: "stage_config list"
  in_terminal :: "(string \<times> string list) list option"
  in_research :: "string option option"
  \<comment> \<open>outside: no research mode; inside: the configured result file\<close>
  in_criteria :: "brief_criteria option"
  in_discharges :: "criterion_discharge list"

record admission_report =
  ar_pass :: bool
  ar_errors :: "admission_error list"
  ar_warnings :: "scope_warning list"
  ar_terminalOwners :: "(string \<times> string) list"
  ar_criterionGateRefs :: "(string \<times> string list) list"
  ar_criterionTerminalRefs :: "(string \<times> string list) list"
  ar_discharged :: "criterion_discharge list"
  ar_criteriaDigest :: "string option"

section \<open>Stage by stage\<close>

definition repair_stage :: "stage_config \<Rightarrow> bool" where
  "repair_stage s = (dflt (sc_retry_to s) [] \<noteq> [])"

definition repair_route :: "stage_config list \<Rightarrow> stage_config \<Rightarrow> bool" where
  "repair_route all gate =
     list_ex (\<lambda>r. \<not> sc_is_gate r \<and> \<not> sc_dynamic_dispatch r \<and> sc_id gate \<in> set (dflt (sc_retry_to r) [])) all"

definition research_literal_errors :: "(string \<times> string list) list \<Rightarrow> string \<Rightarrow> parsed_condition \<Rightarrow> admission_error list" where
  "research_literal_errors terminal sid p =
     (if c_stageId p \<noteq> ''research'' \<or> c_op p \<noteq> OpEq then []
      else if c_field p = ''decision'' then
        (if emitted_decision (c_value p) then [] else [DecisionLiteral sid (c_value p)])
      else if c_field p = ''terminalStatus'' then
        (if \<exists>v \<in> fst ` set terminal. c_value p = VStr v then [] else [TerminalStatusLiteral sid (c_value p)])
      else if c_field p = ''terminalPath'' then
        (if \<exists>v \<in> set (concat (map snd terminal)). c_value p = VStr v then [] else [TerminalPathLiteral sid (c_value p)])
      else [])"

definition condition_errors :: "admission_input \<Rightarrow> stage_config \<Rightarrow> admission_error list" where
  "condition_errors inp s =
     (if \<not> conditional s then []
      else case parseCondition (dflt (sc_condition s) []) of
        Inl e \<Rightarrow> [ConditionUnparsable (sc_id s) e]
      | Inr p \<Rightarrow>
          (if in_research inp = None \<and> c_stageId p = ''research'' then [ResearchFactsOutsideResearch (sc_id s)] else [])
          @ (case finiteStatusConditionDomainError p of None \<Rightarrow> [] | Some v \<Rightarrow> [StatusLiteral (sc_id s) v])
          @ research_literal_errors (dflt (in_terminal inp) []) (sc_id s) p)"

definition scope_errors :: "stage_config \<Rightarrow> admission_error list" where
  "scope_errors s =
     concat (map (\<lambda>(i, entry). case parseDeclaredScope entry of
                     ScopeUnknown _ reason \<Rightarrow> [ScopeEntry (sc_id s) i reason] | _ \<Rightarrow> [])
       (zip [0 ..< length (dflt (sc_scope s) [])] (dflt (sc_scope s) [])))"

definition retry_errors :: "(string \<times> stage_config) list \<Rightarrow> stage_config \<Rightarrow> admission_error list" where
  "retry_errors byId s =
     concat (map (\<lambda>g.
         (case map_of byId g of
            None \<Rightarrow> [UnknownRetryGate (sc_id s) g]
          | Some gate \<Rightarrow> if sc_is_gate gate then [] else [NotAGate (sc_id s) g])
         @ (if g \<in> set (sc_depends_on s) then [] else [MissingRetryDependency (sc_id s) g]))
       (uniq (dflt (sc_retry_to s) [])))"

definition stage_errors :: "admission_input \<Rightarrow> stage_config \<Rightarrow> admission_error list" where
  "stage_errors inp s =
     (let all = in_base inp @ in_dispatched inp
      in (if sc_is_gate s \<and> \<not> repair_route all s then [MissingRepairRoute (sc_id s)] else [])
         @ (if in_research inp \<noteq> None \<and> sc_id s = ''research'' then [ReservedResearchId (sc_id s)] else [])
         @ condition_errors inp s @ scope_errors s @ retry_errors (stage_map all) s)"

section \<open>Terminal owners\<close>

definition stageScopeOwnsPath :: "(string \<Rightarrow> string \<Rightarrow> bool) \<Rightarrow> stage_config \<Rightarrow> string \<Rightarrow> bool" where
  "stageScopeOwnsPath mg s rawPath =
     (case (normalizedProjectPath rawPath, sc_scope s) of
        (Some path, Some entries) \<Rightarrow>
          list_ex (\<lambda>entry. case parseDeclaredScope entry of
             ScopeUnknown _ _ \<Rightarrow> False
           | scope \<Rightarrow> scopeMatchesProjectPath mg scope path) entries
      | _ \<Rightarrow> False)"

definition terminal_declarations :: "admission_input \<Rightarrow> terminal_declaration list" where
  "terminal_declarations inp =
     concat (map (\<lambda>(st, paths). map (\<lambda>p. \<lparr>td_status = st, td_path = p\<rparr>) paths) (dflt (in_terminal inp) []))"

definition declaration_key :: "terminal_declaration \<Rightarrow> string" where
  "declaration_key d = dflt (normalizedProjectPath (td_path d)) (td_path d)"

definition declarations_by_path :: "terminal_declaration list \<Rightarrow> (string \<times> terminal_declaration list) list" where
  "declarations_by_path ds =
     fold (\<lambda>d m. amap_set (declaration_key d) (lookup [] m (declaration_key d) @ [d]) m) ds []"

definition duplicate_path_errors :: "terminal_declaration list \<Rightarrow> admission_error list" where
  "duplicate_path_errors ds =
     map (\<lambda>(p, rows). DuplicateTerminalPath p (map td_status rows))
       (filter (\<lambda>(p, rows). length rows > 1) (declarations_by_path ds))"

definition final_producers ::
  "(string \<Rightarrow> string \<Rightarrow> bool) \<Rightarrow> admission_input \<Rightarrow> string \<Rightarrow> stage_config list" where
  "final_producers mg inp rawPath =
     (let byId = stage_map (in_base inp @ in_dispatched inp);
          writers = filter (\<lambda>s. \<not> sc_is_gate s \<and> \<not> repair_stage s \<and> stageScopeOwnsPath mg s rawPath) (in_dispatched inp)
      in filter (\<lambda>s. \<not> list_ex (\<lambda>other. sc_id other \<noteq> sc_id s \<and> transitivelyDependsOn (sc_id other) (sc_id s) byId) writers)
           writers)"

definition DEFAULT_RESEARCH_RESULT_FILE :: string where
  "DEFAULT_RESEARCH_RESULT_FILE = ''docs/research_round_result.json''"

definition researchResultFile :: "string option \<Rightarrow> string" where
  \<comment> \<open>\<open>resolveResearchPaths(config).resultFile\<close>\<close>
  "researchResultFile configured =
     (case configured of
        None \<Rightarrow> DEFAULT_RESEARCH_RESULT_FILE
      | Some f \<Rightarrow> if slashed (trim f) = [] then DEFAULT_RESEARCH_RESULT_FILE else slashed (trim f))"

definition research_outputs :: "string option \<Rightarrow> string list" where
  "research_outputs configured =
     (case normalizedProjectPath (researchResultFile configured) of
        None \<Rightarrow> [] | Some f \<Rightarrow> [f, f @ ''.no_candidate.json''])"

record terminal_scan =
  ts_owners :: "(string \<times> string) list"
  ts_ids :: "string list"
  ts_checked :: "string list"
  ts_errors :: "admission_error list"

definition owner_errors ::
  "(string \<Rightarrow> string \<Rightarrow> bool) \<Rightarrow> admission_input \<Rightarrow> terminal_scan \<Rightarrow> terminal_declaration \<Rightarrow> stage_config \<Rightarrow> admission_error list" where
  "owner_errors mg inp ts decl owner =
     (case in_research inp of
        None \<Rightarrow> []
      | Some configured \<Rightarrow>
          (if researchTerminalConditionExcludesContinue (sc_condition owner) decl then []
           else [OwnerAdmitsContinue (sc_id owner) (td_path decl)])
          @ (if sc_id owner \<in> set (ts_checked ts) then []
             else map (OwnerOwnsResearchResult (sc_id owner))
                    (filter (stageScopeOwnsPath mg owner) (research_outputs configured))))"

definition scan_terminal ::
  "(string \<Rightarrow> string \<Rightarrow> bool) \<Rightarrow> admission_input \<Rightarrow> terminal_declaration \<Rightarrow> terminal_scan \<Rightarrow> terminal_scan" where
  "scan_terminal mg inp decl ts =
     (case final_producers mg inp (td_path decl) of
        [owner] \<Rightarrow>
          ts\<lparr>ts_owners := amap_set (td_path decl) (sc_id owner) (ts_owners ts),
             ts_ids := (if sc_id owner \<in> set (ts_ids ts) then ts_ids ts else ts_ids ts @ [sc_id owner]),
             ts_checked := (if in_research inp = None then ts_checked ts else sc_id owner # ts_checked ts),
             ts_errors := ts_errors ts @ owner_errors mg inp ts decl owner\<rparr>
      | owners \<Rightarrow> ts\<lparr>ts_errors := ts_errors ts @ [ProducerCount (td_path decl) (map sc_id owners)]\<rparr>)"

definition scan_terminals :: "(string \<Rightarrow> string \<Rightarrow> bool) \<Rightarrow> admission_input \<Rightarrow> terminal_scan" where
  "scan_terminals mg inp =
     fold (scan_terminal mg inp) (terminal_declarations inp)
       \<lparr>ts_owners = [], ts_ids = [], ts_checked = [], ts_errors = []\<rparr>"

definition quiescence_errors :: "admission_input \<Rightarrow> terminal_scan \<Rightarrow> admission_error list" where
  "quiescence_errors inp ts =
     (let ds = terminal_declarations inp
      in if ds \<noteq> [] \<and> length (ts_owners ts) = length ds then
           (let cov = assessTerminalConditionCoverage (in_base inp @ in_dispatched inp) (ts_ids ts)
            in if cov_checked cov \<and> cov_covers cov = Some False
               then [QuiescenceUncovered (dflt (cov_uncovered cov) [])] else [])
         else [])"

section \<open>Criteria\<close>

definition fill_refs :: "string list \<Rightarrow> stage_config \<Rightarrow> stage_config" where
  "fill_refs ids s =
     (if \<not> sc_dynamic_dispatch s \<and> \<not> repair_stage s \<and> sc_criterion_refs s = []
      then s\<lparr>sc_criterion_refs := ids\<rparr> else s)"

definition unknown_ref_errors :: "string list \<Rightarrow> stage_config list \<Rightarrow> admission_error list" where
  "unknown_ref_errors ids stages =
     concat (map (\<lambda>s. map (UnknownCriterion (sc_id s)) (filter (\<lambda>r. r \<notin> set ids) (sc_criterion_refs s))) stages)"

definition workers_of :: "stage_config list \<Rightarrow> string \<Rightarrow> stage_config list" where
  "workers_of stages c = filter (\<lambda>s. \<not> sc_is_gate s \<and> \<not> repair_stage s \<and> c \<in> set (sc_criterion_refs s)) stages"

definition gates_of :: "stage_config list \<Rightarrow> string \<Rightarrow> stage_config list" where
  "gates_of stages c = filter (\<lambda>s. sc_is_gate s \<and> c \<in> set (sc_criterion_refs s)) stages"

definition downstream :: "(string \<times> stage_config) list \<Rightarrow> stage_config list \<Rightarrow> stage_config \<Rightarrow> bool" where
  "downstream byId workers gate = list_ex (\<lambda>w. transitivelyDependsOn (sc_id gate) (sc_id w) byId) workers"

definition gate_hint :: "(string \<times> stage_config) list \<Rightarrow> stage_config list \<Rightarrow> stage_config list \<Rightarrow> string option" where
  "gate_hint byId stages workers =
     (case filter (\<lambda>s. sc_is_gate s \<and> sc_criterion_refs s = [] \<and> downstream byId workers s) stages of
        [g] \<Rightarrow> Some (sc_id g) | _ \<Rightarrow> None)"

definition criterion_errors ::
  "(string \<times> stage_config) list \<Rightarrow> stage_config list \<Rightarrow> string list \<Rightarrow> (string \<times> criterion_discharge) list \<Rightarrow>
   string \<Rightarrow> admission_error list" where
  "criterion_errors byId stages ownerIds discharged c =
     (let workers = workers_of stages c; gates = gates_of stages c;
          ordinary = filter (\<lambda>s. sc_id s \<notin> set ownerIds) workers
      in (if workers = [] \<and> gates = [] \<and> map_of discharged c = None then [CriterionUnassigned c] else [])
         @ (if workers = [] \<and> list_ex (\<lambda>g. dflt (sc_scope g) [] \<noteq> []) gates then [CriterionGateWrites c] else [])
         @ (if ordinary \<noteq> [] \<and> gates = [] then [CriterionWithoutGate c (gate_hint byId stages ordinary)]
            else if ordinary \<noteq> [] \<and> \<not> list_ex (downstream byId ordinary) gates
            then [CriterionGateNotDownstream c] else []))"

definition terminal_refs :: "stage_config list \<Rightarrow> string list \<Rightarrow> string list \<Rightarrow> (string \<times> string list) list" where
  "terminal_refs stages ownerIds criteria =
     fold (\<lambda>c m. fold (\<lambda>s m. amap_set (sc_id s) (lookup [] m (sc_id s) @ [c]) m)
                   (filter (\<lambda>s. sc_id s \<in> set ownerIds) (workers_of stages c)) m)
       criteria []"

section \<open>The report\<close>

definition inspectDispatchAdmission ::
  "(string \<Rightarrow> string \<Rightarrow> bool) \<Rightarrow> json list \<Rightarrow> admission_input \<Rightarrow> admission_report \<times> stage_config list" where
  \<comment> \<open>the report and the dispatched stages, whose empty criterion references it fills\<close>
  "inspectDispatchAdmission mg artifactFindings inp =
     (let all = in_base inp @ in_dispatched inp;
          ts = scan_terminals mg inp;
          criteria = (case in_criteria inp of None \<Rightarrow> [] | Some bc \<Rightarrow> bc_ids bc);
          discharged = amap_of d_criterionId (filter (\<lambda>d. Some (d_briefDigest d) = map_option bc_digest (in_criteria inp))
                         (in_discharges inp));
          stages = map (fill_refs (uniq criteria)) (in_dispatched inp);
          byId = stage_map (in_base inp @ stages);
          errors = map ArtifactFinding artifactFindings
            @ map GraphError (snd (inspectStageGraph all))
            @ concat (map (stage_errors inp) (in_dispatched inp))
            @ duplicate_path_errors (terminal_declarations inp)
            @ ts_errors ts @ quiescence_errors inp ts
            @ (if in_criteria inp \<noteq> None \<and> criteria = [] then [CriteriaMissing] else [])
            @ unknown_ref_errors criteria stages
            @ concat (map (criterion_errors byId stages (ts_ids ts) discharged) criteria)
      in (\<lparr>ar_pass = (errors = []), ar_errors = errors,
           ar_warnings = parallelScopeAdmissionWarnings (in_dispatched inp),
           ar_terminalOwners = ts_owners ts,
           ar_criterionGateRefs = fold (\<lambda>s. amap_set (sc_id s) (sc_criterion_refs s))
             (filter (\<lambda>s. sc_is_gate s \<and> sc_criterion_refs s \<noteq> []) stages) [],
           ar_criterionTerminalRefs = terminal_refs stages (ts_ids ts) criteria,
           ar_discharged = map snd discharged,
           ar_criteriaDigest = map_option bc_digest (in_criteria inp)\<rparr>, stages))"


section \<open>The retry topology\<close>

text \<open>A pass only marks gates and appends dependencies.\<close>

definition grows :: "stage_config \<Rightarrow> stage_config \<Rightarrow> bool" where
  "grows s t = (sc_id t = sc_id s \<and> sc_retry_to t = sc_retry_to s \<and> (sc_is_gate s \<longrightarrow> sc_is_gate t)
     \<and> set (sc_depends_on s) \<subseteq> set (sc_depends_on t))"

lemma grows_refl [simp]: "grows s s"
  by (simp add: grows_def)

lemma all_grow_refl [simp]: "list_all2 grows xs xs"
  by (simp add: list_all2_same)

lemma all_grow_trans: "list_all2 grows xs ys \<Longrightarrow> list_all2 grows ys zs \<Longrightarrow> list_all2 grows xs zs"
  by (rule list_all2_trans [of grows grows grows]) (auto simp: grows_def)

lemma all_grow_update: "list_all2 grows xs ys \<Longrightarrow> i < length ys \<Longrightarrow> grows (ys ! i) y \<Longrightarrow> list_all2 grows xs (ys[i := y])"
  by (auto simp: list_all2_conv_all_nth nth_list_update) (auto simp: grows_def)

lemma last_index_grows: "list_all2 grows xs ys \<Longrightarrow> last_index ys k = last_index xs k"
proof -
  assume g: "list_all2 grows xs ys"
  then have "\<forall>j < length xs. sc_id (ys ! j) = sc_id (xs ! j)" by (simp add: list_all2_conv_all_nth grows_def)
  moreover have "length ys = length xs" using g by (simp add: list_all2_lengthD)
  moreover have "(\<forall>j \<in> set js. P j = Q j) \<Longrightarrow> find P js = find Q js" for P Q and js :: "nat list"
    by (induction js) auto
  ultimately show ?thesis unfolding last_index_def by simp
qed

lemma last_index_bound: "last_index xs k = Some j \<Longrightarrow> j < length xs"
  unfolding last_index_def by (auto dest!: find_SomeD)

lemma link_gate_grows: "i < length xs \<Longrightarrow> list_all2 grows xs (link_gate i g xs)"
proof (cases "last_index xs g")
  case (Some j)
  assume i: "i < length xs"
  have "list_all2 grows xs (xs[j := (xs ! j)\<lparr>sc_is_gate := True\<rparr>])"
    by (rule all_grow_update) (use last_index_bound [OF Some] in \<open>simp_all add: grows_def\<close>)
  then show ?thesis
    unfolding link_gate_def Some option.case Let_def
    by (auto intro!: all_grow_update simp: i grows_def)
qed (simp add: link_gate_def)

lemma length_link_gate [simp]: "length (link_gate i g xs) = length xs"
  by (simp add: link_gate_def Let_def split: option.split)

lemma length_link_repair [simp]: "length (link_repair i xs) = length xs"
proof -
  have "length (fold (link_gate i) gs xs) = length xs" for gs by (induction gs arbitrary: xs) auto
  then show ?thesis by (simp add: link_repair_def)
qed

lemma fold_link_gate_grows: "i < length xs \<Longrightarrow> list_all2 grows xs (fold (link_gate i) gs xs)"
proof (induction gs arbitrary: xs)
  case (Cons g gs)
  have "list_all2 grows xs (link_gate i g xs)" using Cons.prems by (rule link_gate_grows)
  moreover from this have "list_all2 grows (link_gate i g xs) (fold (link_gate i) gs (link_gate i g xs))"
    by (intro Cons.IH) (use Cons.prems in \<open>simp add: list_all2_lengthD [symmetric]\<close>)
  ultimately show ?case by (auto intro: all_grow_trans)
qed simp

definition linked_to :: "stage_config list \<Rightarrow> nat \<Rightarrow> string \<Rightarrow> bool" where
  "linked_to xs i g = (\<forall>j. last_index xs g = Some j \<longrightarrow> sc_is_gate (xs ! j) \<and> g \<in> set (sc_depends_on (xs ! i)))"

definition linked :: "stage_config list \<Rightarrow> nat \<Rightarrow> bool" where
  "linked xs i = (sc_is_gate (xs ! i) \<or> (\<forall>g \<in> set (dflt (sc_retry_to (xs ! i)) []). linked_to xs i g))"

lemma linked_to_grows: "linked_to xs i g \<Longrightarrow> list_all2 grows xs ys \<Longrightarrow> i < length xs \<Longrightarrow> linked_to ys i g"
  using last_index_bound [of xs g]
  by (fastforce simp: linked_to_def last_index_grows list_all2_conv_all_nth grows_def)

lemma linked_grows: "linked xs i \<Longrightarrow> list_all2 grows xs ys \<Longrightarrow> i < length xs \<Longrightarrow> linked ys i"
proof -
  assume l: "linked xs i" and g: "list_all2 grows xs ys" and i: "i < length xs"
  have "grows (xs ! i) (ys ! i)" using g i by (simp add: list_all2_conv_all_nth)
  then show ?thesis using l linked_to_grows [OF _ g i] by (auto simp: linked_def grows_def)
qed

lemma link_gate_links:
  assumes i: "i < length xs"
  shows "linked_to (link_gate i g xs) i g"
proof (cases "last_index xs g")
  case None
  then show ?thesis by (simp add: linked_to_def link_gate_def)
next
  case (Some j)
  have j: "j < length xs" by (rule last_index_bound [OF Some])
  have "last_index (link_gate i g xs) g = Some j"
    using last_index_grows [OF link_gate_grows [OF i]] Some by simp
  moreover have "sc_is_gate (link_gate i g xs ! j) \<and> g \<in> set (sc_depends_on (link_gate i g xs ! i))"
    using i j by (auto simp: link_gate_def Some Let_def nth_list_update)
  ultimately show ?thesis by (simp add: linked_to_def)
qed

lemma fold_link_gate_links:
  "i < length xs \<Longrightarrow> g \<in> set gs \<Longrightarrow> linked_to (fold (link_gate i) gs xs) i g"
proof (induction gs arbitrary: xs)
  case (Cons h gs)
  let ?ys = "link_gate i h xs"
  have i: "i < length ?ys" using Cons.prems(1) by simp
  show ?case
  proof (cases "g \<in> set gs")
    case True
    with Cons.IH [OF i] show ?thesis by simp
  next
    case False
    with Cons.prems have "linked_to ?ys i g" using link_gate_links by auto
    from linked_to_grows [OF this fold_link_gate_grows [OF i] i] show ?thesis by simp
  qed
qed simp

lemma link_repair_grows: "i < length xs \<Longrightarrow> list_all2 grows xs (link_repair i xs)"
  by (simp add: link_repair_def fold_link_gate_grows)

lemma link_repair_links:
  assumes i: "i < length xs"
  shows "linked (link_repair i xs) i"
proof (cases "sc_is_gate (xs ! i)")
  case False
  have "grows (xs ! i) (link_repair i xs ! i)"
    using link_repair_grows [OF i] i by (simp add: list_all2_conv_all_nth)
  then show ?thesis using fold_link_gate_links [OF i] False by (auto simp: linked_def link_repair_def grows_def)
qed (simp add: linked_def link_repair_def)

lemma fold_link_repair:
  "\<forall>i \<in> set is. i < length xs \<Longrightarrow> list_all2 grows xs (fold link_repair is xs) \<and> (\<forall>i \<in> set is. linked (fold link_repair is xs) i)"
proof (induction "is" arbitrary: xs)
  case (Cons i "is")
  let ?ys = "link_repair i xs"
  have g: "list_all2 grows xs ?ys" and len: "length ?ys = length xs" and l: "linked ?ys i"
    using Cons.prems link_repair_grows link_repair_links by auto
  have IH: "list_all2 grows ?ys (fold link_repair is ?ys) \<and> (\<forall>i \<in> set is. linked (fold link_repair is ?ys) i)"
    by (rule Cons.IH) (use Cons.prems len in simp)
  have "linked (fold link_repair is ?ys) i"
    using linked_grows [OF l] IH Cons.prems len by simp
  with IH all_grow_trans [OF g] show ?case by simp
qed simp

lemma linkRetryGates_linked:
  "list_all2 grows stages (linkRetryGates stages) \<and> (\<forall>i < length stages. linked (linkRetryGates stages) i)"
  using fold_link_repair [of "[0 ..< length stages]" stages] by (auto simp: linkRetryGates_def)

lemma linked_is_fixed:
  assumes "i < length xs" and "linked xs i"
  shows "link_repair i xs = xs"
proof -
  have "fold (link_gate i) gs xs = xs" if "\<forall>g \<in> set gs. linked_to xs i g" for gs
    using that
  proof (induction gs)
    case (Cons g gs)
    have "link_gate i g xs = xs"
    proof (cases "last_index xs g")
      case (Some j)
      with Cons.prems have "sc_is_gate (xs ! j)" "g \<in> set (sc_depends_on (xs ! i))" by (auto simp: linked_to_def)
      then have "(xs ! j)\<lparr>sc_is_gate := True\<rparr> = xs ! j" by simp
      with Some \<open>g \<in> set (sc_depends_on (xs ! i))\<close> show ?thesis by (simp add: link_gate_def Let_def)
    qed (simp add: link_gate_def)
    with Cons show ?case by simp
  qed simp
  with assms show ?thesis by (auto simp: link_repair_def linked_def)
qed

text \<open>Normalising the retry topology is idempotent and complete: a second pass changes
  nothing, and after one pass every repair stage that is no gate itself depends on each gate it
  retries to, which is marked as a gate.\<close>

lemma retry_topology_normalised:
  "linkRetryGates (linkRetryGates stages) = linkRetryGates stages
   \<and> (\<forall>i < length stages. \<forall>g j. \<not> sc_is_gate (linkRetryGates stages ! i)
        \<and> g \<in> set (dflt (sc_retry_to (linkRetryGates stages ! i)) []) \<and> last_index (linkRetryGates stages) g = Some j
        \<longrightarrow> sc_is_gate (linkRetryGates stages ! j) \<and> g \<in> set (sc_depends_on (linkRetryGates stages ! i)))"
proof -
  let ?L = "linkRetryGates stages"
  have l: "\<forall>i < length stages. linked ?L i" and len: "length ?L = length stages"
    using linkRetryGates_linked [of stages] by (auto simp: list_all2_lengthD)
  have "fold link_repair is ?L = ?L" if "\<forall>i \<in> set is. i < length stages" for "is"
    using that by (induction "is") (use l len linked_is_fixed in auto)
  then have "linkRetryGates ?L = ?L" unfolding linkRetryGates_def [of ?L] len by simp
  with l show ?thesis by (auto simp: linked_def linked_to_def)
qed


definition demo_repair :: "stage_config list" where
  "demo_repair = [plain_stage ''work'' [], plain_stage ''review'' [''work''],
     (plain_stage ''fix'' [])\<lparr>sc_retry_to := Some [''review'']\<rparr>]"

section \<open>What an accepted proposal satisfies\<close>

definition passes :: "(string \<Rightarrow> string \<Rightarrow> bool) \<Rightarrow> json list \<Rightarrow> admission_input \<Rightarrow> bool" where
  "passes mg findings inp = ar_pass (fst (inspectDispatchAdmission mg findings inp))"

definition filled :: "admission_input \<Rightarrow> stage_config list" where
  "filled inp = map (fill_refs (uniq (case in_criteria inp of None \<Rightarrow> [] | Some bc \<Rightarrow> bc_ids bc))) (in_dispatched inp)"

definition discharged_of :: "admission_input \<Rightarrow> (string \<times> criterion_discharge) list" where
  "discharged_of inp = amap_of d_criterionId
     (filter (\<lambda>d. Some (d_briefDigest d) = map_option bc_digest (in_criteria inp)) (in_discharges inp))"

lemma passes_iff:
  "passes mg findings inp \<longleftrightarrow>
     findings = [] \<and> snd (inspectStageGraph (in_base inp @ in_dispatched inp)) = []
     \<and> (\<forall>s \<in> set (in_dispatched inp). stage_errors inp s = [])
     \<and> duplicate_path_errors (terminal_declarations inp) = []
     \<and> ts_errors (scan_terminals mg inp) = [] \<and> quiescence_errors inp (scan_terminals mg inp) = []
     \<and> (\<forall>bc. in_criteria inp = Some bc \<longrightarrow> bc_ids bc \<noteq> []
          \<and> unknown_ref_errors (bc_ids bc) (filled inp) = []
          \<and> (\<forall>c \<in> set (bc_ids bc). criterion_errors (stage_map (in_base inp @ filled inp)) (filled inp)
               (ts_ids (scan_terminals mg inp)) (discharged_of inp) c = []))
     \<and> (in_criteria inp = None \<longrightarrow> unknown_ref_errors [] (filled inp) = [])"
  by (cases "in_criteria inp")
     (simp_all add: passes_def inspectDispatchAdmission_def Let_def filled_def discharged_of_def
        split: if_splits)

lemma inspect_stages: "snd (inspectDispatchAdmission mg findings inp) = filled inp"
  by (simp add: inspectDispatchAdmission_def filled_def Let_def)

lemma topoSort_inspect: "snd (inspectStageGraph stages) = [] \<longleftrightarrow> (\<exists>ordered. topoSort stages = Inr ordered)"
  by (cases "inspectStageGraph stages") (simp add: topoSort_def)

lemma passes_graph:
  assumes "passes mg findings inp"
  shows "stage_graph_ok (in_base inp @ in_dispatched inp)"
proof -
  have "snd (inspectStageGraph (in_base inp @ in_dispatched inp)) = []"
    using assms [unfolded passes_iff] by (elim conjE)
  then show ?thesis unfolding topoSort_inspect topoSort_accepts .
qed

lemma passes_stage:
  assumes "passes mg findings inp" and "s \<in> set (in_dispatched inp)"
  shows "sc_is_gate s \<Longrightarrow> repair_route (in_base inp @ in_dispatched inp) s"
    and "conditional s \<Longrightarrow> \<exists>p. parseCondition (dflt (sc_condition s) []) = Inr p \<and> finiteStatusConditionDomainError p = None"
    and "g \<in> set (dflt (sc_retry_to s) []) \<Longrightarrow> g \<in> set (sc_depends_on s)
      \<and> (\<exists>t. map_of (stage_map (in_base inp @ in_dispatched inp)) g = Some t \<and> sc_is_gate t)"
proof -
  have e: "stage_errors inp s = []" using assms(1) [unfolded passes_iff] assms(2) by (elim conjE) (rule bspec)
  show "sc_is_gate s \<Longrightarrow> repair_route (in_base inp @ in_dispatched inp) s"
    using e by (auto simp: stage_errors_def Let_def split: if_splits)
  have c: "condition_errors inp s = []" and r: "retry_errors (stage_map (in_base inp @ in_dispatched inp)) s = []"
    using e by (auto simp: stage_errors_def Let_def)
  show "conditional s \<Longrightarrow> \<exists>p. parseCondition (dflt (sc_condition s) []) = Inr p \<and> finiteStatusConditionDomainError p = None"
    using c by (auto simp: condition_errors_def split: sum.splits option.splits)
  show "g \<in> set (dflt (sc_retry_to s) []) \<Longrightarrow> g \<in> set (sc_depends_on s)
      \<and> (\<exists>t. map_of (stage_map (in_base inp @ in_dispatched inp)) g = Some t \<and> sc_is_gate t)"
  proof -
    assume g: "g \<in> set (dflt (sc_retry_to s) [])"
    have "(case map_of (stage_map (in_base inp @ in_dispatched inp)) g of
            None \<Rightarrow> [UnknownRetryGate (sc_id s) g]
          | Some gate \<Rightarrow> if sc_is_gate gate then [] else [NotAGate (sc_id s) g])
         @ (if g \<in> set (sc_depends_on s) then [] else [MissingRetryDependency (sc_id s) g]) = []"
      using r g unfolding retry_errors_def concat_eq_Nil_conv by simp
    then show ?thesis by (cases "map_of (stage_map (in_base inp @ in_dispatched inp)) g") (simp_all split: if_splits)
  qed
qed

text \<open>The terminal scan.\<close>

lemma scan_step_errors:
  "ts_errors (scan_terminal mg inp d ts) = [] \<Longrightarrow> \<exists>owner. final_producers mg inp (td_path d) = [owner]
     \<and> ts_errors ts = [] \<and> owner_errors mg inp ts d owner = []
     \<and> ts_owners (scan_terminal mg inp d ts) = amap_set (td_path d) (sc_id owner) (ts_owners ts)
     \<and> set (ts_ids (scan_terminal mg inp d ts)) = insert (sc_id owner) (set (ts_ids ts))"
  by (auto simp: scan_terminal_def split: list.splits)

lemma scan_grows: "ts_errors (fold (scan_terminal mg inp) ds ts) = [] \<Longrightarrow> ts_errors ts = []"
proof (induction ds arbitrary: ts)
  case (Cons d ds)
  have "ts_errors (scan_terminal mg inp d ts) = []"
    by (rule Cons.IH) (use Cons.prems in simp)
  from scan_step_errors [OF this] show ?case by (elim exE conjE)
qed simp

lemma scan_fold:
  "ts_errors (fold (scan_terminal mg inp) ds ts) = [] \<Longrightarrow>
     (\<forall>d \<in> set ds. \<exists>owner ts'. final_producers mg inp (td_path d) = [owner] \<and> owner_errors mg inp ts' d owner = [])
     \<and> fst ` set (ts_owners (fold (scan_terminal mg inp) ds ts)) = fst ` set (ts_owners ts) \<union> td_path ` set ds
     \<and> (distinct (map fst (ts_owners ts)) \<longrightarrow> distinct (map fst (ts_owners (fold (scan_terminal mg inp) ds ts))))
     \<and> set (ts_ids (fold (scan_terminal mg inp) ds ts)) = set (ts_ids ts) \<union>
          sc_id ` {owner. \<exists>d \<in> set ds. final_producers mg inp (td_path d) = [owner]}"
proof (induction ds arbitrary: ts)
  case (Cons d ds)
  let ?ts = "scan_terminal mg inp d ts"
  have rest: "ts_errors (fold (scan_terminal mg inp) ds ?ts) = []" using Cons.prems by simp
  from scan_step_errors [OF scan_grows [OF rest]] obtain owner where o:
    "final_producers mg inp (td_path d) = [owner]" "owner_errors mg inp ts d owner = []"
    "ts_owners ?ts = amap_set (td_path d) (sc_id owner) (ts_owners ts)"
    "set (ts_ids ?ts) = insert (sc_id owner) (set (ts_ids ts))" by blast
  note IH = Cons.IH [OF rest, unfolded o(3,4)]
  have ids: "sc_id ` {w. \<exists>d \<in> set (d # ds). final_producers mg inp (td_path d) = [w]}
      = insert (sc_id owner) (sc_id ` {w. \<exists>d \<in> set ds. final_producers mg inp (td_path d) = [w]})"
    using o(1) by auto
  have "\<forall>d' \<in> set (d # ds). \<exists>owner ts'. final_producers mg inp (td_path d') = [owner] \<and> owner_errors mg inp ts' d' owner = []"
    using IH o(1,2) by auto
  moreover have "fst ` set (ts_owners (fold (scan_terminal mg inp) ds ?ts)) = fst ` set (ts_owners ts) \<union> td_path ` set (d # ds)"
    using IH by simp
  moreover have "distinct (map fst (ts_owners ts)) \<longrightarrow> distinct (map fst (ts_owners (fold (scan_terminal mg inp) ds ?ts)))"
    using IH by simp
  moreover have "set (ts_ids (fold (scan_terminal mg inp) ds ?ts)) = set (ts_ids ts) \<union>
      sc_id ` {w. \<exists>d \<in> set (d # ds). final_producers mg inp (td_path d) = [w]}"
    unfolding ids using IH by simp
  ultimately show ?case by simp
qed simp

lemma declarations_rows:
  "map_of (declarations_by_path ds) k = (let rows = filter (\<lambda>d. declaration_key d = k) ds in if rows = [] then None else Some rows)"
proof -
  let ?step = "\<lambda>d m. amap_set (declaration_key d) (lookup [] m (declaration_key d) @ [d]) m"
  have "map_of (fold ?step ds m) k = (let rows = lookup [] m k @ filter (\<lambda>d. declaration_key d = k) ds
      in if filter (\<lambda>d. declaration_key d = k) ds = [] then map_of m k else Some rows)" for m
    by (induction ds arbitrary: m) (auto simp: Let_def)
  from this [of "[]"] show ?thesis by (simp add: declarations_by_path_def Let_def lookup_def)
qed

lemma distinct_keys_declarations: "distinct (map fst (declarations_by_path ds))"
proof -
  have "distinct (map fst m) \<Longrightarrow> distinct (map fst (fold (\<lambda>d m. amap_set (declaration_key d) (lookup [] m (declaration_key d) @ [d]) m) ds m))" for m
    by (induction ds arbitrary: m) auto
  then show ?thesis by (simp add: declarations_by_path_def)
qed

lemma no_duplicate_paths:
  assumes "duplicate_path_errors ds = []"
  shows "distinct (map declaration_key ds)"
proof -
  have "length (filter (\<lambda>d. declaration_key d = k) ds) \<le> 1" for k
  proof (cases "filter (\<lambda>d. declaration_key d = k) ds = []")
    case False
    then have "(k, filter (\<lambda>d. declaration_key d = k) ds) \<in> set (declarations_by_path ds)"
      using declarations_rows [of ds k] by (auto simp: Let_def dest: map_of_SomeD)
    with assms show ?thesis by (auto simp: duplicate_path_errors_def filter_empty_conv)
  qed (metis list.size(3) zero_le)
  then show ?thesis
  proof (induction ds)
    case (Cons d ds)
    have "length (filter (\<lambda>x. declaration_key x = k) ds) \<le> 1" for k
      using Cons.prems [of k] by (cases "declaration_key d = k") auto
    moreover have "filter (\<lambda>x. declaration_key x = declaration_key d) ds = []"
      using Cons.prems [of "declaration_key d"] by simp
    then have "declaration_key d \<notin> declaration_key ` set ds" unfolding filter_empty_conv by (metis image_iff)
    ultimately show ?case using Cons.IH by simp
  qed simp
qed


lemma distinct_declared_paths:
  assumes "passes mg findings inp"
  shows "distinct (map td_path (terminal_declarations inp))"
proof -
  have "duplicate_path_errors (terminal_declarations inp) = []"
    using assms [unfolded passes_iff] by (elim conjE)
  from no_duplicate_paths [OF this] show ?thesis
    by (auto simp: distinct_map inj_on_def declaration_key_def)
qed

lemma scan_terminals_result:
  assumes "passes mg findings inp"
  shows "d \<in> set (terminal_declarations inp) \<Longrightarrow>
      \<exists>owner ts. final_producers mg inp (td_path d) = [owner] \<and> owner_errors mg inp ts d owner = []"
    and "set (ts_ids (scan_terminals mg inp)) =
      sc_id ` {owner. \<exists>d \<in> set (terminal_declarations inp). final_producers mg inp (td_path d) = [owner]}"
    and "length (ts_owners (scan_terminals mg inp)) = length (terminal_declarations inp)"
proof -
  have "ts_errors (scan_terminals mg inp) = []" using assms [unfolded passes_iff] by (elim conjE)
  note f = scan_fold [OF this [unfolded scan_terminals_def], folded scan_terminals_def]
  show "d \<in> set (terminal_declarations inp) \<Longrightarrow>
      \<exists>owner ts. final_producers mg inp (td_path d) = [owner] \<and> owner_errors mg inp ts d owner = []"
    using f by simp
  show "set (ts_ids (scan_terminals mg inp)) =
      sc_id ` {owner. \<exists>d \<in> set (terminal_declarations inp). final_producers mg inp (td_path d) = [owner]}"
    using f by simp
  have "set (map fst (ts_owners (scan_terminals mg inp))) = set (map td_path (terminal_declarations inp))"
    "distinct (map fst (ts_owners (scan_terminals mg inp)))" using f by simp_all
  with distinct_declared_paths [OF assms] show "length (ts_owners (scan_terminals mg inp)) = length (terminal_declarations inp)"
    by (metis distinct_card length_map)
qed

lemma final_producer_dispatched:
  "final_producers mg inp path = [owner] \<Longrightarrow> owner \<in> set (in_dispatched inp)"
proof -
  assume "final_producers mg inp path = [owner]"
  then have "owner \<in> set (final_producers mg inp path)" by simp
  then show ?thesis by (simp add: final_producers_def Let_def)
qed

lemma excluding_owner_not_eligible:
  assumes "researchTerminalConditionExcludesContinue (sc_condition s) d" and "continuing facts"
  shows "\<not> eligible facts s"
proof -
  have "conditional s" using assms(1) by (simp add: researchTerminalConditionExcludesContinue_def conditional_def split: if_splits)
  with exclusion_sound [OF assms] show ?thesis by (simp add: eligible_def)
qed

lemma quiescence_covered:
  assumes "passes mg findings inp" and "terminal_declarations inp \<noteq> []"
    and cov: "cov_checked (assessTerminalConditionCoverage (in_base inp @ in_dispatched inp) (ts_ids (scan_terminals mg inp)))"
  shows "cov_covers (assessTerminalConditionCoverage (in_base inp @ in_dispatched inp) (ts_ids (scan_terminals mg inp))) = Some True"
proof -
  have "quiescence_errors inp (scan_terminals mg inp) = []" using assms(1) [unfolded passes_iff] by (elim conjE)
  then have "cov_covers (assessTerminalConditionCoverage (in_base inp @ in_dispatched inp) (ts_ids (scan_terminals mg inp))) \<noteq> Some False"
    using assms(2) scan_terminals_result(3) [OF assms(1)] cov by (auto simp: quiescence_errors_def Let_def split: if_splits)
  moreover have "cov_covers (assessTerminalConditionCoverage xs ks) \<noteq> None" if "cov_checked (assessTerminalConditionCoverage xs ks)" for xs ks
    using that by (auto simp: assessTerminalConditionCoverage_def Let_def not_checked_def split: if_splits sum.splits prod.splits)
  ultimately show ?thesis using cov by (metis (full_types) option.exhaust)
qed

text \<open>C7. An admitted plan cannot stall: after a passing admission, whatever the verdict files,
  as long as an ordinary stage is pending and the settled ones hold nothing back, the ready
  finder returns a stage.  The held stages are the repair stages the retry loop dispatches; no
  ordinary stage depends on one of them.\<close>

theorem admitted_plan_progresses:
  assumes "passes mg findings inp"
    and "\<And>s. s \<in> set (in_base inp @ in_dispatched inp) \<Longrightarrow> \<exists>ss. map_of st (sc_id s) = Some ss
       \<and> (isPendingStageStatus (s_status ss) \<or> settled_well hasVerdict evaluate s ss)"
    and "\<And>s. s \<in> set (in_base inp @ in_dispatched inp) \<Longrightarrow> sc_id s \<notin> held \<Longrightarrow>
       set (sc_depends_on s) \<inter> (held \<union> set (dflt (sc_retry_to s) [])) = {}"
    and "\<exists>s \<in> set (in_base inp @ in_dispatched inp). sc_id s \<notin> held
       \<and> (\<exists>ss. map_of st (sc_id s) = Some ss \<and> isPendingStageStatus (s_status ss))"
  shows "findAllReady hasVerdict evaluate (in_base inp @ in_dispatched inp) st \<noteq> []"
proof -
  obtain ordered where "topoSort (in_base inp @ in_dispatched inp) = Inr ordered"
    using passes_graph [OF assms(1)] topoSort_accepts by blast
  then show ?thesis by (rule frontier_progress [OF _ assms(2-4)])
qed

text \<open>C8. Terminal outcomes of an admitted plan have one author each, at the right time: every
  declared terminal path is declared once and has exactly one final producer among the
  dispatched stages.  In research mode that producer is never eligible while the policy decision
  is \<open>continue\<close>.  Outside research mode, that is with declared terminal paths and no stage named
  \<open>research\<close>, and when the conditions of the producers were in the exhaustively checked domain
  (\<open>cov_checked\<close>: status conditions within the 4096-assignment bound), every settled run makes
  the producer of some terminal path eligible.\<close>

theorem admitted_terminal_owners:
  assumes "passes mg findings inp"
  shows "distinct (map td_path (terminal_declarations inp))
    \<and> (\<forall>d \<in> set (terminal_declarations inp). \<exists>owner \<in> set (in_dispatched inp).
         final_producers mg inp (td_path d) = [owner]
         \<and> (in_research inp \<noteq> None \<longrightarrow> (\<forall>facts. continuing facts \<longrightarrow> \<not> eligible facts owner)))
    \<and> (terminal_declarations inp \<noteq> [] \<and> ''research'' \<notin> sc_id ` set (in_base inp @ in_dispatched inp)
       \<and> cov_checked (assessTerminalConditionCoverage (in_base inp @ in_dispatched inp) (ts_ids (scan_terminals mg inp)))
       \<longrightarrow> (\<forall>facts. settled_facts (in_base inp @ in_dispatched inp) facts \<longrightarrow>
             (\<exists>d \<in> set (terminal_declarations inp). \<exists>owner. final_producers mg inp (td_path d) = [owner] \<and> eligible facts owner)))"
proof (intro conjI ballI impI allI)
  let ?all = "in_base inp @ in_dispatched inp"
  show "distinct (map td_path (terminal_declarations inp))" by (rule distinct_declared_paths [OF assms])
next
  fix d assume d: "d \<in> set (terminal_declarations inp)"
  obtain owner ts where o: "final_producers mg inp (td_path d) = [owner]" "owner_errors mg inp ts d owner = []"
    using scan_terminals_result(1) [OF assms d] by blast
  have "\<not> eligible facts owner" if "in_research inp \<noteq> None" "continuing facts" for facts
    using that o(2) excluding_owner_not_eligible by (auto simp: owner_errors_def split: option.splits if_splits)
  then show "\<exists>owner \<in> set (in_dispatched inp). final_producers mg inp (td_path d) = [owner]
      \<and> (in_research inp \<noteq> None \<longrightarrow> (\<forall>facts. continuing facts \<longrightarrow> \<not> eligible facts owner))"
    using o(1) final_producer_dispatched [OF o(1)] by blast
next
  let ?all = "in_base inp @ in_dispatched inp" and ?ids = "ts_ids (scan_terminals mg inp)"
  fix facts
  assume a: "terminal_declarations inp \<noteq> [] \<and> ''research'' \<notin> sc_id ` set ?all
      \<and> cov_checked (assessTerminalConditionCoverage ?all ?ids)" and f: "settled_facts ?all facts"
  then have c: "cov_covers (assessTerminalConditionCoverage ?all ?ids) = Some True"
    using quiescence_covered [OF assms] by blast
  from a have "cov_checked (assessTerminalConditionCoverage ?all ?ids)" "''research'' \<notin> sc_id ` set ?all" by blast+
  from assessment_exact [OF this] c f obtain k s where k: "k \<in> set ?ids" "map_of (stage_map ?all) k = Some s" "eligible facts s"
    by blast
  from k(1) scan_terminals_result(2) [OF assms] obtain owner d where o: "k = sc_id owner"
    "d \<in> set (terminal_declarations inp)" "final_producers mg inp (td_path d) = [owner]" by auto
  have "distinct (map sc_id ?all)" using passes_graph [OF assms] by (simp add: stage_graph_ok_def)
  moreover have "owner \<in> set ?all" using final_producer_dispatched [OF o(3)] by simp
  ultimately have "map_of (stage_map ?all) (sc_id owner) = Some owner" by (rule stage_map_distinct)
  with k o show "\<exists>d \<in> set (terminal_declarations inp). \<exists>owner. final_producers mg inp (td_path d) = [owner] \<and> eligible facts owner"
    by auto
qed

text \<open>C9. Every criterion of an admitted plan is somebody's duty: it is assigned to a worker or a
  gate, or was discharged for this very brief.  Where only gates carry it, none of them owns a
  scope, so no gate judges its own work.  And where an ordinary worker carries it, one that is not
  the producer of a terminal path, some assigned gate transitively depends on an ordinary worker of
  the criterion: a terminal producer downstream of the review does not count.\<close>

theorem admitted_criteria_covered:
  assumes "passes mg findings inp" and "in_criteria inp = Some bc" and "c \<in> set (bc_ids bc)"
  shows "(workers_of (filled inp) c \<noteq> [] \<or> gates_of (filled inp) c \<noteq> []
      \<or> (\<exists>d \<in> set (in_discharges inp). d_criterionId d = c \<and> d_briefDigest d = bc_digest bc))
    \<and> (workers_of (filled inp) c = [] \<longrightarrow> (\<forall>g \<in> set (gates_of (filled inp) c). dflt (sc_scope g) [] = []))
    \<and> ((\<exists>w \<in> set (workers_of (filled inp) c). sc_id w \<notin> set (ts_ids (scan_terminals mg inp))) \<longrightarrow>
         (\<exists>g \<in> set (gates_of (filled inp) c). \<exists>w \<in> set (workers_of (filled inp) c).
            sc_id w \<notin> set (ts_ids (scan_terminals mg inp))
            \<and> (named_edge (in_base inp @ filled inp))\<^sup>+\<^sup>+ (sc_id g) (sc_id w)))"
proof -
  let ?byId = "stage_map (in_base inp @ filled inp)"
  let ?ord = "filter (\<lambda>s. sc_id s \<notin> set (ts_ids (scan_terminals mg inp))) (workers_of (filled inp) c)"
  have "criterion_errors ?byId (filled inp) (ts_ids (scan_terminals mg inp)) (discharged_of inp) c = []"
    using assms(1) [unfolded passes_iff] assms(2,3) by blast
  then have e: "workers_of (filled inp) c \<noteq> [] \<or> gates_of (filled inp) c \<noteq> [] \<or> map_of (discharged_of inp) c \<noteq> None"
    "?ord \<noteq> [] \<Longrightarrow> list_ex (downstream ?byId ?ord) (gates_of (filled inp) c)"
    "workers_of (filled inp) c = [] \<longrightarrow> (\<forall>g \<in> set (gates_of (filled inp) c). dflt (sc_scope g) [] = [])"
    by (auto simp: criterion_errors_def Let_def list_ex_iff split: if_splits)
  have d: "map_of (discharged_of inp) c \<noteq> None \<Longrightarrow> \<exists>d \<in> set (in_discharges inp). d_criterionId d = c \<and> d_briefDigest d = bc_digest bc"
    using assms(2) by (auto simp: discharged_of_def dest!: map_of_amap_of_Some)
  have ids: "map sc_id (filled inp) = map sc_id (in_dispatched inp)" by (simp add: filled_def fill_refs_def)
  have "distinct (map sc_id (in_base inp @ in_dispatched inp))"
    using passes_graph [OF assms(1)] by (simp add: stage_graph_ok_def)
  then have "distinct (map sc_id (in_base inp @ filled inp))" using ids by (simp only: map_append)
  then have "depends_edge ?byId = named_edge (in_base inp @ filled inp)"
    using stage_map_deps by (simp add: named_edge_def fun_eq_iff)
  then have t: "transitivelyDependsOn x y ?byId \<longleftrightarrow> (named_edge (in_base inp @ filled inp))\<^sup>+\<^sup>+ x y" for x y
    by (simp add: transitivelyDependsOn_correct)
  have "?ord \<noteq> [] \<longrightarrow> (\<exists>g \<in> set (gates_of (filled inp) c). \<exists>w \<in> set (workers_of (filled inp) c).
            sc_id w \<notin> set (ts_ids (scan_terminals mg inp))
            \<and> (named_edge (in_base inp @ filled inp))\<^sup>+\<^sup>+ (sc_id g) (sc_id w))"
    using e(2) t by (auto simp: list_ex_iff downstream_def)
  moreover have "(\<exists>w \<in> set (workers_of (filled inp) c). sc_id w \<notin> set (ts_ids (scan_terminals mg inp))) \<longleftrightarrow> ?ord \<noteq> []"
    by (auto simp: filter_empty_conv)
  ultimately show ?thesis using e(1,3) d by blast
qed


section \<open>An admitted plan\<close>

definition demo_plan :: "stage_config list" where
  "demo_plan =
     [(plain_stage ''code'' [])\<lparr>sc_scope := Some [''src/'']\<rparr>,
      (plain_stage ''review'' [''code''])\<lparr>sc_is_gate := True\<rparr>,
      (plain_stage ''fix'' [''review''])\<lparr>sc_retry_to := Some [''review''], sc_scope := Some [''src/'']\<rparr>,
      (plain_stage ''report'' [''review''])\<lparr>sc_scope := Some [''docs/out.md'']\<rparr>]"

definition demo_input :: admission_input where
  "demo_input = \<lparr>in_dispatched = demo_plan, in_base = [],
     in_terminal = Some [(''shipped'', [''docs/out.md''])], in_research = None,
     in_criteria = Some \<lparr>bc_digest = ''d'', bc_ids = [''AC1'']\<rparr>, in_discharges = []\<rparr>"

lemma demo_passes: "passes (\<lambda>_ _. False) [] demo_input"
  by code_simp

definition demo_state :: "(string \<times> stage_status) list" where
  "demo_state = [(''code'', bare_status SComplete 0), (''review'', bare_status SComplete 0),
     (''fix'', bare_status SPending 0), (''report'', bare_status SPending 0)]"

theorem admitted_plan_progresses_witness:
  "findAllReady (\<lambda>_. False) (\<lambda>d g. if d = ''review'' then Some True else None)
     (in_base demo_input @ in_dispatched demo_input) demo_state \<noteq> []"
  by (rule admitted_plan_progresses [OF demo_passes, where held = "{''fix''}"])
     (auto simp: demo_input_def demo_plan_def demo_state_def plain_stage_def settled_well_def bare_status_def
        isSatisfiedStageDependencyStatus_def isPendingStageStatus_def satisfied_stage_dependency_statuses_def)

theorem admitted_terminal_owners_witness:
  "\<exists>owner \<in> set demo_plan. final_producers (\<lambda>_ _. False) demo_input ''docs/out.md'' = [owner]"
proof -
  have "\<lparr>td_status = ''shipped'', td_path = ''docs/out.md''\<rparr> \<in> set (terminal_declarations demo_input)" by code_simp
  with admitted_terminal_owners [OF demo_passes] show ?thesis by (fastforce simp: demo_input_def)
qed

theorem admitted_criteria_covered_witness:
  "\<exists>g \<in> set (gates_of (filled demo_input) ''AC1''). \<exists>w \<in> set (workers_of (filled demo_input) ''AC1'').
     sc_id w \<notin> set (ts_ids (scan_terminals (\<lambda>_ _. False) demo_input))
     \<and> (named_edge (in_base demo_input @ filled demo_input))\<^sup>+\<^sup>+ (sc_id g) (sc_id w)"
proof -
  have c: "in_criteria demo_input = Some \<lparr>bc_digest = ''d'', bc_ids = [''AC1'']\<rparr>"
    "''AC1'' \<in> set (bc_ids \<lparr>bc_digest = ''d'', bc_ids = [''AC1'']\<rparr>)" by (simp_all add: demo_input_def)
  have "\<exists>w \<in> set (workers_of (filled demo_input) ''AC1''). sc_id w \<notin> set (ts_ids (scan_terminals (\<lambda>_ _. False) demo_input))"
    by code_simp
  with admitted_criteria_covered [OF demo_passes c] show ?thesis by blast
qed

end
