(* ===== verification/Research_Policy.thy ===== *)
theory Research_Policy
  imports Js_Base
begin

text \<open>
  The research decision policy (\<open>src/src/research-policy.ts\<close>): which measured rounds are kept,
  the running best, the ship / continue / ceiling decision, and the pre-launch assessment that
  a declared ship target can be reached.

  Numbers are exact rationals.  The source probes the doubles next to a boundary; a rational
  has no neighbour, so the neighbour function is an argument \<open>adj\<close> and nothing is assumed of it.
\<close>

section \<open>Configuration and rounds\<close>

record research_stop =
  rs_beat :: "rat option"
  rs_maxRounds :: "rat option"
  rs_maxWallHours :: "rat option"
  rs_haltAfterNoImprovement :: "rat option"
  rs_minImprovement :: "rat option"
  rs_seMultiple :: "rat option"

record research_integrity =
  ri_maxStdRatio :: "rat option"
  ri_outlierFactor :: "rat option"
  ri_fieldFloors :: "(string \<times> rat) list option"
  ri_rejectIfPositive :: "string list option"

record research_config =
  rc_baseline :: rat
  rc_higherIsBetter :: "bool option"
  rc_stop :: "research_stop option"
  rc_integrity :: "research_integrity option"
  rc_resultSchema :: "(string \<times> json) list option"
  rc_resultFile :: "string option"

datatype round_outcome = Measured | NoCandidate

record research_round =
  rr_label :: string
  rr_result :: "rat option"
  rr_outcome :: "round_outcome option"
  rr_resultStd :: "rat option"
  rr_wallHours :: "rat option"
  rr_confirmFailed :: bool

datatype research_decision = Ship | Continue | StopCeiling

datatype decision_reason =
    BeatsTarget rat rat
  | MaxRounds nat rat
  | MaxWallHours rat rat
  | NoImprovementStreak nat
  | LatestImproved rat
  | BudgetRemains

record research_evaluation =
  re_runningBest :: rat
  re_keptLabels :: "string list"
  re_latestKept :: bool
  re_streak :: nat
  re_decision :: research_decision
  re_reason :: decision_reason

definition no_stop :: research_stop where
  "no_stop = \<lparr>rs_beat = None, rs_maxRounds = None, rs_maxWallHours = None,
     rs_haltAfterNoImprovement = None, rs_minImprovement = None, rs_seMultiple = None\<rparr>"

definition no_integrity :: research_integrity where
  "no_integrity = \<lparr>ri_maxStdRatio = None, ri_outlierFactor = None, ri_fieldFloors = None, ri_rejectIfPositive = None\<rparr>"

definition stop_of :: "research_config \<Rightarrow> research_stop" where
  "stop_of c = dflt (rc_stop c) no_stop"

definition integrity_of :: "research_config \<Rightarrow> research_integrity" where
  "integrity_of c = dflt (rc_integrity c) no_integrity"

definition higher :: "research_config \<Rightarrow> bool" where
  "higher c = (rc_higherIsBetter c \<noteq> Some False)"

section \<open>The policy\<close>

definition isBetter :: "rat \<Rightarrow> rat \<Rightarrow> bool \<Rightarrow> rat \<Rightarrow> bool" where
  "isBetter a b higherIsBetter margin = (if higherIsBetter then a > b + margin else a < b - margin)"

definition improvementMargin :: "research_round \<Rightarrow> rat \<Rightarrow> rat \<Rightarrow> rat" where
  "improvementMargin r minImprovement seMultiple =
     max minImprovement (case rr_resultStd r of None \<Rightarrow> 0 | Some se \<Rightarrow> \<bar>se\<bar> * seMultiple)"

record policy_state =
  ps_kept :: "string list"
  ps_best :: rat
  ps_perRound :: "bool list"

definition apply_round :: "bool \<Rightarrow> rat \<Rightarrow> rat \<Rightarrow> research_round \<Rightarrow> policy_state \<Rightarrow> policy_state" where
  "apply_round hib minImprovement seMultiple r s =
     (case (rr_confirmFailed r \<or> rr_outcome r = Some NoCandidate, rr_result r) of
        (False, Some v) \<Rightarrow>
          if isBetter v (ps_best s) hib (improvementMargin r minImprovement seMultiple)
          then s\<lparr>ps_best := v, ps_kept := ps_kept s @ [rr_label r], ps_perRound := ps_perRound s @ [True]\<rparr>
          else s\<lparr>ps_perRound := ps_perRound s @ [False]\<rparr>
      | _ \<Rightarrow> s\<lparr>ps_perRound := ps_perRound s @ [False]\<rparr>)"

definition applyPolicy :: "rat \<Rightarrow> bool \<Rightarrow> research_round list \<Rightarrow> rat \<Rightarrow> rat \<Rightarrow> policy_state" where
  "applyPolicy baseline hib rounds minImprovement seMultiple =
     fold (apply_round hib minImprovement seMultiple) rounds \<lparr>ps_kept = [], ps_best = baseline, ps_perRound = []\<rparr>"

definition policy_of :: "research_config \<Rightarrow> research_round list \<Rightarrow> policy_state" where
  "policy_of c rounds =
     applyPolicy (rc_baseline c) (higher c) rounds (dflt (rs_minImprovement (stop_of c)) 0) (dflt (rs_seMultiple (stop_of c)) 1)"

definition targetIsMet :: "rat \<Rightarrow> rat \<Rightarrow> bool \<Rightarrow> bool" where
  "targetIsMet v target hib = (if hib then v \<ge> target else v \<le> target)"

definition streak :: "bool list \<Rightarrow> nat" where
  "streak perRound = length (takeWhile (\<lambda>kept. \<not> kept) (rev perRound))"

definition at_least :: "rat \<Rightarrow> rat option \<Rightarrow> bool" where
  \<comment> \<open>\<open>limit !== undefined && n >= limit\<close>\<close>
  "at_least n limit = (case limit of None \<Rightarrow> False | Some l \<Rightarrow> n \<ge> l)"

definition research_verdict ::
  "research_config \<Rightarrow> research_round list \<Rightarrow> policy_state \<Rightarrow> research_decision \<times> decision_reason" where
  "research_verdict c rounds p =
     (let stop = stop_of c;
          latestWall = (if rounds = [] then None else rr_wallHours (last rounds));
          n = streak (ps_perRound p)
      in if ps_kept p \<noteq> [] \<and> (case rs_beat stop of None \<Rightarrow> False | Some t \<Rightarrow> targetIsMet (ps_best p) t (higher c))
         then (Ship, BeatsTarget (ps_best p) (the (rs_beat stop)))
         else if at_least (of_nat (length rounds)) (rs_maxRounds stop)
         then (StopCeiling, MaxRounds (length rounds) (the (rs_maxRounds stop)))
         else if latestWall \<noteq> None \<and> at_least (the latestWall) (rs_maxWallHours stop)
         then (StopCeiling, MaxWallHours (the latestWall) (the (rs_maxWallHours stop)))
         else if at_least (of_nat n) (rs_haltAfterNoImprovement stop)
         then (StopCeiling, NoImprovementStreak n)
         else (Continue, if ps_perRound p \<noteq> [] \<and> last (ps_perRound p) then LatestImproved (ps_best p) else BudgetRemains))"

definition evaluateResearch :: "research_config \<Rightarrow> research_round list \<Rightarrow> research_evaluation" where
  "evaluateResearch c rounds =
     (let p = policy_of c rounds
      in case research_verdict c rounds p of
           (decision, reason) \<Rightarrow>
             \<lparr>re_runningBest = ps_best p, re_keptLabels = ps_kept p,
              re_latestKept = (ps_perRound p \<noteq> [] \<and> last (ps_perRound p)), re_streak = streak (ps_perRound p),
              re_decision = decision, re_reason = reason\<rparr>)"

record ceiling_floor =
  cf_minAttemptedStages :: "rat option"
  cf_minWallMinutes :: "rat option"

datatype floor_reason = TooFewRounds nat rat | TooLittleWall rat rat

definition evaluateResearchCeilingFloor :: "ceiling_floor option \<Rightarrow> nat \<Rightarrow> rat \<Rightarrow> floor_reason option" where
  \<comment> \<open>the failing reason, \<open>None\<close> when the floor passes\<close>
  "evaluateResearchCeilingFloor limit roundsAttempted elapsedMinutes =
     (case limit of
        None \<Rightarrow> None
      | Some f \<Rightarrow>
          (case cf_minAttemptedStages f of
             Some m \<Rightarrow> if of_nat roundsAttempted < m then Some (TooFewRounds roundsAttempted m) else None
           | None \<Rightarrow>
               (case cf_minWallMinutes f of
                  Some m \<Rightarrow> if elapsedMinutes < m then Some (TooLittleWall elapsedMinutes m) else None
                | None \<Rightarrow> None)))"

section \<open>The result schema\<close>

definition numericPropertySchema :: "research_config \<Rightarrow> string \<Rightarrow> (string \<times> json) list" where
  "numericPropertySchema c fld =
     (case rc_resultSchema c of
        None \<Rightarrow> []
      | Some schema \<Rightarrow>
          (case map_of schema ''properties'' of
             Some (JObj props) \<Rightarrow> (case map_of props fld of Some (JObj m) \<Rightarrow> m | _ \<Rightarrow> [])
           | _ \<Rightarrow> []))"

record type_constraint =
  tc_allowed :: bool
  tc_integerOnly :: bool

definition schema_field :: "(string \<times> json) list \<Rightarrow> string \<Rightarrow> json" where
  "schema_field schema k = dflt (map_of schema k) JUndef"

definition numericTypeConstraint :: "json \<Rightarrow> type_constraint" where
  "numericTypeConstraint type =
     (if type = JUndef \<or> type = JArr [] then \<lparr>tc_allowed = True, tc_integerOnly = False\<rparr>
      else
        let types = (case type of JArr ts \<Rightarrow> ts | t \<Rightarrow> [t]);
            num = JStr ''number'' \<in> set types; int = JStr ''integer'' \<in> set types
        in \<lparr>tc_allowed = (num \<or> int), tc_integerOnly = (int \<and> \<not> num)\<rparr>)"

definition schema_number :: "(string \<times> json) list \<Rightarrow> string \<Rightarrow> rat option" where
  "schema_number schema k = (case schema_field schema k of JNum q \<Rightarrow> Some q | _ \<Rightarrow> None)"

definition is_integer :: "rat \<Rightarrow> bool" where
  "is_integer q = (q = of_int \<lfloor>q\<rfloor>)"

definition schemaAllowsNumericValue :: "rat \<Rightarrow> (string \<times> json) list \<Rightarrow> type_constraint \<Rightarrow> bool" where
  "schemaAllowsNumericValue v schema type =
     (tc_allowed type \<and> (tc_integerOnly type \<longrightarrow> is_integer v)
      \<and> (case schema_field schema ''enum'' of JArr es \<Rightarrow> JNum v \<in> set es | _ \<Rightarrow> True)
      \<and> (case schema_number schema ''minimum'' of Some m \<Rightarrow> \<not> v < m | None \<Rightarrow> True)
      \<and> (case schema_number schema ''maximum'' of Some m \<Rightarrow> \<not> v > m | None \<Rightarrow> True))"

fun numbers_in :: "json list \<Rightarrow> rat list" where
  "numbers_in [] = []"
| "numbers_in (JNum q # vs) = q # numbers_in vs"
| "numbers_in (_ # vs) = numbers_in vs"

definition numericEnum :: "(string \<times> json) list \<Rightarrow> rat list option" where
  "numericEnum schema = (case schema_field schema ''enum'' of JArr es \<Rightarrow> Some (numbers_in es) | _ \<Rightarrow> None)"

definition requiredResultStd :: "research_config \<Rightarrow> bool" where
  "requiredResultStd c =
     (case rc_resultSchema c of
        None \<Rightarrow> False
      | Some schema \<Rightarrow> (case schema_field schema ''required'' of JArr rs \<Rightarrow> JStr ''result_std'' \<in> set rs | _ \<Rightarrow> False))"

definition MAX_VALUE :: rat where
  "MAX_VALUE = (2 ^ 53 - 1) * 2 ^ 971"

definition smallest_magnitude :: "rat list \<Rightarrow> rat option" where
  \<comment> \<open>the first of the list sorted by magnitude, then by value\<close>
  "smallest_magnitude vs = (case sort_key abs (sort vs) of [] \<Rightarrow> None | v # _ \<Rightarrow> Some v)"

definition rejects_positive :: "research_config \<Rightarrow> string \<Rightarrow> bool" where
  "rejects_positive c fld = (fld \<in> set (dflt (ri_rejectIfPositive (integrity_of c)) []))"

definition field_floor :: "research_config \<Rightarrow> string \<Rightarrow> rat option" where
  "field_floor c fld = map_of (dflt (ri_fieldFloors (integrity_of c)) []) fld"

definition chooseResultStdCandidate :: "research_config \<Rightarrow> rat option" where
  "chooseResultStdCandidate c =
     (if \<not> requiredResultStd c then None
      else
        let schema = numericPropertySchema c ''result_std'';
            type = numericTypeConstraint (schema_field schema ''type'');
            lo = max (max 0 (dflt (schema_number schema ''minimum'') 0)) (dflt (field_floor c ''result_std'') 0);
            hi = min (dflt (schema_number schema ''maximum'') MAX_VALUE)
                     (if rejects_positive c ''result_std'' then 0 else MAX_VALUE);
            candidates = dflt (numericEnum schema)
              ([lo] @ (if tc_integerOnly type then [of_int \<lceil>lo\<rceil>] else []) @ [hi])
        in if \<not> tc_allowed type then None
           else smallest_magnitude (filter (\<lambda>v. v \<ge> lo \<and> v \<le> hi \<and> schemaAllowsNumericValue v schema type) candidates))"

section \<open>The ship target\<close>

datatype target_status = CeilingOnly | AlreadyCrossed | Reachable | Unreachable
datatype target_reason =
    NoTarget
  | BaselineSatisfies rat rat
  | NotNumeric
  | NoResultStd
  | NoFiniteResult rat rat
  | ProbeSatisfies rat

record target_assessment =
  ta_status :: target_status
  ta_reason :: target_reason
  ta_probe :: "rat option"
  ta_std :: "rat option"

definition assessed_margin :: "research_config \<Rightarrow> rat" where
  "assessed_margin c =
     max (dflt (rs_minImprovement (stop_of c)) 0)
       (case chooseResultStdCandidate c of None \<Rightarrow> 0 | Some s \<Rightarrow> \<bar>s\<bar> * dflt (rs_seMultiple (stop_of c)) 1)"

definition outlier_limit :: "research_config \<Rightarrow> rat option" where
  "outlier_limit c =
     (case ri_outlierFactor (integrity_of c) of
        Some f \<Rightarrow> if \<bar>rc_baseline c\<bar> > 1 / 10 ^ 9 then Some (\<bar>rc_baseline c\<bar> * f) else None
      | None \<Rightarrow> None)"

definition raise_to :: "rat option \<Rightarrow> rat \<Rightarrow> rat" where
  "raise_to bound x = (case bound of None \<Rightarrow> x | Some b \<Rightarrow> max x b)"

definition lower_to :: "rat option \<Rightarrow> rat \<Rightarrow> rat" where
  "lower_to bound x = (case bound of None \<Rightarrow> x | Some b \<Rightarrow> min x b)"

definition probe_lower :: "research_config \<Rightarrow> rat \<Rightarrow> rat" where
  "probe_lower c target =
     (let schema = numericPropertySchema c ''result'';
          x = raise_to (field_floor c ''result'') (raise_to (schema_number schema ''minimum'') (- MAX_VALUE));
          x = (if higher c then x else raise_to (map_option uminus (outlier_limit c)) x)
      in if higher c then max x target else x)"

definition probe_upper :: "research_config \<Rightarrow> rat \<Rightarrow> rat" where
  "probe_upper c target =
     (let schema = numericPropertySchema c ''result'';
          x = lower_to (if rejects_positive c ''result'' then Some 0 else None)
                (lower_to (schema_number schema ''maximum'') MAX_VALUE);
          x = (if higher c then lower_to (outlier_limit c) x else x)
      in if higher c then x else min x target)"

definition probe_boundaries :: "(rat \<Rightarrow> bool \<Rightarrow> rat) \<Rightarrow> research_config \<Rightarrow> rat \<Rightarrow> rat list" where
  "probe_boundaries adj c target =
     (let margin = assessed_margin c;
          edge = (if higher c then rc_baseline c + margin else rc_baseline c - margin)
      in [probe_lower c target, probe_upper c target, target, edge, adj edge (higher c), rc_baseline c, 0,
          1 / 10 ^ 6, - (1 / 10 ^ 6)]
         @ (case (chooseResultStdCandidate c, ri_maxStdRatio (integrity_of c)) of
              (Some s, Some m) \<Rightarrow> if m > 0 then [\<bar>s\<bar> / m, - (\<bar>s\<bar> / m)] else []
            | _ \<Rightarrow> []))"

definition probe_candidates :: "(rat \<Rightarrow> bool \<Rightarrow> rat) \<Rightarrow> bool \<Rightarrow> rat list \<Rightarrow> rat list" where
  "probe_candidates adj integerOnly boundaries =
     uniq (concat (map (\<lambda>b. [b, adj b True, adj b False] @ (if integerOnly then [of_int \<lfloor>b\<rfloor>, of_int \<lceil>b\<rceil>] else [])) boundaries))"

definition candidatePasses :: "research_config \<Rightarrow> rat \<Rightarrow> rat \<Rightarrow> bool" where
  "candidatePasses c target v =
     (let schema = numericPropertySchema c ''result'';
          type = numericTypeConstraint (schema_field schema ''type'')
      in \<not> (v < probe_lower c target \<or> v > probe_upper c target)
         \<and> schemaAllowsNumericValue v schema type
         \<and> isBetter v (rc_baseline c) (higher c) (assessed_margin c)
         \<and> targetIsMet v target (higher c)
         \<and> (case (chooseResultStdCandidate c, ri_maxStdRatio (integrity_of c)) of
              (Some s, Some m) \<Rightarrow> \<not> \<bar>s\<bar> > m * \<bar>v\<bar>
            | _ \<Rightarrow> True))"

definition best_probe :: "(rat \<Rightarrow> bool \<Rightarrow> rat) \<Rightarrow> research_config \<Rightarrow> rat \<Rightarrow> rat option" where
  "best_probe adj c target =
     (let schema = numericPropertySchema c ''result'';
          type = numericTypeConstraint (schema_field schema ''type'');
          candidates = probe_candidates adj (tc_integerOnly type) (dflt (numericEnum schema) (probe_boundaries adj c target));
          passing = sort (filter (candidatePasses c target) candidates)
      in if passing = [] then None else Some (if higher c then hd passing else last passing))"

definition assessResearchShipTarget :: "(rat \<Rightarrow> bool \<Rightarrow> rat) \<Rightarrow> research_config \<Rightarrow> target_assessment" where
  "assessResearchShipTarget adj c =
     (let std = chooseResultStdCandidate c;
          type = numericTypeConstraint (schema_field (numericPropertySchema c ''result'') ''type'')
      in case rs_beat (stop_of c) of
           None \<Rightarrow> \<lparr>ta_status = CeilingOnly, ta_reason = NoTarget, ta_probe = None, ta_std = std\<rparr>
         | Some target \<Rightarrow>
             if targetIsMet (rc_baseline c) target (higher c)
             then \<lparr>ta_status = AlreadyCrossed, ta_reason = BaselineSatisfies (rc_baseline c) target, ta_probe = None, ta_std = std\<rparr>
             else if \<not> tc_allowed type
             then \<lparr>ta_status = Unreachable, ta_reason = NotNumeric, ta_probe = None, ta_std = std\<rparr>
             else if requiredResultStd c \<and> std = None
             then \<lparr>ta_status = Unreachable, ta_reason = NoResultStd, ta_probe = None, ta_std = None\<rparr>
             else case best_probe adj c target of
               None \<Rightarrow> \<lparr>ta_status = Unreachable, ta_reason = NoFiniteResult target (rc_baseline c), ta_probe = None, ta_std = std\<rparr>
             | Some v \<Rightarrow> \<lparr>ta_status = Reachable, ta_reason = ProbeSatisfies v, ta_probe = Some v, ta_std = std\<rparr>)"


section \<open>The greedy stack\<close>

definition acceptable :: "research_round \<Rightarrow> bool" where
  "acceptable r = (\<not> rr_confirmFailed r \<and> rr_outcome r \<noteq> Some NoCandidate \<and> rr_result r \<noteq> None)"

definition margin_of :: "research_config \<Rightarrow> research_round \<Rightarrow> rat" where
  "margin_of c r = improvementMargin r (dflt (rs_minImprovement (stop_of c)) 0) (dflt (rs_seMultiple (stop_of c)) 1)"

definition keeps :: "research_config \<Rightarrow> rat \<Rightarrow> research_round \<Rightarrow> bool" where
  "keeps c best r = (acceptable r \<and> isBetter (the (rr_result r)) best (higher c) (margin_of c r))"

lemma policy_Nil: "policy_of c [] = \<lparr>ps_kept = [], ps_best = rc_baseline c, ps_perRound = []\<rparr>"
  by (simp add: policy_of_def applyPolicy_def)

lemma policy_snoc:
  "policy_of c (rounds @ [r]) =
     (let p = policy_of c rounds
      in if keeps c (ps_best p) r
         then p\<lparr>ps_best := the (rr_result r), ps_kept := ps_kept p @ [rr_label r], ps_perRound := ps_perRound p @ [True]\<rparr>
         else p\<lparr>ps_perRound := ps_perRound p @ [False]\<rparr>)"
  by (cases "rr_result r")
     (auto simp: policy_of_def applyPolicy_def apply_round_def keeps_def acceptable_def margin_of_def Let_def split: bool.split)

definition gain :: "research_config \<Rightarrow> rat \<Rightarrow> rat \<Rightarrow> rat" where
  \<comment> \<open>how much better \<open>a\<close> is than \<open>b\<close>\<close>
  "gain c a b = (if higher c then a - b else b - a)"

lemma isBetter_gain: "isBetter a b (higher c) m \<longleftrightarrow> m < gain c a b"
  by (auto simp: isBetter_def gain_def)

lemma gain_trans: "gain c a b + gain c b d = gain c a d"
  by (simp add: gain_def)

lemma gain_self [simp]: "gain c a a = 0"
  by (simp add: gain_def)

lemma margin_nonneg: "0 \<le> dflt (rs_seMultiple (stop_of c)) 1 \<Longrightarrow> 0 \<le> margin_of c r"
  by (cases "rr_resultStd r") (simp_all add: margin_of_def improvementMargin_def le_max_iff_disj)

lemma policy_best_grows:
  assumes "0 \<le> dflt (rs_seMultiple (stop_of c)) 1"
  shows "0 \<le> gain c (ps_best (policy_of c (rounds @ [r]))) (ps_best (policy_of c rounds))"
  using margin_nonneg [OF assms, of r]
  by (auto simp: policy_snoc Let_def keeps_def isBetter_gain)

lemma policy_invariant:
  assumes "0 \<le> dflt (rs_seMultiple (stop_of c)) 1"
  shows "(\<forall>r \<in> set rounds. acceptable r \<longrightarrow>
        \<not> isBetter (the (rr_result r)) (ps_best (policy_of c rounds)) (higher c) (margin_of c r))
    \<and> length (ps_perRound (policy_of c rounds)) = length rounds
    \<and> (ps_kept (policy_of c rounds) = [] \<longrightarrow> ps_best (policy_of c rounds) = rc_baseline c)
    \<and> (ps_kept (policy_of c rounds) \<noteq> [] \<longrightarrow> (\<exists>r \<in> set rounds. acceptable r
         \<and> rr_result r = Some (ps_best (policy_of c rounds)) \<and> rr_label r = last (ps_kept (policy_of c rounds))
         \<and> isBetter (ps_best (policy_of c rounds)) (rc_baseline c) (higher c) 0))"
proof (induction rounds rule: rev_induct)
  case Nil
  show ?case by (simp add: policy_Nil)
next
  case (snoc r rounds)
  let ?p = "policy_of c rounds" and ?q = "policy_of c (rounds @ [r])"
  have g: "0 \<le> gain c (ps_best ?q) (ps_best ?p)" by (rule policy_best_grows [OF assms])
  have base: "0 \<le> gain c (ps_best ?p) (rc_baseline c)"
    using snoc by (cases "ps_kept ?p = []") (auto simp: isBetter_gain gain_def)
  have "\<not> isBetter (the (rr_result x)) (ps_best ?q) (higher c) (margin_of c x)" if x: "x \<in> set rounds" "acceptable x" for x
  proof -
    have "\<not> margin_of c x < gain c (the (rr_result x)) (ps_best ?p)" using snoc x by (simp add: isBetter_gain)
    moreover have "gain c (the (rr_result x)) (ps_best ?p) = gain c (the (rr_result x)) (ps_best ?q) + gain c (ps_best ?q) (ps_best ?p)"
      by (rule gain_trans [symmetric])
    ultimately show ?thesis using g by (simp add: isBetter_gain)
  qed
  moreover have "\<not> isBetter (the (rr_result r)) (ps_best ?q) (higher c) (margin_of c r)" if "acceptable r"
    using that margin_nonneg [OF assms, of r]
    by (cases "keeps c (ps_best ?p) r") (auto simp: policy_snoc Let_def keeps_def isBetter_gain gain_def)
  moreover have "keeps c (ps_best ?p) r \<Longrightarrow> isBetter (the (rr_result r)) (rc_baseline c) (higher c) 0"
    using base margin_nonneg [OF assms, of r] gain_trans [of c "the (rr_result r)" "ps_best ?p" "rc_baseline c"]
    by (simp add: keeps_def isBetter_gain)
  ultimately show ?case
    using snoc by (auto simp: policy_snoc Let_def keeps_def acceptable_def)
qed

text \<open>C18. The running best is what the journal supports: with a non-negative standard-error
  multiple, no acceptable round beats it by that round's own margin; it is the baseline until a
  round is kept, and afterwards the measured result of the last kept round, strictly better than
  the baseline - never a confirm-failed or candidate-less round.\<close>

theorem running_best_supported:
  assumes "0 \<le> dflt (rs_seMultiple (stop_of c)) 1"
  shows "(\<forall>r \<in> set rounds. acceptable r \<longrightarrow>
        \<not> isBetter (the (rr_result r)) (re_runningBest (evaluateResearch c rounds)) (higher c) (margin_of c r))
    \<and> (re_keptLabels (evaluateResearch c rounds) = [] \<longrightarrow> re_runningBest (evaluateResearch c rounds) = rc_baseline c)
    \<and> (re_keptLabels (evaluateResearch c rounds) \<noteq> [] \<longrightarrow> (\<exists>r \<in> set rounds. acceptable r
         \<and> rr_result r = Some (re_runningBest (evaluateResearch c rounds))
         \<and> rr_label r = last (re_keptLabels (evaluateResearch c rounds))
         \<and> isBetter (re_runningBest (evaluateResearch c rounds)) (rc_baseline c) (higher c) 0))"
proof -
  have e: "re_runningBest (evaluateResearch c rounds) = ps_best (policy_of c rounds)"
    "re_keptLabels (evaluateResearch c rounds) = ps_kept (policy_of c rounds)"
    by (simp_all add: evaluateResearch_def Let_def split: prod.splits)
  show ?thesis unfolding e using policy_invariant [OF assms, of rounds] by blast
qed

section \<open>The loop ends\<close>

lemma streak_snoc: "streak (bs @ [b]) = (if b then 0 else Suc (streak bs))"
  by (simp add: streak_def)

lemma continue_streak:
  assumes "re_decision (evaluateResearch c rounds) = Continue" and "rs_haltAfterNoImprovement (stop_of c) = Some h"
  shows "of_nat (streak (ps_perRound (policy_of c rounds))) < h"
  using assms by (auto simp: evaluateResearch_def research_verdict_def Let_def at_least_def split: if_splits)

lemma kept_gain:
  assumes m: "dflt (rs_minImprovement (stop_of c)) 0 = m"
  shows "of_nat (length (ps_kept (policy_of c rounds))) * m \<le> gain c (ps_best (policy_of c rounds)) (rc_baseline c)"
proof (induction rounds rule: rev_induct)
  case Nil
  show ?case by (simp add: policy_Nil gain_def)
next
  case (snoc r rounds)
  let ?p = "policy_of c rounds"
  show ?case
  proof (cases "keeps c (ps_best ?p) r")
    case True
    then have "margin_of c r < gain c (the (rr_result r)) (ps_best ?p)" by (simp add: keeps_def isBetter_gain)
    moreover have "m \<le> margin_of c r" by (simp add: margin_of_def improvementMargin_def m)
    ultimately show ?thesis
      using True snoc gain_trans [of c "the (rr_result r)" "ps_best ?p" "rc_baseline c"]
      by (simp add: policy_snoc Let_def algebra_simps)
  next
    case False
    with snoc show ?thesis by (simp add: policy_snoc Let_def)
  qed
qed

lemma best_bounded:
  assumes "\<forall>r \<in> set rounds. acceptable r \<longrightarrow> gain c (the (rr_result r)) (rc_baseline c) \<le> B" and "0 \<le> B"
  shows "gain c (ps_best (policy_of c rounds)) (rc_baseline c) \<le> B"
  using assms(1)
proof (induction rounds rule: rev_induct)
  case Nil
  show ?case using assms(2) by (simp add: policy_Nil gain_def)
next
  case (snoc r rounds)
  then show ?case by (auto simp: policy_snoc Let_def keeps_def)
qed

lemma rounds_by_kept:
  assumes "\<And>k. k \<le> length rounds \<Longrightarrow> streak (ps_perRound (policy_of c (take k rounds))) < H"
  shows "length rounds \<le> H * length (ps_kept (policy_of c rounds)) + streak (ps_perRound (policy_of c rounds))"
  using assms
proof (induction rounds rule: rev_induct)
  case (snoc r rounds)
  have IH: "length rounds \<le> H * length (ps_kept (policy_of c rounds)) + streak (ps_perRound (policy_of c rounds))"
    by (rule snoc.IH) (use snoc.prems in \<open>metis append_Nil2 diff_is_0_eq le_SucI length_append_singleton take_0 take_append\<close>)
  have "streak (ps_perRound (policy_of c rounds)) < H" using snoc.prems [of "length rounds"] by simp
  with IH show ?case by (auto simp: policy_snoc Let_def streak_snoc)
qed simp

text \<open>C19. The research loop ends: with a no-improvement limit \<open>h\<close>, a positive minimum improvement
  \<open>m\<close> and measured results that improve on the baseline by at most \<open>B\<close>, a journal on
  which the policy kept saying \<open>continue\<close> is shorter than \<open>\<lceil>h\<rceil> * (\<lfloor>B / m\<rfloor> + 1)\<close> rounds.\<close>

theorem research_loop_ends:
  assumes halt: "rs_haltAfterNoImprovement (stop_of c) = Some h"
    and m: "rs_minImprovement (stop_of c) = Some m" "0 < m"
    and bound: "0 \<le> B" "\<forall>r \<in> set rounds. acceptable r \<longrightarrow> gain c (the (rr_result r)) (rc_baseline c) \<le> B"
    and going: "\<And>k. k \<le> length rounds \<Longrightarrow> re_decision (evaluateResearch c (take k rounds)) = Continue"
  shows "length rounds < nat \<lceil>h\<rceil> * (nat \<lfloor>B / m\<rfloor> + 1)"
proof -
  let ?p = "policy_of c rounds" and ?H = "nat \<lceil>h\<rceil>"
  have lt: "streak (ps_perRound (policy_of c (take k rounds))) < ?H" if "k \<le> length rounds" for k
    using continue_streak [OF going [OF that] halt] by (simp add: zless_nat_eq_int_zless less_ceiling_iff)
  have "of_nat (length (ps_kept ?p)) * m \<le> B"
    using kept_gain [of c m rounds] best_bounded [OF bound(2,1)] m(1) by simp
  then have "of_nat (length (ps_kept ?p)) \<le> B / m" using m(2) by (simp add: pos_le_divide_eq)
  then have K: "length (ps_kept ?p) \<le> nat \<lfloor>B / m\<rfloor>" by (simp add: le_nat_iff le_floor_iff)
  have "length rounds \<le> ?H * length (ps_kept ?p) + streak (ps_perRound ?p)"
    by (rule rounds_by_kept) (rule lt)
  also have "\<dots> < ?H * length (ps_kept ?p) + ?H" using lt [of "length rounds"] by simp
  also have "\<dots> \<le> ?H * (nat \<lfloor>B / m\<rfloor> + 1)" using K by simp
  finally show ?thesis .
qed

section \<open>A reachable target ships\<close>

lemma best_probe_passes: "best_probe adj c target = Some v \<Longrightarrow> candidatePasses c target v"
proof -
  assume b: "best_probe adj c target = Some v"
  define xs where "xs = sort (filter (candidatePasses c target) (probe_candidates adj
    (tc_integerOnly (numericTypeConstraint (schema_field (numericPropertySchema c ''result'') ''type'')))
    (dflt (numericEnum (numericPropertySchema c ''result'')) (probe_boundaries adj c target))))"
  have "xs \<noteq> []" "v = (if higher c then hd xs else last xs)"
    using b by (auto simp: best_probe_def Let_def xs_def split: if_splits)
  then have "v \<in> set xs" by (simp split: if_splits)
  then show ?thesis by (simp add: xs_def)
qed

text \<open>A reachable verdict is a promise the policy keeps: when the pre-launch assessment
  calls the ship target reachable with a probe result, a first measured round reporting that
  probe (with the assessed standard error) is kept and ships - whatever neighbour function
  proposed the probe.\<close>

lemma reachable_target_ships:
  assumes "ta_status (assessResearchShipTarget adj c) = Reachable"
  shows "\<exists>v. ta_probe (assessResearchShipTarget adj c) = Some v
    \<and> re_decision (evaluateResearch c [\<lparr>rr_label = l, rr_result = Some v, rr_outcome = Some Measured,
         rr_resultStd = ta_std (assessResearchShipTarget adj c), rr_wallHours = w, rr_confirmFailed = False\<rparr>]) = Ship"
proof -
  let ?std = "chooseResultStdCandidate c"
  obtain target v where t: "rs_beat (stop_of c) = Some target" "best_probe adj c target = Some v"
    and a: "ta_probe (assessResearchShipTarget adj c) = Some v" "ta_std (assessResearchShipTarget adj c) = ?std"
    using assms by (auto simp: assessResearchShipTarget_def Let_def split: option.splits if_splits)
  let ?r = "\<lparr>rr_label = l, rr_result = Some v, rr_outcome = Some Measured, rr_resultStd = ?std,
     rr_wallHours = w, rr_confirmFailed = False\<rparr>"
  have "isBetter v (rc_baseline c) (higher c) (assessed_margin c)" "targetIsMet v target (higher c)"
    using best_probe_passes [OF t(2)] by (simp_all add: candidatePasses_def Let_def)
  moreover have "margin_of c ?r = assessed_margin c"
    by (simp add: margin_of_def improvementMargin_def assessed_margin_def)
  ultimately have "keeps c (rc_baseline c) ?r" by (simp add: keeps_def acceptable_def)
  then have "policy_of c [?r] = \<lparr>ps_kept = [l], ps_best = v, ps_perRound = [True]\<rparr>"
    using policy_snoc [of c "[]" ?r] by (simp add: policy_Nil Let_def)
  then show ?thesis
    using a t(1) \<open>targetIsMet v target (higher c)\<close> by (simp add: evaluateResearch_def research_verdict_def Let_def)
qed


section \<open>A worked configuration\<close>

definition demo_research :: research_config where
  "demo_research = \<lparr>rc_baseline = 10, rc_higherIsBetter = None,
     rc_stop = Some \<lparr>rs_beat = Some 20, rs_maxRounds = Some 9, rs_maxWallHours = None,
       rs_haltAfterNoImprovement = Some 2, rs_minImprovement = Some 1, rs_seMultiple = None\<rparr>,
     rc_integrity = None, rc_resultSchema = None, rc_resultFile = None\<rparr>"

definition demo_round :: "rat \<Rightarrow> research_round" where
  "demo_round v = \<lparr>rr_label = ''r'', rr_result = Some v, rr_outcome = None, rr_resultStd = None,
     rr_wallHours = None, rr_confirmFailed = False\<rparr>"

theorem running_best_supported_witness:
  "re_runningBest (evaluateResearch demo_research [demo_round 12, demo_round (25/2)]) = 12
   \<and> \<not> isBetter (25/2) 12 True (margin_of demo_research (demo_round (25/2)))"
proof -
  have n: "0 \<le> dflt (rs_seMultiple (stop_of demo_research)) 1" by code_simp
  have b: "re_runningBest (evaluateResearch demo_research [demo_round 12, demo_round (25/2)]) = 12" by code_simp
  have "acceptable (demo_round (25/2))" "the (rr_result (demo_round (25/2))) = 25/2" "higher demo_research" by code_simp+
  with running_best_supported [OF n, of "[demo_round 12, demo_round (25/2)]"] b show ?thesis by simp
qed

theorem research_loop_ends_witness:
  "length [demo_round 12] < nat \<lceil>2 :: rat\<rceil> * (nat \<lfloor>(5 :: rat) / 1\<rfloor> + 1)"
proof (rule research_loop_ends [where c = demo_research])
  show "re_decision (evaluateResearch demo_research (take k [demo_round 12])) = Continue" if "k \<le> length [demo_round 12]" for k
  proof -
    from that have "k = 0 \<or> k = 1" by auto
    moreover have "re_decision (evaluateResearch demo_research []) = Continue"
      "re_decision (evaluateResearch demo_research [demo_round 12]) = Continue" by code_simp+
    ultimately show ?thesis by auto
  qed
qed (simp_all add: demo_research_def stop_of_def demo_round_def gain_def higher_def)

definition demo_enum :: research_config where
  "demo_enum = demo_research\<lparr>rc_resultSchema :=
     Some [(''properties'', JObj [(''result'', JObj [(''enum'', JArr [JNum 5, JNum 25])])])]\<rparr>"

lemma demo_enum_probe: "best_probe (\<lambda>x up. x) demo_enum 20 = Some 25"
proof -
  have s: "numericPropertySchema demo_enum ''result'' = [(''enum'', JArr [JNum 5, JNum 25])]" by code_simp
  have r: "chooseResultStdCandidate demo_enum = None" "outlier_limit demo_enum = None" "field_floor demo_enum ''result'' = None"
    "rejects_positive demo_enum ''result'' = False" "higher demo_enum" "rc_baseline demo_enum = 10"
    "assessed_margin demo_enum = 1" by code_simp+
  have f: "schema_field [(''enum'', JArr [JNum 5, JNum 25])] ''enum'' = JArr [JNum 5, JNum 25]"
    "schema_field [(''enum'', JArr [JNum 5, JNum 25])] ''type'' = JUndef"
    "schema_number [(''enum'', JArr [JNum 5, JNum 25])] ''minimum'' = None"
    "schema_number [(''enum'', JArr [JNum 5, JNum 25])] ''maximum'' = None"
    "numericEnum [(''enum'', JArr [JNum 5, JNum 25])] = Some [5, 25]"
    "numericTypeConstraint JUndef = \<lparr>tc_allowed = True, tc_integerOnly = False\<rparr>" by code_simp+
  have u: "probe_candidates (\<lambda>x up. x) False [5, 25 :: rat] = [5, 25]" by code_simp
  have big: "(25 :: rat) \<le> MAX_VALUE" "- MAX_VALUE \<le> (20 :: rat)" by (simp_all add: MAX_VALUE_def)
  have "probe_lower demo_enum 20 = 20" "probe_upper demo_enum 20 = MAX_VALUE"
    using big by (simp_all add: probe_lower_def probe_upper_def s r f Let_def raise_to_def lower_to_def)
  then have "candidatePasses demo_enum 20 25" "\<not> candidatePasses demo_enum 20 5"
    using big by (simp_all add: candidatePasses_def s r f Let_def schemaAllowsNumericValue_def isBetter_def targetIsMet_def)
  then show ?thesis by (simp add: best_probe_def s r f u Let_def)
qed

end
