(* ===== verification/Plan_Retry.thy ===== *)
theory Plan_Retry
  imports Scope
begin

text \<open>
  The bounded plan-retry chain (\<open>src/src/plan-retry-monotone.ts\<close>): every refused planner
  proposal is snapshotted into create-only evidence, bound by digest, and counted against a
  budget the first refusal fixes.

  SHA-256 (\<open>node:crypto\<close>) is the argument \<open>sha\<close> and the locale collation of
  \<open>localeCompare\<close> the argument \<open>before\<close>; nothing is assumed of either.  The run directory is a
  record of the files the module reads and writes.  Lengths in bytes are those of ASCII text.
  A raise (\<open>Inl\<close>) may leave create-only evidence of its attempt behind, never a changed state.
\<close>

section \<open>Data\<close>

datatype finding_source = FromAdmission | FromStructure

record requirement =
  rq_id :: string
  rq_detail :: string
  rq_source :: finding_source

record plan_pair =
  pp_dispatch :: string
  pp_checks :: "string option"

record pair_ref =
  pr_digest :: string
  pr_dispatchPath :: string
  pr_dispatchSha :: string
  pr_checksPath :: "string option"
  pr_checksSha :: "string option"

datatype retry_disposition = IncumbentInitialized | IncumbentAdvanced | RegressionQuarantined | Admitted

record attempt_record =
  ar_index :: int
  ar_proposed :: pair_ref
  ar_effective :: pair_ref
  ar_unsatisfied :: "requirement list"
  ar_satisfied :: "requirement list"
  ar_disposition :: retry_disposition
  ar_resolved :: "string list"
  ar_regressed :: "string list"

datatype terminal_reason = Exhausted int "requirement list" | ReplacementAdmitted

record chain_state =
  ch_stageId :: string
  ch_iteration :: nat
  ch_maxAttempts :: int
  ch_incumbent :: pair_ref
  ch_unsatisfied :: "requirement list"
  ch_satisfied :: "requirement list"
  ch_attempts :: "attempt_record list"
  ch_terminal :: "terminal_reason option"

record plan_dir =
  pd_dispatch :: "string option"
  pd_checks :: "string option"
  pd_files :: "(string \<times> string) list"
  \<comment> \<open>the create-only evidence files\<close>
  pd_observations :: "(string \<times> attempt_record) list"
  pd_state :: "(unit + chain_state) option"
  \<comment> \<open>\<open>plan_retry_state.json\<close>: absent, malformed, or the state it holds\<close>

record candidate =
  cd_stageId :: string
  cd_iteration :: nat
  cd_attemptIndex :: int
  cd_proposed :: plan_pair
  cd_effective :: plan_pair
  cd_proposedDigest :: string
  cd_effectiveDigest :: string

datatype retry_error =
    InvalidShape
  | PathEscapes string
  | EvidenceChanged string
  | MissingEvidence string
  | DispatchDigestMismatch
  | ChecksDigestMismatch
  | PairDigestMismatch
  | BadMaxAttempts int

section \<open>Digests\<close>

definition newline :: string where
  "newline = [CHR 0x0A]"

definition planRetryPairDigest :: "(string \<Rightarrow> string) \<Rightarrow> plan_pair \<Rightarrow> string" where
  "planRetryPairDigest sha pair =
     sha (join_with newline
       [''dispatch:'' @ dec (length (pp_dispatch pair)),
        pp_dispatch pair,
        (case pp_checks pair of
           None \<Rightarrow> ''reality-checks:absent''
         | Some c \<Rightarrow> ''reality-checks:'' @ dec (length c) @ newline @ c)])"

record dispatch_error =
  de_code :: string
  de_message :: string
  de_stageId :: "string option"
  de_field :: "string option"

definition planRetryRequirement :: "(string \<Rightarrow> string) \<Rightarrow> string + dispatch_error \<Rightarrow> finding_source \<Rightarrow> requirement" where
  "planRetryRequirement sha err source =
     (case err of
        Inl text \<Rightarrow> \<lparr>rq_id = ''legacy:'' @ take 16 (sha text), rq_detail = text, rq_source = source\<rparr>
      | Inr e \<Rightarrow> \<lparr>rq_id = join_with '':'' (List.map_filter id [Some (de_code e), de_stageId e, de_field e]),
                  rq_detail = de_message e, rq_source = source\<rparr>)"

section \<open>Evidence files\<close>

definition escapes_run :: "string \<Rightarrow> bool" where
  \<comment> \<open>of a path relative to the run directory; an absolute one is never recorded\<close>
  "escapes_run path =
     (let rel = strip_slash (posix_normalize path)
      in isAbsolute path \<or> rel = [] \<or> rel = ''.'' \<or> starts_with ''..'' rel)"

definition safeRunRelativePath :: "string \<Rightarrow> retry_error + string" where
  "safeRunRelativePath path = (if escapes_run path then Inl (PathEscapes path) else Inr path)"

definition readState :: "plan_dir \<Rightarrow> retry_error + chain_state option" where
  "readState d =
     (case pd_state d of
        None \<Rightarrow> Inr None
      | Some (Inl _) \<Rightarrow> Inl InvalidShape
      | Some (Inr st) \<Rightarrow>
          if ch_maxAttempts st < 1 \<or> ch_maxAttempts st > 2 ^ 53 - 1 then Inl InvalidShape else Inr (Some st))"

definition writeCreateOnly :: "string \<Rightarrow> string \<Rightarrow> plan_dir \<Rightarrow> retry_error + plan_dir" where
  "writeCreateOnly path bytes d =
     (case map_of (pd_files d) path of
        Some old \<Rightarrow> if old \<noteq> bytes then Inl (EvidenceChanged path) else Inr d
      | None \<Rightarrow> Inr (d\<lparr>pd_files := pd_files d @ [(path, bytes)]\<rparr>))"

definition write_evidence :: "string \<Rightarrow> string \<Rightarrow> plan_dir \<Rightarrow> retry_error + plan_dir" where
  "write_evidence path bytes d = rbind (safeRunRelativePath path) (\<lambda>p. writeCreateOnly p bytes d)"

definition snapshotPair ::
  "(string \<Rightarrow> string) \<Rightarrow> string \<Rightarrow> string \<Rightarrow> plan_pair \<Rightarrow> plan_dir \<Rightarrow> retry_error + (plan_dir \<times> pair_ref)" where
  "snapshotPair sha base label pair d =
     (let dispatchPath = base @ ''/'' @ label @ ''_dispatch.yaml'';
          checksPath = base @ ''/'' @ label @ ''_reality_checks.md''
      in rbind (write_evidence dispatchPath (pp_dispatch pair) d) (\<lambda>d.
         rbind (case pp_checks pair of None \<Rightarrow> Inr d | Some c \<Rightarrow> write_evidence checksPath c d) (\<lambda>d.
           Inr (d, \<lparr>pr_digest = planRetryPairDigest sha pair, pr_dispatchPath = dispatchPath,
                    pr_dispatchSha = sha (pp_dispatch pair),
                    pr_checksPath = map_option (\<lambda>_. checksPath) (pp_checks pair),
                    pr_checksSha = map_option sha (pp_checks pair)\<rparr>))))"

definition read_evidence :: "plan_dir \<Rightarrow> string \<Rightarrow> retry_error + string" where
  "read_evidence d path =
     rbind (safeRunRelativePath path) (\<lambda>p.
       case map_of (pd_files d) p of None \<Rightarrow> Inl (MissingEvidence p) | Some bytes \<Rightarrow> Inr bytes)"

definition readPairRef :: "(string \<Rightarrow> string) \<Rightarrow> plan_dir \<Rightarrow> pair_ref \<Rightarrow> retry_error + plan_pair" where
  "readPairRef sha d ref =
     rbind (read_evidence d (pr_dispatchPath ref)) (\<lambda>dispatch.
       if sha dispatch \<noteq> pr_dispatchSha ref then Inl DispatchDigestMismatch
       else rbind (case pr_checksPath ref of
                     None \<Rightarrow> Inr None
                   | Some p \<Rightarrow> rbind (read_evidence d p) (\<lambda>c.
                       if Some (sha c) \<noteq> pr_checksSha ref then Inl ChecksDigestMismatch else Inr (Some c)))
              (\<lambda>checks.
                let pair = \<lparr>pp_dispatch = dispatch, pp_checks = checks\<rparr>
                in if planRetryPairDigest sha pair \<noteq> pr_digest ref then Inl PairDigestMismatch else Inr pair))"

section \<open>Operations\<close>

definition same_chain :: "chain_state \<Rightarrow> string \<Rightarrow> nat \<Rightarrow> bool" where
  "same_chain st stageId iteration = (ch_stageId st = stageId \<and> ch_iteration st = iteration)"

definition preparePlanRetryCandidate ::
  "(string \<Rightarrow> string) \<Rightarrow> string \<Rightarrow> nat \<Rightarrow> int \<Rightarrow> plan_dir \<Rightarrow> retry_error + candidate" where
  "preparePlanRetryCandidate sha stageId iteration attemptIndex d =
     (let proposed = \<lparr>pp_dispatch = dflt (pd_dispatch d) [], pp_checks = pd_checks d\<rparr>
      in rbind (readState d) (\<lambda>state.
           let active = (case state of Some st \<Rightarrow> if same_chain st stageId iteration \<and> ch_terminal st = None then Some st else None
                                     | None \<Rightarrow> None);
               index = (case active of Some st \<Rightarrow> max attemptIndex (int (length (ch_attempts st)) + 1) | None \<Rightarrow> attemptIndex)
           in rbind (case active of Some st \<Rightarrow> rbind (readPairRef sha d (ch_incumbent st)) (\<lambda>_. Inr ()) | None \<Rightarrow> Inr ())
                (\<lambda>_. Inr \<lparr>cd_stageId = stageId, cd_iteration = iteration, cd_attemptIndex = index,
                          cd_proposed = proposed, cd_effective = proposed,
                          cd_proposedDigest = planRetryPairDigest sha proposed,
                          cd_effectiveDigest = planRetryPairDigest sha proposed\<rparr>)))"

fun insort_by :: "('a \<Rightarrow> 'a \<Rightarrow> bool) \<Rightarrow> 'a \<Rightarrow> 'a list \<Rightarrow> 'a list" where
  "insort_by before x [] = [x]"
| "insort_by before x (y # ys) = (if before y x then y # insort_by before x ys else x # y # ys)"

definition dedupeRequirements :: "(string \<Rightarrow> string \<Rightarrow> bool) \<Rightarrow> requirement list \<Rightarrow> requirement list" where
  "dedupeRequirements before rs =
     foldr (insort_by (\<lambda>a b. before (rq_id a) (rq_id b))) (map snd (amap_of rq_id rs)) []"

definition evidence_root :: "candidate \<Rightarrow> string" where
  "evidence_root c =
     ''plan_retry/iteration_'' @ dec (cd_iteration c) @ ''/attempt_'' @ dec (nat (cd_attemptIndex c)) @ ''_''
     @ take 12 (cd_proposedDigest c)"

record refusal_result =
  rf_state :: chain_state
  rf_stop :: bool
  rf_reason :: "terminal_reason option"
  rf_disposition :: retry_disposition

definition refused_state ::
  "candidate \<Rightarrow> int \<Rightarrow> chain_state option \<Rightarrow> requirement list \<Rightarrow> requirement list \<Rightarrow> pair_ref \<Rightarrow> pair_ref \<Rightarrow> chain_state \<times> attempt_record" where
  "refused_state c maxAttempts previous unsatisfied satisfied proposedRef effectiveRef =
     (let resolved = sort (map rq_id (filter (\<lambda>r. rq_id r \<notin> rq_id ` set unsatisfied)
                        (case previous of Some p \<Rightarrow> ch_unsatisfied p | None \<Rightarrow> [])));
          attempt = \<lparr>ar_index = cd_attemptIndex c, ar_proposed = proposedRef, ar_effective = effectiveRef,
             ar_unsatisfied = unsatisfied, ar_satisfied = satisfied,
             ar_disposition = (if previous = None then IncumbentInitialized else IncumbentAdvanced),
             ar_resolved = resolved, ar_regressed = []\<rparr>;
          attempts = (case previous of Some p \<Rightarrow> ch_attempts p | None \<Rightarrow> []) @ [attempt];
          limit = (case previous of Some p \<Rightarrow> ch_maxAttempts p | None \<Rightarrow> maxAttempts)
      in (\<lparr>ch_stageId = cd_stageId c, ch_iteration = cd_iteration c, ch_maxAttempts = limit,
           ch_incumbent = effectiveRef, ch_unsatisfied = unsatisfied, ch_satisfied = satisfied, ch_attempts = attempts,
           ch_terminal = (if int (length attempts) \<ge> limit then Some (Exhausted limit unsatisfied) else None)\<rparr>, attempt))"

definition record_refusal ::
  "(string \<Rightarrow> string) \<Rightarrow> candidate \<Rightarrow> int \<Rightarrow> chain_state option \<Rightarrow> requirement list \<Rightarrow> requirement list \<Rightarrow>
   plan_dir \<Rightarrow> retry_error + (plan_dir \<times> refusal_result)" where
  "record_refusal sha c maxAttempts previous unsatisfied satisfied d =
     rbind (snapshotPair sha (evidence_root c) ''proposed'' (cd_proposed c) d) (\<lambda>(d, proposedRef).
     rbind (snapshotPair sha (evidence_root c) ''effective'' (cd_effective c) d) (\<lambda>(d, effectiveRef).
       case refused_state c maxAttempts previous unsatisfied satisfied proposedRef effectiveRef of
         (state, attempt) \<Rightarrow>
           Inr (d\<lparr>pd_observations := amap_set (evidence_root c) attempt (pd_observations d), pd_state := Some (Inr state)\<rparr>,
                \<lparr>rf_state = state, rf_stop = (ch_terminal state \<noteq> None), rf_reason = ch_terminal state,
                 rf_disposition = ar_disposition attempt\<rparr>)))"

definition recordPlanRetryRefusal ::
  "(string \<Rightarrow> string) \<Rightarrow> (string \<Rightarrow> string \<Rightarrow> bool) \<Rightarrow> candidate \<Rightarrow> int \<Rightarrow> requirement list \<Rightarrow> requirement list \<Rightarrow>
   plan_dir \<Rightarrow> retry_error + (plan_dir \<times> refusal_result)" where
  "recordPlanRetryRefusal sha before c maxAttempts unsatisfied satisfied d =
     (if maxAttempts < 1 \<or> maxAttempts > 2 ^ 53 - 1 then Inl (BadMaxAttempts maxAttempts)
      else rbind (readState d) (\<lambda>prior.
        let previous = (case prior of Some st \<Rightarrow> if same_chain st (cd_stageId c) (cd_iteration c) then Some st else None
                                    | None \<Rightarrow> None)
        in case previous of
             Some st \<Rightarrow>
               (case ch_terminal st of
                  Some reason \<Rightarrow>
                    Inr (d, \<lparr>rf_state = st, rf_stop = True, rf_reason = Some reason,
                             rf_disposition = (if ch_attempts st = [] then IncumbentInitialized
                                               else ar_disposition (last (ch_attempts st)))\<rparr>)
                | None \<Rightarrow> record_refusal sha c maxAttempts (Some st) (dedupeRequirements before unsatisfied)
                            (dedupeRequirements before satisfied) d)
           | None \<Rightarrow> record_refusal sha c maxAttempts None (dedupeRequirements before unsatisfied)
                       (dedupeRequirements before satisfied) d))"

definition admitted_state ::
  "candidate \<Rightarrow> chain_state \<Rightarrow> requirement list \<Rightarrow> pair_ref \<Rightarrow> pair_ref \<Rightarrow> chain_state \<times> attempt_record" where
  "admitted_state c prior satisfied proposedRef effectiveRef =
     (let attempt = \<lparr>ar_index = cd_attemptIndex c, ar_proposed = proposedRef, ar_effective = effectiveRef,
             ar_unsatisfied = [], ar_satisfied = satisfied, ar_disposition = Admitted,
             ar_resolved = sort (map rq_id (ch_unsatisfied prior)), ar_regressed = []\<rparr>
      in (prior\<lparr>ch_incumbent := effectiveRef, ch_unsatisfied := [], ch_satisfied := satisfied,
                ch_attempts := ch_attempts prior @ [attempt], ch_terminal := Some ReplacementAdmitted\<rparr>, attempt))"

definition recordPlanRetryAdmission ::
  "(string \<Rightarrow> string) \<Rightarrow> (string \<Rightarrow> string \<Rightarrow> bool) \<Rightarrow> candidate \<Rightarrow> requirement list \<Rightarrow> plan_dir \<Rightarrow> retry_error + plan_dir" where
  "recordPlanRetryAdmission sha before c satisfied d =
     rbind (readState d) (\<lambda>prior.
       case prior of
         None \<Rightarrow> Inr d
       | Some st \<Rightarrow>
           if \<not> same_chain st (cd_stageId c) (cd_iteration c) \<or> ch_terminal st \<noteq> None then Inr d
           else rbind (snapshotPair sha (evidence_root c) ''proposed'' (cd_proposed c) d) (\<lambda>(d, proposedRef).
                rbind (snapshotPair sha (evidence_root c) ''effective'' (cd_effective c) d) (\<lambda>(d, effectiveRef).
                  case admitted_state c st (dedupeRequirements before satisfied) proposedRef effectiveRef of
                    (state, attempt) \<Rightarrow>
                      Inr (d\<lparr>pd_observations := amap_set (evidence_root c) attempt (pd_observations d),
                             pd_state := Some (Inr state)\<rparr>))))"

definition readMonotonePlanRetryState :: "string option \<Rightarrow> nat option \<Rightarrow> plan_dir \<Rightarrow> retry_error + chain_state option" where
  "readMonotonePlanRetryState stageId iteration d =
     rbind (readState d) (\<lambda>state. Inr (case state of
        None \<Rightarrow> None
      | Some st \<Rightarrow>
          if (stageId \<noteq> None \<and> stageId \<noteq> Some [] \<and> stageId \<noteq> Some (ch_stageId st))
             \<or> (iteration \<noteq> None \<and> iteration \<noteq> Some (ch_iteration st)) then None else Some st))"

record retry_context =
  rx_dispatchPath :: string
  rx_dispatchSha :: string
  rx_pairDigest :: string
  rx_remaining :: int
  rx_requirements :: "requirement list"

definition buildMonotonePlanRetryContext ::
  "(string \<Rightarrow> string) \<Rightarrow> string \<Rightarrow> nat option \<Rightarrow> plan_dir \<Rightarrow> retry_error + retry_context option" where
  \<comment> \<open>the values the context text interpolates, in its order\<close>
  "buildMonotonePlanRetryContext sha stageId iteration d =
     rbind (readMonotonePlanRetryState (Some stageId) iteration d) (\<lambda>state.
       case state of
         None \<Rightarrow> Inr None
       | Some st \<Rightarrow>
           if ch_terminal st \<noteq> None then Inr None
           else rbind (readPairRef sha d (ch_incumbent st)) (\<lambda>_.
             Inr (Some \<lparr>rx_dispatchPath = pr_dispatchPath (ch_incumbent st), rx_dispatchSha = pr_dispatchSha (ch_incumbent st),
                        rx_pairDigest = pr_digest (ch_incumbent st),
                        rx_remaining = max 0 (ch_maxAttempts st - int (length (ch_attempts st))),
                        rx_requirements = ch_unsatisfied st\<rparr>)))"


section \<open>Evidence is create-only and verifiable\<close>

definition keeps_files :: "plan_dir \<Rightarrow> plan_dir \<Rightarrow> bool" where
  "keeps_files d d' = (\<forall>p bytes. map_of (pd_files d) p = Some bytes \<longrightarrow> map_of (pd_files d') p = Some bytes)"

lemma keeps_files_refl [simp]: "keeps_files d d"
  by (simp add: keeps_files_def)

lemma keeps_files_trans: "keeps_files a b \<Longrightarrow> keeps_files b c \<Longrightarrow> keeps_files a c"
  by (simp add: keeps_files_def)

lemma write_evidence_ok:
  assumes "write_evidence p bytes d = Inr d'"
  shows "keeps_files d d'" and "read_evidence d' p = Inr bytes" and "pd_state d' = pd_state d" and "\<not> escapes_run p"
proof -
  have e: "\<not> escapes_run p" "writeCreateOnly p bytes d = Inr d'"
    using assms by (auto simp: write_evidence_def safeRunRelativePath_def split: if_splits)
  show "\<not> escapes_run p" by (rule e(1))
  have "keeps_files d d' \<and> map_of (pd_files d') p = Some bytes \<and> pd_state d' = pd_state d"
    using e(2) by (auto simp: writeCreateOnly_def keeps_files_def map_add_def split: option.splits if_splits)
  then show "keeps_files d d'" "read_evidence d' p = Inr bytes" "pd_state d' = pd_state d"
    using e(1) by (simp_all add: read_evidence_def safeRunRelativePath_def)
qed

lemma read_evidence_kept:
  assumes "read_evidence d p = Inr bytes" and "keeps_files d d'"
  shows "read_evidence d' p = Inr bytes"
  using assms by (auto simp: read_evidence_def safeRunRelativePath_def keeps_files_def split: if_splits option.splits)

lemma readPairRef_kept:
  assumes "readPairRef sha d ref = Inr pair" and "keeps_files d d'"
  shows "readPairRef sha d' ref = Inr pair"
proof -
  obtain dispatch where disp: "read_evidence d (pr_dispatchPath ref) = Inr dispatch" using assms(1) by (auto simp: readPairRef_def)
  have "read_evidence d' (pr_dispatchPath ref) = Inr dispatch" by (rule read_evidence_kept [OF disp assms(2)])
  moreover have "read_evidence d' p = read_evidence d p" if checks: "pr_checksPath ref = Some p" for p
  proof -
    obtain c where "read_evidence d p = Inr c"
      using assms(1) checks by (auto simp: readPairRef_def disp split: if_splits)
    with read_evidence_kept [OF this assms(2)] show ?thesis by simp
  qed
  ultimately have "readPairRef sha d' ref = readPairRef sha d ref"
    by (cases "pr_checksPath ref") (simp_all add: readPairRef_def disp)
  with assms(1) show ?thesis by simp
qed

lemma snapshotPair_ok:
  assumes "snapshotPair sha base label pair d = Inr (d', ref)"
  shows "keeps_files d d'" and "readPairRef sha d' ref = Inr pair" and "pd_state d' = pd_state d"
proof -
  let ?dp = "base @ ''/'' @ label @ ''_dispatch.yaml''" and ?cp = "base @ ''/'' @ label @ ''_reality_checks.md''"
  obtain d1 where d1: "write_evidence ?dp (pp_dispatch pair) d = Inr d1"
    and d2: "(case pp_checks pair of None \<Rightarrow> Inr d1 | Some c \<Rightarrow> write_evidence ?cp c d1) = Inr d'"
    and ref: "ref = \<lparr>pr_digest = planRetryPairDigest sha pair, pr_dispatchPath = ?dp, pr_dispatchSha = sha (pp_dispatch pair),
       pr_checksPath = map_option (\<lambda>_. ?cp) (pp_checks pair), pr_checksSha = map_option sha (pp_checks pair)\<rparr>"
    using assms unfolding snapshotPair_def Let_def rbind_Inr_iff by blast
  note w1 = write_evidence_ok [OF d1]
  have k2: "keeps_files d1 d' \<and> pd_state d' = pd_state d1 \<and> (\<forall>c. pp_checks pair = Some c \<longrightarrow> read_evidence d' ?cp = Inr c)"
    using d2 write_evidence_ok by (cases "pp_checks pair") auto
  show "keeps_files d d'" using w1(1) k2 keeps_files_trans by blast
  show "pd_state d' = pd_state d" using w1(3) k2 by simp
  have "read_evidence d' ?dp = Inr (pp_dispatch pair)" using read_evidence_kept [OF w1(2)] k2 by blast
  then show "readPairRef sha d' ref = Inr pair"
    using k2 by (cases pair; cases "pp_checks pair") (simp_all add: readPairRef_def ref)
qed

lemma readPairRef_files: "pd_files d' = pd_files d \<Longrightarrow> readPairRef sha d' ref = readPairRef sha d ref"
proof -
  assume "pd_files d' = pd_files d"
  then have "read_evidence d' = read_evidence d" by (simp add: read_evidence_def fun_eq_iff)
  then show ?thesis unfolding readPairRef_def by (simp only:)
qed

lemma record_refusal_ok:
  assumes "record_refusal sha c maxAttempts previous unsat sat d = Inr (d', res)"
  shows "keeps_files d d'" and "pd_state d' = Some (Inr (rf_state res))"
    and "readPairRef sha d' (ch_incumbent (rf_state res)) = Inr (cd_effective c)"
    and "\<exists>p e. rf_state res = fst (refused_state c maxAttempts previous unsat sat p e)"
    and "rf_stop res \<longleftrightarrow> ch_terminal (rf_state res) \<noteq> None"
proof -
  obtain d1 pr where s1: "snapshotPair sha (evidence_root c) ''proposed'' (cd_proposed c) d = Inr (d1, pr)"
    using assms by (cases "snapshotPair sha (evidence_root c) ''proposed'' (cd_proposed c) d") (auto simp: record_refusal_def)
  obtain d2 er where s2: "snapshotPair sha (evidence_root c) ''effective'' (cd_effective c) d1 = Inr (d2, er)"
    using assms s1 by (cases "snapshotPair sha (evidence_root c) ''effective'' (cd_effective c) d1") (auto simp: record_refusal_def)
  have r: "d' = d2\<lparr>pd_observations := amap_set (evidence_root c) (snd (refused_state c maxAttempts previous unsat sat pr er)) (pd_observations d2),
         pd_state := Some (Inr (fst (refused_state c maxAttempts previous unsat sat pr er)))\<rparr>"
    and st: "rf_state res = fst (refused_state c maxAttempts previous unsat sat pr er)"
    and stop: "rf_stop res \<longleftrightarrow> ch_terminal (rf_state res) \<noteq> None"
    using assms by (auto simp: record_refusal_def s1 s2 refused_state_def Let_def)
  have f: "pd_files d' = pd_files d2" by (simp add: r)
  show "keeps_files d d'"
    using snapshotPair_ok(1) [OF s1] snapshotPair_ok(1) [OF s2] f by (simp add: keeps_files_def)
  show "pd_state d' = Some (Inr (rf_state res))" by (simp add: r st)
  show "readPairRef sha d' (ch_incumbent (rf_state res)) = Inr (cd_effective c)"
    using snapshotPair_ok(2) [OF s2] readPairRef_files [OF f] by (simp add: st refused_state_def Let_def)
  show "\<exists>p e. rf_state res = fst (refused_state c maxAttempts previous unsat sat p e)" using st by blast
  show "rf_stop res \<longleftrightarrow> ch_terminal (rf_state res) \<noteq> None" by (rule stop)
qed


text \<open>A recorded refusal is durable and verifiable: when a proposal is refused in a chain that
  has not ended, the state file holds exactly the state returned, the incumbent reference reads
  back - through every digest check - the proposal just refused, and no evidence file changes.\<close>

lemma refusal_reads_back:
  assumes "recordPlanRetryRefusal sha before c maxAttempts unsat sat d = Inr (d', res)"
    and "\<And>st. readState d = Inr (Some st) \<Longrightarrow> same_chain st (cd_stageId c) (cd_iteration c) \<Longrightarrow> ch_terminal st = None"
  shows "pd_state d' = Some (Inr (rf_state res))
    \<and> readPairRef sha d' (ch_incumbent (rf_state res)) = Inr (cd_effective c)
    \<and> (\<forall>ref pair. readPairRef sha d ref = Inr pair \<longrightarrow> readPairRef sha d' ref = Inr pair)"
proof -
  obtain prior where prior: "readState d = Inr prior" and range: "\<not> (maxAttempts < 1 \<or> maxAttempts > 2 ^ 53 - 1)"
    using assms(1) by (auto simp: recordPlanRetryRefusal_def split: if_splits)
  obtain previous where r: "record_refusal sha c maxAttempts previous (dedupeRequirements before unsat)
      (dedupeRequirements before sat) d = Inr (d', res)"
  proof (cases "\<exists>st. prior = Some st \<and> same_chain st (cd_stageId c) (cd_iteration c)")
    case True
    then obtain st where st: "prior = Some st" "same_chain st (cd_stageId c) (cd_iteration c)" by blast
    with assms(2) prior have "ch_terminal st = None" by blast
    with assms(1) prior range st show ?thesis using that by (simp add: recordPlanRetryRefusal_def)
  next
    case False
    with assms(1) prior range show ?thesis
      using that [of None] by (cases prior) (auto simp: recordPlanRetryRefusal_def)
  qed
  show ?thesis using record_refusal_ok [OF r] readPairRef_kept by blast
qed

section \<open>The chain is bounded\<close>

record retry_round =
  rd_dispatch :: "string option"
  rd_checks :: "string option"
  rd_index :: int
  rd_max :: int
  rd_unsat :: "requirement list"
  rd_sat :: "requirement list"

definition refuse_round ::
  "(string \<Rightarrow> string) \<Rightarrow> (string \<Rightarrow> string \<Rightarrow> bool) \<Rightarrow> string \<Rightarrow> nat \<Rightarrow> retry_round \<Rightarrow> plan_dir \<Rightarrow>
   retry_error + (plan_dir \<times> refusal_result)" where
  \<comment> \<open>the planner writes a proposal, which is prepared and refused\<close>
  "refuse_round sha before sid it rd d =
     (let d = d\<lparr>pd_dispatch := rd_dispatch rd, pd_checks := rd_checks rd\<rparr>
      in rbind (preparePlanRetryCandidate sha sid it (rd_index rd) d) (\<lambda>c.
           recordPlanRetryRefusal sha before c (rd_max rd) (rd_unsat rd) (rd_sat rd) d))"

fun refuse_rounds ::
  "(string \<Rightarrow> string) \<Rightarrow> (string \<Rightarrow> string \<Rightarrow> bool) \<Rightarrow> string \<Rightarrow> nat \<Rightarrow> retry_round list \<Rightarrow> plan_dir \<Rightarrow>
   retry_error + (plan_dir \<times> refusal_result list)" where
  "refuse_rounds sha before sid it [] d = Inr (d, [])"
| "refuse_rounds sha before sid it (rd # rds) d =
     rbind (refuse_round sha before sid it rd d) (\<lambda>(d, res).
       rbind (refuse_rounds sha before sid it rds d) (\<lambda>(d, rs). Inr (d, res # rs)))"

definition in_chain :: "string \<Rightarrow> nat \<Rightarrow> int \<Rightarrow> nat \<Rightarrow> chain_state \<Rightarrow> bool" where
  \<comment> \<open>\<open>n\<close> refusals recorded under the bound \<open>m\<close>\<close>
  "in_chain sid it m n st =
     (same_chain st sid it \<and> ch_maxAttempts st = m \<and> 1 \<le> m \<and> m \<le> 2 ^ 53 - 1
      \<and> length (ch_attempts st) = min n (nat m) \<and> (ch_terminal st \<noteq> None \<longleftrightarrow> m \<le> int n))"

lemma prepared_coordinates:
  "preparePlanRetryCandidate sha sid it i d = Inr c \<Longrightarrow> cd_stageId c = sid \<and> cd_iteration c = it"
  by (auto simp: preparePlanRetryCandidate_def Let_def)

lemma refuse_fresh:
  assumes "refuse_round sha before sid it rd d = Inr (d', res)" and "pd_state d = None"
  shows "pd_state d' = Some (Inr (rf_state res)) \<and> in_chain sid it (rd_max rd) 1 (rf_state res)
    \<and> (rf_stop res \<longleftrightarrow> rd_max rd \<le> 1)"
proof -
  let ?d = "d\<lparr>pd_dispatch := rd_dispatch rd, pd_checks := rd_checks rd\<rparr>"
  obtain c where c: "preparePlanRetryCandidate sha sid it (rd_index rd) ?d = Inr c"
    and r: "recordPlanRetryRefusal sha before c (rd_max rd) (rd_unsat rd) (rd_sat rd) ?d = Inr (d', res)"
    using assms(1) by (auto simp: refuse_round_def Let_def)
  have m: "1 \<le> rd_max rd" "rd_max rd \<le> 2 ^ 53 - 1"
    using r by (auto simp: recordPlanRetryRefusal_def split: if_splits)
  have rr: "record_refusal sha c (rd_max rd) None (dedupeRequirements before (rd_unsat rd))
      (dedupeRequirements before (rd_sat rd)) ?d = Inr (d', res)"
    using r assms(2) by (auto simp: recordPlanRetryRefusal_def readState_def split: if_splits)
  note k = record_refusal_ok [OF rr]
  obtain p e where st: "rf_state res = fst (refused_state c (rd_max rd) None (dedupeRequirements before (rd_unsat rd))
      (dedupeRequirements before (rd_sat rd)) p e)" using k(4) by blast
  have "in_chain sid it (rd_max rd) 1 (rf_state res)"
    using m prepared_coordinates [OF c] by (auto simp: st refused_state_def Let_def in_chain_def same_chain_def)
  with k(2,5) show ?thesis by (simp add: in_chain_def)
qed

lemma refuse_next:
  assumes "refuse_round sha before sid it rd d = Inr (d', res)" and "pd_state d = Some (Inr st)" and "in_chain sid it m n st"
  shows "pd_state d' = Some (Inr (rf_state res)) \<and> in_chain sid it m (Suc n) (rf_state res)
    \<and> (rf_stop res \<longleftrightarrow> m \<le> int (Suc n)) \<and> (m \<le> int n \<longrightarrow> rf_state res = st)"
proof -
  let ?d = "d\<lparr>pd_dispatch := rd_dispatch rd, pd_checks := rd_checks rd\<rparr>"
  obtain c where c: "preparePlanRetryCandidate sha sid it (rd_index rd) ?d = Inr c"
    and r: "recordPlanRetryRefusal sha before c (rd_max rd) (rd_unsat rd) (rd_sat rd) ?d = Inr (d', res)"
    using assms(1) by (auto simp: refuse_round_def Let_def)
  note co = prepared_coordinates [OF c]
  have rs: "readState ?d = Inr (Some st)" "same_chain st (cd_stageId c) (cd_iteration c)"
    using assms(2,3) co by (simp_all add: readState_def in_chain_def)
  show ?thesis
  proof (cases "ch_terminal st")
    case (Some reason)
    then have "rf_state res = st" "rf_stop res" "pd_state d' = Some (Inr st)"
      using r rs assms(2) by (auto simp: recordPlanRetryRefusal_def split: if_splits)
    then show ?thesis using assms(3) Some by (auto simp: in_chain_def)
  next
    case None
    have rr: "record_refusal sha c (rd_max rd) (Some st) (dedupeRequirements before (rd_unsat rd))
        (dedupeRequirements before (rd_sat rd)) ?d = Inr (d', res)"
      using r rs None by (auto simp: recordPlanRetryRefusal_def split: if_splits)
    note k = record_refusal_ok [OF rr]
    obtain p e where st: "rf_state res = fst (refused_state c (rd_max rd) (Some st) (dedupeRequirements before (rd_unsat rd))
        (dedupeRequirements before (rd_sat rd)) p e)" using k(4) by blast
    have "in_chain sid it m (Suc n) (rf_state res)"
      using assms(3) None co by (auto simp: st refused_state_def Let_def in_chain_def same_chain_def)
    with k(2,5) assms(3) None show ?thesis by (auto simp: in_chain_def)
  qed
qed

lemma refuse_rest:
  "refuse_rounds sha before sid it rds d = Inr (d', rs) \<Longrightarrow> pd_state d = Some (Inr st) \<Longrightarrow> in_chain sid it m n st \<Longrightarrow>
     length rs = length rds \<and> (\<forall>i < length rs. in_chain sid it m (n + Suc i) (rf_state (rs ! i))
        \<and> (rf_stop (rs ! i) \<longleftrightarrow> m \<le> int (n + Suc i)))"
proof (induction rds arbitrary: d n st rs)
  case (Cons rd rds)
  obtain d1 res where step: "refuse_round sha before sid it rd d = Inr (d1, res)"
    using Cons.prems(1) by auto
  then obtain rs' where rest: "refuse_rounds sha before sid it rds d1 = Inr (d', rs')" "rs = res # rs'"
    using Cons.prems(1) by auto
  note k = refuse_next [OF step Cons.prems(2,3)]
  have IH: "length rs' = length rds \<and> (\<forall>i < length rs'. in_chain sid it m (Suc n + Suc i) (rf_state (rs' ! i))
        \<and> (rf_stop (rs' ! i) \<longleftrightarrow> m \<le> int (Suc n + Suc i)))"
    using Cons.IH [OF rest(1), of "rf_state res" "Suc n"] k by blast
  have "in_chain sid it m (n + Suc i) (rf_state (rs ! i)) \<and> (rf_stop (rs ! i) \<longleftrightarrow> m \<le> int (n + Suc i))" if "i < length rs" for i
    using that IH k rest(2) by (cases i) auto
  with IH rest(2) show ?case by simp
qed simp

text \<open>C20. The planner retry chain is bounded by its first refusal: whatever later callers ask for,
  the \<open>i\<close>-th refusal stops the chain exactly when \<open>i\<close> reaches the bound the first one
  fixed, never more attempts than that are recorded, and the bound itself never changes.\<close>

theorem plan_retry_bounded:
  assumes "refuse_rounds sha before sid it (rd # rds) d = Inr (d', rs)" and "pd_state d = None" and "i < length rs"
  shows "(rf_stop (rs ! i) \<longleftrightarrow> rd_max rd \<le> int i + 1)
    \<and> length (ch_attempts (rf_state (rs ! i))) = min (Suc i) (nat (rd_max rd))
    \<and> ch_maxAttempts (rf_state (rs ! i)) = rd_max rd"
proof -
  obtain d1 res where step: "refuse_round sha before sid it rd d = Inr (d1, res)" using assms(1) by auto
  then obtain rs' where rest: "refuse_rounds sha before sid it rds d1 = Inr (d', rs')" "rs = res # rs'"
    using assms(1) by auto
  note f = refuse_fresh [OF step assms(2)]
  have "pd_state d1 = Some (Inr (rf_state res))" "in_chain sid it (rd_max rd) 1 (rf_state res)" using f by blast+
  note k = refuse_rest [OF rest(1) this]
  show ?thesis
  proof (cases i)
    case 0
    with f rest(2) show ?thesis by (auto simp: in_chain_def)
  next
    case (Suc j)
    with k assms(3) rest(2) have "in_chain sid it (rd_max rd) (1 + Suc j) (rf_state (rs ! i))"
      "rf_stop (rs ! i) \<longleftrightarrow> rd_max rd \<le> int (1 + Suc j)" by auto
    with Suc show ?thesis by (auto simp: in_chain_def)
  qed
qed

definition demo_dir :: plan_dir where
  "demo_dir = \<lparr>pd_dispatch = None, pd_checks = None, pd_files = [], pd_observations = [], pd_state = None\<rparr>"

definition demo_refusal :: "string \<Rightarrow> int \<Rightarrow> retry_round" where
  "demo_refusal text limit = \<lparr>rd_dispatch = Some text, rd_checks = None, rd_index = 1, rd_max = limit,
     rd_unsat = [\<lparr>rq_id = ''a'', rq_detail = ''b'', rq_source = FromAdmission\<rparr>], rd_sat = []\<rparr>"

definition demo_outcome :: "retry_error + (plan_dir \<times> refusal_result list)" where
  "demo_outcome = refuse_rounds (\<lambda>x. take 40 x) (<) ''plan'' 1 [demo_refusal ''a'' 2, demo_refusal ''b'' 9] demo_dir"

lemma demo_outcome_ok: "(case demo_outcome of Inr (d, rs) \<Rightarrow> length rs = 2 | Inl _ \<Rightarrow> False)"
  by code_simp

theorem plan_retry_bounded_witness:
  "\<exists>d rs. demo_outcome = Inr (d, rs) \<and> rf_stop (rs ! 1) \<and> ch_maxAttempts (rf_state (rs ! 1)) = 2"
proof -
  obtain d rs where o: "demo_outcome = Inr (d, rs)" "length rs = 2"
    using demo_outcome_ok by (auto split: sum.splits)
  have m: "rd_max (demo_refusal ''a'' 2) = 2" "pd_state demo_dir = None"
    by (simp_all add: demo_refusal_def demo_dir_def)
  from plan_retry_bounded [OF o(1) [unfolded demo_outcome_def] m(2), of 1] o m(1) show ?thesis by auto
qed

definition demo_candidate :: candidate where
  "demo_candidate = \<lparr>cd_stageId = ''plan'', cd_iteration = 1, cd_attemptIndex = 1,
     cd_proposed = \<lparr>pp_dispatch = ''a'', pp_checks = Some ''c''\<rparr>, cd_effective = \<lparr>pp_dispatch = ''a'', pp_checks = Some ''c''\<rparr>,
     cd_proposedDigest = ''d'', cd_effectiveDigest = ''d''\<rparr>"

lemma demo_refused: "(case recordPlanRetryRefusal (\<lambda>x. x) (<) demo_candidate 3 [] [] demo_dir of Inr _ \<Rightarrow> True | Inl _ \<Rightarrow> False)"
  by code_simp

end
