(* ===== verification/Ownership.thy ===== *)
theory Ownership
  imports Lifecycle Condition
begin

text \<open>
  Who owns a project (\<open>src/src/run-lock.ts\<close>, \<open>process-liveness.ts\<close> and \<open>run-standing.ts\<close>):
  the scheduler's process identity and the observation that decides whether a run may be
  recovered or its project admitted.

  What the operating system reports of its processes at one moment is a \<open>host\<close>: the outcome of
  signal zero, the text of \<open>/proc/<pid>/stat\<close> and \<open>cmdline\<close>, the output of \<open>ps\<close>, and whether an
  argument resolves to the engine's entry point.  The physical run directory
  (\<open>resolveRunIdentity\<close>) is resolved by the caller.
\<close>

section \<open>Text\<close>

fun words_from :: "string \<Rightarrow> string \<Rightarrow> string list" where
  "words_from w [] = (if w = [] then [] else [w])"
| "words_from w (c # cs) =
     (if is_space c then (if w = [] then words_from [] cs else w # words_from [] cs)
      else words_from (w @ [c]) cs)"

definition words :: "string \<Rightarrow> string list" where
  \<comment> \<open>\<open>s.split(/\s+/).filter(Boolean)\<close>\<close>
  "words s = words_from [] s"

definition spaced :: "string \<Rightarrow> string" where
  \<comment> \<open>\<open>s.replace(/\s+/g, ' ').trim()\<close>\<close>
  "spaced s = join_with '' '' (words s)"

fun contains :: "string \<Rightarrow> string \<Rightarrow> bool" where
  "contains p [] = (p = [])"
| "contains p (c # cs) = (starts_with p (c # cs) \<or> contains p cs)"

definition after_last :: "char \<Rightarrow> string \<Rightarrow> string option" where
  "after_last c s = (if c \<in> set s then Some (rev (takeWhile (\<lambda>x. x \<noteq> c) (rev s))) else None)"

fun after_last_two :: "char \<Rightarrow> char \<Rightarrow> string \<Rightarrow> string \<Rightarrow> string" where
  "after_last_two a b best (x # y # s) =
     (if x = a \<and> y = b then after_last_two a b s s else after_last_two a b best (y # s))"
| "after_last_two a b best _ = best"

fun unescape_quotes :: "string \<Rightarrow> string" where
  \<comment> \<open>every \<open>'\''\<close> becomes an apostrophe\<close>
  "unescape_quotes (a # b # c # d # s) =
     (if [a, b, c, d] = [squote, CHR 0x5C, squote, squote] then squote # unescape_quotes s
      else a # unescape_quotes (b # c # d # s))"
| "unescape_quotes s = s"

fun split_quoted :: "string \<Rightarrow> string \<Rightarrow> string list" where
  \<comment> \<open>\<open>s.split("' '")\<close>; the first argument is the part being read\<close>
  "split_quoted w (a # b # c # s) =
     (if [a, b, c] = [squote, CHR '' '', squote] then w # split_quoted [] s
      else split_quoted (w @ [a]) (b # c # s))"
| "split_quoted w s = [w @ s]"

section \<open>Processes\<close>

datatype platform = Linux | Posix | Windows
datatype signal_result = SigOk | SigNoProcess | SigDenied | SigOther
datatype token_kind = LinuxTicks | PosixLstart

type_synonym start_token = "token_kind \<times> string"

record host =
  h_platform :: platform
  h_signal :: "int \<Rightarrow> signal_result"
  h_stat :: "int \<Rightarrow> string option"
  h_lstart :: "int \<Rightarrow> string option"
  h_cmdline :: "int \<Rightarrow> string option"
  h_psargs :: "int \<Rightarrow> string option"
  h_entry :: "int \<Rightarrow> string \<Rightarrow> bool"

definition all_digits :: "string \<Rightarrow> bool" where
  "all_digits s = (s \<noteq> [] \<and> list_all is_digit s)"

definition linuxProcessStartTimeTicks :: "host \<Rightarrow> int \<Rightarrow> string option" where
  "linuxProcessStartTimeTicks h pid =
     (case h_stat h pid of
        None \<Rightarrow> None
      | Some stat \<Rightarrow>
          (case after_last (CHR '')'') stat of
             None \<Rightarrow> None
           | Some rest \<Rightarrow>
               let fields = words rest
               in if length fields > 19 \<and> all_digits (fields ! 19) then Some (fields ! 19) else None))"

definition posixProcessStartToken :: "host \<Rightarrow> int \<Rightarrow> start_token option" where
  "posixProcessStartToken h pid =
     (case h_lstart h pid of
        None \<Rightarrow> None
      | Some out \<Rightarrow> if spaced out = [] then None else Some (PosixLstart, spaced out))"

definition processStartToken :: "host \<Rightarrow> int \<Rightarrow> start_token option" where
  "processStartToken h pid =
     (if pid \<le> 0 then None
      else case (if h_platform h = Linux then linuxProcessStartTimeTicks h pid else None) of
        Some ticks \<Rightarrow> Some (LinuxTicks, ticks)
      | None \<Rightarrow> if h_platform h \<noteq> Windows then posixProcessStartToken h pid else None)"

definition validProcessStartToken :: "start_token \<Rightarrow> bool" where
  "validProcessStartToken t =
     (case t of (LinuxTicks, v) \<Rightarrow> all_digits v | (PosixLstart, v) \<Rightarrow> trim v \<noteq> [])"

datatype liveness = ProcAlive | ProcDead | ProcUnknown

definition stat_state :: "string \<Rightarrow> string" where
  "stat_state stat = hd (split_on (CHR '' '') (after_last_two (CHR '')'') (CHR '' '') stat stat))"

definition processLiveness :: "host \<Rightarrow> int \<Rightarrow> start_token option \<Rightarrow> liveness" where
  "processLiveness h pid recorded =
     (if pid \<le> 0 \<or> pid > 2 ^ 53 - 1 then ProcDead
      else if (case recorded of Some t \<Rightarrow> \<not> validProcessStartToken t | None \<Rightarrow> False) then ProcUnknown
      else if h_signal h pid = SigNoProcess then ProcDead
      else if h_signal h pid \<noteq> SigOk \<and> (h_signal h pid \<noteq> SigDenied \<or> recorded = None) then ProcUnknown
      else if h_platform h = Linux \<and> h_stat h pid = None then ProcUnknown
      else if h_platform h = Linux \<and> stat_state (the (h_stat h pid)) \<in> {''Z'', ''X''} then ProcDead
      else case recorded of
        None \<Rightarrow> ProcAlive
      | Some r \<Rightarrow>
          (case processStartToken h pid of
             None \<Rightarrow> ProcUnknown
           | Some cur \<Rightarrow> if fst cur \<noteq> fst r then ProcUnknown else if cur = r then ProcAlive else ProcDead))"

section \<open>Commands\<close>

definition processArguments :: "host \<Rightarrow> int \<Rightarrow> string list option" where
  "processArguments h pid =
     (case h_cmdline h pid of
        Some cmdline \<Rightarrow>
          let argv = filter (\<lambda>a. a \<noteq> []) (split_on (CHR 0x00) cmdline) in if argv = [] then None else Some argv
      | None \<Rightarrow>
          (case h_psargs h pid of
             None \<Rightarrow> None
           | Some out \<Rightarrow> if words out = [] then None else Some (words out)))"

datatype command_binding = CmdBound | CmdUnbound | CmdUnreadable

definition decodeShellJoinedCommand :: "string \<Rightarrow> string list option" where
  "decodeShellJoinedCommand command =
     (if starts_with [squote] command \<and> ends_with [squote] command
      then Some (map unescape_quotes (split_quoted [] (butlast (drop 1 command)))) else None)"

definition normalizedCommandText :: "string \<Rightarrow> string" where
  "normalizedCommandText command = spaced (filter (\<lambda>c. \<not> is_quote c) (unescape_quotes command))"

definition processCommandBinding :: "host \<Rightarrow> int \<Rightarrow> string \<Rightarrow> command_binding" where
  "processCommandBinding h pid recorded =
     (case processArguments h pid of
        None \<Rightarrow> CmdUnreadable
      | Some current \<Rightarrow>
          if CHR 0x00 \<in> set recorded
          then (if join_with [CHR 0x00] current = recorded then CmdBound else CmdUnbound)
          else if recorded \<in> set current then CmdBound
          else
            let decoded = decodeShellJoinedCommand recorded;
                expected = normalizedCommandText (case decoded of Some ds \<Rightarrow> join_with '' '' ds | None \<Rightarrow> recorded);
                text = normalizedCommandText (join_with '' '' current)
            in if decoded = Some current then CmdBound
               else if expected \<noteq> [] \<and> (expected = text \<or> contains expected text) then CmdBound else CmdUnbound)"

definition schedulerCommandIndex :: "host \<Rightarrow> int \<Rightarrow> string list \<Rightarrow> nat option" where
  "schedulerCommandIndex h pid args = find (\<lambda>i. h_entry h pid (args ! i)) [0 ..< length args]"

definition names_run :: "string list \<Rightarrow> string \<Rightarrow> nat \<Rightarrow> bool" where
  "names_run args runId i =
     (args ! i = ''--existing-run-id'' \<and> Suc i < length args \<and> args ! Suc i = runId
      \<or> args ! i = ''--existing-run-id='' @ runId)"

definition commandLooksLikeFlowcrewScheduler :: "host \<Rightarrow> int \<Rightarrow> string option \<Rightarrow> bool" where
  "commandLooksLikeFlowcrewScheduler h pid expected =
     (case processArguments h pid of
        None \<Rightarrow> False
      | Some args \<Rightarrow>
          (case schedulerCommandIndex h pid args of
             None \<Rightarrow> False
           | Some i \<Rightarrow>
               if \<not> (Suc i < length args \<and> args ! Suc i = ''quick'') then False
               else case expected of
                 None \<Rightarrow> True
               | Some runId \<Rightarrow> list_ex (names_run args runId) [0 ..< length args]))"

section \<open>The scheduler identity\<close>

definition parseSchedulerPidMarker :: "string \<Rightarrow> int option" where
  "parseSchedulerPidMarker raw =
     (let marker = trim raw; pid = int (digits_value 10 marker)
      in if \<not> all_digits marker then None
         else if 0 < pid \<and> pid \<le> 2 ^ 53 - 1 then Some pid else None)"

datatype identity_file = IdAbsent | IdUnreadable | IdParsed json

definition kind_text :: "token_kind \<Rightarrow> string" where
  "kind_text k = (case k of LinuxTicks \<Rightarrow> ''linux'' | PosixLstart \<Rightarrow> ''posix-lstart'')"

definition processCommandSnapshot :: "host \<Rightarrow> int \<Rightarrow> string option" where
  "processCommandSnapshot h pid = map_option (join_with [CHR 0x00]) (processArguments h pid)"

definition scheduler_identity :: "host \<Rightarrow> string \<Rightarrow> int \<Rightarrow> json" where
  "scheduler_identity h runId pid =
     JObj ([(''version'', JNum 2), (''pid'', JNum (of_int pid)), (''runId'', JStr runId)]
       @ (case processStartToken h pid of
            Some (k, v) \<Rightarrow> [(''startToken'', JObj [(''kind'', JStr (kind_text k)), (''value'', JStr v)])] | None \<Rightarrow> [])
       @ (case processCommandSnapshot h pid of
            Some c \<Rightarrow> if c = [] then [] else [(''command'', JStr c)] | None \<Rightarrow> []))"

definition writeSchedulerProcessIdentity :: "host \<Rightarrow> string \<Rightarrow> int \<Rightarrow> identity_file option" where
  \<comment> \<open>the identity file written for a run directory of this id; \<open>None\<close> is the raise for a dead pid\<close>
  "writeSchedulerProcessIdentity h runId pid =
     (if processLiveness h pid None = ProcDead then None else Some (IdParsed (scheduler_identity h runId pid)))"

definition removeSchedulerProcessIdentity :: "int option \<Rightarrow> identity_file \<Rightarrow> identity_file" where
  "removeSchedulerProcessIdentity expected f =
     (case expected of
        None \<Rightarrow> IdAbsent
      | Some pid \<Rightarrow>
          (case f of
             IdParsed v \<Rightarrow> if v \<noteq> JNull \<and> own_field v ''pid'' = JNum (of_int pid) then IdAbsent else f
           | _ \<Rightarrow> f))"

datatype identity_binding = BindAbsent | Bound | Reused | Corrupt | Unverifiable

definition token_binding :: "start_token option \<Rightarrow> start_token \<Rightarrow> identity_binding" where
  "token_binding current recorded =
     (case current of
        None \<Rightarrow> Unverifiable
      | Some cur \<Rightarrow> if fst cur \<noteq> fst recorded then Unverifiable else if cur = recorded then Bound else Reused)"

definition recorded_token :: "json \<Rightarrow> start_token option" where
  "recorded_token tok =
     (case (own_field tok ''kind'', own_field tok ''value'') of
        (JStr k, JStr v) \<Rightarrow>
          if k = ''linux'' then Some (LinuxTicks, v)
          else if k = ''posix-lstart'' then Some (PosixLstart, v) else None
      | _ \<Rightarrow> None)"

definition command_identity :: "host \<Rightarrow> int \<Rightarrow> json \<Rightarrow> identity_binding" where
  "command_identity h pid command =
     (case command of
        JStr c \<Rightarrow> (case processCommandBinding h pid c of
                     CmdBound \<Rightarrow> Bound | CmdUnbound \<Rightarrow> Reused | CmdUnreadable \<Rightarrow> Unverifiable)
      | _ \<Rightarrow> Corrupt)"

definition parsed_identity_binding :: "host \<Rightarrow> int \<Rightarrow> string \<Rightarrow> json \<Rightarrow> identity_binding" where
  "parsed_identity_binding h pid runId v =
     (if v = JNull then Corrupt
      else if own_field v ''pid'' \<noteq> JNum (of_int pid) \<or> own_field v ''runId'' \<noteq> JStr runId then Reused
      else if own_field v ''version'' = JNum 1 then
        (case own_field v ''linuxStartTimeTicks'' of
           JStr t \<Rightarrow> if validProcessStartToken (LinuxTicks, t)
                     then token_binding (processStartToken h pid) (LinuxTicks, t) else Corrupt
         | _ \<Rightarrow> Corrupt)
      else if own_field v ''version'' \<noteq> JNum 2 then Corrupt
      else case recorded_token (own_field v ''startToken'') of
        None \<Rightarrow> Corrupt
      | Some t \<Rightarrow>
          if \<not> validProcessStartToken t then Corrupt
          else case token_binding (processStartToken h pid) t of
            Bound \<Rightarrow> if fst t \<noteq> PosixLstart then Bound else command_identity h pid (own_field v ''command'')
          | b \<Rightarrow> b)"

definition identityBindsSchedulerToRun :: "host \<Rightarrow> int \<Rightarrow> string \<Rightarrow> identity_file \<Rightarrow> identity_binding" where
  "identityBindsSchedulerToRun h pid runId f =
     (case f of IdAbsent \<Rightarrow> BindAbsent | IdUnreadable \<Rightarrow> Corrupt | IdParsed v \<Rightarrow> parsed_identity_binding h pid runId v)"

datatype scheduler_observation =
    ObsMissing
  | ObsDead int
  | ObsReused int
  | ObsLive int
  | ObsCorrupt "int option"
  | ObsUnverifiable int

definition inspectSchedulerProcess :: "host \<Rightarrow> int \<Rightarrow> string \<Rightarrow> identity_file \<Rightarrow> scheduler_observation" where
  "inspectSchedulerProcess h pid runId f =
     (case processLiveness h pid None of
        ProcDead \<Rightarrow> ObsDead pid
      | ProcUnknown \<Rightarrow> ObsUnverifiable pid
      | ProcAlive \<Rightarrow>
          (case identityBindsSchedulerToRun h pid runId f of
             Bound \<Rightarrow> ObsLive pid
           | Reused \<Rightarrow> ObsReused pid
           | Corrupt \<Rightarrow> ObsCorrupt (Some pid)
           | Unverifiable \<Rightarrow> ObsUnverifiable pid
           | BindAbsent \<Rightarrow>
               if processArguments h pid = None then ObsUnverifiable pid
               else if commandLooksLikeFlowcrewScheduler h pid (Some runId) then ObsLive pid else ObsReused pid))"

datatype marker_file = MkAbsent | MkUnreadable | MkText string

record run_files =
  rf_named :: bool
  \<comment> \<open>the run id asked for names this physical directory, which could be resolved or is absent\<close>
  rf_runId :: string
  rf_marker :: marker_file
  rf_identity :: identity_file
  rf_project :: "string option"
  \<comment> \<open>\<open>projectDir\<close> of a readable run.json, resolved\<close>

definition inspectRunScheduler :: "host \<Rightarrow> run_files \<Rightarrow> scheduler_observation" where
  "inspectRunScheduler h r =
     (if \<not> rf_named r then ObsCorrupt None
      else case rf_marker r of
        MkAbsent \<Rightarrow> ObsMissing
      | MkUnreadable \<Rightarrow> ObsCorrupt None
      | MkText t \<Rightarrow>
          (case parseSchedulerPidMarker t of
             None \<Rightarrow> ObsCorrupt None
           | Some pid \<Rightarrow> inspectSchedulerProcess h pid (rf_runId r) (rf_identity r)))"

definition isLiveFlowcrewSchedulerForRun :: "host \<Rightarrow> int \<Rightarrow> run_files \<Rightarrow> bool" where
  "isLiveFlowcrewSchedulerForRun h pid r =
     (rf_named r \<and> inspectSchedulerProcess h pid (rf_runId r) (rf_identity r) = ObsLive pid)"

definition schedulerProcessIsAliveForCancellation :: "host \<Rightarrow> int \<Rightarrow> run_files \<Rightarrow> bool" where
  "schedulerProcessIsAliveForCancellation h pid r =
     (if \<not> rf_named r then processLiveness h pid None \<noteq> ProcDead
      else case inspectSchedulerProcess h pid (rf_runId r) (rf_identity r) of
        ObsDead _ \<Rightarrow> False | ObsReused _ \<Rightarrow> False | _ \<Rightarrow> True)"

section \<open>Project occupancy\<close>

definition observed_pid :: "scheduler_observation \<Rightarrow> int option" where
  \<comment> \<open>the pid of an observation that is not missing, dead or reused\<close>
  "observed_pid obs =
     (case obs of ObsLive p \<Rightarrow> Some p | ObsUnverifiable p \<Rightarrow> Some p | ObsCorrupt p \<Rightarrow> p | _ \<Rightarrow> None)"

definition scanLiveRunOwners :: "host \<Rightarrow> run_files list \<Rightarrow> (string \<times> int \<times> string) list" where
  "scanLiveRunOwners h runs =
     List.map_filter (\<lambda>r. case (rf_project r, observed_pid (inspectRunScheduler h r)) of
         (Some p, Some pid) \<Rightarrow> Some (rf_runId r, pid, p) | _ \<Rightarrow> None) runs"

definition findLiveRunOwnerForProject ::
  "host \<Rightarrow> run_files list \<Rightarrow> string \<Rightarrow> string option \<Rightarrow> (string \<times> int \<times> string) option" where
  "findLiveRunOwnerForProject h runs project self =
     find (\<lambda>(runId, pid, p). p = project \<and> (self = None \<or> self \<noteq> Some runId)) (scanLiveRunOwners h runs)"

definition PROBE_TTL_MS :: int where "PROBE_TTL_MS = 5000"

type_synonym probe_cache = "(int \<times> (string \<times> string \<times> int \<times> string) list) option"

definition add_owner :: "string \<times> int \<times> string \<Rightarrow> (string \<times> string \<times> int \<times> string) list \<Rightarrow> (string \<times> string \<times> int \<times> string) list" where
  "add_owner own out = (if map_of out (snd (snd own)) = None then out @ [(snd (snd own), own)] else out)"

definition first_owners :: "(string \<times> int \<times> string) list \<Rightarrow> (string \<times> string \<times> int \<times> string) list" where
  \<comment> \<open>the map keyed by the project directory, the first owner of a project kept\<close>
  "first_owners owners =
     fold add_owner owners []"

definition liveRunOwnersByProject ::
  "host \<Rightarrow> run_files list \<Rightarrow> int \<Rightarrow> probe_cache \<Rightarrow> probe_cache \<times> (string \<times> string \<times> int \<times> string) list" where
  "liveRunOwnersByProject h runs now cache =
     (case cache of
        Some (seen, result) \<Rightarrow>
          if now - seen < PROBE_TTL_MS then (cache, result)
          else (let out = first_owners (scanLiveRunOwners h runs) in (Some (now, out), out))
      | None \<Rightarrow> (let out = first_owners (scanLiveRunOwners h runs) in (Some (now, out), out)))"

section \<open>The standing of a run\<close>

datatype standing = Ended | Parked | StandingLive | Orphaned | StandingUnknown

definition inspectApprovalRunStanding :: "(unit + run_status_resolution) \<Rightarrow> scheduler_observation \<Rightarrow> standing" where
  \<comment> \<open>the kind of the standing; \<open>Inl\<close> is an unreadable run state\<close>
  "inspectApprovalRunStanding archived scheduler =
     (case archived of
        Inl _ \<Rightarrow> StandingUnknown
      | Inr (Unknown _) \<Rightarrow> StandingUnknown
      | Inr (Known st sem) \<Rightarrow>
          if lifecycle sem = Terminal then Ended
          else if isPausedRunStatus (JStr (run_status_name st)) then Parked
          else case scheduler of
            ObsLive _ \<Rightarrow> StandingLive
          | ObsMissing \<Rightarrow> Orphaned
          | ObsDead _ \<Rightarrow> Orphaned
          | ObsReused _ \<Rightarrow> Orphaned
          | _ \<Rightarrow> StandingUnknown)"

section \<open>A live scheduler keeps its project\<close>

lemma identity_fields:
  "own_field (scheduler_identity h runId pid) ''version'' = JNum 2"
  "own_field (scheduler_identity h runId pid) ''pid'' = JNum (of_int pid)"
  "own_field (scheduler_identity h runId pid) ''runId'' = JStr runId"
  by (simp_all add: scheduler_identity_def own_field_def dflt_def)

lemma identity_token:
  "recorded_token (own_field (scheduler_identity h runId pid) ''startToken'') = processStartToken h pid"
  by (auto simp: scheduler_identity_def own_field_def dflt_def recorded_token_def kind_text_def
      split: option.splits token_kind.splits prod.splits)

lemma identity_command:
  "own_field (scheduler_identity h runId pid) ''command'' =
     (case processCommandSnapshot h pid of None \<Rightarrow> JUndef | Some c \<Rightarrow> if c = [] then JUndef else JStr c)"
  by (auto simp: scheduler_identity_def own_field_def dflt_def split: option.splits prod.splits)

lemma identity_not_null: "scheduler_identity h runId pid \<noteq> JNull"
  by (simp add: scheduler_identity_def)

definition same_process :: "host \<Rightarrow> host \<Rightarrow> int \<Rightarrow> bool" where
  \<comment> \<open>the process of this pid is the same one at both moments: what can be read of its start time
      and its arguments at the second is what was read at the first\<close>
  "same_process h h' pid =
     ((case (processStartToken h pid, processStartToken h' pid) of
         (Some t, Some t') \<Rightarrow> fst t = fst t' \<longrightarrow> t = t'
       | _ \<Rightarrow> True)
      \<and> (processArguments h' pid = None \<or> processArguments h' pid = processArguments h pid))"

definition executing :: "host \<Rightarrow> int \<Rightarrow> bool" where
  \<comment> \<open>the process exists and is no zombie\<close>
  "executing h pid =
     (h_signal h pid \<noteq> SigNoProcess
      \<and> (case h_stat h pid of Some stat \<Rightarrow> stat_state stat \<notin> {''Z'', ''X''} | None \<Rightarrow> True))"

lemma executing_not_dead:
  assumes "executing h pid" and "0 < pid" and "pid \<le> 2 ^ 53 - 1"
  shows "processLiveness h pid None \<noteq> ProcDead"
  using assms by (auto simp: processLiveness_def executing_def split: option.splits)

lemma join_one: "as \<noteq> [] \<Longrightarrow> CHR 0x00 \<notin> set (join_with [CHR 0x00] as) \<Longrightarrow> join_with [CHR 0x00] as \<in> set as"
  by (induction "[CHR 0x00]" as rule: join_with.induct) auto

lemma own_command_bound:
  assumes "processCommandSnapshot h pid = Some c"
    and "processArguments h' pid = None \<or> processArguments h' pid = processArguments h pid"
  shows "processCommandBinding h' pid c \<noteq> CmdUnbound"
proof -
  obtain as where as: "processArguments h pid = Some as" "c = join_with [CHR 0x00] as"
    using assms(1) by (auto simp: processCommandSnapshot_def)
  then have "as \<noteq> []" by (auto simp: processArguments_def Let_def split: option.splits if_splits)
  then show ?thesis using assms(2) as join_one [of as]
    by (cases "CHR 0x00 \<in> set c") (auto simp: processCommandBinding_def)
qed

lemma own_identity_binding:
  assumes "same_process h h' pid"
  shows "parsed_identity_binding h' pid runId (scheduler_identity h runId pid) \<notin> {BindAbsent, Reused}"
proof (cases "processStartToken h pid")
  case None
  then show ?thesis
    by (simp add: parsed_identity_binding_def identity_not_null identity_fields identity_token)
next
  case (Some t)
  have "token_binding (processStartToken h' pid) t \<in> {Bound, Unverifiable}"
    using assms Some by (auto simp: token_binding_def same_process_def split: option.splits if_splits)
  moreover have "command_identity h' pid (own_field (scheduler_identity h runId pid) ''command'') \<notin> {BindAbsent, Reused}"
    using assms own_command_bound [of h pid _ h']
    by (auto simp: command_identity_def identity_command same_process_def
        split: option.splits command_binding.splits)
  ultimately show ?thesis using Some
    by (auto simp: parsed_identity_binding_def identity_not_null identity_fields identity_token split: if_splits)
qed

definition holds_marker :: "run_files \<Rightarrow> int \<Rightarrow> bool" where
  "holds_marker r pid =
     (rf_named r \<and> (case rf_marker r of MkText t \<Rightarrow> parseSchedulerPidMarker t = Some pid | _ \<Rightarrow> False))"

lemma marker_pid: "parseSchedulerPidMarker t = Some pid \<Longrightarrow> 0 < pid \<and> pid \<le> 2 ^ 53 - 1"
  by (auto simp: parseSchedulerPidMarker_def Let_def split: if_splits)

lemma inspect_marker:
  "holds_marker r pid \<Longrightarrow> inspectRunScheduler h r = inspectSchedulerProcess h pid (rf_runId r) (rf_identity r)"
  by (auto simp: holds_marker_def inspectRunScheduler_def split: marker_file.splits)

lemma owner_observed:
  assumes "holds_marker r pid" and "executing h' pid" and "same_process h h' pid"
    and "writeSchedulerProcessIdentity h (rf_runId r) pid = Some (rf_identity r)"
  shows "observed_pid (inspectRunScheduler h' r) = Some pid"
proof -
  have f: "rf_identity r = IdParsed (scheduler_identity h (rf_runId r) pid)"
    using assms(4) by (auto simp: writeSchedulerProcessIdentity_def split: if_splits)
  have "0 < pid \<and> pid \<le> 2 ^ 53 - 1"
    using assms(1) by (auto simp: holds_marker_def dest: marker_pid split: marker_file.splits)
  then have "processLiveness h' pid None \<noteq> ProcDead"
    using assms(2) executing_not_dead by blast
  moreover have "identityBindsSchedulerToRun h' pid (rf_runId r) (rf_identity r) \<notin> {BindAbsent, Reused}"
    using own_identity_binding [OF assms(3)] by (simp add: identityBindsSchedulerToRun_def f)
  ultimately show ?thesis using inspect_marker [OF assms(1), of h']
    by (auto simp: inspectSchedulerProcess_def observed_pid_def
        split: liveness.splits identity_binding.splits)
qed

lemma scan_member:
  "(rid, pid, p) \<in> set (scanLiveRunOwners h runs) \<longleftrightarrow>
     (\<exists>r \<in> set runs. rf_project r = Some p \<and> rf_runId r = rid \<and> observed_pid (inspectRunScheduler h r) = Some pid)"
  by (force simp: scanLiveRunOwners_def map_filter_def split: option.splits)

lemma find_owner_none:
  "findLiveRunOwnerForProject h runs p self = None \<longleftrightarrow>
     (\<forall>r \<in> set runs. rf_project r = Some p \<and> self \<noteq> Some (rf_runId r) \<longrightarrow> observed_pid (inspectRunScheduler h r) = None)"
proof -
  have "findLiveRunOwnerForProject h runs p self = None \<longleftrightarrow>
      (\<forall>rid pid. (rid, pid, p) \<in> set (scanLiveRunOwners h runs) \<longrightarrow> self = Some rid)"
    by (auto simp: findLiveRunOwnerForProject_def find_None_iff)
  also have "\<dots> \<longleftrightarrow> (\<forall>r \<in> set runs. rf_project r = Some p \<and> self \<noteq> Some (rf_runId r) \<longrightarrow>
      observed_pid (inspectRunScheduler h r) = None)"
    unfolding scan_member by (metis not_None_eq)
  finally show ?thesis .
qed

lemma add_owner_none: "map_of (add_owner own out) q = None \<longleftrightarrow> map_of out q = None \<and> snd (snd own) \<noteq> q"
  by (auto simp: add_owner_def map_add_def split: option.splits)

lemma fold_owners_none:
  "map_of (fold add_owner owners out) q = None \<longleftrightarrow> map_of out q = None \<and> (\<forall>own \<in> set owners. snd (snd own) \<noteq> q)"
  by (induction owners arbitrary: out) (simp_all add: add_owner_none conj_ac)

lemma first_owners_none: "map_of (first_owners owners) q = None \<longleftrightarrow> (\<forall>own \<in> set owners. snd (snd own) \<noteq> q)"
  by (simp add: first_owners_def fold_owners_none)

text \<open>C36. A scheduler that wrote its identity and is still the same executing process is never
  observed missing, dead or reused, whatever could or could not be read meanwhile of its start time,
  its arguments or its status: recovery may not touch its run, the cancellation barrier stays
  closed, and the project it works on is occupied for every other run.\<close>

theorem live_scheduler_keeps_project:
  assumes "writeSchedulerProcessIdentity h (rf_runId r) pid = Some (rf_identity r)"
    and "holds_marker r pid" and "executing h' pid" and "same_process h h' pid"
  shows "inspectRunScheduler h' r \<notin> {ObsMissing, ObsDead pid, ObsReused pid}
    \<and> schedulerProcessIsAliveForCancellation h' pid r
    \<and> inspectApprovalRunStanding (Inr (Known st sem)) (inspectRunScheduler h' r) \<noteq> Orphaned
    \<and> (\<forall>p runs self. rf_project r = Some p \<and> r \<in> set runs \<and> self \<noteq> Some (rf_runId r) \<longrightarrow>
          findLiveRunOwnerForProject h' runs p self \<noteq> None)"
proof -
  have obs: "observed_pid (inspectRunScheduler h' r) = Some pid"
    using owner_observed assms by blast
  moreover have "rf_named r" using assms(2) by (simp add: holds_marker_def)
  moreover note inspect_marker [OF assms(2), of h']
  ultimately have "inspectRunScheduler h' r \<notin> {ObsMissing, ObsDead pid, ObsReused pid}
    \<and> schedulerProcessIsAliveForCancellation h' pid r
    \<and> inspectApprovalRunStanding (Inr (Known st sem)) (inspectRunScheduler h' r) \<noteq> Orphaned"
    by (auto simp: observed_pid_def inspectApprovalRunStanding_def
        schedulerProcessIsAliveForCancellation_def split: scheduler_observation.splits)
  moreover have "\<forall>p runs self. rf_project r = Some p \<and> r \<in> set runs \<and> self \<noteq> Some (rf_runId r) \<longrightarrow>
      findLiveRunOwnerForProject h' runs p self \<noteq> None"
    using obs by (metis find_owner_none option.distinct(1))
  ultimately show ?thesis by blast
qed

definition example_host :: "string \<Rightarrow> host" where
  \<comment> \<open>a Linux host with one process, started at the given tick\<close>
  "example_host ticks = \<lparr>h_platform = Linux, h_signal = (\<lambda>_. SigOk),
     h_stat = (\<lambda>_. Some (''7 (node) S 1 1 1 1 1 1 1 1 1 1 1 1 1 1 1 1 1 1 '' @ ticks)),
     h_lstart = (\<lambda>_. None), h_cmdline = (\<lambda>_. Some ''node''), h_psargs = (\<lambda>_. None), h_entry = (\<lambda>_ _. False)\<rparr>"

definition example_run :: run_files where
  "example_run = \<lparr>rf_named = True, rf_runId = ''r'', rf_marker = MkText ''7'',
     rf_identity = IdParsed (scheduler_identity (example_host ''42'') ''r'' 7), rf_project = Some ''p''\<rparr>"

lemma example_marker: "holds_marker example_run 7"
  by code_simp

lemma example_executing: "executing (example_host ''42'') 7"
  by code_simp

lemma example_written:
  "writeSchedulerProcessIdentity (example_host ''42'') (rf_runId example_run) 7 = Some (rf_identity example_run)"
proof -
  have "processLiveness (example_host ''42'') 7 None \<noteq> ProcDead" by code_simp
  then show ?thesis by (simp add: writeSchedulerProcessIdentity_def example_run_def)
qed

lemma same_process_refl: "same_process h h pid"
  by (simp add: same_process_def split: option.splits)

theorem live_scheduler_keeps_project_witness:
  "schedulerProcessIsAliveForCancellation (example_host ''42'') 7 example_run"
  using live_scheduler_keeps_project [OF example_written example_marker example_executing same_process_refl]
  by blast

text \<open>A recycled pid is never taken for the scheduler: once the process of that pid shows a
  start time other than the recorded one, the observation is not live, signal authority is
  refused, and with a readable process the run no longer occupies its project.\<close>

lemma recycled_pid_is_not_owner:
  assumes "writeSchedulerProcessIdentity h (rf_runId r) pid = Some (rf_identity r)"
    and "holds_marker r pid"
    and "processStartToken h pid = Some t" and "processStartToken h' pid = Some t'"
    and "fst t' = fst t" and "t' \<noteq> t" and "validProcessStartToken t"
  shows "inspectRunScheduler h' r \<noteq> ObsLive pid \<and> \<not> isLiveFlowcrewSchedulerForRun h' pid r
    \<and> (h_signal h' pid = SigOk \<and> h_stat h' pid \<noteq> None \<longrightarrow>
         observed_pid (inspectRunScheduler h' r) = None
         \<and> \<not> schedulerProcessIsAliveForCancellation h' pid r)"
proof -
  have f: "rf_identity r = IdParsed (scheduler_identity h (rf_runId r) pid)"
    using assms(1) by (auto simp: writeSchedulerProcessIdentity_def split: if_splits)
  have binding: "identityBindsSchedulerToRun h' pid (rf_runId r) (rf_identity r) = Reused"
    using assms(3-7) by (auto simp: identityBindsSchedulerToRun_def f parsed_identity_binding_def
        identity_not_null identity_fields identity_token token_binding_def)
  have readable: "h_signal h' pid = SigOk \<and> h_stat h' pid \<noteq> None \<longrightarrow> processLiveness h' pid None \<noteq> ProcUnknown"
    by (auto simp: processLiveness_def)
  have "rf_named r" using assms(2) by (simp add: holds_marker_def)
  then show ?thesis using binding readable inspect_marker [OF assms(2), of h']
    by (cases "processLiveness h' pid None") (simp_all add: inspectSchedulerProcess_def observed_pid_def
        isLiveFlowcrewSchedulerForRun_def schedulerProcessIsAliveForCancellation_def)
qed

end
