(* ===== verification/Launch.thy ===== *)
theory Launch
  imports Ownership
begin

text \<open>
  The launch window of a project (\<open>src/src/run-lock.ts\<close>): the claim file that keeps two daemons from
  launching a run for the same project, before either run has a scheduler marker to observe.

  The claim file of one project is \<open>intent_file option\<close>: its parsed content (\<open>None\<close> when it is not
  JSON) and its modification time.  \<open>canon\<close> is \<open>canonicalRunId\<close> over the run store, which resolves
  links on disk and raises for an unsafe id; \<open>iso\<close> and \<open>date_ms\<close> are \<open>toISOString\<close> and
  \<open>Date.parse\<close>.  Failures of \<open>unlink\<close> are ignored by the code and do not occur here.
\<close>

section \<open>Claims\<close>

definition LAUNCH_INTENT_TTL_MS :: int where "LAUNCH_INTENT_TTL_MS = 60000"

record launch_intent =
  li_project :: string
  li_owner :: string
  li_claimedAt :: string

record intent_file =
  if_json :: "json option"
  if_mtime :: int

record 'e launch_env =
  le_canon :: "string \<Rightarrow> 'e + string"
  le_iso :: "int \<Rightarrow> string"
  le_date :: "string \<Rightarrow> int option"

definition claimed_at :: "'e launch_env \<Rightarrow> json \<Rightarrow> int option" where
  "claimed_at env v = (case own_field v ''claimedAt'' of JStr s \<Rightarrow> le_date env s | _ \<Rightarrow> None)"

definition valid_intent :: "'e launch_env \<Rightarrow> string \<Rightarrow> json \<Rightarrow> (string \<times> string \<times> int) option" where
  \<comment> \<open>the owner, the claim's timestamp as written, and as an instant\<close>
  "valid_intent env project v =
     (case (own_field v ''ownerRunId'', own_field v ''claimedAt'', claimed_at env v) of
        (JStr own, JStr s, Some t) \<Rightarrow>
          if own_field v ''version'' = JNum 1 \<and> own_field v ''projectDir'' = JStr project \<and> own \<noteq> []
          then Some (own, s, t) else None
      | _ \<Rightarrow> None)"

datatype launch_verdict = NoClaim | StaleClaim | OwnClaim | BlockedBy launch_intent

definition unreadable_intent :: "'e launch_env \<Rightarrow> string \<Rightarrow> int \<Rightarrow> launch_intent" where
  "unreadable_intent env project mtime =
     \<lparr>li_project = project, li_owner = ''unreadable-launch-intent'', li_claimedAt = le_iso env mtime\<rparr>"

definition by_file_age :: "'e launch_env \<Rightarrow> string \<Rightarrow> int \<Rightarrow> int \<Rightarrow> launch_verdict" where
  "by_file_age env project now mtime =
     (if now - mtime \<ge> LAUNCH_INTENT_TTL_MS then StaleClaim else BlockedBy (unreadable_intent env project mtime))"

definition launch_verdict ::
  "'e launch_env \<Rightarrow> string \<Rightarrow> string option \<Rightarrow> int \<Rightarrow> intent_file option \<Rightarrow> 'e + launch_verdict" where
  \<comment> \<open>what \<open>readLaunchIntent\<close> decides from the file it read, \<open>self\<close> already canonical\<close>
  "launch_verdict env project self now f =
     (case f of
        None \<Rightarrow> Inr NoClaim
      | Some fl \<Rightarrow>
          (case if_json fl of
             None \<Rightarrow> Inr (by_file_age env project now (if_mtime fl))
           | Some v \<Rightarrow>
               (case valid_intent env project v of
                  None \<Rightarrow> Inr (by_file_age env project now (if_mtime fl))
                | Some (own, s, t) \<Rightarrow>
                    if t > now + 5000 then Inr (by_file_age env project now (if_mtime fl))
                    else if now - t \<ge> LAUNCH_INTENT_TTL_MS then Inr StaleClaim
                    else case le_canon env own of
                      Inl e \<Rightarrow> Inl e
                    | Inr c \<Rightarrow>
                        if Some c = self then Inr OwnClaim
                        else Inr (BlockedBy \<lparr>li_project = project, li_owner = own, li_claimedAt = s\<rparr>))))"

definition after_verdict :: "launch_verdict \<Rightarrow> intent_file option \<Rightarrow> intent_file option" where
  \<comment> \<open>the unlink of a stale claim\<close>
  "after_verdict v f = (if v = StaleClaim then None else f)"

definition readLaunchIntent ::
  "'e launch_env \<Rightarrow> string \<Rightarrow> string option \<Rightarrow> int \<Rightarrow> intent_file option \<Rightarrow>
     intent_file option \<times> ('e + launch_intent option)" where
  "readLaunchIntent env project self now f =
     (case (case self of None \<Rightarrow> Inr None
            | Some s \<Rightarrow> if s = [] then Inr None else map_sum (\<lambda>e. e) Some (le_canon env s)) of
        Inl e \<Rightarrow> (f, Inl e)
      | Inr self' \<Rightarrow>
          (case launch_verdict env project self' now f of
             Inl e \<Rightarrow> (f, Inl e)
           | Inr v \<Rightarrow> (after_verdict v f, Inr (case v of BlockedBy i \<Rightarrow> Some i | _ \<Rightarrow> None))))"

datatype claim_result = Claimed | NotClaimed string

definition own_claim :: "'e launch_env \<Rightarrow> string \<Rightarrow> string \<Rightarrow> int \<Rightarrow> intent_file \<Rightarrow> bool" where
  "own_claim env project own now fl =
     (case if_json fl of
        None \<Rightarrow> False
      | Some v \<Rightarrow>
          (case (own_field v ''ownerRunId'', claimed_at env v) of
             (JStr o', Some t) \<Rightarrow>
               (case le_canon env o' of Inl _ \<Rightarrow> False | Inr c \<Rightarrow> c = own)
               \<and> own_field v ''projectDir'' = JStr project
               \<and> t \<le> now + 5000 \<and> now - t < LAUNCH_INTENT_TTL_MS
           | _ \<Rightarrow> False))"

definition new_intent :: "'e launch_env \<Rightarrow> string \<Rightarrow> string \<Rightarrow> int \<Rightarrow> intent_file" where
  "new_intent env project own now =
     \<lparr>if_json = Some (JObj [(''version'', JNum 1), (''projectDir'', JStr project), (''ownerRunId'', JStr own),
                            (''claimedAt'', JStr (le_iso env now))]),
      if_mtime = now\<rparr>"

fun claim_attempts ::
  "'e launch_env \<Rightarrow> string \<Rightarrow> string \<Rightarrow> int \<Rightarrow> nat \<Rightarrow> intent_file option \<Rightarrow>
     intent_file option \<times> ('e + claim_result)" where
  "claim_attempts env project own now 0 f = (f, Inr (NotClaimed ''launch-intent-race''))"
| "claim_attempts env project own now (Suc n) f =
     (case f of
        None \<Rightarrow> (Some (new_intent env project own now), Inr Claimed)
      | Some fl \<Rightarrow>
          if own_claim env project own now fl then (f, Inr Claimed)
          else case readLaunchIntent env project (Some own) now f of
            (f', Inl e) \<Rightarrow> (f', Inl e)
          | (f', Inr (Some i)) \<Rightarrow> (f', Inr (NotClaimed (li_owner i)))
          | (f', Inr None) \<Rightarrow> claim_attempts env project own now n f')"

definition claimLaunchIntentUnlocked ::
  "'e launch_env \<Rightarrow> string \<Rightarrow> string \<Rightarrow> int \<Rightarrow> intent_file option \<Rightarrow>
     intent_file option \<times> ('e + claim_result)" where
  "claimLaunchIntentUnlocked env project own now f = claim_attempts env project own now 3 f"

definition claimLaunchIntent ::
  "'e launch_env \<Rightarrow> string \<Rightarrow> string \<Rightarrow> int \<Rightarrow> intent_file option \<Rightarrow>
     intent_file option \<times> ('e + claim_result)" where
  \<comment> \<open>the claim of a run that exists already is made under that run's lock\<close>
  "claimLaunchIntent env project own now f =
     (case le_canon env own of
        Inl e \<Rightarrow> (f, Inl e)
      | Inr c \<Rightarrow> claimLaunchIntentUnlocked env project c now f)"

definition releaseLaunchIntent ::
  "'e launch_env \<Rightarrow> string \<Rightarrow> intent_file option \<Rightarrow> intent_file option \<times> ('e + unit)" where
  "releaseLaunchIntent env own f =
     (case le_canon env own of
        Inl e \<Rightarrow> (f, Inl e)
      | Inr c \<Rightarrow>
          (case f of
             None \<Rightarrow> (f, Inr ())
           | Some fl \<Rightarrow>
               (case if_json fl of
                  None \<Rightarrow> (f, Inr ())
                | Some v \<Rightarrow>
                    (case own_field v ''ownerRunId'' of
                       JStr o' \<Rightarrow> if le_canon env o' = Inr c then (None, Inr ()) else (f, Inr ())
                     | _ \<Rightarrow> (f, Inr ())))))"

datatype busy = BusyIntent string | BusyRun string int

definition isProjectBusy ::
  "'e launch_env \<Rightarrow> host \<Rightarrow> run_files list \<Rightarrow> string \<Rightarrow> string option \<Rightarrow> int \<Rightarrow> int \<Rightarrow> intent_file option \<Rightarrow> probe_cache \<Rightarrow>
     (intent_file option \<times> probe_cache) \<times> ('e + busy option)" where
  "isProjectBusy env h runs project self now probe_now f cache =
     (case readLaunchIntent env project self now f of
        (f', Inl e) \<Rightarrow> ((f', cache), Inl e)
      | (f', Inr (Some i)) \<Rightarrow> ((f', cache), Inr (Some (BusyIntent (li_owner i))))
      | (f', Inr None) \<Rightarrow>
          (case liveRunOwnersByProject h runs probe_now cache of
             (cache', owners) \<Rightarrow>
               ((f', cache'), Inr (map_option (\<lambda>(rid, pid, p). BusyRun rid pid) (map_of owners project)))))"

section \<open>The window belongs to one owner\<close>

lemma new_intent_valid:
  assumes "le_date env (le_iso env t) = Some t" and "own \<noteq> []"
  shows "valid_intent env project (the (if_json (new_intent env project own t))) = Some (own, le_iso env t, t)"
  using assms by (simp add: valid_intent_def new_intent_def own_field_def dflt_def claimed_at_def)

lemma new_intent_owner:
  "own_field (the (if_json (new_intent env project own t))) ''ownerRunId'' = JStr own"
  "own_field (the (if_json (new_intent env project own t))) ''projectDir'' = JStr project"
  "claimed_at env (the (if_json (new_intent env project own t))) = le_date env (le_iso env t)"
  by (simp_all add: new_intent_def own_field_def dflt_def claimed_at_def)

definition in_window :: "int \<Rightarrow> int \<Rightarrow> bool" where
  \<comment> \<open>the time-to-live of a claim made at the first instant, with the tolerated clock skew\<close>
  "in_window t now = (t - 5000 \<le> now \<and> now < t + LAUNCH_INTENT_TTL_MS)"

definition good_owner :: "'e launch_env \<Rightarrow> string \<Rightarrow> bool" where
  "good_owner env own = (own \<noteq> [] \<and> le_canon env own = Inr own)"

definition good_claim :: "'e launch_env \<Rightarrow> string \<Rightarrow> int \<Rightarrow> bool" where
  \<comment> \<open>the owner's id is canonical, and the timestamp reads back\<close>
  "good_claim env own t = (good_owner env own \<and> le_date env (le_iso env t) = Some t)"

lemma verdict_in_window:
  assumes "good_claim env own t" and "in_window t now"
  shows "launch_verdict env project self now (Some (new_intent env project own t)) =
     Inr (if Some own = self then OwnClaim
          else BlockedBy \<lparr>li_project = project, li_owner = own, li_claimedAt = le_iso env t\<rparr>)"
proof -
  have "if_json (new_intent env project own t) = Some (the (if_json (new_intent env project own t)))"
    by (simp add: new_intent_def)
  then show ?thesis using assms new_intent_valid [of env t own project]
    by (auto simp: launch_verdict_def good_claim_def good_owner_def in_window_def split: option.splits)
qed

lemma read_in_window:
  assumes "good_claim env own t" and "in_window t now"
    and "self = None \<or> self = Some [] \<or> le_canon env (the self) = Inr c \<and> c \<noteq> own"
  shows "readLaunchIntent env project self now (Some (new_intent env project own t)) =
     (Some (new_intent env project own t),
      Inr (Some \<lparr>li_project = project, li_owner = own, li_claimedAt = le_iso env t\<rparr>))"
  using assms by (auto simp: readLaunchIntent_def verdict_in_window after_verdict_def split: option.splits)

lemma not_own_claim:
  assumes "good_claim env own t" and "c \<noteq> own"
  shows "\<not> own_claim env project c now (new_intent env project own t)"
  using assms by (auto simp: own_claim_def good_claim_def good_owner_def new_intent_def own_field_def dflt_def
      split: option.splits)

lemma own_claim_again:
  assumes "good_claim env own t" and "in_window t now"
  shows "own_claim env project own now (new_intent env project own t)"
  using assms by (auto simp: own_claim_def good_claim_def good_owner_def in_window_def new_intent_def
      own_field_def dflt_def claimed_at_def split: option.splits)

section \<open>Any number of processes\<close>

text \<open>
  The operations over one claim file, one file-system access at a time: the exclusive creation, the read
  that looks for the caller's own claim, the read of \<open>readLaunchIntent\<close> (with the \<open>stat\<close> of the same
  file), and the \<open>unlink\<close> by path that follows a decision.  The creation and the write of the new claim
  are one access, as are a read and the \<open>stat\<close> of the same file: in between a reader would see a fresh
  empty file and report the project busy.  Each operation keeps the time it was
  called with.  A phase is what a process is about to do, with its run, that time and the attempts it
  has left; \<open>Granted\<close> and \<open>Denied\<close> are what it was told.
\<close>

datatype launch_phase = Quiet | Creating string int nat | Occupied string int nat | Reading string int nat
  | Unlinking string int nat | Granted string int | Denied string | Probing "string option" int | ProbeUnlinking
  | Releasing string | ReleaseUnlinking

definition self_verdict :: "'e launch_env \<Rightarrow> string \<Rightarrow> string option \<Rightarrow> int \<Rightarrow> intent_file option \<Rightarrow> 'e + launch_verdict" where
  \<comment> \<open>the verdict on behalf of a run, or of nobody\<close>
  "self_verdict env project self now f =
     (case (case self of None \<Rightarrow> Inr None
            | Some s \<Rightarrow> if s = [] then Inr None else map_sum (\<lambda>e. e) Some (le_canon env s)) of
        Inl e \<Rightarrow> Inl e
      | Inr self' \<Rightarrow> launch_verdict env project self' now f)"

definition names_owner :: "'e launch_env \<Rightarrow> string \<Rightarrow> intent_file option \<Rightarrow> bool" where
  \<comment> \<open>the claim that a release removes\<close>
  "names_owner env c f =
     (case Option.bind f if_json of
        Some v \<Rightarrow> (case own_field v ''ownerRunId'' of JStr o' \<Rightarrow> le_canon env o' = Inr c | _ \<Rightarrow> False)
      | None \<Rightarrow> False)"

fun launch_move :: "'e launch_env \<Rightarrow> string \<Rightarrow> intent_file option \<Rightarrow> launch_phase \<Rightarrow> intent_file option \<times> launch_phase" where
  \<comment> \<open>one access of a process; an operation that raises is over\<close>
  "launch_move env project f (Creating c now 0) = (f, Denied ''launch-intent-race'')"
| "launch_move env project f (Creating c now (Suc n)) =
     (case f of
        None \<Rightarrow> (Some (new_intent env project c now), Granted c now)
      | Some _ \<Rightarrow> (f, Occupied c now n))"
| "launch_move env project f (Occupied c now n) =
     (f, case f of
           Some fl \<Rightarrow> if own_claim env project c now fl then Granted c now else Reading c now n
         | None \<Rightarrow> Reading c now n)"
| "launch_move env project f (Reading c now n) =
     (f, case self_verdict env project (Some c) now f of
           Inl _ \<Rightarrow> Quiet
         | Inr (BlockedBy i) \<Rightarrow> Denied (li_owner i)
         | Inr StaleClaim \<Rightarrow> Unlinking c now n
         | Inr _ \<Rightarrow> Creating c now n)"
| "launch_move env project f (Unlinking c now n) = (None, Creating c now n)"
| "launch_move env project f (Probing self now) =
     (f, if self_verdict env project self now f = Inr StaleClaim then ProbeUnlinking else Quiet)"
| "launch_move env project f ProbeUnlinking = (None, Quiet)"
| "launch_move env project f (Releasing c) = (f, if names_owner env c f then ReleaseUnlinking else Quiet)"
| "launch_move env project f ReleaseUnlinking = (None, Quiet)"
| "launch_move env project f x = (f, x)"

datatype launch_op = OpClaim string int | OpRead "string option" int | OpRelease string

definition launch_entry :: "'e launch_env \<Rightarrow> launch_op \<Rightarrow> launch_phase" where
  "launch_entry env x =
     (case x of
        OpClaim o' now \<Rightarrow> (case le_canon env o' of Inl _ \<Rightarrow> Quiet | Inr c \<Rightarrow> Creating c now 3)
      | OpRead self now \<Rightarrow> Probing self now
      | OpRelease o' \<Rightarrow> (case le_canon env o' of Inl _ \<Rightarrow> Quiet | Inr c \<Rightarrow> Releasing c))"

definition resting :: "launch_phase \<Rightarrow> bool" where
  \<comment> \<open>the process is in no operation\<close>
  "resting x = (case x of Quiet \<Rightarrow> True | Granted _ _ \<Rightarrow> True | Denied _ \<Rightarrow> True | _ \<Rightarrow> False)"

record launch_state =
  la_file :: "intent_file option"
  la_phase :: "nat \<Rightarrow> launch_phase"

definition enter_phase :: "nat \<Rightarrow> launch_phase \<Rightarrow> launch_state \<Rightarrow> launch_state" where
  "enter_phase p x s = s\<lparr>la_phase := (la_phase s)(p := x)\<rparr>"

inductive launch_step :: "'e launch_env \<Rightarrow> string \<Rightarrow> (launch_op \<Rightarrow> bool) \<Rightarrow> launch_state \<Rightarrow> launch_state \<Rightarrow> bool"
  for env project allowed where
  calls: "resting (la_phase s p) \<Longrightarrow> allowed x \<Longrightarrow>
    launch_step env project allowed s (enter_phase p (launch_entry env x) s)"
| moves: "launch_move env project (la_file s) (la_phase s p) = (f, x) \<Longrightarrow>
    launch_step env project allowed s (enter_phase p x (s\<lparr>la_file := f\<rparr>))"


lemma enter_phase_fields [simp]: "la_file (enter_phase p x s) = la_file s"
  "la_phase (enter_phase p x s) q = (if q = p then x else la_phase s q)"
  by (simp_all add: enter_phase_def)

text \<open>The moves of one process that nobody interrupts are the operation.\<close>

definition phase_of_claim :: "int \<Rightarrow> string \<Rightarrow> 'e + claim_result \<Rightarrow> launch_phase" where
  "phase_of_claim now c r = (case r of Inl _ \<Rightarrow> Quiet | Inr Claimed \<Rightarrow> Granted c now | Inr (NotClaimed b) \<Rightarrow> Denied b)"

definition alone :: "'e launch_env \<Rightarrow> string \<Rightarrow> intent_file option \<times> launch_phase \<Rightarrow> intent_file option \<times> launch_phase" where
  "alone env project = (\<lambda>(f, x). launch_move env project f x)"

lemma read_by_verdict:
  "readLaunchIntent env project self now f =
     (case self_verdict env project self now f of
        Inl e \<Rightarrow> (f, Inl e)
      | Inr v \<Rightarrow> (after_verdict v f, Inr (case v of BlockedBy i \<Rightarrow> Some i | _ \<Rightarrow> None)))"
  by (simp add: readLaunchIntent_def self_verdict_def split: option.split sum.split)

lemma claim_by_moves:
  "claim_attempts env project c now n f = (f', r) \<Longrightarrow>
     \<exists>k. (alone env project ^^ k) (f, Creating c now n) = (f', phase_of_claim now c r)"
proof (induction n arbitrary: f)
  case 0
  then show ?case by (intro exI [of _ 1]) (auto simp: alone_def phase_of_claim_def)
next
  case (Suc n)
  show ?case
  proof (cases f)
    case None
    with Suc.prems show ?thesis by (intro exI [of _ 1]) (auto simp: alone_def phase_of_claim_def)
  next
    case (Some fl)
    then have one: "alone env project (f, Creating c now (Suc n)) = (f, Occupied c now n)" by (simp add: alone_def)
    show ?thesis
    proof (cases "own_claim env project c now fl")
      case True
      with Suc.prems Some one show ?thesis
        by (intro exI [of _ 2]) (auto simp: eval_nat_numeral alone_def phase_of_claim_def)
    next
      case False
      then have two: "alone env project (f, Occupied c now n) = (f, Reading c now n)" using Some by (simp add: alone_def)
      have again: "\<exists>k. (alone env project ^^ k) (f, Creating c now (Suc n)) = (f', phase_of_claim now c r)"
        if same: "alone env project (f, Reading c now n) = (g, Creating c now n)"
          and rest: "claim_attempts env project c now n g = (f', r)" for g
      proof -
        obtain k where "(alone env project ^^ k) (g, Creating c now n) = (f', phase_of_claim now c r)"
          using Suc.IH rest by blast
        then have "(alone env project ^^ Suc (Suc (Suc k))) (f, Creating c now (Suc n)) = (f', phase_of_claim now c r)"
          using one two same by (simp add: funpow_Suc_right del: funpow.simps)
        then show ?thesis by blast
      qed
      show ?thesis
      proof (cases "self_verdict env project (Some c) now f")
        case (Inl e)
        with Suc.prems Some False one two show ?thesis
          by (intro exI [of _ 3]) (auto simp: eval_nat_numeral alone_def phase_of_claim_def read_by_verdict)
      next
        case (Inr v)
        show ?thesis
        proof (cases v)
          case NoClaim
          then show ?thesis using again [of f] Suc.prems Some False Inr
            by (simp add: alone_def read_by_verdict after_verdict_def)
        next
          case OwnClaim
          then show ?thesis using again [of f] Suc.prems Some False Inr
            by (simp add: alone_def read_by_verdict after_verdict_def)
        next
          case (BlockedBy i)
          then show ?thesis using Suc.prems Some False one two Inr
            by (intro exI [of _ 3]) (auto simp: eval_nat_numeral alone_def phase_of_claim_def read_by_verdict after_verdict_def)
        next
          case StaleClaim
          then have c: "claim_attempts env project c now n None = (f', r)"
            using Suc.prems Some False Inr by (simp add: read_by_verdict after_verdict_def)
          obtain k where "(alone env project ^^ k) (None, Creating c now n) = (f', phase_of_claim now c r)"
            using Suc.IH [OF c] by blast
          moreover have "alone env project (f, Reading c now n) = (f, Unlinking c now n)"
              "alone env project (f, Unlinking c now n) = (None, Creating c now n)"
            using StaleClaim Inr by (simp_all add: alone_def)
          ultimately have "(alone env project ^^ Suc (Suc (Suc (Suc k)))) (f, Creating c now (Suc n)) = (f', phase_of_claim now c r)"
            using one two by (simp add: funpow_Suc_right del: funpow.simps)
          then show ?thesis by blast
        qed
      qed
    qed
  qed
qed

lemma expired_claim_taken:
  assumes "good_claim env own t" and "t + LAUNCH_INTENT_TTL_MS \<le> late" and "good_owner env b"
  shows "claimLaunchIntent env project b late (Some (new_intent env project own t)) =
     (Some (new_intent env project b late), Inr Claimed)"
proof -
  let ?f = "new_intent env project own t"
  obtain v where j: "if_json ?f = Some v" by (simp add: new_intent_def)
  then have v: "valid_intent env project v = Some (own, le_iso env t, t)" "claimed_at env v = Some t"
    using assms(1) new_intent_valid [of env t own project] new_intent_owner(3) [of env project own t]
    by (simp_all add: good_claim_def good_owner_def)
  have "\<not> own_claim env project b late ?f"
    using assms(2) by (simp add: own_claim_def j v(2) split: json.splits)
  moreover have "launch_verdict env project (Some b) late (Some ?f) = Inr StaleClaim"
    using assms(2) by (simp add: launch_verdict_def j v(1) LAUNCH_INTENT_TTL_MS_def)
  then have "readLaunchIntent env project (Some b) late (Some ?f) = (None, Inr None)"
    using assms(3) by (simp add: readLaunchIntent_def good_owner_def after_verdict_def)
  ultimately show ?thesis using assms(3)
    by (simp add: claimLaunchIntent_def claimLaunchIntentUnlocked_def eval_nat_numeral good_owner_def)
qed

lemma release_by_moves:
  "releaseLaunchIntent env o' f = (f', Inr ()) \<Longrightarrow> le_canon env o' = Inr c \<Longrightarrow>
     \<exists>k. (alone env project ^^ k) (f, Releasing c) = (f', Quiet)"
  by (cases "names_owner env c f")
    (auto simp: releaseLaunchIntent_def names_owner_def alone_def eval_nat_numeral
      intro: exI [of _ 1] exI [of _ 2] split: option.splits json.splits if_splits)

section \<open>Exclusion in the window\<close>

definition in_time :: "string \<Rightarrow> int \<Rightarrow> launch_phase \<Rightarrow> bool" where
  \<comment> \<open>the process has not decided to remove the claim of \<open>own\<close>, made at \<open>t\<close>, and judges it inside its time-to-live\<close>
  "in_time own t x =
     (case x of
        Creating _ now _ \<Rightarrow> in_window t now | Occupied _ now _ \<Rightarrow> in_window t now | Reading _ now _ \<Rightarrow> in_window t now
      | Probing _ now \<Rightarrow> in_window t now | Releasing c \<Rightarrow> c \<noteq> own
      | Unlinking _ _ _ \<Rightarrow> False | ProbeUnlinking \<Rightarrow> False | ReleaseUnlinking \<Rightarrow> False
      | _ \<Rightarrow> True)"

fun in_time_call :: "'e launch_env \<Rightarrow> string \<Rightarrow> int \<Rightarrow> launch_op \<Rightarrow> bool" where
  \<comment> \<open>any call within the time-to-live, except the release by the owner\<close>
  "in_time_call env own t (OpClaim o' now) = in_window t now"
| "in_time_call env own t (OpRead self now) = in_window t now"
| "in_time_call env own t (OpRelease o') = (le_canon env o' \<noteq> Inr own)"

definition window_inv :: "'e launch_env \<Rightarrow> string \<Rightarrow> string \<Rightarrow> int \<Rightarrow> launch_state \<Rightarrow> launch_state \<Rightarrow> bool" where
  "window_inv env project own t s0 s =
     (la_file s = Some (new_intent env project own t)
      \<and> (\<forall>p. in_time own t (la_phase s p) \<and> (\<forall>c now. la_phase s p = Granted c now \<longrightarrow> c = own \<or> la_phase s0 p = Granted c now)))"

lemma self_verdict_in_window:
  assumes "good_claim env own t" and "in_window t now" and "self_verdict env project self now (Some (new_intent env project own t)) = Inr v"
  shows "v \<noteq> StaleClaim"
  using assms verdict_in_window [OF assms(1,2)]
  by (auto simp: self_verdict_def split: option.splits if_splits sum.splits)

lemma names_other:
  "good_claim env own t \<Longrightarrow> c \<noteq> own \<Longrightarrow> \<not> names_owner env c (Some (new_intent env project own t))"
  by (auto simp: names_owner_def new_intent_def own_field_def dflt_def good_claim_def good_owner_def)

lemma window_move:
  assumes "good_claim env own t" and "in_time own t x"
    and "launch_move env project (Some (new_intent env project own t)) x = (f, y)"
  shows "f = Some (new_intent env project own t) \<and> in_time own t y \<and> (\<forall>c now. y = Granted c now \<longrightarrow> c = own \<or> x = y)"
proof (cases x)
  case (Creating c now n)
  then show ?thesis using assms by (cases n) (auto simp: in_time_def)
next
  case (Occupied c now n)
  then show ?thesis using assms not_own_claim [OF assms(1), of c] by (auto simp: in_time_def split: if_splits)
next
  case (Reading c now n)
  then show ?thesis using assms self_verdict_in_window [OF assms(1), of now project "Some c"]
    by (auto simp: in_time_def split: sum.splits launch_verdict.splits)
next
  case (Probing self now)
  then show ?thesis using assms self_verdict_in_window [OF assms(1), of now project self]
    by (auto simp: in_time_def split: if_splits)
next
  case (Releasing c)
  then show ?thesis using assms names_other [OF assms(1), of c] by (auto simp: in_time_def)
qed (use assms in \<open>auto simp: in_time_def\<close>)

lemma window_step:
  assumes "launch_step env project (in_time_call env own t) s s'" and "window_inv env project own t s0 s" and "good_claim env own t"
  shows "window_inv env project own t s0 s'"
  using assms(1)
proof (cases rule: launch_step.cases)
  case (calls p x)
  have "in_time own t (launch_entry env x)" "\<And>c now. launch_entry env x \<noteq> Granted c now"
    using calls(3) by (cases x; auto simp: launch_entry_def in_time_def split: sum.split)+
  then show ?thesis using assms(2) calls(1) by (simp add: window_inv_def)
next
  case (moves p f x)
  have "launch_move env project (Some (new_intent env project own t)) (la_phase s p) = (f, x)"
    using moves(2) assms(2) by (simp add: window_inv_def)
  moreover have "in_time own t (la_phase s p)" using assms(2) by (simp add: window_inv_def)
  ultimately have "f = Some (new_intent env project own t)" "in_time own t x"
      "\<forall>c now. x = Granted c now \<longrightarrow> c = own \<or> la_phase s p = x"
    using window_move [OF assms(3)] by blast+
  then show ?thesis using assms(2) moves(1) unfolding window_inv_def by (simp, metis)
qed

lemma window_steps:
  assumes "(launch_step env project (in_time_call env own t))\<^sup>*\<^sup>* s s'" and "window_inv env project own t s0 s" and "good_claim env own t"
  shows "window_inv env project own t s0 s'"
  using assms(1,2) by (induction rule: rtranclp_induct) (auto intro: window_step [OF _ _ assms(3)])

text \<open>C37. The launch window has one owner.  Let the claim of a run be in the file and no process have
  decided to unlink the file (a decision taken about an earlier claim is what the next property is
  about).  Then, however the accesses of any number of claims, probes and releases interleave, as long as
  they are made inside the time-to-live and the owner does not release, the claim stays in the file and
  no process is told the window is its own except for the owner's run; a probe reports the project busy
  with the owner.  The owner's repeated claim is granted, its release frees the window, and a claim made
  after the time-to-live is granted.\<close>

theorem launch_window_exclusive:
  assumes "good_claim env own t" and "la_file s = Some (new_intent env project own t)"
    and "\<And>p. in_time own t (la_phase s p)"
    and "(launch_step env project (in_time_call env own t))\<^sup>*\<^sup>* s s'" and "in_window t now"
  shows "la_file s' = la_file s
    \<and> (\<forall>p c made. la_phase s' p = Granted c made \<longrightarrow> c = own \<or> la_phase s p = Granted c made)
    \<and> snd (isProjectBusy env h runs project None now probe_now (la_file s') cache) = Inr (Some (BusyIntent own))
    \<and> claimLaunchIntent env project own now (la_file s') = (la_file s', Inr Claimed)
    \<and> releaseLaunchIntent env own (la_file s') = (None, Inr ())
    \<and> (good_owner env b \<and> t + LAUNCH_INTENT_TTL_MS \<le> late \<longrightarrow>
         snd (claimLaunchIntent env project b late (la_file s')) = Inr Claimed)"
proof -
  have "window_inv env project own t s s" using assms(2,3) by (simp add: window_inv_def)
  from window_steps [OF assms(4) this assms(1)]
  have f: "la_file s' = Some (new_intent env project own t)"
    and g: "\<forall>p c made. la_phase s' p = Granted c made \<longrightarrow> c = own \<or> la_phase s p = Granted c made"
    by (simp_all add: window_inv_def)
  have c: "le_canon env own = Inr own" using assms(1) by (simp add: good_claim_def good_owner_def)
  have "snd (isProjectBusy env h runs project None now probe_now (la_file s') cache) = Inr (Some (BusyIntent own))"
    by (simp add: isProjectBusy_def f read_in_window [OF assms(1,5)])
  moreover have "claimLaunchIntent env project own now (la_file s') = (la_file s', Inr Claimed)"
    using own_claim_again [OF assms(1,5)] c
    by (simp add: claimLaunchIntent_def claimLaunchIntentUnlocked_def eval_nat_numeral f)
  moreover have "releaseLaunchIntent env own (la_file s') = (None, Inr ())"
    using c by (simp add: releaseLaunchIntent_def f new_intent_def own_field_def dflt_def)
  moreover have "good_owner env b \<and> t + LAUNCH_INTENT_TTL_MS \<le> late \<longrightarrow>
      snd (claimLaunchIntent env project b late (la_file s')) = Inr Claimed"
    by (simp add: f expired_claim_taken [OF assms(1)])
  ultimately show ?thesis using f g assms(2) by simp
qed

section \<open>Two processes at an expired claim\<close>


lemma enter_again [simp]: "enter_phase p y (enter_phase p x s) = enter_phase p y s"
  by (simp add: enter_phase_def)








definition example_env :: "unit launch_env" where
  "example_env = \<lparr>le_canon = Inr, le_iso = (\<lambda>t. replicate (nat t) CHR ''x''), le_date = (\<lambda>s. Some (int (length s)))\<rparr>"

lemma example_claim: "own \<noteq> [] \<Longrightarrow> 0 \<le> t \<Longrightarrow> good_claim example_env own t"
  by (simp add: good_claim_def good_owner_def example_env_def)

definition example_window :: launch_state where
  \<comment> \<open>run \<open>a\<close> has the claim, and process 2 is about to ask for run \<open>b\<close>\<close>
  "example_window = \<lparr>la_file = Some (new_intent example_env ''p'' ''a'' 3),
     la_phase = (\<lambda>p. if p = 1 then Granted ''a'' 3 else if p = 2 then Reading ''b'' 5 2 else Quiet)\<rparr>"

theorem launch_window_exclusive_witness:
  "la_phase (enter_phase 2 (Denied ''a'') example_window) 2 \<noteq> Granted ''b'' 5
   \<and> snd (isProjectBusy example_env (example_host ''r'') [] ''p'' None 6 0 (la_file (enter_phase 2 (Denied ''a'') example_window)) None)
       = Inr (Some (BusyIntent ''a''))"
proof -
  have c: "good_claim example_env ''a'' 3" by (rule example_claim) simp_all
  have w: "in_window 3 5" "in_window 3 6" by (simp_all add: in_window_def LAUNCH_INTENT_TTL_MS_def)
  have quiet: "in_time ''a'' 3 (la_phase example_window p)" for p using w by (simp add: example_window_def in_time_def)
  have held: "la_file example_window = Some (new_intent example_env ''p'' ''a'' 3)" by (simp add: example_window_def)
  have n: "le_canon example_env ''b'' = Inr ''b''" by (simp add: example_env_def)
  have v: "self_verdict example_env ''p'' (Some ''b'') 5 (Some (new_intent example_env ''p'' ''a'' 3))
      = Inr (BlockedBy \<lparr>li_project = ''p'', li_owner = ''a'', li_claimedAt = le_iso example_env 3\<rparr>)"
    using verdict_in_window [OF c w(1), of "''p''" "Some ''b''"] by (simp add: self_verdict_def n)
  have "launch_step example_env ''p'' (in_time_call example_env ''a'' 3) example_window (enter_phase 2 (Denied ''a'') example_window)"
    using launch_step.moves [of example_env "''p''" example_window 2 "la_file example_window" "Denied ''a''"]
    by (simp add: held v) (simp add: example_window_def v)
  then have "(launch_step example_env ''p'' (in_time_call example_env ''a'' 3))\<^sup>*\<^sup>* example_window (enter_phase 2 (Denied ''a'') example_window)"
    by blast
  from launch_window_exclusive [OF c held quiet this w(2)] show ?thesis by (simp add: example_window_def)
qed


end
