(* ===== verification/Gate_Evidence.thy ===== *)
theory Gate_Evidence
  imports Frontier Condition
begin

text \<open>
  The evidence a gate's verdict rests on
  (\<open>src/src/scheduler/sched_settlement/gate-validation.ts\<close>, \<open>gate-evidence.ts\<close>, \<open>gate-contract.ts\<close> and
  \<open>scoped-audit-repair.ts\<close>): the validation receipt bound to one execution of the gate, the
  authored verdict document, its repairability declaration, per-criterion evidence, structured
  findings and the numeric contract of a campaign.

  SHA-256 and the rendering of an instant are the fields of \<open>gate_env\<close>.  A run is known by its files:
  \<open>gate_run\<close> holds what the readers find in the run directory.  The comparison of the configured
  validation commands with the setup baseline (\<open>project-validation.ts\<close>) is an observation, the list
  of its entries.  A diagnostic text is the constructor that builds it.
\<close>

section \<open>Verdicts\<close>

datatype repair_disposition = Repairable | Irreparable

datatype refusal_kind =
    RfRepairability | RfValidationRegression | RfValidationUnresolved | RfDeclaredOutput
  | RfAuditFindings | RfOutcomeAbsent | RfOutcomeInvalid | RfContradiction | RfCriterionEvidence
  | RfNumericEvidence | RfScoreContract | RfMissingVerdict

datatype gate_reason =
    Authored string
  | StudyCompleteReason
  | NoSettledExecution string
  | NoReceipt string
  | ReceiptOfOther "string option" string
  | OtherBaseline string
  | PassedButGateFailed
  | RegressionsRecorded string "(string \<times> string) list"
  | ValidationUnresolved string "(string \<times> string) list"
  | ReceiptNotAuthentic
  | OutputRequired string
  | BadRepairability
  | StudyWithRepairability
  | FindingsInvalid
  | FindingsOpen
  | OutcomeUnusable
  | RepairRequiredWithPass
  | MissingCriteriaMap "string list"
  | MissingEvidenceFor string
  | BadCriterionEntry string
  | FailedCriterion string
  | NoNumericValue string
  | MetricRedefined string
  | ThresholdMissed rat
  | NoVerdictProduced

record gate_verdict =
  gv_pass :: "bool option"
  \<comment> \<open>\<open>None\<close> for a stored record whose \<open>pass\<close> is no boolean\<close>
  gv_reason :: "gate_reason option"
  gv_repairability :: "(repair_disposition \<times> string) option"
  gv_refusal :: "refusal_kind option"

definition refused :: "refusal_kind \<Rightarrow> gate_reason \<Rightarrow> gate_verdict" where
  "refused k why = \<lparr>gv_pass = Some False, gv_reason = Some why, gv_repairability = None, gv_refusal = Some k\<rparr>"

section \<open>Runs\<close>

record gate_env =
  ge_sha :: "string \<Rightarrow> string"
  ge_iso :: "instant \<Rightarrow> string"


record validation_entry =
  ve_role :: string
  ve_display :: "string option"
  ve_state :: string
  ve_reason :: string
  ve_identifiers :: "string list"

record validation_delta =
  vd_version :: int
  vd_stageId :: string
  vd_checkedAt :: instant
  vd_pass :: bool
  vd_baselineSha :: string
  vd_entries :: "validation_entry list"
  vd_attemptIndex :: "nat option"
  vd_startedAt :: "instant option"
  vd_completedAt :: "instant option option"
  \<comment> \<open>\<open>Some None\<close> is the empty text of an execution still running\<close>
  vd_executionId :: "string option"
  vd_immutablePath :: "string option"
  vd_validationAttempt :: "int option"

record gate_receipt =
  \<comment> \<open>\<open>artifact_contract.json\<close> of the stage\<close>
  gc_stageId :: string
  gc_production :: "(string \<times> bool \<times> nat \<times> instant) option"
  \<comment> \<open>run id, whether it was produced in this run directory, attempt index and start\<close>
  gc_deferred :: bool
  gc_violations :: nat
  gc_observation :: "(bool \<times> string) option"
  \<comment> \<open>freshness and digest of the observation of the verdict file\<close>

record settled_gate =
  sg_verdict :: gate_verdict
  sg_kind :: string
  sg_digest :: "string option"

record gate_stage =
  \<comment> \<open>a stage of the ledger with its payloads \<open>gate\<close> and \<open>acceptedFrom\<close>\<close>
  gs_status :: stage_status
  gs_gate :: "settled_gate option"
  gs_accepted :: "gate_verdict option"

datatype outcome_candidate = OutMeasured | OutNoCandidate | OutInvalid | OutAbsent

record gate_run =
  gr_runId :: string
  gr_ledger :: "(string \<times> gate_stage) list"
  \<comment> \<open>the stages of run.json, equal to their status files while the run is published\<close>
  gr_stages :: "stage_config list"
  \<comment> \<open>the stages of the accepted plan\<close>
  gr_outputs :: "(string \<times> bool) list"
  \<comment> \<open>declared products with their availability\<close>
  gr_verdicts :: "(string \<times> string \<times> json) list"
  \<comment> \<open>the bytes of \<open>verdict_<stage>.json\<close> and their parse\<close>
  gr_archived :: "(string \<times> gate_verdict) list"
  \<comment> \<open>the conclusion of the last archived rejection\<close>
  gr_receipts :: "(string \<times> gate_receipt) list"
  gr_baseline :: "(string \<times> bool) option"
  \<comment> \<open>the bytes of the setup baseline, and whether they parse as one\<close>
  gr_deltas :: "(string \<times> validation_delta) list"
  gr_immutable :: "(string \<times> validation_delta) list"
  gr_candidates :: "(string \<times> outcome_candidate) list"
  gr_refs :: "(string \<times> string list) list"
  gr_metrics :: "(string \<times> json) list"

section \<open>Executions and their validation receipts\<close>

record gate_execution =
  gx_index :: nat
  gx_started :: instant
  gx_completed :: "instant option"
  gx_id :: string

definition validationExecutionId ::
  "gate_env \<Rightarrow> string \<Rightarrow> string \<Rightarrow> nat \<Rightarrow> instant \<Rightarrow> instant option \<Rightarrow> string" where
  "validationExecutionId env runId sid index started completed =
     ge_sha env (join_with [CHR 0x00]
       [runId, sid, dec index, ge_iso env started, (case completed of None \<Rightarrow> [] | Some t \<Rightarrow> ge_iso env t)])"

definition gateValidationExecution ::
  "gate_env \<Rightarrow> gate_run \<Rightarrow> string \<Rightarrow> attempt_state \<Rightarrow> gate_execution option" where
  "gateValidationExecution env g sid want =
     (case map_of (gr_ledger g) sid of
        None \<Rightarrow> None
      | Some gs \<Rightarrow>
          if s_continuation (gs_status gs) \<noteq> None then None
          else case at_last (attempts_of (gs_status gs)) of
            None \<Rightarrow> None
          | Some a \<Rightarrow>
              if a_status a \<noteq> want \<or> (want \<noteq> ARunning \<and> a_completedAt a = None) then None
              else let completed = (if want = ARunning then None else a_completedAt a)
                   in Some \<lparr>gx_index = a_index a, gx_started = a_startedAt a, gx_completed = completed,
                            gx_id = validationExecutionId env (gr_runId g) sid (a_index a) (a_startedAt a) completed\<rparr>)"

definition settledGateValidationExecution :: "gate_env \<Rightarrow> gate_run \<Rightarrow> string \<Rightarrow> gate_execution option" where
  "settledGateValidationExecution env g sid = gateValidationExecution env g sid AComplete"

definition closedGateValidationExecution :: "gate_env \<Rightarrow> gate_run \<Rightarrow> string \<Rightarrow> gate_execution option" where
  "closedGateValidationExecution env g sid =
     or_else (settledGateValidationExecution env g sid) (gateValidationExecution env g sid AFailed)"

definition readValidationDelta :: "gate_run \<Rightarrow> string \<Rightarrow> validation_delta option" where
  "readValidationDelta g sid =
     (case map_of (gr_deltas g) sid of
        None \<Rightarrow> None
      | Some d \<Rightarrow>
          if vd_version d = 2
            \<and> distinct (map (\<lambda>e. (ve_role e, ve_display e)) (vd_entries d))
            \<and> list_all (\<lambda>e. ve_role e \<in> {''build'', ''test'', ''lint''}
                 \<and> ve_state e \<in> {''pass'', ''regression'', ''unresolved''} \<and> ve_display e \<noteq> Some []) (vd_entries d)
            \<and> (case vd_validationAttempt d of None \<Rightarrow> True | Some n \<Rightarrow> 1 \<le> n \<and> n \<le> 2 ^ 53 - 1)
          then Some d else None)"

definition validationDeltaMatchesExecution :: "validation_delta \<Rightarrow> gate_execution option \<Rightarrow> bool" where
  "validationDeltaMatchesExecution d x =
     (case x of
        None \<Rightarrow> False
      | Some e \<Rightarrow> vd_version d = 2 \<and> vd_attemptIndex d = Some (gx_index e) \<and> vd_startedAt d = Some (gx_started e)
          \<and> vd_completedAt d = Some (gx_completed e) \<and> vd_executionId d = Some (gx_id e))"

definition entries_in :: "string \<Rightarrow> validation_delta \<Rightarrow> validation_entry list" where
  "entries_in st d = filter (\<lambda>e. ve_state e = st) (vd_entries d)"

definition regression_refusal :: "gate_execution \<Rightarrow> string \<Rightarrow> validation_delta \<Rightarrow> gate_verdict" where
  "regression_refusal x sid d =
     \<lparr>gv_pass = Some False,
      gv_reason = Some (RegressionsRecorded (gx_id x)
        (map (\<lambda>e. (ve_role e, if ve_identifiers e = [] then ve_reason e else join_with '', '' (ve_identifiers e)))
             (entries_in ''regression'' d))),
      gv_repairability = Some (Repairable, dflt (vd_immutablePath d) (''validation_delta_'' @ sid @ ''.json'')),
      gv_refusal = Some RfValidationRegression\<rparr>"

definition gateValidationRefusal :: "gate_env \<Rightarrow> gate_run \<Rightarrow> string \<Rightarrow> gate_verdict option" where
  "gateValidationRefusal env g sid =
     (case gr_baseline g of
        None \<Rightarrow> None
      | Some (baseline, _) \<Rightarrow>
          (case closedGateValidationExecution env g sid of
             None \<Rightarrow> Some (refused RfValidationUnresolved (NoSettledExecution sid))
           | Some x \<Rightarrow>
               (case readValidationDelta g sid of
                  None \<Rightarrow> Some (refused RfValidationUnresolved (NoReceipt (gx_id x)))
                | Some d \<Rightarrow>
                    if vd_stageId d \<noteq> sid \<or> \<not> validationDeltaMatchesExecution d (Some x)
                    then Some (refused RfValidationUnresolved (ReceiptOfOther (vd_executionId d) (gx_id x)))
                    else if vd_baselineSha d \<noteq> ge_sha env baseline
                    then Some (refused RfValidationUnresolved (OtherBaseline (gx_id x)))
                    else if vd_pass d
                    then (if settledGateValidationExecution env g sid \<noteq> None then None
                          else Some (refused RfValidationUnresolved PassedButGateFailed))
                    else if entries_in ''regression'' d \<noteq> [] then Some (regression_refusal x sid d)
                    else Some (refused RfValidationUnresolved (ValidationUnresolved (gx_id x)
                           (map (\<lambda>e. (ve_role e, ve_reason e)) (filter (\<lambda>e. ve_state e \<noteq> ''pass'') (vd_entries d))))))))"

section \<open>Recording and settling receipts\<close>

definition immutable_name :: "string \<Rightarrow> nat \<Rightarrow> string \<Rightarrow> string" where
  "immutable_name sid index digest =
     ''validation_delta_'' @ sid @ ''_attempt_'' @ dec index @ ''_'' @ take 16 digest @ ''.json''"

definition publish_delta :: "string \<Rightarrow> validation_delta \<Rightarrow> gate_run \<Rightarrow> gate_run" where
  \<comment> \<open>\<open>publishJsonCreateOnly\<close> of the immutable copy, whose content is never overwritten, then the current receipt\<close>
  "publish_delta sid d g =
     (let path = dflt (vd_immutablePath d) []
      in g\<lparr>gr_immutable := (if map_of (gr_immutable g) path = None then amap_set path d (gr_immutable g) else gr_immutable g),
           gr_deltas := amap_set sid d (gr_deltas g)\<rparr>)"

definition touches_project :: "stage_attempt \<Rightarrow> bool" where
  \<comment> \<open>an attempt that wrote to the project, or of which that is not known\<close>
  "touches_project a =
     (a_status a = ARunning \<or> a_writeAttribution a = Some ''unknown''
      \<or> (case a_writes a of None \<Rightarrow> True | Some ws \<Rightarrow> list_ex (\<lambda>p. \<not> starts_with ''run:'' p) ws)
      \<or> dflt (a_validationGeneratedWrites a) [] \<noteq> [])"

definition closed_before :: "instant \<Rightarrow> stage_attempt \<Rightarrow> bool" where
  "closed_before t a = (a_status a \<noteq> ARunning \<and> (case a_completedAt a of None \<Rightarrow> False | Some c \<Rightarrow> c < t))"

definition quiet_stage :: "gate_run \<Rightarrow> instant \<Rightarrow> string \<Rightarrow> unit + bool" where
  \<comment> \<open>\<open>Inl\<close>: the stage has no status file\<close>
  "quiet_stage g t sid =
     (case map_of (gr_ledger g) sid of
        None \<Rightarrow> Inl ()
      | Some gs \<Rightarrow>
          let as = attempts_of (gs_status gs)
          in Inr (as \<noteq> [] \<and> list_all (\<lambda>a. closed_before t a \<or> \<not> touches_project a) as))"

fun all_quiet :: "gate_run \<Rightarrow> instant \<Rightarrow> string list \<Rightarrow> unit + bool" where
  "all_quiet g t [] = Inr True"
| "all_quiet g t (sid # sids) = rbind (quiet_stage g t sid) (\<lambda>q. if q then all_quiet g t sids else Inr False)"

definition bind_execution :: "gate_execution \<Rightarrow> validation_delta \<Rightarrow> validation_delta" where
  \<comment> \<open>\<open>{ ...prior, ...execution }\<close>\<close>
  "bind_execution x d = d\<lparr>vd_attemptIndex := Some (gx_index x), vd_startedAt := Some (gx_started x),
     vd_completedAt := Some (gx_completed x), vd_executionId := Some (gx_id x)\<rparr>"

definition bindReviewedGateValidation ::
  "gate_env \<Rightarrow> (validation_delta \<Rightarrow> string) \<Rightarrow> string \<Rightarrow> string list \<Rightarrow> gate_run \<Rightarrow> gate_run \<times> (unit + bool)" where
  \<comment> \<open>\<open>digest\<close> is the SHA-256 of the JSON text of a receipt; \<open>Inl\<close> is a missing file\<close>
  "bindReviewedGateValidation env digest sid wave g =
     (case (readValidationDelta g sid, closedGateValidationExecution env g sid) of
        (Some prior, Some x) \<Rightarrow>
          if vd_stageId prior \<noteq> sid \<or> vd_completedAt prior \<noteq> Some None
             \<or> vd_attemptIndex prior \<noteq> Some (gx_index x) \<or> vd_startedAt prior \<noteq> Some (gx_started x)
             \<or> vd_executionId prior \<noteq> Some (validationExecutionId env (gr_runId g) sid (gx_index x) (gx_started x) None)
          then (g, Inr False)
          else (case gr_baseline g of
             None \<Rightarrow> (g, Inl ())
           | Some (baseline, _) \<Rightarrow>
               if vd_baselineSha prior \<noteq> ge_sha env baseline then (g, Inr False)
               else (case all_quiet g (gx_started x) (uniq (sid # wave)) of
                  Inl e \<Rightarrow> (g, Inl e)
                | Inr False \<Rightarrow> (g, Inr False)
                | Inr True \<Rightarrow>
                    let bound = bind_execution x prior;
                        final = bound\<lparr>vd_immutablePath := Some (immutable_name sid (gx_index x) (digest bound))\<rparr>
                    in (publish_delta sid final g, Inr True)))
      | _ \<Rightarrow> (g, Inr False))"

definition recorded_delta ::
  "gate_env \<Rightarrow> (validation_delta \<Rightarrow> string) \<Rightarrow> string \<Rightarrow> instant \<Rightarrow> instant \<Rightarrow> validation_entry list \<Rightarrow> string \<Rightarrow>
   gate_run \<Rightarrow> validation_delta" where
  \<comment> \<open>the receipt of one comparison, started and checked at the two instants\<close>
  "recorded_delta env digest sid startedAt checkedAt entries baseline g =
     (let x = (case or_else (closedGateValidationExecution env g sid) (gateValidationExecution env g sid ARunning) of
                 Some x \<Rightarrow> x
               | None \<Rightarrow> \<lparr>gx_index = 0, gx_started = startedAt, gx_completed = Some checkedAt,
                          gx_id = validationExecutionId env (gr_runId g) sid 0 startedAt (Some checkedAt)\<rparr>);
          sha = ge_sha env baseline;
          attempt = (case readValidationDelta g sid of
                       None \<Rightarrow> 1
                     | Some p \<Rightarrow> if vd_executionId p = Some (gx_id x) \<and> vd_baselineSha p = sha
                                 then dflt (vd_validationAttempt p) 1 + 1 else 1);
          d = bind_execution x \<lparr>vd_version = 2, vd_stageId = sid, vd_checkedAt = checkedAt,
                vd_pass = list_all (\<lambda>e. ve_state e = ''pass'') entries, vd_baselineSha = sha, vd_entries = entries,
                vd_attemptIndex = None, vd_startedAt = None, vd_completedAt = None, vd_executionId = None,
                vd_immutablePath = Some [], vd_validationAttempt = Some attempt\<rparr>
      in d\<lparr>vd_immutablePath := Some (immutable_name sid (gx_index x) (digest d))\<rparr>)"

datatype settlement = Unchanged | Replayed | SettlementRefused

definition recordGateValidationDelta ::
  "gate_env \<Rightarrow> (validation_delta \<Rightarrow> string) \<Rightarrow> string \<Rightarrow> instant \<Rightarrow> instant \<Rightarrow> validation_entry list \<Rightarrow> gate_run \<Rightarrow>
   gate_run \<times> validation_delta option" where
  \<comment> \<open>\<open>entries\<close> is the comparison of the commands run now with the baseline\<close>
  "recordGateValidationDelta env digest sid startedAt checkedAt entries g =
     (case gr_baseline g of
        Some (baseline, True) \<Rightarrow>
          if (case map_of (gr_ledger g) sid of Some gs \<Rightarrow> s_continuation (gs_status gs) \<noteq> None | None \<Rightarrow> False)
          then (g, None)
          else let d = recorded_delta env digest sid startedAt checkedAt entries baseline g
               in (publish_delta sid d g, Some d)
      | _ \<Rightarrow> (g, None))"

definition written_since :: "instant \<Rightarrow> gate_run \<Rightarrow> bool" where
  "written_since t g =
     list_ex (\<lambda>(sid, gs). list_ex (\<lambda>a. (case a_completedAt a of None \<Rightarrow> True | Some c \<Rightarrow> c \<ge> t) \<and> touches_project a)
        (attempts_of (gs_status gs))) (gr_ledger g)"

definition receipt_bound :: "gate_env \<Rightarrow> gate_run \<Rightarrow> string \<Rightarrow> gate_execution \<Rightarrow> string \<Rightarrow> validation_delta \<Rightarrow> bool" where
  "receipt_bound env g sid x baseline d =
     (vd_version d = 2 \<and> vd_stageId d = sid \<and> validationDeltaMatchesExecution d (Some x)
      \<and> vd_baselineSha d = ge_sha env baseline \<and> \<not> written_since (vd_checkedAt d) g)"

definition settled_as :: "gate_execution \<Rightarrow> validation_delta option \<Rightarrow> settlement" where
  "settled_as x r =
     (case r of
        None \<Rightarrow> SettlementRefused
      | Some next \<Rightarrow>
          if \<not> validationDeltaMatchesExecution next (Some x) then SettlementRefused
          else if vd_pass next then Replayed
          else if entries_in ''regression'' next \<noteq> [] then Unchanged else SettlementRefused)"

definition settleGateValidationEvidence ::
  "gate_env \<Rightarrow> (validation_delta \<Rightarrow> string) \<Rightarrow> string \<Rightarrow> instant \<Rightarrow> instant \<Rightarrow> validation_entry list \<Rightarrow> gate_run \<Rightarrow>
   gate_run \<times> settlement \<times> bool" where
  \<comment> \<open>the last component: whether the configured commands were executed\<close>
  "settleGateValidationEvidence env digest sid startedAt checkedAt entries g =
     (case gr_baseline g of
        Some (baseline, True) \<Rightarrow>
          (case or_else (closedGateValidationExecution env g sid) (gateValidationExecution env g sid ARunning) of
             None \<Rightarrow> (g, SettlementRefused, False)
           | Some x \<Rightarrow>
               let previous = readValidationDelta g sid;
                   bound = (case previous of None \<Rightarrow> False | Some p \<Rightarrow> receipt_bound env g sid x baseline p)
               in if bound \<and> (vd_pass (the previous) \<or> entries_in ''regression'' (the previous) \<noteq> [])
                  then (g, Unchanged, False)
                  else if bound \<and> dflt (vd_validationAttempt (the previous)) 1 \<ge> 2
                  then (g, SettlementRefused, False)
                  else (case recordGateValidationDelta env digest sid startedAt checkedAt entries g of
                          (g', r) \<Rightarrow> (g', settled_as x r, True)))
      | _ \<Rightarrow> (g, Unchanged, False))"

section \<open>Authored verdicts\<close>

definition has_field :: "json \<Rightarrow> string \<Rightarrow> bool" where
  "has_field v k = (case v of JObj m \<Rightarrow> map_of m k \<noteq> None | _ \<Rightarrow> False)"

definition only_fields :: "string list \<Rightarrow> json \<Rightarrow> bool" where
  \<comment> \<open>a strict object schema: no field but these\<close>
  "only_fields ks v = (case v of JObj m \<Rightarrow> set (map fst m) \<subseteq> set ks | _ \<Rightarrow> False)"

definition nonblank :: "json \<Rightarrow> bool" where
  "nonblank v = (case v of JStr s \<Rightarrow> trim s \<noteq> [] | _ \<Rightarrow> False)"

definition repairability_of :: "json \<Rightarrow> (repair_disposition \<times> string) option" where
  \<comment> \<open>\<open>repairabilitySchema\<close>, the evidence trimmed\<close>
  "repairability_of v =
     (if only_fields [''version'', ''disposition'', ''evidence''] v \<and> own_field v ''version'' = JNum 1
         \<and> nonblank (own_field v ''evidence'')
      then (case (own_field v ''disposition'', own_field v ''evidence'') of
              (JStr d, JStr e) \<Rightarrow>
                if d = ''repairable'' then Some (Repairable, trim e)
                else if d = ''irreparable'' then Some (Irreparable, trim e) else None
            | _ \<Rightarrow> None)
      else None)"

definition validateGateRepairability :: "json \<Rightarrow> bool" where
  \<comment> \<open>no violation\<close>
  "validateGateRepairability v =
     (\<not> has_field v ''repairability''
      \<or> own_field v ''pass'' = JBool False \<and> repairability_of (own_field v ''repairability'') \<noteq> None)"

definition pass_of :: "json \<Rightarrow> bool option" where
  "pass_of v = (case own_field v ''pass'' of JBool b \<Rightarrow> Some b | _ \<Rightarrow> None)"

definition reason_of :: "json \<Rightarrow> gate_reason option" where
  "reason_of v = (case own_field v ''reason'' of JStr s \<Rightarrow> Some (Authored s) | _ \<Rightarrow> None)"

definition projectGateVerdict :: "json \<Rightarrow> gate_verdict" where
  "projectGateVerdict v =
     \<lparr>gv_pass = pass_of v, gv_reason = reason_of v,
      gv_repairability = (if validateGateRepairability v \<and> truthy (own_field v ''repairability'')
                          then repairability_of (own_field v ''repairability'') else None),
      gv_refusal = None\<rparr>"

record verdict_document =
  dc_value :: json
  dc_digest :: string

definition readGateVerdictDocument :: "gate_env \<Rightarrow> gate_run \<Rightarrow> string \<Rightarrow> verdict_document option" where
  "readGateVerdictDocument env g sid =
     (case map_of (gr_verdicts g) sid of
        None \<Rightarrow> None
      | Some (bytes, v) \<Rightarrow>
          if pass_of v = None then None else Some \<lparr>dc_value = v, dc_digest = ge_sha env bytes\<rparr>)"

definition refuse_document :: "json \<Rightarrow> gate_reason \<Rightarrow> gate_verdict" where
  \<comment> \<open>\<open>GateVerdictDocument.refuse\<close>\<close>
  "refuse_document v why =
     (if truthy (own_field v ''repairability'')
      then (projectGateVerdict v)\<lparr>gv_pass := Some False, gv_reason := Some why\<rparr>
      else \<lparr>gv_pass = Some False, gv_reason = Some why, gv_repairability = None, gv_refusal = None\<rparr>)"

definition validateSettledGateVerdict ::
  "gate_env \<Rightarrow> gate_run \<Rightarrow> string \<Rightarrow> stage_attempt option \<Rightarrow> string \<Rightarrow> bool" where
  \<comment> \<open>the protected receipt of this execution certifies the captured bytes, and they are still the file's\<close>
  "validateSettledGateVerdict env g sid attempt digest =
     (case (attempt, map_of (gr_receipts g) sid, map_of (gr_verdicts g) sid) of
        (Some a, Some rc, Some (bytes, _)) \<Rightarrow>
          a_status a = AComplete \<and> a_completedAt a \<noteq> None \<and> gc_stageId rc = sid
          \<and> gc_production rc = Some (gr_runId g, True, a_index a, a_startedAt a)
          \<and> \<not> gc_deferred rc \<and> gc_violations rc = 0
          \<and> gc_observation rc = Some (True, digest) \<and> digest = ge_sha env bytes
      | _ \<Rightarrow> False)"

definition explicitPassContradiction :: "json \<Rightarrow> bool" where
  "explicitPassContradiction v =
     (own_field v ''pass'' = JBool True
      \<and> (own_field v ''repair_required'' = JBool True \<or> own_field v ''requires_repair'' = JBool True))"

definition trimmed_lower :: "json \<Rightarrow> string" where
  "trimmed_lower v = (case v of JStr s \<Rightarrow> lower (trim s) | _ \<Rightarrow> [])"

fun criterion_violation :: "json \<Rightarrow> bool \<Rightarrow> string list \<Rightarrow> gate_reason option" where
  "criterion_violation criteria passing [] = None"
| "criterion_violation criteria passing (ref # refs) =
     (let entry = own_field criteria ref;
          status = trimmed_lower (own_field entry ''status'')
      in if \<not> is_record entry then Some (MissingEvidenceFor ref)
         else if status \<notin> {''pass'', ''fail'', ''judgement''} \<or> \<not> nonblank (own_field entry ''evidence'')
         then Some (BadCriterionEntry ref)
         else if passing \<and> status = ''fail'' then Some (FailedCriterion ref)
         else criterion_violation criteria passing refs)"

definition validateGateCriterionEvidence :: "gate_run \<Rightarrow> string \<Rightarrow> json \<Rightarrow> gate_reason option" where
  "validateGateCriterionEvidence g sid v =
     (let refs = lookup [] (gr_refs g) sid
      in if refs = [] then None
         else if \<not> is_record (own_field v ''criteria'') then Some (MissingCriteriaMap refs)
         else criterion_violation (own_field v ''criteria'') (own_field v ''pass'' = JBool True) refs)"

definition isTerminalStudyCompletionArtifact :: "json \<Rightarrow> bool" where
  "isTerminalStudyCompletionArtifact v =
     (\<not> (own_field v ''phase_complete'' = JBool True \<or> own_field v ''phaseComplete'' = JBool True
          \<or> own_field v ''continue_next_phase'' = JBool True)
      \<and> own_field v ''study_complete'' = JBool True \<and> own_field v ''model_success'' = JBool False
      \<and> own_field v ''reason'' = JStr ''study_complete_without_model_success'')"

section \<open>Structured findings\<close>

definition id_char :: "char \<Rightarrow> bool" where
  "id_char c = (is_digit c \<or> lower_char c \<in> set ''abcdefghijklmnopqrstuvwxyz'' \<or> c \<in> set ''_-'')"

definition all_of :: "(json \<Rightarrow> bool) \<Rightarrow> json \<Rightarrow> bool" where
  "all_of P v = (case v of JArr xs \<Rightarrow> list_all P xs | _ \<Rightarrow> False)"

definition nonempty_string :: "json \<Rightarrow> bool" where
  "nonempty_string v = (case v of JStr s \<Rightarrow> s \<noteq> [] | _ \<Rightarrow> False)"

definition finding_ok :: "json \<Rightarrow> bool" where
  "finding_ok v =
     (only_fields [''id'', ''paths'', ''reason'', ''criterion_ids'', ''invalidates_plan'', ''repair_role''] v
      \<and> (case own_field v ''id'' of JStr s \<Rightarrow> s \<noteq> [] \<and> length s \<le> 80 \<and> list_all id_char s | _ \<Rightarrow> False)
      \<and> all_of nonblank (own_field v ''paths'') \<and> own_field v ''paths'' \<noteq> JArr []
      \<and> nonblank (own_field v ''reason'')
      \<and> all_of nonempty_string (own_field v ''criterion_ids'')
      \<and> (case own_field v ''invalidates_plan'' of JBool _ \<Rightarrow> True | _ \<Rightarrow> False)
      \<and> nonempty_string (own_field v ''repair_role''))"

definition audit_findings :: "json \<Rightarrow> nat option" where
  \<comment> \<open>\<open>AuditFindingsSchema.safeParse\<close>: the number of findings of a well-formed report\<close>
  "audit_findings v =
     (if only_fields [''version'', ''findings''] v \<and> own_field v ''version'' = JNum 1
      then (case own_field v ''findings'' of
              JArr fs \<Rightarrow> if list_all finding_ok fs then Some (length fs) else None
            | _ \<Rightarrow> None)
      else None)"

section \<open>The numeric contract\<close>

record gate_contract =
  ct_metric :: string
  ct_synonyms :: "string list option"
  ct_threshold :: rat
  ct_higherIsBetter :: "bool option"
  ct_appliesToGates :: "string list option"

definition number_of :: "json \<Rightarrow> rat option" where
  "number_of v = (case v of JNum r \<Rightarrow> Some r | _ \<Rightarrow> None)"

definition metricFileIndicatesFailure :: "json \<Rightarrow> bool" where
  "metricFileIndicatesFailure m =
     (if own_field m ''pass'' = JBool False then True
      else case (or_else (number_of (own_field m ''value'')) (number_of (own_field m ''score'')),
                 number_of (own_field m ''threshold'')) of
        (Some v, Some t) \<Rightarrow>
          if own_field m ''higherIsBetter'' \<noteq> JBool False \<and> own_field m ''higher_is_better'' \<noteq> JBool False
          then v < t else v > t
      | _ \<Rightarrow> False)"

definition gate_contract_of :: "json \<Rightarrow> gate_contract option" where
  \<comment> \<open>the shape test of \<open>loadGateContract\<close>; the optional fields as their type declares them\<close>
  "gate_contract_of raw =
     (case (own_field raw ''metric'', own_field raw ''threshold'') of
        (JStr m, JNum t) \<Rightarrow>
          let strings = (\<lambda>v. case v of JArr xs \<Rightarrow> Some (List.map_filter (\<lambda>x. case x of JStr s \<Rightarrow> Some s | _ \<Rightarrow> None) xs)
                             | _ \<Rightarrow> None)
          in Some \<lparr>ct_metric = m, ct_synonyms = strings (own_field raw ''metricSynonyms''), ct_threshold = t,
                   ct_higherIsBetter = (case own_field raw ''higherIsBetter'' of JBool b \<Rightarrow> Some b | _ \<Rightarrow> None),
                   ct_appliesToGates = strings (own_field raw ''appliesToGates'')\<rparr>
      | _ \<Rightarrow> None)"

definition loadGateContract :: "json option \<Rightarrow> json option \<Rightarrow> gate_contract option" where
  \<comment> \<open>the parsed per-run file, then the campaign's default\<close>
  "loadGateContract run campaign =
     or_else (Option.bind run gate_contract_of) (Option.bind campaign gate_contract_of)"

definition evidence_value :: "json \<Rightarrow> json \<Rightarrow> rat option" where
  \<comment> \<open>the first number among the candidates\<close>
  "evidence_value v m =
     or_else (number_of (own_field v ''value'')) (or_else (number_of (own_field v ''score''))
       (or_else (number_of (own_field m ''value'')) (number_of (own_field m ''score''))))"

definition metric_name :: "json \<Rightarrow> string" where
  "metric_name v = (case own_field v ''metric'' of JStr s \<Rightarrow> lower s | _ \<Rightarrow> [])"

definition accepted_names :: "gate_contract \<Rightarrow> string list" where
  "accepted_names c = map lower (ct_metric c # dflt (ct_synonyms c) [])"

definition phase_done :: "json \<Rightarrow> bool" where
  "phase_done v = (own_field v ''phaseComplete'' = JBool True \<or> own_field v ''phase_complete'' = JBool True)"

definition terminal_outcome :: "json \<Rightarrow> json \<Rightarrow> string option" where
  "terminal_outcome v m =
     (case own_field m ''outcome'' of JStr s \<Rightarrow> Some s
      | _ \<Rightarrow> (case own_field v ''outcome'' of JStr s \<Rightarrow> Some s | _ \<Rightarrow> None))"

definition meets_threshold :: "gate_contract \<Rightarrow> rat \<Rightarrow> bool" where
  "meets_threshold c x = (if ct_higherIsBetter c \<noteq> Some False then x \<ge> ct_threshold c else x \<le> ct_threshold c)"

definition verified_ceiling :: "json \<Rightarrow> json option \<Rightarrow> bool" where
  "verified_ceiling v metric =
     (case metric of
        None \<Rightarrow> False
      | Some m \<Rightarrow> m \<noteq> JNull \<and> terminal_outcome v m = Some ''ceiling_hit'' \<and> (phase_done m \<or> phase_done v)
          \<and> metricFileIndicatesFailure m)"

definition contract_applies :: "gate_contract \<Rightarrow> string \<Rightarrow> bool" where
  "contract_applies c sid = (case ct_appliesToGates c of None \<Rightarrow> True | Some ids \<Rightarrow> sid \<in> set ids)"

definition validateVerdictAgainstContract ::
  "json \<Rightarrow> json option \<Rightarrow> gate_contract \<Rightarrow> string \<Rightarrow> (refusal_kind \<times> gate_reason) option" where
  "validateVerdictAgainstContract v metric c sid =
     (let m = dflt metric JNull in
      if own_field v ''pass'' \<noteq> JBool True \<or> \<not> contract_applies c sid then None
      else case evidence_value v m of
        None \<Rightarrow> Some (RfNumericEvidence, NoNumericValue (ct_metric c))
      | Some x \<Rightarrow>
          if \<not> (metric_name v \<in> set (accepted_names c) \<or> metric_name m \<in> set (accepted_names c))
          then Some (RfScoreContract, MetricRedefined (ct_metric c))
          else if \<not> meets_threshold c x \<and> \<not> verified_ceiling v metric
          then Some (RfScoreContract, ThresholdMissed x) else None)"

section \<open>Mechanical retries are bounded\<close>

fun settle_calls ::
  "gate_env \<Rightarrow> (validation_delta \<Rightarrow> string) \<Rightarrow> string \<Rightarrow> (instant \<times> instant \<times> validation_entry list) list \<Rightarrow> gate_run \<Rightarrow>
   gate_run \<times> bool list" where
  \<comment> \<open>successive settlements of one gate, each with what its commands would report; which of them ran commands\<close>
  "settle_calls env digest sid [] g = (g, [])"
| "settle_calls env digest sid ((s, t, es) # calls) g =
     (case settleGateValidationEvidence env digest sid s t es g of
        (g', _, executed) \<Rightarrow> (case settle_calls env digest sid calls g' of (g'', rs) \<Rightarrow> (g'', executed # rs)))"

definition entries_ok :: "validation_entry list \<Rightarrow> bool" where
  \<comment> \<open>one entry per command, with a known role and state\<close>
  "entries_ok es =
     (distinct (map (\<lambda>e. (ve_role e, ve_display e)) es)
      \<and> list_all (\<lambda>e. ve_role e \<in> {''build'', ''test'', ''lint''}
           \<and> ve_state e \<in> {''pass'', ''regression'', ''unresolved''} \<and> ve_display e \<noteq> Some []) es)"

definition quiet_ledger :: "gate_run \<Rightarrow> instant \<Rightarrow> bool" where
  "quiet_ledger g t = (\<forall>(sid, gs) \<in> set (gr_ledger g). \<forall>a \<in> set (attempts_of (gs_status gs)). closed_before t a)"

lemma quiet_not_written: "quiet_ledger g t \<Longrightarrow> \<not> written_since t g"
  by (force simp: quiet_ledger_def written_since_def closed_before_def list_ex_iff split: option.splits)

definition same_run :: "gate_run \<Rightarrow> gate_run \<Rightarrow> bool" where
  "same_run g g' = (gr_ledger g' = gr_ledger g \<and> gr_baseline g' = gr_baseline g \<and> gr_runId g' = gr_runId g)"

lemma same_run_publish [simp]: "same_run g (publish_delta sid d g)"
  by (simp add: same_run_def publish_delta_def Let_def)

lemma same_run_facts:
  assumes "same_run g g'"
  shows "closedGateValidationExecution env g' sid = closedGateValidationExecution env g sid"
    and "quiet_ledger g' t = quiet_ledger g t" and "written_since t g' = written_since t g"
proof -
  have e: "gr_ledger g' = gr_ledger g" "gr_runId g' = gr_runId g" using assms by (simp_all add: same_run_def)
  show "closedGateValidationExecution env g' sid = closedGateValidationExecution env g sid"
    unfolding closedGateValidationExecution_def settledGateValidationExecution_def gateValidationExecution_def e ..
  show "quiet_ledger g' t = quiet_ledger g t" "written_since t g' = written_since t g"
    by (simp_all add: quiet_ledger_def written_since_def e)
qed

lemma closed_no_continuation:
  "closedGateValidationExecution env g sid = Some x \<Longrightarrow>
     \<exists>gs. map_of (gr_ledger g) sid = Some gs \<and> s_continuation (gs_status gs) = None"
  by (auto simp: closedGateValidationExecution_def settledGateValidationExecution_def gateValidationExecution_def or_else_def
      split: option.splits if_splits)

definition counter :: "validation_delta \<Rightarrow> int" where
  "counter d = dflt (vd_validationAttempt d) 1"

definition bound_with :: "gate_env \<Rightarrow> string \<Rightarrow> gate_execution \<Rightarrow> string \<Rightarrow> gate_run \<Rightarrow> validation_delta \<Rightarrow> bool" where
  \<comment> \<open>the current receipt is of this execution and baseline, and nothing was written since\<close>
  "bound_with env sid x b g d = (readValidationDelta g sid = Some d \<and> receipt_bound env g sid x b d)"

definition conclusive :: "validation_delta \<Rightarrow> bool" where
  "conclusive d = (vd_pass d \<or> entries_in ''regression'' d \<noteq> [] \<or> counter d \<ge> 2)"

lemma recorded_is_bound:
  assumes x: "closedGateValidationExecution env g sid = Some x" and b: "gr_baseline g = Some (b, True)"
    and es: "entries_ok es" and q: "quiet_ledger g t"
    and small: "\<forall>p. readValidationDelta g sid = Some p \<longrightarrow> counter p < 2 ^ 53 - 1"
    and d: "d = recorded_delta env digest sid s t es b g"
  shows "bound_with env sid x b (publish_delta sid d g) d"
    and "bound_with env sid x b g p \<Longrightarrow> 2 \<le> counter d" and "counter d \<le> 2 \<or> readValidationDelta g sid \<noteq> None"
proof -
  have c: "vd_version d = 2" "vd_stageId d = sid" "vd_checkedAt d = t" "vd_baselineSha d = ge_sha env b" "vd_entries d = es"
    "validationDeltaMatchesExecution d (Some x)"
    by (simp_all add: d recorded_delta_def x Let_def bind_execution_def validationDeltaMatchesExecution_def)
  have n: "vd_validationAttempt d = Some (case readValidationDelta g sid of None \<Rightarrow> 1
      | Some p \<Rightarrow> if vd_executionId p = Some (gx_id x) \<and> vd_baselineSha p = ge_sha env b
          then dflt (vd_validationAttempt p) 1 + 1 else 1)"
    by (simp add: d recorded_delta_def x Let_def bind_execution_def)
  have low: "1 \<le> dflt (vd_validationAttempt p) 1" if "readValidationDelta g sid = Some p" for p
    using that by (auto simp: readValidationDelta_def dflt_def split: option.splits if_splits)
  then obtain k where k: "vd_validationAttempt d = Some k" "1 \<le> k" "k \<le> 2 ^ 53 - 1"
    using n small by (cases "readValidationDelta g sid") (force simp: counter_def)+
  have "readValidationDelta (publish_delta sid d g) sid = Some d"
    using es k c by (simp add: readValidationDelta_def publish_delta_def Let_def entries_ok_def)
  moreover have "\<not> written_since t (publish_delta sid d g)"
    using quiet_not_written [OF q] same_run_facts(3) [OF same_run_publish] by simp
  ultimately show "bound_with env sid x b (publish_delta sid d g) d"
    using c by (simp add: bound_with_def receipt_bound_def)
  show "2 \<le> counter d" if "bound_with env sid x b g p"
    using that n low [of p]
    by (auto simp: bound_with_def receipt_bound_def validationDeltaMatchesExecution_def counter_def dflt_def)
  show "counter d \<le> 2 \<or> readValidationDelta g sid \<noteq> None" using n by (auto simp: counter_def dflt_def split: option.splits)
qed

lemma settle_conclusive:
  assumes "closedGateValidationExecution env g sid = Some x" and "gr_baseline g = Some (b, True)"
    and "bound_with env sid x b g d" and "conclusive d"
  shows "\<exists>r. settleGateValidationEvidence env digest sid s t es g = (g, r, False)"
  using assms by (auto simp: settleGateValidationEvidence_def bound_with_def conclusive_def counter_def Let_def)

lemma settle_step:
  assumes "closedGateValidationExecution env g sid = Some x" and "gr_baseline g = Some (b, True)"
  shows "(\<exists>r. settleGateValidationEvidence env digest sid s t es g = (g, r, False))
    \<or> (\<exists>r. settleGateValidationEvidence env digest sid s t es g =
          (publish_delta sid (recorded_delta env digest sid s t es b g) g, r, True))"
proof -
  have "recordGateValidationDelta env digest sid s t es g =
      (publish_delta sid (recorded_delta env digest sid s t es b g) g, Some (recorded_delta env digest sid s t es b g))"
    using assms closed_no_continuation [OF assms(1)] by (auto simp: recordGateValidationDelta_def Let_def)
  then show ?thesis using assms by (simp add: settleGateValidationEvidence_def Let_def)
qed

definition counted :: "bool list \<Rightarrow> nat" where
  "counted rs = length (filter id rs)"

definition calls_ok :: "gate_run \<Rightarrow> (instant \<times> instant \<times> validation_entry list) list \<Rightarrow> bool" where
  \<comment> \<open>each comparison is well-formed and made after every attempt of the run had ended\<close>
  "calls_ok g calls = (\<forall>(s, t, es) \<in> set calls. entries_ok es \<and> quiet_ledger g t)"

lemma calls_ok_cong: "same_run g g' \<Longrightarrow> calls_ok g calls \<Longrightarrow> calls_ok g' calls"
  by (auto simp: calls_ok_def same_run_facts)

lemma counted_call:
  "settleGateValidationEvidence env digest sid s t es g = (g', r, executed) \<Longrightarrow>
     counted (snd (settle_calls env digest sid ((s, t, es) # calls) g)) =
       (if executed then 1 else 0) + counted (snd (settle_calls env digest sid calls g'))"
  by (simp add: counted_def split: prod.splits)

lemma settle_rest:
  assumes "closedGateValidationExecution env g sid = Some x" and "gr_baseline g = Some (b, True)"
    and "calls_ok g calls" and "bound_with env sid x b g d"
  shows "counted (snd (settle_calls env digest sid calls g)) \<le> (if conclusive d then 0 else 1)"
  using assms
proof (induction calls arbitrary: g d)
  case (Cons c calls)
  obtain s t es where c: "c = (s, t, es)" by (cases c)
  show ?case
  proof (cases "conclusive d")
    case True
    then obtain r where "settleGateValidationEvidence env digest sid s t es g = (g, r, False)"
      using settle_conclusive Cons.prems(1,2,4) by blast
    with Cons.IH [of g d] Cons.prems True show ?thesis
      by (simp only: c counted_call) (simp add: calls_ok_def)
  next
    case False
    let ?n = "recorded_delta env digest sid s t es b g" and ?g = "publish_delta sid (recorded_delta env digest sid s t es b g) g"
    have low: "counter d < 2" using False by (simp add: conclusive_def)
    have d: "readValidationDelta g sid = Some d" using Cons.prems(4) by (simp add: bound_with_def)
    have small: "\<forall>p. readValidationDelta g sid = Some p \<longrightarrow> counter p < 2 ^ 53 - 1"
      using d low by simp
    have ok: "entries_ok es" "quiet_ledger g t" using Cons.prems(3) by (simp_all add: calls_ok_def c)
    note rec = recorded_is_bound [OF Cons.prems(1,2) ok small refl, where digest = digest and s = s]
    have "conclusive ?n" using rec(2) [OF Cons.prems(4)] by (simp add: conclusive_def)
    have nx: "closedGateValidationExecution env ?g sid = Some x" "gr_baseline ?g = Some (b, True)" "calls_ok ?g calls"
      using Cons.prems(1,2,3) same_run_facts(1) [OF same_run_publish] calls_ok_cong [OF same_run_publish, of g calls]
      by (simp_all add: publish_delta_def Let_def calls_ok_def c)
    have one: "counted (snd (settle_calls env digest sid calls ?g)) = 0"
      using Cons.IH [OF nx rec(1)] \<open>conclusive ?n\<close> by simp
    have same: "counted (snd (settle_calls env digest sid calls g)) \<le> 1"
      using Cons.IH [OF Cons.prems(1,2) _ Cons.prems(4)] Cons.prems(3) False by (simp add: calls_ok_def)
    show ?thesis using settle_step [OF Cons.prems(1,2), of digest s t es]
    proof (elim disjE exE)
      fix r assume "settleGateValidationEvidence env digest sid s t es g = (g, r, False)"
      with same False show ?thesis by (simp only: c counted_call) simp
    next
      fix r assume "settleGateValidationEvidence env digest sid s t es g = (?g, r, True)"
      with one False show ?thesis by (simp only: c counted_call) simp
    qed
  qed
qed (simp add: counted_def)

text \<open>C16. Mechanical validation is retried at most once: however often a closed gate is settled, and
  whatever its configured commands report, they are executed at most twice for one execution of the
  gate and one baseline, as long as no attempt writes in between.\<close>

theorem mechanical_retry_bounded:
  assumes "closedGateValidationExecution env g sid = Some x" and "calls_ok g calls"
    and "\<forall>p. readValidationDelta g sid = Some p \<longrightarrow> counter p < 2 ^ 53 - 1"
  shows "counted (snd (settle_calls env digest sid calls g)) \<le> 2"
proof (cases "\<exists>b. gr_baseline g = Some (b, True)")
  case False
  have idle: "settleGateValidationEvidence env digest sid s t es g = (g, Unchanged, False)" for s t es
    using False by (auto simp: settleGateValidationEvidence_def split: option.splits bool.splits)
  have "counted (snd (settle_calls env digest sid calls g)) = 0"
  proof (induction calls)
    case (Cons c calls)
    then show ?case by (cases c) (simp only: counted_call [OF idle] if_False)
  qed (simp add: counted_def)
  then show ?thesis by simp
next
  case True
  then obtain b where b: "gr_baseline g = Some (b, True)" by blast
  show ?thesis using assms(2)
  proof (induction calls)
    case (Cons c calls)
    obtain s t es where c: "c = (s, t, es)" by (cases c)
    let ?g = "publish_delta sid (recorded_delta env digest sid s t es b g) g"
    have ok: "entries_ok es" "quiet_ledger g t" using Cons.prems by (simp_all add: calls_ok_def c)
    note rec = recorded_is_bound [OF assms(1) b ok assms(3) refl, where digest = digest and s = s]
    have "closedGateValidationExecution env ?g sid = Some x" "gr_baseline ?g = Some (b, True)" "calls_ok ?g calls"
      using assms(1) b Cons.prems same_run_facts(1) [OF same_run_publish] calls_ok_cong [OF same_run_publish, of g calls]
      by (simp_all add: publish_delta_def Let_def calls_ok_def c)
    from settle_rest [OF this rec(1), of digest] have "counted (snd (settle_calls env digest sid calls ?g)) \<le> 1"
      by (simp split: if_splits)
    moreover have "counted (snd (settle_calls env digest sid calls g)) \<le> 2"
      using Cons.IH Cons.prems by (simp add: calls_ok_def)
    moreover note settle_step [OF assms(1) b, of digest s t es]
    ultimately show ?case by (elim disjE exE) (simp_all only: c counted_call, simp_all)
  qed (simp add: counted_def)
qed

definition closed_gate_run :: gate_run where
  \<comment> \<open>a gate whose only attempt ended at instant 5, with a baseline and no receipt\<close>
  "closed_gate_run = \<lparr>gr_runId = ''r'',
     gr_ledger = [(''gate'', \<lparr>gs_status = (bare_status SComplete 0)\<lparr>s_attempts := Some
        [(new_attempt 1 2 None)\<lparr>a_status := AComplete, a_completedAt := Some 5, a_writes := Some []\<rparr>]\<rparr>,
        gs_gate = None, gs_accepted = None\<rparr>)],
     gr_stages = [], gr_outputs = [], gr_verdicts = [], gr_archived = [], gr_receipts = [],
     gr_baseline = Some (''b'', True), gr_deltas = [], gr_immutable = [], gr_candidates = [], gr_refs = [], gr_metrics = []\<rparr>"

definition unresolved_run :: "validation_entry list" where
  "unresolved_run = [\<lparr>ve_role = ''test'', ve_display = None, ve_state = ''unresolved'', ve_reason = ''timeout'', ve_identifiers = []\<rparr>]"

theorem mechanical_retry_bounded_witness:
  "counted (snd (settle_calls \<lparr>ge_sha = (\<lambda>s. s), ge_iso = (\<lambda>_. ''t'')\<rparr> (\<lambda>_. ''d'') ''gate''
     [(6, 7, unresolved_run), (8, 9, unresolved_run), (10, 11, unresolved_run)] closed_gate_run)) \<le> 2"
proof -
  let ?env = "\<lparr>ge_sha = (\<lambda>s. s), ge_iso = (\<lambda>_. ''t'')\<rparr> :: gate_env"
  have "closedGateValidationExecution ?env closed_gate_run ''gate'' \<noteq> None" by code_simp
  then obtain x where x: "closedGateValidationExecution ?env closed_gate_run ''gate'' = Some x" by blast
  have "calls_ok closed_gate_run [(6, 7, unresolved_run), (8, 9, unresolved_run), (10, 11, unresolved_run)]"
    by code_simp
  moreover have "\<forall>p. readValidationDelta closed_gate_run ''gate'' = Some p \<longrightarrow> counter p < 2 ^ 53 - 1"
    by (simp add: readValidationDelta_def closed_gate_run_def)
  ultimately show ?thesis by (rule mechanical_retry_bounded [OF x])
qed

end
