(* ===== verification/Gate_Verdict.thy ===== *)
theory Gate_Verdict
  imports Gate_Evidence Admission
begin

text \<open>
  The effective verdict of a gate
  (\<open>src/src/scheduler/sched_settlement/gate-verdict.ts\<close>): the cascade of engine checks an authored
  verdict passes before it counts, its settlement in the ledger, the reader every consumer goes
  through, and the criterion discharges derived from passing gates.

  \<open>posix.matchesGlob\<close> is the argument \<open>mg\<close>.  Legacy verdicts outside a run are not modelled: every
  call carries a run id, and run.json is readable.
\<close>

section \<open>Evaluation\<close>

definition scopeContainsPath :: "(string \<Rightarrow> string \<Rightarrow> bool) \<Rightarrow> string list \<Rightarrow> string \<Rightarrow> bool" where
  "scopeContainsPath mg scope rawPath =
     (case normalizedProjectPath rawPath of
        None \<Rightarrow> False
      | Some path \<Rightarrow> path \<noteq> [] \<and> list_ex (\<lambda>entry. scopeMatchesProjectPath mg (parseDeclaredScope entry) path) scope)"

definition completed_stage :: "gate_run \<Rightarrow> string \<Rightarrow> bool" where
  "completed_stage g k = (case map_of (gr_ledger g) k of None \<Rightarrow> False | Some gs \<Rightarrow> s_status (gs_status gs) = SComplete)"

definition owed_later :: "(string \<Rightarrow> string \<Rightarrow> bool) \<Rightarrow> gate_run \<Rightarrow> string \<Rightarrow> string \<Rightarrow> bool" where
  \<comment> \<open>later ordinary work, which the gate does not depend on, is assigned the product\<close>
  "owed_later mg g sid path =
     list_ex (\<lambda>s. sc_id s \<noteq> sid \<and> \<not> sc_is_gate s \<and> \<not> sc_dynamic_dispatch s \<and> dflt (sc_retry_to s) [] = []
        \<and> \<not> completed_stage g (sc_id s)
        \<and> \<not> transitivelyDependsOn sid (sc_id s) (stage_map (gr_stages g))
        \<and> scopeContainsPath mg (dflt (sc_scope s) []) path) (gr_stages g)"

definition missing_output :: "(string \<Rightarrow> string \<Rightarrow> bool) \<Rightarrow> gate_run \<Rightarrow> string \<Rightarrow> string option" where
  "missing_output mg g sid =
     map_option fst (find (\<lambda>(path, available). \<not> owed_later mg g sid path \<and> \<not> available) (gr_outputs g))"

definition last_attempt :: "gate_run \<Rightarrow> string \<Rightarrow> stage_attempt option" where
  "last_attempt g sid = (case map_of (gr_ledger g) sid of None \<Rightarrow> None | Some gs \<Rightarrow> at_last (attempts_of (gs_status gs)))"

definition authored_verdict :: "json \<Rightarrow> gate_verdict" where
  \<comment> \<open>the document without the two engine fields; a repairability that reached this point is valid\<close>
  "authored_verdict v =
     \<lparr>gv_pass = pass_of v, gv_reason = reason_of v,
      gv_repairability = repairability_of (own_field v ''repairability''), gv_refusal = None\<rparr>"

definition study_verdict :: gate_verdict where
  "study_verdict = \<lparr>gv_pass = Some True, gv_reason = Some StudyCompleteReason, gv_repairability = None, gv_refusal = None\<rparr>"

fun first_some :: "'a option list \<Rightarrow> 'a option" where
  \<comment> \<open>a sequence of early returns\<close>
  "first_some [] = None"
| "first_some (Some x # xs) = Some x"
| "first_some (None # xs) = first_some xs"

lemma first_some_None [simp]: "first_some xs = None \<longleftrightarrow> (\<forall>x \<in> set xs. x = None)"
  by (induction xs rule: first_some.induct) auto

lemma first_some_member: "first_some xs = Some y \<Longrightarrow> \<exists>x \<in> set xs. x = Some y"
  by (induction xs rule: first_some.induct) auto

definition give :: "bool \<Rightarrow> 'a \<Rightarrow> 'a option" where
  \<comment> \<open>\<open>if (c) return x\<close>\<close>
  "give c x = (if c then Some x else None)"

lemma give_iff [simp]: "give c x = None \<longleftrightarrow> \<not> c" "give c x = Some y \<longleftrightarrow> c \<and> x = y" "Some y = give c x \<longleftrightarrow> c \<and> x = y"
  by (auto simp: give_def)

definition finding_refusals :: "json \<Rightarrow> gate_verdict option list" where
  "finding_refusals v =
     (let findings = own_field v ''audit_findings''
      in [give (findings \<noteq> JUndef \<and> audit_findings findings = None)
            ((refuse_document v FindingsInvalid)\<lparr>gv_refusal := Some RfAuditFindings\<rparr>),
          give (findings \<noteq> JUndef \<and> pass_of v = Some True \<and> audit_findings findings \<noteq> Some 0)
            (refused RfAuditFindings FindingsOpen)])"

definition evidence_refusals :: "gate_run \<Rightarrow> string \<Rightarrow> json \<Rightarrow> gate_verdict option list" where
  \<comment> \<open>research outcome, contradiction and criterion evidence\<close>
  "evidence_refusals g sid v =
     [give (pass_of v = Some True \<and> map_of (gr_candidates g) sid = Some OutAbsent) (refused RfOutcomeAbsent OutcomeUnusable),
      give (pass_of v = Some True \<and> map_of (gr_candidates g) sid = Some OutInvalid) (refused RfOutcomeInvalid OutcomeUnusable),
      give (explicitPassContradiction v) (refused RfContradiction RepairRequiredWithPass),
      map_option (\<lambda>why. (refuse_document v why)\<lparr>gv_refusal := Some RfCriterionEvidence\<rparr>) (validateGateCriterionEvidence g sid v)]"

definition validation_refusal :: "gate_env \<Rightarrow> gate_run \<Rightarrow> string \<Rightarrow> bool \<Rightarrow> json \<Rightarrow> gate_verdict option" where
  "validation_refusal env g sid requireDelta v =
     (if requireDelta \<and> own_field (own_field v ''repairability'') ''disposition'' \<noteq> JStr ''irreparable''
      then gateValidationRefusal env g sid else None)"

definition authority_refusals ::
  "gate_env \<Rightarrow> (string \<Rightarrow> string \<Rightarrow> bool) \<Rightarrow> gate_run \<Rightarrow> string \<Rightarrow> verdict_document \<Rightarrow> gate_verdict option list" where
  \<comment> \<open>the protected receipt of a disposition, the declared products, the shape of the declaration\<close>
  "authority_refusals env mg g sid doc =
     (let v = dc_value doc; rep = own_field v ''repairability''
      in [give (truthy rep \<and> map_of (gr_ledger g) sid \<noteq> None
                \<and> \<not> validateSettledGateVerdict env g sid (last_attempt g sid) (dc_digest doc))
            (refused RfRepairability ReceiptNotAuthentic),
          (if pass_of v = Some True
           then map_option (\<lambda>path. refused RfDeclaredOutput (OutputRequired path)) (missing_output mg g sid) else None),
          give (\<not> validateGateRepairability v) (refused RfRepairability BadRepairability),
          give (truthy rep \<and> isTerminalStudyCompletionArtifact v) (refused RfRepairability StudyWithRepairability)])"

definition early_refusal ::
  "gate_env \<Rightarrow> (string \<Rightarrow> string \<Rightarrow> bool) \<Rightarrow> gate_run \<Rightarrow> string \<Rightarrow> bool \<Rightarrow> verdict_document \<Rightarrow> gate_verdict option" where
  "early_refusal env mg g sid requireDelta doc =
     first_some (validation_refusal env g sid requireDelta (dc_value doc)
       # authority_refusals env mg g sid doc @ finding_refusals (dc_value doc) @ evidence_refusals g sid (dc_value doc))"

definition contract_verdict :: "gate_run \<Rightarrow> string \<Rightarrow> gate_contract option \<Rightarrow> json \<Rightarrow> gate_verdict" where
  "contract_verdict g sid contract v =
     (if isTerminalStudyCompletionArtifact v then study_verdict
      else case Option.bind contract (\<lambda>c. validateVerdictAgainstContract v (map_of (gr_metrics g) sid) c sid) of
        Some (k, why) \<Rightarrow> (refuse_document v why)\<lparr>gv_refusal := Some k\<rparr>
      | None \<Rightarrow> authored_verdict v)"

definition evaluate_document ::
  "gate_env \<Rightarrow> (string \<Rightarrow> string \<Rightarrow> bool) \<Rightarrow> gate_run \<Rightarrow> string \<Rightarrow> gate_contract option \<Rightarrow> bool \<Rightarrow> verdict_document \<Rightarrow> gate_verdict" where
  "evaluate_document env mg g sid contract requireDelta doc =
     dflt (early_refusal env mg g sid requireDelta doc) (contract_verdict g sid contract (dc_value doc))"

definition evaluateGateVerdict ::
  "gate_env \<Rightarrow> (string \<Rightarrow> string \<Rightarrow> bool) \<Rightarrow> gate_run \<Rightarrow> string \<Rightarrow> gate_contract option \<Rightarrow> bool \<Rightarrow> gate_verdict option" where
  "evaluateGateVerdict env mg g sid contract requireDelta =
     map_option (evaluate_document env mg g sid contract requireDelta) (readGateVerdictDocument env g sid)"

definition readGateEvaluation ::
  "gate_env \<Rightarrow> (string \<Rightarrow> string \<Rightarrow> bool) \<Rightarrow> gate_run \<Rightarrow> string \<Rightarrow> gate_contract option \<Rightarrow> bool \<Rightarrow> gate_verdict option" where
  "readGateEvaluation env mg g sid contract requireDelta =
     (let accepted = map_of (gr_ledger g) sid;
          state = map_option (s_status \<circ> gs_status) accepted;
          live = (if readGateVerdictDocument env g sid = None \<and> state = Some SComplete
                     \<and> map_of (gr_archived g) sid \<noteq> None
                  then map_of (gr_archived g) sid
                  else evaluateGateVerdict env mg g sid contract requireDelta)
      in case accepted of
           None \<Rightarrow> live
         | Some gs \<Rightarrow>
             if s_continuation (gs_status gs) \<noteq> None then None
             else if state = Some SComplete \<or> state = Some SFailed
             then (case gs_gate gs of
                     Some sg \<Rightarrow> Some (sg_verdict sg)
                   | None \<Rightarrow> if state = Some SComplete \<and> gs_accepted gs \<noteq> None then gs_accepted gs else live)
             else live)"

section \<open>Settlement\<close>

fun refusal_name :: "refusal_kind \<Rightarrow> string" where
  "refusal_name RfRepairability = ''repairability''"
| "refusal_name RfValidationRegression = ''validation_regression''"
| "refusal_name RfValidationUnresolved = ''validation_unresolved''"
| "refusal_name RfDeclaredOutput = ''declared_output''"
| "refusal_name RfAuditFindings = ''audit_findings''"
| "refusal_name RfOutcomeAbsent = ''research_outcome_absent''"
| "refusal_name RfOutcomeInvalid = ''research_outcome_invalid''"
| "refusal_name RfContradiction = ''contradiction''"
| "refusal_name RfCriterionEvidence = ''criterion_evidence''"
| "refusal_name RfNumericEvidence = ''numeric_evidence''"
| "refusal_name RfScoreContract = ''score_contract''"
| "refusal_name RfMissingVerdict = ''missing_verdict''"

definition gate_kind :: "gate_verdict \<Rightarrow> string" where
  "gate_kind v =
     (case gv_refusal v of
        Some k \<Rightarrow> refusal_name k
      | None \<Rightarrow> if gv_pass v = Some True then ''pass''
          else case gv_repairability v of
            Some (Repairable, _) \<Rightarrow> ''repairable'' | Some (Irreparable, _) \<Rightarrow> ''irreparable'' | None \<Rightarrow> ''repairable'')"

definition projected :: "gate_verdict \<Rightarrow> gate_verdict" where
  \<comment> \<open>\<open>projectGateVerdict\<close> of a verdict: a repairability with \<open>pass\<close> is dropped\<close>
  "projected v = (if gv_pass v = Some False then v else v\<lparr>gv_repairability := None\<rparr>)"

definition settleGateEvaluation ::
  "gate_env \<Rightarrow> (string \<Rightarrow> string \<Rightarrow> bool) \<Rightarrow> string \<Rightarrow> gate_contract option \<Rightarrow> gate_run \<Rightarrow> gate_run" where
  "settleGateEvaluation env mg sid contract g =
     (case map_of (gr_ledger g) sid of
        None \<Rightarrow> g
      | Some gs \<Rightarrow>
          let state = s_status (gs_status gs)
          in if (state \<noteq> SComplete \<and> state \<noteq> SFailed) \<or> s_continuation (gs_status gs) \<noteq> None \<or> gs_gate gs \<noteq> None then g
             else let verdict = dflt (if state = SFailed then gateValidationRefusal env g sid
                                      else evaluateGateVerdict env mg g sid contract True)
                                 (refused RfMissingVerdict NoVerdictProduced)
             in if state = SFailed \<and> gv_refusal verdict \<noteq> Some RfValidationRegression then g
                else g\<lparr>gr_ledger := amap_set sid (gs\<lparr>gs_gate := Some
                       \<lparr>sg_verdict = projected verdict, sg_kind = gate_kind verdict,
                        sg_digest = map_option dc_digest (readGateVerdictDocument env g sid)\<rparr>\<rparr>) (gr_ledger g)\<rparr>)"

section \<open>Criterion discharges\<close>

record discharge =
  dg_criterion :: string
  dg_briefDigest :: string
  dg_iteration :: nat
  dg_work :: string
  dg_gate :: string
  dg_verdictSha :: string

record discharge_input =
  di_pass :: bool
  di_criteriaDigest :: string
  di_owners :: "string list"
  di_iteration :: nat
  di_stages :: "stage_config list"
  di_evidence :: "(string \<times> nat \<times> (string \<times> json) option) list"
  \<comment> \<open>stage, iteration and the archived verdict (bytes and parse) of an immutable evidence record\<close>

definition archived_verdict :: "discharge_input \<Rightarrow> string \<Rightarrow> (string \<times> json) option" where
  "archived_verdict inp gate =
     (case find (\<lambda>(sid, it, _). sid = gate \<and> it = di_iteration inp) (di_evidence inp) of
        None \<Rightarrow> None | Some (_, _, f) \<Rightarrow> f)"

definition criterion_passed :: "json \<Rightarrow> string \<Rightarrow> bool" where
  "criterion_passed v c =
     (let entry = own_field (own_field v ''criteria'') c
      in is_record (own_field v ''criteria'') \<and> is_record entry \<and> nonblank (own_field entry ''evidence'')
         \<and> own_field entry ''status'' = JStr ''pass'')"

definition discharging_worker :: "discharge_input \<Rightarrow> gate_run \<Rightarrow> string \<Rightarrow> string \<Rightarrow> stage_config option" where
  "discharging_worker inp g gate c =
     find (\<lambda>s. \<not> sc_is_gate s \<and> dflt (sc_retry_to s) [] = [] \<and> sc_id s \<notin> set (di_owners inp)
        \<and> c \<in> set (sc_criterion_refs s) \<and> completed_stage g (sc_id s)
        \<and> transitivelyDependsOn gate (sc_id s) (stage_map (di_stages inp))) (di_stages inp)"

definition discharge_one ::
  "gate_env \<Rightarrow> discharge_input \<Rightarrow> gate_run \<Rightarrow> string \<Rightarrow> string \<times> json \<Rightarrow> string \<Rightarrow> discharge list \<Rightarrow> discharge list" where
  "discharge_one env inp g gate f c records =
     (if c \<in> dg_criterion ` set records \<or> \<not> criterion_passed (snd f) c then records
      else case discharging_worker inp g gate c of
        None \<Rightarrow> records
      | Some w \<Rightarrow> records @ [\<lparr>dg_criterion = c, dg_briefDigest = di_criteriaDigest inp, dg_iteration = di_iteration inp,
                             dg_work = sc_id w, dg_gate = gate, dg_verdictSha = ge_sha env (fst f)\<rparr>])"

definition discharge_gate ::
  "gate_env \<Rightarrow> (string \<Rightarrow> string \<Rightarrow> bool) \<Rightarrow> gate_contract option \<Rightarrow> discharge_input \<Rightarrow> gate_run \<Rightarrow> stage_config \<Rightarrow>
   discharge list \<Rightarrow> discharge list" where
  "discharge_gate env mg contract inp g gate records =
     (let sid = sc_id gate; refs = lookup [] (gr_refs g) sid
      in if \<not> sc_is_gate gate \<or> refs = [] \<or> \<not> completed_stage g sid then records
         else case archived_verdict inp sid of
           None \<Rightarrow> records
         | Some f \<Rightarrow>
             if Option.bind (readGateEvaluation env mg g sid contract True) gv_pass \<noteq> Some True then records
             else fold (discharge_one env inp g sid f) refs records)"

definition deriveCriterionDischarges ::
  "gate_env \<Rightarrow> (string \<Rightarrow> string \<Rightarrow> bool) \<Rightarrow> gate_contract option \<Rightarrow> discharge_input \<Rightarrow> gate_run \<Rightarrow> discharge list" where
  "deriveCriterionDischarges env mg contract inp g =
     (if \<not> di_pass inp \<or> di_criteriaDigest inp = [] then []
      else fold (discharge_gate env mg contract inp g) (di_stages inp) [])"

section \<open>A pass is earned\<close>

definition receipt_passes :: "gate_env \<Rightarrow> gate_run \<Rightarrow> string \<Rightarrow> string \<Rightarrow> bool" where
  \<comment> \<open>a passing receipt of exactly the settled execution, against the admitted baseline\<close>
  "receipt_passes env g sid baseline =
     (case (settledGateValidationExecution env g sid, readValidationDelta g sid) of
        (Some x, Some d) \<Rightarrow> vd_pass d \<and> vd_stageId d = sid \<and> validationDeltaMatchesExecution d (Some x)
          \<and> vd_baselineSha d = ge_sha env baseline
      | _ \<Rightarrow> False)"

lemma no_validation_refusal:
  "gateValidationRefusal env g sid = None \<longleftrightarrow>
     (case gr_baseline g of None \<Rightarrow> True | Some (b, _) \<Rightarrow> receipt_passes env g sid b)"
proof (cases "gr_baseline g")
  case (Some bb)
  obtain b ok where bb: "bb = (b, ok)" by (cases bb)
  show ?thesis
  proof (cases "settledGateValidationExecution env g sid")
    case None
    then show ?thesis using Some bb
      by (auto simp: gateValidationRefusal_def receipt_passes_def split: option.splits)
  next
    case (Some x)
    then have "closedGateValidationExecution env g sid = Some x" by (simp add: closedGateValidationExecution_def)
    then show ?thesis using Some \<open>gr_baseline g = Some bb\<close> bb
      by (auto simp: gateValidationRefusal_def receipt_passes_def split: option.splits)
  qed
qed (simp add: gateValidationRefusal_def)

lemma refusal_never_passes: "gateValidationRefusal env g sid = Some r \<Longrightarrow> gv_pass r = Some False \<and> gv_refusal r \<noteq> None"
  by (auto simp: gateValidationRefusal_def refused_def regression_refusal_def split: option.splits if_splits prod.splits)

lemma refused_pass [simp]: "gv_pass (refused k why) = Some False" "gv_refusal (refused k why) = Some k"
  by (simp_all add: refused_def)

lemma refuse_document_pass [simp]: "gv_pass (refuse_document v why) = Some False"
  by (simp add: refuse_document_def)

definition fails :: "gate_verdict \<Rightarrow> bool" where
  "fails r = (gv_pass r = Some False \<and> gv_refusal r \<noteq> None)"

lemma refusals_fail:
  "\<forall>x \<in> set (authority_refusals env mg g sid doc). \<forall>r. x = Some r \<longrightarrow> fails r"
  "\<forall>x \<in> set (finding_refusals v). \<forall>r. x = Some r \<longrightarrow> fails r"
  "\<forall>x \<in> set (evidence_refusals g sid v). \<forall>r. x = Some r \<longrightarrow> fails r"
  by (auto simp: authority_refusals_def finding_refusals_def evidence_refusals_def fails_def Let_def)

lemma early_refusal_fails:
  assumes "early_refusal env mg g sid requireDelta doc = Some r"
  shows "gv_pass r = Some False \<and> gv_refusal r \<noteq> None"
proof -
  have "\<forall>r. validation_refusal env g sid requireDelta (dc_value doc) = Some r \<longrightarrow> fails r"
    using refusal_never_passes by (auto simp: validation_refusal_def fails_def)
  moreover from first_some_member [OF assms [unfolded early_refusal_def]]
  have "validation_refusal env g sid requireDelta (dc_value doc) = Some r
      \<or> (\<exists>x \<in> set (authority_refusals env mg g sid doc) \<union> set (finding_refusals (dc_value doc))
            \<union> set (evidence_refusals g sid (dc_value doc)). x = Some r)"
    by (auto simp del: Un_iff)
  ultimately have "fails r" using refusals_fail by blast
  then show ?thesis by (simp add: fails_def)
qed

lemma disposition_truthy: "own_field rep ''disposition'' = JStr d \<Longrightarrow> truthy rep"
  by (cases rep) (auto simp: own_field_def truthy_def)

lemma repairability_fails: "validateGateRepairability v \<Longrightarrow> truthy (own_field v ''repairability'') \<Longrightarrow> pass_of v = Some False"
  by (cases v) (auto simp: validateGateRepairability_def has_field_def own_field_def dflt_def truthy_def pass_of_def
      split: option.splits)

lemma contract_verdict_pass:
  assumes "gv_pass (contract_verdict g sid contract v) = Some True"
  shows "isTerminalStudyCompletionArtifact v \<and> contract_verdict g sid contract v = study_verdict
    \<or> \<not> isTerminalStudyCompletionArtifact v \<and> contract_verdict g sid contract v = authored_verdict v \<and> pass_of v = Some True
      \<and> (\<forall>c. contract = Some c \<longrightarrow> validateVerdictAgainstContract v (map_of (gr_metrics g) sid) c sid = None)"
  using assms by (cases contract) (auto simp: contract_verdict_def authored_verdict_def split: if_splits option.splits prod.splits)

lemma evaluate_pass:
  assumes "gv_pass (evaluate_document env mg g sid contract r doc) = Some True"
  shows "early_refusal env mg g sid r doc = None
    \<and> evaluate_document env mg g sid contract r doc = contract_verdict g sid contract (dc_value doc)"
  using assms early_refusal_fails [of env mg g sid r doc]
  by (cases "early_refusal env mg g sid r doc") (auto simp: evaluate_document_def dflt_def)

lemma passing_no_repairability:
  assumes "early_refusal env mg g sid r doc = None" and "pass_of (dc_value doc) = Some True \<or> isTerminalStudyCompletionArtifact (dc_value doc)"
  shows "\<not> truthy (own_field (dc_value doc) ''repairability'')"
proof
  assume t: "truthy (own_field (dc_value doc) ''repairability'')"
  have "validateGateRepairability (dc_value doc)" "\<not> isTerminalStudyCompletionArtifact (dc_value doc)"
    using assms(1) t by (auto simp: early_refusal_def authority_refusals_def Let_def)
  with repairability_fails [OF _ t] assms(2) show False by simp
qed

definition criterion_answered :: "json \<Rightarrow> string \<Rightarrow> bool" where
  \<comment> \<open>the verdict answers a criterion with evidence, and does not pass over a failed one\<close>
  "criterion_answered v c =
     (let entry = own_field (own_field v ''criteria'') c; status = trimmed_lower (own_field entry ''status'')
      in is_record entry \<and> nonblank (own_field entry ''evidence'') \<and> status \<in> {''pass'', ''fail'', ''judgement''}
         \<and> (pass_of v = Some True \<longrightarrow> status \<noteq> ''fail''))"

lemma pass_of_iff: "pass_of v = Some b \<longleftrightarrow> own_field v ''pass'' = JBool b"
  by (auto simp: pass_of_def split: json.splits)

lemma criteria_answered:
  "criterion_violation (own_field v ''criteria'') (own_field v ''pass'' = JBool True) refs = None
     \<longleftrightarrow> (\<forall>c \<in> set refs. criterion_answered v c)"
  by (induction refs) (auto simp: Let_def criterion_answered_def pass_of_iff)

definition contract_honoured :: "gate_run \<Rightarrow> string \<Rightarrow> gate_contract \<Rightarrow> json \<Rightarrow> bool" where
  \<comment> \<open>a number under an accepted metric name meets the threshold, or proves a verified ceiling\<close>
  "contract_honoured g sid c v =
     (\<exists>x. evidence_value v (dflt (map_of (gr_metrics g) sid) JNull) = Some x
        \<and> (metric_name v \<in> set (accepted_names c) \<or> metric_name (dflt (map_of (gr_metrics g) sid) JNull) \<in> set (accepted_names c))
        \<and> (meets_threshold c x \<or> verified_ceiling v (map_of (gr_metrics g) sid)))"

lemma contract_honoured_iff:
  "pass_of v = Some True \<Longrightarrow> contract_applies c sid \<Longrightarrow>
     validateVerdictAgainstContract v (map_of (gr_metrics g) sid) c sid = None \<longleftrightarrow> contract_honoured g sid c v"
  by (auto simp: validateVerdictAgainstContract_def contract_honoured_def pass_of_iff Let_def split: option.splits)

lemma no_missing_output:
  "missing_output mg g sid = None \<longleftrightarrow> (\<forall>(path, available) \<in> set (gr_outputs g). available \<or> owed_later mg g sid path)"
  by (auto simp: missing_output_def find_None_iff)

definition earned :: "gate_env \<Rightarrow> (string \<Rightarrow> string \<Rightarrow> bool) \<Rightarrow> gate_run \<Rightarrow> string \<Rightarrow> gate_contract option \<Rightarrow> json \<Rightarrow> bool" where
  \<comment> \<open>everything the engine demands before a pass counts\<close>
  "earned env mg g sid contract v =
     ((\<forall>b ok. gr_baseline g = Some (b, ok) \<longrightarrow> receipt_passes env g sid b)
      \<and> (pass_of v = Some True \<longrightarrow> (\<forall>(path, available) \<in> set (gr_outputs g). available \<or> owed_later mg g sid path))
      \<and> (pass_of v = Some True \<longrightarrow> map_of (gr_candidates g) sid \<notin> {Some OutAbsent, Some OutInvalid})
      \<and> (own_field v ''audit_findings'' \<noteq> JUndef \<longrightarrow> audit_findings (own_field v ''audit_findings'') \<noteq> None
           \<and> (pass_of v = Some True \<longrightarrow> audit_findings (own_field v ''audit_findings'') = Some 0))
      \<and> \<not> explicitPassContradiction v
      \<and> (\<forall>c \<in> set (lookup [] (gr_refs g) sid). criterion_answered v c)
      \<and> (isTerminalStudyCompletionArtifact v
         \<or> pass_of v = Some True
           \<and> (\<forall>c. contract = Some c \<and> contract_applies c sid \<longrightarrow> contract_honoured g sid c v)))"

lemma early_none_earned:
  assumes "early_refusal env mg g sid True doc = None" and "\<not> truthy (own_field (dc_value doc) ''repairability'')"
    and "isTerminalStudyCompletionArtifact (dc_value doc) \<or> pass_of (dc_value doc) = Some True
      \<and> (\<forall>c. contract = Some c \<longrightarrow> validateVerdictAgainstContract (dc_value doc) (map_of (gr_metrics g) sid) c sid = None)"
  shows "earned env mg g sid contract (dc_value doc)"
proof -
  let ?v = "dc_value doc"
  have none: "validation_refusal env g sid True ?v = None" "\<forall>x \<in> set (authority_refusals env mg g sid doc). x = None"
    "\<forall>x \<in> set (finding_refusals ?v). x = None" "\<forall>x \<in> set (evidence_refusals g sid ?v). x = None"
    using assms(1) by (auto simp: early_refusal_def)
  have "own_field (own_field ?v ''repairability'') ''disposition'' \<noteq> JStr ''irreparable''"
    using assms(2) disposition_truthy by blast
  with none(1) have "gateValidationRefusal env g sid = None" by (simp add: validation_refusal_def)
  then have base: "\<forall>b ok. gr_baseline g = Some (b, ok) \<longrightarrow> receipt_passes env g sid b"
    by (auto simp: no_validation_refusal)
  have out: "pass_of ?v = Some True \<longrightarrow> (\<forall>(path, available) \<in> set (gr_outputs g). available \<or> owed_later mg g sid path)"
    using none(2) by (cases "pass_of ?v = Some True") (simp_all add: authority_refusals_def Let_def no_missing_output)
  have crit: "\<forall>c \<in> set (lookup [] (gr_refs g) sid). criterion_answered ?v c"
    using none(4) criteria_answered [of ?v "lookup [] (gr_refs g) sid"]
    by (auto simp: evidence_refusals_def validateGateCriterionEvidence_def Let_def split: if_splits)
  show ?thesis
    using base out crit none(3,4) assms(3) contract_honoured_iff [of ?v _ sid g]
    unfolding earned_def finding_refusals_def evidence_refusals_def Let_def by simp blast
qed

lemma gate_earned:
  assumes "evaluateGateVerdict env mg g sid contract True = Some v" and "gv_pass v = Some True"
  shows "\<exists>doc. readGateVerdictDocument env g sid = Some doc \<and> earned env mg g sid contract (dc_value doc)"
proof -
  obtain doc where doc: "readGateVerdictDocument env g sid = Some doc" "v = evaluate_document env mg g sid contract True doc"
    using assms(1) by (auto simp: evaluateGateVerdict_def)
  then have e: "early_refusal env mg g sid True doc = None" "gv_pass (contract_verdict g sid contract (dc_value doc)) = Some True"
    using evaluate_pass [of env mg g sid contract True doc] assms(2) by auto
  note c = contract_verdict_pass [OF e(2)]
  have "\<not> truthy (own_field (dc_value doc) ''repairability'')"
    using passing_no_repairability [OF e(1)] c by blast
  with early_none_earned [OF e(1)] c doc(1) show ?thesis by blast
qed

text \<open>C11. A gate passes only when the pass is earned: the evaluation of an authored verdict is a pass
  only if a passing validation receipt of exactly this settled execution exists wherever the run has a
  setup baseline, every declared product due is available, the research outcome is usable, no
  structured finding is open, no repair is asked for, every criterion assigned to the gate is answered
  with evidence, and - unless the verdict closes the study without success - the author passed it and
  the numeric contract is honoured.\<close>

theorem gate_pass_is_earned:
  assumes "evaluateGateVerdict env mg g sid contract True = Some v" and "gv_pass v = Some True"
  shows "\<exists>doc. readGateVerdictDocument env g sid = Some doc \<and> earned env mg g sid contract (dc_value doc)"
  by (rule gate_earned [OF assms])

section \<open>A settled verdict is final\<close>

definition live_settlement ::
  "gate_env \<Rightarrow> (string \<Rightarrow> string \<Rightarrow> bool) \<Rightarrow> gate_run \<Rightarrow> string \<Rightarrow> gate_contract option \<Rightarrow> gate_verdict" where
  \<comment> \<open>what the engine concludes of a completed gate at its settlement\<close>
  "live_settlement env mg g sid contract =
     projected (dflt (evaluateGateVerdict env mg g sid contract True) (refused RfMissingVerdict NoVerdictProduced))"

definition awaiting_settlement :: "gate_run \<Rightarrow> string \<Rightarrow> bool" where
  "awaiting_settlement g sid =
     (case map_of (gr_ledger g) sid of
        None \<Rightarrow> False
      | Some gs \<Rightarrow> s_status (gs_status gs) = SComplete \<and> s_continuation (gs_status gs) = None \<and> gs_gate gs = None)"

lemma settled_entry:
  assumes "awaiting_settlement g sid"
  shows "\<exists>gs' sg. map_of (gr_ledger (settleGateEvaluation env mg sid contract g)) sid = Some gs'
    \<and> gs_gate gs' = Some sg \<and> sg_verdict sg = live_settlement env mg g sid contract
    \<and> s_status (gs_status gs') = SComplete \<and> s_continuation (gs_status gs') = None"
proof -
  obtain gs where gs: "map_of (gr_ledger g) sid = Some gs" "s_status (gs_status gs) = SComplete"
    "s_continuation (gs_status gs) = None" "gs_gate gs = None"
    using assms by (auto simp: awaiting_settlement_def split: option.splits)
  then show ?thesis by (simp add: settleGateEvaluation_def live_settlement_def Let_def)
qed

lemma projected_pass [simp]: "gv_pass (projected v) = gv_pass v"
  by (simp add: projected_def)

text \<open>C12. The settlement of a gate is final: once a completed gate is settled, every reader obtains
  the settled verdict from the ledger, whatever later happens to verdict files, receipts, contracts or
  baselines, settling again changes nothing, and a reader that sees a pass sees one that was earned at
  the settlement.\<close>

theorem settlement_is_final:
  assumes "awaiting_settlement g sid"
    and "map_of (gr_ledger later) sid = map_of (gr_ledger (settleGateEvaluation env mg sid contract g)) sid"
  shows "readGateEvaluation env' mg' later sid contract' r = Some (live_settlement env mg g sid contract)
    \<and> settleGateEvaluation env' mg' sid contract' later = later
    \<and> (gv_pass (live_settlement env mg g sid contract) = Some True \<longrightarrow>
         (\<exists>doc. readGateVerdictDocument env g sid = Some doc \<and> earned env mg g sid contract (dc_value doc)))"
proof -
  obtain gs sg where gs: "map_of (gr_ledger later) sid = Some gs" "gs_gate gs = Some sg"
    "sg_verdict sg = live_settlement env mg g sid contract" "s_status (gs_status gs) = SComplete"
    "s_continuation (gs_status gs) = None"
    using settled_entry [OF assms(1), of env mg contract] assms(2) by auto
  have "\<exists>doc. readGateVerdictDocument env g sid = Some doc \<and> earned env mg g sid contract (dc_value doc)"
    if "gv_pass (live_settlement env mg g sid contract) = Some True"
    using that gate_earned [of env mg g sid contract]
    by (cases "evaluateGateVerdict env mg g sid contract True") (auto simp: live_settlement_def dflt_def)
  with gs show ?thesis by (simp add: readGateEvaluation_def settleGateEvaluation_def Let_def)
qed

section \<open>Discharges are supported\<close>

definition supported ::
  "gate_env \<Rightarrow> (string \<Rightarrow> string \<Rightarrow> bool) \<Rightarrow> gate_contract option \<Rightarrow> discharge_input \<Rightarrow> gate_run \<Rightarrow> discharge \<Rightarrow> bool" where
  "supported env mg contract inp g d =
     (\<exists>gate \<in> set (di_stages inp). \<exists>w \<in> set (di_stages inp). \<exists>bytes v.
        sc_is_gate gate \<and> dg_gate d = sc_id gate \<and> completed_stage g (sc_id gate)
        \<and> dg_criterion d \<in> set (lookup [] (gr_refs g) (sc_id gate))
        \<and> Option.bind (readGateEvaluation env mg g (sc_id gate) contract True) gv_pass = Some True
        \<and> archived_verdict inp (sc_id gate) = Some (bytes, v) \<and> dg_verdictSha d = ge_sha env bytes
        \<and> criterion_passed v (dg_criterion d)
        \<and> dg_work d = sc_id w \<and> \<not> sc_is_gate w \<and> dflt (sc_retry_to w) [] = [] \<and> sc_id w \<notin> set (di_owners inp)
        \<and> dg_criterion d \<in> set (sc_criterion_refs w) \<and> completed_stage g (sc_id w)
        \<and> transitivelyDependsOn (sc_id gate) (sc_id w) (stage_map (di_stages inp))
        \<and> dg_briefDigest d = di_criteriaDigest inp \<and> dg_iteration d = di_iteration inp)"

lemma discharge_one_inv:
  assumes "gate \<in> set (di_stages inp)" "sc_is_gate gate" "completed_stage g (sc_id gate)"
    "c \<in> set (lookup [] (gr_refs g) (sc_id gate))"
    "Option.bind (readGateEvaluation env mg g (sc_id gate) contract True) gv_pass = Some True"
    "archived_verdict inp (sc_id gate) = Some f"
    and "distinct (map dg_criterion ds) \<and> (\<forall>d \<in> set ds. supported env mg contract inp g d)"
  shows "distinct (map dg_criterion (discharge_one env inp g (sc_id gate) f c ds))
    \<and> (\<forall>d \<in> set (discharge_one env inp g (sc_id gate) f c ds). supported env mg contract inp g d)"
proof (cases "c \<in> dg_criterion ` set ds \<or> \<not> criterion_passed (snd f) c")
  case False
  show ?thesis
  proof (cases "discharging_worker inp g (sc_id gate) c")
    case (Some w)
    then have w: "w \<in> set (di_stages inp)" "\<not> sc_is_gate w" "dflt (sc_retry_to w) [] = []" "sc_id w \<notin> set (di_owners inp)"
      "c \<in> set (sc_criterion_refs w)" "completed_stage g (sc_id w)"
      "transitivelyDependsOn (sc_id gate) (sc_id w) (stage_map (di_stages inp))"
      by (auto simp: discharging_worker_def find_Some_iff)
    let ?d = "\<lparr>dg_criterion = c, dg_briefDigest = di_criteriaDigest inp, dg_iteration = di_iteration inp,
        dg_work = sc_id w, dg_gate = sc_id gate, dg_verdictSha = ge_sha env (fst f)\<rparr>"
    have "supported env mg contract inp g ?d"
      unfolding supported_def
      by (intro bexI [OF _ assms(1)] bexI [OF _ w(1)] exI [of _ "fst f"] exI [of _ "snd f"])
         (use assms(2-6) w False in simp)
    with False Some assms(7) show ?thesis by (auto simp: discharge_one_def)
  qed (use assms(7) in \<open>simp add: discharge_one_def\<close>)
qed (use assms(7) in \<open>auto simp: discharge_one_def\<close>)

lemma fold_invariant: "P s \<Longrightarrow> (\<And>x s. x \<in> set xs \<Longrightarrow> P s \<Longrightarrow> P (f x s)) \<Longrightarrow> P (fold f xs s)"
  by (induction xs arbitrary: s) auto

lemma discharge_gate_inv:
  assumes "gate \<in> set (di_stages inp)"
    and inv: "distinct (map dg_criterion ds) \<and> (\<forall>d \<in> set ds. supported env mg contract inp g d)"
  shows "distinct (map dg_criterion (discharge_gate env mg contract inp g gate ds))
    \<and> (\<forall>d \<in> set (discharge_gate env mg contract inp g gate ds). supported env mg contract inp g d)"
proof (cases "\<not> sc_is_gate gate \<or> lookup [] (gr_refs g) (sc_id gate) = [] \<or> \<not> completed_stage g (sc_id gate)
    \<or> archived_verdict inp (sc_id gate) = None
    \<or> Option.bind (readGateEvaluation env mg g (sc_id gate) contract True) gv_pass \<noteq> Some True")
  case True
  then show ?thesis using inv by (auto simp: discharge_gate_def Let_def split: option.splits)
next
  case False
  then obtain f where f: "archived_verdict inp (sc_id gate) = Some f" by auto
  with False have "discharge_gate env mg contract inp g gate ds =
      fold (discharge_one env inp g (sc_id gate) f) (lookup [] (gr_refs g) (sc_id gate)) ds"
    by (simp add: discharge_gate_def Let_def)
  moreover have "distinct (map dg_criterion (fold (discharge_one env inp g (sc_id gate) f) (lookup [] (gr_refs g) (sc_id gate)) ds))
      \<and> (\<forall>d \<in> set (fold (discharge_one env inp g (sc_id gate) f) (lookup [] (gr_refs g) (sc_id gate)) ds). supported env mg contract inp g d)"
    by (rule fold_invariant [where P = "\<lambda>ds. distinct (map dg_criterion ds) \<and> (\<forall>d \<in> set ds. supported env mg contract inp g d)"])
       (use False f assms(1) inv discharge_one_inv in blast)+
  ultimately show ?thesis by simp
qed

text \<open>A criterion is discharged at most once, and only on scheduler facts: a completed gate of the
  plan, assigned the criterion, whose effective verdict passes and whose archived verdict records the
  criterion as passed with evidence, reviews a completed ordinary worker assigned the same criterion.\<close>

lemma discharges_are_supported:
  "distinct (map dg_criterion (deriveCriterionDischarges env mg contract inp g))
   \<and> set (deriveCriterionDischarges env mg contract inp g) \<subseteq> {d. supported env mg contract inp g d \<and> di_pass inp}"
proof -
  have "distinct (map dg_criterion (fold (discharge_gate env mg contract inp g) (di_stages inp) []))
      \<and> (\<forall>d \<in> set (fold (discharge_gate env mg contract inp g) (di_stages inp) []). supported env mg contract inp g d)"
    by (rule fold_invariant [where P = "\<lambda>ds. distinct (map dg_criterion ds) \<and> (\<forall>d \<in> set ds. supported env mg contract inp g d)"])
       (simp, rule discharge_gate_inv)
  then show ?thesis by (auto simp: deriveCriterionDischarges_def)
qed

section \<open>A gate in a run\<close>

definition demo_gate_env :: gate_env where
  "demo_gate_env = \<lparr>ge_sha = (\<lambda>s. s), ge_iso = (\<lambda>_. ''t'')\<rparr>"

definition demo_gate_run :: gate_run where
  \<comment> \<open>one completed gate with a passing verdict that answers its criterion\<close>
  "demo_gate_run = \<lparr>gr_runId = ''r'',
     gr_ledger = [(''gate'', \<lparr>gs_status = bare_status SComplete 0, gs_gate = None, gs_accepted = None\<rparr>)],
     gr_stages = [], gr_outputs = [(''docs/out.md'', True)],
     gr_verdicts = [(''gate'', ''bytes'', JObj [(''pass'', JBool True), (''value'', JNum 10), (''metric'', JStr ''Score''),
        (''criteria'', JObj [(''c'', JObj [(''status'', JStr ''Pass''), (''evidence'', JStr ''seen'')])])])],
     gr_archived = [], gr_receipts = [], gr_baseline = None, gr_deltas = [], gr_immutable = [], gr_candidates = [],
     gr_refs = [(''gate'', [''c''])], gr_metrics = []\<rparr>"

definition demo_contract :: gate_contract where
  "demo_contract = \<lparr>ct_metric = ''score'', ct_synonyms = None, ct_threshold = 9, ct_higherIsBetter = None, ct_appliesToGates = None\<rparr>"

lemma demo_evaluates:
  "evaluateGateVerdict demo_gate_env (\<lambda>_ _. False) demo_gate_run ''gate'' (Some demo_contract) True =
     Some \<lparr>gv_pass = Some True, gv_reason = None, gv_repairability = None, gv_refusal = None\<rparr>"
  by code_simp

theorem gate_pass_is_earned_witness:
  "\<exists>doc :: verdict_document. earned demo_gate_env (\<lambda>_ _. False) demo_gate_run ''gate'' (Some demo_contract) (dc_value doc)"
  using gate_pass_is_earned [OF demo_evaluates] by auto

theorem settlement_is_final_witness:
  "readGateEvaluation demo_gate_env (\<lambda>_ _. True)
     ((settleGateEvaluation demo_gate_env (\<lambda>_ _. False) ''gate'' (Some demo_contract) demo_gate_run)\<lparr>gr_verdicts := []\<rparr>)
     ''gate'' None True = Some \<lparr>gv_pass = Some True, gv_reason = None, gv_repairability = None, gv_refusal = None\<rparr>"
proof -
  have "awaiting_settlement demo_gate_run ''gate''" by code_simp
  from settlement_is_final [OF this, where later = "(settleGateEvaluation demo_gate_env (\<lambda>_ _. False) ''gate''
      (Some demo_contract) demo_gate_run)\<lparr>gr_verdicts := []\<rparr>"]
  show ?thesis by (simp add: live_settlement_def demo_evaluates dflt_def projected_def)
qed

end
