(* ===== verification/Gate_Recovery.thy ===== *)
theory Gate_Recovery
  imports Gate_Verdict
begin

text \<open>
  What a rejected gate leads to (\<open>src/src/scheduler/sched_settlement/gate-recovery.ts\<close>): the runtime
  facts of all gates, the classification of a rejection, the stages it sends back to work, and the
  authors a gate reviews.
\<close>

section \<open>Rejections\<close>

datatype rejection_kind =
    RepairableFailure | IrreparableRejection | OmittedOutcome | EngineRejection | Unclassified

record recovery_fact =
  rf_gate :: string
  rf_authored :: "gate_verdict option"
  rf_effective :: "gate_verdict option"
  rf_kind :: rejection_kind

definition passes_as :: "bool \<Rightarrow> gate_verdict option \<Rightarrow> bool" where
  \<comment> \<open>\<open>verdict?.pass === b\<close>\<close>
  "passes_as b v = (Option.bind v gv_pass = Some b)"

definition declared :: "repair_disposition \<Rightarrow> gate_verdict option \<Rightarrow> bool" where
  \<comment> \<open>\<open>verdict?.repairability?.disposition === d\<close>\<close>
  "declared d v = (map_option fst (Option.bind v gv_repairability) = Some d)"

definition refusal_of :: "gate_verdict option \<Rightarrow> refusal_kind option" where
  "refusal_of v = Option.bind v gv_refusal"

definition rejection_of :: "gate_verdict option \<Rightarrow> gate_verdict option \<Rightarrow> rejection_kind" where
  "rejection_of authored effective =
     (let kind = refusal_of effective
      in if kind = Some RfValidationRegression then RepairableFailure
         else if kind = Some RfValidationUnresolved \<or> kind = Some RfRepairability then EngineRejection
         else if declared Irreparable effective then IrreparableRejection
         else if passes_as False effective \<and> (declared Repairable effective \<or> passes_as False authored) then RepairableFailure
         else if kind = Some RfOutcomeAbsent then OmittedOutcome
         else if kind \<noteq> None \<or> (passes_as True authored \<and> passes_as False effective) then EngineRejection
         else if passes_as False effective then RepairableFailure
         else Unclassified)"

definition classifyGateRecoveryFact :: "string \<Rightarrow> gate_verdict option \<Rightarrow> gate_verdict option \<Rightarrow> recovery_fact" where
  "classifyGateRecoveryFact gate authored effective =
     \<lparr>rf_gate = gate, rf_authored = authored, rf_effective = effective, rf_kind = rejection_of authored effective\<rparr>"

definition structuredFailingGateCriteria :: "gate_env \<Rightarrow> gate_run \<Rightarrow> string \<Rightarrow> string list option" where
  "structuredFailingGateCriteria env g sid =
     (case readGateVerdictDocument env g sid of
        None \<Rightarrow> None
      | Some doc \<Rightarrow>
          (case own_field (dc_value doc) ''criteria'' of
             JObj m \<Rightarrow>
               if m = [] then None
               else Some (map fst (filter (\<lambda>(c, entry). trimmed_lower (own_field entry ''status'') \<noteq> ''pass'') m))
           | _ \<Rightarrow> None))"

definition researchAdvanceEligible :: "bool \<Rightarrow> bool \<Rightarrow> bool" where
  "researchAdvanceEligible gatesSettled stageFailed = (gatesSettled \<and> \<not> stageFailed)"

section \<open>Runtime facts\<close>

record gate_evaluation =
  ev_id :: string
  ev_status :: "stage_state option"
  ev_attempts :: nat
  ev_authored :: "gate_verdict option"
  ev_effective :: "gate_verdict option"
  ev_rejection :: "rejection_kind option"

record runtime_facts =
  rt_allPass :: bool
  rt_failed :: "string list"
  rt_rejected :: "string list"
  rt_contractRefusals :: "(string \<times> gate_reason option) list"
  rt_evaluations :: "gate_evaluation list"

fun unique_stages :: "string list \<Rightarrow> stage_config list \<Rightarrow> stage_config list" where
  "unique_stages seen [] = []"
| "unique_stages seen (s # ss) =
     (if sc_id s \<in> set seen then unique_stages seen ss else s # unique_stages (sc_id s # seen) ss)"

definition uniqueGateStages :: "stage_config list \<Rightarrow> stage_config list" where
  "uniqueGateStages stages = unique_stages [] (filter sc_is_gate stages)"

definition statuses :: "gate_run \<Rightarrow> (string \<times> stage_status) list" where
  "statuses g = map (\<lambda>(k, gs). (k, gs_status gs)) (gr_ledger g)"

definition regressed :: "gate_stage \<Rightarrow> bool" where
  "regressed gs = (s_status (gs_status gs) = SFailed
     \<and> Option.bind (gs_gate gs) (\<lambda>sg. gv_refusal (sg_verdict sg)) = Some RfValidationRegression)"

definition gate_settled :: "gate_run \<Rightarrow> string \<Rightarrow> bool" where
  \<comment> \<open>complete, or failed on a measured regression\<close>
  "gate_settled g sid = (case map_of (gr_ledger g) sid of None \<Rightarrow> False
     | Some gs \<Rightarrow> s_status (gs_status gs) = SComplete \<or> regressed gs)"

definition authored_of :: "gate_env \<Rightarrow> gate_run \<Rightarrow> (string \<times> json) list \<Rightarrow> string \<Rightarrow> gate_verdict option" where
  \<comment> \<open>the live verdict document, or the archived one of a gate with no settled evidence\<close>
  "authored_of env g archived sid =
     (case readGateVerdictDocument env g sid of
        Some doc \<Rightarrow> Some (projectGateVerdict (dc_value doc))
      | None \<Rightarrow>
          (case map_of (gr_ledger g) sid of
             Some gs \<Rightarrow> if gs_gate gs = None \<and> gs_accepted gs = None
                        then map_option projectGateVerdict (map_of archived sid) else None
           | None \<Rightarrow> map_option projectGateVerdict (map_of archived sid)))"

definition evaluate_gate ::
  "gate_env \<Rightarrow> (string \<Rightarrow> string \<Rightarrow> bool) \<Rightarrow> gate_run \<Rightarrow> (string \<times> json) list \<Rightarrow> gate_contract option \<Rightarrow> string \<Rightarrow> gate_evaluation" where
  "evaluate_gate env mg g archived contract sid =
     (let gs = map_of (gr_ledger g) sid;
          st = map_option (s_status \<circ> gs_status) gs;
          n = (case gs of None \<Rightarrow> 0 | Some x \<Rightarrow> length (attempts_of (gs_status x)))
      in if \<not> gate_settled g sid
         then \<lparr>ev_id = sid, ev_status = st, ev_attempts = n, ev_authored = None, ev_effective = None, ev_rejection = None\<rparr>
         else let authored = authored_of env g archived sid; effective = readGateEvaluation env mg g sid contract True
              in \<lparr>ev_id = sid, ev_status = st, ev_attempts = n, ev_authored = authored, ev_effective = effective,
                  ev_rejection = (if passes_as False effective
                                  then Some (rf_kind (classifyGateRecoveryFact sid authored effective)) else None)\<rparr>)"

definition collectGateRuntimeFacts ::
  "gate_env \<Rightarrow> (string \<Rightarrow> string \<Rightarrow> bool) \<Rightarrow> gate_run \<Rightarrow> (string \<times> json) list \<Rightarrow> gate_contract option \<Rightarrow>
   stage_config list \<Rightarrow> runtime_facts" where
  "collectGateRuntimeFacts env mg g archived contract stages =
     (let gates = filter (\<lambda>s. \<not> isStageInSkippedBranch (sc_id s) (stage_map stages) (statuses g)) (uniqueGateStages stages);
          evs = map (evaluate_gate env mg g archived contract \<circ> sc_id) gates;
          failed = filter (\<lambda>e. \<not> passes_as True (ev_effective e)) evs;
          rejected = filter (\<lambda>e. passes_as False (ev_effective e)) failed
      in \<lparr>rt_allPass = (failed = []), rt_failed = map ev_id failed, rt_rejected = map ev_id rejected,
          rt_contractRefusals = map (\<lambda>e. (ev_id e, Option.bind (ev_effective e) gv_reason))
            (filter (\<lambda>e. refusal_of (ev_effective e) = Some RfNumericEvidence
                        \<or> refusal_of (ev_effective e) = Some RfValidationUnresolved) rejected),
          rt_evaluations = evs\<rparr>)"

definition checkGates ::
  "gate_env \<Rightarrow> (string \<Rightarrow> string \<Rightarrow> bool) \<Rightarrow> gate_run \<Rightarrow> (string \<times> json) list \<Rightarrow> gate_contract option \<Rightarrow>
   stage_config list \<Rightarrow> bool \<times> string list" where
  "checkGates env mg g archived contract stages =
     (let facts = collectGateRuntimeFacts env mg g archived contract stages in (rt_allPass facts, rt_failed facts))"

section \<open>Recovery routes\<close>

definition findAllRetryToStages :: "stage_config list \<Rightarrow> string list \<Rightarrow> stage_config list" where
  "findAllRetryToStages stages failed = filter (\<lambda>s. list_ex (\<lambda>gate. gate \<in> set failed) (dflt (sc_retry_to s) [])) stages"

definition outcome_paths :: "string option option \<Rightarrow> string list" where
  \<comment> \<open>the result file and its sidecar, of a run with a research loop\<close>
  "outcome_paths research =
     (case research of None \<Rightarrow> [] | Some file \<Rightarrow> [researchResultFile file, researchResultFile file @ ''.no_candidate.json''])"

definition owns_outcome :: "(string \<Rightarrow> string \<Rightarrow> bool) \<Rightarrow> string option option \<Rightarrow> stage_config \<Rightarrow> bool" where
  "owns_outcome mg research s = list_ex (stageScopeOwnsPath mg s) (outcome_paths research)"

definition outcome_producer ::
  "(string \<Rightarrow> string \<Rightarrow> bool) \<Rightarrow> stage_config list \<Rightarrow> string option option \<Rightarrow> string \<Rightarrow> stage_config \<Rightarrow> bool" where
  "outcome_producer mg stages research gate s =
     (\<not> sc_is_gate s \<and> dflt (sc_retry_to s) [] = [] \<and> \<not> sc_dynamic_dispatch s
      \<and> transitivelyDependsOn gate (sc_id s) (stage_map stages) \<and> owns_outcome mg research s)"

definition recovery_of ::
  "(string \<Rightarrow> string \<Rightarrow> bool) \<Rightarrow> stage_config list \<Rightarrow> string option option \<Rightarrow> (string \<times> recovery_fact) list \<Rightarrow> string \<Rightarrow>
   stage_config list" where
  "recovery_of mg stages research facts gate =
     (let kind = (case map_of facts gate of None \<Rightarrow> Unclassified | Some f \<Rightarrow> rf_kind f)
      in if kind = IrreparableRejection \<or> kind = EngineRejection then []
         else if kind = OmittedOutcome \<and> research \<noteq> None then filter (outcome_producer mg stages research gate) stages
         else findAllRetryToStages stages [gate])"

definition findGateRecoveryStages ::
  "(string \<Rightarrow> string \<Rightarrow> bool) \<Rightarrow> stage_config list \<Rightarrow> string list \<Rightarrow> string option option \<Rightarrow>
   (string \<times> recovery_fact) list \<Rightarrow> stage_config list" where
  "findGateRecoveryStages mg stages rejected research facts =
     map snd (fold (\<lambda>gate selected. fold (\<lambda>s. amap_set (sc_id s) s) (recovery_of mg stages research facts gate) selected)
                rejected [])"

definition gateIdsForRecoveryStages ::
  "(string \<Rightarrow> string \<Rightarrow> bool) \<Rightarrow> stage_config list \<Rightarrow> string list \<Rightarrow> stage_config list \<Rightarrow> string option option \<Rightarrow> string list" where
  "gateIdsForRecoveryStages mg stages rejected recovery research =
     filter (\<lambda>gate. list_ex (\<lambda>s.
         sc_is_gate s \<and> sc_id s = gate \<or> gate \<in> set (dflt (sc_retry_to s) [])
         \<or> research \<noteq> None \<and> \<not> sc_is_gate s \<and> dflt (sc_retry_to s) [] = []
           \<and> transitivelyDependsOn gate (sc_id s) (stage_map stages) \<and> owns_outcome mg research s) recovery) rejected"

section \<open>Reviewed authors\<close>

function reviewed_loop :: "(string \<times> stage_config) list \<Rightarrow> string list \<Rightarrow> string list \<Rightarrow> string list" where
  "reviewed_loop byId [] reviewed = reviewed"
| "reviewed_loop byId (k # queue) reviewed =
     (case map_of byId k of
        None \<Rightarrow> reviewed_loop byId queue reviewed
      | Some s \<Rightarrow>
          if sc_is_gate s \<or> sc_id s \<in> set reviewed then reviewed_loop byId queue reviewed
          else reviewed_loop byId (queue @ sc_depends_on s) (reviewed @ [sc_id s]))"
  by pat_completeness auto

termination
proof (relation "measures [\<lambda>(byId, q, seen). card (sc_id ` snd ` set byId - set seen), \<lambda>(byId, q, seen). length q]")
  fix byId :: "(string \<times> stage_config) list" and k queue reviewed s
  assume s: "map_of byId k = Some s" "\<not> (sc_is_gate s \<or> sc_id s \<in> set reviewed)"
  then have "sc_id s \<in> sc_id ` snd ` set byId" by (force dest: map_of_SomeD)
  then have "card (sc_id ` snd ` set byId - set (reviewed @ [sc_id s])) < card (sc_id ` snd ` set byId - set reviewed)"
    using s(2) by (intro psubset_card_mono) auto
  then show "((byId, queue @ sc_depends_on s, reviewed @ [sc_id s]), (byId, k # queue, reviewed))
      \<in> measures [\<lambda>(byId, q, seen). card (sc_id ` snd ` set byId - set seen), \<lambda>(byId, q, seen). length q]" by simp
qed auto

definition gateReviewedAuthorIds :: "stage_config \<Rightarrow> stage_config list \<Rightarrow> string list" where
  "gateReviewedAuthorIds gate stages = reviewed_loop (stage_map stages) (sc_depends_on gate) []"

definition isGateReviewed :: "stage_config \<Rightarrow> stage_config list \<Rightarrow> bool" where
  "isGateReviewed s stages =
     (dflt (sc_retry_to s) [] \<noteq> []
      \<or> list_ex (\<lambda>gate. sc_is_gate gate \<and> sc_id s \<in> set (gateReviewedAuthorIds gate stages)) stages)"

definition isResearchOutcomeGate ::
  "(string \<Rightarrow> string \<Rightarrow> bool) \<Rightarrow> stage_config \<Rightarrow> stage_config list \<Rightarrow> string option option \<Rightarrow> bool" where
  "isResearchOutcomeGate mg s stages research =
     (research \<noteq> None \<and> sc_is_gate s \<and> list_ex (outcome_producer mg stages research (sc_id s)) stages)"

section \<open>Terminal consequences\<close>

definition irreparable_gates :: "runtime_facts \<Rightarrow> gate_evaluation list" where
  "irreparable_gates facts = filter (\<lambda>e. ev_rejection e = Some IrreparableRejection) (rt_evaluations facts)"

definition terminateForGateContractRefusal :: "runtime_facts \<Rightarrow> json \<Rightarrow> bool \<times> (run_status \<times> string) option" where
  \<comment> \<open>whether the run stops here, and the conclusion recorded unless it is terminal already\<close>
  "terminateForGateContractRefusal facts status =
     (if rt_contractRefusals facts = [] \<and> irreparable_gates facts = [] then (False, None)
      else if isTerminalRunStatus status then (True, None)
      else (True, Some (if irreparable_gates facts \<noteq> [] then (REscalated, ''irreparable_gate_rejection'')
                        else (RFailed, ''gate_contract_refusal''))))"

datatype settled_decision = SettledShip | SettledCeiling

definition decision_alias :: "string \<Rightarrow> settled_decision option" where
  \<comment> \<open>\<open>RESEARCH_DECISION_STATUS_ALIASES\<close>\<close>
  "decision_alias outcome =
     (if outcome = run_status_name RShipped then Some SettledShip
      else if outcome = run_status_name RCeilingHit then Some SettledCeiling else None)"

record settlement_projection =
  sp_decision :: settled_decision
  sp_status :: string
  sp_path :: string
  sp_owner :: string
  sp_gate :: string
  sp_succeeded :: bool
  sp_digest :: string

record settlement_input =
  si_research :: bool
  si_terminalStates :: "(string \<times> string list) list option"
  \<comment> \<open>the declared paths of each terminal state\<close>
  si_admission :: "(bool \<times> (string \<times> string) list) option"
  \<comment> \<open>the admission report read from the run: its \<open>pass\<close> and the owner of each terminal path\<close>
  si_metrics :: "(string \<times> string \<times> json) list"
  \<comment> \<open>the bytes of a gate's metric.json and their parse\<close>

definition trimmed_text :: "json \<Rightarrow> string option" where
  "trimmed_text v = (case v of JStr s \<Rightarrow> Some (trim s) | _ \<Rightarrow> None)"

definition project_settlement ::
  "gate_env \<Rightarrow> settlement_input \<Rightarrow> stage_config list \<Rightarrow> (string \<times> string) list \<Rightarrow> string \<Rightarrow> string \<times> json \<Rightarrow> string \<times> json \<Rightarrow>
   settlement_projection option" where
  \<comment> \<open>what one verified gate publishes, from its verdict and metric files\<close>
  "project_settlement env inp stages owners gate verdict metric =
     (let v = snd verdict; m = snd metric;
          outcome = dflt (trimmed_text (own_field m ''outcome'')) [];
          stated = dflt (trimmed_text (own_field v ''outcome'')) outcome
      in if \<not> (phase_done m \<or> phase_done v) \<or> outcome = [] \<or> stated \<noteq> outcome \<or> outcome = ''continue'' then None
         else case (decision_alias outcome, own_field m ''pass'') of
           (Some decision, JBool succeeded) \<Rightarrow>
             if (decision = SettledShip) \<noteq> succeeded then None
             else (case Option.bind (map_of (dflt (si_terminalStates inp) []) outcome) (\<lambda>ps. find (\<lambda>_. True) ps) of
                None \<Rightarrow> None
              | Some path \<Rightarrow>
                  if path = [] then None
                  else case map_of owners path of
                    None \<Rightarrow> None
                  | Some own \<Rightarrow>
                      if own = [] \<or> \<not> list_ex (\<lambda>s. sc_id s = own) stages then None
                      else Some \<lparr>sp_decision = decision, sp_status = outcome, sp_path = path, sp_owner = own,
                                 sp_gate = gate, sp_succeeded = succeeded,
                                 sp_digest = ge_sha env (fst verdict @ fst metric)\<rparr>)
         | _ \<Rightarrow> None)"

definition settlement_of_gate ::
  "gate_env \<Rightarrow> (string \<Rightarrow> string \<Rightarrow> bool) \<Rightarrow> gate_run \<Rightarrow> gate_contract option \<Rightarrow> settlement_input \<Rightarrow> stage_config list \<Rightarrow>
   (string \<times> string) list \<Rightarrow> stage_config \<Rightarrow> settlement_projection option" where
  "settlement_of_gate env mg g contract inp stages owners gate =
     (if \<not> sc_is_gate gate \<or> \<not> completed_stage g (sc_id gate)
         \<or> \<not> passes_as True (readGateEvaluation env mg g (sc_id gate) contract True) then None
      else case (map_of (gr_verdicts g) (sc_id gate), map_of (si_metrics inp) (sc_id gate)) of
        (Some verdict, Some metric) \<Rightarrow> project_settlement env inp stages owners (sc_id gate) verdict metric
      | _ \<Rightarrow> None)"

definition recoverVerifiedResearchSettlement ::
  "gate_env \<Rightarrow> (string \<Rightarrow> string \<Rightarrow> bool) \<Rightarrow> gate_run \<Rightarrow> (string \<times> json) list \<Rightarrow> gate_contract option \<Rightarrow> settlement_input \<Rightarrow>
   stage_config list \<Rightarrow> settlement_projection option" where
  \<comment> \<open>the projection returned and published\<close>
  "recoverVerifiedResearchSettlement env mg g archived contract inp stages =
     (if \<not> si_research inp \<or> si_terminalStates inp = None
         \<or> \<not> rt_allPass (collectGateRuntimeFacts env mg g archived contract stages) then None
      else case si_admission inp of
        Some (True, owners) \<Rightarrow> first_some (map (settlement_of_gate env mg g contract inp stages owners) (rev stages))
      | _ \<Rightarrow> None)"

section \<open>Facts of the gates\<close>

lemma unique_stages_sub: "set (unique_stages seen ss) \<subseteq> set ss"
  by (induction seen ss rule: unique_stages.induct) auto

lemma unique_stages_ids: "sc_id ` set (unique_stages seen ss) = sc_id ` set ss - set seen"
  by (induction seen ss rule: unique_stages.induct) auto

lemma evaluate_gate_pass:
  "passes_as True (ev_effective (evaluate_gate env mg g archived contract sid)) \<longleftrightarrow>
     gate_settled g sid \<and> passes_as True (readGateEvaluation env mg g sid contract True)"
  by (cases "gate_settled g sid") (simp_all add: evaluate_gate_def Let_def passes_as_def)

lemma all_gates_pass:
  "rt_allPass (collectGateRuntimeFacts env mg g archived contract stages) \<longleftrightarrow>
     (\<forall>s \<in> set (uniqueGateStages stages). \<not> isStageInSkippedBranch (sc_id s) (stage_map stages) (statuses g) \<longrightarrow>
        gate_settled g (sc_id s) \<and> passes_as True (readGateEvaluation env mg g (sc_id s) contract True))"
  by (auto simp: collectGateRuntimeFacts_def Let_def filter_empty_conv evaluate_gate_pass)

section \<open>Which stages a rejection sends back\<close>

lemma amap_values: "x \<in> set (map snd (amap_set k v m)) \<Longrightarrow> x = v \<or> x \<in> set (map snd m)"
  by (induction k v m rule: amap_set.induct) (auto split: if_splits)

definition keyed :: "stage_config list \<Rightarrow> (string \<times> stage_config) list \<Rightarrow> bool" where
  "keyed stages m = (\<forall>(k, s) \<in> set m. s \<in> set stages \<and> sc_id s = k)"

lemma amap_set_mem: "(k', v') \<in> set (amap_set k v m) \<Longrightarrow> (k', v') = (k, v) \<or> (k', v') \<in> set m"
  by (induction k v m rule: amap_set.induct) (auto split: if_splits)

lemma selected_fold:
  assumes "distinct (map sc_id stages)" and "set xs \<subseteq> set stages" and "keyed stages m" and "distinct (map fst m)"
  shows "keyed stages (fold (\<lambda>s. amap_set (sc_id s) s) xs m) \<and> distinct (map fst (fold (\<lambda>s. amap_set (sc_id s) s) xs m))
    \<and> snd ` set (fold (\<lambda>s. amap_set (sc_id s) s) xs m) = set xs \<union> snd ` set m"
  using assms(2-4)
proof (induction xs arbitrary: m)
  case (Cons x xs)
  let ?m = "amap_set (sc_id x) x m"
  have k: "keyed stages ?m" using Cons.prems(1,2) by (auto simp: keyed_def dest: amap_set_mem)
  have d: "distinct (map fst ?m)" using Cons.prems(3) by (rule distinct_amap_set)
  have "snd ` set ?m = insert x (snd ` set m)"
  proof (intro equalityI subsetI)
    fix s assume "s \<in> snd ` set ?m"
    then show "s \<in> insert x (snd ` set m)" by (force dest: amap_set_mem)
  next
    fix s assume s: "s \<in> insert x (snd ` set m)"
    show "s \<in> snd ` set ?m"
    proof (cases "s = x")
      case True
      have "(sc_id x, x) \<in> set ?m" by (rule map_of_SomeD) simp
      with True show ?thesis by force
    next
      case False
      with s obtain k where "(k, s) \<in> set m" by auto
      with Cons.prems(2,3) have m: "map_of m (sc_id s) = Some s" "s \<in> set stages" by (auto simp: keyed_def)
      then have "sc_id s \<noteq> sc_id x"
        using False assms(1) Cons.prems(1) by (auto simp: distinct_map inj_on_def)
      with m(1) have "map_of ?m (sc_id s) = Some s" by simp
      then have "(sc_id s, s) \<in> set ?m" by (rule map_of_SomeD)
      then show ?thesis by force
    qed
  qed
  with Cons.IH [OF _ k d] Cons.prems(1) show ?case by auto
qed simp

lemma recovery_sub: "set (recovery_of mg stages research facts gate) \<subseteq> set stages"
  by (auto simp: recovery_of_def findAllRetryToStages_def Let_def split: if_splits)

lemma recovery_union:
  assumes "distinct (map sc_id stages)" and "keyed stages m" and "distinct (map fst m)"
  shows "snd ` set (fold (\<lambda>gate selected. fold (\<lambda>s. amap_set (sc_id s) s) (recovery_of mg stages research facts gate) selected) rejected m)
    = (\<Union>gate \<in> set rejected. set (recovery_of mg stages research facts gate)) \<union> snd ` set m"
  using assms(2,3)
proof (induction rejected arbitrary: m)
  case (Cons gate rejected)
  from selected_fold [OF assms(1) recovery_sub Cons.prems, of mg research facts gate] Cons.IH
  show ?case by auto
qed simp

lemma recovery_stages_set:
  "distinct (map sc_id stages) \<Longrightarrow> set (findGateRecoveryStages mg stages rejected research facts)
     = (\<Union>gate \<in> set rejected. set (recovery_of mg stages research facts gate))"
  using recovery_union [of stages "[]" mg research facts rejected] by (simp add: findGateRecoveryStages_def keyed_def)

lemma recovery_member:
  "s \<in> set (recovery_of mg stages research facts gate) \<longleftrightarrow>
     s \<in> set stages
     \<and> (case map_of facts gate of None \<Rightarrow> Unclassified | Some f \<Rightarrow> rf_kind f) \<notin> {IrreparableRejection, EngineRejection}
     \<and> (if (case map_of facts gate of None \<Rightarrow> Unclassified | Some f \<Rightarrow> rf_kind f) = OmittedOutcome \<and> research \<noteq> None
        then outcome_producer mg stages research gate s else gate \<in> set (dflt (sc_retry_to s) []))"
  by (auto simp: recovery_of_def findAllRetryToStages_def list_ex_iff Let_def)

lemma recovery_gate_listed:
  assumes "distinct (map sc_id stages)" and "gate \<in> set rejected" and "recovery_of mg stages research facts gate \<noteq> []"
  shows "gate \<in> set (gateIdsForRecoveryStages mg stages rejected (findGateRecoveryStages mg stages rejected research facts) research)"
proof -
  obtain s where s: "s \<in> set (recovery_of mg stages research facts gate)"
    using assms(3) by (cases "recovery_of mg stages research facts gate") auto
  then have "s \<in> set (findGateRecoveryStages mg stages rejected research facts)"
    using recovery_stages_set [OF assms(1)] assms(2) by blast
  moreover have "gate \<in> set (dflt (sc_retry_to s) []) \<or> research \<noteq> None \<and> outcome_producer mg stages research gate s"
    using s by (auto simp: recovery_member split: if_splits)
  ultimately show ?thesis using assms(2)
    by (auto simp: gateIdsForRecoveryStages_def list_ex_iff outcome_producer_def)
qed

text \<open>The stages a round of rejections sends back to work are exactly the declared ones: an
  irreparable rejection and an engine refusal send nothing back, an omitted research outcome sends back
  the ordinary upstream owners of the outcome slots, and every other rejection the stages whose retry
  declaration names the gate; each gate that sends work back is reported for re-evaluation.\<close>

lemma recovery_routes_exact:
  assumes "distinct (map sc_id stages)"
  shows "(s \<in> set (findGateRecoveryStages mg stages rejected research facts) \<longleftrightarrow>
      (\<exists>gate kind. gate \<in> set rejected \<and> s \<in> set stages
        \<and> kind = (case map_of facts gate of None \<Rightarrow> Unclassified | Some f \<Rightarrow> rf_kind f)
        \<and> kind \<notin> {IrreparableRejection, EngineRejection}
        \<and> (if kind = OmittedOutcome \<and> research \<noteq> None then outcome_producer mg stages research gate s
           else gate \<in> set (dflt (sc_retry_to s) []))))
    \<and> (gate \<in> set rejected \<and> recovery_of mg stages research facts gate \<noteq> [] \<longrightarrow>
        gate \<in> set (gateIdsForRecoveryStages mg stages rejected (findGateRecoveryStages mg stages rejected research facts) research))"
proof -
  have "s \<in> set (findGateRecoveryStages mg stages rejected research facts) \<longleftrightarrow>
      (\<exists>gate \<in> set rejected. s \<in> set (recovery_of mg stages research facts gate))"
    using recovery_stages_set [OF assms] by blast
  then show ?thesis using recovery_gate_listed [OF assms] unfolding recovery_member by blast
qed

section \<open>Engine refusals\<close>

lemma passing_document_plain:
  assumes "pass_of v = Some True"
  shows "gv_repairability (refuse_document v why) = None" and "passes_as True (Some (projectGateVerdict v))"
  using assms repairability_fails [of v]
  by (auto simp: refuse_document_def projectGateVerdict_def passes_as_def)

lemma early_refusal_plain:
  assumes "early_refusal env mg g sid r doc = Some v" and "pass_of (dc_value doc) = Some True"
    and "gv_refusal v \<noteq> Some RfValidationRegression"
  shows "gv_repairability v = None"
proof -
  let ?w = "dc_value doc"
  note plain = passing_document_plain(1) [OF assms(2)]
  have val: "\<forall>u. validation_refusal env g sid r ?w = Some u \<longrightarrow> gv_refusal u = Some RfValidationRegression \<or> gv_repairability u = None"
    by (auto simp: validation_refusal_def gateValidationRefusal_def refused_def regression_refusal_def
        split: option.splits if_splits prod.splits)
  have auth: "\<forall>x \<in> set (authority_refusals env mg g sid doc). \<forall>u. x = Some u \<longrightarrow> gv_repairability u = None"
    by (auto simp: authority_refusals_def refused_def Let_def)
  have find: "\<forall>x \<in> set (finding_refusals ?w). \<forall>u. x = Some u \<longrightarrow> gv_repairability u = None"
    using plain by (auto simp: finding_refusals_def refused_def Let_def)
  have ev: "\<forall>x \<in> set (evidence_refusals g sid ?w). \<forall>u. x = Some u \<longrightarrow> gv_repairability u = None"
    using plain by (auto simp: evidence_refusals_def refused_def)
  from first_some_member [OF assms(1) [unfolded early_refusal_def]]
  have "validation_refusal env g sid r ?w = Some v
      \<or> (\<exists>x \<in> set (authority_refusals env mg g sid doc) \<union> set (finding_refusals ?w) \<union> set (evidence_refusals g sid ?w). x = Some v)"
    by (auto simp del: Un_iff)
  with val auth find ev assms(3) show ?thesis by blast
qed

lemma passing_document_refused:
  assumes "pass_of (dc_value doc) = Some True" and "v = evaluate_document env mg g sid contract r doc"
    and "gv_refusal v \<noteq> Some RfValidationRegression" and "gv_refusal v \<noteq> None"
  shows "gv_repairability v = None \<and> gv_pass v = Some False"
proof (cases "early_refusal env mg g sid r doc")
  case (Some u)
  then show ?thesis using early_refusal_plain early_refusal_fails assms
    by (simp add: evaluate_document_def dflt_def)
next
  case None
  then have "v = contract_verdict g sid contract (dc_value doc)" using assms(2) by (simp add: evaluate_document_def)
  then show ?thesis using assms(4) passing_document_plain(1) [OF assms(1)]
    by (auto simp: contract_verdict_def study_verdict_def authored_verdict_def split: if_splits option.splits prod.splits)
qed

lemma rejection_of_refusal:
  assumes "refusal_of effective = Some k" and "k \<notin> {RfValidationRegression, RfOutcomeAbsent}"
    and "\<not> declared Repairable effective" and "passes_as True authored"
  shows "rejection_of authored effective \<in> {IrreparableRejection, EngineRejection}"
  using assms by (auto simp: rejection_of_def passes_as_def Let_def)

text \<open>C14. What an engine refusal sends back to work.  When the engine refuses a verdict its author
  passed, the stages it dispatches are determined by the reason alone: a measured regression goes
  to the stages whose retry declaration names the gate; an absent outcome goes to the ordinary
  upstream owners of an outcome slot in research mode, and to the declared retry stages otherwise;
  and every other refusal - an unresolved validation, an unauthentic receipt, missing products,
  open findings, an invalid outcome, a contradiction, unanswered criteria, missing numeric
  evidence, a score contract - sends nothing back to work.\<close>

theorem engine_refusal_routes_exact:
  assumes "readGateVerdictDocument env g sid = Some doc" and "pass_of (dc_value doc) = Some True"
    and "evaluateGateVerdict env mg g sid contract r = Some v" and "gv_refusal v = Some k"
  shows "findGateRecoveryStages mg stages [sid] research
      [(sid, classifyGateRecoveryFact sid (Some (projectGateVerdict (dc_value doc))) (Some v))]
    = map snd (amap_of sc_id
        (if k = RfValidationRegression \<or> k = RfOutcomeAbsent \<and> research = None
         then findAllRetryToStages stages [sid]
         else if k = RfOutcomeAbsent then filter (outcome_producer mg stages research sid) stages
         else []))"
proof (cases "k = RfValidationRegression")
  case True
  then show ?thesis using assms(4)
    by (simp add: findGateRecoveryStages_def recovery_of_def classifyGateRecoveryFact_def rejection_of_def refusal_of_def amap_of_def)
next
  case False
  have "v = evaluate_document env mg g sid contract r doc" using assms(1,3) by (simp add: evaluateGateVerdict_def)
  from passing_document_refused [OF assms(2) this] assms(4) False
  have plain: "gv_repairability v = None" by simp
  show ?thesis
  proof (cases "k = RfOutcomeAbsent")
    case True
    then have "rejection_of (Some (projectGateVerdict (dc_value doc))) (Some v) = OmittedOutcome"
      using plain assms(4) passing_document_plain(2) [OF assms(2)]
      by (simp add: rejection_of_def refusal_of_def declared_def passes_as_def)
    with True show ?thesis
      by (simp add: findGateRecoveryStages_def recovery_of_def classifyGateRecoveryFact_def amap_of_def)
  next
    case other: False
    have "rejection_of (Some (projectGateVerdict (dc_value doc))) (Some v) \<in> {IrreparableRejection, EngineRejection}"
      using rejection_of_refusal [of "Some v" k] assms(4) False other plain passing_document_plain(2) [OF assms(2)]
      by (simp add: refusal_of_def declared_def)
    with False other show ?thesis
      by (auto simp: findGateRecoveryStages_def recovery_of_def classifyGateRecoveryFact_def Let_def amap_of_def)
  qed
qed

section \<open>Reviewed authors, by reachability\<close>

definition author :: "(string \<times> stage_config) list \<Rightarrow> string \<Rightarrow> bool" where
  "author byId k = (\<exists>s. map_of byId k = Some s \<and> \<not> sc_is_gate s)"

inductive reviewed :: "(string \<times> stage_config) list \<Rightarrow> string list \<Rightarrow> string \<Rightarrow> bool"
  for byId :: "(string \<times> stage_config) list" and deps :: "string list" where
  direct: "k \<in> set deps \<Longrightarrow> author byId k \<Longrightarrow> reviewed byId deps k"
| through: "reviewed byId deps k \<Longrightarrow> d \<in> set (deps_in byId k) \<Longrightarrow> author byId d \<Longrightarrow> reviewed byId deps d"

definition self_keyed :: "(string \<times> stage_config) list \<Rightarrow> bool" where
  "self_keyed byId = (\<forall>k s. map_of byId k = Some s \<longrightarrow> sc_id s = k)"

lemma reviewed_sound:
  assumes "self_keyed byId" and "\<forall>k \<in> set seen. reviewed byId deps k" and "\<forall>k \<in> set q. author byId k \<longrightarrow> reviewed byId deps k"
  shows "\<forall>k \<in> set (reviewed_loop byId q seen). reviewed byId deps k"
  using assms
proof (induction byId q seen rule: reviewed_loop.induct)
  case (2 byId k queue seen)
  have rest: "\<forall>k \<in> set queue. author byId k \<longrightarrow> reviewed byId deps k" using 2(6) by simp
  show ?case
  proof (cases "map_of byId k")
    case None
    show ?thesis using 2(1) [OF None 2(4,5) rest] None by simp
  next
    case (Some s)
    then have id: "sc_id s = k" using 2(4) by (simp add: self_keyed_def)
    show ?thesis
    proof (cases "sc_is_gate s \<or> sc_id s \<in> set seen")
      case True
      show ?thesis using 2(2) [OF Some True 2(4,5) rest] Some True by simp
    next
      case False
      then have r: "reviewed byId deps k" using 2(6) Some by (simp add: author_def)
      have "\<forall>d \<in> set (sc_depends_on s). author byId d \<longrightarrow> reviewed byId deps d"
        using through [OF r] Some by (simp add: deps_in_def)
      then have "\<forall>k \<in> set (queue @ sc_depends_on s). author byId k \<longrightarrow> reviewed byId deps k"
        using rest unfolding set_append by blast
      moreover have "\<forall>k \<in> set (seen @ [sc_id s]). reviewed byId deps k" using 2(5) r id by simp
      ultimately have "\<forall>k \<in> set (reviewed_loop byId (queue @ sc_depends_on s) (seen @ [sc_id s])). reviewed byId deps k"
        by (intro 2(3) [OF Some False 2(4)])
      then show ?thesis using Some False by simp
    qed
  qed
qed simp

definition closed_under :: "(string \<times> stage_config) list \<Rightarrow> string set \<Rightarrow> string set \<Rightarrow> bool" where
  "closed_under byId A B = (\<forall>k \<in> A. \<forall>d \<in> set (deps_in byId k). author byId d \<longrightarrow> d \<in> B)"

lemma reviewed_complete:
  assumes "self_keyed byId" and "closed_under byId (set seen) (set seen \<union> set q)"
  shows "set seen \<subseteq> set (reviewed_loop byId q seen)
    \<and> (\<forall>k \<in> set q. author byId k \<longrightarrow> k \<in> set (reviewed_loop byId q seen))
    \<and> closed_under byId (set (reviewed_loop byId q seen)) (set (reviewed_loop byId q seen))"
  using assms
proof (induction byId q seen rule: reviewed_loop.induct)
  case (2 byId k queue seen)
  show ?case
  proof (cases "map_of byId k")
    case None
    then have na: "\<not> author byId k" by (simp add: author_def)
    then have "closed_under byId (set seen) (set seen \<union> set queue)" using 2(5) by (auto simp: closed_under_def)
    with 2(1) [OF None 2(4)] None na show ?thesis by simp
  next
    case (Some s)
    then have id: "sc_id s = k" using 2(4) by (simp add: self_keyed_def)
    show ?thesis
    proof (cases "sc_is_gate s \<or> sc_id s \<in> set seen")
      case True
      then have "\<not> author byId k \<or> k \<in> set seen" using Some id by (auto simp: author_def)
      moreover from this have "closed_under byId (set seen) (set seen \<union> set queue)" using 2(5) by (auto simp: closed_under_def)
      ultimately show ?thesis using 2(2) [OF Some True 2(4)] Some True by auto
    next
      case False
      have "closed_under byId (set (seen @ [sc_id s])) (set (seen @ [sc_id s]) \<union> set (queue @ sc_depends_on s))"
        using 2(5) id Some by (auto simp: closed_under_def deps_in_def)
      with 2(3) [OF Some False 2(4)] Some False id show ?thesis by simp
    qed
  qed
qed (simp add: closed_under_def)

lemma stage_map_self_keyed: "self_keyed (stage_map stages)"
  by (auto simp: self_keyed_def stage_map_def dest: map_of_amap_of_Some)

text \<open>The authors a gate reviews are exactly the non-gate stages reached from it along dependencies
  without passing another gate: what lies behind a gate is that gate's to review.\<close>

lemma reviewed_authors_exact:
  "k \<in> set (gateReviewedAuthorIds gate stages) \<longleftrightarrow> reviewed (stage_map stages) (sc_depends_on gate) k"
proof
  assume "k \<in> set (gateReviewedAuthorIds gate stages)"
  with reviewed_sound [OF stage_map_self_keyed [of stages], where seen = "[]" and deps = "sc_depends_on gate"
      and q = "sc_depends_on gate"]
  show "reviewed (stage_map stages) (sc_depends_on gate) k"
    by (auto simp: gateReviewedAuthorIds_def intro: direct)
next
  assume "reviewed (stage_map stages) (sc_depends_on gate) k"
  then show "k \<in> set (gateReviewedAuthorIds gate stages)"
    using reviewed_complete [OF stage_map_self_keyed [of stages], where seen = "[]" and q = "sc_depends_on gate"]
    by induction (auto simp: gateReviewedAuthorIds_def closed_under_def)
qed

section \<open>Published settlements\<close>

definition truthful :: "gate_env \<Rightarrow> (string \<Rightarrow> string \<Rightarrow> bool) \<Rightarrow> gate_run \<Rightarrow> gate_contract option \<Rightarrow> settlement_input \<Rightarrow>
    stage_config list \<Rightarrow> settlement_projection \<Rightarrow> bool" where
  "truthful env mg g contract inp stages p =
     (\<exists>gate owners v m paths.
        gate \<in> set stages \<and> sc_is_gate gate \<and> sp_gate p = sc_id gate \<and> completed_stage g (sc_id gate)
        \<and> passes_as True (readGateEvaluation env mg g (sc_id gate) contract True)
        \<and> map_of (gr_verdicts g) (sc_id gate) = Some v \<and> map_of (si_metrics inp) (sc_id gate) = Some m
        \<and> sp_digest p = ge_sha env (fst v @ fst m)
        \<and> own_field (snd m) ''pass'' = JBool (sp_succeeded p)
        \<and> (sp_decision p = SettledShip \<longleftrightarrow> sp_succeeded p)
        \<and> sp_status p = run_status_name (if sp_succeeded p then RShipped else RCeilingHit)
        \<and> si_admission inp = Some (True, owners) \<and> map_of owners (sp_path p) = Some (sp_owner p)
        \<and> map_of (dflt (si_terminalStates inp) []) (sp_status p) = Some (sp_path p # paths)
        \<and> sp_owner p \<in> sc_id ` set stages)"

lemma find_any: "find (\<lambda>_. True) ps = Some p \<longleftrightarrow> (\<exists>qs. ps = p # qs)"
  by (cases ps) auto

lemma settlement_truthful:
  assumes "settlement_of_gate env mg g contract inp stages owners gate = Some p" and "gate \<in> set stages"
    and "si_admission inp = Some (True, owners)"
  shows "truthful env mg g contract inp stages p"
proof -
  obtain v m where vm: "map_of (gr_verdicts g) (sc_id gate) = Some v" "map_of (si_metrics inp) (sc_id gate) = Some m"
    and pr: "project_settlement env inp stages owners (sc_id gate) v m = Some p"
    and ok: "sc_is_gate gate" "completed_stage g (sc_id gate)" "passes_as True (readGateEvaluation env mg g (sc_id gate) contract True)"
    using assms(1) by (auto simp: settlement_of_gate_def split: if_splits option.splits)
  let ?o = "dflt (trimmed_text (own_field (snd m) ''outcome'')) []"
  obtain dec suc path own where d: "decision_alias ?o = Some dec" "own_field (snd m) ''pass'' = JBool suc" "(dec = SettledShip) = suc"
    "Option.bind (map_of (dflt (si_terminalStates inp) []) ?o) (\<lambda>ps. find (\<lambda>_. True) ps) = Some path"
    "map_of owners path = Some own" "list_ex (\<lambda>s. sc_id s = own) stages"
    and p: "p = \<lparr>sp_decision = dec, sp_status = ?o, sp_path = path, sp_owner = own, sp_gate = sc_id gate, sp_succeeded = suc,
        sp_digest = ge_sha env (fst v @ fst m)\<rparr>"
    using pr by (auto simp: project_settlement_def Let_def split: if_splits option.splits json.splits)
  have "?o = run_status_name (if suc then RShipped else RCeilingHit)"
    using d(1,3) by (auto simp: decision_alias_def split: if_splits)
  moreover obtain ps where "map_of (dflt (si_terminalStates inp) []) ?o = Some (path # ps)"
    using d(4) by (auto simp: find_any split: bind_splits)
  moreover have "own \<in> sc_id ` set stages" using d(6) by (auto simp: list_ex_iff)
  ultimately show ?thesis
    unfolding truthful_def p by (intro exI [of _ gate] exI [of _ owners] exI [of _ v] exI [of _ m] exI [of _ ps])
       (use assms(2,3) vm ok d in simp)
qed

text \<open>C15. A published research settlement is truthful: every gate of the plan that is not in a skipped
  branch passes, the publishing gate is completed and passing, its metric file says whether the campaign
  succeeded, the published decision and status say the same, the digest binds the two files, and the
  path is the first one declared for that status, owned by the admitted owner, a stage of the plan.\<close>

theorem published_settlement_truthful:
  assumes "recoverVerifiedResearchSettlement env mg g archived contract inp stages = Some p"
  shows "truthful env mg g contract inp stages p
    \<and> (\<forall>s \<in> set (uniqueGateStages stages). isStageInSkippedBranch (sc_id s) (stage_map stages) (statuses g)
         \<or> passes_as True (readGateEvaluation env mg g (sc_id s) contract True))"
proof -
  have pass: "rt_allPass (collectGateRuntimeFacts env mg g archived contract stages)"
    using assms by (auto simp: recoverVerifiedResearchSettlement_def split: if_splits)
  obtain owners where o: "si_admission inp = Some (True, owners)"
    and f: "first_some (map (settlement_of_gate env mg g contract inp stages owners) (rev stages)) = Some p"
    using assms by (auto simp: recoverVerifiedResearchSettlement_def split: if_splits option.splits prod.splits bool.splits)
  from first_some_member [OF f] obtain gate where "gate \<in> set stages"
    "settlement_of_gate env mg g contract inp stages owners gate = Some p" by auto
  with settlement_truthful o have "truthful env mg g contract inp stages p" by blast
  with pass show ?thesis unfolding all_gates_pass by blast
qed

section \<open>Work behind a gate\<close>

definition gate_reader ::
  "gate_env \<Rightarrow> (string \<Rightarrow> string \<Rightarrow> bool) \<Rightarrow> gate_run \<Rightarrow> gate_contract option \<Rightarrow> string \<Rightarrow> bool \<Rightarrow> bool option" where
  \<comment> \<open>the gate service the frontier is created with\<close>
  "gate_reader env mg g contract d gate = Option.bind (readGateEvaluation env mg g d contract gate) gv_pass"

definition has_verdict_file :: "gate_run \<Rightarrow> string \<Rightarrow> bool" where
  "has_verdict_file g d = (map_of (gr_verdicts g) d \<noteq> None)"

lemma map_of_statuses: "map_of (statuses g) k = map_option gs_status (map_of (gr_ledger g) k)"
proof -
  have "map_of (map (\<lambda>(k, gs). (k, gs_status gs)) xs) k = map_option gs_status (map_of xs k)" for xs
    by (induction xs) auto
  then show ?thesis by (simp add: statuses_def)
qed

lemma read_pass_cases:
  assumes "map_of (gr_ledger g) d = Some gs" and "s_status (gs_status gs) = SComplete"
    and "Option.bind (readGateEvaluation env mg g d contract True) gv_pass = Some True"
  shows "(\<exists>sg. gs_gate gs = Some sg \<and> gv_pass (sg_verdict sg) = Some True)
    \<or> (\<exists>v. gs_accepted gs = Some v \<and> gv_pass v = Some True)
    \<or> (\<exists>v. readGateVerdictDocument env g d = None \<and> map_of (gr_archived g) d = Some v \<and> gv_pass v = Some True)
    \<or> (\<exists>doc. readGateVerdictDocument env g d = Some doc \<and> earned env mg g d contract (dc_value doc))"
proof -
  from assms consider (settled) sg where "gs_gate gs = Some sg" "gv_pass (sg_verdict sg) = Some True"
    | (accepted) v where "gs_accepted gs = Some v" "gv_pass v = Some True"
    | (archived) v where "readGateVerdictDocument env g d = None" "map_of (gr_archived g) d = Some v" "gv_pass v = Some True"
    | (live) v where "evaluateGateVerdict env mg g d contract True = Some v" "gv_pass v = Some True"
    by (auto simp: readGateEvaluation_def Let_def split: if_splits option.splits bind_splits)
  then show ?thesis
  proof cases
    case live
    then show ?thesis using gate_earned by blast
  qed blast+
qed

text \<open>C13. Work behind a gate starts only on an accepted gate: when the frontier, reading gates through
  the engine's evaluator, finds a stage ready, every gate it depends on has completed without a
  continuation, is not one the stage repairs, and its pass was settled in the ledger, carried over from
  an accepted execution or archived conclusion, or is earned by its live verdict document.\<close>

theorem ready_work_is_gated:
  assumes "s \<in> set (findAllReady (has_verdict_file g) (gate_reader env mg g contract) stages (statuses g))"
    and "d \<in> set (sc_depends_on s)" and "map_of (stage_map stages) d = Some dep" and "sc_is_gate dep"
  shows "\<exists>gs. map_of (gr_ledger g) d = Some gs \<and> s_status (gs_status gs) = SComplete \<and> s_continuation (gs_status gs) = None
    \<and> d \<notin> set (dflt (sc_retry_to s) [])
    \<and> ((\<exists>sg. gs_gate gs = Some sg \<and> gv_pass (sg_verdict sg) = Some True)
      \<or> (\<exists>v. gs_accepted gs = Some v \<and> gv_pass v = Some True)
      \<or> (\<exists>v. readGateVerdictDocument env g d = None \<and> map_of (gr_archived g) d = Some v \<and> gv_pass v = Some True)
      \<or> (\<exists>doc. readGateVerdictDocument env g d = Some doc \<and> earned env mg g d contract (dc_value doc)))"
proof -
  have ready: "dep_ready (has_verdict_file g) (gate_reader env mg g contract) (stage_map stages) (statuses g) s d"
    using assms(1,2) by (auto simp: findAllReady_def list_all_iff split: option.splits)
  then obtain gs where gs: "map_of (gr_ledger g) d = Some gs" "s_continuation (gs_status gs) = None"
    "isSatisfiedStageDependencyStatus (s_status (gs_status gs))"
    and v: "gate_reader env mg g contract d True = Some True" "d \<notin> set (dflt (sc_retry_to s) [])"
    using assms(3,4) by (auto simp: dep_ready_def map_of_statuses Let_def split: option.splits if_splits)
  then have c: "s_status (gs_status gs) = SComplete"
    by (cases "s_status (gs_status gs)") (simp_all add: isSatisfiedStageDependencyStatus_def satisfied_stage_dependency_statuses_def)
  from read_pass_cases [OF gs(1) c v(1) [unfolded gate_reader_def]] gs c v(2) show ?thesis by blast
qed

section \<open>A rejected and a settled gate\<close>

definition recovery_plan :: "stage_config list" where
  "recovery_plan = [plain_stage ''work'' [], (plain_stage ''gate'' [''work''])\<lparr>sc_is_gate := True\<rparr>,
     (plain_stage ''fix'' [''gate''])\<lparr>sc_retry_to := Some [''gate'']\<rparr>]"

definition gate_with :: "(string \<times> json) list \<Rightarrow> gate_run" where
  "gate_with v = demo_gate_run\<lparr>gr_verdicts := [(''gate'', ''bytes'', JObj v)], gr_refs := []\<rparr>"

theorem engine_refusal_routes_exact_witness:
  "findGateRecoveryStages (\<lambda>_ _. False) recovery_plan [''gate''] None
     [(''gate'', classifyGateRecoveryFact ''gate''
        (Some (projectGateVerdict (JObj [(''pass'', JBool True), (''repair_required'', JBool True)])))
        (Some (refused RfContradiction RepairRequiredWithPass)))] = []"
proof -
  let ?g = "gate_with [(''pass'', JBool True), (''repair_required'', JBool True)]"
  let ?doc = "\<lparr>dc_value = JObj [(''pass'', JBool True), (''repair_required'', JBool True)], dc_digest = ''bytes''\<rparr>"
  have d: "readGateVerdictDocument demo_gate_env ?g ''gate'' = Some ?doc" by code_simp
  have v: "evaluateGateVerdict demo_gate_env (\<lambda>_ _. False) ?g ''gate'' None True = Some (refused RfContradiction RepairRequiredWithPass)"
    by code_simp
  have p: "pass_of (dc_value ?doc) = Some True" by code_simp
  from engine_refusal_routes_exact [OF d p v, where k = RfContradiction and stages = recovery_plan and research = None]
  show ?thesis by (simp add: amap_of_def)
qed

definition won :: "(string \<times> json) list" where
  "won = [(''pass'', JBool True), (''phaseComplete'', JBool True), (''outcome'', JStr ''shipped'')]"

definition won_input :: settlement_input where
  "won_input = \<lparr>si_research = True, si_terminalStates = Some [(''shipped'', [''docs/ship.md''])],
     si_admission = Some (True, [(''docs/ship.md'', ''work'')]), si_metrics = [(''gate'', ''m'', JObj won)]\<rparr>"

lemma won_published:
  "recoverVerifiedResearchSettlement demo_gate_env (\<lambda>_ _. False) (gate_with won) [] None won_input recovery_plan =
     Some \<lparr>sp_decision = SettledShip, sp_status = ''shipped'', sp_path = ''docs/ship.md'', sp_owner = ''work'',
       sp_gate = ''gate'', sp_succeeded = True, sp_digest = ''bytesm''\<rparr>"
  by code_simp

theorem published_settlement_truthful_witness:
  "truthful demo_gate_env (\<lambda>_ _. False) (gate_with won) None won_input recovery_plan
     \<lparr>sp_decision = SettledShip, sp_status = ''shipped'', sp_path = ''docs/ship.md'', sp_owner = ''work'',
       sp_gate = ''gate'', sp_succeeded = True, sp_digest = ''bytesm''\<rparr>"
  using published_settlement_truthful [OF won_published] by blast

theorem ready_work_is_gated_witness:
  "\<exists>gs. map_of (gr_ledger demo_gate_run) ''gate'' = Some gs \<and> s_status (gs_status gs) = SComplete"
proof -
  let ?g = "demo_gate_run\<lparr>gr_ledger := gr_ledger demo_gate_run @
      [(''next'', \<lparr>gs_status = bare_status SPending 0, gs_gate = None, gs_accepted = None\<rparr>)]\<rparr>"
  let ?stages = "[(plain_stage ''gate'' [])\<lparr>sc_is_gate := True\<rparr>, plain_stage ''next'' [''gate'']]"
  have "plain_stage ''next'' [''gate''] \<in> set (findAllReady (has_verdict_file ?g)
      (gate_reader demo_gate_env (\<lambda>_ _. False) ?g (Some demo_contract)) ?stages (statuses ?g))" by code_simp
  moreover have "''gate'' \<in> set (sc_depends_on (plain_stage ''next'' [''gate'']))" by code_simp
  moreover have "map_of (stage_map ?stages) ''gate'' = Some ((plain_stage ''gate'' [])\<lparr>sc_is_gate := True\<rparr>)" by code_simp
  moreover have "sc_is_gate ((plain_stage ''gate'' [])\<lparr>sc_is_gate := True\<rparr>)" by simp
  ultimately have "\<exists>gs. map_of (gr_ledger ?g) ''gate'' = Some gs \<and> s_status (gs_status gs) = SComplete"
    using ready_work_is_gated by blast
  then show ?thesis by (simp add: demo_gate_run_def)
qed

end
