(* ===== verification/Json_Text.thy ===== *)
theory Json_Text
  imports Condition
begin

text \<open>
  JSON as text: \<open>JSON.stringify\<close> without indentation and \<open>JSON.parse\<close>, for the files whose bytes the
  program inspects (the rows of the task registry, which may be torn).  A text is a sequence of
  8-bit code units; an escape beyond them is outside the model, and \<open>stringify\<close> writes none.  The
  text of a number that is no integer below \<open>10 ^ 21\<close> in magnitude is the argument \<open>other\<close>; keys that
  JavaScript would reorder (array indexes) do not occur in the records of the program.

  The lemmas show that parsing inverts printing and that a record's text is self-delimiting: no
  proper prefix of it parses.
\<close>

section \<open>Printing\<close>

definition hex_digit :: "nat \<Rightarrow> char" where
  "hex_digit n = ''0123456789abcdef'' ! n"

definition escape_char :: "char \<Rightarrow> string" where
  "escape_char c =
     (if c = CHR 0x22 then [CHR 0x5C, CHR 0x22] else if c = CHR 0x5C then [CHR 0x5C, CHR 0x5C]
      else if c = CHR 0x08 then [CHR 0x5C, CHR ''b''] else if c = CHR 0x0C then [CHR 0x5C, CHR ''f'']
      else if c = CHR 0x0A then [CHR 0x5C, CHR ''n''] else if c = CHR 0x0D then [CHR 0x5C, CHR ''r'']
      else if c = CHR 0x09 then [CHR 0x5C, CHR ''t'']
      else if (of_char c :: nat) < 32
      then CHR 0x5C # ''u00'' @ [hex_digit (of_char c div 16), hex_digit (of_char c mod 16)]
      else [c])"

definition quoted :: "string \<Rightarrow> string" where
  "quoted s = CHR 0x22 # concat (map escape_char s) @ [CHR 0x22]"

definition safe_number :: "rat \<Rightarrow> bool" where
  \<comment> \<open>an integer JavaScript prints in plain decimal notation\<close>
  "safe_number r = (r = of_int \<lfloor>r\<rfloor> \<and> \<bar>r\<bar> < 10 ^ 21)"

definition number_text :: "(rat \<Rightarrow> string) \<Rightarrow> rat \<Rightarrow> string" where
  "number_text other r =
     (if safe_number r then (if r < 0 then CHR ''-'' # dec (nat (- \<lfloor>r\<rfloor>)) else dec (nat \<lfloor>r\<rfloor>)) else other r)"

fun json_text :: "(rat \<Rightarrow> string) \<Rightarrow> json \<Rightarrow> string"
  and items_text :: "(rat \<Rightarrow> string) \<Rightarrow> json list \<Rightarrow> string list"
  and members_text :: "(rat \<Rightarrow> string) \<Rightarrow> (string \<times> json) list \<Rightarrow> string list" where
  "json_text other JUndef = ''null''"
| "json_text other JNull = ''null''"
| "json_text other (JBool b) = (if b then ''true'' else ''false'')"
| "json_text other (JNum r) = number_text other r"
| "json_text other (JStr s) = quoted s"
| "json_text other (JArr vs) = CHR ''['' # join_with '','' (items_text other vs) @ '']''"
| "json_text other (JObj m) = CHR ''{'' # join_with '','' (members_text other m) @ ''}''"
| "items_text other [] = []"
| "items_text other (v # vs) = json_text other v # items_text other vs"
| "members_text other [] = []"
| "members_text other ((k, v) # m) =
     (if v = JUndef then members_text other m else (quoted k @ '':'' @ json_text other v) # members_text other m)"

section \<open>Parsing\<close>

definition skip_ws :: "string \<Rightarrow> string" where
  "skip_ws s = dropWhile (\<lambda>c. c \<in> {CHR '' '', CHR 0x09, CHR 0x0A, CHR 0x0D}) s"

definition simple_escape :: "char \<Rightarrow> char option" where
  "simple_escape e =
     map_of [(CHR 0x22, CHR 0x22), (CHR 0x5C, CHR 0x5C), (CHR ''/'', CHR ''/''), (CHR ''b'', CHR 0x08),
       (CHR ''f'', CHR 0x0C), (CHR ''n'', CHR 0x0A), (CHR ''r'', CHR 0x0D), (CHR ''t'', CHR 0x09)] e"

definition hex_code :: "string \<Rightarrow> nat option" where
  "hex_code ds = (if list_all (\<lambda>d. digit_value d < 16) ds \<and> digits_value 16 ds < 256 then Some (digits_value 16 ds) else None)"

definition push :: "char \<Rightarrow> (string \<times> string) option \<Rightarrow> (string \<times> string) option" where
  "push c r = map_option (\<lambda>(x, s). (c # x, s)) r"

fun p_string :: "string \<Rightarrow> (string \<times> string) option" where
  \<comment> \<open>the characters up to the closing quote, and the rest\<close>
  "p_string [] = None"
| "p_string (c # s) =
     (if c = CHR 0x22 then Some ([], s)
      else if c = CHR 0x5C then
        (case s of
           [] \<Rightarrow> None
         | e # s' \<Rightarrow>
             if e = CHR ''u'' then
               (case s' of
                  h1 # h2 # h3 # h4 # s'' \<Rightarrow>
                    (case hex_code [h1, h2, h3, h4] of None \<Rightarrow> None | Some n \<Rightarrow> push (char_of n) (p_string s''))
                | _ \<Rightarrow> None)
             else (case simple_escape e of None \<Rightarrow> None | Some x \<Rightarrow> push x (p_string s')))
      else if (of_char c :: nat) < 32 then None
      else push c (p_string s))"

definition p_digits :: "string \<Rightarrow> (string \<times> string) option" where
  \<comment> \<open>at least one digit\<close>
  "p_digits s = (let ds = takeWhile is_digit s in if ds = [] then None else Some (ds, dropWhile is_digit s))"

definition p_fraction :: "string \<Rightarrow> (string \<times> string) option" where
  "p_fraction s = (case s of c # r \<Rightarrow> if c = CHR ''.'' then p_digits r else Some ([], s) | [] \<Rightarrow> Some ([], []))"

definition p_exponent :: "string \<Rightarrow> (int \<times> string) option" where
  "p_exponent s =
     (case s of
        [] \<Rightarrow> Some (0, [])
      | c # r \<Rightarrow>
          if c \<noteq> CHR ''e'' \<and> c \<noteq> CHR ''E'' then Some (0, s)
          else (case r of
                  [] \<Rightarrow> None
                | x # r' \<Rightarrow>
                    if x = CHR ''-'' then map_option (\<lambda>(ds, t). (- int (digits_value 10 ds), t)) (p_digits r')
                    else map_option (\<lambda>(ds, t). (int (digits_value 10 ds), t)) (p_digits (if x = CHR ''+'' then r' else r))))"

definition p_unsigned :: "string \<Rightarrow> (rat \<times> string) option" where
  "p_unsigned s =
     (case p_digits s of
        None \<Rightarrow> None
      | Some (ds, _) \<Rightarrow>
          let whole = (if hd ds = CHR ''0'' then ''0'' else ds)
          in (case p_fraction (drop (length whole) s) of
                None \<Rightarrow> None
              | Some (other, r) \<Rightarrow>
                  (case p_exponent r of
                     None \<Rightarrow> None
                   | Some (e, r') \<Rightarrow>
                       Some (of_nat (digits_value 10 (whole @ other)) * pow10 (e - int (length other)), r'))))"

definition p_number :: "string \<Rightarrow> (json \<times> string) option" where
  "p_number s =
     (case s of
        [] \<Rightarrow> None
      | c # r \<Rightarrow> if c = CHR ''-'' then map_option (\<lambda>(q, t). (JNum (- q), t)) (p_unsigned r)
                 else map_option (\<lambda>(q, t). (JNum q, t)) (p_unsigned s))"

definition p_word :: "string \<Rightarrow> json \<Rightarrow> string \<Rightarrow> (json \<times> string) option" where
  "p_word w v s = (if starts_with w s then Some (v, drop (length w) s) else None)"

fun p_value :: "nat \<Rightarrow> string \<Rightarrow> (json \<times> string) option"
  and p_items :: "nat \<Rightarrow> json list \<Rightarrow> string \<Rightarrow> (json \<times> string) option"
  and p_members :: "nat \<Rightarrow> (string \<times> json) list \<Rightarrow> string \<Rightarrow> (json \<times> string) option" where
  "p_value 0 s = None"
| "p_value (Suc n) s =
     (case skip_ws s of
        [] \<Rightarrow> None
      | c # r \<Rightarrow>
          if c = CHR 0x22 then map_option (\<lambda>(x, t). (JStr x, t)) (p_string r)
          else if c = CHR ''['' then
            (case skip_ws r of d # t \<Rightarrow> if d = CHR '']'' then Some (JArr [], t) else p_items n [] r | [] \<Rightarrow> None)
          else if c = CHR ''{'' then
            (case skip_ws r of d # t \<Rightarrow> if d = CHR ''}'' then Some (JObj [], t) else p_members n [] r | [] \<Rightarrow> None)
          else if c = CHR ''t'' then p_word ''true'' (JBool True) (c # r)
          else if c = CHR ''f'' then p_word ''false'' (JBool False) (c # r)
          else if c = CHR ''n'' then p_word ''null'' JNull (c # r)
          else p_number (c # r))"
| "p_items 0 acc s = None"
| "p_items (Suc n) acc s =
     (case p_value n s of
        None \<Rightarrow> None
      | Some (v, r) \<Rightarrow>
          (case skip_ws r of
             [] \<Rightarrow> None
           | c # t \<Rightarrow> if c = CHR '','' then p_items n (acc @ [v]) t
                      else if c = CHR '']'' then Some (JArr (acc @ [v]), t) else None))"
| "p_members 0 acc s = None"
| "p_members (Suc n) acc s =
     (case skip_ws s of
        [] \<Rightarrow> None
      | q # r \<Rightarrow>
          if q \<noteq> CHR 0x22 then None
          else (case p_string r of
             None \<Rightarrow> None
           | Some (k, r1) \<Rightarrow>
               (case skip_ws r1 of
                  [] \<Rightarrow> None
                | col # r2 \<Rightarrow>
                    if col \<noteq> CHR '':'' then None
                    else (case p_value n r2 of
                       None \<Rightarrow> None
                     | Some (v, r3) \<Rightarrow>
                         (case skip_ws r3 of
                            [] \<Rightarrow> None
                          | c # t \<Rightarrow> if c = CHR '','' then p_members n (amap_set k v acc) t
                                     else if c = CHR ''}'' then Some (JObj (amap_set k v acc), t) else None)))))"

definition json_parse :: "string \<Rightarrow> json option" where
  "json_parse s =
     (case p_value (Suc (length s)) s of
        Some (v, r) \<Rightarrow> if skip_ws r = [] then Some v else None
      | None \<Rightarrow> None)"

lemma parse_example:
  "json_parse '' {\"a\" : [1, -2.5e1, true], \"b\": {\"c\":null}} '' =
     Some (JObj [(''a'', JArr [JNum 1, JNum (- 25), JBool True]), (''b'', JObj [(''c'', JNull)])])"
  by code_simp

section \<open>Parsing inverts printing\<close>

lemma push_iff [simp]: "push c r = Some (x, t) \<longleftrightarrow> (\<exists>y. x = c # y \<and> r = Some (y, t))"
  by (auto simp: push_def)

lemma hex_digit_value: "n < 16 \<Longrightarrow> digit_value (hex_digit n) = n"
proof -
  have "list_all (\<lambda>n. digit_value (hex_digit n) = n) [0..<16]" by code_simp
  then show "n < 16 \<Longrightarrow> digit_value (hex_digit n) = n" by (auto simp: list_all_iff)
qed

lemma hex_code_escape: "n < 32 \<Longrightarrow> hex_code [CHR ''0'', CHR ''0'', hex_digit (n div 16), hex_digit (n mod 16)] = Some n"
proof -
  assume n: "n < 32"
  have z: "digit_value (CHR ''0'') = 0" by code_simp
  have d: "n div 16 < 16" "n mod 16 < 16" using n by auto
  have "digits_value 16 [CHR ''0'', CHR ''0'', hex_digit (n div 16), hex_digit (n mod 16)] = n"
    using n by (simp add: digits_value_def z hex_digit_value)
  then show ?thesis using n d by (simp add: hex_code_def z hex_digit_value)
qed

lemma p_string_escape: "p_string (escape_char c @ r) = push c (p_string r)"
proof -
  consider "c \<in> {CHR 0x22, CHR 0x5C, CHR 0x08, CHR 0x0C, CHR 0x0A, CHR 0x0D, CHR 0x09}"
    | "c \<notin> {CHR 0x22, CHR 0x5C, CHR 0x08, CHR 0x0C, CHR 0x0A, CHR 0x0D, CHR 0x09}" "(of_char c :: nat) < 32"
    | "c \<notin> {CHR 0x22, CHR 0x5C}" "\<not> (of_char c :: nat) < 32" by blast
  then show ?thesis
  proof cases
    case 1
    then show ?thesis by (auto simp: escape_char_def simple_escape_def)
  next
    case 2
    then show ?thesis using hex_code_escape [OF 2(2)] by (simp add: escape_char_def)
  next
    case 3
    then have "c \<notin> {CHR 0x08, CHR 0x0C, CHR 0x0A, CHR 0x0D, CHR 0x09}" by auto
    with 3 show ?thesis by (simp add: escape_char_def)
  qed
qed

lemma p_string_quoted: "p_string (concat (map escape_char s) @ CHR 0x22 # rest) = Some (s, rest)"
  by (induction s) (simp_all add: p_string_escape)

lemma is_dec_digit: "is_digit (dec_digit n)" and dec_digit_value: "digit_value (dec_digit n) = n mod 10"
proof -
  have a: "list_all (\<lambda>n. is_digit (dec_digit n) \<and> digit_value (dec_digit n) = n) [0..<10]" by code_simp
  have m: "dec_digit (n mod 10) = dec_digit n" by (simp add: dec_digit_def)
  have "n mod 10 \<in> set [0..<10]" by simp
  with a have "is_digit (dec_digit (n mod 10)) \<and> digit_value (dec_digit (n mod 10)) = n mod 10"
    unfolding list_all_iff by blast
  then show "is_digit (dec_digit n)" "digit_value (dec_digit n) = n mod 10" by (simp_all add: m)
qed

lemma dec_digits: "list_all is_digit (dec n)" "dec n \<noteq> []"
proof (induction n rule: dec.induct)
  case (1 n)
  { case 1 then show ?case using "1.IH" by (subst dec.simps) (auto simp: is_dec_digit) }
  { case 2 then show ?case by (subst dec.simps) simp }
qed

lemma digits_value_dec: "digits_value 10 (dec n) = n"
proof (induction n rule: dec.induct)
  case (1 n)
  then show ?case by (subst dec.simps) (auto simp: digits_value_def dec_digit_value)
qed

lemma dec_leading_zero: "hd (dec n) = CHR ''0'' \<Longrightarrow> n = 0"
proof (induction n rule: dec.induct)
  case (1 n)
  show ?case
  proof (cases "n < 10")
    case True
    then have "digit_value (dec_digit n) = n" by (simp add: dec_digit_value)
    moreover have "dec_digit n = CHR ''0''" using 1(2) True by (simp add: dec.simps [of n])
    moreover have "digit_value (CHR ''0'') = 0" by code_simp
    ultimately show ?thesis by simp
  next
    case False
    then have "hd (dec n) = hd (dec (n div 10))" by (subst dec.simps) (simp add: dec_digits)
    with 1 False have "n div 10 = 0" by simp
    with False show ?thesis by simp
  qed
qed

definition delim :: "string \<Rightarrow> bool" where
  \<comment> \<open>no number continues here\<close>
  "delim s = (case s of [] \<Rightarrow> True | c # _ \<Rightarrow> \<not> is_digit c \<and> c \<notin> {CHR ''.'', CHR ''e'', CHR ''E''})"

lemma p_digits_dec: "delim rest \<Longrightarrow> p_digits (dec n @ rest) = Some (dec n, rest)"
proof -
  assume d: "delim rest"
  have a: "\<forall>c \<in> set (dec n). is_digit c" using dec_digits(1) by (simp add: list_all_iff)
  have "takeWhile is_digit rest = []" "dropWhile is_digit rest = rest"
    using d by (auto simp: delim_def split: list.splits)
  then show ?thesis using a dec_digits(2) by (simp add: p_digits_def Let_def takeWhile_append2 dropWhile_append2)
qed

lemma p_unsigned_dec: "delim rest \<Longrightarrow> p_unsigned (dec n @ rest) = Some (of_nat n, rest)"
proof -
  assume d: "delim rest"
  have f: "p_fraction rest = Some ([], rest)" using d by (auto simp: p_fraction_def delim_def split: list.splits)
  have e: "p_exponent rest = Some (0, rest)" using d by (auto simp: p_exponent_def delim_def split: list.splits)
  have z: "dec 0 = ''0''" by code_simp
  have w: "(if hd (dec n) = CHR ''0'' then ''0'' else dec n) = dec n" using dec_leading_zero [of n] z by auto
  show ?thesis
    unfolding p_unsigned_def p_digits_dec [OF d] option.case prod.case Let_def w
    by (simp add: f e digits_value_dec pow10_def)
qed

lemma p_number_text: "safe_number q \<Longrightarrow> delim rest \<Longrightarrow> p_number (number_text other q @ rest) = Some (JNum q, rest)"
proof -
  assume s: "safe_number q" and d: "delim rest"
  show ?thesis
  proof (cases "q < 0")
    case True
    have i: "q = of_int \<lfloor>q\<rfloor>" using s by (simp add: safe_number_def)
    then have "of_nat (nat (- \<lfloor>q\<rfloor>)) = - q" using True by (simp add: of_nat_nat)
    then show ?thesis using True s p_unsigned_dec [OF d] by (simp add: number_text_def p_number_def)
  next
    case False
    have i: "q = of_int \<lfloor>q\<rfloor>" using s by (simp add: safe_number_def)
    then have v: "of_nat (nat \<lfloor>q\<rfloor>) = q" using False by (simp add: of_nat_nat)
    obtain c ds where c: "dec (nat \<lfloor>q\<rfloor>) = c # ds" using dec_digits(2) by (cases "dec (nat \<lfloor>q\<rfloor>)") auto
    have "is_digit c" using dec_digits(1) [of "nat \<lfloor>q\<rfloor>"] c by simp
    then have "c \<noteq> CHR ''-''" by (auto simp: is_digit_def)
    then show ?thesis using False s c p_unsigned_dec [OF d, of "nat \<lfloor>q\<rfloor>"] v by (simp add: number_text_def p_number_def)
  qed
qed

fun clean :: "json \<Rightarrow> bool" where
  \<comment> \<open>a value \<open>JSON.parse\<close> returns as it was printed\<close>
  "clean JUndef = False"
| "clean (JNum r) = safe_number r"
| "clean (JArr vs) = list_all clean vs"
| "clean (JObj m) = (distinct (map fst m) \<and> list_all (\<lambda>kv. clean (snd kv)) m)"
| "clean v = True"

lemma skip_ws_head: "c \<notin> {CHR '' '', CHR 0x09, CHR 0x0A, CHR 0x0D} \<Longrightarrow> skip_ws (c # s) = c # s"
  by (simp add: skip_ws_def)

lemma number_text_head: "safe_number q \<Longrightarrow> \<exists>c t. number_text other q = c # t \<and> (is_digit c \<or> c = CHR ''-'')"
proof -
  assume s: "safe_number q"
  obtain c ds where c: "dec (nat \<lfloor>q\<rfloor>) = c # ds" using dec_digits(2) by (cases "dec (nat \<lfloor>q\<rfloor>)") auto
  have "is_digit c" using dec_digits(1) [of "nat \<lfloor>q\<rfloor>"] c by simp
  with s c show ?thesis by (cases "q < 0") (simp_all add: number_text_def)
qed

lemma text_head:
  assumes "clean v"
  shows "\<exists>c t. json_text other v = c # t \<and> c \<notin> set '',]}:'' \<and> \<not> is_space c"
proof (cases v)
  case (JNum q)
  then obtain c t where c: "json_text other v = c # t" "is_digit c \<or> c = CHR ''-''"
    using assms number_text_head [of q other] by auto
  from c(2) have "c \<notin> set '',]}:'' \<and> \<not> is_space c" by (auto simp: is_digit_def is_space_def)
  with c(1) show ?thesis by blast
next
  case (JBool b)
  then show ?thesis by (cases b) (simp_all add: is_space_def)
qed (use assms in \<open>simp_all add: is_space_def quoted_def\<close>)

lemma text_skip: "clean v \<Longrightarrow> skip_ws (json_text other v @ s) = json_text other v @ s"
  using text_head [of v other] by (auto simp: skip_ws_def is_space_def)

lemma quoted_append: "quoted s @ t = CHR 0x22 # concat (map escape_char s) @ CHR 0x22 # t"
  by (simp add: quoted_def)

lemma amap_set_new: "k \<notin> set (map fst m) \<Longrightarrow> amap_set k v m = m @ [(k, v)]"
  by (induction k v m rule: amap_set.induct) auto

lemma delim_punct [simp]: "delim []" "delim (CHR '','' # s)" "delim (CHR '']'' # s)" "delim (CHR ''}'' # s)"
  by (simp_all add: delim_def is_digit_def)

lemma join_with_Cons: "join_with sep (x # ys) = x @ (if ys = [] then [] else sep @ join_with sep ys)"
  by (cases ys) simp_all

definition reads :: "(rat \<Rightarrow> string) \<Rightarrow> json \<Rightarrow> bool" where
  \<comment> \<open>the parser, given enough fuel, reads the text of the value back in front of any delimiter\<close>
  "reads other v =
     (\<forall>n rest. length (json_text other v) \<le> n \<longrightarrow> delim rest \<longrightarrow> p_value (Suc n) (json_text other v @ rest) = Some (v, rest))"

lemma items_nonempty [simp]: "items_text other vs = [] \<longleftrightarrow> vs = []"
  by (cases vs) simp_all

lemma members_clean:
  "list_all (\<lambda>kv. clean (snd kv)) ((k, v) # m) \<Longrightarrow>
     members_text other ((k, v) # m) = (quoted k @ '':'' @ json_text other v) # members_text other m"
  by (auto intro: clean.elims)

lemma p_items_text:
  assumes "list_all clean vs" and "\<forall>v \<in> set vs. reads other v" and "vs \<noteq> []"
    and "length (join_with '','' (items_text other vs)) < n"
  shows "p_items (Suc n) acc (join_with '','' (items_text other vs) @ CHR '']'' # rest) = Some (JArr (acc @ vs), rest)"
  using assms
proof (induction vs arbitrary: n acc)
  case (Cons v vs)
  let ?r = "if vs = [] then CHR '']'' # rest else CHR '','' # join_with '','' (items_text other vs) @ CHR '']'' # rest"
  have e: "join_with '','' (items_text other (v # vs)) @ CHR '']'' # rest = json_text other v @ ?r"
    by (simp add: join_with_Cons)
  have len: "length (json_text other v) < n" using Cons.prems(4) by (simp add: join_with_Cons split: if_splits)
  then obtain k where k: "n = Suc k" "length (json_text other v) \<le> k" by (cases n) auto
  have pv: "p_value n (json_text other v @ ?r) = Some (v, ?r)"
    using Cons.prems(2) k unfolding reads_def by simp
  show ?case
  proof (cases "vs = []")
    case True
    then show ?thesis unfolding e using pv by (simp add: skip_ws_head)
  next
    case False
    obtain c t where "json_text other v = c # t" using text_head [of v other] Cons.prems(1) by auto
    then have "length (join_with '','' (items_text other vs)) < k"
      using Cons.prems(4) False k(1) by (simp add: join_with_Cons)
    from Cons.IH [OF _ _ False this, of "acc @ [v]"] Cons.prems False pv show ?thesis
      unfolding e by (simp add: skip_ws_head k(1))
  qed
qed simp

lemma p_members_text:
  assumes "list_all (\<lambda>kv. clean (snd kv)) m" and "\<forall>kv \<in> set m. reads other (snd kv)" and "m \<noteq> []"
    and "length (join_with '','' (members_text other m)) < n" and "distinct (map fst (acc @ m))"
  shows "p_members (Suc n) acc (join_with '','' (members_text other m) @ CHR ''}'' # rest) = Some (JObj (acc @ m), rest)"
  using assms
proof (induction m arbitrary: n acc)
  case (Cons kv m)
  obtain key v where kv: "kv = (key, v)" by (cases kv)
  let ?r = "if m = [] then CHR ''}'' # rest else CHR '','' # join_with '','' (members_text other m) @ CHR ''}'' # rest"
  have mt: "members_text other (kv # m) = (quoted key @ '':'' @ json_text other v) # members_text other m"
    unfolding kv by (rule members_clean) (use Cons.prems(1) kv in simp)
  have nn: "members_text other m = [] \<longleftrightarrow> m = []"
    using members_clean Cons.prems(1) by (cases m) auto
  have e: "join_with '','' (members_text other (kv # m)) @ CHR ''}'' # rest
      = CHR 0x22 # concat (map escape_char key) @ CHR 0x22 # CHR '':'' # json_text other v @ ?r"
    using nn by (simp add: mt join_with_Cons quoted_def)
  have len: "length (json_text other v) < n" using Cons.prems(4) by (simp add: mt join_with_Cons split: if_splits)
  then obtain k where k: "n = Suc k" "length (json_text other v) \<le> k" by (cases n) auto
  have pv: "p_value n (json_text other v @ ?r) = Some (v, ?r)"
    using Cons.prems(2) k unfolding reads_def kv by simp
  have new: "amap_set key v acc = acc @ [(key, v)]" using Cons.prems(5) kv by (intro amap_set_new) auto
  show ?case
  proof (cases "m = []")
    case True
    then show ?thesis unfolding e using pv new kv by (simp add: skip_ws_head p_string_quoted)
  next
    case False
    have "length (join_with '','' (members_text other m)) < k"
      using Cons.prems(4) False k(1) nn by (simp add: mt join_with_Cons quoted_def)
    from Cons.IH [OF _ _ False this, of "acc @ [kv]"] Cons.prems False pv new show ?thesis
      unfolding e by (simp add: skip_ws_head p_string_quoted k(1) kv)
  qed
qed simp

lemma reads_clean: "clean v \<Longrightarrow> reads other v"
proof (induction v)
  case (JNum q)
  have "p_value (Suc n) (json_text other (JNum q) @ rest) = Some (JNum q, rest)" if "delim rest" for n rest
  proof -
    obtain c t where c: "number_text other q = c # t" "is_digit c \<or> c = CHR ''-''"
      using JNum number_text_head [of q other] by auto
    from c(2) have "c \<notin> set ''[{tfn'' \<and> c \<noteq> CHR 0x22" by (auto simp: is_digit_def)
    then have "p_value (Suc n) (json_text other (JNum q) @ rest) = p_number (number_text other q @ rest)"
      using text_skip [OF JNum, of other rest] c(1) by simp
    also have "\<dots> = Some (JNum q, rest)" using p_number_text JNum that by simp
    finally show ?thesis .
  qed
  then show ?case by (simp add: reads_def)
next
  case (JStr s)
  then show ?case by (simp add: reads_def quoted_append skip_ws_head p_string_quoted)
next
  case (JArr vs)
  have "p_value (Suc n) (json_text other (JArr vs) @ rest) = Some (JArr vs, rest)"
    if n: "length (json_text other (JArr vs)) \<le> n" for n rest
  proof (cases vs)
    case Nil
    then show ?thesis by (simp add: skip_ws_head)
  next
    case (Cons v us)
    obtain k where k: "n = Suc k" using n by (cases n) auto
    obtain c t where c: "json_text other v = c # t" "c \<noteq> CHR '']''" "\<not> is_space c"
      using text_head [of v other] JArr.prems Cons by auto
    have "p_items (Suc k) [] (join_with '','' (items_text other vs) @ CHR '']'' # rest) = Some (JArr ([] @ vs), rest)"
      by (rule p_items_text) (use JArr Cons n k in \<open>auto simp: list_all_iff\<close>)
    moreover have "skip_ws (join_with '','' (items_text other vs) @ CHR '']'' # rest)
        = c # tl (join_with '','' (items_text other vs) @ CHR '']'' # rest)"
      using c Cons by (simp add: join_with_Cons skip_ws_def is_space_def)
    ultimately show ?thesis using c(2) k by (simp add: skip_ws_head)
  qed
  then show ?case by (simp add: reads_def)
next
  case (JObj m)
  have "p_value (Suc n) (json_text other (JObj m) @ rest) = Some (JObj m, rest)"
    if n: "length (json_text other (JObj m)) \<le> n" for n rest
  proof (cases m)
    case Nil
    then show ?thesis by (simp add: skip_ws_head)
  next
    case (Cons kv us)
    obtain k where k: "n = Suc k" using n by (cases n) auto
    have mt: "members_text other m = (quoted (fst kv) @ '':'' @ json_text other (snd kv)) # members_text other us"
      unfolding Cons using members_clean [of "fst kv" "snd kv" us other] JObj.prems Cons by simp
    have ih: "\<forall>x \<in> set m. reads other (snd x)"
      using JObj.IH JObj.prems by (force simp: list_all_iff snds.simps)
    have "p_members (Suc k) [] (join_with '','' (members_text other m) @ CHR ''}'' # rest) = Some (JObj ([] @ m), rest)"
      by (rule p_members_text) (use JObj.prems Cons n k ih in auto)
    moreover have "skip_ws (join_with '','' (members_text other m) @ CHR ''}'' # rest)
        = CHR 0x22 # tl (join_with '','' (members_text other m) @ CHR ''}'' # rest)"
      unfolding mt by (simp add: join_with_Cons quoted_def skip_ws_head)
    ultimately show ?thesis using k by (simp add: skip_ws_head)
  qed
  then show ?case by (simp add: reads_def)
next
  case (JBool b)
  then show ?case by (cases b) (simp_all add: reads_def skip_ws_head p_word_def starts_with_def)
qed (simp_all add: reads_def skip_ws_head p_word_def starts_with_def)

lemma json_roundtrip:
  assumes "clean v"
  shows "json_parse (json_text other v) = Some v"
proof -
  have "p_value (Suc (length (json_text other v))) (json_text other v @ []) = Some (v, [])"
    using reads_clean [OF assms, of other] unfolding reads_def by (meson delim_punct(1) order_refl)
  then show ?thesis by (simp add: json_parse_def skip_ws_def)
qed

section \<open>A text is self-delimiting\<close>

lemma p_string_extend: "p_string s = Some (x, r) \<Longrightarrow> p_string (s @ t) = Some (x, r @ t)"
proof (induction s arbitrary: x rule: p_string.induct)
  case (2 c s)
  consider "c = CHR 0x22" | "c = CHR 0x5C" | "c \<noteq> CHR 0x22" "c \<noteq> CHR 0x5C" by blast
  then show ?case
  proof cases
    case 2
    show ?thesis
    proof (cases s)
      case (Cons e s')
      show ?thesis
      proof (cases "e = CHR ''u''")
        case True
        obtain h1 h2 h3 h4 u where s': "s' = h1 # h2 # h3 # h4 # u"
          using "2.prems" 2 Cons True by (auto split: list.splits)
        obtain k where k: "hex_code [h1, h2, h3, h4] = Some k"
          using "2.prems" 2 Cons True s' by (auto split: option.splits)
        show ?thesis using "2.prems" "2.IH"(1) [OF _ 2 Cons True s' refl refl refl k] 2 Cons True s' k by auto
      next
        case False
        then obtain y where y: "simple_escape e = Some y"
          using "2.prems" 2 Cons by (auto split: option.splits)
        show ?thesis using "2.prems" "2.IH"(2) [OF _ 2 Cons False y] 2 Cons False y by auto
      qed
    qed (use "2.prems" 2 in simp)
  next
    case 3
    show ?thesis using "2.prems" "2.IH"(3) [OF 3] 3 by (auto split: if_splits)
  qed (use "2.prems" in simp)
qed simp

lemma dropWhile_extend: "dropWhile P s \<noteq> [] \<Longrightarrow> dropWhile P (s @ t) = dropWhile P s @ t \<and> takeWhile P (s @ t) = takeWhile P s"
  by (induction s) auto

lemma skip_ws_extend: "skip_ws s = c # r \<Longrightarrow> skip_ws (s @ t) = c # r @ t"
  unfolding skip_ws_def using dropWhile_extend [of _ s t] by (metis append_Cons list.distinct(1))

lemma p_digits_extend: "p_digits s = Some (ds, r) \<Longrightarrow> r \<noteq> [] \<Longrightarrow> p_digits (s @ t) = Some (ds, r @ t)"
  using dropWhile_extend [of is_digit s t] by (auto simp: p_digits_def Let_def split: if_splits)

lemma p_fraction_extend: "p_fraction s = Some (ds, r) \<Longrightarrow> r \<noteq> [] \<Longrightarrow> p_fraction (s @ t) = Some (ds, r @ t)"
  using p_digits_extend by (auto simp: p_fraction_def split: list.splits if_splits)

lemma p_exponent_extend: "p_exponent s = Some (e, r) \<Longrightarrow> r \<noteq> [] \<Longrightarrow> p_exponent (s @ t) = Some (e, r @ t)"
proof -
  assume p: "p_exponent s = Some (e, r)" and r: "r \<noteq> []"
  show ?thesis
  proof (cases s)
    case (Cons c u)
    show ?thesis
    proof (cases u)
      case Nil
      then show ?thesis using p r Cons by (auto simp: p_exponent_def split: if_splits)
    next
      case (Cons x v)
      have x: "p_digits (if x = CHR ''+'' then v else x # v) = Some (ds, r) \<Longrightarrow>
          p_digits (if x = CHR ''+'' then v @ t else x # v @ t) = Some (ds, r @ t)" for ds
        using p_digits_extend [of "if x = CHR ''+'' then v else x # v" ds r t] r by (auto split: if_splits)
      show ?thesis using p r \<open>s = c # u\<close> Cons x p_digits_extend [of v _ r t]
        by (auto simp: p_exponent_def split: if_splits)
    qed
  qed (use p r in \<open>simp add: p_exponent_def\<close>)
qed

lemma p_exponent_rest: "p_exponent s = Some (e, r) \<Longrightarrow> r \<noteq> [] \<Longrightarrow> s \<noteq> []"
  by (auto simp: p_exponent_def)

lemma p_fraction_rest: "p_fraction s = Some (e, r) \<Longrightarrow> r \<noteq> [] \<Longrightarrow> s \<noteq> []"
  by (auto simp: p_fraction_def)

lemma p_unsigned_extend:
  assumes "p_unsigned s = Some (q, r)" and "r \<noteq> []"
  shows "p_unsigned (s @ t) = Some (q, r @ t)"
proof -
  obtain ds d where ds: "p_digits s = Some (ds, d)"
    using assms(1) by (auto simp: p_unsigned_def split: option.splits)
  let ?w = "if hd ds = CHR ''0'' then ''0'' else ds"
  obtain fr r1 where f: "p_fraction (drop (length ?w) s) = Some (fr, r1)"
    using assms(1) ds by (auto simp: p_unsigned_def Let_def split: option.splits)
  obtain e r2 where e: "p_exponent r1 = Some (e, r2)"
    using assms(1) ds f by (auto simp: p_unsigned_def Let_def split: option.splits)
  have r2: "r2 = r" "of_nat (digits_value 10 (?w @ fr)) * pow10 (e - int (length fr)) = q"
    using assms(1) ds f e unfolding p_unsigned_def ds option.case prod.case Let_def f e by simp_all
  have r1: "r1 \<noteq> []" using p_exponent_rest e r2 assms(2) by simp
  have tl: "drop (length ?w) s \<noteq> []" using p_fraction_rest [OF f r1] .
  have dd: "ds = takeWhile is_digit s" "ds \<noteq> []" "d = dropWhile is_digit s"
    using ds by (auto simp: p_digits_def Let_def split: if_splits)
  have ds': "\<exists>d'. p_digits (s @ t) = Some (if hd ds = CHR ''0'' then takeWhile is_digit (s @ t) else ds, d') \<and> hd (takeWhile is_digit (s @ t)) = hd ds"
  proof (cases "hd ds = CHR ''0''")
    case True
    have "takeWhile is_digit (s @ t) \<noteq> [] \<and> hd (takeWhile is_digit (s @ t)) = hd ds"
      using dd by (cases s) (auto split: if_splits)
    then show ?thesis using True by (simp add: p_digits_def Let_def)
  next
    case False
    then have "drop (length ds) s \<noteq> []" using tl by simp
    then have "dropWhile is_digit s \<noteq> []" using dd by (simp add: dropWhile_eq_drop)
    then show ?thesis using dropWhile_extend [of is_digit s t] dd False by (auto simp: p_digits_def Let_def)
  qed
  then obtain ds2 d2 where n: "p_digits (s @ t) = Some (ds2, d2)" "(if hd ds2 = CHR ''0'' then ''0'' else ds2) = ?w"
    by (auto split: if_splits)
  have dr: "drop (length ?w) (s @ t) = drop (length ?w) s @ t"
    using tl by simp
  show ?thesis
    unfolding p_unsigned_def n(1) option.case prod.case Let_def n(2) dr p_fraction_extend [OF f r1]
      p_exponent_extend [OF e [unfolded r2] assms(2)] using r2(2) by simp
qed

lemma p_number_extend:
  assumes "p_number s = Some (v, r)" and "r \<noteq> []"
  shows "p_number (s @ t) = Some (v, r @ t)"
proof (cases s)
  case (Cons c u)
  then show ?thesis using assms p_unsigned_extend [of u _ r t] p_unsigned_extend [of s _ r t]
    by (auto simp: p_number_def split: if_splits)
qed (use assms in \<open>simp add: p_number_def\<close>)

lemma p_number_num: "p_number s = Some (v, r) \<Longrightarrow> \<exists>q. v = JNum q"
  by (auto simp: p_number_def split: list.splits if_splits)

lemma p_word_extend: "p_word w v s = Some (x, r) \<Longrightarrow> p_word w v (s @ t) = Some (x, r @ t)"
proof -
  assume p: "p_word w v s = Some (x, r)"
  then have e: "take (length w) s = w" by (simp add: p_word_def starts_with_def split: if_splits)
  then have "length w \<le> length s" by (metis length_take min.cobounded1)
  then show ?thesis using p e by (simp add: p_word_def starts_with_def split: if_splits)
qed

definition open_number :: "json \<Rightarrow> string \<Rightarrow> bool" where
  \<comment> \<open>a number that reaches the end of the text may go on\<close>
  "open_number v r = ((\<exists>q. v = JNum q) \<and> r = [])"

lemma open_number_Cons [simp]: "\<not> open_number v (c # r)" "\<not> open_number (JStr x) r" "\<not> open_number (JArr vs) r" "\<not> open_number (JObj m) r"
  by (simp_all add: open_number_def)

lemma parser_extend:
  "(\<forall>s v r. p_value n s = Some (v, r) \<longrightarrow> \<not> open_number v r \<longrightarrow> p_value n (s @ t) = Some (v, r @ t))
   \<and> (\<forall>acc s v r. p_items n acc s = Some (v, r) \<longrightarrow> p_items n acc (s @ t) = Some (v, r @ t))
   \<and> (\<forall>acc s v r. p_members n acc s = Some (v, r) \<longrightarrow> p_members n acc (s @ t) = Some (v, r @ t))"
proof (induction n)
  case (Suc n)
  have value_ext: "p_value (Suc n) (s @ t) = Some (v, r @ t)"
    if p: "p_value (Suc n) s = Some (v, r)" and o: "\<not> open_number v r" for s v r
  proof -
    obtain c u where c: "skip_ws s = c # u" using p by (cases "skip_ws s") auto
    note ct = skip_ws_extend [OF c, of t]
    show ?thesis
    proof (cases "c \<in> set ''[{''")
      case True
      obtain d w where d: "skip_ws u = d # w" using p c True by (cases "skip_ws u") auto
      note dt = skip_ws_extend [OF d, of t]
      show ?thesis using p True Suc by (auto simp: c ct d dt split: if_splits)
    next
      case False
      have num: "p_number ((c # u) @ t) = Some (v, r @ t)" if "p_number (c # u) = Some (v, r)"
        using p_number_extend [OF that] p_number_num [OF that] o by (auto simp: open_number_def)
      show ?thesis using p False num
        p_word_extend [of "''true''" "JBool True" "c # u" v r t] p_word_extend [of "''false''" "JBool False" "c # u" v r t]
        p_word_extend [of "''null''" JNull "c # u" v r t]
        by (auto simp: c ct split: if_splits dest: p_string_extend [where t = t])
    qed
  qed
  have items_ext: "p_items (Suc n) acc (s @ t) = Some (v, r @ t)" if p: "p_items (Suc n) acc s = Some (v, r)" for acc s v r
  proof -
    obtain x u where x: "p_value n s = Some (x, u)" using p by (cases "p_value n s") auto
    obtain c w where c: "skip_ws u = c # w" using p x by (cases "skip_ws u") auto
    then have "\<not> open_number x u" by (auto simp: open_number_def skip_ws_def)
    with x Suc have "p_value n (s @ t) = Some (x, u @ t)" by blast
    then show ?thesis using p x c skip_ws_extend [OF c, of t] Suc by (auto split: if_splits)
  qed
  have members_ext: "p_members (Suc n) acc (s @ t) = Some (v, r @ t)" if p: "p_members (Suc n) acc s = Some (v, r)" for acc s v r
  proof -
    obtain q s1 where q: "skip_ws s = q # s1" using p by (cases "skip_ws s") auto
    have qq: "q = CHR 0x22" using p q by (simp split: if_splits)
    obtain k s2 where k: "p_string s1 = Some (k, s2)" using p q qq by (cases "p_string s1") auto
    obtain col s3 where col: "skip_ws s2 = col # s3" using p q qq k by (cases "skip_ws s2") auto
    have cc: "col = CHR '':''" using p q qq k col by (simp split: if_splits)
    obtain x s4 where x: "p_value n s3 = Some (x, s4)" using p q qq k col cc by (cases "p_value n s3") auto
    obtain c s5 where c: "skip_ws s4 = c # s5" using p q qq k col cc x by (cases "skip_ws s4") auto
    then have "\<not> open_number x s4" by (auto simp: open_number_def skip_ws_def)
    with x Suc have "p_value n (s3 @ t) = Some (x, s4 @ t)" by blast
    then show ?thesis
      using p q qq k col cc x c skip_ws_extend [OF q, of t] p_string_extend [OF k, of t] skip_ws_extend [OF col, of t]
        skip_ws_extend [OF c, of t] Suc
      by (auto split: if_splits)
  qed
  from value_ext items_ext members_ext show ?case by blast
qed simp

lemma parser_mono:
  "(\<forall>s x. p_value n s = Some x \<longrightarrow> p_value (Suc n) s = Some x)
   \<and> (\<forall>acc s x. p_items n acc s = Some x \<longrightarrow> p_items (Suc n) acc s = Some x)
   \<and> (\<forall>acc s x. p_members n acc s = Some x \<longrightarrow> p_members (Suc n) acc s = Some x)"
proof (induction n)
  case (Suc n)
  have ih: "p_value n s = Some x \<Longrightarrow> p_value (Suc n) s = Some x"
    "p_items n acc s = Some x \<Longrightarrow> p_items (Suc n) acc s = Some x"
    "p_members n macc s = Some x \<Longrightarrow> p_members (Suc n) macc s = Some x" for acc macc s x
    using Suc by blast+
  note [simp del] = p_value.simps(2) p_items.simps(2) p_members.simps(2)
  have v: "p_value (Suc (Suc n)) s = Some x" if p: "p_value (Suc n) s = Some x" for s x
  proof -
    obtain c u where c: "skip_ws s = c # u" using p by (cases "skip_ws s") (auto simp: p_value.simps(2))
    show ?thesis
    proof (cases "c \<in> set ''[{''")
      case True
      then obtain d w where d: "skip_ws u = d # w" using p c by (cases "skip_ws u") (auto simp: p_value.simps(2))
      show ?thesis using p True unfolding p_value.simps(2) [of "Suc n" s] p_value.simps(2) [of n s]
        by (auto simp: c d split: if_splits dest: ih)
    next
      case False
      then show ?thesis using p unfolding p_value.simps(2) [of "Suc n" s] p_value.simps(2) [of n s]
        by (auto simp: c split: if_splits)
    qed
  qed
  have i: "p_items (Suc (Suc n)) acc s = Some x" if p: "p_items (Suc n) acc s = Some x" for acc s x
  proof -
    obtain y u where y: "p_value n s = Some (y, u)" using p by (cases "p_value n s") (auto simp: p_items.simps(2))
    show ?thesis using p
      unfolding p_items.simps(2) [of "Suc n" acc s] p_items.simps(2) [of n acc s] y ih(1) [OF y] option.case prod.case
      by (auto split: if_splits list.splits dest: ih)
  qed
  have m: "p_members (Suc (Suc n)) acc s = Some x" if p: "p_members (Suc n) acc s = Some x" for acc s x
  proof -
    note p' = p [unfolded p_members.simps(2)]
    obtain q s1 where q: "skip_ws s = q # s1" using p' by (cases "skip_ws s") auto
    have qq: "q = CHR 0x22" using p' q by (simp split: if_splits)
    obtain k s2 where k: "p_string s1 = Some (k, s2)" using p' q qq by (cases "p_string s1") auto
    obtain col s3 where col: "skip_ws s2 = col # s3" using p' q qq k by (cases "skip_ws s2") auto
    have cc: "col = CHR '':''" using p' q qq k col by (simp split: if_splits)
    obtain y s4 where y: "p_value n s3 = Some (y, s4)" using p' q qq k col cc by (cases "p_value n s3") auto
    show ?thesis using p' unfolding p_members.simps(2) [of "Suc n" acc s]
      by (auto simp: q qq k col cc y ih(1) [OF y] split: if_splits list.splits dest: ih)
  qed
  from v i m show ?case by blast
qed simp

lemma p_value_fuel: "p_value n s = Some x \<Longrightarrow> n \<le> m \<Longrightarrow> p_value m s = Some x"
proof (induction m)
  case (Suc m)
  then show ?case using parser_mono [of m] le_Suc_eq by blast
qed simp

lemma torn_record_unreadable:
  assumes "clean v" and "is_record v" and "json_text other v = p @ t" and "t \<noteq> []"
  shows "json_parse p = None"
proof (cases "p_value (Suc (length p)) p")
  case (Some x)
  obtain w r where x: "x = (w, r)" by (cases x)
  obtain m where m: "v = JObj m" using assms(2) by (auto simp: is_record_def split: json.splits)
  have "\<not> open_number w r \<or> p = []"
  proof (cases p)
    case (Cons c u)
    then have "c = CHR ''{''" using assms(3) m by simp
    then have "\<exists>m. w = JObj m \<or> (\<exists>q. p_members (length p) [] u = Some (w, r))"
      using Some x Cons by (auto simp: skip_ws_head split: list.splits if_splits)
    moreover have "p_members n acc s = Some (w, r) \<Longrightarrow> \<exists>m. w = JObj m" for n acc s
      by (induction n arbitrary: acc s) (auto split: list.splits if_splits option.splits prod.splits)
    ultimately show ?thesis by (auto simp: open_number_def)
  qed simp
  then have "p_value (Suc (length p)) (p @ t) = Some (w, r @ t) \<or> p = []"
    using parser_extend [of "Suc (length p)" t] Some x by blast
  then have "p_value (Suc (length (p @ t))) (p @ t) = Some (w, r @ t) \<or> p = []"
    using p_value_fuel by (metis Suc_le_mono le_add1 length_append)
  moreover have "p_value (Suc (length (p @ t))) (p @ t) = Some (v, [])"
    using reads_clean [OF assms(1), of other] unfolding reads_def assms(3)
    by (metis append_Nil2 delim_punct(1) order_refl)
  ultimately have "p = []" using assms(4) by auto
  with Some show ?thesis by (simp add: skip_ws_def)
qed (simp add: json_parse_def)

lemma torn_prefix: "clean v \<Longrightarrow> is_record v \<Longrightarrow> strict_prefix p (json_text other v) \<Longrightarrow> json_parse p = None"
  using torn_record_unreadable by (auto simp: strict_prefix_def prefix_def)

section \<open>Absent members\<close>

fun strip :: "json \<Rightarrow> json" where
  \<comment> \<open>what a value is read back as: absent members are not written\<close>
  "strip (JArr vs) = JArr (map (\<lambda>v. if v = JUndef then JNull else strip v) vs)"
| "strip (JObj m) = JObj (map (\<lambda>(k, v). (k, strip v)) (filter (\<lambda>kv. snd kv \<noteq> JUndef) m))"
| "strip v = v"

fun plain :: "json \<Rightarrow> bool" where
  \<comment> \<open>numbers are safe integers and keys are distinct\<close>
  "plain (JNum r) = safe_number r"
| "plain (JArr vs) = list_all plain vs"
| "plain (JObj m) = (distinct (map fst m) \<and> list_all (\<lambda>kv. plain (snd kv)) m)"
| "plain v = True"

lemma strip_defined: "v \<noteq> JUndef \<Longrightarrow> strip v \<noteq> JUndef"
  by (cases v) auto

lemma strip_text: "json_text other (strip v) = json_text other v"
proof (induction v)
  case (JArr vs)
  then have "items_text other (map (\<lambda>v. if v = JUndef then JNull else strip v) vs) = items_text other vs"
    by (induction vs) auto
  then show ?case by simp
next
  case (JObj m)
  then have "members_text other (map (\<lambda>(k, v). (k, strip v)) (filter (\<lambda>kv. snd kv \<noteq> JUndef) m)) = members_text other m"
  proof (induction m)
    case (Cons kv m)
    obtain k v where kv: "kv = (k, v)" by (cases kv)
    have "json_text other (strip v) = json_text other v" using Cons.prems [of kv v] kv by (simp add: snds.simps)
    moreover have "members_text other (map (\<lambda>(k, v). (k, strip v)) (filter (\<lambda>kv. snd kv \<noteq> JUndef) m)) = members_text other m"
      using Cons.IH Cons.prems by (meson list.set_intros(2))
    ultimately show ?case using strip_defined [of v] by (simp add: kv)
  qed simp
  then show ?case by simp
qed simp_all

lemma clean_strip: "plain v \<Longrightarrow> v \<noteq> JUndef \<Longrightarrow> clean (strip v)"
proof (induction v)
  case (JArr vs)
  then show ?case by (auto simp: list_all_iff)
next
  case (JObj m)
  have "distinct (map fst (filter P m))" if "distinct (map fst m)" for P :: "string \<times> json \<Rightarrow> bool"
    using that by (rule distinct_map_filter)
  moreover have "fst \<circ> (\<lambda>(k, v). (k, strip v)) = (fst :: string \<times> json \<Rightarrow> string)" by (auto simp: fun_eq_iff)
  moreover have "\<forall>kv \<in> set m. snd kv \<noteq> JUndef \<longrightarrow> clean (strip (snd kv))"
    using JObj.IH JObj.prems(1) by (force simp: list_all_iff snds.simps)
  ultimately show ?case using JObj.prems(1) by (auto simp: list_all_iff)
qed auto

lemma json_reads_back: "plain v \<Longrightarrow> v \<noteq> JUndef \<Longrightarrow> json_parse (json_text other v) = Some (strip v)"
  using json_roundtrip [OF clean_strip] strip_text by metis

section \<open>The characters of a text\<close>

lemma escape_printable: "c \<in> set (escape_char x) \<Longrightarrow> (of_char c :: nat) \<ge> 32"
proof -
  assume c: "c \<in> set (escape_char x)"
  have h: "(of_char (hex_digit n) :: nat) \<ge> 32" if "n < 16" for n
  proof -
    have "list_all (\<lambda>n. (of_char (hex_digit n) :: nat) \<ge> 32) [0..<16]" by code_simp
    with that show ?thesis by (auto simp: list_all_iff)
  qed
  have "(of_char x :: nat) < 32 \<Longrightarrow> (of_char x :: nat) div 16 < 16" by simp
  then show ?thesis using c h [of "of_char x mod 16"] h [of "of_char x div 16"]
    by (auto simp: escape_char_def split: if_splits)
qed

lemma number_printable: "safe_number q \<Longrightarrow> c \<in> set (number_text other q) \<Longrightarrow> (of_char c :: nat) \<ge> 32"
proof -
  assume s: "safe_number q" and c: "c \<in> set (number_text other q)"
  have d: "list_all (\<lambda>c. (of_char c :: nat) \<ge> 32) ''0123456789''" by code_simp
  have "is_digit c \<or> c = CHR ''-''" using s c dec_digits(1) by (auto simp: number_text_def list_all_iff split: if_splits)
  then show ?thesis using d by (auto simp: is_digit_def list_all_iff)
qed

lemma join_member: "c \<in> set (join_with sep xs) \<Longrightarrow> c \<in> set sep \<or> (\<exists>x \<in> set xs. c \<in> set x)"
  by (induction sep xs rule: join_with.induct) auto

lemma clean_printable: "clean v \<Longrightarrow> c \<in> set (json_text other v) \<Longrightarrow> (of_char c :: nat) \<ge> 32"
proof (induction v arbitrary: c)
  case (JNum q)
  then show ?case by (simp add: number_printable)
next
  case (JStr s)
  then show ?case using escape_printable by (auto simp: quoted_def)
next
  case (JArr vs)
  have "\<exists>v \<in> set vs. x = json_text other v" if "x \<in> set (items_text other vs)" for x
    using that by (induction vs) auto
  with JArr show ?case by (fastforce simp: list_all_iff dest: join_member)
next
  case (JObj m)
  have "\<exists>kv \<in> set m. x = quoted (fst kv) @ '':'' @ json_text other (snd kv)" if "x \<in> set (members_text other m)" for x
    using that by (induction m) (auto split: if_splits)
  moreover have "(of_char c :: nat) \<ge> 32" if "c \<in> set (quoted k)" for c k
    using that escape_printable by (auto simp: quoted_def)
  moreover have "\<forall>kv \<in> set m. \<forall>c \<in> set (json_text other (snd kv)). (of_char c :: nat) \<ge> 32"
    using JObj.IH JObj.prems(1) by (force simp: list_all_iff snds.simps)
  ultimately show ?case using JObj.prems(2) by (fastforce dest: join_member)
qed (auto split: if_splits)

lemma clean_one_line: "clean v \<Longrightarrow> CHR 0x0A \<notin> set (json_text other v)"
  using clean_printable [of v "CHR 0x0A" other] by auto

end
