(* ===== verification/Task_Registry.thy ===== *)
theory Task_Registry
  imports Json_Text
begin

text \<open>
  The task registry of the daemon (\<open>src/src/task-registry.ts\<close>): an append-only file of JSON rows, one
  version of a task per row, folded to the last row of every id.  The reader keeps a cache and folds
  only the bytes appended since; a writer separates, appends and syncs a row, and a crash may leave a
  torn final row.

  A task is the JSON object of its row, since the code preserves unknown fields and the order of
  fields.  The registry is used under its lock, so an operation sees one state of
  the files; \<open>registry_world\<close> holds them.  Numbers in rows that the program writes are integers; the
  arithmetic of legacy fields that are no numbers yields \<open>JNull\<close>, as a persisted \<open>NaN\<close> does.
\<close>

section \<open>Rows\<close>

definition set_field :: "string \<Rightarrow> json \<Rightarrow> json \<Rightarrow> json" where
  "set_field k v j = (case j of JObj m \<Rightarrow> JObj (amap_set k v m) | _ \<Rightarrow> j)"

definition drop_fields :: "string list \<Rightarrow> json \<Rightarrow> json" where
  \<comment> \<open>the rest pattern \<open>{ a, b, ...rest }\<close>\<close>
  "drop_fields ks j = (case j of JObj m \<Rightarrow> JObj (filter (\<lambda>(k, _). k \<notin> set ks) m) | _ \<Rightarrow> j)"

definition nullish :: "json \<Rightarrow> bool" where
  "nullish v = (v = JUndef \<or> v = JNull)"

definition coalesce :: "json \<Rightarrow> json \<Rightarrow> json" where
  "coalesce a b = (if nullish a then b else a)"

definition num_plus :: "json \<Rightarrow> rat \<Rightarrow> json" where
  "num_plus v d = (case v of JNum q \<Rightarrow> JNum (q + d) | _ \<Rightarrow> JNull)"

definition DEFAULT_MAX_ATTEMPTS :: rat where
  "DEFAULT_MAX_ATTEMPTS = 2"

definition flag_parts :: "string \<Rightarrow> string \<times> string option" where
  \<comment> \<open>\<open>arg.split(/=(.*)/s)\<close>: the flag and the value given inline\<close>
  "flag_parts arg =
     (if CHR ''='' \<in> set arg then (takeWhile (\<lambda>c. c \<noteq> CHR ''='') arg, Some (drop 1 (dropWhile (\<lambda>c. c \<noteq> CHR ''='') arg)))
      else (arg, None))"

definition text_number :: "json \<Rightarrow> json" where
  \<comment> \<open>\<open>Number(value)\<close>; a \<open>NaN\<close> and the infinities are persisted as null\<close>
  "text_number v = (case v of JStr s \<Rightarrow> (case js_number s of Finite q \<Rightarrow> JNum q | _ \<Rightarrow> JNull) | _ \<Rightarrow> JNull)"

definition value_flags :: "string list" where
  "value_flags = [''--adapter'', ''--workflow'', ''--max-iterations'', ''--campaign'', ''--campaign-context'', ''--timeout'',
     ''--existing-run-id'', ''--task'', ''--brief-input-base64'', ''--project'', ''--brief-admission-record'']"

definition launch_assignment :: "string \<Rightarrow> json \<Rightarrow> (string \<times> json) option" where
  \<comment> \<open>the launch option a flag sets\<close>
  "launch_assignment flag v =
     (if flag = ''--adapter'' then Some (''adapter'', v)
      else if flag = ''--workflow'' then Some (''workflow'', v)
      else if flag = ''--max-iterations'' then Some (''maxIterations'', text_number v)
      else if flag = ''--campaign'' then Some (''campaign'', v)
      else if flag = ''--no-campaign'' then Some (''noCampaign'', JBool True)
      else if flag = ''--campaign-context'' then Some (''campaignContext'', v)
      else if flag = ''--no-inherit-campaign'' then Some (''campaignContext'', JStr ''skip'') else None)"

definition flag_value :: "string option \<Rightarrow> string list \<Rightarrow> json" where
  "flag_value inline args = (case or_else inline (find (\<lambda>_. True) args) of None \<Rightarrow> JUndef | Some x \<Rightarrow> JStr x)"

function launch_loop :: "string list \<Rightarrow> (string \<times> json) list \<Rightarrow> (string \<times> json) list" where
  "launch_loop [] launch = launch"
| "launch_loop (arg # args) launch =
     launch_loop (if fst (flag_parts arg) \<in> set value_flags \<and> snd (flag_parts arg) = None then drop 1 args else args)
       (case launch_assignment (fst (flag_parts arg)) (flag_value (snd (flag_parts arg)) args) of
          None \<Rightarrow> launch | Some (k, x) \<Rightarrow> amap_set k x launch)"
  by pat_completeness auto

termination by (relation "measure (length \<circ> fst)") auto

definition normalizeLaunchOptions :: "string list \<Rightarrow> json" where
  "normalizeLaunchOptions args =
     (let launch = JObj (launch_loop args [])
      in if own_field launch ''workflow'' = JStr ''default'' then set_field ''workflow'' (JStr ''planner'') launch else launch)"

definition string_items :: "json \<Rightarrow> string list" where
  \<comment> \<open>\<open>launch_args ?? []\<close>, an array of strings\<close>
  "string_items v = (case v of JArr vs \<Rightarrow> map (\<lambda>x. case x of JStr s \<Rightarrow> s | _ \<Rightarrow> []) vs | _ \<Rightarrow> [])"

definition normalizeTaskEntry :: "json \<Rightarrow> json" where
  "normalizeTaskEntry raw =
     (let task = drop_fields [''launch_seq'', ''max_retries'', ''launch_args''] raw;
          attempt = coalesce (own_field task ''attempt'') (JNum 1);
          launch = coalesce (own_field task ''launch'') (num_plus (coalesce (own_field raw ''launch_seq'') (num_plus attempt (- 1))) 1);
          most = coalesce (coalesce (own_field task ''max_attempts'') (own_field raw ''max_retries'')) (JNum DEFAULT_MAX_ATTEMPTS);
          options = own_field task ''launch_options'';
          options' = (if truthy options
                      then (if own_field options ''workflow'' = JStr ''default'' then set_field ''workflow'' (JStr ''planner'') options
                            else options)
                      else normalizeLaunchOptions (string_items (own_field raw ''launch_args'')))
      in set_field ''launch_options'' options' (set_field ''max_attempts'' most (set_field ''launch'' launch task)))"

definition numeric_id :: "json \<Rightarrow> rat option" where
  "numeric_id v = (case own_field v ''id'' of JNum q \<Rightarrow> Some q | _ \<Rightarrow> None)"

definition task_row :: "json \<Rightarrow> (rat \<times> json) option" where
  \<comment> \<open>a row of a task, normalised, with its id\<close>
  "task_row v = map_option (\<lambda>i. (i, normalizeTaskEntry v)) (numeric_id v)"

definition task_state :: "json \<Rightarrow> json" where
  "task_state t = own_field t ''status''"

definition task_active :: "json \<Rightarrow> bool" where
  "task_active t = (case task_state t of JStr s \<Rightarrow> isActiveTaskStatus s | _ \<Rightarrow> False)"

section \<open>The incremental reader\<close>

type_synonym task_map = "(rat \<times> json) list"

record registry_cache =
  rc_identity :: "nat \<times> nat"
  rc_readOffset :: nat
  rc_stamp :: "rat \<times> rat"
  rc_pending :: string
  rc_pendingReadable :: bool
  rc_pendingTask :: "(rat \<times> json) option"
  rc_unreadable :: nat
  rc_records :: nat
  rc_tasks :: task_map
  rc_active :: task_map
  rc_unknown :: "rat list"

record registry_file =
  rf_identity :: "nat \<times> nat"
  rf_bytes :: string
  rf_stamp :: "rat \<times> rat"
  \<comment> \<open>modification and change time\<close>

definition fresh_cache :: "registry_file \<Rightarrow> registry_cache" where
  "fresh_cache f =
     \<lparr>rc_identity = rf_identity f, rc_readOffset = 0, rc_stamp = rf_stamp f, rc_pending = [], rc_pendingReadable = True,
      rc_pendingTask = None, rc_unreadable = 0, rc_records = 0, rc_tasks = [], rc_active = [], rc_unknown = []\<rparr>"

definition fold_task :: "rat \<times> json \<Rightarrow> registry_cache \<Rightarrow> registry_cache" where
  "fold_task row c =
     (let (i, t) = row
      in c\<lparr>rc_tasks := amap_set i t (rc_tasks c),
           rc_active := (if task_active t then amap_set i t (rc_active c) else amap_delete i (rc_active c)),
           rc_unknown := (if isKnownTaskStatus (task_state t) then removeAll i (rc_unknown c)
                          else if i \<in> set (rc_unknown c) then rc_unknown c else rc_unknown c @ [i])\<rparr>)"

definition apply_line :: "string \<Rightarrow> registry_cache \<Rightarrow> registry_cache" where
  \<comment> \<open>one complete row\<close>
  "apply_line raw c =
     (if trim raw = [] then c
      else let c' = c\<lparr>rc_records := rc_records c + 1\<rparr>
           in case json_parse (trim raw) of
                None \<Rightarrow> c'\<lparr>rc_unreadable := rc_unreadable c + 1\<rparr>
              | Some v \<Rightarrow> (case task_row v of None \<Rightarrow> c' | Some row \<Rightarrow> fold_task row c'))"

definition line_feed :: char where
  "line_feed = CHR 0x0A"

definition after_newline :: "string \<Rightarrow> string" where
  \<comment> \<open>what follows the last line_feed\<close>
  "after_newline s = rev (takeWhile (\<lambda>c. c \<noteq> line_feed) (rev s))"

definition before_newline :: "string \<Rightarrow> string" where
  \<comment> \<open>what precedes the last line_feed, if there is one\<close>
  "before_newline s = rev (drop 1 (dropWhile (\<lambda>c. c \<noteq> line_feed) (rev s)))"

definition apply_pending :: "registry_cache \<Rightarrow> registry_cache" where
  "apply_pending c =
     (let c' = c\<lparr>rc_pendingTask := None, rc_pendingReadable := True\<rparr>
      in if trim (rc_pending c) = [] then c'
         else case json_parse (trim (rc_pending c)) of
                None \<Rightarrow> c'\<lparr>rc_pendingReadable := False\<rparr>
              | Some v \<Rightarrow> c'\<lparr>rc_pendingTask := task_row v\<rparr>)"

definition applyRegistryBytes :: "string \<Rightarrow> registry_cache \<Rightarrow> registry_cache" where
  "applyRegistryBytes bytes c =
     (let combined = rc_pending c @ bytes;
          complete = before_newline combined;
          c' = c\<lparr>rc_pending := after_newline combined\<rparr>;
          c'' = (if complete = [] then c' else fold apply_line (split_on line_feed complete) c')
      in apply_pending c'')"

record registry_read =
  rr_tasks :: task_map
  rr_active :: task_map
  rr_unknownStatuses :: bool
  rr_unreadableRecords :: nat
  rr_unreadableTail :: bool

definition empty_read :: registry_read where
  "empty_read = \<lparr>rr_tasks = [], rr_active = [], rr_unknownStatuses = False, rr_unreadableRecords = 0, rr_unreadableTail = False\<rparr>"

definition cache_view :: "registry_cache \<Rightarrow> registry_read" where
  \<comment> \<open>the cache with the readable unterminated row laid over it\<close>
  "cache_view c =
     (let torn = (if rc_pending c \<noteq> [] \<and> \<not> rc_pendingReadable c then 1 else 0)
      in case rc_pendingTask c of
           None \<Rightarrow> \<lparr>rr_tasks = rc_tasks c, rr_active = rc_active c, rr_unknownStatuses = (rc_unknown c \<noteq> []),
                    rr_unreadableRecords = rc_unreadable c + torn, rr_unreadableTail = (torn > 0)\<rparr>
         | Some (i, t) \<Rightarrow>
             \<lparr>rr_tasks = amap_set i t (rc_tasks c),
              rr_active = (if task_active t then amap_set i t (rc_active c) else amap_delete i (rc_active c)),
              rr_unknownStatuses = (removeAll i (rc_unknown c) \<noteq> [] \<or> \<not> isKnownTaskStatus (task_state t)),
              rr_unreadableRecords = rc_unreadable c + torn, rr_unreadableTail = (torn > 0)\<rparr>)"

definition must_rebuild :: "registry_file \<Rightarrow> registry_cache \<Rightarrow> bool" where
  "must_rebuild f c =
     (rc_identity c \<noteq> rf_identity f \<or> length (rf_bytes f) < rc_readOffset c
      \<or> length (rf_bytes f) = rc_readOffset c \<and> rc_stamp c \<noteq> rf_stamp f)"

definition refresh :: "registry_file \<Rightarrow> registry_cache option \<Rightarrow> registry_cache" where
  \<comment> \<open>the cache after reading the bytes it has not seen\<close>
  "refresh f cached =
     (let c = (case cached of Some c \<Rightarrow> if must_rebuild f c then fresh_cache f else c | None \<Rightarrow> fresh_cache f);
          c' = (if rc_readOffset c < length (rf_bytes f)
                then (applyRegistryBytes (drop (rc_readOffset c) (rf_bytes f)) c)\<lparr>rc_readOffset := length (rf_bytes f)\<rparr>
                else c)
      in c'\<lparr>rc_stamp := rf_stamp f\<rparr>)"

definition readLatestUnlocked :: "registry_file option \<Rightarrow> registry_cache option \<Rightarrow> registry_cache option \<times> registry_read" where
  "readLatestUnlocked f cached =
     (case f of
        None \<Rightarrow> (None, empty_read)
      | Some file \<Rightarrow> (let c = refresh file cached in (Some c, cache_view c)))"


section \<open>The reader folds what it has not seen\<close>

lemma newline_split:
  "split_on line_feed s = (if line_feed \<in> set s then split_on line_feed (before_newline s) @ [after_newline s] else [after_newline s])"
proof (induction s rule: rev_induct)
  case (snoc c s)
  have app: "split_on d (x @ [c]) = (if c = d then split_on d x @ [[]]
      else butlast (split_on d x) @ [last (split_on d x) @ [c]])" for d x
  proof (induction x)
    case (Cons y ys)
    then show ?case by (cases "split_on d ys") (auto split: list.splits)
  qed simp
  show ?case
  proof (cases "c = line_feed")
    case True
    then show ?thesis using app [of line_feed s] by (simp add: after_newline_def before_newline_def)
  next
    case False
    then have "after_newline (s @ [c]) = after_newline s @ [c]" "before_newline (s @ [c]) = before_newline s"
      by (simp_all add: after_newline_def before_newline_def)
    then show ?thesis using False snoc by (auto simp: app)
  qed
qed (simp add: after_newline_def)


lemma split_on_append: "split_on d (x @ y) = butlast (split_on d x) @ split_on d (last (split_on d x) @ y)"
proof (induction x)
  case (Cons c x)
  show ?case
  proof (cases "split_on d x")
    case (Cons w ws)
    with Cons.IH show ?thesis by (cases ws) (auto split: list.splits)
  qed simp
qed simp

definition noted :: "string \<Rightarrow> bool \<Rightarrow> (rat \<times> json) option \<Rightarrow> registry_cache \<Rightarrow> registry_cache" where
  "noted x y z c = c\<lparr>rc_pending := x, rc_pendingReadable := y, rc_pendingTask := z\<rparr>"

lemma apply_line_noted: "apply_line raw (noted x y z c) = noted x y z (apply_line raw c)"
  by (auto simp: apply_line_def noted_def fold_task_def Let_def split: option.splits prod.splits)

lemma fold_line_noted: "fold apply_line ls (noted x y z c) = noted x y z (fold apply_line ls c)"
  by (induction ls arbitrary: c) (simp_all add: apply_line_noted)

lemma noted_noted [simp]: "noted x y z (noted x' y' z' c) = noted x y z c"
  by (simp add: noted_def)

lemma noted_pending [simp]: "rc_pending (noted x y z c) = x"
  by (simp add: noted_def)

definition row_of :: "string \<Rightarrow> (rat \<times> json) option" where
  \<comment> \<open>the task a line holds\<close>
  "row_of l = (if trim l = [] then None else Option.bind (json_parse (trim l)) task_row)"

definition bad_line :: "string \<Rightarrow> bool" where
  "bad_line l = (trim l \<noteq> [] \<and> json_parse (trim l) = None)"

lemma apply_pending_noted: "apply_pending (noted x y z c) = noted x (\<not> bad_line x) (row_of x) c"
  by (auto simp: apply_pending_def noted_def bad_line_def row_of_def Let_def split: option.splits)

lemma apply_bytes:
  "applyRegistryBytes b c =
     (let ls = split_on line_feed (rc_pending c @ b)
      in noted (last ls) (\<not> bad_line (last ls)) (row_of (last ls)) (fold apply_line (butlast ls) c))"
proof -
  let ?s = "rc_pending c @ b"
  have c: "c\<lparr>rc_pending := x\<rparr> = noted x (rc_pendingReadable c) (rc_pendingTask c) c" for x by (simp add: noted_def)
  have blank: "apply_line [] k = k" for k by (simp add: apply_line_def trim_def)
  have none: "before_newline ?s = []" if "line_feed \<notin> set ?s"
  proof -
    have "\<forall>x \<in> set (rev ?s). x \<noteq> line_feed" using that unfolding set_rev by blast
    then have "dropWhile (\<lambda>c. c \<noteq> line_feed) (rev ?s) = []" by (rule dropWhile_eq_Nil_conv [THEN iffD2])
    then show ?thesis unfolding before_newline_def by (simp only:) simp
  qed
  show ?thesis
  proof (cases "line_feed \<in> set ?s")
    case True
    then have "split_on line_feed ?s = split_on line_feed (before_newline ?s) @ [after_newline ?s]" using newline_split by metis
    then show ?thesis unfolding applyRegistryBytes_def Let_def c
      by (cases "before_newline ?s") (simp_all add: blank fold_line_noted apply_pending_noted)
  next
    case False
    then have "split_on line_feed ?s = [after_newline ?s]" using newline_split by metis
    then show ?thesis unfolding applyRegistryBytes_def Let_def c
      using none [OF False] by (simp add: apply_pending_noted)
  qed
qed

lemma apply_bytes_append: "applyRegistryBytes b2 (applyRegistryBytes b1 c) = applyRegistryBytes (b1 @ b2) c"
proof -
  define ls where "ls = split_on line_feed (rc_pending c @ b1)"
  have s: "split_on line_feed (rc_pending c @ b1 @ b2) = butlast ls @ split_on line_feed (last ls @ b2)"
    using split_on_append [of line_feed "rc_pending c @ b1" b2] by (simp add: ls_def)
  have l: "last (split_on line_feed (rc_pending c @ b1 @ b2)) = last (split_on line_feed (last ls @ b2))"
    by (simp add: s)
  have m: "butlast (split_on line_feed (rc_pending c @ b1 @ b2)) = butlast ls @ butlast (split_on line_feed (last ls @ b2))"
    by (simp add: s butlast_append)
  show ?thesis
    unfolding apply_bytes [of b1 c] ls_def [symmetric] Let_def apply_bytes [of b2] noted_pending
      apply_bytes [of "b1 @ b2"] l m by (simp add: fold_line_noted)
qed

section \<open>What a registry file says\<close>

definition file_rows :: "string \<Rightarrow> (rat \<times> json) list" where
  "file_rows bytes = List.map_filter row_of (split_on line_feed bytes)"

definition registry_tasks :: "string \<Rightarrow> task_map" where
  \<comment> \<open>the last row of every id, in the order of first appearance\<close>
  "registry_tasks bytes = fold (\<lambda>(i, t). amap_set i t) (file_rows bytes) []"

definition says :: "string list \<Rightarrow> registry_cache \<Rightarrow> bool" where
  \<comment> \<open>the cache holds exactly these complete lines\<close>
  "says ls c =
     (rc_tasks c = fold (\<lambda>(i, t). amap_set i t) (List.map_filter row_of ls) []
      \<and> (\<forall>i. map_of (rc_active c) i = Option.bind (map_of (rc_tasks c) i) (\<lambda>t. if task_active t then Some t else None))
      \<and> (\<forall>i. i \<in> set (rc_unknown c) \<longleftrightarrow> (\<exists>t. map_of (rc_tasks c) i = Some t \<and> \<not> isKnownTaskStatus (task_state t)))
      \<and> rc_unreadable c = length (filter bad_line ls) \<and> rc_records c = length (filter (\<lambda>l. trim l \<noteq> []) ls))"

lemma map_filter_snoc: "List.map_filter f (xs @ [x]) = List.map_filter f xs @ (case f x of None \<Rightarrow> [] | Some y \<Rightarrow> [y])"
  by (simp add: List.map_filter_def split: option.splits)

lemma says_line:
  assumes "says ls c"
  shows "says (ls @ [l]) (apply_line l c)"
proof (cases "trim l = []")
  case True
  then show ?thesis using assms by (simp add: says_def apply_line_def map_filter_snoc row_of_def bad_line_def)
next
  case False
  note nb = this
  show ?thesis
  proof (cases "json_parse (trim l)")
    case None
    then show ?thesis using assms nb by (simp add: says_def apply_line_def map_filter_snoc row_of_def bad_line_def Let_def)
  next
    case (Some v)
    show ?thesis
    proof (cases "task_row v")
      case None
      then show ?thesis using assms nb Some
        by (simp add: says_def apply_line_def map_filter_snoc row_of_def bad_line_def Let_def)
    next
      case row: (Some r)
      obtain i t where r: "r = (i, t)" by (cases r)
      have u: "set (removeAll i xs) = set xs - {i}" for xs :: "rat list" by simp
      show ?thesis using assms nb Some row r
        by (auto simp: says_def apply_line_def map_filter_snoc row_of_def bad_line_def Let_def fold_task_def)
    qed
  qed
qed

lemma says_fold: "says ls (fold apply_line ls (c\<lparr>rc_tasks := [], rc_active := [], rc_unknown := [], rc_unreadable := 0, rc_records := 0\<rparr>))"
proof (induction ls rule: rev_induct)
  case Nil
  show ?case by (simp add: says_def List.map_filter_def)
next
  case (snoc l ls)
  then show ?case using says_line by simp
qed

definition exact_read :: "string \<Rightarrow> registry_read \<Rightarrow> bool" where
  \<comment> \<open>the reference: what a registry of these bytes must be read as\<close>
  "exact_read bytes r =
     (rr_tasks r = registry_tasks bytes
      \<and> (\<forall>i. map_of (rr_active r) i = Option.bind (map_of (registry_tasks bytes) i) (\<lambda>t. if task_active t then Some t else None))
      \<and> (rr_unknownStatuses r \<longleftrightarrow> (\<exists>i t. map_of (registry_tasks bytes) i = Some t \<and> \<not> isKnownTaskStatus (task_state t)))
      \<and> rr_unreadableRecords r = length (filter bad_line (split_on line_feed bytes))
      \<and> (rr_unreadableTail r \<longleftrightarrow> bad_line (last (split_on line_feed bytes))))"


lemma tasks_snoc:
  "registry_tasks bytes = (let ls = split_on line_feed bytes
     in case row_of (last ls) of
          None \<Rightarrow> fold (\<lambda>(i, t). amap_set i t) (List.map_filter row_of (butlast ls)) []
        | Some (i, t) \<Rightarrow> amap_set i t (fold (\<lambda>(i, t). amap_set i t) (List.map_filter row_of (butlast ls)) []))"
proof -
  define ls where "ls = split_on line_feed bytes"
  have "ls = butlast ls @ [last ls]" by (simp add: ls_def)
  then have "file_rows bytes = List.map_filter row_of (butlast ls) @ (case row_of (last ls) of None \<Rightarrow> [] | Some y \<Rightarrow> [y])"
    unfolding file_rows_def ls_def [symmetric] by (metis map_filter_snoc)
  then show ?thesis
    unfolding registry_tasks_def ls_def [symmetric] Let_def by (auto split: option.splits)
qed

lemma fresh_exact: "exact_read bytes (cache_view (applyRegistryBytes bytes (fresh_cache f)))"
proof -
  define ls where "ls = split_on line_feed bytes"
  define c where "c = fold apply_line (butlast ls) (fresh_cache f)"
  have s: "says (butlast ls) c"
    using says_fold [of "butlast ls" "fresh_cache f"] by (simp add: c_def fresh_cache_def)
  have a: "applyRegistryBytes bytes (fresh_cache f) = noted (last ls) (\<not> bad_line (last ls)) (row_of (last ls)) c"
    unfolding apply_bytes by (simp add: fresh_cache_def ls_def c_def Let_def)
  have t: "registry_tasks bytes = (case row_of (last ls) of None \<Rightarrow> rc_tasks c | Some (i, t) \<Rightarrow> amap_set i t (rc_tasks c))"
    using s unfolding tasks_snoc ls_def [symmetric] Let_def says_def by (auto split: option.splits)
  have ne: "ls = butlast ls @ [last ls]" by (simp add: ls_def)
  have u: "length (filter bad_line ls) = rc_unreadable c + (if bad_line (last ls) then 1 else 0)"
    by (subst ne, unfold filter_append) (use s in \<open>simp add: says_def\<close>)
  have torn: "bad_line (last ls) \<Longrightarrow> last ls \<noteq> []" by (auto simp: bad_line_def trim_def)
  have act: "map_of (rc_active c) i = Option.bind (map_of (rc_tasks c) i) (\<lambda>t. if task_active t then Some t else None)"
    and unk: "i \<in> set (rc_unknown c) \<longleftrightarrow> (\<exists>t. map_of (rc_tasks c) i = Some t \<and> \<not> isKnownTaskStatus (task_state t))" for i
    using s by (simp_all add: says_def)
  show ?thesis
  proof (cases "row_of (last ls)")
    case None
    have "rc_unknown c \<noteq> [] \<longleftrightarrow> (\<exists>i. i \<in> set (rc_unknown c))" by (cases "rc_unknown c") auto
    then show ?thesis unfolding a using None t u torn
      by (auto simp: exact_read_def cache_view_def noted_def Let_def ls_def [symmetric] act unk)
  next
    case (Some r)
    obtain i x where r: "r = (i, x)" by (cases r)
    have "removeAll i (rc_unknown c) \<noteq> [] \<longleftrightarrow> (\<exists>j \<in> set (rc_unknown c). j \<noteq> i)"
      by (simp only: set_empty [symmetric] set_removeAll) blast
    then have e: "(removeAll i (rc_unknown c) \<noteq> [] \<or> \<not> isKnownTaskStatus (task_state x))
        \<longleftrightarrow> (\<exists>j t. map_of (amap_set i x (rc_tasks c)) j = Some t \<and> \<not> isKnownTaskStatus (task_state t))"
      unfolding unk Bex_def map_of_amap_set fun_upd_apply by (metis option.inject)
    have v: "cache_view (noted (last ls) (\<not> bad_line (last ls)) (row_of (last ls)) c) =
        \<lparr>rr_tasks = amap_set i x (rc_tasks c),
         rr_active = (if task_active x then amap_set i x (rc_active c) else amap_delete i (rc_active c)),
         rr_unknownStatuses = (removeAll i (rc_unknown c) \<noteq> [] \<or> \<not> isKnownTaskStatus (task_state x)),
         rr_unreadableRecords = rc_unreadable c + (if bad_line (last ls) then 1 else 0), rr_unreadableTail = bad_line (last ls)\<rparr>"
      using Some r torn by (auto simp: cache_view_def noted_def Let_def)
    have t': "registry_tasks bytes = amap_set i x (rc_tasks c)" using t Some r by simp
    have a1: "\<forall>j. map_of (if task_active x then amap_set i x (rc_active c) else amap_delete i (rc_active c)) j
        = Option.bind (map_of (amap_set i x (rc_tasks c)) j) (\<lambda>t. if task_active t then Some t else None)"
      by (simp add: act)
    show ?thesis unfolding a v exact_read_def registry_read.select_convs ls_def [symmetric] t'
      by (intro conjI refl a1 e u [symmetric])
  qed
qed


section \<open>The reader against a changing file\<close>

text \<open>
  Between two reads of a process that keeps its cache the file may be changed in any way: appended
  to, truncated, rewritten in place, replaced or removed, as often as one likes.  The state is the
  file, the cache and the file as the last read of the cache found it.  A read happens when the
  change since then is one \<open>fstat\<close> can tell, or an extension: another identity, fewer bytes, as many
  bytes with other times, or the bytes of before with more behind them.
\<close>

definition visible :: "registry_file option \<Rightarrow> registry_file option \<Rightarrow> bool" where
  "visible seen f =
     (case (seen, f) of
        (Some g, Some f) \<Rightarrow> rf_identity f \<noteq> rf_identity g \<or> length (rf_bytes f) < length (rf_bytes g)
          \<or> length (rf_bytes f) = length (rf_bytes g) \<and> rf_stamp f \<noteq> rf_stamp g
          \<or> prefix (rf_bytes g) (rf_bytes f)
      | _ \<Rightarrow> True)"

type_synonym reader_state = "registry_file option \<times> registry_cache option \<times> registry_file option"

inductive registry_step :: "reader_state \<Rightarrow> reader_state \<Rightarrow> bool" where
  changes: "registry_step (f, cached, seen) (f', cached, seen)"
| readback: "visible seen f \<Longrightarrow> registry_step (f, cached, seen) (f, fst (readLatestUnlocked f cached), f)"

definition new_reader :: "reader_state \<Rightarrow> bool" where
  "new_reader s = (fst (snd s) = None)"

definition cached_from :: "string \<Rightarrow> registry_cache \<Rightarrow> bool" where
  \<comment> \<open>the cache of a reader that has folded exactly these bytes\<close>
  "cached_from bytes c =
     (\<exists>f s i. c = (applyRegistryBytes bytes (fresh_cache f)) \<lparr>rc_readOffset := length bytes, rc_stamp := s, rc_identity := i\<rparr>)"

definition coherent :: "registry_file option \<times> registry_cache option \<Rightarrow> bool" where
  "coherent s = (case s of
     (Some f, Some c) \<Rightarrow> (\<exists>old. cached_from old c \<and> (rc_identity c = rf_identity f \<longrightarrow> prefix old (rf_bytes f)))
   | (None, Some c) \<Rightarrow> (\<exists>old. cached_from old c)
   | (_, None) \<Rightarrow> True)"

definition reader_ok :: "reader_state \<Rightarrow> bool" where
  \<comment> \<open>the cache folds exactly the bytes of the file last read, and bears its identity and times\<close>
  "reader_ok s = (case s of (f, cached, seen) \<Rightarrow>
     \<forall>c. cached = Some c \<longrightarrow> (\<exists>g. seen = Some g \<and> cached_from (rf_bytes g) c
        \<and> rc_identity c = rf_identity g \<and> rc_stamp c = rf_stamp g))"

lemma apply_bytes_meta:
  "applyRegistryBytes b (c\<lparr>rc_readOffset := n, rc_stamp := s, rc_identity := i\<rparr>)
     = (applyRegistryBytes b c)\<lparr>rc_readOffset := n, rc_stamp := s, rc_identity := i\<rparr>"
proof -
  have l: "apply_line l (c\<lparr>rc_readOffset := n, rc_stamp := s, rc_identity := i\<rparr>)
      = (apply_line l c)\<lparr>rc_readOffset := n, rc_stamp := s, rc_identity := i\<rparr>" for l c
    by (auto simp: apply_line_def fold_task_def Let_def split: option.splits prod.splits)
  have "fold apply_line ls (c\<lparr>rc_readOffset := n, rc_stamp := s, rc_identity := i\<rparr>)
      = (fold apply_line ls c)\<lparr>rc_readOffset := n, rc_stamp := s, rc_identity := i\<rparr>" for ls c
    by (induction ls arbitrary: c) (simp_all add: l)
  then show ?thesis unfolding apply_bytes by (simp add: Let_def noted_def)
qed

lemma view_meta [simp]: "cache_view (c\<lparr>rc_readOffset := n\<rparr>) = cache_view c" "cache_view (c\<lparr>rc_stamp := s\<rparr>) = cache_view c"
    "cache_view (c\<lparr>rc_identity := i\<rparr>) = cache_view c"
  by (cases "rc_pendingTask c"; auto simp: cache_view_def Let_def)+

lemma empty_cached: "cached_from [] (fresh_cache f)"
  unfolding cached_from_def
  by (intro exI [of _ f] exI [of _ "rf_stamp f"] exI [of _ "rf_identity f"])
     (simp add: apply_bytes fresh_cache_def noted_def bad_line_def row_of_def trim_def Let_def)

lemma cached_offset: "cached_from old c \<Longrightarrow> rc_readOffset c = length old"
  by (auto simp: cached_from_def)

lemma cached_extend:
  assumes "cached_from old c"
  shows "cached_from (old @ b) ((applyRegistryBytes b c)\<lparr>rc_readOffset := length (old @ b)\<rparr>)"
proof -
  obtain f s i where c: "c = (applyRegistryBytes old (fresh_cache f))\<lparr>rc_readOffset := length old, rc_stamp := s, rc_identity := i\<rparr>"
    using assms by (auto simp: cached_from_def)
  have "applyRegistryBytes b c = (applyRegistryBytes (old @ b) (fresh_cache f))
      \<lparr>rc_readOffset := length old, rc_stamp := s, rc_identity := i\<rparr>"
    unfolding c apply_bytes_meta by (simp add: apply_bytes_append)
  then show ?thesis unfolding cached_from_def by (intro exI [of _ f] exI [of _ s] exI [of _ i]) simp
qed

lemma cached_stamp: "cached_from old c \<Longrightarrow> cached_from old (c\<lparr>rc_stamp := s\<rparr>)"
proof -
  assume "cached_from old c"
  then obtain f s' i where c: "c = (applyRegistryBytes old (fresh_cache f))\<lparr>rc_readOffset := length old, rc_stamp := s', rc_identity := i\<rparr>"
    by (auto simp: cached_from_def)
  then show ?thesis unfolding cached_from_def by (intro exI [of _ f] exI [of _ s] exI [of _ i]) simp
qed

lemma apply_bytes_identity [simp]: "rc_identity (applyRegistryBytes b c) = rc_identity c"
proof -
  have l: "rc_identity (apply_line l c) = rc_identity c" for l c
    by (auto simp: apply_line_def fold_task_def Let_def split: option.splits prod.splits)
  have "rc_identity (fold apply_line ls c) = rc_identity c" for ls c by (induction ls arbitrary: c) (simp_all add: l)
  then show ?thesis unfolding apply_bytes by (simp add: Let_def noted_def)
qed

lemma refresh_exact:
  assumes "\<forall>c. cached = Some c \<and> \<not> must_rebuild f c \<longrightarrow> (\<exists>old. cached_from old c \<and> prefix old (rf_bytes f))"
  shows "cached_from (rf_bytes f) (refresh f cached)" and "rc_identity (refresh f cached) = rf_identity f"
proof -
  define c where "c = (case cached of Some c \<Rightarrow> if must_rebuild f c then fresh_cache f else c | None \<Rightarrow> fresh_cache f)"
  have "\<exists>old. cached_from old c \<and> prefix old (rf_bytes f) \<and> rc_identity c = rf_identity f"
  proof (cases "\<exists>k. cached = Some k \<and> \<not> must_rebuild f k")
    case True
    then show ?thesis using assms by (auto simp: c_def must_rebuild_def)
  next
    case False
    then have "c = fresh_cache f" by (auto simp: c_def split: option.splits)
    then show ?thesis using empty_cached [of f] by (intro exI [of _ "[]"]) (simp add: fresh_cache_def)
  qed
  then obtain old b where old: "cached_from old c" "rf_bytes f = old @ b" "rc_identity c = rf_identity f"
    by (auto simp: prefix_def)
  have r: "refresh f cached = (if b \<noteq> [] then (applyRegistryBytes b c)\<lparr>rc_readOffset := length (old @ b)\<rparr> else c)
      \<lparr>rc_stamp := rf_stamp f\<rparr>"
    unfolding refresh_def c_def [symmetric] using old cached_offset [OF old(1)] by (simp add: Let_def)
  show "cached_from (rf_bytes f) (refresh f cached)"
    unfolding r using old cached_extend [OF old(1), of b] by (auto intro: cached_stamp)
  show "rc_identity (refresh f cached) = rf_identity f" unfolding r using old(3) by simp
qed

lemma refresh_stamp [simp]: "rc_stamp (refresh f cached) = rf_stamp f"
  by (simp add: refresh_def Let_def)

lemma coherent_unchanged:
  "coherent (Some f, cached) \<Longrightarrow>
     \<forall>c. cached = Some c \<and> \<not> must_rebuild f c \<longrightarrow> (\<exists>old. cached_from old c \<and> prefix old (rf_bytes f))"
  by (auto simp: coherent_def must_rebuild_def)

lemma reader_unchanged:
  assumes "reader_ok (f', cached, seen)" and "visible seen (Some f)"
  shows "\<forall>c. cached = Some c \<and> \<not> must_rebuild f c \<longrightarrow> (\<exists>old. cached_from old c \<and> prefix old (rf_bytes f))"
proof (intro allI impI)
  fix c assume c: "cached = Some c \<and> \<not> must_rebuild f c"
  then obtain g where g: "seen = Some g" "cached_from (rf_bytes g) c" "rc_identity c = rf_identity g"
      "rc_stamp c = rf_stamp g" using assms(1) by (auto simp: reader_ok_def)
  then have "prefix (rf_bytes g) (rf_bytes f)"
    using c assms(2) cached_offset [OF g(2)] by (auto simp: visible_def must_rebuild_def)
  with g(2) show "\<exists>old. cached_from old c \<and> prefix old (rf_bytes f)" by blast
qed

lemma reader_ok_step:
  assumes "registry_step s t" and "reader_ok s"
  shows "reader_ok t"
  using assms
proof (induction rule: registry_step.induct)
  case (readback seen f cached)
  show ?case
  proof (cases f)
    case (Some g)
    with refresh_exact [OF reader_unchanged] readback show ?thesis
      by (auto simp: reader_ok_def readLatestUnlocked_def Let_def)
  qed (simp add: reader_ok_def readLatestUnlocked_def)
qed (simp add: reader_ok_def)

interpretation registry: machine new_reader registry_step reader_ok
proof unfold_locales
  show "new_reader s \<Longrightarrow> reader_ok s" for s by (cases s) (simp add: reader_ok_def new_reader_def)
qed (rule reader_ok_step)

text \<open>Under the registry lock the file changes only by appends and by replacement with a new file.\<close>

lemma coherent_grows:
  "coherent (Some f, cached) \<Longrightarrow> rf_identity f' = rf_identity f \<Longrightarrow> prefix (rf_bytes f) (rf_bytes f')
     \<Longrightarrow> coherent (Some f', cached)"
  by (cases cached) (auto simp: coherent_def intro: prefix_order.trans)

lemma coherent_replaced:
  "coherent (f, cached) \<Longrightarrow> \<forall>c. cached = Some c \<longrightarrow> rc_identity c \<noteq> rf_identity f' \<Longrightarrow> coherent (Some f', cached)"
  by (auto simp: coherent_def split: option.splits)

lemma coherent_readback:
  assumes "coherent (f, cached)"
  shows "coherent (f, fst (readLatestUnlocked f cached))"
proof (cases f)
  case (Some g)
  with refresh_exact [OF coherent_unchanged] assms show ?thesis
    by (auto simp: coherent_def readLatestUnlocked_def Let_def)
qed (simp add: coherent_def readLatestUnlocked_def)

lemma coherent_init: "snd s = None \<Longrightarrow> coherent s"
  by (cases s) (auto simp: coherent_def split: option.splits)

lemma cached_view: "cached_from bytes c \<Longrightarrow> exact_read bytes (cache_view c)"
  by (auto simp: cached_from_def fresh_exact)

lemma read_exact: "coherent (Some f, cached) \<Longrightarrow> exact_read (rf_bytes f) (snd (readLatestUnlocked (Some f) cached))"
  using refresh_exact(1) [OF coherent_unchanged] cached_view by (auto simp: readLatestUnlocked_def Let_def)

text \<open>C21. A process that reads the registry incrementally reads it exactly: after any sequence of
  reads and of changes of the file between them - appends, truncations, rewrites in place,
  replacements by another file, removals - a read returns the last row of every id in the file as
  it is now, the active and the unknown tasks among them, and the number of unreadable rows, as a
  reader that starts afresh would.  The change since the last read must be \<open>visible\<close>: what no
  incremental reader of this kind can see, and the code does not, is a file of the same identity
  rewritten in place to the same size with the same times, or rewritten and regrown beyond the
  offset the cache had reached.\<close>

theorem incremental_reader_exact:
  assumes "reachable new_reader registry_step (Some f, cached, seen)" and "visible seen (Some f)"
  shows "exact_read (rf_bytes f) (snd (readLatestUnlocked (Some f) cached))"
  using refresh_exact(1) [OF reader_unchanged [OF registry.reachable_inv [OF assms(1)] assms(2)]] cached_view
  by (simp add: readLatestUnlocked_def Let_def)

text \<open>A file that was truncated to one character between two reads.\<close>

definition example_file :: "string \<Rightarrow> registry_file" where
  "example_file b = \<lparr>rf_identity = (1, 1), rf_bytes = b, rf_stamp = (1, 1)\<rparr>"

theorem incremental_reader_exact_witness:
  "exact_read ''{'' (snd (readLatestUnlocked (Some (example_file ''{''))
     (fst (readLatestUnlocked (Some (example_file ''{}'')) None))))"
proof -
  let ?c = "fst (readLatestUnlocked (Some (example_file ''{}'')) None)"
  have "reachable new_reader registry_step (Some (example_file ''{}''), None, None)"
    by (rule reach_init) (simp add: new_reader_def)
  then have "reachable new_reader registry_step (Some (example_file ''{}''), ?c, Some (example_file ''{}''))"
    by (rule reach_step) (rule registry_step.readback, simp add: visible_def)
  then have "reachable new_reader registry_step (Some (example_file ''{''), ?c, Some (example_file ''{}''))"
    by (rule reach_step) (rule registry_step.changes)
  from incremental_reader_exact [OF this] show ?thesis by (simp add: example_file_def visible_def)
qed

end
