(* ===== verification/Registry_Ops.thy ===== *)
theory Registry_Ops
  imports Task_Registry
begin

text \<open>
  The operations of the task registry (\<open>src/src/task-registry.ts\<close>): creation, update, listing, the
  session indexes, the guard of orphan recovery, and the maintenance operations repair and compact.

  \<open>registry_env\<close> holds what the platform supplies: the text of a fractional number, SHA-256, the
  directory of the tasks, the present instant as text, and the identity and stamp a file written now
  gets.  Writes are durable when they return (\<open>atomicWrite\<close>, \<open>fsync\<close>); a crash during the append of a
  row leaves a prefix of its bytes (\<open>torn_append_loses_nothing\<close>).
\<close>

section \<open>The files of the registry\<close>

record registry_env =
  re_other :: "rat \<Rightarrow> string"
  re_sha :: "string \<Rightarrow> string"
  re_tasksDir :: string
  re_now :: string
  re_identity :: "nat \<times> nat"
  re_stamp :: "rat \<times> rat"

record registry_world =
  rw_file :: "registry_file option"
  rw_cache :: "registry_cache option"
  rw_seq :: "string option"
  rw_briefs :: "(rat \<times> string) list"
  rw_index :: "(string \<times> rat list) list"
  \<comment> \<open>the session indexes by path\<close>
  rw_ready :: bool

datatype registry_error = IntegrityError nat | TaskNotFound rat | AutomationRetired | RowWithoutId nat | NotEquivalent | ValidationFailed
  | RegistryChanged | RegistryUnknown | RegistryBound

definition read_world :: "registry_world \<Rightarrow> registry_world \<times> registry_read" where
  "read_world w = (let (c, r) = readLatestUnlocked (rw_file w) (rw_cache w) in (w\<lparr>rw_cache := c\<rparr>, r))"

definition file_bytes :: "registry_world \<Rightarrow> string" where
  "file_bytes w = (case rw_file w of None \<Rightarrow> [] | Some f \<Rightarrow> rf_bytes f)"

section \<open>Session indexes\<close>

definition launcher_path :: "registry_env \<Rightarrow> json \<Rightarrow> string" where
  \<comment> \<open>\<open>sessionTaskIndexPath\<close>: the key of a session\<close>
  "launcher_path env l = re_sha env (json_text (re_other env) (JArr [own_field l ''frontend'', own_field l ''sessionId'']))"

definition task_launcher :: "json \<Rightarrow> json" where
  "task_launcher t = own_field t ''launcher''"

definition session_tasks :: "registry_env \<Rightarrow> task_map \<Rightarrow> string \<Rightarrow> rat list" where
  "session_tasks env tasks path =
     map fst (filter (\<lambda>(i, t). truthy (task_launcher t) \<and> launcher_path env (task_launcher t) = path) tasks)"

definition writeSessionTaskIndexes :: "registry_env \<Rightarrow> task_map \<Rightarrow> json list \<Rightarrow> registry_world \<Rightarrow> registry_world" where
  "writeSessionTaskIndexes env tasks launchers w =
     w\<lparr>rw_index := fold (\<lambda>p. amap_set p (session_tasks env tasks p)) (uniq (map (launcher_path env) launchers)) (rw_index w),
       rw_ready := True\<rparr>"

definition launchers_of :: "task_map \<Rightarrow> json list" where
  "launchers_of tasks = filter truthy (map (task_launcher \<circ> snd) tasks)"

definition ensureSessionTaskIndexes :: "registry_env \<Rightarrow> registry_world \<Rightarrow> registry_world" where
  "ensureSessionTaskIndexes env w =
     (if rw_ready w then w
      else let (w', r) = read_world w in writeSessionTaskIndexes env (rr_tasks r) (launchers_of (rr_tasks r)) w')"

section \<open>Appending a row\<close>

definition row_bytes :: "registry_env \<Rightarrow> bool \<Rightarrow> json \<Rightarrow> string" where
  "row_bytes env separate entry = (if separate then [line_feed] else []) @ json_text (re_other env) entry @ [line_feed]"

definition needs_separator :: "registry_cache option \<Rightarrow> bool" where
  "needs_separator c = (case c of None \<Rightarrow> False | Some c \<Rightarrow> trim (rc_pending c) \<noteq> [])"

definition append_bytes :: "registry_env \<Rightarrow> string \<Rightarrow> registry_world \<Rightarrow> registry_world" where
  "append_bytes env b w =
     w\<lparr>rw_file := Some (case rw_file w of
         None \<Rightarrow> \<lparr>rf_identity = re_identity env, rf_bytes = b, rf_stamp = re_stamp env\<rparr>
       | Some f \<Rightarrow> f\<lparr>rf_bytes := rf_bytes f @ b, rf_stamp := re_stamp env\<rparr>)\<rparr>"

definition appendEntry :: "registry_env \<Rightarrow> json \<Rightarrow> bool \<Rightarrow> registry_world \<Rightarrow> registry_world \<times> (registry_error + unit)" where
  "appendEntry env entry allowCompleteUnreadable w =
     (let (w1, current) = read_world w
      in if rr_unreadableRecords current > 0 \<and> \<not> (allowCompleteUnreadable \<and> \<not> rr_unreadableTail current)
         then (w1, Inl (IntegrityError (rr_unreadableRecords current)))
         else let previous = (case Option.bind (numeric_id entry) (map_of (rr_tasks current)) of
                                None \<Rightarrow> JUndef | Some t \<Rightarrow> task_launcher t);
                  w2 = append_bytes env (row_bytes env (needs_separator (rw_cache w1)) entry) w1;
                  (w3, r) = read_world w2;
                  w4 = (if \<not> rw_ready w3 then writeSessionTaskIndexes env (rr_tasks r) (launchers_of (rr_tasks r)) w3
                        else if previous \<noteq> task_launcher entry
                        then writeSessionTaskIndexes env (rr_tasks r) (filter truthy [previous, task_launcher entry]) w3
                        else w3)
              in (w4, Inr ()))"

section \<open>Creating a task\<close>

definition parse_int :: "string \<Rightarrow> int" where
  \<comment> \<open>\<open>Number.parseInt(raw, 10) || 0\<close>\<close>
  "parse_int s =
     (let (neg, r) = (if take 1 s = ''-'' then (True, drop 1 s) else if take 1 s = ''+'' then (False, drop 1 s) else (False, s));
          n = int (digits_value 10 (takeWhile is_digit r))
      in if neg then - n else n)"

definition int_text :: "int \<Rightarrow> string" where
  "int_text i = (if i < 0 then CHR ''-'' # dec (nat (- i)) else dec (nat i))"

definition nextIdUnlocked :: "registry_world \<Rightarrow> registry_world \<times> int" where
  "nextIdUnlocked w =
     (let i = (case rw_seq w of None \<Rightarrow> 0 | Some raw \<Rightarrow> parse_int (trim raw)) + 1
      in (w\<lparr>rw_seq := Some (int_text i @ [line_feed])\<rparr>, i))"

definition first_line :: "string \<Rightarrow> string" where
  \<comment> \<open>\<open>split(/\r?\n/)[0]\<close>\<close>
  "first_line s =
     (let l = takeWhile (\<lambda>c. c \<noteq> line_feed) s
      in if line_feed \<in> set s \<and> l \<noteq> [] \<and> last l = CHR 0x0D then butlast l else l)"

definition strip_heading :: "string \<Rightarrow> string" where
  "strip_heading s = (if take 1 s = ''#'' then dropWhile is_space (dropWhile (\<lambda>c. c = CHR ''#'') s) else s)"

definition text_of :: "json \<Rightarrow> string" where
  "text_of v = (case v of JStr s \<Rightarrow> s | _ \<Rightarrow> [])"

definition default_name :: "json \<Rightarrow> int \<Rightarrow> string" where
  "default_name input i =
     (let brief = text_of (coalesce (own_field input ''brief_text'') (coalesce (own_field input ''brief_path'') (JStr [])));
          n = take 80 (strip_heading (first_line brief))
      in if n = [] then ''Task '' @ int_text i else n)"

definition brief_sidecar :: "registry_env \<Rightarrow> int \<Rightarrow> string" where
  "brief_sidecar env i = re_tasksDir env @ ''/'' @ int_text i @ ''/brief.md''"

definition new_entry :: "registry_env \<Rightarrow> json \<Rightarrow> int \<Rightarrow> json" where
  "new_entry env input i =
     (let f = own_field input;
          attempt = coalesce (f ''attempt'') (JNum 1);
          launch = coalesce (f ''launch'') (num_plus (coalesce (f ''launch_seq'') (num_plus attempt (- 1))) 1);
          most = coalesce (coalesce (f ''max_attempts'') (f ''max_retries'')) (JNum DEFAULT_MAX_ATTEMPTS)
      in normalizeTaskEntry (JObj [
           (''launcher'', f ''launcher''), (''foregroundOwner'', f ''foregroundOwner''), (''id'', JNum (of_int i)),
           (''name'', coalesce (f ''name'') (JStr (default_name input i))), (''kind'', JStr ''quick''),
           (''brief_path'', if f ''brief_text'' = JUndef then f ''brief_path'' else JStr (brief_sidecar env i)),
           (''brief_admission'', f ''brief_admission''), (''projectDir'', f ''projectDir''),
           (''systemd_unit'', coalesce (f ''systemd_unit'') (JStr (''flowcrew-task-'' @ int_text i @ ''.service''))),
           (''run_id'', f ''run_id''), (''status'', coalesce (f ''status'') (JStr (task_status_name TPending))),
           (''attempt'', attempt), (''launch'', launch), (''max_attempts'', most),
           (''commit_prefix'', f ''commit_prefix''), (''expected_artifacts'', f ''expected_artifacts''),
           (''expected_summary_path'', f ''expected_summary_path''), (''created_at'', JStr (re_now env)),
           (''notes'', f ''notes''), (''tick_log_path'', JStr (re_tasksDir env @ ''/'' @ int_text i @ ''/tick_log.md'')),
           (''launch_options'', coalesce (f ''launch_options'') (normalizeLaunchOptions (string_items (f ''launch_args''))))]))"

definition create_task :: "registry_env \<Rightarrow> json \<Rightarrow> registry_world \<Rightarrow> registry_world \<times> (registry_error + json)" where
  "create_task env input w =
     (if own_field input ''kind'' \<noteq> JUndef \<and> own_field input ''kind'' \<noteq> JStr ''quick'' then (w, Inl AutomationRetired)
      else let (w1, r) = read_world w
        in if rr_unreadableTail r then (w1, Inl (IntegrityError (rr_unreadableRecords r)))
           else let (w2, i) = nextIdUnlocked w1;
                    w3 = (if own_field input ''brief_text'' = JUndef then w2
                          else w2\<lparr>rw_briefs := amap_set (of_int i) (text_of (own_field input ''brief_text'')) (rw_briefs w2)\<rparr>);
                    entry = new_entry env input i
                in (case appendEntry env entry True w3 of
                      (w4, Inl e) \<Rightarrow> (w4, Inl e)
                    | (w4, Inr _) \<Rightarrow> (w4, Inr entry)))"

section \<open>Updating and reading\<close>

definition spread :: "json \<Rightarrow> json \<Rightarrow> json" where
  \<comment> \<open>\<open>{ ...current, ...patch }\<close>\<close>
  "spread current patch = (case patch of JObj m \<Rightarrow> fold (\<lambda>(k, v). set_field k v) m current | _ \<Rightarrow> current)"

definition externalizeInlineBrief :: "registry_env \<Rightarrow> json \<Rightarrow> registry_world \<Rightarrow> registry_world \<times> json" where
  "externalizeInlineBrief env entry w =
     (if own_field entry ''brief_text'' = JUndef then (w, entry)
      else let i = dflt (numeric_id entry) 0
        in (w\<lparr>rw_briefs := amap_set i (text_of (own_field entry ''brief_text'')) (rw_briefs w)\<rparr>,
            drop_fields [''brief_text''] (set_field ''brief_path'' (JStr (brief_sidecar env \<lfloor>i\<rfloor>)) entry)))"

definition next_version :: "json \<Rightarrow> json \<Rightarrow> json" where
  \<comment> \<open>the patched task, with its immutable fields\<close>
  "next_version current patch =
     set_field ''tick_log_path'' (own_field current ''tick_log_path'')
       (set_field ''created_at'' (own_field current ''created_at'')
         (set_field ''id'' (own_field current ''id'') (spread current patch)))"

definition update_task :: "registry_env \<Rightarrow> rat \<Rightarrow> json \<Rightarrow> registry_world \<Rightarrow> registry_world \<times> (registry_error + json)" where
  "update_task env i patch w =
     (let (w1, r) = read_world w
      in if rr_unreadableRecords r > 0 then (w1, Inl (IntegrityError (rr_unreadableRecords r)))
         else case map_of (rr_tasks r) i of
           None \<Rightarrow> (w1, Inl (TaskNotFound i))
         | Some current \<Rightarrow>
             let (w2, next) = externalizeInlineBrief env (next_version current patch) w1
             in if json_text (re_other env) next = json_text (re_other env) current then (w2, Inr current)
                else (case appendEntry env next False w2 of
                        (w3, Inl e) \<Rightarrow> (w3, Inl e)
                      | (w3, Inr _) \<Rightarrow> (w3, Inr next)))"

definition get_task :: "rat \<Rightarrow> registry_world \<Rightarrow> registry_world \<times> json option" where
  "get_task i w = (let (w', r) = read_world w in (w', map_of (rr_tasks r) i))"

definition by_id :: "task_map \<Rightarrow> task_map" where
  "by_id tasks = sort_key fst tasks"

definition list_tasks :: "string option \<Rightarrow> nat option \<Rightarrow> registry_world \<Rightarrow> registry_world \<times> json list" where
  "list_tasks status limit w =
     (let (w', r) = read_world w;
          selected = (if status = Some ''active'' then rr_active r else rr_tasks r);
          kept = filter (\<lambda>(i, t). case status of
              None \<Rightarrow> True
            | Some s \<Rightarrow> if s = [] \<or> s = ''all'' then True
                else if s = ''active'' then task_active t else task_state t = JStr s) selected;
          tasks = map snd (by_id kept)
      in (w', case limit of
                None \<Rightarrow> tasks
              | Some n \<Rightarrow> if n = 0 then tasks else drop (length tasks - n) tasks))"

definition snapshot_tasks :: "registry_world \<Rightarrow> registry_world \<times> json list \<times> nat" where
  "snapshot_tasks w = (let (w', r) = read_world w in (w', map snd (by_id (rr_tasks r)), rr_unreadableRecords r))"

section \<open>Orphan recovery\<close>

definition assert_unbound :: "(string \<Rightarrow> string option) \<Rightarrow> string \<Rightarrow> bool \<Rightarrow> registry_read \<Rightarrow> registry_error + unit" where
  \<comment> \<open>\<open>resolveBinding\<close> is \<open>None\<close> where it throws; the flag says whether the caller still owns the lock\<close>
  "assert_unbound resolve runId owned r =
     (if \<not> owned then Inl RegistryChanged
      else if rr_unreadableRecords r > 0 \<or> rr_unknownStatuses r then Inl RegistryUnknown
      else let bindings = filter truthy (map (\<lambda>(i, t). own_field t ''run_id'') (rr_active r));
               bad = find (\<lambda>b. resolve (text_of b) = None \<or> resolve (text_of b) = Some runId) bindings
        in case bad of
             None \<Rightarrow> Inr ()
           | Some b \<Rightarrow> Inl (if resolve (text_of b) = None then RegistryUnknown else RegistryBound))"

definition withUnboundRun ::
  "(string \<Rightarrow> string option) \<Rightarrow> string \<Rightarrow> bool \<Rightarrow> registry_world \<Rightarrow> registry_world \<times> (registry_error + unit)" where
  \<comment> \<open>the guard before recovery starts; recovery runs it again at every publication\<close>
  "withUnboundRun resolve runId owned w =
     (if \<not> owned then (w, Inl RegistryChanged)
      else let (w', r) = read_world w in (w', assert_unbound resolve runId owned r))"


section \<open>What an appended row changes\<close>

lemma split_lines: "\<forall>l \<in> set (split_on d s). d \<notin> set l"
proof (induction s)
  case (Cons c s)
  then show ?case by (cases "split_on d s") auto
qed simp

lemma split_first: "d \<notin> set a \<Longrightarrow> split_on d (a @ d # b) = a # split_on d b" and split_one: "d \<notin> set a \<Longrightarrow> split_on d a = [a]"
  by (induction a) auto

lemma last_line: "line_feed \<notin> set (last (split_on line_feed s))"
  using split_lines [of line_feed s] by simp

lemma trim_blank: "trim p = [] \<longleftrightarrow> (\<forall>c \<in> set p. is_space c)"
proof -
  have "dropWhile is_space (rev (dropWhile is_space p)) = [] \<longleftrightarrow> (\<forall>c \<in> set (dropWhile is_space p). is_space c)"
    by (simp add: dropWhile_eq_Nil_conv)
  also have "\<dots> \<longleftrightarrow> (\<forall>c \<in> set p. is_space c)"
    by (induction p) auto
  finally show ?thesis by (simp add: trim_def)
qed

lemma trim_skip: "trim p = [] \<Longrightarrow> trim (p @ u) = trim u"
  unfolding trim_blank by (simp add: trim_def dropWhile_append2)

lemma blank_line: "trim p = [] \<Longrightarrow> row_of (p @ u) = row_of u \<and> bad_line (p @ u) = bad_line u"
  by (simp add: row_of_def bad_line_def trim_skip)

lemma trim_ends: "\<not> is_space a \<Longrightarrow> \<not> is_space b \<Longrightarrow> trim (a # u @ [b]) = a # u @ [b]"
  by (simp add: trim_def)

lemma record_text: "\<exists>u. json_text other (JObj m) = CHR ''{'' # u @ [CHR ''}'']"
  by simp

lemma record_line:
  assumes "plain (JObj m)"
  shows "row_of (json_text other (JObj m)) = task_row (strip (JObj m))" and "\<not> bad_line (json_text other (JObj m))"
    and "trim (json_text other (JObj m)) = json_text other (JObj m)" and "line_feed \<notin> set (json_text other (JObj m))"
proof -
  have t: "trim (json_text other (JObj m)) = json_text other (JObj m)"
    using trim_ends [of "CHR ''{''" "CHR ''}''"] by (simp add: is_space_def)
  have p: "json_parse (json_text other (JObj m)) = Some (strip (JObj m))"
    using json_reads_back [OF assms] by blast
  show "row_of (json_text other (JObj m)) = task_row (strip (JObj m))" "\<not> bad_line (json_text other (JObj m))"
    "trim (json_text other (JObj m)) = json_text other (JObj m)"
    unfolding row_of_def bad_line_def t p by simp_all
  show "line_feed \<notin> set (json_text other (JObj m))"
    using clean_one_line [OF clean_strip [OF assms], of other] strip_text [of other "JObj m"] unfolding line_feed_def by simp
qed

lemma torn_line:
  assumes "plain (JObj m)" and "strict_prefix u (json_text other (JObj m))"
  shows "row_of u = None" and "bad_line u \<or> u = []"
proof -
  obtain c t where ct: "json_text other (JObj m) = u @ c # t" using assms(2) by (rule strict_prefixE')
  have u: "u = [] \<or> (\<exists>r. u = CHR ''{'' # r)" using ct by (cases u) auto
  have "trim u = [] \<or> strict_prefix (trim u) (json_text other (JObj m))"
  proof (cases u)
    case (Cons x r)
    with u have x: "u = CHR ''{'' # r" by simp
    then have "dropWhile is_space u = u" by (simp add: is_space_def)
    then have t: "trim u = rev (dropWhile is_space (rev u))" by (simp add: trim_def)
    have "rev (takeWhile is_space (rev u) @ dropWhile is_space (rev u)) = u" by (simp only: takeWhile_dropWhile_id rev_rev_ident)
    then have "u = trim u @ rev (takeWhile is_space (rev u))" unfolding t rev_append by (rule sym)
    then have "prefix (trim u) u" by (rule prefixI)
    from prefix_order.le_less_trans [OF this assms(2)] show ?thesis by blast
  qed (simp add: trim_def)
  moreover have "\<not> is_space (CHR ''{'')" by code_simp
  then have "trim u = [] \<Longrightarrow> u = []" using u unfolding trim_blank by (elim disjE exE) simp_all
  moreover have "strict_prefix w (json_text other (JObj m)) \<Longrightarrow> json_parse w = None" for w
    using torn_prefix [OF clean_strip [OF assms(1)], where other = other and p = w] strip_text [of other "JObj m"] by (simp add: is_record_def)
  ultimately show "row_of u = None" "bad_line u \<or> u = []" by (auto simp: row_of_def bad_line_def)
qed

lemma file_rows_lines: "file_rows (x @ y) = List.map_filter row_of (butlast (split_on line_feed x)) @
     List.map_filter row_of (split_on line_feed (last (split_on line_feed x) @ y))"
  unfolding file_rows_def split_on_append [of line_feed x y] by (simp add: List.map_filter_def)

lemma file_rows_last: "file_rows x = List.map_filter row_of (butlast (split_on line_feed x)) @
     (case row_of (last (split_on line_feed x)) of None \<Rightarrow> [] | Some r \<Rightarrow> [r])"
  using file_rows_lines [of x "[]"] split_one [OF last_line [of x]]
  by (simp add: List.map_filter_def split: option.splits)

definition bad_lines :: "string \<Rightarrow> nat" where
  "bad_lines x = length (filter bad_line (split_on line_feed x))"

lemma bad_lines_append: "bad_lines (x @ y) = length (filter bad_line (butlast (split_on line_feed x)))
     + length (filter bad_line (split_on line_feed (last (split_on line_feed x) @ y)))"
  unfolding bad_lines_def split_on_append [of line_feed x y] by simp

lemma bad_lines_last: "bad_lines x = length (filter bad_line (butlast (split_on line_feed x))) + (if bad_line (last (split_on line_feed x)) then 1 else 0)"
  using bad_lines_append [of x "[]"] split_one [OF last_line [of x]] by simp

abbreviation tail_line :: "string \<Rightarrow> string" where
  "tail_line x \<equiv> last (split_on line_feed x)"

lemma tail_append: "tail_line (x @ y) = last (split_on line_feed (tail_line x @ y))"
  by (simp add: split_on_append [of line_feed x y])

text \<open>
  The lines of a registry whose last append got as far as \<open>q\<close>: nothing of the row, a torn row, or the
  whole row.
\<close>

datatype row_end = Absent | Torn | Whole

definition ends_as :: "string \<Rightarrow> string \<Rightarrow> json \<Rightarrow> row_end \<Rightarrow> bool" where
  "ends_as x q v k =
     (file_rows (x @ q) = file_rows x @ (if k = Whole then (case task_row (strip v) of None \<Rightarrow> [] | Some r \<Rightarrow> [r]) else [])
      \<and> bad_lines (x @ q) = bad_lines x + (if k = Torn then 1 else 0) \<and> (bad_line (tail_line (x @ q)) \<longleftrightarrow> k = Torn))"

lemma map_filter_Cons: "List.map_filter f (x # xs) = (case f x of None \<Rightarrow> [] | Some y \<Rightarrow> [y]) @ List.map_filter f xs"
  by (simp add: List.map_filter_def split: option.splits)

lemma last_part:
  \<comment> \<open>\<open>u\<close> is what has been written of the row itself\<close>
  assumes "plain (JObj m)" and "prefix u (json_text other (JObj m) @ [line_feed])" and "trim p = []" and "line_feed \<notin> set p"
  shows "\<exists>k. List.map_filter row_of (split_on line_feed (p @ u)) = (if k = Whole then (case task_row (strip (JObj m)) of None \<Rightarrow> [] | Some r \<Rightarrow> [r]) else [])
     \<and> length (filter bad_line (split_on line_feed (p @ u))) = (if k = Torn then 1 else 0)
     \<and> (bad_line (last (split_on line_feed (p @ u))) \<longleftrightarrow> k = Torn) \<and> (u = json_text other (JObj m) @ [line_feed] \<longrightarrow> k = Whole)"
proof -
  let ?t = "json_text other (JObj m)"
  note line = record_line [OF assms(1), of other]
  have blank: "row_of [] = None" "\<not> bad_line []" by (simp_all add: row_of_def bad_line_def trim_def)
  note pb = blank_line [OF assms(3)]
  from assms(2) consider "u = ?t @ [line_feed]" | "u = ?t" | "strict_prefix u ?t"
    unfolding prefix_snoc strict_prefix_def by blast
  then show ?thesis
  proof cases
    case 1
    have "split_on line_feed (p @ u) = [p @ ?t, []]"
      using split_first [of line_feed "p @ ?t" "[]"] line(4) assms(4) by (simp add: 1)
    then show ?thesis using line(1,2) pb [of ?t] blank
      by (intro exI [of _ Whole]) (simp add: List.map_filter_def split: option.splits)
  next
    case 2
    have "split_on line_feed (p @ u) = [p @ ?t]" using split_one [of line_feed "p @ ?t"] line(4) assms(4) 2 by simp
    then show ?thesis using line(1,2) pb [of ?t]
      by (intro exI [of _ Whole]) (simp add: List.map_filter_def split: option.splits)
  next
    case 3
    then obtain w where w: "?t = u @ w" by (auto simp: strict_prefix_def prefix_def)
    have "line_feed \<notin> set u" using line(4) unfolding w by simp
    then have e: "split_on line_feed (p @ u) = [p @ u]" using split_one [of line_feed "p @ u"] assms(4) by simp
    have n: "u \<noteq> ?t @ [line_feed]" using 3 by (auto simp: strict_prefix_def prefix_def)
    show ?thesis
    proof (cases "u = []")
      case True
      then show ?thesis using e n pb [of u] blank by (intro exI [of _ Absent]) (simp add: List.map_filter_def)
    next
      case False
      then show ?thesis using e n pb [of u] torn_line [OF assms(1) 3] by (intro exI [of _ Torn]) (simp add: List.map_filter_def)
    qed
  qed
qed

lemma torn_append:
  assumes "plain (JObj m)" and "\<not> bad_line (tail_line x)"
    and "prefix q (row_bytes env (trim (tail_line x) \<noteq> []) (JObj m))"
  shows "\<exists>k. ends_as x q (JObj m) k \<and> (q = row_bytes env (trim (tail_line x) \<noteq> []) (JObj m) \<longrightarrow> k = Whole)"
proof -
  let ?p = "tail_line x"
  have np: "line_feed \<notin> set ?p" by (rule last_line)
  show ?thesis
  proof (cases "trim ?p = []")
    case True
    then have b: "row_of ?p = None" "\<not> bad_line ?p" by (simp_all add: row_of_def bad_line_def)
    have "prefix q (json_text (re_other env) (JObj m) @ [line_feed])"
      using assms(3) True by (simp add: row_bytes_def)
    from last_part [OF assms(1) this True np] show ?thesis
      unfolding ends_as_def file_rows_lines [of x q] file_rows_last [of x] bad_lines_append [of x q] bad_lines_last [of x] tail_append [of x q]
      using b True by (auto simp: row_bytes_def)
  next
    case False
    show ?thesis
    proof (cases q)
      case Nil
      then show ?thesis using assms(2) False by (intro exI [of _ Absent]) (simp add: ends_as_def row_bytes_def)
    next
      case (Cons c u)
      then have c: "c = line_feed" "prefix u (json_text (re_other env) (JObj m) @ [line_feed])"
        using assms(3) False by (simp_all add: row_bytes_def)
      have s: "split_on line_feed (?p @ q) = ?p # split_on line_feed ([] @ u)"
        unfolding Cons c(1) using split_first [OF np, of u] by simp
      have "trim [] = []" "line_feed \<notin> set []" by (simp_all add: trim_def)
      from last_part [OF assms(1) c(2) this] obtain k where
        k: "List.map_filter row_of (split_on line_feed ([] @ u)) = (if k = Whole then (case task_row (strip (JObj m)) of None \<Rightarrow> [] | Some r \<Rightarrow> [r]) else [])"
          "length (filter bad_line (split_on line_feed ([] @ u))) = (if k = Torn then 1 else 0)"
          "bad_line (last (split_on line_feed ([] @ u))) \<longleftrightarrow> k = Torn" "u = json_text (re_other env) (JObj m) @ [line_feed] \<longrightarrow> k = Whole"
        by blast
      have "ends_as x q (JObj m) k"
        unfolding ends_as_def file_rows_lines [of x q] file_rows_last [of x] bad_lines_append [of x q] bad_lines_last [of x] tail_append [of x q] s
        using k(1-3) assms(2)
        by (cases "row_of (tail_line x)") (simp_all add: map_filter_Cons del: append_Nil strip.simps)
      moreover have "q = row_bytes env (trim ?p \<noteq> []) (JObj m) \<longrightarrow> k = Whole"
        using k(4) Cons False by (simp add: row_bytes_def del: json_text.simps)
      ultimately show ?thesis by blast
    qed
  qed
qed

lemma tasks_rows: "registry_tasks x = fold (\<lambda>(i, t). amap_set i t) (file_rows x) []"
  by (simp add: registry_tasks_def)

lemma tasks_appended:
  assumes "ends_as x q v k"
  shows "registry_tasks (x @ q) = (if k = Whole then (case task_row (strip v) of None \<Rightarrow> registry_tasks x
      | Some (i, t) \<Rightarrow> amap_set i t (registry_tasks x)) else registry_tasks x)"
  using assms by (auto simp: ends_as_def tasks_rows split: option.splits)


section \<open>Reading and appending, on the world\<close>

definition world_ok :: "registry_world \<Rightarrow> bool" where
  \<comment> \<open>the cache is one an incremental reader can hold\<close>
  "world_ok w = coherent (rw_file w, rw_cache w)"

abbreviation world_tasks :: "registry_world \<Rightarrow> task_map" where
  "world_tasks w \<equiv> registry_tasks (file_bytes w)"

lemma exact_empty: "exact_read [] empty_read"
  by (simp add: exact_read_def empty_read_def registry_tasks_def file_rows_def List.map_filter_def row_of_def bad_line_def trim_def)

lemma cached_pending: "cached_from bytes c \<Longrightarrow> rc_pending c = tail_line bytes"
  by (auto simp: cached_from_def apply_bytes Let_def fresh_cache_def)

lemma read_world:
  assumes "world_ok w" and "read_world w = (w1, r)"
  shows "exact_read (file_bytes w) r" and "world_ok w1" and "w1 = w\<lparr>rw_cache := rw_cache w1\<rparr>"
    and "needs_separator (rw_cache w1) \<longleftrightarrow> trim (tail_line (file_bytes w)) \<noteq> []"
proof -
  have w1: "w1 = w\<lparr>rw_cache := fst (readLatestUnlocked (rw_file w) (rw_cache w))\<rparr>"
    and r: "r = snd (readLatestUnlocked (rw_file w) (rw_cache w))"
    using assms(2) by (auto simp: read_world_def split: prod.splits)
  show "w1 = w\<lparr>rw_cache := rw_cache w1\<rparr>" unfolding w1 by simp
  show "world_ok w1" using coherent_readback assms(1) unfolding world_ok_def w1 by simp
  show "exact_read (file_bytes w) r"
    using read_exact [of _ "rw_cache w"] assms(1) exact_empty
    by (cases "rw_file w") (auto simp: r world_ok_def file_bytes_def readLatestUnlocked_def)
  show "needs_separator (rw_cache w1) \<longleftrightarrow> trim (tail_line (file_bytes w)) \<noteq> []"
  proof (cases "rw_file w")
    case None
    then show ?thesis by (simp add: w1 readLatestUnlocked_def needs_separator_def file_bytes_def trim_def)
  next
    case (Some f)
    with refresh_exact(1) [OF coherent_unchanged, of f "rw_cache w"] assms(1) cached_pending show ?thesis
      by (auto simp: w1 readLatestUnlocked_def needs_separator_def file_bytes_def world_ok_def Let_def)
  qed
qed

lemma read_world_same:
  assumes "world_ok w" and "read_world w = (w1, r)"
  shows "file_bytes w1 = file_bytes w" and "rw_index w1 = rw_index w" and "rw_ready w1 = rw_ready w"
    and "rw_seq w1 = rw_seq w" and "rw_briefs w1 = rw_briefs w" and "rw_file w1 = rw_file w"
proof -
  obtain c where "w1 = w\<lparr>rw_cache := c\<rparr>" using read_world(3) [OF assms] by blast
  then show "file_bytes w1 = file_bytes w" "rw_index w1 = rw_index w" "rw_ready w1 = rw_ready w"
    "rw_seq w1 = rw_seq w" "rw_briefs w1 = rw_briefs w" "rw_file w1 = rw_file w" by (simp_all add: file_bytes_def)
qed

lemma append_world:
  assumes "world_ok w" and "read_world w = (w1, r)"
  shows "world_ok (append_bytes env b w1)" and "file_bytes (append_bytes env b w1) = file_bytes w @ b"
proof -
  have f: "rw_file w1 = rw_file w" using read_world_same(6) [OF assms] .
  show "file_bytes (append_bytes env b w1) = file_bytes w @ b"
    by (simp add: file_bytes_def append_bytes_def f split: option.splits)
  show "world_ok (append_bytes env b w1)"
  proof (cases "rw_file w")
    case None
    then have "rw_cache w1 = None" using assms(2) by (auto simp: read_world_def readLatestUnlocked_def)
    then show ?thesis by (simp add: world_ok_def coherent_init append_bytes_def)
  next
    case (Some g)
    then show ?thesis using read_world(2) [OF assms] unfolding world_ok_def f append_bytes_def
      by (auto intro: coherent_grows)
  qed
qed

lemma exact_tail: "exact_read x r \<Longrightarrow> rr_unreadableTail r \<longleftrightarrow> bad_line (tail_line x)"
  and exact_bad: "exact_read x r \<Longrightarrow> rr_unreadableRecords r = bad_lines x"
  and exact_tasks: "exact_read x r \<Longrightarrow> rr_tasks r = registry_tasks x"
  by (simp_all add: exact_read_def bad_lines_def)

lemma tail_counts: "bad_lines x = 0 \<Longrightarrow> \<not> bad_line (tail_line x)"
  by (auto simp: bad_lines_last split: if_splits)

lemma torn_world:
  assumes "world_ok w" and "read_world w = (w1, r)" and "\<not> rr_unreadableTail r" and "plain (JObj m)"
    and "prefix q (row_bytes env (needs_separator (rw_cache w1)) (JObj m))"
  shows "\<exists>k. ends_as (file_bytes w) q (JObj m) k \<and> (q = row_bytes env (needs_separator (rw_cache w1)) (JObj m) \<longrightarrow> k = Whole)"
  using torn_append [OF assms(4), of "file_bytes w" q env] assms(3,5) exact_tail [OF read_world(1) [OF assms(1,2)]]
    read_world(4) [OF assms(1,2)] by simp

text \<open>C22. A crash during an append loses nothing: whatever prefix of the bytes of a row reached the
  file, the next reader finds every task as it was, the written task as it was or in its new version,
  and at most one more unreadable record, which it reports as a torn tail.\<close>

theorem torn_append_loses_nothing:
  assumes "world_ok w" and "read_world w = (w1, r)" and "\<not> rr_unreadableTail r" and "plain (JObj m)"
    and "prefix q (row_bytes env (needs_separator (rw_cache w1)) (JObj m))"
    and "read_world (append_bytes env q w1) = (w2, r2)"
  shows "(\<forall>j. numeric_id (strip (JObj m)) \<noteq> Some j \<longrightarrow> map_of (rr_tasks r2) j = map_of (rr_tasks r) j)
    \<and> (\<forall>j. numeric_id (strip (JObj m)) = Some j \<longrightarrow>
        map_of (rr_tasks r2) j \<in> {map_of (rr_tasks r) j, Some (normalizeTaskEntry (strip (JObj m)))})
    \<and> (rr_unreadableRecords r2 = rr_unreadableRecords r
       \<or> rr_unreadableRecords r2 = rr_unreadableRecords r + 1 \<and> rr_unreadableTail r2 \<and> rr_tasks r2 = rr_tasks r)"
proof -
  obtain k where k: "ends_as (file_bytes w) q (JObj m) k" using torn_world [OF assms(1-5)] by blast
  have e1: "exact_read (file_bytes w) r" using read_world(1) [OF assms(1,2)] .
  have e2: "exact_read (file_bytes w @ q) r2"
    using read_world(1) [OF append_world(1) [OF assms(1,2)] assms(6)] append_world(2) [OF assms(1,2)] by simp
  note t = tasks_appended [OF k]
  have n: "rr_unreadableRecords r2 = rr_unreadableRecords r + (if k = Torn then 1 else 0)" "rr_unreadableTail r2 \<longleftrightarrow> k = Torn"
    using k exact_bad [OF e1] exact_bad [OF e2] exact_tail [OF e2] by (simp_all add: ends_as_def)
  show ?thesis
    unfolding exact_tasks [OF e1] exact_tasks [OF e2] t n
    by (cases k; cases "numeric_id (strip (JObj m))") (simp_all add: task_row_def del: strip.simps)
qed


text \<open>An empty registry, to run the operations on.\<close>

definition example_place :: registry_env where
  "example_place = \<lparr>re_other = \<lambda>_. [], re_sha = \<lambda>s. s, re_tasksDir = ''/t'', re_now = ''now'', re_identity = (1, 1), re_stamp = (1, 1)\<rparr>"

definition example_home :: registry_world where
  "example_home = \<lparr>rw_file = None, rw_cache = None, rw_seq = None, rw_briefs = [], rw_index = [], rw_ready = False\<rparr>"

lemma example_empty: "read_world example_home = (example_home, empty_read)"
  by (simp add: read_world_def example_home_def readLatestUnlocked_def)

theorem torn_append_loses_nothing_witness:
  "rr_unreadableRecords (snd (read_world (append_bytes example_place ''{'' example_home))) \<le> 1"
proof -
  have w: "world_ok example_home" by (simp add: example_home_def world_ok_def coherent_init)
  have p: "prefix ''{'' (row_bytes example_place (needs_separator (rw_cache example_home)) (JObj []))"
    by (simp add: row_bytes_def needs_separator_def example_home_def)
  have e: "\<not> rr_unreadableTail empty_read" "plain (JObj [])" "rr_unreadableRecords empty_read = 0" by (simp_all add: empty_read_def)
  show ?thesis
    using torn_append_loses_nothing [OF w example_empty e(1,2) p, of "fst (read_world (append_bytes example_place ''{'' example_home))"
      "snd (read_world (append_bytes example_place ''{'' example_home))"] e(3) by auto
qed

section \<open>Fields\<close>

lemma own_set_field: "is_record j \<Longrightarrow> own_field (set_field k v j) k' = (if k' = k then v else own_field j k')"
  by (auto simp: is_record_def own_field_def set_field_def split: json.splits)

lemma record_set_field [simp]: "is_record (set_field k v j) = is_record j"
  by (auto simp: is_record_def set_field_def split: json.splits)

lemma record_drop_fields [simp]: "is_record (drop_fields ks j) = is_record j"
  by (auto simp: is_record_def drop_fields_def split: json.splits)

lemma map_of_filter_keys: "map_of (filter (\<lambda>(k, _). k \<notin> set ks) m) k = (if k \<in> set ks then None else map_of m k)"
  by (induction m) auto

lemma own_drop_fields: "own_field (drop_fields ks j) k = (if k \<in> set ks then JUndef else own_field j k)"
  by (auto simp: own_field_def drop_fields_def map_of_filter_keys split: json.splits)

lemma record_normalize [simp]: "is_record (normalizeTaskEntry j) = is_record j"
  by (simp add: normalizeTaskEntry_def Let_def)

lemma own_normalize:
  "is_record j \<Longrightarrow> k \<notin> {''launch'', ''max_attempts'', ''launch_options'', ''launch_seq'', ''max_retries'', ''launch_args''} \<Longrightarrow>
     own_field (normalizeTaskEntry j) k = own_field j k"
  by (simp add: normalizeTaskEntry_def Let_def own_set_field own_drop_fields)

lemma map_of_strip: "map_of (map (\<lambda>(k, v). (k, strip v)) (filter (\<lambda>kv. snd kv \<noteq> JUndef) m)) k
    = (case map_of (filter (\<lambda>kv. snd kv \<noteq> JUndef) m) k of None \<Rightarrow> None | Some v \<Rightarrow> Some (strip v))"
  by (induction m) auto

lemma distinct_filter_map_of:
  "distinct (map fst m) \<Longrightarrow> map_of (filter (\<lambda>kv. snd kv \<noteq> JUndef) m) k = (case map_of m k of None \<Rightarrow> None | Some v \<Rightarrow> if v = JUndef then None else Some v)"
  by (induction m) (force split: option.splits dest: map_of_SomeD)+

lemma own_strip: "plain j \<Longrightarrow> own_field (strip j) k = strip (own_field j k)"
  by (cases j) (auto simp: own_field_def map_of_strip distinct_filter_map_of split: option.splits)

lemma strip_atoms [simp]: "strip v = JUndef \<longleftrightarrow> v = JUndef" "strip v = JNum q \<longleftrightarrow> v = JNum q"
  by (cases v; simp)+

lemma truthy_strip [simp]: "truthy (strip v) = truthy v"
  by (cases v) (simp_all add: truthy_def)

lemma numeric_strip: "plain j \<Longrightarrow> numeric_id (strip j) = numeric_id j"
  by (auto simp: numeric_id_def own_strip split: json.splits)

lemma record_strip [simp]: "is_record (strip v) = is_record v"
  by (cases v) (simp_all add: is_record_def)

lemma record_cases: "is_record j \<Longrightarrow> \<exists>m. j = JObj m"
  by (cases j) (simp_all add: is_record_def)

section \<open>An acknowledged append\<close>

lemma write_index_files [simp]:
  "rw_file (writeSessionTaskIndexes env tasks ls w) = rw_file w" "rw_cache (writeSessionTaskIndexes env tasks ls w) = rw_cache w"
  "rw_seq (writeSessionTaskIndexes env tasks ls w) = rw_seq w" "rw_ready (writeSessionTaskIndexes env tasks ls w)"
  "file_bytes (writeSessionTaskIndexes env tasks ls w) = file_bytes w" "world_ok (writeSessionTaskIndexes env tasks ls w) = world_ok w"
  by (simp_all add: writeSessionTaskIndexes_def file_bytes_def world_ok_def)

definition stored :: "json \<Rightarrow> json" where
  \<comment> \<open>the version a reader obtains of a written task\<close>
  "stored entry = normalizeTaskEntry (strip entry)"

lemma appendEntry_cases:
  assumes "world_ok w" and "appendEntry env entry allow w = (w', res)"
  obtains (refused) e where "res = Inl e" and "world_ok w'" and "file_bytes w' = file_bytes w" and "rw_index w' = rw_index w"
      and "rw_seq w' = rw_seq w" and "rw_ready w' = rw_ready w"
    | (written) w1 r w3 r3 where "res = Inr ()" and "read_world w = (w1, r)" and "\<not> rr_unreadableTail r"
      and "read_world (append_bytes env (row_bytes env (needs_separator (rw_cache w1)) entry) w1) = (w3, r3)"
      and "w' = (let previous = (case Option.bind (numeric_id entry) (map_of (rr_tasks r)) of None \<Rightarrow> JUndef | Some t \<Rightarrow> task_launcher t)
                 in if \<not> rw_ready w3 then writeSessionTaskIndexes env (rr_tasks r3) (launchers_of (rr_tasks r3)) w3
                    else if previous \<noteq> task_launcher entry
                    then writeSessionTaskIndexes env (rr_tasks r3) (filter truthy [previous, task_launcher entry]) w3 else w3)"
proof -
  obtain w1 r where rd: "read_world w = (w1, r)" by (cases "read_world w")
  obtain w3 r3 where rd3: "read_world (append_bytes env (row_bytes env (needs_separator (rw_cache w1)) entry) w1) = (w3, r3)"
    by (cases "read_world (append_bytes env (row_bytes env (needs_separator (rw_cache w1)) entry) w1)")
  show ?thesis
  proof (cases "rr_unreadableRecords r > 0 \<and> \<not> (allow \<and> \<not> rr_unreadableTail r)")
    case True
    then have "w' = w1" "res = Inl (IntegrityError (rr_unreadableRecords r))"
      using assms(2) by (simp_all add: appendEntry_def rd)
    then show ?thesis using refused read_world(2) [OF assms(1) rd] read_world_same [OF assms(1) rd] by simp
  next
    case False
    have "\<not> rr_unreadableTail r"
      using False tail_counts exact_bad [OF read_world(1) [OF assms(1) rd]] exact_tail [OF read_world(1) [OF assms(1) rd]]
      by fastforce
    moreover have "(w', res) = (let previous = (case Option.bind (numeric_id entry) (map_of (rr_tasks r)) of None \<Rightarrow> JUndef | Some t \<Rightarrow> task_launcher t)
                 in if \<not> rw_ready w3 then writeSessionTaskIndexes env (rr_tasks r3) (launchers_of (rr_tasks r3)) w3
                    else if previous \<noteq> task_launcher entry
                    then writeSessionTaskIndexes env (rr_tasks r3) (filter truthy [previous, task_launcher entry]) w3 else w3, Inr ())"
      unfolding assms(2) [symmetric] appendEntry_def Let_def rd prod.case rd3 using False by simp
    ultimately show ?thesis using written rd rd3 by blast
  qed
qed

lemma appended_row_reads:
  assumes "world_ok w" and "read_world w = (w1, r)" and "\<not> rr_unreadableTail r"
    and "plain entry" and "numeric_id entry = Some i"
  shows "registry_tasks (file_bytes w @ row_bytes env (needs_separator (rw_cache w1)) entry) = amap_set i (stored entry) (world_tasks w)"
    and "bad_lines (file_bytes w @ row_bytes env (needs_separator (rw_cache w1)) entry) = bad_lines (file_bytes w)"
proof -
  have "is_record entry" using assms(5) by (cases entry) (simp_all add: numeric_id_def own_field_def is_record_def)
  then obtain m where m: "entry = JObj m" using record_cases by blast
  have k: "ends_as (file_bytes w) (row_bytes env (needs_separator (rw_cache w1)) entry) entry Whole"
    using torn_world [OF assms(1-3), of m _ env] assms(4) unfolding m by blast
  have t: "task_row (strip entry) = Some (i, stored entry)"
    using assms(4,5) numeric_strip by (simp add: task_row_def stored_def)
  show "registry_tasks (file_bytes w @ row_bytes env (needs_separator (rw_cache w1)) entry) = amap_set i (stored entry) (world_tasks w)"
    using tasks_appended [OF k] t by simp
  show "bad_lines (file_bytes w @ row_bytes env (needs_separator (rw_cache w1)) entry) = bad_lines (file_bytes w)"
    using k by (simp add: ends_as_def)
qed

lemma appendEntry_written:
  assumes "world_ok w" and "appendEntry env entry allow w = (w', Inr u)" and "plain entry" and "numeric_id entry = Some i"
  shows "world_ok w' \<and> world_tasks w' = amap_set i (stored entry) (world_tasks w)
    \<and> bad_lines (file_bytes w') = bad_lines (file_bytes w) \<and> rw_seq w' = rw_seq w"
  using assms(1,2)
proof (cases rule: appendEntry_cases)
  case (written w1 r w3 r3)
  let ?b = "row_bytes env (needs_separator (rw_cache w1)) entry"
  note ap = append_world [OF assms(1) written(2), of env ?b]
  have w3: "world_ok w3" "file_bytes w3 = file_bytes w @ ?b" "rw_seq w3 = rw_seq w"
    using read_world(2) [OF ap(1) written(4)] read_world_same [OF ap(1) written(4)] ap(2) read_world_same(4) [OF assms(1) written(2)]
    by (simp_all add: append_bytes_def)
  have e: "world_ok w'" "file_bytes w' = file_bytes w3" "rw_seq w' = rw_seq w3"
    unfolding written(5) Let_def using w3(1) by simp_all
  note rb = appended_row_reads [OF assms(1) written(2,3) assms(3,4), of env]
  show ?thesis
    unfolding e using e(1) w3 rb by simp_all
qed simp_all


lemma appendEntry_refused:
  assumes "world_ok w" and "appendEntry env entry allow w = (w', Inl e)"
  shows "world_ok w' \<and> file_bytes w' = file_bytes w \<and> rw_index w' = rw_index w \<and> rw_seq w' = rw_seq w \<and> rw_ready w' = rw_ready w"
  using assms by (cases rule: appendEntry_cases) simp_all

section \<open>Updates read back\<close>

lemma task_record: "map_of (registry_tasks x) i = Some t \<Longrightarrow> is_record t \<and> own_field t ''id'' = JNum i"
proof -
  have row: "is_record t \<and> own_field t ''id'' = JNum i" if "row_of l = Some (i, t)" for l i t
  proof -
    obtain v where v: "task_row v = Some (i, t)" using \<open>row_of l = Some (i, t)\<close> by (auto simp: row_of_def bind_eq_Some_conv split: if_splits)
    then have n: "own_field v ''id'' = JNum i" and t: "t = normalizeTaskEntry v" by (auto simp: task_row_def numeric_id_def split: json.splits)
    then have "is_record v" by (cases v) (simp_all add: own_field_def is_record_def)
    then show ?thesis using n by (simp add: t own_normalize)
  qed
  have "\<forall>(i, t) \<in> set (file_rows x). is_record t \<and> own_field t ''id'' = JNum i"
    using row by (force simp: file_rows_def List.map_filter_def)
  moreover have "map_of (fold (\<lambda>(i, t). amap_set i t) rows m) i = Some t \<Longrightarrow> (i, t) \<in> set rows \<or> map_of m i = Some t" for rows m
  proof (induction rows arbitrary: m)
    case (Cons a rows)
    then show ?case using Cons.IH [of "amap_set (fst a) (snd a) m"] by (cases a) (auto split: if_splits)
  qed simp
  ultimately show "map_of (registry_tasks x) i = Some t \<Longrightarrow> is_record t \<and> own_field t ''id'' = JNum i"
    unfolding registry_tasks_def by fastforce
qed

lemma externalize_facts:
  assumes "externalizeInlineBrief env entry w = (w', next)" and "is_record entry"
  shows "is_record next" and "k \<notin> {''brief_text'', ''brief_path''} \<Longrightarrow> own_field next k = own_field entry k"
    and "own_field next ''brief_text'' = JUndef"
    and "rw_file w' = rw_file w" and "rw_cache w' = rw_cache w" and "rw_seq w' = rw_seq w"
    and "rw_index w' = rw_index w" and "rw_ready w' = rw_ready w"
proof -
  let ?i = "dflt (numeric_id entry) 0"
  have e: "(w', next) = (if own_field entry ''brief_text'' = JUndef then (w, entry)
      else (w\<lparr>rw_briefs := amap_set ?i (text_of (own_field entry ''brief_text'')) (rw_briefs w)\<rparr>,
            drop_fields [''brief_text''] (set_field ''brief_path'' (JStr (brief_sidecar env \<lfloor>?i\<rfloor>)) entry)))"
    using assms(1) [symmetric] unfolding externalizeInlineBrief_def Let_def .
  note own = own_drop_fields own_set_field [OF assms(2)]
  have all: "is_record next \<and> (k \<notin> {''brief_text'', ''brief_path''} \<longrightarrow> own_field next k = own_field entry k)
    \<and> own_field next ''brief_text'' = JUndef \<and> rw_file w' = rw_file w \<and> rw_cache w' = rw_cache w \<and> rw_seq w' = rw_seq w
    \<and> rw_index w' = rw_index w \<and> rw_ready w' = rw_ready w"
  proof (cases "own_field entry ''brief_text'' = JUndef")
    case True
    then have "w' = w" "next = entry" using e by simp_all
    then show ?thesis using True assms(2) by simp
  next
    case False
    then have "w' = w\<lparr>rw_briefs := amap_set ?i (text_of (own_field entry ''brief_text'')) (rw_briefs w)\<rparr>"
      "next = drop_fields [''brief_text''] (set_field ''brief_path'' (JStr (brief_sidecar env \<lfloor>?i\<rfloor>)) entry)"
      using e by simp_all
    then show ?thesis using assms(2) by (simp add: own)
  qed
  then show "is_record next" "k \<notin> {''brief_text'', ''brief_path''} \<Longrightarrow> own_field next k = own_field entry k"
    "own_field next ''brief_text'' = JUndef" "rw_file w' = rw_file w" "rw_cache w' = rw_cache w" "rw_seq w' = rw_seq w"
    "rw_index w' = rw_index w" "rw_ready w' = rw_ready w"
    by simp_all
qed

lemma record_spread: "is_record j \<Longrightarrow> is_record (spread j patch)"
proof -
  have "is_record (fold (\<lambda>(k, v). set_field k v) m j) = is_record j" for m j
  proof (induction m arbitrary: j)
    case (Cons a m)
    have "is_record (fold (\<lambda>(k, v). set_field k v) (a # m) j) = is_record (fold (\<lambda>(k, v). set_field k v) m (set_field (fst a) (snd a) j))"
      by (simp add: case_prod_beta)
    then show ?case using Cons.IH [of "set_field (fst a) (snd a) j"] by simp
  qed simp
  then show "is_record j \<Longrightarrow> is_record (spread j patch)" by (cases patch) (simp_all add: spread_def)
qed

lemma next_version_facts:
  assumes "is_record current"
  shows "is_record (next_version current patch)"
    and "k \<in> {''id'', ''created_at'', ''tick_log_path''} \<Longrightarrow> own_field (next_version current patch) k = own_field current k"
  using assms record_spread [OF assms, of patch] by (auto simp: next_version_def own_set_field)

section \<open>Created tasks\<close>

lemma parse_int_text: "parse_int (trim (int_text i @ [line_feed])) = i"
proof -
  have d: "\<forall>c \<in> set (dec n). is_digit c" for n using dec_digits(1) by (simp add: list_all_iff)
  have sp: "is_digit c \<Longrightarrow> \<not> is_space c \<and> c \<noteq> CHR ''-'' \<and> c \<noteq> CHR ''+''" for c
    by (auto simp: is_digit_def is_space_def)
  have tw: "takeWhile is_digit (dec n) = dec n" for n using d by (simp add: takeWhile_eq_all_conv)
  obtain c t where c: "int_text i = c # t" "\<not> is_space c" "\<not> is_space (last (int_text i))"
  proof -
    have e: "dec n \<noteq> []" "\<not> is_space (hd (dec n))" "\<not> is_space (last (dec n))" for n
      using d [of n] sp dec_digits(2) [of n] by (blast, simp_all)
    have "\<not> is_space (CHR ''-'')" by code_simp
    then have "int_text i \<noteq> []" "\<not> is_space (hd (int_text i))" "\<not> is_space (last (int_text i))"
      using e by (simp_all add: int_text_def)
    then show ?thesis using that by (cases "int_text i") auto
  qed
  have nl: "is_space line_feed" by (simp add: is_space_def line_feed_def)
  have "trim (int_text i @ [line_feed]) = rev (dropWhile is_space (rev (int_text i)))"
    using c(1,2) nl by (simp add: trim_def)
  also have "\<dots> = int_text i"
  proof -
    have "x \<noteq> [] \<Longrightarrow> \<not> is_space (last x) \<Longrightarrow> dropWhile is_space (rev x) = rev x" for x
      by (cases x rule: rev_cases) auto
    from this [of "int_text i"] show ?thesis using c by simp
  qed
  finally have t: "trim (int_text i @ [line_feed]) = int_text i" .
  show ?thesis
  proof (cases "i < 0")
    case True
    then show ?thesis unfolding t by (simp add: int_text_def parse_int_def tw digits_value_dec)
  next
    case False
    obtain x u where x: "dec (nat i) = x # u" using dec_digits(2) by (cases "dec (nat i)") auto
    then have "x \<noteq> CHR ''-''" "x \<noteq> CHR ''+''" using d [of "nat i"] sp by auto
    then show ?thesis using False tw [of "nat i"] digits_value_dec [of "nat i"] unfolding t by (simp add: int_text_def parse_int_def x Let_def)
  qed
qed

definition last_id :: "registry_world \<Rightarrow> int" where
  \<comment> \<open>the id \<open>tasks-seq\<close> records\<close>
  "last_id w = (case rw_seq w of None \<Rightarrow> 0 | Some raw \<Rightarrow> parse_int (trim raw))"

lemma next_id: "nextIdUnlocked w = (w2, i) \<Longrightarrow> i = last_id w + 1 \<and> last_id w2 = i
    \<and> w2 = w\<lparr>rw_seq := Some (int_text i @ [line_feed])\<rparr>"
  by (auto simp: nextIdUnlocked_def last_id_def Let_def parse_int_text)

lemma new_entry_id: "numeric_id (new_entry env input i) = Some (of_int i)"
proof -
  have "own_field (new_entry env input i) ''id'' = JNum (of_int i)"
    unfolding new_entry_def Let_def
    by (subst own_normalize) (simp_all add: is_record_def own_field_def dflt_def)
  then show ?thesis by (simp add: numeric_id_def)
qed

lemma create_cases:
  assumes "world_ok w" and "create_task env input w = (w', res)"
  obtains (refused) e where "res = Inl e" and "world_ok w'" and "file_bytes w' = file_bytes w" and "rw_index w' = rw_index w"
      and "rw_ready w' = rw_ready w" and "rw_seq w' = rw_seq w"
    | (appended) w3 ar where "world_ok w3" and "file_bytes w3 = file_bytes w" and "rw_index w3 = rw_index w"
      and "rw_ready w3 = rw_ready w" and "last_id w3 = last_id w + 1"
      and "appendEntry env (new_entry env input (last_id w + 1)) True w3 = (w', ar)"
      and "res = (case ar of Inl e \<Rightarrow> Inl e | Inr _ \<Rightarrow> Inr (new_entry env input (last_id w + 1)))"
proof -
  obtain w1 r where rd: "read_world w = (w1, r)" by (cases "read_world w")
  note same = read_world(2) [OF assms(1) rd] read_world_same [OF assms(1) rd]
  obtain w2 i where nx: "nextIdUnlocked w1 = (w2, i)" by (cases "nextIdUnlocked w1")
  define w3 where "w3 = (if own_field input ''brief_text'' = JUndef then w2
                          else w2\<lparr>rw_briefs := amap_set (of_int i) (text_of (own_field input ''brief_text'')) (rw_briefs w2)\<rparr>)"
  have li: "last_id w1 = last_id w" using same by (simp add: last_id_def)
  note ni = next_id [OF nx]
  have i: "i = last_id w + 1" using ni li by simp
  have w2: "world_ok w2" "file_bytes w2 = file_bytes w" "rw_index w2 = rw_index w" "rw_ready w2 = rw_ready w" "last_id w2 = i"
    using ni same by (auto simp: world_ok_def file_bytes_def)
  have w3: "world_ok w3" "file_bytes w3 = file_bytes w" "rw_index w3 = rw_index w" "rw_ready w3 = rw_ready w" "last_id w3 = last_id w + 1"
    using w2 i by (auto simp: w3_def world_ok_def file_bytes_def last_id_def)
  obtain w4 ar where ap: "appendEntry env (new_entry env input i) True w3 = (w4, ar)"
    by (cases "appendEntry env (new_entry env input i) True w3")
  have e: "(w', res) = (if own_field input ''kind'' \<noteq> JUndef \<and> own_field input ''kind'' \<noteq> JStr ''quick'' then (w, Inl AutomationRetired)
      else if rr_unreadableTail r then (w1, Inl (IntegrityError (rr_unreadableRecords r)))
      else (case ar of Inl e \<Rightarrow> (w4, Inl e) | Inr _ \<Rightarrow> (w4, Inr (new_entry env input i))))"
    unfolding assms(2) [symmetric] create_task_def rd nx prod.case Let_def w3_def [symmetric] ap by (cases ar) simp_all
  show ?thesis
  proof (cases "own_field input ''kind'' \<noteq> JUndef \<and> own_field input ''kind'' \<noteq> JStr ''quick''")
    case True
    then show ?thesis using refused e assms(1) by simp
  next
    case kind: False
    show ?thesis
    proof (cases "rr_unreadableTail r")
      case True
      then show ?thesis using refused e kind same by simp
    next
      case False
      then have "w' = w4" "res = (case ar of Inl e \<Rightarrow> Inl e | Inr _ \<Rightarrow> Inr (new_entry env input i))"
        using e kind by (cases ar; simp)+
      then show ?thesis using appended [OF w3, of ar] ap unfolding i by simp
    qed
  qed
qed

lemma append_accepted:
  assumes "world_ok w" and "bad_lines (file_bytes w) = 0"
  shows "snd (appendEntry env entry allow w) = Inr ()"
proof -
  obtain w1 r where rd: "read_world w = (w1, r)" by (cases "read_world w")
  have "rr_unreadableRecords r = 0" using exact_bad [OF read_world(1) [OF assms(1) rd]] assms(2) by simp
  then show ?thesis by (auto simp: appendEntry_def rd Let_def split: prod.splits)
qed

lemma create_accepted:
  assumes "world_ok w" and "bad_lines (file_bytes w) = 0" and "own_field input ''kind'' = JUndef"
  shows "create_task env input w = (fst (create_task env input w), Inr (new_entry env input (last_id w + 1)))"
proof -
  obtain w' res where c: "create_task env input w = (w', res)" by (cases "create_task env input w")
  from assms(1) c show ?thesis
  proof (cases rule: create_cases)
    case (refused e)
    obtain w1 r where rd: "read_world w = (w1, r)" by (cases "read_world w")
    have tl: "\<not> rr_unreadableTail r"
      using exact_tail [OF read_world(1) [OF assms(1) rd]] tail_counts [OF assms(2)] by simp
    have w1: "world_ok w1" "bad_lines (file_bytes w1) = 0"
      using read_world(2) [OF assms(1) rd] read_world_same [OF assms(1) rd] assms(2) by simp_all
    obtain w2 i where nx: "nextIdUnlocked w1 = (w2, i)" by (cases "nextIdUnlocked w1")
    define w3 where "w3 = (if own_field input ''brief_text'' = JUndef then w2
                          else w2\<lparr>rw_briefs := amap_set (of_int i) (text_of (own_field input ''brief_text'')) (rw_briefs w2)\<rparr>)"
    have "world_ok w3" "file_bytes w3 = file_bytes w1" using next_id [OF nx] w1(1)
      by (auto simp: w3_def world_ok_def file_bytes_def)
    then have "snd (appendEntry env (new_entry env input i) True w3) = Inr ()"
      using append_accepted w1(2) by simp
    then have "\<exists>t. res = Inr t"
      using c assms(3) tl unfolding create_task_def rd nx prod.case Let_def w3_def [symmetric]
      by (auto split: prod.splits sum.splits)
    then show ?thesis using refused(1) by simp
  next
    case (appended w3 ar)
    then have "ar = Inr ()" using append_accepted [of w3 env "new_entry env input (last_id w + 1)" True] assms(2) by simp
    then show ?thesis using c appended(7) by simp
  qed
qed

text \<open>A small registry for the examples.\<close>

definition example_input :: json where
  "example_input = JObj [(''name'', JStr ''A''), (''projectDir'', JStr ''/p''),
     (''launcher'', JObj [(''frontend'', JStr ''cli''), (''sessionId'', JStr ''s1'')])]"

definition example_world :: registry_world where
  "example_world = fst (create_task example_place example_input example_home)"

lemma home_facts: "world_ok example_home" "file_bytes example_home = []" "bad_lines [] = 0" "last_id example_home = 0"
  by (simp_all add: example_home_def world_ok_def coherent_init file_bytes_def bad_lines_def bad_line_def trim_def last_id_def)

lemma example_created: "create_task example_place example_input example_home = (example_world, Inr (new_entry example_place example_input 1))"
  using create_accepted [OF home_facts(1), of example_input example_place] home_facts
  by (simp add: example_world_def example_input_def own_field_def dflt_def)

lemma example_plain: "plain (new_entry example_place example_input 1)"
  by code_simp

lemma example_facts:
  "world_ok example_world \<and> world_tasks example_world = [(1, stored (new_entry example_place example_input 1))]
   \<and> bad_lines (file_bytes example_world) = 0"
  using home_facts(1) example_created
proof (cases rule: create_cases)
  case (appended w3 ar)
  let ?t = "new_entry example_place example_input 1"
  have i: "numeric_id ?t = Some 1" using new_entry_id [of example_place example_input 1] by simp
  have "ar = Inr ()" using appended(7) by (auto split: sum.splits)
  then have a: "appendEntry example_place ?t True w3 = (example_world, Inr ())" using appended(6) home_facts(4) by simp
  have "world_tasks example_home = []" using home_facts(2) exact_empty exact_tasks [OF exact_empty] by (simp add: empty_read_def)
  then show ?thesis using appendEntry_written [OF appended(1) a example_plain i] appended(2) home_facts(2,3) by simp
qed simp

lemma update_cases:
  assumes "world_ok w" and "update_task env i patch w = (w', res)"
  obtains (kept) "world_ok w'" and "file_bytes w' = file_bytes w" and "rw_index w' = rw_index w" and "rw_ready w' = rw_ready w"
      and "rw_seq w' = rw_seq w" and "\<And>t. res = Inr t \<Longrightarrow> map_of (world_tasks w) i = Some t"
    | (appended) old w2 nx ar where "world_ok w2" and "file_bytes w2 = file_bytes w" and "rw_index w2 = rw_index w"
      and "rw_ready w2 = rw_ready w" and "rw_seq w2 = rw_seq w" and "map_of (world_tasks w) i = Some old"
      and "\<forall>k \<in> {''id'', ''created_at'', ''tick_log_path''}. own_field nx k = own_field old k"
      and "numeric_id nx = Some i" and "appendEntry env nx False w2 = (w', ar)"
      and "own_field (next_version old patch) ''brief_text'' = JUndef \<Longrightarrow> nx = next_version old patch"
      and "res = (case ar of Inl e \<Rightarrow> Inl e | Inr _ \<Rightarrow> Inr nx)"
proof -
  obtain w1 r where rd: "read_world w = (w1, r)" by (cases "read_world w")
  note rw = read_world(2) [OF assms(1) rd] read_world_same [OF assms(1) rd]
  have tk: "rr_tasks r = world_tasks w" using exact_tasks [OF read_world(1) [OF assms(1) rd]] .
  show ?thesis
  proof (cases "rr_unreadableRecords r > 0 \<or> map_of (world_tasks w) i = None")
    case True
    then have "w' = w1 \<and> (\<exists>e. res = Inl e)"
      using assms(2) unfolding update_task_def rd Let_def prod.case tk by (auto split: if_splits)
    then show ?thesis using kept rw by auto
  next
    case False
    then obtain old where old: "map_of (world_tasks w) i = Some old" by auto
    note rec = task_record [OF old]
    obtain w2 nx where ex: "externalizeInlineBrief env (next_version old patch) w1 = (w2, nx)"
      by (cases "externalizeInlineBrief env (next_version old patch) w1")
    note nv = next_version_facts [OF conjunct1 [OF rec], where patch = patch]
    note ef = externalize_facts [OF ex nv(1)]
    have keep: "\<forall>k \<in> {''id'', ''created_at'', ''tick_log_path''}. own_field nx k = own_field old k"
      using ef(2) nv(2) by auto
    have w2: "world_ok w2" "file_bytes w2 = file_bytes w" "rw_index w2 = rw_index w" "rw_ready w2 = rw_ready w" "rw_seq w2 = rw_seq w"
      using rw ef(4-) by (simp_all add: world_ok_def file_bytes_def)
    have same: "own_field (next_version old patch) ''brief_text'' = JUndef \<Longrightarrow> nx = next_version old patch"
      using ex by (simp add: externalizeInlineBrief_def)
    obtain w3 ar where ap: "appendEntry env nx False w2 = (w3, ar)" by (cases "appendEntry env nx False w2")
    have u: "(w', res) = (if json_text (re_other env) nx = json_text (re_other env) old then (w2, Inr old)
        else case ar of Inl e \<Rightarrow> (w3, Inl e) | Inr _ \<Rightarrow> (w3, Inr nx))"
      using assms(2) False unfolding update_task_def rd Let_def prod.case tk old option.case ex ap by (cases ar) simp_all
    show ?thesis
    proof (cases "json_text (re_other env) nx = json_text (re_other env) old")
      case True
      then show ?thesis using u kept w2 old by auto
    next
      case False
      have "numeric_id nx = Some i" using keep rec by (simp add: numeric_id_def)
      moreover have "w' = w3" "res = (case ar of Inl e \<Rightarrow> Inl e | Inr _ \<Rightarrow> Inr nx)" using u False by (cases ar; simp)+
      ultimately show ?thesis using appended [OF w2 old keep] ap same by blast
    qed
  qed
qed

text \<open>An update that returns is on disk: every later reader finds the returned version (its absent
  members dropped) under the same id, creation time and log path, without an inline brief, and every
  other task and the count of unreadable records as before.  An update that raises changes no task.\<close>

lemma update_reads_back:
  assumes "world_ok w" and "update_task env i patch w = (w', res)" and "\<forall>t. res = Inr t \<longrightarrow> plain t"
  shows "world_ok w' \<and> (\<forall>j. j \<noteq> i \<longrightarrow> map_of (world_tasks w') j = map_of (world_tasks w) j)
    \<and> bad_lines (file_bytes w') = bad_lines (file_bytes w)
    \<and> (case res of
         Inl e \<Rightarrow> world_tasks w' = world_tasks w
       | Inr t \<Rightarrow> (\<exists>old. map_of (world_tasks w) i = Some old
           \<and> (\<forall>k \<in> {''id'', ''created_at'', ''tick_log_path''}. own_field t k = own_field old k)
           \<and> map_of (world_tasks w') i \<in> {Some t, Some (stored t)}))"
proof -
  from assms(1,2) show ?thesis
  proof (cases rule: update_cases)
    case kept
    then show ?thesis by (cases res) auto
  next
    case (appended old w2 nx ar)
    show ?thesis
    proof (cases ar)
      case (Inl e)
      then show ?thesis using appendEntry_refused [OF appended(1)] appended(2,9,11) by auto
    next
      case (Inr u)
      then show ?thesis
        using appendEntry_written [OF appended(1) _ _ appended(8), of env False w' u] appended(2,6,7,9,11) assms(3) by auto
    qed
  qed
qed

end
