(* ===== verification/Registry_Session.thy ===== *)
theory Registry_Session
  imports Registry_Ops
begin

text \<open>
  The registry over a sequence of calls (\<open>src/src/task-registry.ts\<close>): the session indexes that the
  push notifications read, and the allocation of task ids from \<open>tasks-seq\<close>.

  \<open>registry_call\<close> is one locked call of one process; between calls the process may restart and lose
  its cache.
\<close>

section \<open>Session indexes\<close>

definition indexed :: "registry_world \<Rightarrow> string \<Rightarrow> rat list" where
  \<comment> \<open>what a reader of a session index finds\<close>
  "indexed w path = dflt (map_of (rw_index w) path) []"

definition index_exact :: "registry_env \<Rightarrow> registry_world \<Rightarrow> bool" where
  "index_exact env w = (\<forall>path. indexed w path = (if rw_ready w then session_tasks env (world_tasks w) path else []))"

lemma map_of_rewrites:
  "map_of (fold (\<lambda>p. amap_set p (f p)) ps m) q = (if q \<in> set ps then Some (f q) else map_of m q)"
  by (induction ps arbitrary: m) auto

lemma indexed_written:
  "indexed (writeSessionTaskIndexes env tasks ls w) q
     = (if q \<in> launcher_path env ` set ls then session_tasks env tasks q else indexed w q)"
  by (simp add: indexed_def writeSessionTaskIndexes_def map_of_rewrites)

lemma session_tasks_nil: "q \<notin> launcher_path env ` set (launchers_of tasks) \<Longrightarrow> session_tasks env tasks q = []"
  by (force simp: session_tasks_def launchers_of_def filter_empty_conv)

lemma plain_own: "plain l \<Longrightarrow> plain (own_field l k)"
  by (cases l) (auto simp: own_field_def dflt_def list_all_iff split: option.splits dest!: map_of_SomeD)

lemma launcher_key_strip: "plain l \<Longrightarrow> launcher_path env (strip l) = launcher_path env l"
proof -
  assume l: "plain l"
  have k: "json_text (re_other env) (strip v) = json_text (re_other env) v" if "plain v" for v
    using strip_text by metis
  have "plain (own_field l k)" for k using l by (rule plain_own)
  then show ?thesis unfolding launcher_path_def own_strip [OF l]
    using strip_text [of "re_other env" "JArr [own_field l ''frontend'', own_field l ''sessionId'']"]
    strip_text [of "re_other env" "JArr [strip (own_field l ''frontend''), strip (own_field l ''sessionId'')]"] by (simp add: k)
qed

definition of_session :: "registry_env \<Rightarrow> string \<Rightarrow> json \<Rightarrow> bool" where
  "of_session env path l = (truthy l \<and> launcher_path env l = path)"

lemma of_session_strip: "plain l \<Longrightarrow> of_session env path (strip l) = of_session env path l"
  by (simp add: of_session_def launcher_key_strip)

lemma session_tasks_set:
  assumes "case map_of m i of None \<Rightarrow> \<not> of_session env path (task_launcher t)
     | Some t0 \<Rightarrow> of_session env path (task_launcher t0) = of_session env path (task_launcher t)"
  shows "session_tasks env (amap_set i t m) path = session_tasks env m path"
  using assms
proof (induction m)
  case (Cons a m)
  obtain j x where a: "a = (j, x)" by (cases a)
  then show ?case using Cons by (cases "j = i") (auto simp: session_tasks_def of_session_def)
qed (auto simp: session_tasks_def of_session_def)

lemma launcher_stored:
  assumes "plain entry" and "numeric_id entry = Some i"
  shows "task_launcher (stored entry) = strip (task_launcher entry)" and "plain (task_launcher entry)"
proof -
  have "is_record entry" using assms(2) by (cases entry) (simp_all add: numeric_id_def own_field_def is_record_def)
  then show "task_launcher (stored entry) = strip (task_launcher entry)"
    by (simp add: task_launcher_def stored_def own_normalize own_strip [OF assms(1)])
  show "plain (task_launcher entry)" unfolding task_launcher_def by (rule plain_own [OF assms(1)])
qed

lemma append_keeps_index:
  assumes "world_ok w" and "index_exact env w" and "appendEntry env entry allow w = (w', res)"
    and "plain entry" and "numeric_id entry = Some i"
  shows "index_exact env w' \<and> (res = Inr () \<longrightarrow> rw_ready w')"
  using assms(1,3)
proof (cases rule: appendEntry_cases)
  case (refused e)
  then have "world_tasks w' = world_tasks w" by simp
  then show ?thesis using assms(2) refused unfolding index_exact_def indexed_def by simp
next
  case (written w1 r w3 r3)
  let ?b = "row_bytes env (needs_separator (rw_cache w1)) entry" and ?T = "world_tasks w"
  let ?T' = "amap_set i (stored entry) ?T"
  note ap = append_world [OF assms(1) written(2), of env ?b]
  note same = read_world_same [OF assms(1) written(2)] read_world_same [OF ap(1) written(4)]
  have w3: "world_tasks w3 = ?T'" "rr_tasks r3 = ?T'" "rw_ready w3 = rw_ready w" "rw_index w3 = rw_index w"
    using appended_row_reads(1) [OF assms(1) written(2,3) assms(4,5), of env] same ap(2)
      exact_tasks [OF read_world(1) [OF ap(1) written(4)]] by (simp_all add: append_bytes_def)
  have ix: "indexed w3 = indexed w" using w3(4) by (simp add: indexed_def fun_eq_iff)
  note l = launcher_stored [OF assms(4,5)]
  define previous where "previous = (case Option.bind (numeric_id entry) (map_of (rr_tasks r)) of None \<Rightarrow> JUndef | Some t \<Rightarrow> task_launcher t)"
  have prev: "previous = (case map_of ?T i of None \<Rightarrow> JUndef | Some t \<Rightarrow> task_launcher t)"
    unfolding previous_def exact_tasks [OF read_world(1) [OF assms(1) written(2)]] by (simp add: assms(5))
  have no_undef: "\<not> of_session env q JUndef" for q by (simp add: of_session_def truthy_def)
  have unmoved: "session_tasks env ?T' q = session_tasks env ?T q"
    if "of_session env q previous = of_session env q (task_launcher entry)" for q
    using that by (intro session_tasks_set) (auto simp: prev l of_session_strip no_undef split: option.splits)
  have w': "w' = (if \<not> rw_ready w3 then writeSessionTaskIndexes env (rr_tasks r3) (launchers_of (rr_tasks r3)) w3
       else if previous \<noteq> task_launcher entry
       then writeSessionTaskIndexes env (rr_tasks r3) (filter truthy [previous, task_launcher entry]) w3 else w3)"
    unfolding written(5) Let_def previous_def ..
  have old: "indexed w q = (if rw_ready w then session_tasks env ?T q else [])" for q
    using assms(2) by (simp add: index_exact_def)
  show ?thesis
  proof (cases "rw_ready w")
    case False
    then have e: "w' = writeSessionTaskIndexes env ?T' (launchers_of ?T') w3" using w' w3 by simp
    have "indexed w' q = session_tasks env ?T' q" for q
      unfolding e indexed_written ix old using False session_tasks_nil [of q env ?T'] by simp
    then show ?thesis unfolding index_exact_def e by (simp add: w3)
  next
    case True
    show ?thesis
    proof (cases "previous = task_launcher entry")
      case same: True
      then have e: "w' = w3" using w' w3 True by simp
      show ?thesis unfolding index_exact_def e ix old w3 using True unmoved same by simp
    next
      case False
      then have e: "w' = writeSessionTaskIndexes env ?T' (filter truthy [previous, task_launcher entry]) w3"
        using w' w3 True by simp
      have "indexed w' q = session_tasks env ?T' q" for q
      proof (cases "of_session env q previous \<or> of_session env q (task_launcher entry)")
        case True
        then have "q \<in> launcher_path env ` set (filter truthy [previous, task_launcher entry])"
          by (auto simp: of_session_def)
        then show ?thesis unfolding e indexed_written by simp
      next
        case False
        then have "q \<notin> launcher_path env ` set (filter truthy [previous, task_launcher entry])"
          by (auto simp: of_session_def)
        then show ?thesis unfolding e indexed_written ix old using True unmoved False by simp
      qed
      then show ?thesis unfolding index_exact_def e by (simp add: w3)
    qed
  qed
qed

definition seq_covers :: "registry_world \<Rightarrow> bool" where
  "seq_covers w = (\<forall>i t. map_of (world_tasks w) i = Some t \<longrightarrow> i \<le> of_int (last_id w))"

section \<open>Sequences of calls\<close>

text \<open>The clock and the identity and stamp of a file written now differ from call to call.\<close>

definition same_home :: "registry_env \<Rightarrow> registry_env \<Rightarrow> bool" where
  "same_home env env' = (re_sha env' = re_sha env \<and> re_other env' = re_other env)"

inductive registry_call :: "registry_env \<Rightarrow> registry_world \<Rightarrow> registry_world \<Rightarrow> bool" for env where
  created: "same_home env env' \<Longrightarrow> create_task env' input w = (w', res) \<Longrightarrow> plain (new_entry env' input (last_id w + 1))
     \<Longrightarrow> registry_call env w w'"
| updated: "same_home env env' \<Longrightarrow> update_task env' i patch w = (w', res) \<Longrightarrow> (\<And>t. res = Inr t \<Longrightarrow> plain t)
     \<Longrightarrow> registry_call env w w'"
| ensured: "registry_call env w (ensureSessionTaskIndexes env w)"
| looked: "registry_call env w (fst (read_world w))"
| restarted: "registry_call env w (w\<lparr>rw_cache := None\<rparr>)"

definition registry_inv :: "registry_env \<Rightarrow> registry_world \<Rightarrow> bool" where
  "registry_inv env w = (world_ok w \<and> index_exact env w \<and> seq_covers w)"

lemma same_home_index: "same_home env env' \<Longrightarrow> index_exact env' w = index_exact env w"
  by (simp add: index_exact_def session_tasks_def launcher_path_def same_home_def)

lemma call_keeps:
  assumes "registry_inv env w" and "registry_call env w w'"
  shows "registry_inv env w'"
proof -
  have unchanged: "registry_inv env w'" if "world_ok w'" "file_bytes w' = file_bytes w" "rw_index w' = rw_index w"
    "rw_ready w' = rw_ready w" "rw_seq w' = rw_seq w" for w'
    using that assms(1) by (simp add: registry_inv_def index_exact_def indexed_def seq_covers_def last_id_def)
  have append: "registry_inv env w'"
    if h: "same_home env env'" and w3: "registry_inv env w3" and ap: "appendEntry env' entry allow w3 = (w', ar)"
      and p: "plain entry" and i: "numeric_id entry = Some i" and "i \<le> of_int (last_id w3)" for w' w3 entry allow i env' ar
  proof -
    have ok: "world_ok w3" "index_exact env' w3" "seq_covers w3" using w3 same_home_index [OF h] by (simp_all add: registry_inv_def)
    have ix: "index_exact env w'" using append_keeps_index [OF ok(1,2) ap p i] same_home_index [OF h] by blast
    show ?thesis
    proof (cases ar)
      case (Inl e)
      then show ?thesis using appendEntry_refused [OF ok(1)] ap ix ok(3)
        by (auto simp: registry_inv_def seq_covers_def last_id_def)
    next
      case (Inr u)
      then have "world_ok w'" "world_tasks w' = amap_set i (stored entry) (world_tasks w3)" "rw_seq w' = rw_seq w3"
        using appendEntry_written [OF ok(1) _ p i] ap by auto
      then show ?thesis using ix ok(3) \<open>i \<le> of_int (last_id w3)\<close>
        by (auto simp: registry_inv_def seq_covers_def last_id_def)
    qed
  qed
  note inv = assms(1) [unfolded registry_inv_def]
  have wo: "world_ok w" using inv by blast
  have read: "registry_inv env (fst (read_world w))"
  proof -
    obtain w1 r where rd: "read_world w = (w1, r)" by (cases "read_world w")
    then show ?thesis using unchanged [of w1] read_world(2) [OF _ rd] read_world_same [OF _ rd] inv by simp
  qed
  from assms(2) show ?thesis
  proof cases
    case (created env' input res)
    from wo created(2) show ?thesis
    proof (cases rule: create_cases)
      case (appended w3 ar)
      then have "registry_inv env w3" using inv by (auto simp: registry_inv_def index_exact_def indexed_def seq_covers_def; force)
      from append [OF created(1) this appended(6) created(3) new_entry_id] show ?thesis by (simp add: appended(5))
    qed (use inv unchanged in auto)
  next
    case (updated env' i patch res)
    from wo updated(2) show ?thesis
    proof (cases rule: update_cases)
      case (appended old w2 nx ar)
      then have w2: "registry_inv env w2" using unchanged [of w2] by simp
      have li: "last_id w2 = last_id w" using appended by (simp add: last_id_def)
      have "i \<le> of_int (last_id w2)" using inv appended(6) li by (auto simp: seq_covers_def)
      then show ?thesis
      proof (cases ar)
        case (Inl e)
        then show ?thesis using appendEntry_refused [OF appended(1)] appended unchanged [of w'] by auto
      next
        case (Inr u)
        then have "plain nx" using appended(11) updated(3) by simp
        from append [OF updated(1) w2 appended(9) this appended(8)] \<open>i \<le> of_int (last_id w2)\<close> show ?thesis by simp
      qed
    qed (use inv unchanged in auto)
  next
    case ensured
    show ?thesis
    proof (cases "rw_ready w")
      case True
      then show ?thesis using ensured assms(1) by (simp add: ensureSessionTaskIndexes_def)
    next
      case False
      obtain w1 r where rd: "read_world w = (w1, r)" by (cases "read_world w")
      then have w1: "registry_inv env w1" using read by simp
      have t: "rr_tasks r = world_tasks w1" "\<not> rw_ready w1"
        using exact_tasks [OF read_world(1) [OF _ rd]] read_world_same [OF _ rd] inv False by simp_all
      have e: "w' = writeSessionTaskIndexes env (world_tasks w1) (launchers_of (world_tasks w1)) w1"
        using ensured False t by (simp add: ensureSessionTaskIndexes_def rd)
      have "indexed w' q = session_tasks env (world_tasks w1) q" for q
        unfolding e indexed_written using w1 t(2) session_tasks_nil [of q env "world_tasks w1"]
        by (simp add: registry_inv_def index_exact_def)
      then show ?thesis using w1 unfolding e
        by (simp add: registry_inv_def index_exact_def seq_covers_def last_id_def)
    qed
  next
    case looked
    then show ?thesis using read by simp
  next
    case restarted
    have "world_ok w'" unfolding restarted by (simp add: world_ok_def coherent_init)
    then show ?thesis using unchanged [of w'] by (simp add: restarted file_bytes_def)
  qed
qed

definition new_home :: "registry_world \<Rightarrow> bool" where
  "new_home w = (rw_file w = None \<and> rw_cache w = None \<and> rw_seq w = None \<and> rw_index w = [] \<and> \<not> rw_ready w)"

lemma new_home_inv: "new_home w \<Longrightarrow> registry_inv env w"
  by (simp add: new_home_def registry_inv_def world_ok_def coherent_init index_exact_def indexed_def dflt_def seq_covers_def
      file_bytes_def registry_tasks_def file_rows_def List.map_filter_def row_of_def trim_def)

interpretation calls: machine new_home "registry_call env" "registry_inv env" for env
  by unfold_locales (blast intro: new_home_inv call_keeps)+

lemma example_reached: "reachable new_home (registry_call example_place) example_world"
proof (rule reach_step [OF reach_init])
  show "new_home example_home" by (simp add: new_home_def example_home_def)
  show "registry_call example_place example_home example_world"
    by (rule created [OF _ example_created]) (use example_plain home_facts in \<open>simp_all add: same_home_def\<close>)
qed

lemma example_ready: "rw_ready example_world"
  using home_facts(1) example_created
proof (cases rule: create_cases)
  case (appended w3 ar)
  let ?t = "new_entry example_place example_input 1"
  have i: "numeric_id ?t = Some 1" using new_entry_id [of example_place example_input 1] by simp
  have "ar = Inr ()" using appended(7) by (auto split: sum.splits)
  then have a: "appendEntry example_place ?t True w3 = (example_world, Inr ())" using appended(6) home_facts(4) by simp
  have "index_exact example_place w3" using appended(3,4) by (simp add: index_exact_def indexed_def example_home_def dflt_def)
  from append_keeps_index [OF appended(1) this a example_plain i] show ?thesis by simp
qed simp

text \<open>The session indexes are exact in every world the calls of the registry reach: once they are
  published, the index of a launching session lists exactly the tasks of that session, in the order of
  the registry, although an append rewrites only the sessions it moves a task from or to.\<close>

lemma session_indexes_exact:
  assumes "reachable new_home (registry_call env) w" and "rw_ready w"
  shows "indexed w path = session_tasks env (world_tasks w) path"
  using calls.reachable_inv [OF assms(1)] assms(2) by (simp add: registry_inv_def index_exact_def)

text \<open>Creation allocates: in every world the calls reach, a created task has an id no task had, the
  tasks that existed are unchanged, and every reader finds the created task.\<close>

lemma create_allocates_fresh:
  assumes "reachable new_home (registry_call env) w" and "create_task env input w = (w', Inr t)" and "plain t"
  shows "\<exists>i. numeric_id t = Some i \<and> map_of (world_tasks w) i = None
    \<and> world_tasks w' = amap_set i (stored t) (world_tasks w)"
proof -
  note inv = calls.reachable_inv [OF assms(1), unfolded registry_inv_def]
  have "world_ok w" using inv by blast
  from this assms(2) show ?thesis
  proof (cases rule: create_cases)
    case (appended w3 ar)
    let ?i = "of_int (last_id w + 1) :: rat"
    have t: "t = new_entry env input (last_id w + 1)" "\<exists>u. ar = Inr u" using appended(7) by (auto split: sum.splits)
    have i: "numeric_id t = Some ?i" unfolding t by (rule new_entry_id)
    have "map_of (world_tasks w) ?i = None"
    proof (rule ccontr)
      assume "map_of (world_tasks w) ?i \<noteq> None"
      then obtain x where "map_of (world_tasks w) ?i = Some x" by blast
      then have "?i \<le> of_int (last_id w)" using inv by (auto simp: seq_covers_def)
      then show False by simp
    qed
    moreover have "world_tasks w' = amap_set ?i (stored t) (world_tasks w)"
      using appendEntry_written [OF appended(1) _ assms(3) i, of env True] appended(6) t appended(2) by auto
    ultimately show ?thesis using i by blast
  qed (use inv in auto)
qed

text \<open>C23. A lost or damaged \<open>tasks-seq\<close> reuses ids: when the file is missing or holds no number, creation
  takes id 1 whatever the registry holds, and a task of that id is replaced in every reader's view.\<close>

theorem lost_sequence_reuses_id:
  assumes "world_ok w" and "case rw_seq w of None \<Rightarrow> True | Some raw \<Rightarrow> parse_int (trim raw) = 0"
    and "create_task env input w = (w', Inr t)" and "plain t"
  shows "numeric_id t = Some 1 \<and> map_of (world_tasks w') 1 = Some (stored t)"
proof -
  have l: "last_id w = 0" using assms(2) by (auto simp: last_id_def split: option.splits)
  from assms(1,3) show ?thesis
  proof (cases rule: create_cases)
    case (appended w3 ar)
    have t: "t = new_entry env input 1" "\<exists>u. ar = Inr u" using appended(7) l by (auto split: sum.splits)
    have i: "numeric_id t = Some 1" using new_entry_id [of env input 1] t by simp
    then show ?thesis
      using appendEntry_written [OF appended(1) _ assms(4) i, of env True] appended(6) t l by auto
  qed simp
qed

theorem lost_sequence_reuses_id_witness:
  "let w = example_world\<lparr>rw_seq := None\<rparr>; input = JObj [(''name'', JStr ''B'')]
   in map_of (world_tasks w) 1 = Some (stored (new_entry example_place example_input 1))
     \<and> map_of (world_tasks (fst (create_task example_place input w))) 1 = Some (stored (new_entry example_place input 1))"
proof -
  let ?w = "example_world\<lparr>rw_seq := None\<rparr>" and ?in = "JObj [(''name'', JStr ''B'')]"
  have ok: "world_ok ?w" "file_bytes ?w = file_bytes example_world" "last_id ?w = 0"
    using example_facts by (simp_all add: world_ok_def file_bytes_def last_id_def)
  have c: "create_task example_place ?in ?w = (fst (create_task example_place ?in ?w), Inr (new_entry example_place ?in 1))"
    using create_accepted [OF ok(1), of ?in example_place] ok example_facts by (simp add: own_field_def dflt_def)
  have "plain (new_entry example_place ?in 1)" by code_simp
  from lost_sequence_reuses_id [OF ok(1) _ c this] show ?thesis using example_facts ok by (simp add: Let_def)
qed

section \<open>Orphan recovery\<close>

text \<open>Recovery of a run starts only when the registry shows it unbound: the caller still owns the
  lock, every row is readable, every task has a known status, and every active task that names a run
  names one whose binding can be resolved and is another run.\<close>

lemma recovery_only_unbound:
  assumes "world_ok w" and "withUnboundRun resolve runId owned w = (w', Inr ())"
    and "map_of (world_tasks w) i = Some t"
  shows "owned \<and> bad_lines (file_bytes w) = 0 \<and> isKnownTaskStatus (task_state t)
    \<and> (task_active t \<longrightarrow> truthy (own_field t ''run_id'') \<longrightarrow>
        (\<exists>b. resolve (text_of (own_field t ''run_id'')) = Some b \<and> b \<noteq> runId))"
proof -
  obtain w1 r where rd: "read_world w = (w1, r)" by (cases "read_world w")
  have x: "exact_read (file_bytes w) r" using read_world(1) [OF assms(1) rd] .
  have a: "owned" "assert_unbound resolve runId owned r = Inr ()"
    using assms(2) by (auto simp: withUnboundRun_def rd split: if_splits)
  then have b: "rr_unreadableRecords r = 0" "\<not> rr_unknownStatuses r"
    and f: "find (\<lambda>b. resolve (text_of b) = None \<or> resolve (text_of b) = Some runId)
      (filter truthy (map (\<lambda>(i, t). own_field t ''run_id'') (rr_active r))) = None"
    by (auto simp: assert_unbound_def Let_def split: if_splits option.splits)
  have known: "isKnownTaskStatus (task_state t)" using x b(2) assms(3) by (auto simp: exact_read_def)
  have "\<exists>b. resolve (text_of (own_field t ''run_id'')) = Some b \<and> b \<noteq> runId"
    if "task_active t" "truthy (own_field t ''run_id'')"
  proof -
    have "map_of (rr_active r) i = Some t" using x assms(3) \<open>task_active t\<close> by (simp add: exact_read_def)
    then have "(i, t) \<in> set (rr_active r)" by (rule map_of_SomeD)
    then have "own_field t ''run_id'' \<in> set (filter truthy (map (\<lambda>(i, t). own_field t ''run_id'') (rr_active r)))"
      using \<open>truthy (own_field t ''run_id'')\<close> by force
    then show ?thesis using f by (cases "resolve (text_of (own_field t ''run_id''))") (auto simp: find_None_iff)
  qed
  then show ?thesis using a(1) b(1) exact_bad [OF x] known by simp
qed

end
