(* ===== verification/Registry_Maintenance.thy ===== *)
theory Registry_Maintenance
  imports Registry_Ops "HOL-Library.Multiset"
begin

text \<open>
  Maintenance of the task registry (\<open>src/src/task-registry.ts\<close>): \<open>repair\<close> recovers the rows a torn write
  ran into and moves every other damaged line to quarantine, \<open>compact\<close> keeps the last row of every
  task, and both write only after a verified backup and check what they wrote.
\<close>

section \<open>Physical lines and metrics\<close>

record physical_line =
  pl_line :: nat
  pl_raw :: string
  pl_trimmed :: string
  pl_value :: "json option"
  pl_unreadable :: bool

definition physical_line :: "nat \<times> string \<Rightarrow> physical_line" where
  "physical_line = (\<lambda>(n, raw).
     if trim raw = [] then \<lparr>pl_line = n, pl_raw = raw, pl_trimmed = [], pl_value = None, pl_unreadable = False\<rparr>
     else case json_parse (trim raw) of
            Some v \<Rightarrow> \<lparr>pl_line = n, pl_raw = raw, pl_trimmed = trim raw, pl_value = Some v, pl_unreadable = False\<rparr>
          | None \<Rightarrow> \<lparr>pl_line = n, pl_raw = raw, pl_trimmed = trim raw, pl_value = None, pl_unreadable = True\<rparr>)"

definition raw_lines :: "string \<Rightarrow> string list" where
  "raw_lines raw = (if raw = [] then []
     else let lines = split_on line_feed raw in if last raw = line_feed then butlast lines else lines)"

definition physicalLines :: "string \<Rightarrow> physical_line list" where
  "physicalLines raw = map physical_line (zip [1..<Suc (length (raw_lines raw))] (raw_lines raw))"

record task_metrics =
  tm_bytes :: nat
  tm_records :: nat
  tm_tasks :: nat
  tm_activeTasks :: nat
  tm_unreadableRecords :: nat
  tm_compactRecommended :: bool

definition COMPACTION_BYTES :: nat where "COMPACTION_BYTES = 64 * 1024 * 1024"
definition COMPACTION_RECORDS :: nat where "COMPACTION_RECORDS = 10000"

definition line_row :: "physical_line \<Rightarrow> (rat \<times> json) option" where
  \<comment> \<open>the task of a readable line, normalised\<close>
  "line_row l = Option.bind (pl_value l) task_row"

definition latest_map :: "physical_line list \<Rightarrow> task_map" where
  "latest_map ls = fold (\<lambda>(i, t). amap_set i t) (List.map_filter line_row ls) []"

definition metrics_of :: "nat \<Rightarrow> nat \<Rightarrow> nat \<Rightarrow> nat \<Rightarrow> nat \<Rightarrow> task_metrics" where
  "metrics_of bytes records tasks active unreadable =
     \<lparr>tm_bytes = bytes, tm_records = records, tm_tasks = tasks, tm_activeTasks = active, tm_unreadableRecords = unreadable,
      tm_compactRecommended = (bytes \<ge> COMPACTION_BYTES \<or> records \<ge> COMPACTION_RECORDS)\<rparr>"

definition metricsFromRaw :: "string \<Rightarrow> task_metrics" where
  "metricsFromRaw raw =
     (let ls = physicalLines raw; tasks = latest_map ls
      in metrics_of (length raw) (length (filter (\<lambda>l. pl_trimmed l \<noteq> []) ls)) (length tasks)
           (length (filter (task_active \<circ> snd) tasks)) (length (filter pl_unreadable ls)))"

definition metricsFromCache :: "registry_cache option \<Rightarrow> nat \<Rightarrow> registry_read \<Rightarrow> task_metrics" where
  \<comment> \<open>the size of the file is the one the reader saw\<close>
  "metricsFromCache cache bytes r =
     (let records = (case cache of None \<Rightarrow> 0 | Some c \<Rightarrow> rc_records c + (if trim (rc_pending c) \<noteq> [] then 1 else 0))
      in metrics_of bytes records (length (rr_tasks r)) (length (rr_active r)) (rr_unreadableRecords r))"

definition latestTasksFromRaw :: "string \<Rightarrow> task_map" where
  "latestTasksFromRaw raw = by_id (latest_map (physicalLines raw))"

section \<open>Recovering a torn row\<close>

definition typed :: "json \<Rightarrow> string \<Rightarrow> bool" where
  \<comment> \<open>\<open>typeof v === type\<close>, for the two types a task needs\<close>
  "typed v type = (case v of JNum _ \<Rightarrow> type = ''number'' | JStr _ \<Rightarrow> type = ''string'' | _ \<Rightarrow> False)"

definition isCompleteTaskRecord :: "json \<Rightarrow> bool" where
  "isCompleteTaskRecord v =
     (let f = own_field v
      in (case f ''id'' of JNum q \<Rightarrow> q \<in> \<int> | _ \<Rightarrow> False)
         \<and> list_all (\<lambda>k. typed (f k) ''string'') [''name'', ''projectDir'', ''systemd_unit'', ''status'']
         \<and> typed (f ''attempt'') ''number''
         \<and> typed (coalesce (f ''max_attempts'') (f ''max_retries'')) ''number''
         \<and> list_all (\<lambda>k. typed (f k) ''string'') [''created_at'', ''tick_log_path''])"

definition match_id :: "string \<Rightarrow> (nat \<times> string) option" where
  \<comment> \<open>\<open>/"id"\s*:\s*(\d+)/\<close> at the start of a text: the number and what follows\<close>
  "match_id s =
     (if starts_with [CHR 0x22, CHR ''i'', CHR ''d'', CHR 0x22] s
      then let r = dropWhile is_space (drop 4 s); d = dropWhile is_space (drop 1 r); ds = takeWhile is_digit d
           in if take 1 r = '':'' \<and> ds \<noteq> [] then Some (digits_value 10 ds, drop (length ds) d) else None
      else None)"


lemma match_id_shorter: "match_id s = Some (n, t) \<Longrightarrow> length t < length s"
proof -
  assume m: "match_id s = Some (n, t)"
  define r where "r = dropWhile is_space (drop 4 s)"
  define d where "d = dropWhile is_space (drop 1 r)"
  have t: "t = drop (length (takeWhile is_digit d)) d" "starts_with [CHR 0x22, CHR ''i'', CHR ''d'', CHR 0x22] s"
    using m by (auto simp: match_id_def Let_def r_def d_def split: if_splits)
  have "length t \<le> length d" using t by simp
  also have "\<dots> \<le> length (drop 1 r)" unfolding d_def by (rule length_dropWhile_le)
  also have "\<dots> \<le> length r" by simp
  also have "\<dots> \<le> length (drop 4 s)" unfolding r_def by (rule length_dropWhile_le)
  finally have "length t \<le> length s - 4" by simp
  moreover have "length s \<ge> 4" using t(2) by (cases "length s \<ge> 4") (auto simp: starts_with_def dest: arg_cong [of _ _ length])
  ultimately show "length t < length s" by simp
qed

function prefix_ids :: "string \<Rightarrow> nat list" where
  \<comment> \<open>\<open>matchAll\<close>: from left to right, without overlap\<close>
  "prefix_ids [] = []"
| "prefix_ids (c # s) = (case match_id (c # s) of None \<Rightarrow> prefix_ids s | Some (n, t) \<Rightarrow> n # prefix_ids t)"
  by pat_completeness auto

termination
  by (relation "measure length") (auto dest: match_id_shorter [of "_ # _"])

definition torn_candidate :: "string \<Rightarrow> nat \<Rightarrow> (json \<times> string) option" where
  \<comment> \<open>the row that begins at an opening brace of the line\<close>
  "torn_candidate line index =
     (let before = take index line; rest = trim (drop index line)
      in if \<not> starts_with ''{'' (dropWhile is_space before) then None
         else case json_parse rest of
           None \<Rightarrow> None
         | Some v \<Rightarrow>
             if isCompleteTaskRecord v \<and> prefix_ids before \<noteq> []
                \<and> list_all (\<lambda>n. own_field v ''id'' = JNum (of_nat n)) (prefix_ids before)
             then Some (v, rest) else None)"

definition brace_positions :: "string \<Rightarrow> nat list" where
  "brace_positions line = filter (\<lambda>i. line ! i = CHR ''{'') [1..<length line]"

definition recoverTornRow :: "string \<Rightarrow> (json \<times> string) option" where
  "recoverTornRow line =
     (case List.map_filter (torn_candidate line) (brace_positions line) of [c] \<Rightarrow> Some c | _ \<Rightarrow> None)"

section \<open>Plans\<close>

datatype maintenance_kind = RepairRow | Quarantine | DropObsolete | DropBlank

record maintenance_action =
  ma_kind :: maintenance_kind
  ma_line :: nat
  ma_taskId :: "rat option"

definition action :: "maintenance_kind \<Rightarrow> nat \<Rightarrow> rat option \<Rightarrow> maintenance_action" where
  "action k n i = \<lparr>ma_kind = k, ma_line = n, ma_taskId = i\<rparr>"

definition joined_lines :: "string list \<Rightarrow> string" where
  \<comment> \<open>the lines, each with its separator\<close>
  "joined_lines ls = (if ls = [] then [] else join_with [line_feed] ls @ [line_feed])"

record repair_plan =
  rp_output :: string
  rp_quarantine :: string
  rp_actions :: "maintenance_action list"
  rp_repaired :: nat
  rp_quarantined :: nat
  rp_before :: task_metrics
  rp_after :: task_metrics

definition quarantine_row :: "(rat \<Rightarrow> string) \<Rightarrow> physical_line \<Rightarrow> string" where
  "quarantine_row other l = json_text other (JObj [(''line'', JNum (of_nat (pl_line l))), (''raw'', JStr (pl_raw l))])"

definition repair_line ::
  "(rat \<Rightarrow> string) \<Rightarrow> physical_line \<Rightarrow> string list \<times> string list \<times> maintenance_action list \<Rightarrow> string list \<times> string list \<times> maintenance_action list" where
  "repair_line other l acc =
     (let (out, quarantined, actions) = acc
      in if \<not> pl_unreadable l then (out @ [pl_raw l], quarantined, actions)
         else case recoverTornRow (pl_trimmed l) of
           Some (task, rest) \<Rightarrow> (out @ [rest], quarantined, actions @ [action RepairRow (pl_line l) (numeric_id task)])
         | None \<Rightarrow> (out, quarantined @ [quarantine_row other l], actions @ [action Quarantine (pl_line l) None]))"

definition planRepair :: "(rat \<Rightarrow> string) \<Rightarrow> string \<Rightarrow> repair_plan" where
  "planRepair other raw =
     (let (out, quarantined, actions) = fold (repair_line other) (physicalLines raw) ([], [], []);
          output = joined_lines out
      in \<lparr>rp_output = output, rp_quarantine = joined_lines quarantined, rp_actions = actions,
          rp_repaired = length (filter (\<lambda>a. ma_kind a = RepairRow) actions), rp_quarantined = length quarantined,
          rp_before = metricsFromRaw raw, rp_after = metricsFromRaw output\<rparr>)"

record compact_plan =
  cp_output :: string
  cp_actions :: "maintenance_action list"
  cp_removed :: int
  cp_before :: task_metrics
  cp_after :: task_metrics

fun compact_rows :: "physical_line list \<Rightarrow> nat + (rat \<times> physical_line) list" where
  \<comment> \<open>the rows with their ids, or the number of the first line without one\<close>
  "compact_rows [] = Inr []"
| "compact_rows (l # ls) =
     (if pl_trimmed l = [] then compact_rows ls
      else case Option.bind (pl_value l) numeric_id of
             None \<Rightarrow> Inl (pl_line l)
           | Some i \<Rightarrow> map_sum id (\<lambda>rows. (i, l) # rows) (compact_rows ls))"

definition last_by_id :: "(rat \<times> physical_line) list \<Rightarrow> (rat \<times> physical_line) list" where
  "last_by_id rows = fold (\<lambda>(i, l). amap_set i l) rows []"

definition kept_rows :: "(rat \<times> physical_line) list \<Rightarrow> (rat \<times> physical_line) list" where
  "kept_rows rows = sort_key (pl_line \<circ> snd) (last_by_id rows)"

definition planCompact :: "string \<Rightarrow> registry_error + compact_plan" where
  "planCompact raw =
     (let ls = physicalLines raw; before = metricsFromRaw raw
      in if tm_unreadableRecords before > 0 then Inl (IntegrityError (tm_unreadableRecords before))
         else case compact_rows ls of
           Inl n \<Rightarrow> Inl (RowWithoutId n)
         | Inr rows \<Rightarrow>
             let kept = kept_rows rows;
                 output = joined_lines (map (pl_raw \<circ> snd) kept);
                 obsolete = filter (\<lambda>(i, l). map_option pl_line (map_of (last_by_id rows) i) \<noteq> Some (pl_line l)) rows;
                 blanks = filter (\<lambda>l. pl_trimmed l = []) ls;
                 after = metricsFromRaw output
             in if latestTasksFromRaw raw \<noteq> latestTasksFromRaw output \<or> tm_records after \<noteq> tm_tasks after then Inl NotEquivalent
                else Inr \<lparr>cp_output = output,
                          cp_actions = map (\<lambda>(i, l). action DropObsolete (pl_line l) (Some i)) obsolete
                            @ map (\<lambda>l. action DropBlank (pl_line l) None) blanks,
                          cp_removed = int (tm_records before) - int (tm_records after), cp_before = before, cp_after = after\<rparr>)"

section \<open>Applying a plan\<close>

text \<open>
  The evidence files of a maintenance run: the verified backup, and the quarantined lines.  Replacing
  the registry gives it a new identity.
\<close>

record evidence =
  ev_backup :: "string option"
  ev_quarantine :: "string option"

definition replace_bytes :: "registry_env \<Rightarrow> string \<Rightarrow> registry_world \<Rightarrow> registry_world" where
  \<comment> \<open>\<open>writeAtomic(registryPath, content)\<close>\<close>
  "replace_bytes env b w = w\<lparr>rw_file := Some \<lparr>rf_identity = re_identity env, rf_bytes = b, rf_stamp = re_stamp env\<rparr>\<rparr>"

definition no_evidence :: evidence where
  "no_evidence = \<lparr>ev_backup = None, ev_quarantine = None\<rparr>"

definition repair_registry :: "registry_env \<Rightarrow> bool \<Rightarrow> registry_world \<Rightarrow> registry_world \<times> evidence \<times> (registry_error + repair_plan)" where
  "repair_registry env apply_it w =
     (let raw = file_bytes w; plan = planRepair (re_other env) raw; changed = (rp_actions plan \<noteq> []);
          write = apply_it \<and> changed;
          ev = (if write then \<lparr>ev_backup = Some raw, ev_quarantine = (if rp_quarantined plan > 0 then Some (rp_quarantine plan) else None)\<rparr>
                else no_evidence);
          w1 = (if write then replace_bytes env (rp_output plan) w else w)
      in if write \<and> tm_unreadableRecords (metricsFromRaw (file_bytes w1)) \<noteq> 0
         then (replace_bytes env raw w1, ev, Inl ValidationFailed)
         else if apply_it
         then (let (w2, r) = read_world w1
               in (writeSessionTaskIndexes env (rr_tasks r) (launchers_of (rr_tasks r)) w2, ev, Inr plan))
         else (w1, ev, Inr plan))"

definition compact_registry :: "registry_env \<Rightarrow> bool \<Rightarrow> registry_world \<Rightarrow> registry_world \<times> evidence \<times> (registry_error + compact_plan)" where
  "compact_registry env apply_it w =
     (let raw = file_bytes w
      in case planCompact raw of
           Inl e \<Rightarrow> (w, no_evidence, Inl e)
         | Inr plan \<Rightarrow>
             if apply_it \<and> cp_output plan \<noteq> raw
             then (let w1 = replace_bytes env (cp_output plan) w; after = file_bytes w1; m = metricsFromRaw after;
                       ev = \<lparr>ev_backup = Some raw, ev_quarantine = None\<rparr>
                   in if tm_unreadableRecords m \<noteq> 0 \<or> tm_records m \<noteq> tm_tasks m \<or> latestTasksFromRaw raw \<noteq> latestTasksFromRaw after
                      then (replace_bytes env raw w1, ev, Inl ValidationFailed)
                      else (w1, ev, Inr plan))
             else (w, no_evidence, Inr plan))"

section \<open>Lines and rows\<close>

lemma raw_lines_split: "split_on line_feed raw = raw_lines raw @ (if raw = [] \<or> last raw = line_feed then [[]] else [])"
proof (cases raw rule: rev_cases)
  case (snoc ys y)
  show ?thesis
  proof (cases "y = line_feed")
    case True
    have "split_on line_feed (ys @ [line_feed]) = butlast (split_on line_feed ys) @ split_on line_feed (last (split_on line_feed ys) @ [line_feed])"
      by (rule split_on_append)
    also have "split_on line_feed (last (split_on line_feed ys) @ [line_feed]) = [last (split_on line_feed ys), []]"
      using split_first [OF last_line [of ys], of "[]"] by simp
    finally show ?thesis using True snoc by (simp add: raw_lines_def butlast_append)
  qed (simp add: raw_lines_def snoc Let_def)
qed (simp add: raw_lines_def)

lemma raw_lines_clean: "l \<in> set (raw_lines raw) \<Longrightarrow> line_feed \<notin> set l"
  using split_lines [of line_feed raw] raw_lines_split [of raw] by auto

lemma blank_row [simp]: "row_of [] = None" "\<not> bad_line []"
  by (simp_all add: row_of_def bad_line_def trim_def)

lemma file_rows_raw: "file_rows raw = List.map_filter row_of (raw_lines raw)"
  unfolding file_rows_def raw_lines_split [of raw] by (simp add: List.map_filter_def)

lemma bad_lines_raw: "bad_lines raw = length (filter bad_line (raw_lines raw))"
  unfolding bad_lines_def raw_lines_split [of raw] by simp

lemma split_joined: "ls \<noteq> [] \<Longrightarrow> \<forall>l \<in> set ls. line_feed \<notin> set l \<Longrightarrow> split_on line_feed (join_with [line_feed] ls @ [line_feed]) = ls @ [[]]"
proof (induction ls)
  case (Cons l ls)
  then show ?case
  proof (cases ls)
    case (Cons x xs)
    then have "join_with [line_feed] (l # ls) @ [line_feed] = l @ line_feed # (join_with [line_feed] ls @ [line_feed])" by simp
    then show ?thesis using Cons.IH Cons.prems Cons split_first [of line_feed l] by simp
  qed (simp add: split_first)
qed simp

lemma raw_joined: "\<forall>l \<in> set ls. line_feed \<notin> set l \<Longrightarrow> raw_lines (joined_lines ls) = ls"
  by (cases "ls = []") (simp_all add: joined_lines_def raw_lines_def split_joined butlast_append)

lemma physical_line:
  "pl_raw (physical_line (n, raw)) = raw" "pl_unreadable (physical_line (n, raw)) = bad_line raw"
  "line_row (physical_line (n, raw)) = row_of raw" "pl_trimmed (physical_line (n, raw)) = trim raw"
  by (auto simp: physical_line_def bad_line_def line_row_def row_of_def split: option.splits)

lemma physical_raws: "map pl_raw (physicalLines raw) = raw_lines raw"
proof -
  have "map pl_raw (physicalLines raw) = map snd (zip [1..<Suc (length (raw_lines raw))] (raw_lines raw))"
    by (auto simp: physicalLines_def physical_line(1))
  then show ?thesis by (simp del: upt_Suc)
qed

lemma physical_members:
  assumes "l \<in> set (physicalLines raw)"
  shows "pl_unreadable l = bad_line (pl_raw l)" "line_row l = row_of (pl_raw l)" "pl_trimmed l = trim (pl_raw l)"
    and "line_feed \<notin> set (pl_raw l)"
proof -
  obtain n r where l: "l = physical_line (n, r)" using assms by (auto simp: physicalLines_def)
  then show "pl_unreadable l = bad_line (pl_raw l)" "line_row l = row_of (pl_raw l)" "pl_trimmed l = trim (pl_raw l)"
    by (simp_all add: physical_line)
  have "pl_raw l \<in> set (raw_lines raw)" using assms unfolding physical_raws [symmetric] by simp
  then show "line_feed \<notin> set (pl_raw l)" by (rule raw_lines_clean)
qed

lemma filter_raws: "(\<And>l. l \<in> set (physicalLines raw) \<Longrightarrow> P l = Q (pl_raw l)) \<Longrightarrow>
    length (filter P (physicalLines raw)) = length (filter Q (raw_lines raw))"
proof -
  assume P: "\<And>l. l \<in> set (physicalLines raw) \<Longrightarrow> P l = Q (pl_raw l)"
  have "length (filter Q (raw_lines raw)) = length (filter (Q \<circ> pl_raw) (physicalLines raw))"
    unfolding physical_raws [symmetric] filter_map by simp
  also have "filter (Q \<circ> pl_raw) (physicalLines raw) = filter P (physicalLines raw)" using P by (intro filter_cong) auto
  finally show ?thesis by simp
qed

lemma map_filter_raws: "List.map_filter line_row (physicalLines raw) = file_rows raw"
proof -
  have "List.map_filter line_row ls = List.map_filter row_of (map pl_raw ls)" if "\<forall>l \<in> set ls. line_row l = row_of (pl_raw l)" for ls
    using that by (induction ls) (auto simp: map_filter_Cons List.map_filter_def split: option.splits)
  then show ?thesis using physical_members(2) unfolding file_rows_raw physical_raws [symmetric] by blast
qed

lemma latest_map_tasks: "latest_map (physicalLines raw) = registry_tasks raw"
  unfolding latest_map_def map_filter_raws registry_tasks_def ..

lemma metrics_raw:
  "tm_unreadableRecords (metricsFromRaw raw) = bad_lines raw" "tm_tasks (metricsFromRaw raw) = length (registry_tasks raw)"
  "tm_records (metricsFromRaw raw) = length (filter (\<lambda>l. trim l \<noteq> []) (raw_lines raw))"
  unfolding metricsFromRaw_def metrics_of_def Let_def latest_map_tasks bad_lines_raw
  using filter_raws [of raw pl_unreadable bad_line] filter_raws [of raw "\<lambda>l. pl_trimmed l \<noteq> []" "\<lambda>l. trim l \<noteq> []"]
  by (simp_all add: physical_members)

section \<open>Repair\<close>

definition repaired_rows :: "string list \<Rightarrow> (rat \<times> json) list" where
  \<comment> \<open>the reference: readable lines keep their rows, and a damaged line yields the one row it ran into\<close>
  "repaired_rows ls = concat (map (\<lambda>l.
     if bad_line l then (case Option.bind (recoverTornRow (trim l)) (task_row \<circ> fst) of None \<Rightarrow> [] | Some r \<Rightarrow> [r])
     else (case row_of l of None \<Rightarrow> [] | Some r \<Rightarrow> [r])) ls)"

definition repaired_line :: "string \<Rightarrow> string list" where
  "repaired_line l = (if bad_line l then (case recoverTornRow (trim l) of None \<Rightarrow> [] | Some c \<Rightarrow> [snd c]) else [l])"

lemma trim_in: "set (trim s) \<subseteq> set s"
  unfolding trim_def by (auto dest!: set_dropWhileD)

lemma trim_trim: "trim (trim s) = trim s"
proof -
  have a: "dropWhile P (dropWhile P x) = dropWhile P x" for P :: "char \<Rightarrow> bool" and x by (induction x) auto
  obtain u where u: "dropWhile is_space s = u" "u = [] \<or> \<not> is_space (hd u)" by (cases "dropWhile is_space s") (auto simp: dropWhile_eq_Cons_conv)
  have "rev (dropWhile is_space (rev u)) = [] \<or> hd (rev (dropWhile is_space (rev u))) = hd u"
  proof -
    have "takeWhile is_space (rev u) @ dropWhile is_space (rev u) = rev u" by (rule takeWhile_dropWhile_id)
    then have "u = rev (dropWhile is_space (rev u)) @ rev (takeWhile is_space (rev u))" by (metis rev_append rev_rev_ident)
    then show ?thesis by (metis hd_append2)
  qed
  then have "dropWhile is_space (rev (dropWhile is_space (rev u))) = rev (dropWhile is_space (rev u))"
    using u(2) by (cases "rev (dropWhile is_space (rev u))") (auto simp: dropWhile_eq_self_iff)
  then show ?thesis unfolding trim_def u(1) by (simp add: a)
qed

lemma recovered:
  assumes "recoverTornRow line = Some (v, r)"
  shows "json_parse r = Some v" and "trim r = r" and "set r \<subseteq> set line" and "isCompleteTaskRecord v"
proof -
  have "(v, r) \<in> set (List.map_filter (torn_candidate line) (brace_positions line))"
    using assms by (auto simp: recoverTornRow_def split: list.splits)
  then obtain i where "torn_candidate line i = Some (v, r)" by (auto simp: List.map_filter_def)
  then have "r = trim (drop i line)" and "json_parse r = Some v" and "isCompleteTaskRecord v"
    by (auto simp: torn_candidate_def Let_def split: if_splits option.splits)
  then show "json_parse r = Some v" "trim r = r" "set r \<subseteq> set line" "isCompleteTaskRecord v"
    using trim_trim trim_in [of "drop i line"] set_drop_subset [of i line] by auto
qed

lemma recovered_line: "recoverTornRow line = Some (v, r) \<Longrightarrow> \<not> bad_line r \<and> row_of r = task_row v"
proof -
  assume r: "recoverTornRow line = Some (v, r)"
  have "json_parse [] = None" by code_simp
  then have "r \<noteq> []" using recovered(1) [OF r] by auto
  then show ?thesis using recovered(1,2) [OF r] by (simp add: bad_line_def row_of_def)
qed

lemma repair_fold:
  assumes "\<forall>l \<in> set ls. pl_unreadable l = bad_line (pl_raw l) \<and> pl_trimmed l = trim (pl_raw l)"
  shows "\<exists>q as. fold (repair_line other) ls (out, qs, acts) = (out @ concat (map (repaired_line \<circ> pl_raw) ls), qs @ q, acts @ as)
    \<and> length as = length (filter (bad_line \<circ> pl_raw) ls) \<and> length q + length (filter (\<lambda>a. ma_kind a = RepairRow) as) = length as"
  using assms
proof (induction ls arbitrary: out qs acts)
  case (Cons l ls)
  note l = Cons.prems [THEN bspec, of l, simplified]
  have ls: "\<forall>l \<in> set ls. pl_unreadable l = bad_line (pl_raw l) \<and> pl_trimmed l = trim (pl_raw l)" using Cons.prems by simp
  consider "\<not> bad_line (pl_raw l)" | v r where "bad_line (pl_raw l)" "recoverTornRow (trim (pl_raw l)) = Some (v, r)"
    | "bad_line (pl_raw l)" "recoverTornRow (trim (pl_raw l)) = None" by (cases "recoverTornRow (trim (pl_raw l))") auto
  then show ?case
  proof cases
    case 1
    then have "repair_line other l (out, qs, acts) = (out @ [pl_raw l], qs, acts)" using l by (simp add: repair_line_def)
    then show ?thesis using Cons.IH [OF ls, of "out @ [pl_raw l]" qs acts] 1 by (auto simp: repaired_line_def)
  next
    case 2
    let ?a = "action RepairRow (pl_line l) (numeric_id v)"
    have e: "repair_line other l (out, qs, acts) = (out @ [r], qs, acts @ [?a])" using l 2 by (simp add: repair_line_def)
    obtain q as where "fold (repair_line other) ls (out @ [r], qs, acts @ [?a]) = ((out @ [r]) @ concat (map (repaired_line \<circ> pl_raw) ls), qs @ q, (acts @ [?a]) @ as)"
      "length as = length (filter (bad_line \<circ> pl_raw) ls)" "length q + length (filter (\<lambda>a. ma_kind a = RepairRow) as) = length as"
      using Cons.IH [OF ls] by blast
    moreover have "repaired_line (pl_raw l) = [r]" using 2 by (simp add: repaired_line_def)
    ultimately show ?thesis using e 2(1) by (intro exI [of _ q] exI [of _ "?a # as"]) (simp add: action_def comp_def)
  next
    case 3
    let ?a = "action Quarantine (pl_line l) None"
    have e: "repair_line other l (out, qs, acts) = (out, qs @ [quarantine_row other l], acts @ [?a])" using l 3 by (simp add: repair_line_def)
    obtain q as where "fold (repair_line other) ls (out, qs @ [quarantine_row other l], acts @ [?a]) =
        (out @ concat (map (repaired_line \<circ> pl_raw) ls), (qs @ [quarantine_row other l]) @ q, (acts @ [?a]) @ as)"
      "length as = length (filter (bad_line \<circ> pl_raw) ls)" "length q + length (filter (\<lambda>a. ma_kind a = RepairRow) as) = length as"
      using Cons.IH [OF ls] by blast
    moreover have "repaired_line (pl_raw l) = []" using 3 by (simp add: repaired_line_def)
    ultimately show ?thesis using e 3(1)
      by (intro exI [of _ "quarantine_row other l # q"] exI [of _ "?a # as"]) (simp add: action_def comp_def)
  qed
qed simp

lemma plan_repair:
  "raw_lines (rp_output (planRepair other raw)) = concat (map repaired_line (raw_lines raw))"
  "rp_repaired (planRepair other raw) + rp_quarantined (planRepair other raw) = bad_lines raw"
  "length (rp_actions (planRepair other raw)) = bad_lines raw"
proof -
  have "\<forall>l \<in> set (physicalLines raw). pl_unreadable l = bad_line (pl_raw l) \<and> pl_trimmed l = trim (pl_raw l)"
    by (simp add: physical_members)
  from repair_fold [OF this, of other "[]" "[]" "[]"] obtain q as where
    f: "fold (repair_line other) (physicalLines raw) ([], [], []) = (concat (map repaired_line (raw_lines raw)), q, as)"
    and n: "length as = bad_lines raw" "length q + length (filter (\<lambda>a. ma_kind a = RepairRow) as) = length as"
    by (auto simp: physical_raws [symmetric] bad_lines_raw filter_map)
  have "line_feed \<notin> set l" if mem: "l \<in> set (concat (map repaired_line (raw_lines raw)))" for l
  proof -
    obtain x where x: "x \<in> set (raw_lines raw)" "l \<in> set (repaired_line x)" using mem unfolding set_concat set_map by blast
    have "set l \<subseteq> set x"
    proof (cases "bad_line x")
      case True
      then obtain v where "recoverTornRow (trim x) = Some (v, l)" using x(2) by (cases "recoverTornRow (trim x)") (auto simp: repaired_line_def)
      then show ?thesis using recovered(3) trim_in [of x] by blast
    qed (use x(2) in \<open>simp add: repaired_line_def\<close>)
    then show ?thesis using raw_lines_clean [OF x(1)] by blast
  qed
  then show "raw_lines (rp_output (planRepair other raw)) = concat (map repaired_line (raw_lines raw))"
    unfolding planRepair_def f Let_def prod.case repair_plan.select_convs by (intro raw_joined) blast
  show "rp_repaired (planRepair other raw) + rp_quarantined (planRepair other raw) = bad_lines raw"
    "length (rp_actions (planRepair other raw)) = bad_lines raw"
    unfolding planRepair_def f Let_def prod.case repair_plan.select_convs using n by simp_all
qed

lemma repaired_output:
  "bad_lines (rp_output (planRepair other raw)) = 0" "file_rows (rp_output (planRepair other raw)) = repaired_rows (raw_lines raw)"
proof -
  have one: "filter bad_line (repaired_line l) = []" "List.map_filter row_of (repaired_line l) = repaired_rows [l]" for l
    using recovered_line [of "trim l"]
    by (auto simp: repaired_line_def repaired_rows_def List.map_filter_def split: option.splits)
  have "filter bad_line (concat (map repaired_line ls)) = []" for ls by (induction ls) (simp_all add: one)
  moreover have "List.map_filter row_of (concat (map repaired_line ls)) = repaired_rows ls" for ls
  proof (induction ls)
    case (Cons l ls)
    have "List.map_filter row_of (x @ y) = List.map_filter row_of x @ List.map_filter row_of y" for x y
      by (simp add: List.map_filter_def)
    then show ?case using Cons one(2) [of l] by (simp add: repaired_rows_def)
  qed (simp add: repaired_rows_def List.map_filter_def)
  ultimately show "bad_lines (rp_output (planRepair other raw)) = 0"
    "file_rows (rp_output (planRepair other raw)) = repaired_rows (raw_lines raw)"
    unfolding bad_lines_raw file_rows_raw plan_repair by simp_all
qed

lemma repaired_rows_good: "\<forall>l \<in> set ls. \<not> bad_line l \<Longrightarrow> repaired_rows ls = List.map_filter row_of ls"
  by (induction ls) (auto simp: repaired_rows_def List.map_filter_def split: option.splits)

lemma replace_world:
  assumes "\<forall>c. rw_cache w = Some c \<longrightarrow> rc_identity c \<noteq> re_identity env" and "world_ok w"
  shows "world_ok (replace_bytes env b w)" and "file_bytes (replace_bytes env b w) = b"
proof -
  show "world_ok (replace_bytes env b w)"
    using assms unfolding world_ok_def replace_bytes_def by (auto intro: coherent_replaced)
  show "file_bytes (replace_bytes env b w) = b" by (simp add: replace_bytes_def file_bytes_def)
qed

text \<open>Repair: applied to any registry it succeeds, leaves no unreadable row, keeps every readable row
  in its place, replaces a damaged line by the one complete row it ran into (if it ran into exactly one,
  of the task the torn prefix names) or moves it to quarantine, and has backed up the bytes it
  replaced; an undamaged registry is not rewritten.\<close>

lemma repair_keeps_readable_rows:
  assumes "world_ok w" and "\<forall>c. rw_cache w = Some c \<longrightarrow> rc_identity c \<noteq> re_identity env"
    and "repair_registry env True w = (w', ev, res)"
  shows "world_ok w' \<and> bad_lines (file_bytes w') = 0
    \<and> file_rows (file_bytes w') = repaired_rows (raw_lines (file_bytes w))
    \<and> (\<exists>plan. res = Inr plan \<and> rp_repaired plan + rp_quarantined plan = bad_lines (file_bytes w))
    \<and> (if bad_lines (file_bytes w) = 0 then file_bytes w' = file_bytes w else ev_backup ev = Some (file_bytes w))"
proof -
  let ?raw = "file_bytes w" and ?p = "planRepair (re_other env) (file_bytes w)"
  define w1 where "w1 = (if rp_actions ?p \<noteq> [] then replace_bytes env (rp_output ?p) w else w)"
  have act: "rp_actions ?p \<noteq> [] \<longleftrightarrow> bad_lines ?raw > 0" using plan_repair(3) [of "re_other env" ?raw] by (metis length_greater_0_conv)
  have w1: "world_ok w1" "file_bytes w1 = (if bad_lines ?raw > 0 then rp_output ?p else ?raw)"
    using replace_world [OF assms(2,1)] assms(1) act by (auto simp: w1_def)
  obtain w2 r where rd: "read_world w1 = (w2, r)" by (cases "read_world w1")
  have good: "bad_lines (file_bytes w1) = 0" using w1(2) repaired_output(1) by (auto split: if_splits)
  have u: "w' = writeSessionTaskIndexes env (rr_tasks r) (launchers_of (rr_tasks r)) w2" "res = Inr ?p"
    "ev_backup ev = (if bad_lines ?raw > 0 then Some ?raw else None)"
    using assms(3) good act unfolding repair_registry_def Let_def simp_thms w1_def [symmetric] metrics_raw rd prod.case
    by (auto simp: no_evidence_def split: if_splits)
  have w': "world_ok w'" "file_bytes w' = file_bytes w1"
    using read_world(2) [OF w1(1) rd] read_world_same(1) [OF w1(1) rd] by (simp_all add: u(1))
  have rows: "file_rows (file_bytes w1) = repaired_rows (raw_lines ?raw)"
  proof (cases "bad_lines ?raw > 0")
    case False
    then have "\<forall>l \<in> set (raw_lines ?raw). \<not> bad_line l" unfolding bad_lines_raw by (simp add: filter_empty_conv)
    then have "repaired_rows (raw_lines ?raw) = List.map_filter row_of (raw_lines ?raw)" by (rule repaired_rows_good)
    then show ?thesis using False w1(2) by (simp add: file_rows_raw)
  qed (use w1(2) repaired_output(2) in simp)
  show ?thesis using w' good rows u plan_repair(2) [of "re_other env" ?raw] w1(2) by auto
qed

section \<open>Compaction\<close>

lemma compact_rows_facts:
  assumes "compact_rows ls = Inr rows" and "\<forall>l \<in> set ls. line_row l = row_of (pl_raw l) \<and> pl_trimmed l = trim (pl_raw l)"
  shows "map snd rows = filter (\<lambda>l. pl_trimmed l \<noteq> []) ls
    \<and> List.map_filter line_row ls = map (\<lambda>(i, l). (i, normalizeTaskEntry (the (pl_value l)))) rows
    \<and> (\<forall>(i, l) \<in> set rows. line_row l = Some (i, normalizeTaskEntry (the (pl_value l))))"
  using assms
proof (induction ls arbitrary: rows)
  case (Cons l ls)
  note l = Cons.prems(2) [THEN bspec, of l, simplified]
  show ?case
  proof (cases "pl_trimmed l = []")
    case True
    then have "line_row l = None" using l by (simp add: row_of_def)
    then show ?thesis using Cons True by (simp add: List.map_filter_def)
  next
    case False
    then obtain i where i: "Option.bind (pl_value l) numeric_id = Some i" using Cons.prems(1) by (auto split: option.splits)
    then obtain rs where rs: "compact_rows ls = Inr rs" "rows = (i, l) # rs"
      using Cons.prems(1) False by (cases "compact_rows ls") auto
    have "line_row l = Some (i, normalizeTaskEntry (the (pl_value l)))"
      using i by (cases "pl_value l") (simp_all add: line_row_def task_row_def)
    then show ?thesis using Cons.IH [OF rs(1)] Cons.prems(2) False rs(2) by (simp add: List.map_filter_def)
  qed
qed (simp add: List.map_filter_def)

lemma amap_set_map: "amap_set k (f v) (map (apsnd f) m) = map (apsnd f) (amap_set k v m)"
  by (induction k v m rule: amap_set.induct) auto

lemma fold_amap_map: "fold (\<lambda>(i, t). amap_set i t) (map (apsnd f) rows) (map (apsnd f) m) = map (apsnd f) (fold (\<lambda>(i, l). amap_set i l) rows m)"
  by (induction rows arbitrary: m) (auto simp: amap_set_map)

lemma amap_set_fresh: "k \<notin> fst ` set m \<Longrightarrow> amap_set k v m = m @ [(k, v)]"
  by (induction k v m rule: amap_set.induct) auto

lemma fold_amap_distinct: "distinct (map fst (m @ xs)) \<Longrightarrow> fold (\<lambda>(i, t). amap_set i t) xs m = m @ xs"
proof (induction xs arbitrary: m)
  case (Cons x xs)
  obtain i t where x: "x = (i, t)" by (cases x)
  have "i \<notin> fst ` set m" using Cons.prems x by auto
  then show ?case using Cons.IH [of "m @ [x]"] Cons.prems x by (simp add: amap_set_fresh)
qed simp

lemma fold_amap_keys:
  "distinct (map fst m) \<Longrightarrow> distinct (map fst (fold (\<lambda>(i, t). amap_set i t) rows m))"
  "set (fold (\<lambda>(i, t). amap_set i t) rows m) \<subseteq> set rows \<union> set m"
proof -
  have "set (amap_set k v m) \<subseteq> insert (k, v) (set m)" for k v and m :: "('a \<times> 'b) list"
    by (induction k v m rule: amap_set.induct) auto
  then show "set (fold (\<lambda>(i, t). amap_set i t) rows m) \<subseteq> set rows \<union> set m" for rows and m :: "('a \<times> 'b) list"
    by (induction rows arbitrary: m) fastforce+
  show "distinct (map fst m) \<Longrightarrow> distinct (map fst (fold (\<lambda>(i, t). amap_set i t) rows m))" for rows and m :: "('a \<times> 'b) list"
    by (induction rows arbitrary: m) auto
qed

lemma compact_output:
  assumes "compact_rows (physicalLines raw) = Inr rows" and "bad_lines raw = 0"
  defines output_def: "output \<equiv> joined_lines (map (pl_raw \<circ> snd) (kept_rows rows))"
  shows "latestTasksFromRaw output = latestTasksFromRaw raw" and "map_of (registry_tasks output) = map_of (registry_tasks raw)"
    and "bad_lines output = 0" and "tm_records (metricsFromRaw output) = length (registry_tasks output)"
proof -
  define norm where "norm l = normalizeTaskEntry (the (pl_value l))" for l :: physical_line
  note pm = physical_members
  have facts: "map snd rows = filter (\<lambda>l. pl_trimmed l \<noteq> []) (physicalLines raw)"
    "List.map_filter line_row (physicalLines raw) = map (apsnd norm) rows"
    "\<forall>(i, l) \<in> set rows. line_row l = Some (i, norm l)"
    using compact_rows_facts [OF assms(1)] pm(2,3) by (auto simp: norm_def apsnd_def map_prod_def)
  have keptset: "set (kept_rows rows) \<subseteq> set rows" "distinct (map fst (kept_rows rows))"
    "mset (kept_rows rows) = mset (last_by_id rows)"
  proof -
    show m: "mset (kept_rows rows) = mset (last_by_id rows)" by (simp add: kept_rows_def)
    show "set (kept_rows rows) \<subseteq> set rows" unfolding kept_rows_def last_by_id_def using fold_amap_keys(2) [of rows "[]"] by simp
    have "distinct (map fst (last_by_id rows))" unfolding last_by_id_def by (rule fold_amap_keys) simp
    then show "distinct (map fst (kept_rows rows))" using m by (metis distinct_count_atmost_1 mset_map set_mset_mset)
  qed
  have line: "row_of (pl_raw l) = Some (i, norm l)" "\<not> bad_line (pl_raw l)" "trim (pl_raw l) \<noteq> []" "line_feed \<notin> set (pl_raw l)"
    if il: "(i, l) \<in> set (kept_rows rows)" for i l
  proof -
    have r: "(i, l) \<in> set rows" using keptset(1) il by blast
    then have "l \<in> set (map snd rows)" by force
    then have l: "l \<in> set (physicalLines raw)" "pl_trimmed l \<noteq> []" unfolding facts(1) by simp_all
    show "row_of (pl_raw l) = Some (i, norm l)" using facts(3) r pm(2) [OF l(1)] by auto
    show "\<not> bad_line (pl_raw l)"
      using assms(2) l(1) unfolding bad_lines_raw physical_raws [symmetric] by (simp add: filter_empty_conv)
    show "trim (pl_raw l) \<noteq> []" "line_feed \<notin> set (pl_raw l)" using l pm(3,4) [OF l(1)] by simp_all
  qed
  have rl: "raw_lines output = map (pl_raw \<circ> snd) (kept_rows rows)"
    unfolding output_def by (rule raw_joined) (use line(4) in force)
  have rows_out: "file_rows output = map (apsnd norm) (kept_rows rows)"
  proof -
    have "List.map_filter row_of (map (pl_raw \<circ> snd) ks) = map (apsnd norm) ks" if "set ks \<subseteq> set (kept_rows rows)" for ks
      using that by (induction ks) (auto simp: map_filter_Cons line List.map_filter_def)
    then show ?thesis unfolding file_rows_raw rl by blast
  qed
  have tasks_out: "registry_tasks output = map (apsnd norm) (kept_rows rows)"
    unfolding registry_tasks_def rows_out using fold_amap_distinct [of "[]" "map (apsnd norm) (kept_rows rows)"] keptset(2)
    by (simp add: comp_def)
  have tasks_in: "registry_tasks raw = map (apsnd norm) (last_by_id rows)"
    unfolding registry_tasks_def map_filter_raws [symmetric] facts(2) last_by_id_def
    using fold_amap_map [of norm rows "[]"] by simp
  have ms: "mset (registry_tasks output) = mset (registry_tasks raw)"
    unfolding tasks_out tasks_in mset_map keptset(3) ..
  have dk: "distinct (map fst (registry_tasks output))" using keptset(2) by (simp add: tasks_out comp_def)
  then have dk': "distinct (map fst (registry_tasks raw))" using ms by (metis distinct_count_atmost_1 mset_map set_mset_mset)
  have st: "set (registry_tasks output) = set (registry_tasks raw)" using ms by (metis set_mset_mset)
  show "map_of (registry_tasks output) = map_of (registry_tasks raw)"
    using map_of_inject_set [OF dk dk'] st by blast
  have "inj_on fst (set (registry_tasks output))" using dk by (simp add: distinct_map)
  then show "latestTasksFromRaw output = latestTasksFromRaw raw"
    unfolding latestTasksFromRaw_def latest_map_tasks by_id_def using ms by (intro sort_key_inj_key_eq) simp_all
  show "bad_lines output = 0" unfolding bad_lines_raw rl using line(2) by (auto simp: filter_empty_conv)
  have "filter (\<lambda>l. trim l \<noteq> []) (map (pl_raw \<circ> snd) (kept_rows rows)) = map (pl_raw \<circ> snd) (kept_rows rows)"
    using line(3) by (auto simp: filter_id_conv)
  then show "tm_records (metricsFromRaw output) = length (registry_tasks output)"
    unfolding metrics_raw rl tasks_out by simp
qed

text \<open>C24. Compaction is neutral: it refuses exactly the registries it must not rewrite (an unreadable row,
  or a line without a numeric task id) and then changes nothing; otherwise it succeeds, its own
  equivalence checks never fail, every reader finds the same latest version of every task, and the
  file holds one row per task.\<close>

theorem compaction_neutral:
  assumes "world_ok w" and "\<forall>c. rw_cache w = Some c \<longrightarrow> rc_identity c \<noteq> re_identity env"
    and "compact_registry env True w = (w', ev, res)"
  shows "world_ok w' \<and> map_of (world_tasks w') = map_of (world_tasks w)
    \<and> (case res of
         Inl e \<Rightarrow> w' = w \<and> (if bad_lines (file_bytes w) > 0 then e = IntegrityError (bad_lines (file_bytes w))
                              else \<exists>n. compact_rows (physicalLines (file_bytes w)) = Inl n \<and> e = RowWithoutId n)
       | Inr plan \<Rightarrow> bad_lines (file_bytes w') = 0 \<and> tm_records (metricsFromRaw (file_bytes w')) = length (world_tasks w')
           \<and> (file_bytes w' \<noteq> file_bytes w \<longrightarrow> ev_backup ev = Some (file_bytes w)))"
proof -
  let ?raw = "file_bytes w"
  consider "bad_lines ?raw > 0" | n where "bad_lines ?raw = 0" "compact_rows (physicalLines ?raw) = Inl n"
    | rows where "bad_lines ?raw = 0" "compact_rows (physicalLines ?raw) = Inr rows"
    by (cases "compact_rows (physicalLines ?raw)") auto
  then show ?thesis
  proof cases
    case 1
    then have "planCompact ?raw = Inl (IntegrityError (bad_lines ?raw))" by (simp add: planCompact_def metrics_raw)
    then have "w' = w" "res = Inl (IntegrityError (bad_lines ?raw))" using assms(3) by (auto simp: compact_registry_def)
    then show ?thesis using assms(1) 1 by simp
  next
    case 2
    then have "planCompact ?raw = Inl (RowWithoutId n)" by (simp add: planCompact_def metrics_raw)
    then have "w' = w" "res = Inl (RowWithoutId n)" using assms(3) by (auto simp: compact_registry_def)
    then show ?thesis using assms(1) 2 by simp
  next
    case 3
    define kept_text where "kept_text = joined_lines (map (pl_raw \<circ> snd) (kept_rows rows))"
    note ot = compact_output [OF 3(2) 3(1), folded kept_text_def]
    obtain plan where p: "planCompact ?raw = Inr plan" "cp_output plan = kept_text"
      using 3 ot(1,4) unfolding planCompact_def Let_def metrics_raw 3 sum.case kept_text_def [symmetric] by auto
    show ?thesis
    proof (cases "kept_text = ?raw")
      case True
      then have "w' = w" "res = Inr plan" using assms(3) p by (auto simp: compact_registry_def Let_def)
      then show ?thesis using assms(1) ot(3,4) True by simp
    next
      case False
      note rw = replace_world [OF assms(2,1), of kept_text]
      have "w' = replace_bytes env kept_text w" "res = Inr plan" "ev_backup ev = Some ?raw"
        using assms(3) p False ot(1,3,4) rw(2) by (auto simp: compact_registry_def Let_def metrics_raw(1,2))
      then show ?thesis using rw ot by simp
    qed
  qed
qed

theorem compaction_neutral_witness:
  "let w = example_world\<lparr>rw_cache := None\<rparr>
   in map_of (world_tasks (fst (compact_registry example_place True w))) = [1 \<mapsto> stored (new_entry example_place example_input 1)]"
proof -
  let ?w = "example_world\<lparr>rw_cache := None\<rparr>"
  have w: "world_ok ?w" "\<forall>c. rw_cache ?w = Some c \<longrightarrow> rc_identity c \<noteq> re_identity example_place"
    by (simp_all add: world_ok_def coherent_init)
  obtain w' ev res where c: "compact_registry example_place True ?w = (w', ev, res)" by (cases "compact_registry example_place True ?w")
  from compaction_neutral [OF w c] have "map_of (world_tasks w') = map_of (world_tasks ?w)" by blast
  then show ?thesis using c example_facts by (simp add: Let_def file_bytes_def)
qed

end
