(* ===== verification/Tick_Log.thy ===== *)
theory Tick_Log
  imports Task_Registry
begin

text \<open>
  The tick log of a task (\<open>src/src/task-registry.ts\<close>): a tick is one line that records the status and
  the stages that changed since the tick before, and a tick that changes nothing is not written.  The
  tail of the log is read in chunks from its end, until enough lines have been seen.
\<close>

section \<open>Stage projections\<close>

definition projected_keys :: "string list" where
  "projected_keys = [''status'', ''retries'', ''reruns'', ''startedAt'', ''completedAt'', ''error'']"

definition projected_value :: "string \<Rightarrow> json \<Rightarrow> json option" where
  "projected_value k v =
     (case v of
        JNum _ \<Rightarrow> Some v
      | JStr s \<Rightarrow> Some (if k = ''error'' \<and> length s > 500 then JStr (take 497 s @ ''...'') else v)
      | _ \<Rightarrow> None)"

definition project_stage :: "json \<Rightarrow> (string \<times> json) list" where
  "project_stage stage =
     List.map_filter (\<lambda>k. map_option (Pair k) (projected_value k (own_field stage k))) projected_keys
     @ (case own_field stage ''attempts'' of JArr vs \<Rightarrow> [(''executions'', JNum (of_nat (length vs)))] | _ \<Rightarrow> [])"

definition compactStages :: "json \<Rightarrow> (string \<times> json) list option" where
  "compactStages v =
     (case v of
        JObj m \<Rightarrow> Some (List.map_filter (\<lambda>k. case own_field v k of JObj s \<Rightarrow> Some (k, JObj (project_stage (JObj s))) | _ \<Rightarrow> None)
                          (sort (map fst m)))
      | _ \<Rightarrow> None)"

definition diffStages :: "(string \<times> json) list option \<Rightarrow> (string \<times> json) list \<Rightarrow> (string \<times> json) list" where
  "diffStages previous current =
     List.map_filter (\<lambda>k. case map_of current k of
         None \<Rightarrow> Some (k, JNull)
       | Some v \<Rightarrow> if Option.bind previous (\<lambda>p. map_of p k) \<noteq> Some v then Some (k, v) else None)
       (uniq (map fst (dflt previous []) @ map fst current))"

section \<open>Ticks\<close>

record tick =
  tk_ts :: "string option"
  tk_status :: string
  tk_message :: "string option"
  tk_stages :: json

record tick_projection =
  tp_status :: string
  tp_message :: "string option"
  tp_stages :: "(string \<times> json) list option"

definition tick_projection_of :: "tick \<Rightarrow> tick_projection" where
  "tick_projection_of t =
     \<lparr>tp_status = tk_status t, tp_message = (if tk_message t = Some [] then None else tk_message t),
      tp_stages = compactStages (tk_stages t)\<rparr>"

definition tick_delta :: "tick_projection option \<Rightarrow> tick_projection \<Rightarrow> (string \<times> json) list" where
  "tick_delta previous current =
     (case tp_stages current of None \<Rightarrow> [] | Some stages \<Rightarrow> diffStages (Option.bind previous tp_stages) stages)"

definition tick_line :: "(rat \<Rightarrow> string) \<Rightarrow> string \<Rightarrow> tick_projection option \<Rightarrow> tick \<Rightarrow> string" where
  "tick_line other now previous t =
     (let current = tick_projection_of t; delta = tick_delta previous current
      in ''- '' @ dflt (tk_ts t) now @ '' status='' @ tk_status t
         @ (case tp_message current of None \<Rightarrow> [] | Some m \<Rightarrow> '' '' @ m)
         @ (if delta = [] then [] else '' stage_delta='' @ json_text other (JObj delta)) @ [line_feed])"

definition appendTick ::
  "(rat \<Rightarrow> string) \<Rightarrow> string \<Rightarrow> rat \<Rightarrow> tick \<Rightarrow> (rat \<times> tick_projection) list \<Rightarrow> string \<Rightarrow> (rat \<times> tick_projection) list \<times> string" where
  \<comment> \<open>the projections in memory and the log of the task, which exists\<close>
  "appendTick other now i t projections text =
     (let previous = map_of projections i; current = tick_projection_of t
      in if previous = Some current then (projections, text)
         else (amap_set i current projections, text @ tick_line other now previous t))"

section \<open>The recent ticks\<close>

definition TICK_CHUNK :: nat where "TICK_CHUNK = 64 * 1024"

function tail_loop :: "nat \<Rightarrow> string \<Rightarrow> nat \<Rightarrow> nat \<Rightarrow> string \<Rightarrow> string" where
  "tail_loop limit bytes offset newlines acc =
     (if offset > 0 \<and> newlines \<le> limit
      then let n = min TICK_CHUNK offset; chunk = take n (drop (offset - n) bytes)
           in tail_loop limit bytes (offset - n) (newlines + count_list chunk line_feed) (chunk @ acc)
      else acc)"
  by pat_completeness auto

termination
  by (relation "measure (\<lambda>(_, _, offset, _, _). offset)") (auto simp: TICK_CHUNK_def)

declare tail_loop.simps [simp del]

definition chop :: "string \<Rightarrow> string" where
  "chop l = (if l \<noteq> [] \<and> last l = CHR 0x0D then butlast l else l)"

definition crlf_of :: "string list \<Rightarrow> string list" where
  "crlf_of ls = map chop (butlast ls) @ [last ls]"

definition crlf_lines :: "string \<Rightarrow> string list" where
  \<comment> \<open>\<open>split(/\r?\n/)\<close>\<close>
  "crlf_lines s = crlf_of (split_on line_feed s)"

definition last_lines :: "nat \<Rightarrow> string \<Rightarrow> string list" where
  "last_lines limit bytes = (let ls = filter (\<lambda>l. l \<noteq> []) (crlf_lines bytes) in drop (length ls - limit) ls)"

definition readRecentTicks :: "nat \<Rightarrow> string \<Rightarrow> string list" where
  "readRecentTicks limit bytes = (if limit = 0 then [] else last_lines limit (tail_loop limit bytes (length bytes) 0 []))"

section \<open>The deltas of a log\<close>

definition apply_delta :: "(string \<times> json) list \<Rightarrow> (string \<times> json) list \<Rightarrow> (string \<times> json) list" where
  \<comment> \<open>the reader of a log: null removes a stage\<close>
  "apply_delta stages delta = fold (\<lambda>(k, v). if v = JNull then amap_delete k else amap_set k v) delta stages"

lemma map_of_apply_delta:
  "distinct (map fst delta) \<Longrightarrow> map_of (apply_delta stages delta) k
     = (case map_of delta k of None \<Rightarrow> map_of stages k | Some v \<Rightarrow> if v = JNull then None else Some v)"
proof (induction delta arbitrary: stages)
  case (Cons a delta)
  obtain j v where a: "a = (j, v)" by (cases a)
  have "map_of delta j = None" using Cons.prems a by (auto simp: map_of_eq_None_iff)
  then show ?case using Cons a by (auto simp: apply_delta_def split: option.splits)
qed (simp add: apply_delta_def)

lemma map_of_keyed:
  "distinct ks \<Longrightarrow> map_of (List.map_filter (\<lambda>k. map_option (Pair k) (f k)) ks) k = (if k \<in> set ks then f k else None)"
  by (induction ks) (auto simp: List.map_filter_def split: option.splits dest!: map_of_SomeD)

lemma keyed_keys: "map fst (List.map_filter (\<lambda>k. map_option (Pair k) (f k)) ks) = filter (\<lambda>k. f k \<noteq> None) ks"
  by (induction ks) (auto simp: List.map_filter_def)

definition delta_at :: "(string \<times> json) list option \<Rightarrow> (string \<times> json) list \<Rightarrow> string \<Rightarrow> json option" where
  "delta_at previous current k =
     (case map_of current k of
        None \<Rightarrow> Some JNull
      | Some v \<Rightarrow> if Option.bind previous (\<lambda>p. map_of p k) \<noteq> Some v then Some v else None)"

lemma diff_keyed: "diffStages previous current =
    List.map_filter (\<lambda>k. map_option (Pair k) (delta_at previous current k)) (uniq (map fst (dflt previous []) @ map fst current))"
proof -
  have "(case map_of current k of None \<Rightarrow> Some (k, JNull)
       | Some v \<Rightarrow> if Option.bind previous (\<lambda>p. map_of p k) \<noteq> Some v then Some (k, v) else None)
     = map_option (Pair k) (delta_at previous current k)" for k
    by (simp add: delta_at_def split: option.splits)
  then show ?thesis by (simp add: diffStages_def)
qed

lemma uniq_keys_distinct: "distinct (uniq xs)"
proof -
  have "distinct (uniq_from seen xs) \<and> set (uniq_from seen xs) \<inter> set seen = {}" for seen :: "'a list"
    by (induction seen xs rule: uniq_from.induct) auto
  then show ?thesis by (simp add: uniq_def)
qed

lemma compacted_objects: "compactStages v = Some m \<Longrightarrow> map_of m k \<noteq> Some JNull"
proof
  assume c: "compactStages v = Some m" and n: "map_of m k = Some JNull"
  obtain x where v: "v = JObj x" using c by (cases v) (simp_all add: compactStages_def)
  let ?f = "\<lambda>k. case own_field v k of JObj s \<Rightarrow> Some (k, JObj (project_stage (JObj s))) | _ \<Rightarrow> None"
  have mf: "y \<in> set (List.map_filter f xs) \<Longrightarrow> \<exists>z. f z = Some y" for y and f :: "string \<Rightarrow> (string \<times> json) option" and xs
    by (auto simp: List.map_filter_def)
  have "(k, JNull) \<in> set (List.map_filter ?f (sort (map fst x)))"
    using c map_of_SomeD [OF n] by (simp add: compactStages_def v)
  from mf [OF this] obtain j where "?f j = Some (k, JNull)" by blast
  then show False by (cases "own_field v j") simp_all
qed

text \<open>The stage deltas of a log are lossless: applied to the stages of the tick before, the delta a
  tick records gives exactly the stages the tick saw, added, changed and removed ones alike.\<close>

lemma tick_delta_reconstructs:
  assumes "tp_stages (tick_projection_of t) = Some stages"
  shows "map_of (apply_delta (dflt (Option.bind previous tp_stages) []) (tick_delta previous (tick_projection_of t))) k
     = map_of stages k"
proof -
  define p where "p = Option.bind previous tp_stages"
  let ?ks = "uniq (map fst (dflt p []) @ map fst stages)"
  have nn: "map_of stages k \<noteq> Some JNull"
    using assms compacted_objects by (simp add: tick_projection_of_def)
  have d: "tick_delta previous (tick_projection_of t) = List.map_filter (\<lambda>k. map_option (Pair k) (delta_at p stages k)) ?ks"
    using assms by (simp add: tick_delta_def diff_keyed p_def)
  have ks: "k \<in> set ?ks \<longleftrightarrow> map_of (dflt p []) k \<noteq> None \<or> map_of stages k \<noteq> None"
    by (auto simp: uniq_def set_uniq_from map_of_eq_None_iff)
  have dd: "distinct (map fst (List.map_filter (\<lambda>k. map_option (Pair k) (delta_at p stages k)) ?ks))"
    unfolding keyed_keys using uniq_keys_distinct by (rule distinct_filter)
  have v: "delta_at p stages k = (case map_of stages k of None \<Rightarrow> Some JNull
      | Some v \<Rightarrow> if map_of (dflt p []) k \<noteq> Some v then Some v else None)"
    by (cases p) (simp_all add: delta_at_def dflt_def split: option.splits)
  show ?thesis
    unfolding p_def [symmetric] d map_of_apply_delta [OF dd] map_of_keyed [OF uniq_keys_distinct] ks v
    using nn by (cases "map_of stages k"; cases "map_of (dflt p []) k") auto
qed

section \<open>The tail of a log\<close>

lemma tail_loop_suffix:
  assumes "acc = drop offset bytes" and "newlines = count_list acc line_feed" and "offset \<le> length bytes"
  shows "\<exists>o'. tail_loop limit bytes offset newlines acc = drop o' bytes \<and> o' \<le> length bytes
    \<and> (o' = 0 \<or> limit < count_list (drop o' bytes) line_feed)"
  using assms
proof (induction limit bytes offset newlines acc rule: tail_loop.induct)
  case (1 limit bytes offset newlines acc)
  let ?n = "min TICK_CHUNK offset"
  show ?case
  proof (cases "offset > 0 \<and> newlines \<le> limit")
    case True
    have d: "drop (offset - ?n) bytes = take ?n (drop (offset - ?n) bytes) @ drop offset bytes"
    proof -
      have "drop ?n (drop (offset - ?n) bytes) = drop offset bytes" by simp
      then show ?thesis by (metis append_take_drop_id)
    qed
    let ?c = "take ?n (drop (offset - ?n) bytes)"
    have acc: "?c @ acc = drop (offset - ?n) bytes" unfolding 1(2) using d by simp
    have "newlines + count_list ?c line_feed = count_list (?c @ acc) line_feed" unfolding 1(3) count_list_append by simp
    from "1.IH" [OF True refl refl acc this] have "\<exists>o'. tail_loop limit bytes (offset - ?n) (newlines + count_list ?c line_feed) (?c @ acc)
        = drop o' bytes \<and> o' \<le> length bytes \<and> (o' = 0 \<or> limit < count_list (drop o' bytes) line_feed)"
      using 1(4) by (meson diff_le_self le_trans)
    then show ?thesis using True by (subst tail_loop.simps) (simp add: Let_def)
  next
    case False
    then show ?thesis using 1 by (subst tail_loop.simps) auto
  qed
qed

lemma length_split: "length (split_on d s) = count_list s d + 1"
proof (induction s)
  case (Cons c s)
  then show ?case by (cases "split_on d s") simp_all
qed simp

lemma crlf_append: "ys \<noteq> [] \<Longrightarrow> crlf_of (xs @ ys) = map chop xs @ crlf_of ys"
  by (simp add: crlf_of_def butlast_append)

lemma crlf_length: "ls \<noteq> [] \<Longrightarrow> length (crlf_of ls) = length ls"
  by (cases ls rule: rev_cases) (simp_all add: crlf_of_def)

lemma drop_last_part: "n \<le> length ys \<Longrightarrow> drop (length (xs @ ys) - n) (xs @ ys) = drop (length ys - n) ys"
  by simp

text \<open>The recent ticks are the last lines of the log: reading chunks from the end until more newlines than
  requested have been seen gives what reading the whole log would give, for every log without blank
  lines, wherever the chunks fall.\<close>

lemma recent_ticks_exact:
  assumes "\<forall>l \<in> set (butlast (crlf_lines bytes)). l \<noteq> []"
  shows "readRecentTicks limit bytes = (if limit = 0 then [] else last_lines limit bytes)"
proof (cases "limit = 0")
  case False
  obtain k where k: "tail_loop limit bytes (length bytes) 0 [] = drop k bytes" "k \<le> length bytes"
      "k = 0 \<or> limit < count_list (drop k bytes) line_feed"
    using tail_loop_suffix [of "[]" "length bytes" bytes 0 limit] by auto
  have "last_lines limit (drop k bytes) = last_lines limit bytes"
  proof (cases "k = 0")
    case False
    define a b where "a = take k bytes" and "b = drop k bytes"
    have ab: "bytes = a @ b" by (simp add: a_def b_def)
    obtain f rest where r: "split_on line_feed b = f # rest" by (cases "split_on line_feed b") auto
    have n: "limit < length rest" using k(3) False length_split [of line_feed b] r by (simp add: b_def)
    then have ne: "rest \<noteq> []" by auto
    obtain f' where f': "split_on line_feed (last (split_on line_feed a) @ b) = f' # rest"
    proof -
      have "split_on line_feed (x @ b) = (x @ f) # rest" if "line_feed \<notin> set x" for x
        using that by (induction x) (auto simp: r)
      moreover have "line_feed \<notin> set (last (split_on line_feed a))"
      proof -
        have "\<forall>l \<in> set (split_on line_feed a). line_feed \<notin> set l"
        proof (induction a)
          case (Cons c a)
          then show ?case by (cases "split_on line_feed a") auto
        qed simp
        then show ?thesis by simp
      qed
      ultimately show ?thesis using that by blast
    qed
    have whole: "crlf_lines bytes = (map chop (butlast (split_on line_feed a)) @ [chop f']) @ crlf_of rest"
    proof -
      have "split_on line_feed bytes = (butlast (split_on line_feed a) @ [f']) @ rest"
        unfolding ab split_on_append [of line_feed a b] f' by simp
      then show ?thesis unfolding crlf_lines_def by (simp only: crlf_append [OF ne] map_append list.map)
    qed
    have tail: "crlf_lines b = [chop f] @ crlf_of rest"
      unfolding crlf_lines_def r using crlf_append [OF ne, of "[f]"] by simp
    let ?P = "\<lambda>l :: string. l \<noteq> []"
    have cr: "crlf_of rest = butlast (crlf_of rest) @ [last (crlf_of rest)]" by (simp add: crlf_of_def)
    have "\<forall>l \<in> set (butlast (crlf_of rest)). l \<noteq> []"
    proof -
      have "set (butlast (crlf_of rest)) \<subseteq> set (butlast (crlf_lines bytes))"
        unfolding whole by (auto simp: butlast_append crlf_of_def)
      then show ?thesis using assms by blast
    qed
    then have "filter ?P (butlast (crlf_of rest)) = butlast (crlf_of rest)" by (simp add: filter_id_conv)
    then have "length (filter ?P (crlf_of rest)) \<ge> length rest - 1"
      using crlf_length [OF ne] by (subst cr) simp
    then have l: "limit \<le> length (filter ?P (crlf_of rest))" using n by simp
    have "last_lines limit bytes = drop (length (filter ?P (crlf_of rest)) - limit) (filter ?P (crlf_of rest))"
      unfolding last_lines_def whole Let_def filter_append [of ?P _ "crlf_of rest"] by (rule drop_last_part [OF l])
    moreover have "last_lines limit b = drop (length (filter ?P (crlf_of rest)) - limit) (filter ?P (crlf_of rest))"
      unfolding last_lines_def tail Let_def filter_append [of ?P _ "crlf_of rest"] by (rule drop_last_part [OF l])
    ultimately show ?thesis by (simp add: b_def)
  qed (simp add: k(1))
  then show ?thesis using False by (simp add: readRecentTicks_def k(1))
qed (simp add: readRecentTicks_def)

end
