(* ===== verification/Ledger_Entry.thy ===== *)
theory Ledger_Entry
  imports Tick_Log Usage "HOL-Library.Multiset"
begin

text \<open>
  Entries of the operator's work ledger (\<open>src/src/fc-tasks.ts\<close>): the validation of an entry and of a
  patch, the link to an engine task, the reference graph, and the validation of all files of a ledger.

  A file of the ledger is known by its parsed value; an entry that is written has the value
  \<open>entry_json\<close>.  Refusals are the constructors of \<open>entry_refusal\<close>, issues those of \<open>ledger_issue\<close>.
\<close>

section \<open>Entries\<close>

datatype fc_status = FcPending | FcInProgress | FcCompleted

fun fc_status_name :: "fc_status \<Rightarrow> string" where
  "fc_status_name FcPending = ''pending''"
| "fc_status_name FcInProgress = ''in_progress''"
| "fc_status_name FcCompleted = ''completed''"

definition fc_statuses :: "fc_status list" where
  "fc_statuses = [FcPending, FcInProgress, FcCompleted]"

record fc_entry =
  fe_id :: string
  fe_subject :: string
  fe_description :: string
  fe_activeForm :: string
  fe_status :: fc_status
  fe_blocks :: "string list"
  fe_blockedBy :: "string list"
  fe_taskId :: "rat option"

definition FC_TASK_FIELDS :: "string list" where
  "FC_TASK_FIELDS = [''id'', ''subject'', ''description'', ''activeForm'', ''status'', ''blocks'', ''blockedBy'']"

definition link_field :: string where
  "link_field = ''flowcrewTaskId''"

definition is_control :: "char \<Rightarrow> bool" where
  \<comment> \<open>\<open>isTerminalControl\<close> on one code unit\<close>
  "is_control c = (let n = (of_char c :: nat) in n \<le> 0x1F \<or> 0x7F \<le> n \<and> n \<le> 0x9F)"

definition segment_forbidden :: "char \<Rightarrow> bool" where
  \<comment> \<open>\<open>INVALID_SEGMENT_CHARACTERS\<close>\<close>
  "segment_forbidden c = (c \<in> {CHR ''<'', CHR ''>'', CHR '':'', CHR 0x22, CHR ''/'', CHR 0x5C, CHR ''|'', CHR ''?'', CHR ''*''})"

definition isSafePathSegment :: "string \<Rightarrow> bool" where
  "isSafePathSegment v =
     (length v > 0 \<and> length v \<le> 128 \<and> v = trim v \<and> v \<noteq> ''.'' \<and> v \<noteq> ''..'' \<and> length v \<le> 240
      \<and> \<not> list_ex is_control v \<and> \<not> list_ex segment_forbidden v)"

definition safe_integer :: "rat \<Rightarrow> bool" where
  "safe_integer r = (is_integer r \<and> - max_safe_integer \<le> r \<and> r \<le> max_safe_integer)"

definition positive_safe :: "json \<Rightarrow> rat option" where
  \<comment> \<open>\<open>Number.isSafeInteger(v) && v >= 1\<close>\<close>
  "positive_safe v = (case v of JNum r \<Rightarrow> if safe_integer r \<and> \<not> r < 1 then Some r else None | _ \<Rightarrow> None)"

datatype entry_refusal = NotAnObject | MissingField string | UnexpectedField string | BadId | NotText string | BadStatus
  | BadLink | NotTexts string | DuplicateIds string | UnsafeId string

definition has_own :: "json \<Rightarrow> string \<Rightarrow> bool" where
  "has_own v k = (case v of JObj m \<Rightarrow> k \<in> fst ` set m | _ \<Rightarrow> False)"

definition texts :: "json \<Rightarrow> string list option" where
  \<comment> \<open>an array of strings\<close>
  "texts v = (case v of JArr vs \<Rightarrow> those (map (\<lambda>x. case x of JStr s \<Rightarrow> Some s | _ \<Rightarrow> None) vs) | _ \<Rightarrow> None)"

definition uniqueStringArray :: "json \<Rightarrow> string \<Rightarrow> entry_refusal + string list" where
  "uniqueStringArray v field =
     (case texts v of
        None \<Rightarrow> Inl (NotTexts field)
      | Some ids \<Rightarrow> if \<not> distinct ids then Inl (DuplicateIds field)
                    else if \<not> list_all isSafePathSegment ids then Inl (UnsafeId field) else Inr ids)"

definition text_field :: "json \<Rightarrow> string \<Rightarrow> entry_refusal + string" where
  "text_field v k = (case own_field v k of JStr s \<Rightarrow> Inr s | _ \<Rightarrow> Inl (NotText k))"

definition status_field :: "json \<Rightarrow> entry_refusal + fc_status" where
  "status_field v =
     (case own_field v ''status'' of
        JStr s \<Rightarrow> (case find (\<lambda>st. fc_status_name st = s) fc_statuses of Some st \<Rightarrow> Inr st | None \<Rightarrow> Inl BadStatus)
      | _ \<Rightarrow> Inl BadStatus)"

definition id_field :: "json \<Rightarrow> entry_refusal + string" where
  "id_field v = (case own_field v ''id'' of JStr s \<Rightarrow> if isSafePathSegment s then Inr s else Inl BadId | _ \<Rightarrow> Inl BadId)"

definition link_of :: "json \<Rightarrow> entry_refusal + rat option" where
  "link_of v =
     (if has_own v link_field
      then (case positive_safe (own_field v link_field) of None \<Rightarrow> Inl BadLink | Some i \<Rightarrow> Inr (Some i))
      else Inr None)"

definition keys_of :: "json \<Rightarrow> string list" where
  "keys_of v = (case v of JObj m \<Rightarrow> map fst m | _ \<Rightarrow> [])"

definition strict_fields :: "json \<Rightarrow> entry_refusal + unit" where
  "strict_fields v =
     (case filter (\<lambda>k. \<not> has_own v k) FC_TASK_FIELDS of
        k # _ \<Rightarrow> Inl (MissingField k)
      | [] \<Rightarrow> (case filter (\<lambda>k. k \<notin> set (link_field # FC_TASK_FIELDS)) (keys_of v) of
                 k # _ \<Rightarrow> Inl (UnexpectedField k) | [] \<Rightarrow> Inr ()))"

definition validateFcTaskEntry :: "json \<Rightarrow> bool \<Rightarrow> entry_refusal + fc_entry" where
  "validateFcTaskEntry v strict =
     (if \<not> is_record v then Inl NotAnObject
      else rbind (if strict then strict_fields v else Inr ()) (\<lambda>_.
           rbind (id_field v) (\<lambda>i.
           rbind (text_field v ''subject'') (\<lambda>subject.
           rbind (text_field v ''description'') (\<lambda>description.
           rbind (text_field v ''activeForm'') (\<lambda>activeForm.
           rbind (status_field v) (\<lambda>st.
           rbind (link_of v) (\<lambda>link.
           rbind (uniqueStringArray (own_field v ''blocks'') ''blocks'') (\<lambda>blocks.
           rbind (uniqueStringArray (own_field v ''blockedBy'') ''blockedBy'') (\<lambda>blockedBy.
           Inr \<lparr>fe_id = i, fe_subject = subject, fe_description = description, fe_activeForm = activeForm, fe_status = st,
                fe_blocks = blocks, fe_blockedBy = blockedBy, fe_taskId = link\<rparr>))))))))))"

definition isCompleteFcTaskEntry :: "json \<Rightarrow> bool" where
  "isCompleteFcTaskEntry v = (is_record v \<and> list_all (has_own v) FC_TASK_FIELDS)"

definition validateFcTaskPatch :: "json \<Rightarrow> entry_refusal + json" where
  "validateFcTaskPatch v =
     (if \<not> is_record v then Inl NotAnObject
      else case filter (\<lambda>k. k \<notin> set (link_field # FC_TASK_FIELDS)) (keys_of v) of
             k # _ \<Rightarrow> Inl (UnexpectedField k) | [] \<Rightarrow> Inr v)"

definition supportedTaskRecord :: "json \<Rightarrow> json" where
  "supportedTaskRecord v = JObj (map (\<lambda>k. (k, own_field v k)) (filter (has_own v) (FC_TASK_FIELDS @ [link_field])))"

definition entry_json :: "fc_entry \<Rightarrow> json" where
  \<comment> \<open>the value written for an entry\<close>
  "entry_json e = JObj ([(''id'', JStr (fe_id e)), (''subject'', JStr (fe_subject e)), (''description'', JStr (fe_description e)),
     (''activeForm'', JStr (fe_activeForm e)), (''status'', JStr (fc_status_name (fe_status e))),
     (''blocks'', JArr (map JStr (fe_blocks e))), (''blockedBy'', JArr (map JStr (fe_blockedBy e)))]
     @ (case fe_taskId e of None \<Rightarrow> [] | Some i \<Rightarrow> [(link_field, JNum i)]))"

section \<open>The link to an engine task\<close>

definition canonical_link :: "string \<Rightarrow> string option" where
  \<comment> \<open>\<open>CANONICAL_FLOWCREW_TASK_LINK\<close>: the digits of the task\<close>
  "canonical_link line =
     (if starts_with ''FlowCrew task '' line
      then let r = drop (length ''FlowCrew task '') line; ds = takeWhile is_digit r
           in if ds \<noteq> [] \<and> hd ds \<noteq> CHR ''0''
                 \<and> drop (length ds) r = '' is registered; wrap-up remains: read the result, verify it independently, archive unique output, and reclaim the worktree and branch.''
              then Some ds else None
      else None)"

fun inferred_links :: "string list \<Rightarrow> rat list \<Rightarrow> rat list option" where
  \<comment> \<open>the ids the lines name; \<open>None\<close> where the inference stops\<close>
  "inferred_links [] ids = Some ids"
| "inferred_links (l # ls) ids =
     (case canonical_link l of
        None \<Rightarrow> inferred_links ls ids
      | Some ds \<Rightarrow>
          let i = of_nat (digits_value 10 ds); ids' = (if i \<in> set ids then ids else ids @ [i])
          in if \<not> safe_integer i \<or> i < 1 \<or> length ids' > 1 then None else inferred_links ls ids')"

definition effectiveFlowcrewTaskId :: "fc_entry \<Rightarrow> rat option" where
  "effectiveFlowcrewTaskId e =
     (case fe_taskId e of
        Some i \<Rightarrow> Some i
      | None \<Rightarrow> (case inferred_links (crlf_lines (fe_description e)) [] of Some [i] \<Rightarrow> Some i | _ \<Rightarrow> None))"

definition withEffectiveTaskLink :: "fc_entry \<Rightarrow> fc_entry" where
  "withEffectiveTaskLink e =
     (case effectiveFlowcrewTaskId e of
        Some i \<Rightarrow> if fe_taskId e = None then e\<lparr>fe_taskId := Some i\<rparr> else e
      | None \<Rightarrow> e)"

section \<open>The reference graph\<close>

definition MAX_LEDGER_GRAPH_ERRORS :: nat where "MAX_LEDGER_GRAPH_ERRORS = 1000"

datatype reference_error = SelfReference string string | MissingTarget string string string

definition entry_graph_errors :: "string set \<Rightarrow> fc_entry \<Rightarrow> reference_error list" where
  "entry_graph_errors ids e =
     List.map_filter (\<lambda>(field, t). if t = fe_id e then Some (SelfReference (fe_id e) field)
          else if t \<notin> ids then Some (MissingTarget (fe_id e) field t) else None)
       (map (Pair ''blocks'') (fe_blocks e) @ map (Pair ''blockedBy'') (fe_blockedBy e))"

definition graphErrors :: "fc_entry list \<Rightarrow> reference_error list" where
  "graphErrors es = take MAX_LEDGER_GRAPH_ERRORS (concat (map (entry_graph_errors (set (map fe_id es))) es))"

section \<open>The files of a ledger\<close>

datatype ledger_issue = StoreUnreadable string | ScanLimitExceeded string | EntryNotJson string
  | EntryInvalid string "entry_refusal option" | DuplicateId string string string | GraphInvalid reference_error

datatype source_content = Unreadable ledger_issue | Parsed json

record task_source =
  ts_name :: string
  ts_bytes :: nat
  ts_content :: source_content

record stored_task =
  st_entry :: fc_entry
  st_source :: string
  st_record :: json

fun parse_sources :: "task_source list \<Rightarrow> stored_task list \<times> ledger_issue list" where
  "parse_sources [] = ([], [])"
| "parse_sources (s # ss) =
     (let (ts, is) = parse_sources ss
      in case ts_content s of
           Unreadable i \<Rightarrow> (ts, i # is)
         | Parsed v \<Rightarrow> (case validateFcTaskEntry v False of
             Inl r \<Rightarrow> (ts, EntryInvalid (ts_name s) (Some r) # is)
           | Inr e \<Rightarrow> (\<lparr>st_entry = e, st_source = ts_name s, st_record = v\<rparr> # ts, is)))"

fun unique_tasks :: "(string \<times> string) list \<Rightarrow> stored_task list \<Rightarrow> stored_task list \<times> ledger_issue list" where
  \<comment> \<open>the first file of every id\<close>
  "unique_tasks seen [] = ([], [])"
| "unique_tasks seen (t # ts) =
     (let i = fe_id (st_entry t)
      in case map_of seen i of
           Some first \<Rightarrow> (let (us, is) = unique_tasks seen ts in (us, DuplicateId i first (st_source t) # is))
         | None \<Rightarrow> (let (us, is) = unique_tasks ((i, st_source t) # seen) ts in (t # us, is)))"

definition validateLedgerSources :: "task_source list \<Rightarrow> stored_task list \<times> ledger_issue list" where
  "validateLedgerSources sources =
     (let (parsed, issues) = parse_sources sources; (us, dups) = unique_tasks [] parsed
      in (sort_key (fe_id \<circ> st_entry) us, issues @ dups @ map GraphInvalid (graphErrors (map st_entry us))))"

section \<open>Validated entries\<close>

definition entry_ok :: "fc_entry \<Rightarrow> bool" where
  \<comment> \<open>the type of an entry\<close>
  "entry_ok e =
     (isSafePathSegment (fe_id e)
      \<and> distinct (fe_blocks e) \<and> list_all isSafePathSegment (fe_blocks e)
      \<and> distinct (fe_blockedBy e) \<and> list_all isSafePathSegment (fe_blockedBy e)
      \<and> (case fe_taskId e of None \<Rightarrow> True | Some i \<Rightarrow> safe_integer i \<and> 1 \<le> i))"

lemma unique_array_ok: "uniqueStringArray v k = Inr ids \<Longrightarrow> distinct ids \<and> list_all isSafePathSegment ids"
  by (auto simp: uniqueStringArray_def split: option.splits if_splits)

lemma link_ok: "link_of v = Inr (Some i) \<Longrightarrow> safe_integer i \<and> 1 \<le> i"
  by (auto simp: link_of_def positive_safe_def split: if_splits option.splits json.splits)

lemma id_ok: "id_field v = Inr i \<Longrightarrow> isSafePathSegment i \<and> own_field v ''id'' = JStr i"
  by (auto simp: id_field_def split: json.splits if_splits)

lemma validate_ok: "validateFcTaskEntry v strict = Inr e \<Longrightarrow> entry_ok e \<and> own_field v ''id'' = JStr (fe_id e)"
  unfolding validateFcTaskEntry_def
  by (auto simp: entry_ok_def dest!: unique_array_ok link_ok id_ok split: if_splits option.splits dest: link_ok)

lemma texts_strings [simp]: "texts (JArr (map JStr ids)) = Some ids"
  by (induction ids) (simp_all add: texts_def)

lemma status_name_found: "find (\<lambda>st. fc_status_name st = fc_status_name s) fc_statuses = Some s"
  by (cases s) (simp_all add: fc_statuses_def)

lemma entry_fields:
  "own_field (entry_json e) ''id'' = JStr (fe_id e)" "own_field (entry_json e) ''subject'' = JStr (fe_subject e)"
  "own_field (entry_json e) ''description'' = JStr (fe_description e)" "own_field (entry_json e) ''activeForm'' = JStr (fe_activeForm e)"
  "own_field (entry_json e) ''status'' = JStr (fc_status_name (fe_status e))"
  "own_field (entry_json e) ''blocks'' = JArr (map JStr (fe_blocks e))"
  "own_field (entry_json e) ''blockedBy'' = JArr (map JStr (fe_blockedBy e))"
  "own_field (entry_json e) link_field = (case fe_taskId e of None \<Rightarrow> JUndef | Some i \<Rightarrow> JNum i)"
  "has_own (entry_json e) link_field = (fe_taskId e \<noteq> None)" "is_record (entry_json e)"
  by (cases "fe_taskId e"; simp add: entry_json_def own_field_def has_own_def is_record_def link_field_def)+

lemma entry_strict: "strict_fields (entry_json e) = Inr ()"
  by (cases "fe_taskId e"; simp add: strict_fields_def entry_json_def has_own_def keys_of_def FC_TASK_FIELDS_def)

lemma validate_entry_json:
  assumes "entry_ok e"
  shows "validateFcTaskEntry (entry_json e) strict = Inr e"
proof -
  have l: "link_of (entry_json e) = Inr (fe_taskId e)"
    using assms by (cases "fe_taskId e") (auto simp: link_of_def entry_fields entry_ok_def positive_safe_def)
  have u: "uniqueStringArray (JArr (map JStr (fe_blocks e))) k = Inr (fe_blocks e)"
    "uniqueStringArray (JArr (map JStr (fe_blockedBy e))) k = Inr (fe_blockedBy e)" for k
    using assms by (simp_all add: uniqueStringArray_def entry_ok_def)
  have i: "id_field (entry_json e) = Inr (fe_id e)" using assms by (simp add: id_field_def entry_fields entry_ok_def)
  have s: "status_field (entry_json e) = Inr (fe_status e)" by (simp add: status_field_def entry_fields status_name_found)
  have t: "text_field (entry_json e) ''subject'' = Inr (fe_subject e)" "text_field (entry_json e) ''description'' = Inr (fe_description e)"
    "text_field (entry_json e) ''activeForm'' = Inr (fe_activeForm e)" by (simp_all add: text_field_def entry_fields)
  show ?thesis unfolding validateFcTaskEntry_def by (simp add: entry_fields(10) entry_strict i t s l u entry_fields(6,7))
qed

text \<open>An entry survives its file: whatever the validation accepts, writing the entry and validating the
  written value, strictly or not, gives the same entry.\<close>

lemma entry_roundtrip:
  assumes "validateFcTaskEntry v strict = Inr e"
  shows "validateFcTaskEntry (entry_json e) strict' = Inr e"
  using validate_entry_json validate_ok [OF assms] by blast

definition example_value :: "string \<Rightarrow> string list \<Rightarrow> json" where
  "example_value i blocks = JObj [(''id'', JStr i), (''subject'', JStr ''s''), (''description'', JStr ''d''), (''activeForm'', JStr ''a''),
     (''status'', JStr ''pending''), (''blocks'', JArr (map JStr blocks)), (''blockedBy'', JArr []), (link_field, JNum 3)]"

definition example_entry :: "string \<Rightarrow> string list \<Rightarrow> fc_entry" where
  "example_entry i blocks = \<lparr>fe_id = i, fe_subject = ''s'', fe_description = ''d'', fe_activeForm = ''a'', fe_status = FcPending,
     fe_blocks = blocks, fe_blockedBy = [], fe_taskId = Some 3\<rparr>"

section \<open>Validated ledgers\<close>

lemma parsed_tasks:
  "t \<in> set (fst (parse_sources ss)) \<Longrightarrow>
     \<exists>s \<in> set ss. st_source t = ts_name s \<and> ts_content s = Parsed (st_record t) \<and> validateFcTaskEntry (st_record t) False = Inr (st_entry t)"
  by (induction ss) (auto simp: Let_def split: prod.splits source_content.splits sum.splits)

lemma unique_tasks_ok:
  "set (fst (unique_tasks seen ts)) \<subseteq> set ts
   \<and> distinct (map (fe_id \<circ> st_entry) (fst (unique_tasks seen ts)))
   \<and> (\<forall>t \<in> set (fst (unique_tasks seen ts)). map_of seen (fe_id (st_entry t)) = None)"
proof (induction seen ts rule: unique_tasks.induct)
  case (2 seen t ts)
  show ?case
  proof (cases "map_of seen (fe_id (st_entry t))")
    case None
    with "2.IH"(1) [OF refl None] show ?thesis by (force simp: Let_def split: prod.splits if_splits)
  next
    case (Some a)
    with "2.IH"(2) [OF refl Some] show ?thesis by (auto simp: Let_def split: prod.splits)
  qed
qed simp

lemma no_duplicates:
  "snd (unique_tasks seen ts) = [] \<longleftrightarrow> distinct (map (fe_id \<circ> st_entry) ts) \<and> (\<forall>t \<in> set ts. map_of seen (fe_id (st_entry t)) = None)"
  "snd (unique_tasks seen ts) = [] \<Longrightarrow> fst (unique_tasks seen ts) = ts"
proof (induction seen ts rule: unique_tasks.induct)
  case (2 seen t ts)
  { case 1
    show ?case using "2.IH"
      by (cases "map_of seen (fe_id (st_entry t))") (auto simp: Let_def image_iff split: prod.splits if_splits) }
  { case 2
    then show ?case using "2.IH"
      by (cases "map_of seen (fe_id (st_entry t))") (auto simp: Let_def split: prod.splits) }
qed simp_all

definition graph_closed :: "fc_entry list \<Rightarrow> bool" where
  "graph_closed es = (\<forall>e \<in> set es. \<forall>t \<in> set (fe_blocks e) \<union> set (fe_blockedBy e). t \<noteq> fe_id e \<and> t \<in> fe_id ` set es)"

lemma graph_errors_none: "graphErrors es = [] \<longleftrightarrow> graph_closed es"
proof -
  have "entry_graph_errors ids e = [] \<longleftrightarrow> (\<forall>t \<in> set (fe_blocks e) \<union> set (fe_blockedBy e). t \<noteq> fe_id e \<and> t \<in> ids)" for ids e
    by (auto simp: entry_graph_errors_def List.map_filter_def filter_empty_conv split: if_splits)
  then show ?thesis by (simp add: graphErrors_def MAX_LEDGER_GRAPH_ERRORS_def graph_closed_def)
qed

definition ledger_typed :: "stored_task list \<Rightarrow> bool" where
  \<comment> \<open>the type of what a reader returns\<close>
  "ledger_typed ts =
     (list_all (entry_ok \<circ> st_entry) ts \<and> distinct (map (fe_id \<circ> st_entry) ts) \<and> sorted (map (fe_id \<circ> st_entry) ts))"

lemma validated_ledger:
  assumes "validateLedgerSources ss = (ts, issues)"
  shows "ledger_typed ts" and "issues = [] \<Longrightarrow> graph_closed (map st_entry ts)"
    and "\<forall>t \<in> set ts. \<exists>s \<in> set ss. st_source t = ts_name s \<and> ts_content s = Parsed (st_record t)
          \<and> validateFcTaskEntry (st_record t) False = Inr (st_entry t)"
proof -
  obtain parsed pissues where p: "parse_sources ss = (parsed, pissues)" by (cases "parse_sources ss")
  obtain us dups where u: "unique_tasks [] parsed = (us, dups)" by (cases "unique_tasks [] parsed")
  have ts: "ts = sort_key (fe_id \<circ> st_entry) us" and iss: "issues = pissues @ dups @ map GraphInvalid (graphErrors (map st_entry us))"
    using assms by (simp_all add: validateLedgerSources_def p u)
  have sub: "set us \<subseteq> set parsed" "distinct (map (fe_id \<circ> st_entry) us)" using unique_tasks_ok [of "[]" parsed] u by simp_all
  have from_source: "\<exists>s \<in> set ss. st_source t = ts_name s \<and> ts_content s = Parsed (st_record t)
      \<and> validateFcTaskEntry (st_record t) False = Inr (st_entry t)" if "t \<in> set us" for t
    using parsed_tasks [of t ss] sub(1) that p by auto
  then show "\<forall>t \<in> set ts. \<exists>s \<in> set ss. st_source t = ts_name s \<and> ts_content s = Parsed (st_record t)
      \<and> validateFcTaskEntry (st_record t) False = Inr (st_entry t)" by (simp add: ts)
  then have "\<forall>t \<in> set ts. entry_ok (st_entry t)" using validate_ok by blast
  moreover have "distinct (map (fe_id \<circ> st_entry) ts)"
  proof -
    have "mset (map (fe_id \<circ> st_entry) ts) = mset (map (fe_id \<circ> st_entry) us)" by (simp add: ts)
    then show ?thesis using sub(2) by (metis mset_eq_imp_distinct_iff)
  qed
  ultimately show "ledger_typed ts" unfolding ledger_typed_def list_all_iff ts by (simp add: comp_def)
  show "issues = [] \<Longrightarrow> graph_closed (map st_entry ts)"
    using graph_errors_none [of "map st_entry us"] by (simp add: iss graph_closed_def ts)
qed

end
