(* ===== verification/Engine_Link.thy ===== *)
theory Engine_Link
  imports Ledger_Entry Registry_Ops Scope
begin

text \<open>
  The link from a ledger entry to the engine (\<open>src/src/fc-tasks.ts\<close>): the engine task is read from the
  task registry (\<open>Registry_Ops\<close>), its run from the archive, and the two accounts are compared without
  either changing the other.

  \<open>engine_store\<close> is what the resolver reads.  The archive is observed at five moments (the directory is
  inspected, a record is read, the directory is inspected again, twice), so it is a function of the
  moment: the code compares the directory's identity across them.  \<open>es_fields\<close> is
  \<open>readRunRecordFields\<close> (\<open>run-record-fields.ts\<close>) on the text of a file, \<open>es_dateOk\<close> whether
  \<open>Date.parse\<close> gives a number.
\<close>

section \<open>Engine tasks\<close>

record engine_task =
  et_id :: rat
  et_status :: string
  et_projectDir :: string
  et_runId :: "string option"
  et_digest :: "string option"

definition MAX_ENGINE_STATUS_BYTES :: nat where "MAX_ENGINE_STATUS_BYTES = 4 * 1024"
definition MAX_ENGINE_PROJECT_PATH_BYTES :: nat where "MAX_ENGINE_PROJECT_PATH_BYTES = 64 * 1024"
definition MAX_ENGINE_RESERVATION_BYTES :: nat where "MAX_ENGINE_RESERVATION_BYTES = 1024 * 1024"

definition is_hex :: "char \<Rightarrow> bool" where
  "is_hex c = (is_digit c \<or> CHR ''a'' \<le> c \<and> c \<le> CHR ''f'')"

definition engineBriefDigest :: "json \<Rightarrow> string \<Rightarrow> string option" where
  "engineBriefDigest v field =
     (let admission = own_field v field
      in if is_record v \<and> is_record admission
         then (case own_field admission ''digest'' of
                 JStr d \<Rightarrow> if length d = 64 \<and> list_all is_hex d then Some d else None
               | _ \<Rightarrow> None)
         else None)"

definition resolve_path :: "string \<Rightarrow> string \<Rightarrow> string" where
  \<comment> \<open>\<open>path.resolve(base, p)\<close> for an absolute base\<close>
  "resolve_path base p =
     CHR ''/'' # join_with ''/'' (norm_segs False [] (split_on (CHR ''/'') (if isAbsolute p then p else base @ ''/'' @ p)))"

definition bounded_text :: "json \<Rightarrow> nat \<Rightarrow> string option" where
  \<comment> \<open>a string that is not blank and within a limit\<close>
  "bounded_text v limit = (case v of JStr s \<Rightarrow> if trim s \<noteq> [] \<and> length s \<le> limit then Some s else None | _ \<Rightarrow> None)"

definition parseEngineTask :: "string \<Rightarrow> json \<Rightarrow> rat \<Rightarrow> engine_task option" where
  "parseEngineTask cwd v expectedId =
     (if \<not> is_record v \<or> own_field v ''id'' \<noteq> JNum expectedId then None
      else case (bounded_text (own_field v ''status'') MAX_ENGINE_STATUS_BYTES,
                 bounded_text (own_field v ''projectDir'') MAX_ENGINE_PROJECT_PATH_BYTES) of
        (Some status, Some dir) \<Rightarrow>
          (case own_field v ''run_id'' of
             JUndef \<Rightarrow> Some \<lparr>et_id = expectedId, et_status = status, et_projectDir = resolve_path cwd dir, et_runId = None,
                             et_digest = engineBriefDigest v ''brief_admission''\<rparr>
           | JStr r \<Rightarrow> if trim r = [] then None
               else Some \<lparr>et_id = expectedId, et_status = status, et_projectDir = resolve_path cwd dir, et_runId = Some r,
                          et_digest = engineBriefDigest v ''brief_admission''\<rparr>
           | _ \<Rightarrow> None)
      | _ \<Rightarrow> None)"

section \<open>The run archive\<close>

datatype fs_node = NoNode | NodeError | Directory "nat \<times> nat" | Regular string | Changing | OtherNode
  \<comment> \<open>\<open>Changing\<close> is a regular file that is rewritten while it is read; \<open>OtherNode\<close> a link or a special file\<close>

datatype run_fields = FieldsOversized | FieldsMalformed | Fields json

record engine_store =
  es_cwd :: string
  es_runRoot :: string
  es_node :: "nat \<Rightarrow> string \<Rightarrow> fs_node"
  es_fields :: "string \<Rightarrow> run_fields"
  es_dateOk :: "string \<Rightarrow> bool"

definition pathWithin :: "string \<Rightarrow> string \<Rightarrow> bool" where
  \<comment> \<open>on resolved paths\<close>
  "pathWithin base candidate = (candidate = base \<or> starts_with (base @ ''/'') candidate)"

fun walk_directories :: "(string \<Rightarrow> fs_node) \<Rightarrow> string \<Rightarrow> nat \<times> nat \<Rightarrow> string list \<Rightarrow> (nat \<times> nat) option" where
  "walk_directories node path i [] = Some i"
| "walk_directories node path i (c # cs) =
     (case node (path @ ''/'' @ c) of Directory j \<Rightarrow> walk_directories node (path @ ''/'' @ c) j cs | _ \<Rightarrow> None)"

definition containedDirectoryIdentity :: "(string \<Rightarrow> fs_node) \<Rightarrow> string \<Rightarrow> string \<Rightarrow> (nat \<times> nat) option" where
  "containedDirectoryIdentity node base candidate =
     (if \<not> pathWithin base candidate then None
      else case node base of
        Directory i \<Rightarrow> walk_directories node base i
          (if candidate = base then [] else split_on (CHR ''/'') (drop (length base + 1) candidate))
      | _ \<Rightarrow> None)"

datatype read_failure = FileMissing | FileOversized | FileUnsafe | FileUnreadable

definition readRegularFile :: "fs_node \<Rightarrow> (string \<Rightarrow> read_failure + 'a) \<Rightarrow> read_failure + 'a" where
  \<comment> \<open>the reader raises \<open>RangeError\<close> (oversized) or another error (unreadable)\<close>
  "readRegularFile n read =
     (case n of
        NoNode \<Rightarrow> Inl FileMissing
      | NodeError \<Rightarrow> Inl FileUnreadable
      | Directory _ \<Rightarrow> Inl FileUnsafe
      | OtherNode \<Rightarrow> Inl FileUnsafe
      | Changing \<Rightarrow> Inl FileUnsafe
      | Regular text \<Rightarrow> read text)"

definition readBoundedRegularFile :: "nat \<Rightarrow> fs_node \<Rightarrow> read_failure + string" where
  "readBoundedRegularFile limit n = readRegularFile n (\<lambda>text. if length text > limit then Inl FileOversized else Inr text)"

datatype stale_reason = OutsideArchive | NotContained | DirectoryChanged | RecordOversized | RecordUnreadable | RecordMissing
  | ReservationMismatch | RecordMismatch | DigestMismatch | TaskGone | TaskInvalid

datatype unavailable_reason = NoResolver | MismatchedIdentity | ResolverFailed | RootNotDirectory | RootUnavailable
  | RegistryNotRegular | RegistryMayHide | RegistryChangedWhileRead | RegistryUnreadable

record resolved_run =
  rv_taskId :: rat
  rv_taskStatus :: string
  rv_projectDir :: string
  rv_digest :: "string option"
  rv_runId :: "string option"
  rv_runStatus :: "string option"

datatype run_resolution = NeverLinked | Resolved resolved_run | Stale rat stale_reason | Unavailable rat unavailable_reason

definition resolved_task :: "engine_task \<Rightarrow> string option \<Rightarrow> string option \<Rightarrow> run_resolution" where
  "resolved_task t run status =
     Resolved \<lparr>rv_taskId = et_id t, rv_taskStatus = et_status t, rv_projectDir = et_projectDir t, rv_digest = et_digest t,
               rv_runId = run, rv_runStatus = status\<rparr>"

definition last_segment :: "string \<Rightarrow> string" where
  \<comment> \<open>\<open>basename\<close> of a resolved path\<close>
  "last_segment p = last (split_on (CHR ''/'') p)"

definition reservation_matches :: "engine_store \<Rightarrow> engine_task \<Rightarrow> string \<Rightarrow> json \<Rightarrow> bool" where
  "reservation_matches es t expectedRunId v =
     (is_record v \<and> own_field v ''version'' = JNum 1 \<and> own_field v ''runId'' = JStr expectedRunId
      \<and> (case own_field v ''projectDir'' of JStr d \<Rightarrow> resolve_path (es_cwd es) d = et_projectDir t | _ \<Rightarrow> False)
      \<and> (case own_field v ''reservedAt'' of JStr d \<Rightarrow> es_dateOk es d | _ \<Rightarrow> False))"

definition run_record_matches :: "engine_store \<Rightarrow> engine_task \<Rightarrow> string \<Rightarrow> json \<Rightarrow> bool" where
  "run_record_matches es t expectedRunId v =
     (is_record v \<and> own_field v ''runId'' \<in> {JUndef, JStr expectedRunId}
      \<and> bounded_text (own_field v ''status'') MAX_ENGINE_STATUS_BYTES \<noteq> None
      \<and> (case own_field v ''projectDir'' of
           JStr d \<Rightarrow> length d \<le> MAX_ENGINE_PROJECT_PATH_BYTES \<and> resolve_path (es_cwd es) d = et_projectDir t
         | _ \<Rightarrow> False))"

definition run_status_text :: "json \<Rightarrow> string" where
  "run_status_text v = (case resolveRunStatus v of Known st _ \<Rightarrow> run_status_name st | Unknown _ \<Rightarrow> text_of v)"

definition resolve_reservation :: "engine_store \<Rightarrow> engine_task \<Rightarrow> string \<Rightarrow> nat \<times> nat \<Rightarrow> run_resolution" where
  \<comment> \<open>the run has no record yet: moments 3 and 4\<close>
  "resolve_reservation es t runPath i =
     (let read = readBoundedRegularFile MAX_ENGINE_RESERVATION_BYTES (es_node es 3 (runPath @ ''/.run-reservation.json''))
      in if containedDirectoryIdentity (es_node es 4) (es_runRoot es) runPath \<noteq> Some i then Stale (et_id t) DirectoryChanged
         else case read of
           Inl _ \<Rightarrow> Stale (et_id t) RecordMissing
         | Inr text \<Rightarrow> (case json_parse text of
             None \<Rightarrow> Stale (et_id t) ReservationMismatch
           | Some v \<Rightarrow> if reservation_matches es t (last_segment runPath) v
                       then resolved_task t (Some (last_segment runPath)) None else Stale (et_id t) ReservationMismatch))"

definition resolve_run_record :: "engine_store \<Rightarrow> engine_task \<Rightarrow> string \<Rightarrow> json \<Rightarrow> run_resolution" where
  "resolve_run_record es t runPath v =
     (if \<not> run_record_matches es t (last_segment runPath) v then Stale (et_id t) RecordMismatch
      else case (et_digest t, engineBriefDigest v ''briefAdmission'') of
        (Some a, Some b) \<Rightarrow>
          if a \<noteq> b then Stale (et_id t) DigestMismatch
          else resolved_task t (Some (last_segment runPath)) (Some (run_status_text (own_field v ''status'')))
      | _ \<Rightarrow> resolved_task t (Some (last_segment runPath)) (Some (run_status_text (own_field v ''status''))))"

definition resolveEngineRun :: "engine_store \<Rightarrow> engine_task \<Rightarrow> run_resolution" where
  "resolveEngineRun es t =
     (case et_runId t of
        None \<Rightarrow> resolved_task t None None
      | Some r \<Rightarrow>
          let runPath = resolve_path (es_runRoot es) r
          in if \<not> isAbsolute r \<and> \<not> isSafePathSegment r \<or> \<not> pathWithin (es_runRoot es) runPath then Stale (et_id t) OutsideArchive
             else case containedDirectoryIdentity (es_node es 0) (es_runRoot es) runPath of
               None \<Rightarrow> Stale (et_id t) NotContained
             | Some i \<Rightarrow>
                 let read = readRegularFile (es_node es 1 (runPath @ ''/run.json''))
                       (\<lambda>text. case es_fields es text of FieldsOversized \<Rightarrow> Inl FileOversized | FieldsMalformed \<Rightarrow> Inl FileUnreadable
                                | Fields v \<Rightarrow> Inr v)
                 in if containedDirectoryIdentity (es_node es 2) (es_runRoot es) runPath \<noteq> Some i
                    then Stale (et_id t) DirectoryChanged
                    else case read of
                      Inl FileMissing \<Rightarrow> resolve_reservation es t runPath i
                    | Inl FileOversized \<Rightarrow> Stale (et_id t) RecordOversized
                    | Inl _ \<Rightarrow> Stale (et_id t) RecordUnreadable
                    | Inr v \<Rightarrow> resolve_run_record es t runPath v)"

section \<open>The engine resolver\<close>

datatype registry_node = NoRegistry | RegistryOther | RegistryFile registry_file | RegistryFails
datatype root_node = RootDirectory | RootOther | RootFails

record engine_root =
  eg_root :: root_node
  eg_registry :: registry_node
  eg_unchanged :: bool
  \<comment> \<open>the registry and the root are the same before and after the read\<close>

datatype engine_snapshot = SnapshotFailed unavailable_reason | Snapshot "(rat \<times> json) list"

record resolver_state =
  rs_ids :: "rat list"
  rs_snapshot :: "engine_snapshot option"

definition readLatestEngineTasks :: "engine_root \<Rightarrow> rat list \<Rightarrow> engine_snapshot" where
  "readLatestEngineTasks eg ids =
     (if ids = [] then Snapshot []
      else case eg_registry eg of
        NoRegistry \<Rightarrow> SnapshotFailed RegistryUnreadable
      | RegistryOther \<Rightarrow> SnapshotFailed RegistryNotRegular
      | RegistryFails \<Rightarrow> SnapshotFailed RegistryUnreadable
      | RegistryFile f \<Rightarrow>
          let r = snd (readLatestUnlocked (Some f) None)
          in if list_ex (\<lambda>i. map_of (rr_tasks r) i = None) ids \<and> rr_unreadableRecords r > 0 then SnapshotFailed RegistryMayHide
             else if \<not> eg_unchanged eg then SnapshotFailed RegistryChangedWhileRead
             else Snapshot (List.map_filter (\<lambda>i. map_option (Pair i) (map_of (rr_tasks r) i)) ids))"

definition loadSnapshot :: "engine_root \<Rightarrow> resolver_state \<Rightarrow> resolver_state \<times> engine_snapshot" where
  "loadSnapshot eg st =
     (case rs_snapshot st of
        Some s \<Rightarrow> (st, s)
      | None \<Rightarrow>
          let s = (case eg_root eg of
              RootOther \<Rightarrow> SnapshotFailed RootNotDirectory
            | RootFails \<Rightarrow> SnapshotFailed RootUnavailable
            | RootDirectory \<Rightarrow> if eg_registry eg = NoRegistry then Snapshot [] else readLatestEngineTasks eg (rs_ids st))
          in (st\<lparr>rs_snapshot := Some s\<rparr>, s))"

definition prepare_resolver :: "engine_root \<Rightarrow> fc_entry list \<Rightarrow> resolver_state \<Rightarrow> resolver_state" where
  "prepare_resolver eg entries st =
     (let ids = uniq (List.map_filter effectiveFlowcrewTaskId entries); st' = \<lparr>rs_ids = ids, rs_snapshot = None\<rparr>
      in if ids = [] then st' else fst (loadSnapshot eg st'))"

definition resolve_entry :: "engine_store \<Rightarrow> engine_root \<Rightarrow> fc_entry \<Rightarrow> resolver_state \<Rightarrow> resolver_state \<times> run_resolution" where
  "resolve_entry es eg e st =
     (case effectiveFlowcrewTaskId e of
        None \<Rightarrow> (st, NeverLinked)
      | Some i \<Rightarrow>
          let st1 = (if i \<in> set (rs_ids st) then st else \<lparr>rs_ids = rs_ids st @ [i], rs_snapshot = None\<rparr>);
              (st2, current) = loadSnapshot eg st1
          in (st2, case current of
                SnapshotFailed why \<Rightarrow> Unavailable i why
              | Snapshot tasks \<Rightarrow> (case map_of tasks i of
                  None \<Rightarrow> Stale i TaskGone
                | Some raw \<Rightarrow> (case parseEngineTask (es_cwd es) raw i of
                    None \<Rightarrow> Stale i TaskInvalid
                  | Some t \<Rightarrow> resolveEngineRun es t))))"

section \<open>Resolving entries\<close>

text \<open>A resolver as its clients see it: the preparation and a resolution may raise (\<open>None\<close>).\<close>

record task_resolver =
  tr_prepares :: "fc_entry list \<Rightarrow> bool"
  tr_resolve :: "fc_entry \<Rightarrow> run_resolution option"

definition engine_resolver :: "engine_store \<Rightarrow> engine_root \<Rightarrow> fc_entry list \<Rightarrow> task_resolver" where
  \<comment> \<open>the resolver of \<open>createEngineTaskRunResolver\<close>, prepared for a list of entries\<close>
  "engine_resolver es eg entries =
     \<lparr>tr_prepares = (\<lambda>_. True),
      tr_resolve = (\<lambda>e. Some (snd (resolve_entry es eg e (prepare_resolver eg entries \<lparr>rs_ids = [], rs_snapshot = None\<rparr>))))\<rparr>"

definition resolution_task :: "run_resolution \<Rightarrow> rat option" where
  "resolution_task r = (case r of NeverLinked \<Rightarrow> None | Resolved v \<Rightarrow> Some (rv_taskId v) | Stale i _ \<Rightarrow> Some i | Unavailable i _ \<Rightarrow> Some i)"

definition resolveFcTaskRun :: "fc_entry \<Rightarrow> task_resolver option \<Rightarrow> run_resolution" where
  "resolveFcTaskRun e resolver =
     (case effectiveFlowcrewTaskId e of
        None \<Rightarrow> NeverLinked
      | Some i \<Rightarrow> (case resolver of
          None \<Rightarrow> Unavailable i NoResolver
        | Some tr \<Rightarrow> (case tr_resolve tr (withEffectiveTaskLink e) of
            None \<Rightarrow> Unavailable i ResolverFailed
          | Some r \<Rightarrow> if resolution_task r \<noteq> Some i then Unavailable i MismatchedIdentity else r)))"

definition resolveFcTaskRuns :: "fc_entry list \<Rightarrow> task_resolver option \<Rightarrow> run_resolution list" where
  "resolveFcTaskRuns entries resolver =
     (let es = map withEffectiveTaskLink entries;
          failed = (case resolver of None \<Rightarrow> False | Some tr \<Rightarrow> \<not> tr_prepares tr es)
      in map (\<lambda>e. case fe_taskId e of
            None \<Rightarrow> NeverLinked
          | Some i \<Rightarrow> if failed then Unavailable i ResolverFailed else resolveFcTaskRun e resolver) es)"

datatype close_refusal = UnsafeRunId | NotVerified run_resolution | OtherRun "string option" | NoRunStatus | UnknownStatus | NotTerminal run_status

definition requireExpectedTerminalRun :: "fc_entry \<Rightarrow> string \<Rightarrow> task_resolver option \<Rightarrow> close_refusal + resolved_run" where
  "requireExpectedTerminalRun e expected resolver =
     (if \<not> isSafePathSegment expected then Inl UnsafeRunId
      else case hd (resolveFcTaskRuns [e] resolver) of
        Resolved v \<Rightarrow>
          if rv_runId v \<noteq> Some expected then Inl (OtherRun (rv_runId v))
          else (case rv_runStatus v of
            None \<Rightarrow> Inl NoRunStatus
          | Some s \<Rightarrow> (case resolveRunStatus (JStr s) of
              Unknown _ \<Rightarrow> Inl UnknownStatus
            | Known st sem \<Rightarrow> if lifecycle sem \<noteq> Terminal then Inl (NotTerminal st) else Inr v))
      | r \<Rightarrow> Inl (NotVerified r))"

section \<open>Reconciliation\<close>

datatype engine_lifecycle = RunLifecycle bucket | TaskActive | TaskTerminal | LifecycleUnknown | NotComparable
datatype evidence_kind = EvidenceRun | EvidenceTask | EvidenceNone | EvidenceStale | EvidenceUnavailable

record engine_account =
  ea_evidence :: evidence_kind
  ea_lifecycle :: engine_lifecycle
  ea_running :: bool
  ea_terminal :: bool
  ea_taskId :: "rat option"
  ea_runId :: "string option"
  ea_status :: "string option"

datatype comparison = Aligned | WrapUpRequired | LedgerClosedEngineActive | NotCompared
datatype recommended = NoAction | FinishWrapUp | InspectActiveWork | LinkEntry | RepairEvidence

record reconciliation =
  rc_entryId :: string
  rc_ledgerStatus :: fc_status
  rc_engine :: engine_account
  rc_comparison :: comparison
  rc_linkVerified :: bool
  rc_action :: recommended

definition no_account :: "evidence_kind \<Rightarrow> rat option \<Rightarrow> engine_account" where
  "no_account k i = \<lparr>ea_evidence = k, ea_lifecycle = NotComparable, ea_running = False, ea_terminal = False, ea_taskId = i,
     ea_runId = None, ea_status = None\<rparr>"

definition reconciliationEngine :: "run_resolution \<Rightarrow> engine_account" where
  "reconciliationEngine r =
     (case r of
        NeverLinked \<Rightarrow> no_account EvidenceNone None
      | Stale i _ \<Rightarrow> no_account EvidenceStale (Some i)
      | Unavailable i _ \<Rightarrow> no_account EvidenceUnavailable (Some i)
      | Resolved v \<Rightarrow> (case rv_runStatus v of
          Some s \<Rightarrow> (case resolveRunStatus (JStr s) of
              Known st sem \<Rightarrow> \<lparr>ea_evidence = EvidenceRun, ea_lifecycle = RunLifecycle (lifecycle sem),
                  ea_running = (lifecycle sem = Executing), ea_terminal = (lifecycle sem = Terminal), ea_taskId = Some (rv_taskId v),
                  ea_runId = rv_runId v, ea_status = Some (run_status_name st)\<rparr>
            | Unknown _ \<Rightarrow> \<lparr>ea_evidence = EvidenceRun, ea_lifecycle = LifecycleUnknown, ea_running = False, ea_terminal = False,
                  ea_taskId = Some (rv_taskId v), ea_runId = rv_runId v, ea_status = Some s\<rparr>)
        | None \<Rightarrow>
            let known = isKnownTaskStatus (JStr (rv_taskStatus v)); active = known \<and> isActiveTaskStatus (rv_taskStatus v)
            in \<lparr>ea_evidence = EvidenceTask, ea_lifecycle = (if \<not> known then LifecycleUnknown else if active then TaskActive else TaskTerminal),
                ea_running = (known \<and> rv_taskStatus v = task_status_name TRunning), ea_terminal = (known \<and> \<not> active),
                ea_taskId = Some (rv_taskId v), ea_runId = None, ea_status = Some (rv_taskStatus v)\<rparr>))"

definition reconcileFcTask :: "fc_entry \<Rightarrow> run_resolution \<Rightarrow> reconciliation" where
  "reconcileFcTask e r =
     (let engine = reconciliationEngine r;
          comparable = ea_lifecycle engine \<noteq> NotComparable \<and> ea_lifecycle engine \<noteq> LifecycleUnknown;
          cmp = (if \<not> comparable then NotCompared
                 else if ea_terminal engine \<and> fe_status e \<noteq> FcCompleted then WrapUpRequired
                 else if \<not> ea_terminal engine \<and> fe_status e = FcCompleted then LedgerClosedEngineActive else Aligned)
      in \<lparr>rc_entryId = fe_id e, rc_ledgerStatus = fe_status e, rc_engine = engine, rc_comparison = cmp,
          rc_linkVerified = (case r of Resolved _ \<Rightarrow> True | _ \<Rightarrow> False),
          rc_action = (case cmp of
              WrapUpRequired \<Rightarrow> FinishWrapUp
            | LedgerClosedEngineActive \<Rightarrow> InspectActiveWork
            | Aligned \<Rightarrow> NoAction
            | NotCompared \<Rightarrow> if ea_evidence engine = EvidenceNone then LinkEntry else RepairEvidence)\<rparr>)"

definition reconcileFcTasks :: "fc_entry list \<Rightarrow> run_resolution list \<Rightarrow> unit + reconciliation list" where
  "reconcileFcTasks es rs = (if length es \<noteq> length rs then Inl () else Inr (map2 reconcileFcTask es rs))"

section \<open>What a resolution proves\<close>

lemma fresh_read: "exact_read (rf_bytes f) (snd (readLatestUnlocked (Some f) None))"
  by (rule read_exact) (simp add: coherent_def)

lemma map_of_found:
  "map_of (List.map_filter (\<lambda>i. map_option (Pair i) (g i)) ids) i = Some t \<Longrightarrow> g i = Some t"
  by (induction ids) (auto simp: List.map_filter_def split: if_splits)

lemma snapshot_tasks_exact:
  assumes "readLatestEngineTasks eg ids = Snapshot tasks" and "map_of tasks i = Some raw"
  shows "\<exists>f. eg_registry eg = RegistryFile f \<and> map_of (registry_tasks (rf_bytes f)) i = Some raw"
proof (cases "ids = []")
  case True
  then show ?thesis using assms by (simp add: readLatestEngineTasks_def)
next
  case False
  then obtain f where f: "eg_registry eg = RegistryFile f" using assms(1) by (cases "eg_registry eg") (simp_all add: readLatestEngineTasks_def)
  have "tasks = List.map_filter (\<lambda>i. map_option (Pair i) (map_of (rr_tasks (snd (readLatestUnlocked (Some f) None))) i)) ids"
    using assms(1) False f by (auto simp: readLatestEngineTasks_def Let_def split: if_splits)
  then show ?thesis using map_of_found assms(2) f exact_tasks [OF fresh_read [of f]] by metis
qed

definition snapshot_exact :: "engine_root \<Rightarrow> resolver_state \<Rightarrow> bool" where
  "snapshot_exact eg st = (\<forall>tasks i raw. rs_snapshot st = Some (Snapshot tasks) \<longrightarrow> map_of tasks i = Some raw \<longrightarrow>
     (\<exists>f. eg_registry eg = RegistryFile f \<and> map_of (registry_tasks (rf_bytes f)) i = Some raw))"

lemma load_exact: "snapshot_exact eg st \<Longrightarrow> loadSnapshot eg st = (st', s) \<Longrightarrow> snapshot_exact eg st' \<and> rs_snapshot st' = Some s"
  by (cases "rs_snapshot st")
     (auto simp: loadSnapshot_def snapshot_exact_def Let_def split: root_node.splits if_splits dest!: snapshot_tasks_exact)

lemma prepared_exact: "snapshot_exact eg (prepare_resolver eg entries st)"
proof -
  have e: "snapshot_exact eg \<lparr>rs_ids = ids, rs_snapshot = None\<rparr>" for ids by (simp add: snapshot_exact_def)
  show ?thesis
    unfolding prepare_resolver_def Let_def using e load_exact [OF e] by (metis fst_conv surj_pair)
qed

definition bound_run :: "engine_store \<Rightarrow> engine_task \<Rightarrow> string \<Rightarrow> string option \<Rightarrow> bool" where
  \<comment> \<open>the evidence for the run the task names in its \<open>run_id\<close>, and for its status where there is one\<close>
  "bound_run es t r status =
     (\<exists>q path i. et_runId t = Some q \<and> (isAbsolute q \<or> isSafePathSegment q)
        \<and> path = resolve_path (es_runRoot es) q \<and> pathWithin (es_runRoot es) path \<and> r = last_segment path
        \<and> containedDirectoryIdentity (es_node es 0) (es_runRoot es) path = Some i
        \<and> containedDirectoryIdentity (es_node es 2) (es_runRoot es) path = Some i
        \<and> (case status of
             Some s \<Rightarrow> (\<exists>text v. es_node es 1 (path @ ''/run.json'') = Regular text \<and> es_fields es text = Fields v
                 \<and> run_record_matches es t r v \<and> s = run_status_text (own_field v ''status''))
           | None \<Rightarrow> (\<exists>text v. es_node es 3 (path @ ''/.run-reservation.json'') = Regular text \<and> json_parse text = Some v
                 \<and> reservation_matches es t r v)))"

lemma read_regular: "readRegularFile n f = Inr x \<Longrightarrow> \<exists>text. n = Regular text \<and> f text = Inr x"
  by (cases n) (simp_all add: readRegularFile_def)

lemma fields_read: "(case f of FieldsOversized \<Rightarrow> Inl a | FieldsMalformed \<Rightarrow> Inl b | Fields v \<Rightarrow> Inr v) = Inr x \<Longrightarrow> f = Fields x"
  by (cases f) simp_all

lemma resolved_fields:
  assumes "resolveEngineRun es t = Resolved v"
  shows "rv_taskId v = et_id t" "rv_projectDir v = et_projectDir t" "rv_taskStatus v = et_status t"
    and "case rv_runId v of None \<Rightarrow> et_runId t = None | Some r \<Rightarrow> bound_run es t r (rv_runStatus v)"
proof -
  have "rv_taskId v = et_id t \<and> rv_projectDir v = et_projectDir t \<and> rv_taskStatus v = et_status t
     \<and> (case rv_runId v of None \<Rightarrow> et_runId t = None | Some r \<Rightarrow> bound_run es t r (rv_runStatus v))"
  proof (cases "et_runId t")
    case None
    then show ?thesis using assms by (auto simp: resolveEngineRun_def resolved_task_def)
  next
    case (Some r)
    define path where "path = resolve_path (es_runRoot es) r"
    have in_root: "pathWithin (es_runRoot es) path \<and> (isAbsolute r \<or> isSafePathSegment r)"
      using assms Some by (auto simp: resolveEngineRun_def path_def Let_def split: if_splits)
    obtain i where i: "containedDirectoryIdentity (es_node es 0) (es_runRoot es) path = Some i"
      using assms Some by (auto simp: resolveEngineRun_def path_def Let_def split: if_splits option.splits)
    let ?read = "readRegularFile (es_node es 1 (path @ ''/run.json''))
       (\<lambda>text. case es_fields es text of FieldsOversized \<Rightarrow> Inl FileOversized | FieldsMalformed \<Rightarrow> Inl FileUnreadable | Fields v \<Rightarrow> Inr v)"
    have j: "containedDirectoryIdentity (es_node es 2) (es_runRoot es) path = Some i"
      using assms unfolding resolveEngineRun_def Some option.case Let_def path_def [symmetric] i by (auto split: if_splits)
    note named = Some in_root path_def i j
    have r: "(case ?read of Inl FileMissing \<Rightarrow> resolve_reservation es t path i | Inl FileOversized \<Rightarrow> Stale (et_id t) RecordOversized
         | Inl _ \<Rightarrow> Stale (et_id t) RecordUnreadable | Inr x \<Rightarrow> resolve_run_record es t path x) = Resolved v"
      using assms j unfolding resolveEngineRun_def Some option.case Let_def path_def [symmetric] i by (auto split: if_splits)
    show ?thesis
    proof (cases ?read)
      case (Inr x)
      then have rr: "resolve_run_record es t path x = Resolved v" using r by simp
      then have m: "run_record_matches es t (last_segment path) x" by (auto simp: resolve_run_record_def split: if_splits)
      have v: "resolved_task t (Some (last_segment path)) (Some (run_status_text (own_field x ''status''))) = Resolved v"
        using rr by (auto simp: resolve_run_record_def split: if_splits option.splits)
      from read_regular [OF Inr] obtain body where b: "es_node es 1 (path @ ''/run.json'') = Regular body"
        "(case es_fields es body of FieldsOversized \<Rightarrow> Inl FileOversized | FieldsMalformed \<Rightarrow> Inl FileUnreadable | Fields v \<Rightarrow> Inr v) = Inr x"
        by (elim exE conjE)
      have "bound_run es t (last_segment path) (Some (run_status_text (own_field x ''status'')))"
        unfolding bound_run_def option.case using named b(1) fields_read [OF b(2)] m by blast
      then show ?thesis using v by (auto simp: resolved_task_def)
    next
      case (Inl a)
      then have rr: "resolve_reservation es t path i = Resolved v" using r by (cases a) simp_all
      obtain body x where x: "readBoundedRegularFile MAX_ENGINE_RESERVATION_BYTES (es_node es 3 (path @ ''/.run-reservation.json'')) = Inr body"
        "json_parse body = Some x" "reservation_matches es t (last_segment path) x"
        "resolved_task t (Some (last_segment path)) None = Resolved v"
        using rr by (auto simp: resolve_reservation_def Let_def split: if_splits sum.splits option.splits)
      from read_regular [OF x(1) [unfolded readBoundedRegularFile_def]] have "es_node es 3 (path @ ''/.run-reservation.json'') = Regular body"
        by (auto split: if_splits)
      then have "bound_run es t (last_segment path) None"
        unfolding bound_run_def option.case using named x(2,3) by blast
      then show ?thesis using x(4) by (auto simp: resolved_task_def)
    qed
  qed
  then show "rv_taskId v = et_id t" "rv_projectDir v = et_projectDir t" "rv_taskStatus v = et_status t"
    "case rv_runId v of None \<Rightarrow> et_runId t = None | Some r \<Rightarrow> bound_run es t r (rv_runStatus v)" by simp_all
qed

text \<open>
  A resolved link is evidence: the resolver answers "resolved" only for the task the entry names, from the
  last row of that task in the registry, and with a run only if the run is a real directory inside the
  archive, the same before and after its record was read, whose record (or, before there is one, whose
  reservation) names this run and this project.
\<close>

lemma parsed_run_id:
  "parseEngineTask cwd raw i = Some t \<Longrightarrow> et_runId t = Some q \<Longrightarrow> own_field raw ''run_id'' = JStr q"
  by (auto simp: parseEngineTask_def split: if_splits option.splits json.splits)

lemma resolved_run_is_bound:
  assumes "tr_resolve (engine_resolver es eg entries) e = Some (Resolved v)"
  shows "\<exists>i f raw t. effectiveFlowcrewTaskId e = Some i \<and> eg_registry eg = RegistryFile f
    \<and> map_of (registry_tasks (rf_bytes f)) i = Some raw \<and> parseEngineTask (es_cwd es) raw i = Some t
    \<and> rv_taskId v = i \<and> rv_projectDir v = et_projectDir t \<and> rv_taskStatus v = et_status t
    \<and> (case rv_runId v of None \<Rightarrow> et_runId t = None | Some r \<Rightarrow> bound_run es t r (rv_runStatus v))"
proof -
  let ?st = "prepare_resolver eg entries \<lparr>rs_ids = [], rs_snapshot = None\<rparr>"
  have r: "snd (resolve_entry es eg e ?st) = Resolved v" using assms by (simp add: engine_resolver_def)
  then obtain i where i: "effectiveFlowcrewTaskId e = Some i" by (auto simp: resolve_entry_def split: option.splits)
  define st1 where "st1 = (if i \<in> set (rs_ids ?st) then ?st else \<lparr>rs_ids = rs_ids ?st @ [i], rs_snapshot = None\<rparr>)"
  have x1: "snapshot_exact eg st1" using prepared_exact by (simp add: st1_def snapshot_exact_def)
  obtain st2 cur where l: "loadSnapshot eg st1 = (st2, cur)" by (cases "loadSnapshot eg st1")
  obtain tasks raw t where t: "cur = Snapshot tasks" "map_of tasks i = Some raw" "parseEngineTask (es_cwd es) raw i = Some t"
    "resolveEngineRun es t = Resolved v"
    using r i l by (auto simp: resolve_entry_def Let_def st1_def [symmetric] split: engine_snapshot.splits option.splits)
  have "\<exists>f. eg_registry eg = RegistryFile f \<and> map_of (registry_tasks (rf_bytes f)) i = Some raw"
    using load_exact [OF x1 l] t(1,2) by (auto simp: snapshot_exact_def)
  moreover have "et_id t = i" using t(3) by (auto simp: parseEngineTask_def split: if_splits option.splits json.splits)
  ultimately show ?thesis using i t(3) resolved_fields [OF t(4)] by blast
qed

text \<open>An engine task whose run is complete, for the examples.\<close>

definition engine_row :: json where
  "engine_row = JObj [(''id'', JNum 3), (''status'', JStr ''running''), (''projectDir'', JStr ''/p''), (''run_id'', JStr ''r1'')]"

definition example_root :: engine_root where
  "example_root = \<lparr>eg_root = RootDirectory, eg_registry = RegistryFile (example_file (row_bytes example_place False engine_row)),
     eg_unchanged = True\<rparr>"

definition example_store :: "string \<Rightarrow> engine_store" where
  "example_store status = \<lparr>es_cwd = ''/'', es_runRoot = ''/runs'',
     es_node = (\<lambda>_ p. if p = ''/runs'' then Directory (1, 1) else if p = ''/runs/r1'' then Directory (1, 2)
                     else if p = ''/runs/r1/run.json'' then Regular [] else NoNode),
     es_fields = (\<lambda>_. Fields (JObj [(''status'', JStr status), (''projectDir'', JStr ''/p'')])), es_dateOk = (\<lambda>_. True)\<rparr>"

definition linked_run :: "string \<Rightarrow> resolved_run" where
  "linked_run status = \<lparr>rv_taskId = 3, rv_taskStatus = ''running'', rv_projectDir = ''/p'', rv_digest = None, rv_runId = Some ''r1'',
     rv_runStatus = Some status\<rparr>"

lemma example_row: "registry_tasks (row_bytes example_place False engine_row) = [(3, stored engine_row)]"
proof -
  have p: "plain engine_row" by code_simp
  have i: "numeric_id engine_row = Some 3" by (simp add: engine_row_def numeric_id_def own_field_def)
  have w: "world_ok example_home" by (simp add: example_home_def world_ok_def coherent_init)
  have "\<not> rr_unreadableTail empty_read" by (simp add: empty_read_def)
  note rb = appended_row_reads(1) [OF w example_empty this p i, of example_place]
  have "registry_tasks [] = []" using exact_tasks [OF exact_empty] by (simp add: empty_read_def)
  then show ?thesis using rb home_facts(2) by (simp add: needs_separator_def example_home_def)
qed

definition example_task :: engine_task where
  "example_task = \<lparr>et_id = 3, et_status = ''running'', et_projectDir = ''/p'', et_runId = Some ''r1'', et_digest = None\<rparr>"

definition example_record :: json where
  "example_record = JObj [(''status'', JStr ''complete''), (''projectDir'', JStr ''/p'')]"

lemma stored_engine_row: "stored engine_row = JObj [(''id'', JNum 3), (''status'', JStr ''running''), (''projectDir'', JStr ''/p''),
    (''run_id'', JStr ''r1''), (''launch'', JNum 1), (''max_attempts'', JNum 2), (''launch_options'', JObj [])]"
  by code_simp

lemma example_parsed: "parseEngineTask ''/'' (stored engine_row) 3 = Some example_task"
  unfolding stored_engine_row
  by (simp add: parseEngineTask_def own_field_def bounded_text_def is_record_def MAX_ENGINE_STATUS_BYTES_def
      MAX_ENGINE_PROJECT_PATH_BYTES_def trim_def is_space_def engineBriefDigest_def resolve_path_def isAbsolute_def starts_with_def
      example_task_def)

lemma example_matches: "run_record_matches (example_store ''complete'') example_task ''r1'' example_record"
  by (simp add: run_record_matches_def own_field_def bounded_text_def is_record_def MAX_ENGINE_STATUS_BYTES_def
      MAX_ENGINE_PROJECT_PATH_BYTES_def trim_def is_space_def example_task_def example_record_def example_store_def resolve_path_def
      isAbsolute_def starts_with_def)

lemma example_directory: "containedDirectoryIdentity (es_node (example_store s) n) ''/runs'' ''/runs/r1'' = Some (1, 2)"
  by (simp add: example_store_def containedDirectoryIdentity_def pathWithin_def starts_with_def)

lemma example_run_resolves: "resolveEngineRun (example_store ''complete'') example_task = Resolved (linked_run ''complete'')"
proof -
  let ?es = "example_store ''complete''"
  have p: "resolve_path ''/runs'' ''r1'' = ''/runs/r1''" "isSafePathSegment ''r1''" "pathWithin ''/runs'' ''/runs/r1''"
    "last_segment ''/runs/r1'' = ''r1''" by code_simp+
  have f: "es_runRoot ?es = ''/runs''" "es_node ?es 1 (''/runs/r1'' @ ''/run.json'') = Regular []" "es_fields ?es [] = Fields example_record"
    by (simp_all add: example_store_def example_record_def)
  have st: "run_status_text (own_field example_record ''status'') = ''complete''" by code_simp
  have "resolve_run_record ?es example_task ''/runs/r1'' example_record = Resolved (linked_run ''complete'')"
    unfolding resolve_run_record_def p(4) st using example_matches by (simp add: example_task_def resolved_task_def linked_run_def)
  moreover have "readRegularFile (es_node ?es 1 (''/runs/r1'' @ ''/run.json'')) (\<lambda>text. case es_fields ?es text of
      FieldsOversized \<Rightarrow> Inl FileOversized | FieldsMalformed \<Rightarrow> Inl FileUnreadable | Fields v \<Rightarrow> Inr v) = Inr example_record"
    unfolding f readRegularFile_def by (simp add: f)
  moreover have "et_runId example_task = Some ''r1''" by (simp add: example_task_def)
  ultimately show ?thesis
    unfolding resolveEngineRun_def by (simp only: option.case Let_def f(1) p example_directory) simp
qed

lemma example_resolved:
  assumes "effectiveFlowcrewTaskId e = Some 3"
  shows "tr_resolve (engine_resolver (example_store ''complete'') example_root []) e = Some (Resolved (linked_run ''complete''))"
proof -
  have x: "rr_tasks (snd (readLatestUnlocked (Some (example_file (row_bytes example_place False engine_row))) None)) = [(3, stored engine_row)]"
    using exact_tasks [OF fresh_read, of "example_file (row_bytes example_place False engine_row)"] example_row by (simp add: example_file_def)
  have s: "readLatestEngineTasks example_root [3] = Snapshot [(3, stored engine_row)]"
    by (simp add: readLatestEngineTasks_def example_root_def x List.map_filter_def Let_def)
  have c: "es_cwd (example_store ''complete'') = ''/''" by (simp add: example_store_def)
  have l: "loadSnapshot example_root \<lparr>rs_ids = [3], rs_snapshot = None\<rparr>
      = (\<lparr>rs_ids = [3], rs_snapshot = Some (Snapshot [(3, stored engine_row)])\<rparr>, Snapshot [(3, stored engine_row)])"
    using s by (simp add: loadSnapshot_def Let_def example_root_def)
  have "snd (resolve_entry (example_store ''complete'') example_root e \<lparr>rs_ids = [], rs_snapshot = None\<rparr>)
      = Resolved (linked_run ''complete'')"
    by (simp add: resolve_entry_def assms l Let_def c example_parsed example_run_resolves)
  then show ?thesis by (simp add: engine_resolver_def prepare_resolver_def uniq_def List.map_filter_def)
qed

end
