(* ===== verification/Ledger_Write.thy ===== *)
theory Ledger_Write
  imports Engine_Link
begin

text \<open>
  Reading and writing the operator's work ledger (\<open>src/src/fc-tasks.ts\<close>): the bounded scan of a session's
  directory, the selection of the session, the create and update transactions, and the guard that closes
  an entry only for its terminal run.

  A ledger directory is the list of its entries in the order \<open>readdir\<close> gives them; a file is its name,
  whether it is a regular file, its size in bytes and its parsed content.  \<open>write_env\<close> answers what the
  platform decides during a transaction: the size of a serialized value, whether the directory is still
  the one that was opened (asked before and after every read and publication), whether the temporary
  file, the publication and the directory sync succeed, and whether the lock is obtained and released.
\<close>

section \<open>Scanning a ledger\<close>

definition DEFAULT_MAX_ENTRIES :: rat where "DEFAULT_MAX_ENTRIES = 1000"
definition MAX_LEDGER_DIRECTORY_ENTRIES :: nat where "MAX_LEDGER_DIRECTORY_ENTRIES = 4096"
definition MAX_LEDGER_ENTRY_BYTES :: nat where "MAX_LEDGER_ENTRY_BYTES = 1024 * 1024"
definition MAX_LEDGER_TOTAL_BYTES :: nat where "MAX_LEDGER_TOTAL_BYTES = 16 * 1024 * 1024"

datatype file_content = NotReadable | NotJson | Holds json

record ledger_file =
  lf_name :: string
  lf_regular :: bool
  lf_size :: nat
  lf_content :: file_content

datatype session_node = NoSession | SessionOther | SessionFails | SessionDir "ledger_file list"

datatype scan_result = NoLedger | ScanReady "task_source list" "stored_task list" "ledger_issue list" nat | ScanUnavailable ledger_issue

fun scan_names :: "nat \<Rightarrow> nat \<Rightarrow> ledger_file list \<Rightarrow> ledger_file list \<Rightarrow> ledger_issue + ledger_file list" where
  \<comment> \<open>the JSON files of a directory, within the limits\<close>
  "scan_names limit seen acc [] = Inr acc"
| "scan_names limit seen acc (f # fs) =
     (if seen + 1 > MAX_LEDGER_DIRECTORY_ENTRIES then Inl (ScanLimitExceeded ''directory'')
      else if \<not> ends_with ''.json'' (lf_name f) then scan_names limit (seen + 1) acc fs
      else if length acc \<ge> limit then Inl (ScanLimitExceeded ''entries'')
      else if \<not> lf_regular f then Inl (StoreUnreadable (lf_name f))
      else scan_names limit (seen + 1) (acc @ [f]) fs)"

fun read_sources :: "(nat \<Rightarrow> bool) \<Rightarrow> nat \<Rightarrow> nat \<Rightarrow> ledger_file list \<Rightarrow> ledger_issue + task_source list \<times> nat" where
  \<comment> \<open>the argument \<open>k\<close> counts the checks that the directory is unchanged\<close>
  "read_sources same k used [] = Inr ([], used)"
| "read_sources same k used (f # fs) =
     (if \<not> same k then Inl (StoreUnreadable ''changed'')
      else if lf_content f = NotReadable \<or> lf_size f > MAX_LEDGER_ENTRY_BYTES
      then map_sum id (\<lambda>(ss, t).
             (\<lparr>ts_name = lf_name f, ts_bytes = 0,
               ts_content = Unreadable (if lf_content f = NotReadable then StoreUnreadable (lf_name f) else EntryInvalid (lf_name f) None)\<rparr>
              # ss, t)) (read_sources same (k + 1) used fs)
      else if used + lf_size f > MAX_LEDGER_TOTAL_BYTES then Inl (ScanLimitExceeded ''bytes'')
      else if \<not> same (k + 1) then Inl (StoreUnreadable ''changed'')
      else map_sum id (\<lambda>(ss, t).
             (\<lparr>ts_name = lf_name f, ts_bytes = lf_size f,
               ts_content = (case lf_content f of Holds v \<Rightarrow> Parsed v | _ \<Rightarrow> Unreadable (EntryNotJson (lf_name f)))\<rparr>
              # ss, t)) (read_sources same (k + 2) (used + lf_size f) fs))"

definition entry_limit :: "rat \<Rightarrow> bool" where
  \<comment> \<open>a positive safe integer\<close>
  "entry_limit r = (safe_integer r \<and> \<not> r < 1)"

definition scanTaskLedger :: "(nat \<Rightarrow> bool) \<Rightarrow> session_node \<Rightarrow> string \<Rightarrow> rat \<Rightarrow> scan_result" where
  "scanTaskLedger same node session maxEntries =
     (if \<not> entry_limit maxEntries then ScanUnavailable (ScanLimitExceeded ''maxEntries'')
      else if \<not> isSafePathSegment session then ScanUnavailable (StoreUnreadable ''session'')
      else case node of
        NoSession \<Rightarrow> NoLedger
      | SessionOther \<Rightarrow> ScanUnavailable (StoreUnreadable ''directory'')
      | SessionFails \<Rightarrow> ScanUnavailable (StoreUnreadable ''inspect'')
      | SessionDir files \<Rightarrow> (case scan_names (nat \<lfloor>maxEntries\<rfloor>) 0 [] files of
          Inl i \<Rightarrow> ScanUnavailable i
        | Inr names \<Rightarrow>
            if \<not> same 0 then ScanUnavailable (StoreUnreadable ''changed'')
            else (case read_sources same 1 0 (sort_key lf_name names) of
              Inl i \<Rightarrow> ScanUnavailable i
            | Inr (sources, used) \<Rightarrow>
                let (entries, issues) = validateLedgerSources sources in ScanReady sources entries issues used)))"

datatype ledger_read = ReadNone | ReadReady "stored_task list" "ledger_issue list" | ReadUnavailable ledger_issue

definition readTaskLedger :: "(nat \<Rightarrow> bool) \<Rightarrow> session_node \<Rightarrow> string \<Rightarrow> rat \<Rightarrow> ledger_read" where
  "readTaskLedger same node session maxEntries =
     (case scanTaskLedger same node session maxEntries of
        NoLedger \<Rightarrow> ReadNone
      | ScanReady _ entries issues _ \<Rightarrow> ReadReady entries issues
      | ScanUnavailable i \<Rightarrow> ReadUnavailable i)"

definition publicTaskEntries :: "ledger_read \<Rightarrow> fc_entry list" where
  "publicTaskEntries r = (case r of ReadReady ts _ \<Rightarrow> map st_entry ts | _ \<Rightarrow> [])"

section \<open>The session\<close>

definition MAX_FRONTEND_PAYLOAD_BYTES :: nat where "MAX_FRONTEND_PAYLOAD_BYTES = 1024 * 1024"

datatype session_refusal = PayloadNotJson | PayloadTooLarge | PayloadNotObject | SessionAbsent | SessionKeyAbsent | SessionInvalid

definition safe_session :: "string \<Rightarrow> session_refusal + string" where
  "safe_session s = (if isSafePathSegment s then Inr s else Inl SessionInvalid)"

definition resolveFcTasksSession :: "string option \<Rightarrow> string option \<Rightarrow> string option \<Rightarrow> string option \<Rightarrow> session_refusal + string" where
  \<comment> \<open>the explicit session, the text of a provided payload, the session key, the session of the environment\<close>
  "resolveFcTasksSession explicit payload sessionKey environment =
     (case explicit of
        Some s \<Rightarrow> safe_session s
      | None \<Rightarrow> (case payload of
          Some body \<Rightarrow>
            if length body > MAX_FRONTEND_PAYLOAD_BYTES then Inl PayloadTooLarge
            else (case json_parse body of
              None \<Rightarrow> Inl PayloadNotJson
            | Some v \<Rightarrow>
                if \<not> is_record v then Inl PayloadNotObject
                else if \<not> has_own v (dflt sessionKey ''session_id'') then Inl SessionKeyAbsent
                else (case own_field v (dflt sessionKey ''session_id'') of JStr s \<Rightarrow> safe_session s | _ \<Rightarrow> Inl SessionInvalid))
        | None \<Rightarrow> (case environment of
            None \<Rightarrow> Inl SessionAbsent
          | Some s \<Rightarrow> if s = [] then Inl SessionAbsent else safe_session s)))"

section \<open>Refusals\<close>

datatype ledger_refusal = MaxEntriesInvalid | CannotClearOnCreate | SetAndClear | LinkNotSafe | LinkMismatch rat rat
  | EntryRefused entry_refusal | LinkNotVerified run_resolution | SessionNotSafe | StoreNotCreated | SessionNotCreated
  | SessionMissing | SessionNotDirectory | SessionNotInspected | SessionNotPersisted
  | LedgerChanged | LedgerInvalid ledger_issue | EntryLimitReached | DuplicateEntry string | GraphRefused reference_error
  | EntryTooLarge | LedgerTooLarge | TemporaryNotWritten | DuplicateTarget string
  | PublicationRefused bool \<comment> \<open>whether the publication may be visible\<close>
  | LockBusy | LockLost | IdNotSafe | RunIdNotSafe | IdMismatch string string | NoSuchEntry string | AmbiguousEntry string
  | ProposedInvalid ledger_issue | CloseRefused close_refusal

definition writableMaxEntries :: "rat option \<Rightarrow> ledger_refusal + rat" where
  "writableMaxEntries v = (let limit = dflt v DEFAULT_MAX_ENTRIES in if entry_limit limit then Inr limit else Inl MaxEntriesInvalid)"

definition readWritableLedger :: "scan_result \<Rightarrow> ledger_refusal + stored_task list \<times> nat" where
  "readWritableLedger scanned =
     (case scanned of
        NoLedger \<Rightarrow> Inl LedgerChanged
      | ScanUnavailable i \<Rightarrow> Inl (LedgerInvalid i)
      | ScanReady _ entries issues used \<Rightarrow> (case issues of i # _ \<Rightarrow> Inl (LedgerInvalid i) | [] \<Rightarrow> Inr (entries, used)))"

fun first_duplicate :: "string list \<Rightarrow> string list \<Rightarrow> string option" where
  "first_duplicate seen [] = None"
| "first_duplicate seen (i # is) = (if i \<in> set seen then Some i else first_duplicate (i # seen) is)"

definition validateProposedLedger :: "fc_entry list \<Rightarrow> ledger_refusal + unit" where
  "validateProposedLedger es =
     (case first_duplicate [] (map fe_id es) of
        Some i \<Rightarrow> Inl (DuplicateEntry i)
      | None \<Rightarrow> (case graphErrors es of g # _ \<Rightarrow> Inl (GraphRefused g) | [] \<Rightarrow> Inr ()))"

definition applyExplicitTaskLink :: "fc_entry \<Rightarrow> rat option \<Rightarrow> bool \<Rightarrow> ledger_refusal + fc_entry" where
  "applyExplicitTaskLink e link clear =
     (case link of
        Some i \<Rightarrow>
          if clear then Inl SetAndClear
          else if \<not> safe_integer i \<or> i < 1 then Inl LinkNotSafe
          else (case fe_taskId e of
            Some j \<Rightarrow> if j \<noteq> i then Inl (LinkMismatch j i) else Inr (e\<lparr>fe_taskId := Some i\<rparr>)
          | None \<Rightarrow> Inr (e\<lparr>fe_taskId := Some i\<rparr>))
      | None \<Rightarrow> if clear then Inr (e\<lparr>fe_taskId := None\<rparr>) else Inr e)"

definition verifyTaskLink :: "fc_entry \<Rightarrow> task_resolver option \<Rightarrow> ledger_refusal + unit" where
  "verifyTaskLink e resolver =
     (case fe_taskId e of
        None \<Rightarrow> Inr ()
      | Some i \<Rightarrow> (case resolveFcTaskRun e resolver of
          Resolved v \<Rightarrow> if rv_taskId v = i then Inr () else Inl (LinkNotVerified (Resolved v))
        | r \<Rightarrow> Inl (LinkNotVerified r)))"

section \<open>Transactions\<close>

datatype lock_outcome = LockIsBusy | LockHeld bool
  \<comment> \<open>the flag says whether the lock is still owned, and removed, when it is released\<close>

record write_env =
  we_size :: "json \<Rightarrow> nat"
  we_storeOk :: bool
  we_mkdirOk :: bool
  we_syncStore :: bool
  we_lock :: lock_outcome
  we_same :: "nat \<Rightarrow> bool"
  we_temporary :: bool
  we_token :: string
  we_before :: bool
  we_publishes :: bool
  we_after :: bool
  we_synced :: bool
  we_end :: bool
  we_cleaned :: bool

definition assertWritableSession :: "write_env \<Rightarrow> string \<Rightarrow> bool \<Rightarrow> session_node \<Rightarrow> session_node \<times> (ledger_refusal + unit)" where
  "assertWritableSession env session create node =
     (if \<not> isSafePathSegment session then (node, Inl SessionNotSafe)
      else if create \<and> \<not> we_storeOk env then (node, Inl StoreNotCreated)
      else if create \<and> node = NoSession \<and> \<not> we_mkdirOk env then (node, Inl SessionNotCreated)
      else let node' = (if create \<and> node = NoSession then SessionDir [] else node)
        in case node' of
             NoSession \<Rightarrow> (node', Inl SessionMissing)
           | SessionFails \<Rightarrow> (node', Inl SessionNotInspected)
           | SessionOther \<Rightarrow> (node', Inl SessionNotDirectory)
           | SessionDir _ \<Rightarrow> if we_syncStore env then (node', Inr ()) else (node', Inl SessionNotPersisted))"

definition serializeLedgerEntry :: "write_env \<Rightarrow> json \<Rightarrow> ledger_refusal + nat" where
  \<comment> \<open>the size of the serialized value\<close>
  "serializeLedgerEntry env v = (if we_size env v > MAX_LEDGER_ENTRY_BYTES then Inl EntryTooLarge else Inr (we_size env v))"

definition written_file :: "write_env \<Rightarrow> string \<Rightarrow> json \<Rightarrow> ledger_file" where
  "written_file env name v = \<lparr>lf_name = name, lf_regular = True, lf_size = we_size env v, lf_content = Holds v\<rparr>"

definition temporary_file :: "write_env \<Rightarrow> json \<Rightarrow> ledger_file" where
  "temporary_file env v = written_file env (''.fc-task-'' @ we_token env @ ''.tmp'') v"

definition cleaned :: "write_env \<Rightarrow> json \<Rightarrow> ledger_file list \<Rightarrow> ledger_file list" where
  \<comment> \<open>the directory after the best-effort removal of the temporary file\<close>
  "cleaned env v files = (if we_cleaned env then files else files @ [temporary_file env v])"

definition settled :: "write_env \<Rightarrow> string \<Rightarrow> ledger_refusal + string" where
  \<comment> \<open>the end of a publication: the directory is checked, synced and checked again\<close>
  "settled env name = (if we_after env \<and> we_synced env \<and> we_end env then Inr name else Inl (PublicationRefused True))"

definition publish_create :: "write_env \<Rightarrow> string \<Rightarrow> json \<Rightarrow> ledger_file list \<Rightarrow> ledger_file list \<times> (ledger_refusal + string)" where
  "publish_create env i v files =
     (let name = i @ ''.json''
      in if \<not> we_temporary env then (files, Inl TemporaryNotWritten)
         else if \<not> we_before env then (cleaned env v files, Inl (PublicationRefused False))
         else if name \<in> set (map lf_name files) then (cleaned env v files, Inl (DuplicateTarget i))
         else if \<not> we_publishes env then (cleaned env v files, Inl (PublicationRefused False))
         else (cleaned env v (files @ [written_file env name v]), settled env name))"

definition replace_file :: "string \<Rightarrow> ledger_file \<Rightarrow> ledger_file list \<Rightarrow> ledger_file list" where
  "replace_file name f files = map (\<lambda>g. if lf_name g = name then f else g) files"

definition publish_update :: "write_env \<Rightarrow> string \<Rightarrow> json \<Rightarrow> ledger_file list \<Rightarrow> ledger_file list \<times> (ledger_refusal + string)" where
  \<comment> \<open>the rename consumes the temporary file\<close>
  "publish_update env name v files =
     (if \<not> we_temporary env then (files, Inl TemporaryNotWritten)
      else if \<not> we_before env \<or> \<not> we_publishes env then (cleaned env v files, Inl (PublicationRefused False))
      else (replace_file name (written_file env name v) files, settled env name))"

definition with_lock :: "write_env \<Rightarrow> session_node \<Rightarrow> session_node \<times> (ledger_refusal + string) \<Rightarrow> session_node \<times> (ledger_refusal + string)" where
  \<comment> \<open>\<open>withLedgerLock\<close>: the action runs under the lock, and a failed release overrides its result\<close>
  "with_lock env node act =
     (case we_lock env of
        LockIsBusy \<Rightarrow> (node, Inl LockBusy)
      | LockHeld released \<Rightarrow> if released then act else (fst act, Inl LockLost))"

definition files_of :: "session_node \<Rightarrow> ledger_file list" where
  "files_of node = (case node of SessionDir fs \<Rightarrow> fs | _ \<Rightarrow> [])"

definition refused_or :: "session_node \<Rightarrow> ledger_refusal + 'a \<Rightarrow> ('a \<Rightarrow> session_node \<times> (ledger_refusal + string)) \<Rightarrow> session_node \<times> (ledger_refusal + string)" where
  \<comment> \<open>raise before anything is written, or go on\<close>
  "refused_or node r k = (case r of Inl e \<Rightarrow> (node, Inl e) | Inr x \<Rightarrow> k x)"

record write_options =
  wo_session :: string
  wo_entry :: json
  wo_max :: "rat option"
  wo_taskId :: "rat option"
  wo_clear :: bool
  wo_resolver :: "task_resolver option"

definition entry_refusal_of :: "entry_refusal + 'a \<Rightarrow> ledger_refusal + 'a" where
  "entry_refusal_of = map_sum EntryRefused id"

definition create_locked :: "write_env \<Rightarrow> write_options \<Rightarrow> rat \<Rightarrow> fc_entry \<Rightarrow> session_node \<Rightarrow> session_node \<times> (ledger_refusal + string)" where
  \<comment> \<open>the create transaction, under the lock\<close>
  "create_locked env opts limit e node =
     refused_or node (readWritableLedger (scanTaskLedger (we_same env) node (wo_session opts) limit)) (\<lambda>(entries, used).
     refused_or node (if of_nat (length entries) \<ge> limit then Inl EntryLimitReached else Inr ()) (\<lambda>_.
     refused_or node (validateProposedLedger (map st_entry entries @ [e])) (\<lambda>_.
     refused_or node (serializeLedgerEntry env (entry_json e)) (\<lambda>bytes.
     refused_or node (if used + bytes > MAX_LEDGER_TOTAL_BYTES then Inl LedgerTooLarge else Inr ()) (\<lambda>_.
       (case publish_create env (fe_id e) (entry_json e) (files_of node) of (files, r) \<Rightarrow> (SessionDir files, r)))))))"

definition createTaskEntry :: "write_env \<Rightarrow> write_options \<Rightarrow> session_node \<Rightarrow> session_node \<times> (ledger_refusal + string)" where
  "createTaskEntry env opts node =
     refused_or node (writableMaxEntries (wo_max opts)) (\<lambda>limit.
     refused_or node (if wo_clear opts then Inl CannotClearOnCreate else Inr ()) (\<lambda>_.
     refused_or node (entry_refusal_of (validateFcTaskEntry (wo_entry opts) True)) (\<lambda>e0.
     refused_or node (applyExplicitTaskLink e0 (wo_taskId opts) False) (\<lambda>e.
     refused_or node (verifyTaskLink e (wo_resolver opts)) (\<lambda>_.
       (case assertWritableSession env (wo_session opts) True node of
          (node', Inl r) \<Rightarrow> (node', Inl r)
        | (node', Inr _) \<Rightarrow> with_lock env node' (create_locked env opts limit e node')))))))"

function deep_equal :: "json \<Rightarrow> json \<Rightarrow> bool" where
  \<comment> \<open>\<open>isDeepStrictEqual\<close>: the order of keys does not matter\<close>
  "deep_equal (JObj m) w =
     (case w of
        JObj n \<Rightarrow> length m = length n
          \<and> list_all (\<lambda>kv. case map_of n (fst kv) of None \<Rightarrow> False | Some x \<Rightarrow> deep_equal (snd kv) x) m
      | _ \<Rightarrow> False)"
| "deep_equal (JArr vs) w =
     (case w of JArr ws \<Rightarrow> length vs = length ws \<and> list_all (\<lambda>(v, x). deep_equal v x) (zip vs ws) | _ \<Rightarrow> False)"
| "deep_equal JUndef w = (w = JUndef)"
| "deep_equal JNull w = (w = JNull)"
| "deep_equal (JBool b) w = (w = JBool b)"
| "deep_equal (JNum r) w = (w = JNum r)"
| "deep_equal (JStr s) w = (w = JStr s)"
  by pat_completeness auto

termination
proof (relation "measure (size \<circ> fst)")
  fix m :: "(string \<times> json) list" and kv n x
  assume "kv \<in> set m"
  then have "size (snd kv) \<le> size_list (size_prod (\<lambda>x. 0) size) m" by (rule size_list_estimation') (simp add: size_prod_simp)
  then show "((snd kv, x), JObj m, n) \<in> measure (size \<circ> fst)" by simp
next
  fix vs ws :: "json list" and z v x w
  assume "z \<in> set (zip vs ws)" and "(v, x) = z"
  then have "v \<in> set vs" by (metis set_zip_leftD)
  then have "size v \<le> size_list size vs" by (rule size_list_estimation') simp
  then show "((v, x), JArr vs, w) \<in> measure (size \<circ> fst)" by simp
qed simp

record update_options = write_options +
  uo_id :: string
  uo_expectedRunId :: "string option"
  uo_skipUnchanged :: bool

definition update_input :: "update_options \<Rightarrow> ledger_refusal + fc_entry option" where
  \<comment> \<open>the checks before the lock: a complete entry, or a patch\<close>
  "update_input opts =
     (if \<not> isSafePathSegment (uo_id opts) then Inl IdNotSafe
      else if (\<exists>r \<in> set_option (uo_expectedRunId opts). \<not> isSafePathSegment r) then Inl RunIdNotSafe
      else if isCompleteFcTaskEntry (wo_entry opts)
      then rbind (entry_refusal_of (validateFcTaskEntry (wo_entry opts) True)) (\<lambda>e.
             if fe_id e \<noteq> uo_id opts then Inl (IdMismatch (fe_id e) (uo_id opts)) else Inr (Some e))
      else rbind (entry_refusal_of (validateFcTaskPatch (wo_entry opts))) (\<lambda>_. Inr None))"

definition source_id :: "task_source \<Rightarrow> json" where
  "source_id s = (case ts_content s of Parsed v \<Rightarrow> own_field v ''id'' | _ \<Rightarrow> JUndef)"

definition update_target :: "string \<Rightarrow> task_source list \<Rightarrow> ledger_issue list \<Rightarrow> ledger_refusal + task_source" where
  "update_target i sources issues =
     (case filter (\<lambda>s. source_id s = JStr i) sources of
        [s] \<Rightarrow> Inr s
      | [] \<Rightarrow> (case issues of x # _ \<Rightarrow> Inl (LedgerInvalid x) | [] \<Rightarrow> Inl (NoSuchEntry i))
      | _ \<Rightarrow> Inl (AmbiguousEntry i))"

definition updated_entry :: "update_options \<Rightarrow> fc_entry option \<Rightarrow> json \<Rightarrow> ledger_refusal + fc_entry" where
  \<comment> \<open>the entry the update proposes, with its link\<close>
  "updated_entry opts whole sourceRecord =
     rbind (case whole of
         Some e \<Rightarrow> Inr e
       | None \<Rightarrow> rbind (entry_refusal_of (validateFcTaskEntry (spread (supportedTaskRecord sourceRecord) (wo_entry opts)) True)) (\<lambda>e.
           if fe_id e \<noteq> uo_id opts then Inl (IdMismatch (fe_id e) (uo_id opts)) else Inr e)) (\<lambda>e0.
     rbind (applyExplicitTaskLink e0 (wo_taskId opts) (wo_clear opts)) (\<lambda>e.
       Inr (if fe_taskId e = None \<and> \<not> wo_clear opts
            then (case own_field sourceRecord link_field of
                    JNum i \<Rightarrow> if safe_integer i \<and> 0 < i then e\<lparr>fe_taskId := Some i\<rparr> else e
                  | _ \<Rightarrow> e)
            else e)))"

definition serialized_update :: "fc_entry option \<Rightarrow> json \<Rightarrow> fc_entry \<Rightarrow> json" where
  \<comment> \<open>a patch keeps the fields of the file it does not know\<close>
  "serialized_update whole sourceRecord e =
     (case whole of
        Some _ \<Rightarrow> entry_json e
      | None \<Rightarrow> let merged = spread sourceRecord (entry_json e)
                in if fe_taskId e = None then drop_fields [link_field] merged else merged)"

definition verify_update :: "update_options \<Rightarrow> fc_entry \<Rightarrow> ledger_refusal + unit" where
  "verify_update opts e =
     (case uo_expectedRunId opts of
        Some r \<Rightarrow> map_sum CloseRefused (\<lambda>_. ()) (requireExpectedTerminalRun e r (wo_resolver opts))
      | None \<Rightarrow> verifyTaskLink e (wo_resolver opts))"

definition update_locked :: "write_env \<Rightarrow> update_options \<Rightarrow> rat \<Rightarrow> fc_entry option \<Rightarrow> session_node \<Rightarrow> session_node \<times> (ledger_refusal + string)" where
  \<comment> \<open>the update transaction, under the lock\<close>
  "update_locked env opts limit whole node =
     (case scanTaskLedger (we_same env) node (wo_session opts) limit of
        ScanUnavailable i \<Rightarrow> (node, Inl (LedgerInvalid i))
      | NoLedger \<Rightarrow> (node, Inl (NoSuchEntry (uo_id opts)))
      | ScanReady sources _ issues used \<Rightarrow>
          refused_or node (update_target (uo_id opts) sources issues) (\<lambda>target.
          let sourceRecord = (case ts_content target of Parsed v \<Rightarrow> v | _ \<Rightarrow> JUndef) in
          refused_or node (updated_entry opts whole sourceRecord) (\<lambda>e.
          refused_or node (verify_update opts e) (\<lambda>_.
          let value = serialized_update whole sourceRecord e in
          (case snd (validateLedgerSources (map (\<lambda>s. if s = target then s\<lparr>ts_content := Parsed value\<rparr> else s) sources)) of
             i # _ \<Rightarrow> (node, Inl (ProposedInvalid i))
           | [] \<Rightarrow>
               if uo_skipUnchanged opts \<and> deep_equal value sourceRecord then (node, Inr (ts_name target))
               else refused_or node (serializeLedgerEntry env value) (\<lambda>bytes.
                 if used - ts_bytes target + bytes > MAX_LEDGER_TOTAL_BYTES then (node, Inl LedgerTooLarge)
                 else (case publish_update env (ts_name target) value (files_of node) of (files, r) \<Rightarrow> (SessionDir files, r))))))))"

definition updateTaskEntry :: "write_env \<Rightarrow> update_options \<Rightarrow> session_node \<Rightarrow> session_node \<times> (ledger_refusal + string)" where
  "updateTaskEntry env opts node =
     refused_or node (writableMaxEntries (wo_max opts)) (\<lambda>limit.
     refused_or node (update_input opts) (\<lambda>whole.
       (case assertWritableSession env (wo_session opts) False node of
          (node', Inl r) \<Rightarrow> (node', Inl r)
        | (node', Inr _) \<Rightarrow> with_lock env node' (update_locked env opts limit whole node'))))"

definition verifyFcTaskRunBinding ::
  "(nat \<Rightarrow> bool) \<Rightarrow> session_node \<Rightarrow> string \<Rightarrow> string \<Rightarrow> string \<Rightarrow> rat option \<Rightarrow> task_resolver option \<Rightarrow> ledger_refusal + fc_entry \<times> resolved_run" where
  "verifyFcTaskRunBinding same node session i expectedRunId maxEntries resolver =
     (if \<not> isSafePathSegment i then Inl IdNotSafe
      else case readTaskLedger same node session (dflt maxEntries DEFAULT_MAX_ENTRIES) of
        ReadNone \<Rightarrow> Inl SessionMissing
      | ReadUnavailable x \<Rightarrow> Inl (LedgerInvalid x)
      | ReadReady entries issues \<Rightarrow> (case issues of
          x # _ \<Rightarrow> Inl (LedgerInvalid x)
        | [] \<Rightarrow> (case filter (\<lambda>t. fe_id (st_entry t) = i) entries of
            [t] \<Rightarrow> map_sum CloseRefused (\<lambda>v. (st_entry t, v)) (requireExpectedTerminalRun (st_entry t) expectedRunId resolver)
          | _ \<Rightarrow> Inl (NoSuchEntry i))))"

end
