(* ===== verification/Ledger_Laws.thy ===== *)
theory Ledger_Laws
  imports Ledger_Write
begin

text \<open>
  What the writes of the operator's work ledger guarantee (\<open>src/src/fc-tasks.ts\<close>): the entries a reader
  obtains have their type, a successful write leaves a ledger that reads without an issue and contains
  the written entry beside all others, a refused write changes no entry, and an entry is closed for an
  expected run only if the engine's record of that run is terminal.
\<close>

section \<open>The files a scan reads\<close>

definition file_source :: "ledger_file \<Rightarrow> task_source" where
  \<comment> \<open>a readable file as a source\<close>
  "file_source f = \<lparr>ts_name = lf_name f, ts_bytes = lf_size f,
     ts_content = (case lf_content f of Holds v \<Rightarrow> Parsed v | _ \<Rightarrow> Unreadable (EntryNotJson (lf_name f)))\<rparr>"

definition file_entry :: "ledger_file \<Rightarrow> fc_entry option" where
  "file_entry f =
     (case lf_content f of
        Holds v \<Rightarrow> (case validateFcTaskEntry v False of Inr e \<Rightarrow> Some e | Inl _ \<Rightarrow> None)
      | _ \<Rightarrow> None)"

definition readable :: "ledger_file \<Rightarrow> bool" where
  "readable f = (lf_content f \<noteq> NotReadable \<and> lf_size f \<le> MAX_LEDGER_ENTRY_BYTES)"

abbreviation total_size :: "ledger_file list \<Rightarrow> nat" where
  "total_size fs \<equiv> sum_list (map lf_size fs)"

definition source_of :: "ledger_file \<Rightarrow> task_source" where
  \<comment> \<open>any file as a source\<close>
  "source_of f =
     (if readable f then file_source f
      else \<lparr>ts_name = lf_name f, ts_bytes = 0,
        ts_content = Unreadable (if lf_content f = NotReadable then StoreUnreadable (lf_name f) else EntryInvalid (lf_name f) None)\<rparr>)"

lemma map_sum_Inr: "map_sum id g r = Inr y \<longleftrightarrow> (\<exists>x. r = Inr x \<and> y = g x)"
  by (cases r) auto

lemma read_step:
  "read_sources same k used (f # fs) =
     (if \<not> same k then Inl (StoreUnreadable ''changed'')
      else if \<not> readable f then map_sum id (\<lambda>(ss, t). (source_of f # ss, t)) (read_sources same (k + 1) used fs)
      else if used + lf_size f > MAX_LEDGER_TOTAL_BYTES then Inl (ScanLimitExceeded ''bytes'')
      else if \<not> same (k + 1) then Inl (StoreUnreadable ''changed'')
      else map_sum id (\<lambda>(ss, t). (source_of f # ss, t)) (read_sources same (k + 2) (used + lf_size f) fs))"
  by (auto simp: readable_def source_of_def file_source_def)

lemma read_sources_readable:
  assumes "\<forall>f \<in> set fs. readable f" and "used + total_size fs \<le> MAX_LEDGER_TOTAL_BYTES"
  shows "read_sources (\<lambda>_. True) k used fs = Inr (map source_of fs, used + total_size fs)"
  using assms
proof (induction fs arbitrary: k used)
  case (Cons f fs)
  then have "read_sources (\<lambda>_. True) (k + 2) (used + lf_size f) fs = Inr (map source_of fs, used + lf_size f + total_size fs)"
    by (intro Cons.IH) auto
  then show ?case using Cons.prems unfolding read_step by simp
qed simp

lemma read_sources_Inr:
  assumes "read_sources same k used fs = Inr (ss, used')" and "used \<le> MAX_LEDGER_TOTAL_BYTES"
  shows "ss = map source_of fs \<and> used' = used + total_size (filter readable fs) \<and> used' \<le> MAX_LEDGER_TOTAL_BYTES"
  using assms
proof (induction fs arbitrary: k used ss used')
  case (Cons f fs)
  show ?case
  proof (cases "readable f")
    case True
    then obtain ts where "read_sources same (k + 2) (used + lf_size f) fs = Inr (ts, used')" "ss = source_of f # ts"
      "used + lf_size f \<le> MAX_LEDGER_TOTAL_BYTES"
      using Cons.prems(1) unfolding read_step by (auto simp: map_sum_Inr split: if_splits)
    then show ?thesis using Cons.IH [of "k + 2" "used + lf_size f" ts used'] True by simp
  next
    case False
    then obtain ts where "read_sources same (k + 1) used fs = Inr (ts, used')" "ss = source_of f # ts"
      using Cons.prems(1) unfolding read_step by (auto simp: map_sum_Inr split: if_splits)
    then show ?thesis using Cons.IH [of "k + 1" used ts used'] Cons.prems(2) False by simp
  qed
qed simp

section \<open>Clean ledgers\<close>

definition clean_files :: "ledger_file list \<Rightarrow> bool" where
  \<comment> \<open>files that read without an issue\<close>
  "clean_files fs =
     ((\<forall>f \<in> set fs. readable f \<and> file_entry f \<noteq> None)
      \<and> distinct (map (fe_id \<circ> the \<circ> file_entry) fs) \<and> graph_closed (map (the \<circ> file_entry) fs))"

lemma parse_good:
  assumes "readable f \<and> file_entry f \<noteq> None"
  shows "\<exists>t. st_entry t = the (file_entry f) \<and> parse_sources (source_of f # ss) = (t # fst (parse_sources ss), snd (parse_sources ss))"
proof -
  obtain v e where "lf_content f = Holds v" "validateFcTaskEntry v False = Inr e" "file_entry f = Some e"
    using assms by (auto simp: file_entry_def split: file_content.splits sum.splits)
  then show ?thesis using assms
    by (intro exI [of _ "\<lparr>st_entry = e, st_source = lf_name f, st_record = v\<rparr>"])
       (simp add: source_of_def file_source_def split: prod.splits)
qed

lemma parse_bad:
  assumes "\<not> (readable f \<and> file_entry f \<noteq> None)"
  shows "\<exists>i. parse_sources (source_of f # ss) = (fst (parse_sources ss), i # snd (parse_sources ss))"
proof (cases "readable f")
  case True
  then show ?thesis using assms
    by (cases "lf_content f") (auto simp: source_of_def file_source_def file_entry_def split: prod.splits sum.splits)
qed (simp add: source_of_def split: prod.splits)

lemma parse_sources_of:
  "(snd (parse_sources (map source_of fs)) = [] \<longleftrightarrow> (\<forall>f \<in> set fs. readable f \<and> file_entry f \<noteq> None))
   \<and> map st_entry (fst (parse_sources (map source_of fs))) = map (the \<circ> file_entry) (filter (\<lambda>f. readable f \<and> file_entry f \<noteq> None) fs)"
proof (induction fs)
  case (Cons f fs)
  show ?case
  proof (cases "readable f \<and> file_entry f \<noteq> None")
    case True
    obtain t where "st_entry t = the (file_entry f)"
      "parse_sources (source_of f # map source_of fs) = (t # fst (parse_sources (map source_of fs)), snd (parse_sources (map source_of fs)))"
      using parse_good [OF True] by blast
    then show ?thesis using Cons.IH True by simp
  next
    case False
    obtain i where "parse_sources (source_of f # map source_of fs) = (fst (parse_sources (map source_of fs)), i # snd (parse_sources (map source_of fs)))"
      using parse_bad [OF False] by blast
    then show ?thesis using Cons.IH False by auto
  qed
qed simp

lemma sort_entries: "map g (sort_key (k \<circ> g) xs) = sort_key k (map g xs)"
proof -
  have "map g (insort_key (k \<circ> g) x ys) = insort_key k (g x) (map g ys)" for x ys by (induction ys) auto
  then show ?thesis by (induction xs) (simp_all add: sort_key_def)
qed

lemma validated_files:
  assumes "validateLedgerSources (map source_of fs) = (ts, issues)"
  shows "issues = [] \<longleftrightarrow> clean_files fs"
    and "clean_files fs \<Longrightarrow> map st_entry ts = sort_key fe_id (map (the \<circ> file_entry) fs)"
proof -
  obtain parsed pis where p: "parse_sources (map source_of fs) = (parsed, pis)" by (cases "parse_sources (map source_of fs)")
  obtain us dups where u: "unique_tasks [] parsed = (us, dups)" by (cases "unique_tasks [] parsed")
  have ts: "ts = sort_key (fe_id \<circ> st_entry) us" and iss: "issues = pis @ dups @ map GraphInvalid (graphErrors (map st_entry us))"
    using assms by (simp_all add: validateLedgerSources_def p u)
  have pe: "map st_entry parsed = map (the \<circ> file_entry) (filter (\<lambda>f. readable f \<and> file_entry f \<noteq> None) fs)"
    and pi: "pis = [] \<longleftrightarrow> (\<forall>f \<in> set fs. readable f \<and> file_entry f \<noteq> None)"
    using parse_sources_of [of fs] by (simp_all add: p)
  have d: "dups = [] \<longleftrightarrow> distinct (map fe_id (map st_entry parsed))" and du: "dups = [] \<Longrightarrow> us = parsed"
    using no_duplicates [of "[]" parsed] u by simp_all
  have all: "filter (\<lambda>f. readable f \<and> file_entry f \<noteq> None) fs = fs" if "\<forall>f \<in> set fs. readable f \<and> file_entry f \<noteq> None"
    using that by (simp add: filter_id_conv)
  show iff: "issues = [] \<longleftrightarrow> clean_files fs"
  proof
    assume "issues = []"
    then have "pis = []" "dups = []" "graphErrors (map st_entry us) = []" using iss by simp_all
    then show "clean_files fs" using pi d du all pe by (auto simp: clean_files_def graph_errors_none comp_def)
  next
    assume c: "clean_files fs"
    then have a: "\<forall>f \<in> set fs. readable f \<and> file_entry f \<noteq> None" by (simp add: clean_files_def)
    then have pe': "map st_entry parsed = map (the \<circ> file_entry) fs" using pe all by simp
    have "dups = []" using d c unfolding pe' by (simp add: clean_files_def comp_def)
    moreover have "graph_closed (map st_entry us)" using c du [OF calculation] pe' by (simp add: clean_files_def)
    ultimately show "issues = []" using pi a iss graph_errors_none by simp
  qed
  show "map st_entry ts = sort_key fe_id (map (the \<circ> file_entry) fs)" if c: "clean_files fs"
  proof -
    have a: "\<forall>f \<in> set fs. readable f \<and> file_entry f \<noteq> None" using c by (simp add: clean_files_def)
    have "us = parsed" using iff c iss du by simp
    then have "map st_entry ts = sort_key fe_id (map st_entry parsed)" unfolding ts by (simp only: sort_entries)
    then show ?thesis using pe all [OF a] by simp
  qed
qed

section \<open>The scan of a directory\<close>

abbreviation is_json :: "ledger_file \<Rightarrow> bool" where
  "is_json f \<equiv> ends_with ''.json'' (lf_name f)"

lemma scan_names_Inr:
  assumes "scan_names limit seen acc fs = Inr names" and "length acc \<le> limit"
  shows "names = acc @ filter is_json fs \<and> (\<forall>f \<in> set fs. is_json f \<longrightarrow> lf_regular f) \<and> length names \<le> limit
    \<and> (fs \<noteq> [] \<longrightarrow> seen + length fs \<le> MAX_LEDGER_DIRECTORY_ENTRIES)"
  using assms
proof (induction limit seen acc fs rule: scan_names.induct)
  case (2 limit seen acc f fs)
  have s: "\<not> seen + 1 > MAX_LEDGER_DIRECTORY_ENTRIES" using "2.prems"(1) by (auto split: if_splits)
  show ?case
  proof (cases "is_json f")
    case False
    then show ?thesis using "2.IH"(1) [OF s] "2.prems" s by auto
  next
    case True
    then have l: "length acc < limit" "lf_regular f" using "2.prems"(1) s by (auto split: if_splits)
    then show ?thesis using "2.IH"(2) [OF s] "2.prems" s True by (cases "fs = []") auto
  qed
qed simp

lemma scan_names_ok:
  assumes "\<forall>f \<in> set fs. is_json f \<longrightarrow> lf_regular f" and "length (acc @ filter is_json fs) \<le> limit"
    and "seen + length fs \<le> MAX_LEDGER_DIRECTORY_ENTRIES"
  shows "scan_names limit seen acc fs = Inr (acc @ filter is_json fs)"
  using assms by (induction limit seen acc fs rule: scan_names.induct) auto

lemma scan_ready:
  assumes "scanTaskLedger same node session limit = ScanReady sources ts issues used"
  obtains fs where "node = SessionDir fs" and "length fs \<le> MAX_LEDGER_DIRECTORY_ENTRIES" and "entry_limit limit"
    and "isSafePathSegment session" and "sources = map source_of (sort_key lf_name (filter is_json fs))"
    and "validateLedgerSources sources = (ts, issues)" and "used = total_size (filter readable (sort_key lf_name (filter is_json fs)))"
    and "used \<le> MAX_LEDGER_TOTAL_BYTES" and "\<forall>f \<in> set fs. is_json f \<longrightarrow> lf_regular f" and "length (filter is_json fs) \<le> nat \<lfloor>limit\<rfloor>"
proof -
  have h: "entry_limit limit" "isSafePathSegment session" using assms by (auto simp: scanTaskLedger_def split: if_splits)
  then obtain fs where fs: "node = SessionDir fs" using assms by (auto simp: scanTaskLedger_def split: session_node.splits)
  then obtain names where n: "scan_names (nat \<lfloor>limit\<rfloor>) 0 [] fs = Inr names"
    using assms h by (auto simp: scanTaskLedger_def split: sum.splits)
  then have r: "read_sources same 1 0 (sort_key lf_name names) = Inr (sources, used)" "validateLedgerSources sources = (ts, issues)"
    using assms h fs by (auto simp: scanTaskLedger_def split: if_splits sum.splits prod.splits)
  note sn = scan_names_Inr [OF n]
  have "length fs \<le> MAX_LEDGER_DIRECTORY_ENTRIES" using sn by (cases "fs = []") simp_all
  then show ?thesis using that [OF fs _ h _ r(2)] sn read_sources_Inr [OF r(1)] by auto
qed

lemma clean_permuted: "mset fs = mset gs \<Longrightarrow> clean_files fs = clean_files gs"
proof -
  assume m: "mset fs = mset gs"
  then have s: "set fs = set gs" by (metis set_mset_mset)
  have "mset (map h fs) = mset (map h gs)" for h :: "ledger_file \<Rightarrow> string" using m by simp
  then have "distinct (map h fs) = distinct (map h gs)" for h :: "ledger_file \<Rightarrow> string" by (metis mset_eq_imp_distinct_iff)
  then show ?thesis using s by (simp add: clean_files_def graph_closed_def)
qed

lemma sorted_entries_permuted:
  assumes "mset es = mset es'" and "distinct (map fe_id es)"
  shows "sort_key fe_id es = sort_key fe_id es'"
proof (rule sort_key_inj_key_eq)
  show "mset es = mset (sort_key fe_id es')" using assms(1) by simp
  show "inj_on fe_id (set es)" using assms(2) by (simp add: distinct_map)
qed simp

definition ledger_entries :: "rat \<Rightarrow> session_node \<Rightarrow> string \<Rightarrow> fc_entry list option" where
  \<comment> \<open>the entries an undisturbed reader obtains, if it finds no issue\<close>
  "ledger_entries limit node session =
     (case readTaskLedger (\<lambda>_. True) node session limit of ReadReady ts [] \<Rightarrow> Some (map st_entry ts) | _ \<Rightarrow> None)"

lemma clean_scan:
  assumes "entry_limit limit" and "isSafePathSegment session" and "length fs \<le> MAX_LEDGER_DIRECTORY_ENTRIES"
    and "\<forall>f \<in> set fs. is_json f \<longrightarrow> lf_regular f" and "length (filter is_json fs) \<le> nat \<lfloor>limit\<rfloor>"
    and "clean_files (filter is_json fs)" and "total_size (filter is_json fs) \<le> MAX_LEDGER_TOTAL_BYTES"
  obtains ts where "scanTaskLedger (\<lambda>_. True) (SessionDir fs) session limit
      = ScanReady (map source_of (sort_key lf_name (filter is_json fs))) ts [] (total_size (filter is_json fs))"
    and "map st_entry ts = sort_key fe_id (map (the \<circ> file_entry) (filter is_json fs))"
proof -
  let ?js = "filter is_json fs"
  have n: "scan_names (nat \<lfloor>limit\<rfloor>) 0 [] fs = Inr ?js" using scan_names_ok [of fs "[]" "nat \<lfloor>limit\<rfloor>" 0] assms by simp
  have m: "mset (sort_key lf_name ?js) = mset ?js" by simp
  have c: "clean_files (sort_key lf_name ?js)" using assms(6) clean_permuted [OF m] by simp
  have "mset (map lf_size (sort_key lf_name ?js)) = mset (map lf_size ?js)" using m by simp
  then have z: "total_size (sort_key lf_name ?js) = total_size ?js" by (metis sum_mset_sum_list)
  have "\<forall>f \<in> set (sort_key lf_name ?js). readable f" using assms(6) by (auto simp: clean_files_def)
  then have r: "read_sources (\<lambda>_. True) 1 0 (sort_key lf_name ?js) = Inr (map source_of (sort_key lf_name ?js), total_size ?js)"
    using read_sources_readable [of "sort_key lf_name ?js" 0 1] z assms(7) by simp
  obtain ts issues where v: "validateLedgerSources (map source_of (sort_key lf_name ?js)) = (ts, issues)"
    by (cases "validateLedgerSources (map source_of (sort_key lf_name ?js))")
  note vf = validated_files [OF v]
  have "map st_entry ts = sort_key fe_id (map (the \<circ> file_entry) (sort_key lf_name ?js))" using vf(2) c by simp
  also have "\<dots> = sort_key fe_id (map (the \<circ> file_entry) ?js)"
    using c m by (intro sorted_entries_permuted) (simp_all add: clean_files_def comp_def)
  finally have e: "map st_entry ts = sort_key fe_id (map (the \<circ> file_entry) ?js)" .
  have "issues = []" using vf(1) c by simp
  then show ?thesis using that [OF _ e] v assms(1,2) n r z by (simp add: scanTaskLedger_def)
qed

lemma clean_ledger_reads:
  assumes "entry_limit limit" and "isSafePathSegment session" and "length fs \<le> MAX_LEDGER_DIRECTORY_ENTRIES"
    and "\<forall>f \<in> set fs. is_json f \<longrightarrow> lf_regular f" and "length (filter is_json fs) \<le> nat \<lfloor>limit\<rfloor>"
    and "clean_files (filter is_json fs)" and "total_size (filter is_json fs) \<le> MAX_LEDGER_TOTAL_BYTES"
  shows "ledger_entries limit (SessionDir fs) session = Some (sort_key fe_id (map (the \<circ> file_entry) (filter is_json fs)))"
  by (rule clean_scan [OF assms]) (simp add: ledger_entries_def readTaskLedger_def)

section \<open>Creation\<close>

lemma no_first_duplicate: "first_duplicate seen xs = None \<longleftrightarrow> distinct xs \<and> set xs \<inter> set seen = {}"
  by (induction seen xs rule: first_duplicate.induct) auto

lemma proposed_ok: "validateProposedLedger es = Inr () \<longleftrightarrow> distinct (map fe_id es) \<and> graph_closed es"
  using no_first_duplicate [of "[]" "map fe_id es"] graph_errors_none [of es]
  by (cases "first_duplicate [] (map fe_id es)"; cases "graphErrors es") (auto simp: validateProposedLedger_def)

lemma refusal_Inr [simp]: "entry_refusal_of r = Inr x \<longleftrightarrow> r = Inr x"
  by (cases r) (simp_all add: entry_refusal_of_def)

lemma refused_or_Inr: "refused_or node r k = (node', Inr x) \<longleftrightarrow> (\<exists>y. r = Inr y \<and> k y = (node', Inr x))"
  by (cases r) (auto simp: refused_or_def)

lemma explicit_link_ok:
  "applyExplicitTaskLink e link clear = Inr e' \<Longrightarrow> entry_ok e \<Longrightarrow> entry_ok e' \<and> fe_id e' = fe_id e"
  by (auto simp: applyExplicitTaskLink_def entry_ok_def split: option.splits if_splits)

lemma ends_with_append [simp]: "ends_with s (i @ s)"
  by (simp add: ends_with_def starts_with_def)

lemma temporary_not_json [simp]: "\<not> is_json (temporary_file env v)"
  by (simp add: temporary_file_def written_file_def ends_with_def starts_with_def)

lemma cleaned_json [simp]: "filter is_json (cleaned env v fs) = filter is_json fs"
  by (simp add: cleaned_def)

lemma writable_limit: "writableMaxEntries m = Inr limit \<Longrightarrow> entry_limit limit"
  by (auto simp: writableMaxEntries_def Let_def split: if_splits)

lemma create_locked_success:
  assumes "create_locked env opts limit e (SessionDir fs) = (node', Inr name)"
  obtains ts used bytes where "readWritableLedger (scanTaskLedger (we_same env) (SessionDir fs) (wo_session opts) limit) = Inr (ts, used)"
    and "\<not> of_nat (length ts) \<ge> limit" and "validateProposedLedger (map st_entry ts @ [e]) = Inr ()"
    and "serializeLedgerEntry env (entry_json e) = Inr bytes" and "\<not> used + bytes > MAX_LEDGER_TOTAL_BYTES"
    and "(case publish_create env (fe_id e) (entry_json e) fs of (files, r) \<Rightarrow> (SessionDir files, r)) = (node', Inr name)"
proof -
  obtain p where r: "readWritableLedger (scanTaskLedger (we_same env) (SessionDir fs) (wo_session opts) limit) = Inr p"
    and k: "(case p of (ts, used) \<Rightarrow>
     refused_or (SessionDir fs) (if of_nat (length ts) \<ge> limit then Inl EntryLimitReached else Inr ()) (\<lambda>_.
     refused_or (SessionDir fs) (validateProposedLedger (map st_entry ts @ [e])) (\<lambda>_.
     refused_or (SessionDir fs) (serializeLedgerEntry env (entry_json e)) (\<lambda>bytes.
     refused_or (SessionDir fs) (if used + bytes > MAX_LEDGER_TOTAL_BYTES then Inl LedgerTooLarge else Inr ()) (\<lambda>_.
       (case publish_create env (fe_id e) (entry_json e) (files_of (SessionDir fs)) of (files, r) \<Rightarrow> (SessionDir files, r))))))) = (node', Inr name)"
    using assms unfolding create_locked_def refused_or_Inr by blast
  obtain ts used where p: "p = (ts, used)" by (cases p)
  show ?thesis using k that [of ts used] r unfolding p prod.case refused_or_Inr files_of_def session_node.case
    by (auto split: if_splits)
qed

lemma create_success:
  assumes "createTaskEntry env opts node = (node', Inr name)"
  obtains limit e0 e fs ts used where "writableMaxEntries (wo_max opts) = Inr limit" and "validateFcTaskEntry (wo_entry opts) True = Inr e0"
    and "applyExplicitTaskLink e0 (wo_taskId opts) False = Inr e" and "files_of node = fs" and "node = SessionDir fs \<or> node = NoSession"
    and "\<exists>sources. scanTaskLedger (we_same env) (SessionDir fs) (wo_session opts) limit = ScanReady sources ts [] used"
    and "\<not> of_nat (length ts) \<ge> limit" and "distinct (map fe_id (map st_entry ts @ [e]))" and "graph_closed (map st_entry ts @ [e])"
    and "we_size env (entry_json e) \<le> MAX_LEDGER_ENTRY_BYTES" and "used + we_size env (entry_json e) \<le> MAX_LEDGER_TOTAL_BYTES"
    and "name = fe_id e @ ''.json''" and "name \<notin> lf_name ` set fs"
    and "node' = SessionDir (cleaned env (entry_json e) (fs @ [written_file env name (entry_json e)]))"
proof -
  obtain limit e0 e where h: "writableMaxEntries (wo_max opts) = Inr limit" "validateFcTaskEntry (wo_entry opts) True = Inr e0"
      "applyExplicitTaskLink e0 (wo_taskId opts) False = Inr e"
    and rest: "(case assertWritableSession env (wo_session opts) True node of (node', Inl r) \<Rightarrow> (node', Inl r)
        | (node', Inr _) \<Rightarrow> with_lock env node' (create_locked env opts limit e node')) = (node', Inr name)"
    using assms unfolding createTaskEntry_def refused_or_Inr by (auto split: if_splits)
  obtain node1 r where aw: "assertWritableSession env (wo_session opts) True node = (node1, r)" by (cases "assertWritableSession env (wo_session opts) True node")
  then have "\<exists>x. r = Inr x" using rest by (cases r) simp_all
  then obtain fs where fs: "node1 = SessionDir fs" "files_of node = fs" "node = SessionDir fs \<or> node = NoSession"
    using aw by (auto simp: assertWritableSession_def Let_def files_of_def split: if_splits session_node.splits)
  have cl: "create_locked env opts limit e (SessionDir fs) = (node', Inr name)"
    using rest aw \<open>\<exists>x. r = Inr x\<close> fs(1) by (auto simp: with_lock_def split: lock_outcome.splits if_splits)
  then obtain ts used bytes where c: "readWritableLedger (scanTaskLedger (we_same env) (SessionDir fs) (wo_session opts) limit) = Inr (ts, used)"
      "\<not> of_nat (length ts) \<ge> limit" "validateProposedLedger (map st_entry ts @ [e]) = Inr ()"
      "serializeLedgerEntry env (entry_json e) = Inr bytes" "\<not> used + bytes > MAX_LEDGER_TOTAL_BYTES"
    and p: "(case publish_create env (fe_id e) (entry_json e) fs of (files, r) \<Rightarrow> (SessionDir files, r)) = (node', Inr name)"
    by (rule create_locked_success)
  have s: "\<exists>sources. scanTaskLedger (we_same env) (SessionDir fs) (wo_session opts) limit = ScanReady sources ts [] used"
    using c(1) by (auto simp: readWritableLedger_def split: scan_result.splits list.splits)
  have b: "bytes = we_size env (entry_json e)" "bytes \<le> MAX_LEDGER_ENTRY_BYTES"
    using c(4) by (auto simp: serializeLedgerEntry_def split: if_splits)
  have pc: "name = fe_id e @ ''.json''" "name \<notin> lf_name ` set fs"
    "node' = SessionDir (cleaned env (entry_json e) (fs @ [written_file env name (entry_json e)]))"
    using p by (auto simp: publish_create_def settled_def Let_def split: if_splits)
  show ?thesis using that [OF h fs(2,3) s c(2)] c(3,5) b pc unfolding proposed_ok by simp
qed

lemma filter_snoc_json: "filter is_json (fs @ [written_file env (i @ ''.json'') v]) = filter is_json fs @ [written_file env (i @ ''.json'') v]"
  by (simp add: written_file_def)

lemma written_entry: "entry_ok e \<Longrightarrow> file_entry (written_file env name (entry_json e)) = Some e"
  by (simp add: file_entry_def written_file_def validate_entry_json)

lemma clean_of_scan:
  assumes "scanTaskLedger same (SessionDir fs) session limit = ScanReady sources ts [] used"
  shows "clean_files (filter is_json fs)" and "used = total_size (filter is_json fs)"
    and "map st_entry ts = sort_key fe_id (map (the \<circ> file_entry) (filter is_json fs))"
    and "ledger_entries limit (SessionDir fs) session = Some (map st_entry ts)"
    and "mset (map st_entry ts) = mset (map (the \<circ> file_entry) (filter is_json fs))"
proof -
  from assms obtain "length fs \<le> MAX_LEDGER_DIRECTORY_ENTRIES" and l: "entry_limit limit" "isSafePathSegment session"
    and src: "sources = map source_of (sort_key lf_name (filter is_json fs))" and v: "validateLedgerSources sources = (ts, [])"
    and u: "used = total_size (filter readable (sort_key lf_name (filter is_json fs)))" "used \<le> MAX_LEDGER_TOTAL_BYTES"
    and reg: "\<forall>f \<in> set fs. is_json f \<longrightarrow> lf_regular f" "length (filter is_json fs) \<le> nat \<lfloor>limit\<rfloor>"
    by (rule scan_ready) simp
  have m: "mset (sort_key lf_name (filter is_json fs)) = mset (filter is_json fs)" by simp
  note vf = validated_files [OF v [unfolded src]]
  have c: "clean_files (sort_key lf_name (filter is_json fs))" using vf(1) by simp
  then show clean: "clean_files (filter is_json fs)" using clean_permuted [OF m] by simp
  have "filter readable (sort_key lf_name (filter is_json fs)) = sort_key lf_name (filter is_json fs)"
    using c by (simp add: clean_files_def filter_id_conv)
  moreover have "mset (map lf_size (sort_key lf_name (filter is_json fs))) = mset (map lf_size (filter is_json fs))" using m by simp
  ultimately show z: "used = total_size (filter is_json fs)" using u(1) by (metis sum_mset_sum_list)
  have "map st_entry ts = sort_key fe_id (map (the \<circ> file_entry) (sort_key lf_name (filter is_json fs)))" using vf(2) c by simp
  also have "\<dots> = sort_key fe_id (map (the \<circ> file_entry) (filter is_json fs))"
    using c m by (intro sorted_entries_permuted) (simp_all add: clean_files_def comp_def)
  finally show e: "map st_entry ts = sort_key fe_id (map (the \<circ> file_entry) (filter is_json fs))" .
  then show "mset (map st_entry ts) = mset (map (the \<circ> file_entry) (filter is_json fs))" by simp
  show "ledger_entries limit (SessionDir fs) session = Some (map st_entry ts)"
    using clean_ledger_reads [OF l \<open>length fs \<le> MAX_LEDGER_DIRECTORY_ENTRIES\<close> reg clean] u(2) z e by simp
qed

text \<open>C26. Creation keeps the ledger valid: when a create returns, its validated entry had a new id, and the
  next undisturbed read finds no issue and exactly the former entries with the new one, in id order,
  with a closed graph, provided the directory is at least two entries below the scan limit.\<close>

theorem create_keeps_ledger_valid:
  assumes "createTaskEntry env opts node = (node', Inr name)"
    and "length (files_of node) + 2 \<le> MAX_LEDGER_DIRECTORY_ENTRIES"
  shows "\<exists>limit e0 e es. writableMaxEntries (wo_max opts) = Inr limit
    \<and> validateFcTaskEntry (wo_entry opts) True = Inr e0 \<and> applyExplicitTaskLink e0 (wo_taskId opts) False = Inr e
    \<and> ledger_entries limit (SessionDir (files_of node)) (wo_session opts) = Some es \<and> fe_id e \<notin> fe_id ` set es
    \<and> ledger_entries limit node' (wo_session opts) = Some (sort_key fe_id (es @ [e])) \<and> graph_closed (es @ [e])"
proof -
  from assms(1) obtain limit e0 e fs ts used where h: "writableMaxEntries (wo_max opts) = Inr limit"
      "validateFcTaskEntry (wo_entry opts) True = Inr e0" "applyExplicitTaskLink e0 (wo_taskId opts) False = Inr e" "files_of node = fs"
    and sc: "\<exists>sources. scanTaskLedger (we_same env) (SessionDir fs) (wo_session opts) limit = ScanReady sources ts [] used"
    and lim: "\<not> of_nat (length ts) \<ge> limit" and dist: "distinct (map fe_id (map st_entry ts @ [e]))"
    and gr: "graph_closed (map st_entry ts @ [e])" and b: "we_size env (entry_json e) \<le> MAX_LEDGER_ENTRY_BYTES"
      "used + we_size env (entry_json e) \<le> MAX_LEDGER_TOTAL_BYTES"
    and n: "name = fe_id e @ ''.json''" and node': "node' = SessionDir (cleaned env (entry_json e) (fs @ [written_file env name (entry_json e)]))"
    by (rule create_success)
  obtain sources where sc: "scanTaskLedger (we_same env) (SessionDir fs) (wo_session opts) limit = ScanReady sources ts [] used"
    using sc by blast
  note old = clean_of_scan [OF sc]
  from sc have reg: "\<forall>f \<in> set fs. is_json f \<longrightarrow> lf_regular f" and ses: "isSafePathSegment (wo_session opts)" and el: "entry_limit limit"
    by (auto elim!: scan_ready)
  let ?w = "written_file env name (entry_json e)" and ?js = "filter is_json fs"
  let ?fs' = "cleaned env (entry_json e) (fs @ [?w])"
  have ok: "entry_ok e" using validate_ok [OF h(2)] explicit_link_ok [OF h(3)] by blast
  have js: "filter is_json ?fs' = ?js @ [?w]" using n filter_snoc_json by simp
  have fe: "map (the \<circ> file_entry) (?js @ [?w]) = map (the \<circ> file_entry) ?js @ [e]" by (simp add: written_entry [OF ok])
  have perm: "mset (map (the \<circ> file_entry) ?js @ [e]) = mset (map st_entry ts @ [e])" using old(5) by simp
  have "clean_files (?js @ [?w])"
  proof -
    have "mset (map fe_id (map (the \<circ> file_entry) ?js @ [e])) = mset (map fe_id (map st_entry ts @ [e]))" using perm by (metis mset_map)
    then have d: "distinct (map fe_id (map (the \<circ> file_entry) ?js @ [e]))" using dist by (metis mset_eq_imp_distinct_iff)
    have "set (map (the \<circ> file_entry) ?js @ [e]) = set (map st_entry ts @ [e])" using perm by (metis set_mset_mset)
    then have "graph_closed (map (the \<circ> file_entry) ?js @ [e])" using gr by (simp only: graph_closed_def)
    moreover have "readable ?w" using b(1) by (simp add: readable_def written_file_def)
    ultimately show ?thesis using old(1) d fe written_entry [OF ok, of env name] unfolding clean_files_def by (simp add: comp_def)
  qed
  moreover have "total_size (?js @ [?w]) \<le> MAX_LEDGER_TOTAL_BYTES" using old(2) b(2) by (simp add: written_file_def)
  moreover have "length (?js @ [?w]) \<le> nat \<lfloor>limit\<rfloor>"
  proof -
    have "length ts = length ?js" using old(5) by (metis length_map size_mset)
    then have "(of_nat (length ?js) :: rat) < limit" using lim by simp
    moreover have "of_int \<lfloor>limit\<rfloor> = limit" using el by (simp add: entry_limit_def safe_integer_def is_integer_def)
    ultimately have "int (length ?js) < \<lfloor>limit\<rfloor>" by (metis of_int_less_iff of_int_of_nat_eq)
    then show ?thesis by simp
  qed
  moreover have "length ?fs' \<le> MAX_LEDGER_DIRECTORY_ENTRIES" using assms(2) h(4) by (simp add: cleaned_def)
  moreover have "\<forall>f \<in> set ?fs'. is_json f \<longrightarrow> lf_regular f"
    using reg by (auto simp: cleaned_def written_file_def split: if_splits)
  ultimately have "ledger_entries limit (SessionDir ?fs') (wo_session opts) = Some (sort_key fe_id (map (the \<circ> file_entry) (?js @ [?w])))"
    using clean_ledger_reads [OF el ses, of ?fs'] unfolding js by blast
  also have "sort_key fe_id (map (the \<circ> file_entry) (?js @ [?w])) = sort_key fe_id (map st_entry ts @ [e])"
  proof -
    have "distinct (map fe_id (map (the \<circ> file_entry) ?js @ [e]))"
    proof -
      have "mset (map fe_id (map (the \<circ> file_entry) ?js @ [e])) = mset (map fe_id (map st_entry ts @ [e]))" using perm by (metis mset_map)
      then show ?thesis using dist by (metis mset_eq_imp_distinct_iff)
    qed
    then show ?thesis unfolding fe by (rule sorted_entries_permuted [OF perm])
  qed
  finally show ?thesis using h old(4) dist gr unfolding node' by auto
qed

text \<open>An undisturbed transaction, and a ledger with one entry, for the examples.\<close>

definition calm_env :: write_env where
  "calm_env = \<lparr>we_size = (\<lambda>_. 200), we_storeOk = True, we_mkdirOk = True, we_syncStore = True, we_lock = LockHeld True,
     we_same = (\<lambda>_. True), we_temporary = True, we_token = ''t'', we_before = True, we_publishes = True, we_after = True,
     we_synced = True, we_end = True, we_cleaned = True\<rparr>"

definition plain_entry :: "string \<Rightarrow> string list \<Rightarrow> fc_entry" where
  "plain_entry i blocks = example_entry i blocks\<lparr>fe_taskId := None\<rparr>"

definition file_a :: ledger_file where
  "file_a = written_file calm_env ''a.json'' (entry_json (plain_entry ''a'' []))"

definition example_create :: write_options where
  "example_create = \<lparr>wo_session = ''s'', wo_entry = entry_json (plain_entry ''b'' [''a'']), wo_max = None, wo_taskId = None, wo_clear = False,
     wo_resolver = None\<rparr>"

lemma plain_ok: "entry_ok (plain_entry ''a'' [])" "entry_ok (plain_entry ''b'' [''a''])"
  by code_simp+

lemma plain_fields [simp]: "fe_id (plain_entry i bs) = i" "fe_blocks (plain_entry i bs) = bs" "fe_blockedBy (plain_entry i bs) = []"
  "fe_taskId (plain_entry i bs) = None"
  by (simp_all add: plain_entry_def example_entry_def)

lemma file_a_fields [simp]: "lf_name file_a = ''a.json''" "lf_regular file_a" "lf_size file_a = 200"
  "lf_content file_a = Holds (entry_json (plain_entry ''a'' []))" "file_entry file_a = Some (plain_entry ''a'' [])"
  by (simp_all add: file_a_def written_file_def calm_env_def file_entry_def validate_entry_json plain_ok)

lemma example_clean: "clean_files [file_a]"
  by (simp add: clean_files_def readable_def MAX_LEDGER_ENTRY_BYTES_def graph_closed_def)

lemma limit_1000: "entry_limit 1000" "nat \<lfloor>1000 :: rat\<rfloor> = 1000"
  by (simp_all add: entry_limit_def safe_integer_def is_integer_def max_safe_integer_def)

definition crowded :: "ledger_file list \<Rightarrow> session_node" where
  \<comment> \<open>the example ledger with other files beside its entry\<close>
  "crowded junk = SessionDir (file_a # junk)"

lemma example_scan:
  assumes "\<forall>f \<in> set junk. \<not> is_json f" and "length junk < MAX_LEDGER_DIRECTORY_ENTRIES"
  obtains ts where "scanTaskLedger (\<lambda>_. True) (crowded junk) ''s'' 1000 = ScanReady [source_of file_a] ts [] 200"
    and "map st_entry ts = [plain_entry ''a'' []]"
proof -
  let ?fs = "file_a # junk"
  have "filter is_json junk = []" using assms(1) by (simp add: filter_empty_conv)
  then have f: "filter is_json ?fs = [file_a]" "\<forall>f \<in> set ?fs. is_json f \<longrightarrow> lf_regular f" "total_size [file_a] = 200"
    using assms(1) by (simp_all add: ends_with_def starts_with_def)
  show ?thesis
  proof (rule clean_scan [OF limit_1000(1), of "''s''" ?fs])
    show "isSafePathSegment ''s''" by code_simp
  qed (use f example_clean that assms(2) in \<open>simp_all add: limit_1000 MAX_LEDGER_TOTAL_BYTES_def crowded_def Suc_le_eq\<close>)
qed

lemma example_creates:
  assumes "\<forall>f \<in> set junk. \<not> is_json f" and "length junk < MAX_LEDGER_DIRECTORY_ENTRIES"
  shows "createTaskEntry calm_env example_create (crowded junk)
    = (SessionDir (file_a # junk @ [written_file calm_env ''b.json'' (entry_json (plain_entry ''b'' [''a'']))]), Inr ''b.json'')"
proof (rule example_scan [OF assms])
  fix ts
  assume sc: "scanTaskLedger (\<lambda>_. True) (crowded junk) ''s'' 1000 = ScanReady [source_of file_a] ts [] 200"
    and ts: "map st_entry ts = [plain_entry ''a'' []]"
  let ?b = "plain_entry ''b'' [''a'']"
  have s: "we_same calm_env = (\<lambda>_. True)" "wo_session example_create = ''s''" by (simp_all add: calm_env_def example_create_def)
  have v: "validateProposedLedger (map st_entry ts @ [?b]) = Inr ()"
    unfolding proposed_ok ts by (simp add: graph_closed_def)
  have l: "length ts = 1" using ts by (metis length_map length_Cons list.size(3) One_nat_def)
  have "ends_with ''.json'' ''b.json''" "''b.json'' \<noteq> ''a.json''" by (simp_all add: ends_with_def starts_with_def)
  then have n: "''b.json'' \<notin> lf_name ` set (file_a # junk)" using assms(1) by force
  have p: "publish_create calm_env ''b'' (entry_json ?b) (file_a # junk)
     = ((file_a # junk) @ [written_file calm_env ''b.json'' (entry_json ?b)], Inr ''b.json'')"
    using n by (simp add: publish_create_def Let_def cleaned_def settled_def calm_env_def)
  have locked: "create_locked calm_env example_create 1000 ?b (crowded junk)
     = (SessionDir ((file_a # junk) @ [written_file calm_env ''b.json'' (entry_json ?b)]), Inr ''b.json'')"
    unfolding create_locked_def s sc readWritableLedger_def
    by (simp add: refused_or_def v l serializeLedgerEntry_def p [simplified] files_of_def crowded_def)
       (simp add: calm_env_def MAX_LEDGER_ENTRY_BYTES_def MAX_LEDGER_TOTAL_BYTES_def)
  have w: "isSafePathSegment ''s''" by code_simp
  have aw: "assertWritableSession calm_env ''s'' True (crowded junk) = (crowded junk, Inr ())"
    by (simp add: assertWritableSession_def w crowded_def calm_env_def)
  have "createTaskEntry calm_env example_create (crowded junk) = create_locked calm_env example_create 1000 ?b (crowded junk)"
    unfolding createTaskEntry_def example_create_def
    by (simp add: refused_or_def writableMaxEntries_def DEFAULT_MAX_ENTRIES_def Let_def limit_1000 entry_refusal_of_def validate_entry_json plain_ok
        applyExplicitTaskLink_def verifyTaskLink_def aw with_lock_def dflt_def)
       (simp add: calm_env_def)
  then show ?thesis unfolding locked by simp
qed

theorem create_keeps_ledger_valid_witness:
  "ledger_entries 1000 (fst (createTaskEntry calm_env example_create (crowded []))) ''s'' = Some [plain_entry ''a'' [], plain_entry ''b'' [''a'']]"
proof -
  have v: "validateFcTaskEntry (wo_entry example_create) True = Inr (plain_entry ''b'' [''a''])"
    by (simp add: example_create_def validate_entry_json plain_ok)
  have old: "ledger_entries 1000 (crowded []) ''s'' = Some [plain_entry ''a'' []]"
    by (rule example_scan [of "[]"]) (simp_all add: MAX_LEDGER_DIRECTORY_ENTRIES_def ledger_entries_def readTaskLedger_def)
  have o: "wo_max example_create = None" "wo_taskId example_create = None" "wo_session example_create = ''s''"
    "SessionDir (files_of (crowded [])) = (crowded [])" "length (files_of (crowded [])) + 2 \<le> MAX_LEDGER_DIRECTORY_ENTRIES"
    by (simp_all add: example_create_def crowded_def files_of_def MAX_LEDGER_DIRECTORY_ENTRIES_def)
  have creates: "createTaskEntry calm_env example_create (crowded [])
    = (SessionDir [file_a, written_file calm_env ''b.json'' (entry_json (plain_entry ''b'' [''a'']))], Inr ''b.json'')"
    by (rule example_creates [of "[]", simplified]) (simp add: MAX_LEDGER_DIRECTORY_ENTRIES_def)
  have w: "writableMaxEntries None = Inr 1000" by (simp add: writableMaxEntries_def DEFAULT_MAX_ENTRIES_def limit_1000 dflt_def)
  show ?thesis
    using create_keeps_ledger_valid [OF creates o(5)] unfolding o(1-4) w v
    by (auto simp: applyExplicitTaskLink_def old creates)
qed

section \<open>What a reader obtains\<close>

text \<open>C25. The ledger is typed: whatever the files hold, a successful read returns entries with safe and distinct
  ids in increasing order, duplicate-free safe references and links that are positive safe integers,
  each validated from a regular file of the directory; with no issue reported, every reference of an
  entry names another entry of the ledger.\<close>

theorem readable_entries_typed:
  assumes "readTaskLedger same node session limit = ReadReady ts issues"
  shows "ledger_typed ts \<and> (issues = [] \<longrightarrow> graph_closed (map st_entry ts))
    \<and> (\<forall>t \<in> set ts. \<exists>f \<in> set (files_of node). lf_regular f \<and> st_source t = lf_name f \<and> lf_content f = Holds (st_record t)
         \<and> lf_size f \<le> MAX_LEDGER_ENTRY_BYTES \<and> validateFcTaskEntry (st_record t) False = Inr (st_entry t))"
proof -
  obtain sources used where sc: "scanTaskLedger same node session limit = ScanReady sources ts issues used"
    using assms by (cases "scanTaskLedger same node session limit") (simp_all add: readTaskLedger_def)
  then obtain fs where fs: "node = SessionDir fs" "sources = map source_of (sort_key lf_name (filter is_json fs))"
    and v: "validateLedgerSources sources = (ts, issues)" and reg: "\<forall>f \<in> set fs. is_json f \<longrightarrow> lf_regular f"
    by (rule scan_ready) simp
  have src: "\<exists>f \<in> set fs. lf_regular f \<and> st_source t = lf_name f \<and> lf_content f = Holds (st_record t) \<and> lf_size f \<le> MAX_LEDGER_ENTRY_BYTES
      \<and> validateFcTaskEntry (st_record t) False = Inr (st_entry t)" if mem: "t \<in> set ts" for t
  proof -
    obtain f where f: "f \<in> set fs" "is_json f" "st_source t = ts_name (source_of f)" "ts_content (source_of f) = Parsed (st_record t)"
      "validateFcTaskEntry (st_record t) False = Inr (st_entry t)"
      using validated_ledger(3) [OF v] mem fs(2) by fastforce
    then have "readable f \<and> lf_content f = Holds (st_record t) \<and> st_source t = lf_name f"
      by (auto simp: source_of_def file_source_def split: if_splits file_content.splits)
    then show ?thesis using f reg by (auto simp: readable_def)
  qed
  show ?thesis using validated_ledger(1,2) [OF v] src fs(1) by (simp add: files_of_def)
qed

theorem readable_entries_typed_witness:
  "ledger_typed [\<lparr>st_entry = plain_entry ''a'' [], st_source = ''a.json'', st_record = entry_json (plain_entry ''a'' [])\<rparr>]"
proof (rule example_scan [of "[]"])
  fix ts
  assume sc: "scanTaskLedger (\<lambda>_. True) (crowded []) ''s'' 1000
      = ScanReady [source_of file_a] ts [] 200"
    and ts: "map st_entry ts = [plain_entry ''a'' []]"
  have "readTaskLedger (\<lambda>_. True) (crowded []) ''s'' 1000 = ReadReady ts []" by (simp add: readTaskLedger_def sc)
  note typed = readable_entries_typed [OF this]
  obtain t where t: "ts = [t]" "st_entry t = plain_entry ''a'' []" using ts by auto
  then have "st_source t = ''a.json''" "st_record t = entry_json (plain_entry ''a'' [])"
    using typed by (auto simp: files_of_def crowded_def)
  then show ?thesis using typed t by (metis stored_task.surjective old.unit.exhaust)
qed (simp_all add: MAX_LEDGER_DIRECTORY_ENTRIES_def)

end
