(* ===== verification/Ledger_Update.thy ===== *)
theory Ledger_Update
  imports Ledger_Laws
begin

text \<open>
  What an update of the operator's work ledger guarantees (\<open>src/src/fc-tasks.ts\<close>): the written entry
  reads back as the entry that was validated, the ledger stays valid and every other file stays as it
  was, a refused write changes no entry, an entry is closed for an expected run only if the engine's
  record of that run is terminal, and the directory limit of the scan.
\<close>

section \<open>The value an update writes\<close>

lemma has_own_set_field: "is_record j \<Longrightarrow> has_own (set_field k v j) k' \<longleftrightarrow> k' = k \<or> has_own j k'"
  by (cases j) (auto simp: is_record_def has_own_def set_field_def map_of_eq_None_iff [symmetric] split: if_splits)

lemma has_own_drop: "has_own (drop_fields ks j) k \<longleftrightarrow> k \<notin> set ks \<and> has_own j k"
  by (cases j) (force simp: has_own_def drop_fields_def)+

lemma fields_determine_entry:
  assumes "is_record v" and "is_record w" and "\<forall>k \<in> set FC_TASK_FIELDS. own_field v k = own_field w k" and "link_of v = link_of w"
  shows "validateFcTaskEntry v False = validateFcTaskEntry w False"
  using assms unfolding validateFcTaskEntry_def id_field_def text_field_def status_field_def FC_TASK_FIELDS_def by simp

lemma serialized_reads_back:
  assumes "is_record src" and "entry_ok e"
  shows "validateFcTaskEntry (serialized_update whole src e) False = Inr e"
proof (cases whole)
  case (Some x)
  then show ?thesis using assms(2) by (simp add: serialized_update_def validate_entry_json)
next
  case None
  let ?m = "spread src (entry_json e)"
  let ?v = "serialized_update whole src e"
  have rm: "is_record ?m" using assms(1) by (rule record_spread)
  have rd: "is_record (drop_fields ks j) = is_record j" for ks j by (cases j) (simp_all add: drop_fields_def is_record_def)
  have v: "?v = (if fe_taskId e = None then drop_fields [link_field] ?m else ?m)" using None by (simp add: serialized_update_def Let_def)
  have fm: "\<forall>k \<in> set FC_TASK_FIELDS. own_field ?m k = own_field (entry_json e) k"
    using assms(1) by (cases "fe_taskId e")
      (simp_all add: FC_TASK_FIELDS_def entry_fields spread_def entry_json_def own_set_field link_field_def, simp_all add: own_field_def)
  have "\<forall>k \<in> set FC_TASK_FIELDS. own_field ?v k = own_field (entry_json e) k"
    using fm unfolding v by (simp add: own_drop_fields FC_TASK_FIELDS_def link_field_def)
  moreover have "link_of ?v = link_of (entry_json e)"
  proof (cases "fe_taskId e")
    case None
    then show ?thesis unfolding v by (simp add: link_of_def has_own_drop entry_fields)
  next
    case (Some i)
    then have "has_own ?m link_field \<and> own_field ?m link_field = JNum i"
      using assms(1) by (simp add: spread_def entry_json_def own_set_field has_own_set_field)
    then show ?thesis using Some unfolding v by (simp add: link_of_def entry_fields)
  qed
  ultimately have "validateFcTaskEntry ?v False = validateFcTaskEntry (entry_json e) False"
    by (intro fields_determine_entry) (use rm in \<open>simp_all add: v rd\<close>, simp add: entry_json_def is_record_def)
  then show ?thesis using assms(2) by (simp add: validate_entry_json)
qed

lemma own_fold_fields:
  assumes "is_record j" and "distinct (map fst m)"
  shows "own_field (fold (\<lambda>(k, v). set_field k v) m j) k = (case map_of m k of Some v \<Rightarrow> v | None \<Rightarrow> own_field j k)"
  using assms
proof (induction m arbitrary: j)
  case (Cons a m)
  have "map_of m (fst a) = None" using Cons.prems(2) by (simp add: map_of_eq_None_iff)
  with Cons.IH [of "set_field (fst a) (snd a) j"] Cons.prems show ?case
    by (cases a) (auto simp: own_set_field split: option.split)
qed simp

lemma own_spread:
  assumes "is_record j" and "distinct (keys_of p)"
  shows "own_field (spread j p) k = (if has_own p k then own_field p k else own_field j k)"
proof (cases p)
  case (JObj m)
  have "has_own p k \<longleftrightarrow> map_of m k \<noteq> None" using JObj by (simp add: has_own_def map_of_eq_None_iff)
  then show ?thesis using own_fold_fields [OF assms(1), of m k] assms(2) JObj
    by (auto simp: spread_def keys_of_def own_field_def split: option.splits)
qed (simp_all add: spread_def has_own_def)

lemma has_own_spread:
  assumes "is_record j"
  shows "has_own (spread j p) k \<longleftrightarrow> has_own j k \<or> has_own p k"
proof (cases p)
  case (JObj m)
  have "is_record j \<Longrightarrow> has_own (fold (\<lambda>(k, v). set_field k v) m j) k \<longleftrightarrow> has_own j k \<or> k \<in> fst ` set m" for j
    by (induction m arbitrary: j) (simp_all add: has_own_set_field case_prod_beta, blast)
  then show ?thesis using assms JObj by (simp add: spread_def has_own_def [of "JObj m"])
qed (simp_all add: spread_def has_own_def)

lemma not_own: "\<not> has_own j k \<Longrightarrow> own_field j k = JUndef"
  by (cases j) (simp_all add: has_own_def own_field_def map_of_eq_None_iff [symmetric])

lemma own_supported:
  assumes "k \<in> set (FC_TASK_FIELDS @ [link_field])"
  shows "own_field (supportedTaskRecord j) k = own_field j k" and "has_own (supportedTaskRecord j) k = has_own j k"
proof -
  have m: "map_of (map (\<lambda>k. (k, own_field j k)) ks) k = (if k \<in> set ks then Some (own_field j k) else None)" for ks
    by (induction ks) auto
  have "own_field (supportedTaskRecord j) k
      = dflt (if k \<in> set (filter (has_own j) (FC_TASK_FIELDS @ [link_field])) then Some (own_field j k) else None) JUndef"
    by (simp only: supportedTaskRecord_def own_field_def [of "JObj _"] json.case m)
  then show "own_field (supportedTaskRecord j) k = own_field j k"
    using assms not_own [of j k] by (cases "has_own j k") auto
  show "has_own (supportedTaskRecord j) k = has_own j k"
    using assms by (auto simp: supportedTaskRecord_def has_own_def [of "JObj _"] image_iff)
qed

lemma texts_array: "texts v = Some ids \<Longrightarrow> v = JArr (map JStr ids)"
proof -
  have "those (map (\<lambda>x. case x of JStr s \<Rightarrow> Some s | _ \<Rightarrow> None) vs) = Some ids \<Longrightarrow> vs = map JStr ids" for vs
    by (induction vs arbitrary: ids) (auto split: json.splits option.splits)
  then show "texts v = Some ids \<Longrightarrow> v = JArr (map JStr ids)" by (auto simp: texts_def split: json.splits)
qed

lemma validated_fields:
  assumes "validateFcTaskEntry r b = Inr e"
  shows "\<forall>k \<in> set FC_TASK_FIELDS. own_field (entry_json e) k = own_field r k" and "link_of r = Inr (fe_taskId e)"
proof -
  have st: "find (\<lambda>st. fc_status_name st = s) fc_statuses = Some x \<Longrightarrow> fc_status_name x = s" for s x
    by (auto dest!: find_SomeD)
  have "own_field r ''id'' = JStr (fe_id e)" "own_field r ''subject'' = JStr (fe_subject e)"
    "own_field r ''description'' = JStr (fe_description e)" "own_field r ''activeForm'' = JStr (fe_activeForm e)"
    "own_field r ''status'' = JStr (fc_status_name (fe_status e))" "texts (own_field r ''blocks'') = Some (fe_blocks e)"
    "texts (own_field r ''blockedBy'') = Some (fe_blockedBy e)" and l: "link_of r = Inr (fe_taskId e)"
    using assms unfolding validateFcTaskEntry_def
    by (auto simp: id_field_def text_field_def status_field_def uniqueStringArray_def split: if_splits json.splits option.splits dest!: st)
  then show "\<forall>k \<in> set FC_TASK_FIELDS. own_field (entry_json e) k = own_field r k" "link_of r = Inr (fe_taskId e)"
    using texts_array [of "own_field r ''blocks''" "fe_blocks e"] texts_array [of "own_field r ''blockedBy''" "fe_blockedBy e"]
    by (simp_all add: FC_TASK_FIELDS_def entry_fields)
qed

text \<open>What an update asks for: the value to be written, field by field.\<close>

definition requested_link :: "update_options \<Rightarrow> json \<Rightarrow> rat option" where
  \<comment> \<open>an explicit link, or none when it is cleared, or the one of the request, or the one of the file\<close>
  "requested_link opts src =
     (case wo_taskId opts of
        Some i \<Rightarrow> Some i
      | None \<Rightarrow> if wo_clear opts then None
                else positive_safe (if has_own (wo_entry opts) link_field then own_field (wo_entry opts) link_field
                                    else own_field src link_field))"

definition requested_value :: "update_options \<Rightarrow> json \<Rightarrow> json \<Rightarrow> bool" where
  "requested_value opts src v =
     ((\<forall>k \<in> set FC_TASK_FIELDS.
         own_field v k = (if has_own (wo_entry opts) k then own_field (wo_entry opts) k else own_field src k))
      \<and> own_field v link_field = (case requested_link opts src of Some i \<Rightarrow> JNum i | None \<Rightarrow> JUndef)
      \<and> (\<forall>k. k \<notin> set (link_field # FC_TASK_FIELDS) \<longrightarrow>
           own_field v k = (if isCompleteFcTaskEntry (wo_entry opts) then JUndef else own_field src k)))"

lemma complete_input: "update_input opts = Inr whole \<Longrightarrow>
    (case whole of Some x \<Rightarrow> isCompleteFcTaskEntry (wo_entry opts) \<and> validateFcTaskEntry (wo_entry opts) True = Inr x
     | None \<Rightarrow> \<not> isCompleteFcTaskEntry (wo_entry opts))"
  by (auto simp: update_input_def refusal_Inr split: if_splits)

lemma written_fields:
  assumes "is_record src"
  shows "k \<in> set FC_TASK_FIELDS \<Longrightarrow> own_field (serialized_update whole src e) k = own_field (entry_json e) k"
    and "own_field (serialized_update whole src e) link_field = (case fe_taskId e of Some i \<Rightarrow> JNum i | None \<Rightarrow> JUndef)"
    and "k \<notin> set (link_field # FC_TASK_FIELDS) \<Longrightarrow>
      own_field (serialized_update whole src e) k = (case whole of Some _ \<Rightarrow> JUndef | None \<Rightarrow> own_field src k)"
proof -
  have d: "distinct (keys_of (entry_json e))"
    by (cases "fe_taskId e") (simp_all add: entry_json_def keys_of_def link_field_def)
  have h: "has_own (entry_json e) k \<longleftrightarrow> k \<in> set FC_TASK_FIELDS \<or> k = link_field \<and> fe_taskId e \<noteq> None" for k
    by (cases "fe_taskId e") (auto simp: entry_json_def has_own_def FC_TASK_FIELDS_def)
  have l: "link_field \<notin> set FC_TASK_FIELDS" by (simp add: link_field_def FC_TASK_FIELDS_def)
  note own = own_spread [OF assms d]
  show "own_field (serialized_update whole src e) k = own_field (entry_json e) k" if "k \<in> set FC_TASK_FIELDS"
    using that l by (cases whole) (auto simp: serialized_update_def Let_def own h own_drop_fields)
  show "own_field (serialized_update whole src e) link_field = (case fe_taskId e of Some i \<Rightarrow> JNum i | None \<Rightarrow> JUndef)"
    by (cases whole; cases "fe_taskId e") (simp_all add: serialized_update_def Let_def own h own_drop_fields entry_fields)
  show "own_field (serialized_update whole src e) k = (case whole of Some _ \<Rightarrow> JUndef | None \<Rightarrow> own_field src k)"
    if "k \<notin> set (link_field # FC_TASK_FIELDS)"
    using that not_own [of "entry_json e" k] h [of k]
    by (cases whole) (auto simp: serialized_update_def Let_def own own_drop_fields)
qed

lemma explicit_link_entry:
  "applyExplicitTaskLink e link clear = Inr e' \<Longrightarrow>
     e' = e\<lparr>fe_taskId := (case link of Some i \<Rightarrow> Some i | None \<Rightarrow> if clear then None else fe_taskId e)\<rparr>"
  by (auto simp: applyExplicitTaskLink_def split: option.splits if_splits)

lemma updated_entry_link:
  assumes e1: "applyExplicitTaskLink e0 (wo_taskId opts) (wo_clear opts) = Inr e1"
    and e: "e = (if fe_taskId e1 = None \<and> \<not> wo_clear opts
            then (case own_field src link_field of JNum i \<Rightarrow> if safe_integer i \<and> 0 < i then e1\<lparr>fe_taskId := Some i\<rparr> else e1 | _ \<Rightarrow> e1)
            else e1)"
    and l: "fe_taskId e0 \<noteq> None \<longrightarrow> fe_taskId e0 = positive_safe (if has_own (wo_entry opts) link_field
        then own_field (wo_entry opts) link_field else own_field src link_field)"
    and n: "fe_taskId e0 = None \<longrightarrow> \<not> has_own (wo_entry opts) link_field"
  shows "fe_taskId e = requested_link opts src" and "entry_json (e\<lparr>fe_taskId := None\<rparr>) = entry_json (e0\<lparr>fe_taskId := None\<rparr>)"
proof -
  have pos: "positive_safe v = (case v of JNum i \<Rightarrow> if safe_integer i \<and> 0 < i then Some i else None | _ \<Rightarrow> None)" for v
  proof (cases v)
    case (JNum i)
    have "0 < i \<longleftrightarrow> \<not> i < 1" if "safe_integer i"
    proof -
      have "i = of_int \<lfloor>i\<rfloor>" using that unfolding safe_integer_def is_integer_def by (metis (no_types))
      then show ?thesis by (metis less_le_not_le not_le of_int_0_less_iff of_int_1_le_iff int_one_le_iff_zero_less)
    qed
    then show ?thesis using JNum by (auto simp: positive_safe_def)
  qed (simp_all add: positive_safe_def)
  have e1': "e1 = e0\<lparr>fe_taskId := (case wo_taskId opts of Some i \<Rightarrow> Some i | None \<Rightarrow> if wo_clear opts then None else fe_taskId e0)\<rparr>"
    by (rule explicit_link_entry [OF e1])
  have nc: "wo_taskId opts = Some i \<Longrightarrow> \<not> wo_clear opts" for i
    using e1 by (auto simp: applyExplicitTaskLink_def split: if_splits)
  show "fe_taskId e = requested_link opts src"
  proof (cases "fe_taskId e1 = None \<and> \<not> wo_clear opts")
    case True
    then have "wo_taskId opts = None" "fe_taskId e0 = None" using e1' by (auto split: option.splits)
    with n True show ?thesis
      by (auto simp: e requested_link_def pos split: json.split)
  next
    case False
    with l nc show ?thesis by (auto simp: e e1' requested_link_def split: option.splits)
  qed
  show "entry_json (e\<lparr>fe_taskId := None\<rparr>) = entry_json (e0\<lparr>fe_taskId := None\<rparr>)"
    by (simp add: e e1' entry_json_def split: json.split)
qed

lemma entry_json_fields:
  "k \<in> set FC_TASK_FIELDS \<Longrightarrow> own_field (entry_json (e\<lparr>fe_taskId := i\<rparr>)) k = own_field (entry_json e) k"
  by (auto simp: FC_TASK_FIELDS_def entry_fields)

lemma update_writes_request:
  assumes "update_input opts = Inr whole" and "updated_entry opts whole src = Inr e" and "is_record src"
    and "distinct (keys_of (wo_entry opts))"
  shows "requested_value opts src (serialized_update whole src e)"
proof -
  obtain e0 e1 where e0: "(case whole of Some e \<Rightarrow> Inr e
       | None \<Rightarrow> rbind (entry_refusal_of (validateFcTaskEntry (spread (supportedTaskRecord src) (wo_entry opts)) True)) (\<lambda>e.
           if fe_id e \<noteq> uo_id opts then Inl (IdMismatch (fe_id e) (uo_id opts)) else Inr e)) = Inr e0"
    and e1: "applyExplicitTaskLink e0 (wo_taskId opts) (wo_clear opts) = Inr e1"
    and e: "e = (if fe_taskId e1 = None \<and> \<not> wo_clear opts
            then (case own_field src link_field of JNum i \<Rightarrow> if safe_integer i \<and> 0 < i then e1\<lparr>fe_taskId := Some i\<rparr> else e1 | _ \<Rightarrow> e1)
            else e1)"
    using assms(2) unfolding updated_entry_def rbind_Inr_iff sum.inject by (elim exE conjE) simp
  note c = complete_input [OF assms(1)]
  let ?r = "case whole of Some _ \<Rightarrow> wo_entry opts | None \<Rightarrow> spread (supportedTaskRecord src) (wo_entry opts)"
  have v: "validateFcTaskEntry ?r True = Inr e0"
    using e0 c by (cases whole) (auto simp: refusal_Inr split: if_splits)
  have rec: "is_record (supportedTaskRecord src)" by (simp add: supportedTaskRecord_def is_record_def)
  have own: "own_field ?r k = (if has_own (wo_entry opts) k then own_field (wo_entry opts) k else own_field src k)"
    if "k \<in> set FC_TASK_FIELDS" for k
    using that c own_spread [OF rec assms(4), of k] own_supported(1) [of k src]
    by (cases whole) (auto simp: isCompleteFcTaskEntry_def list_all_iff)
  note f = validated_fields [OF v]
  have link: "own_field ?r link_field = (if has_own (wo_entry opts) link_field then own_field (wo_entry opts) link_field
        else own_field src link_field)" "has_own (wo_entry opts) link_field \<longrightarrow> has_own ?r link_field"
    if "has_own ?r link_field \<or> whole = None"
    using that own_spread [OF rec assms(4), of link_field] own_supported(1) [of link_field src] has_own_spread [OF rec]
    by (cases whole; simp)+
  have l: "fe_taskId e0 \<noteq> None \<longrightarrow> fe_taskId e0 = positive_safe (if has_own (wo_entry opts) link_field
        then own_field (wo_entry opts) link_field else own_field src link_field)"
    using f(2) link(1) by (cases "fe_taskId e0") (auto simp: link_of_def split: if_splits option.splits)
  have n: "fe_taskId e0 = None \<longrightarrow> \<not> has_own (wo_entry opts) link_field"
    using f(2) link(2) by (cases whole; cases "fe_taskId e0") (auto simp: link_of_def split: if_splits option.splits)
  note el = updated_entry_link [OF e1 e l n]
  have "own_field (entry_json e) k = own_field (entry_json e0) k" if "k \<in> set FC_TASK_FIELDS" for k
    using entry_json_fields [OF that] el(2) by metis
  then show ?thesis
    unfolding requested_value_def using written_fields [OF assms(3), where whole = whole and e = e] f(1) own el(1) c
    by (auto split: option.splits)
qed

lemma updated_entry_ok:
  assumes "updated_entry opts whole src = Inr e" and "\<And>x. whole = Some x \<Longrightarrow> entry_ok x \<and> fe_id x = uo_id opts"
  shows "entry_ok e \<and> fe_id e = uo_id opts"
proof -
  obtain e0 e1 where e0: "(case whole of Some e \<Rightarrow> Inr e
       | None \<Rightarrow> rbind (entry_refusal_of (validateFcTaskEntry (spread (supportedTaskRecord src) (wo_entry opts)) True)) (\<lambda>e.
           if fe_id e \<noteq> uo_id opts then Inl (IdMismatch (fe_id e) (uo_id opts)) else Inr e)) = Inr e0"
    and e1: "applyExplicitTaskLink e0 (wo_taskId opts) (wo_clear opts) = Inr e1"
    and e: "e = (if fe_taskId e1 = None \<and> \<not> wo_clear opts
            then (case own_field src link_field of JNum i \<Rightarrow> if safe_integer i \<and> 0 < i then e1\<lparr>fe_taskId := Some i\<rparr> else e1 | _ \<Rightarrow> e1)
            else e1)"
    using assms(1) unfolding updated_entry_def rbind_Inr_iff sum.inject by (elim exE conjE) simp
  have "entry_ok e0 \<and> fe_id e0 = uo_id opts"
    using e0 assms(2) by (cases whole) (auto dest: validate_ok split: if_splits)
  then have "entry_ok e1 \<and> fe_id e1 = uo_id opts" using explicit_link_ok [OF e1] by simp
  moreover have "1 \<le> i" if "safe_integer i" "0 < i" for i
  proof -
    have "i = of_int \<lfloor>i\<rfloor>" using that(1) unfolding safe_integer_def is_integer_def by (metis (no_types))
    moreover have "0 < \<lfloor>i\<rfloor>" using that(2) calculation by (metis of_int_0_less_iff)
    ultimately show ?thesis by linarith
  qed
  ultimately show ?thesis unfolding e by (auto simp: entry_ok_def split: json.splits)
qed

lemma update_input_ok: "update_input opts = Inr whole \<Longrightarrow> whole = Some x \<Longrightarrow> entry_ok x \<and> fe_id x = uo_id opts"
  by (auto simp: update_input_def dest: validate_ok split: if_splits)

section \<open>Updates\<close>

definition source_value :: "task_source \<Rightarrow> json" where
  "source_value s = (case ts_content s of Parsed v \<Rightarrow> v | _ \<Rightarrow> JUndef)"

definition proposed_sources :: "task_source \<Rightarrow> json \<Rightarrow> task_source list \<Rightarrow> task_source list" where
  "proposed_sources target v sources = map (\<lambda>s. if s = target then s\<lparr>ts_content := Parsed v\<rparr> else s) sources"

definition replaced :: "session_node \<Rightarrow> ledger_file \<Rightarrow> session_node" where
  "replaced node f = SessionDir (replace_file (lf_name f) f (files_of node))"

lemma update_locked_success:
  assumes "update_locked env opts limit whole node = (node', Inr name)"
  obtains sources ts issues used target e where "scanTaskLedger (we_same env) node (wo_session opts) limit = ScanReady sources ts issues used"
    and "update_target (uo_id opts) sources issues = Inr target" and "updated_entry opts whole (source_value target) = Inr e"
    and "verify_update opts e = Inr ()"
    and "snd (validateLedgerSources (proposed_sources target (serialized_update whole (source_value target) e) sources)) = []"
    and "name = ts_name target"
    and "uo_skipUnchanged opts \<and> node' = node
         \<and> deep_equal (serialized_update whole (source_value target) e) (source_value target)
       \<or> we_size env (serialized_update whole (source_value target) e) \<le> MAX_LEDGER_ENTRY_BYTES
         \<and> used - ts_bytes target + we_size env (serialized_update whole (source_value target) e) \<le> MAX_LEDGER_TOTAL_BYTES
         \<and> node' = replaced node (written_file env name (serialized_update whole (source_value target) e))"
proof -
  obtain sources ts issues used where sc: "scanTaskLedger (we_same env) node (wo_session opts) limit = ScanReady sources ts issues used"
    using assms by (cases "scanTaskLedger (we_same env) node (wo_session opts) limit") (simp_all add: update_locked_def)
  obtain target e where t: "update_target (uo_id opts) sources issues = Inr target" "updated_entry opts whole (source_value target) = Inr e"
      "verify_update opts e = Inr ()"
    and k: "(let val = serialized_update whole (source_value target) e in
          (case snd (validateLedgerSources (proposed_sources target val sources)) of
             i # _ \<Rightarrow> (node, Inl (ProposedInvalid i))
           | [] \<Rightarrow>
               if uo_skipUnchanged opts \<and> deep_equal val (source_value target) then (node, Inr (ts_name target))
               else refused_or node (serializeLedgerEntry env val) (\<lambda>bytes.
                 if used - ts_bytes target + bytes > MAX_LEDGER_TOTAL_BYTES then (node, Inl LedgerTooLarge)
                 else (case publish_update env (ts_name target) val (files_of node) of (files, r) \<Rightarrow> (SessionDir files, r))))) = (node', Inr name)"
    using assms unfolding update_locked_def sc scan_result.case Let_def refused_or_Inr source_value_def proposed_sources_def by auto
  define val where "val = serialized_update whole (source_value target) e"
  have v: "snd (validateLedgerSources (proposed_sources target val sources)) = []"
    using k unfolding val_def [symmetric] Let_def by (auto split: list.splits)
  have "name = ts_name target \<and> (uo_skipUnchanged opts \<and> node' = node \<and> deep_equal val (source_value target)
       \<or> we_size env val \<le> MAX_LEDGER_ENTRY_BYTES \<and> used - ts_bytes target + we_size env val \<le> MAX_LEDGER_TOTAL_BYTES
         \<and> node' = replaced node (written_file env name val))"
  proof (cases "uo_skipUnchanged opts \<and> deep_equal val (source_value target)")
    case False
    have "refused_or node (serializeLedgerEntry env val) (\<lambda>bytes.
                 if used - ts_bytes target + bytes > MAX_LEDGER_TOTAL_BYTES then (node, Inl LedgerTooLarge)
                 else (case publish_update env (ts_name target) val (files_of node) of (files, r) \<Rightarrow> (SessionDir files, r))) = (node', Inr name)"
      using k unfolding val_def [symmetric] Let_def v list.case if_not_P [OF False] .
    then show ?thesis unfolding refused_or_Inr
      by (auto simp: serializeLedgerEntry_def publish_update_def settled_def replaced_def written_file_def split: if_splits)
  qed (use k v in \<open>simp add: val_def [symmetric] Let_def\<close>)
  then show ?thesis using that [OF sc t] v unfolding val_def by blast
qed

lemma update_success:
  assumes "updateTaskEntry env opts node = (node', Inr name)"
  obtains limit whole fs where "writableMaxEntries (wo_max opts) = Inr limit" and "update_input opts = Inr whole"
    and "node = SessionDir fs" and "update_locked env opts limit whole node = (node', Inr name)"
proof -
  obtain limit whole where h: "writableMaxEntries (wo_max opts) = Inr limit" "update_input opts = Inr whole"
    and rest: "(case assertWritableSession env (wo_session opts) False node of (node', Inl r) \<Rightarrow> (node', Inl r)
        | (node', Inr _) \<Rightarrow> with_lock env node' (update_locked env opts limit whole node')) = (node', Inr name)"
    using assms unfolding updateTaskEntry_def refused_or_Inr by blast
  obtain node1 r where aw: "assertWritableSession env (wo_session opts) False node = (node1, r)" by (cases "assertWritableSession env (wo_session opts) False node")
  then have x: "\<exists>x. r = Inr x" using rest by (cases r) simp_all
  then obtain fs where fs: "node1 = node" "node = SessionDir fs"
    using aw by (auto simp: assertWritableSession_def Let_def split: if_splits session_node.splits)
  have "update_locked env opts limit whole node = (node', Inr name)"
    using rest aw x fs(1) by (auto simp: with_lock_def split: lock_outcome.splits if_splits)
  then show ?thesis using that [OF h fs(2)] by simp
qed

lemma replaced_json: "lf_name f = name \<Longrightarrow> filter is_json (replace_file name f fs) = replace_file name f (filter is_json fs)"
  by (induction fs) (simp_all add: replace_file_def)

lemma replaced_size:
  "distinct (map lf_name fs) \<Longrightarrow> f \<in> set fs \<Longrightarrow> total_size (replace_file (lf_name f) g fs) + lf_size f = total_size fs + lf_size g"
proof (induction fs)
  case (Cons h fs)
  show ?case
  proof (cases "h = f")
    case True
    then have "\<forall>x \<in> set fs. lf_name x \<noteq> lf_name f" using Cons.prems(1) by (simp add: image_iff) metis
    then have "replace_file (lf_name f) g fs = fs" by (auto simp: replace_file_def intro!: map_idI)
    then show ?thesis using True by (simp add: replace_file_def)
  next
    case False
    then have "f \<in> set fs" using Cons.prems by simp
    then have "lf_name h \<noteq> lf_name f" using Cons.prems(1) by force
    then show ?thesis using Cons.IH Cons.prems \<open>f \<in> set fs\<close> by (simp add: replace_file_def)
  qed
qed simp

lemma clean_same_entries:
  assumes "clean_files fs" and "map file_entry fs = map file_entry gs" and "\<forall>g \<in> set gs. readable g"
  shows "clean_files gs"
proof -
  have m: "map (h \<circ> file_entry) fs = map (h \<circ> file_entry) gs" for h :: "fc_entry option \<Rightarrow> 'x"
    using assms(2) by (metis map_map)
  have s: "file_entry ` set fs = file_entry ` set gs" using assms(2) by (metis set_map)
  then have "\<forall>g \<in> set gs. file_entry g \<noteq> None" using assms(1) unfolding clean_files_def by (metis imageE imageI)
  then show ?thesis using assms(1,3) m [of the] m [of "fe_id \<circ> the"] by (simp add: clean_files_def comp_assoc)
qed

lemma source_id_file:
  assumes "source_id (source_of f) = JStr i"
  shows "readable f" and "lf_content f = Holds (source_value (source_of f))" and "is_record (source_value (source_of f))"
proof -
  have c: "readable f \<and> lf_content f = Holds (source_value (source_of f))"
    using assms by (auto simp: source_id_def source_value_def source_of_def file_source_def split: if_splits file_content.splits)
  then have "own_field (source_value (source_of f)) ''id'' = JStr i"
    using assms by (simp add: source_id_def source_value_def split: source_content.splits) 
  then show "readable f" "lf_content f = Holds (source_value (source_of f))" "is_record (source_value (source_of f))"
    using c by (auto simp: own_field_def is_record_def split: json.splits)
qed

lemma source_fields: "ts_name (source_of f) = lf_name f" "readable f \<Longrightarrow> ts_bytes (source_of f) = lf_size f"
  by (simp_all add: source_of_def file_source_def)

lemma target_file:
  assumes "update_target i (map source_of gs) issues = Inr target"
  obtains f where "f \<in> set gs" and "target = source_of f" and "readable f" and "lf_content f = Holds (source_value target)"
    and "is_record (source_value target)" and "ts_name target = lf_name f" and "ts_bytes target = lf_size f"
    and "own_field (source_value target) ''id'' = JStr i"
proof -
  have "filter (\<lambda>s. source_id s = JStr i) (map source_of gs) = [target]"
    using assms by (auto simp: update_target_def split: list.splits)
  then have "target \<in> set (filter (\<lambda>s. source_id s = JStr i) (map source_of gs))" by (metis list.set_intros(1))
  then have "target \<in> source_of ` set gs" "source_id target = JStr i" by simp_all
  then obtain f where f: "f \<in> set gs" "target = source_of f" "source_id (source_of f) = JStr i" by blast
  note r = source_id_file [OF f(3)]
  have "own_field (source_value (source_of f)) ''id'' = JStr i"
    using f(3) by (auto simp: source_id_def source_value_def split: source_content.splits)
  then show ?thesis using that [OF f(1,2) r(1)] r(2,3) source_fields(1) source_fields(2) [OF r(1)] unfolding f(2) by simp
qed

lemma proposed_files:
  assumes "distinct (map lf_name gs)" and "f \<in> set gs" and "readable f"
  shows "proposed_sources (source_of f) v (map source_of gs) = map source_of (replace_file (lf_name f) (f\<lparr>lf_content := Holds v\<rparr>) gs)"
proof -
  have "(if source_of g = source_of f then source_of g\<lparr>ts_content := Parsed v\<rparr> else source_of g)
      = source_of (if lf_name g = lf_name f then f\<lparr>lf_content := Holds v\<rparr> else g)" if g: "g \<in> set gs" for g
  proof (cases "lf_name g = lf_name f")
    case True
    then have "g = f" using assms(1,2) g by (metis distinct_map inj_onD)
    then show ?thesis using assms(3) by (simp add: source_of_def file_source_def readable_def)
  next
    case False
    then have "source_of g \<noteq> source_of f" using source_fields(1) by metis
    then show ?thesis using False by simp
  qed
  then show ?thesis by (simp add: proposed_sources_def replace_file_def)
qed

text \<open>The directory after the file of an entry was replaced.\<close>

lemma distinct_sorted_files:
  assumes "distinct (map lf_name fs)"
  shows "distinct (map lf_name (sort_key lf_name (filter is_json fs)))"
proof -
  have "distinct (map lf_name (filter is_json fs))" using assms by (rule distinct_map_filter)
  moreover have "mset (map lf_name (sort_key lf_name (filter is_json fs))) = mset (map lf_name (filter is_json fs))" by simp
  ultimately show ?thesis by (metis mset_eq_imp_distinct_iff)
qed

lemma replaced_clean:
  assumes "distinct (map lf_name gs)" and "f \<in> set gs" and "readable f"
    and "clean_files (replace_file (lf_name f) h gs)" and "file_entry h = file_entry w" and "readable w"
  shows "clean_files (replace_file (lf_name f) w gs)" and "\<forall>g \<in> set gs. readable g"
proof -
  show rd: "\<forall>g \<in> set gs. readable g"
  proof
    fix g assume g: "g \<in> set gs"
    show "readable g"
    proof (cases "lf_name g = lf_name f")
      case True
      then have "g = f" using assms(1,2) g by (metis distinct_map inj_onD)
      then show ?thesis using assms(3) by simp
    next
      case False
      then have "g \<in> set (replace_file (lf_name f) h gs)" using g by (force simp: replace_file_def)
      then show ?thesis using assms(4) by (simp add: clean_files_def)
    qed
  qed
  show "clean_files (replace_file (lf_name f) w gs)"
  proof (rule clean_same_entries [OF assms(4)])
    show "map file_entry (replace_file (lf_name f) h gs) = map file_entry (replace_file (lf_name f) w gs)"
      using assms(5) by (simp add: replace_file_def)
    show "\<forall>g \<in> set (replace_file (lf_name f) w gs). readable g" using rd assms(6) by (auto simp: replace_file_def)
  qed
qed

lemma replaced_entries:
  assumes "f \<in> set js" and "clean_files (replace_file (lf_name f) w js)" and "file_entry w = Some e"
  shows "(the \<circ> file_entry) ` set (replace_file (lf_name f) w js)
    = insert e {x. \<exists>g \<in> set js. lf_name g \<noteq> lf_name f \<and> file_entry g = Some x}"
proof -
  have fl: "set (replace_file (lf_name f) w js) = insert w {g \<in> set js. lf_name g \<noteq> lf_name f}"
    using assms(1) by (auto simp: replace_file_def)
  have ok: "file_entry g \<noteq> None" if "g \<in> set js" "lf_name g \<noteq> lf_name f" for g
    using assms(2) that fl unfolding clean_files_def by blast
  have "(the \<circ> file_entry) ` {g \<in> set js. lf_name g \<noteq> lf_name f} = {x. \<exists>g \<in> set js. lf_name g \<noteq> lf_name f \<and> file_entry g = Some x}"
  proof (intro set_eqI iffI)
    fix x assume "x \<in> (the \<circ> file_entry) ` {g \<in> set js. lf_name g \<noteq> lf_name f}"
    then obtain g where g: "g \<in> set js" "lf_name g \<noteq> lf_name f" "x = the (file_entry g)" by auto
    then have "file_entry g = Some x" using ok by simp
    then show "x \<in> {x. \<exists>g \<in> set js. lf_name g \<noteq> lf_name f \<and> file_entry g = Some x}" using g by blast
  next
    fix x assume "x \<in> {x. \<exists>g \<in> set js. lf_name g \<noteq> lf_name f \<and> file_entry g = Some x}"
    then show "x \<in> (the \<circ> file_entry) ` {g \<in> set js. lf_name g \<noteq> lf_name f}" by (force intro: image_eqI)
  qed
  then show ?thesis unfolding fl image_insert using assms(3) by simp
qed

lemma replaced_reads:
  assumes "length fs \<le> MAX_LEDGER_DIRECTORY_ENTRIES" and "entry_limit limit" and "isSafePathSegment session"
    and "\<forall>g \<in> set fs. is_json g \<longrightarrow> lf_regular g" and "length (filter is_json fs) \<le> nat \<lfloor>limit\<rfloor>"
    and "distinct (map lf_name fs)" and "f \<in> set (filter is_json fs)" and "readable f"
    and "clean_files (replace_file (lf_name f) h (sort_key lf_name (filter is_json fs)))"
    and "file_entry h = Some e" and "file_entry (written_file env (lf_name f) v) = Some e" and "readable (written_file env (lf_name f) v)"
    and "total_size (filter readable (sort_key lf_name (filter is_json fs))) - lf_size f + we_size env v \<le> MAX_LEDGER_TOTAL_BYTES"
  shows "\<exists>es. ledger_entries limit (replaced (SessionDir fs) (written_file env (lf_name f) v)) session = Some es \<and> graph_closed es
    \<and> set es = insert e {x. \<exists>g \<in> set fs. is_json g \<and> lf_name g \<noteq> lf_name f \<and> file_entry g = Some x}"
proof -
  define js gs where "js = filter is_json fs" and "gs = sort_key lf_name js"
  let ?w = "written_file env (lf_name f) v"
  have m: "mset gs = mset js" by (simp add: gs_def)
  have d: "distinct (map lf_name gs)" unfolding gs_def js_def by (rule distinct_sorted_files [OF assms(6)])
  have f: "f \<in> set gs" "f \<in> set js" using assms(7) by (simp_all add: gs_def js_def)
  note cw = replaced_clean [OF d f(1) assms(8) assms(9) [folded js_def, folded gs_def], of ?w]
  have mw: "mset (replace_file (lf_name f) ?w gs) = mset (replace_file (lf_name f) ?w js)" using m by (simp add: replace_file_def)
  have nm: "lf_name ?w = lf_name f" by (simp add: written_file_def)
  have jw: "filter is_json (replace_file (lf_name f) ?w fs) = replace_file (lf_name f) ?w js" unfolding js_def by (rule replaced_json [OF nm])
  have "filter readable gs = gs" using cw(2) assms(10-12) by (simp add: filter_id_conv)
  moreover have "total_size (replace_file (lf_name f) ?w gs) + lf_size f = total_size gs + we_size env v"
    using replaced_size [OF d f(1), of ?w] nm by (simp add: written_file_def)
  ultimately have "total_size (replace_file (lf_name f) ?w gs) \<le> MAX_LEDGER_TOTAL_BYTES"
    using assms(13) by (simp add: gs_def js_def)
  moreover have "total_size (replace_file (lf_name f) ?w gs) = total_size (replace_file (lf_name f) ?w js)"
    using mw by (metis mset_map sum_mset_sum_list)
  ultimately have tot: "total_size (replace_file (lf_name f) ?w js) \<le> MAX_LEDGER_TOTAL_BYTES" by simp
  have cj: "clean_files (replace_file (lf_name f) ?w js)" using cw(1) assms(10-12) clean_permuted [OF mw] by simp
  let ?es = "sort_key fe_id (map (the \<circ> file_entry) (replace_file (lf_name f) ?w js))"
  have "replaced (SessionDir fs) ?w = SessionDir (replace_file (lf_name f) ?w fs)" using nm by (simp add: replaced_def files_of_def)
  moreover have "length (replace_file (lf_name f) ?w fs) \<le> MAX_LEDGER_DIRECTORY_ENTRIES" "length (replace_file (lf_name f) ?w js) \<le> nat \<lfloor>limit\<rfloor>"
    using assms(1,5) by (simp_all add: replace_file_def js_def)
  moreover have "\<forall>g \<in> set (replace_file (lf_name f) ?w fs). is_json g \<longrightarrow> lf_regular g"
    using assms(4) by (auto simp: replace_file_def written_file_def)
  ultimately have "ledger_entries limit (replaced (SessionDir fs) ?w) session = Some ?es"
    using clean_ledger_reads [OF assms(2,3), of "replace_file (lf_name f) ?w fs"] cj tot unfolding jw by simp
  moreover have "graph_closed ?es" using cj by (simp add: clean_files_def graph_closed_def)
  moreover have "set ?es = insert e {x. \<exists>g \<in> set js. lf_name g \<noteq> lf_name f \<and> file_entry g = Some x}"
    unfolding set_sort set_map by (rule replaced_entries [OF f(2) cj assms(11)])
  ultimately show ?thesis by (auto simp: js_def)
qed

text \<open>C27. An update writes what was asked for and keeps the ledger valid.  The file it returns is the
  one that held the entry of the id the caller named.  The value \<open>v\<close> is the requested one: every
  field of an entry is the request's where the request has it and the file's elsewhere, the link is
  the explicit one, none when it is cleared, the request's, or the file's, and a patch keeps the
  fields of the file that it does not know while a complete entry drops them.  Either the caller
  asked to skip an unchanged file and \<open>v\<close> equals its value (up to the order of keys), and nothing
  changed; or the file now holds \<open>v\<close>, no other file changed, and the next undisturbed read finds no
  issue and exactly the entry of \<open>v\<close> beside the entries of all other files.  This holds even if the
  ledger had issues before, which the update then has repaired.  (A request is a JavaScript object:
  its keys are distinct.)\<close>

theorem update_keeps_ledger_valid:
  assumes "updateTaskEntry env opts node = (node', Inr name)" and "distinct (map lf_name (files_of node))"
    and "distinct (keys_of (wo_entry opts))"
  shows "\<exists>src v e. (\<exists>f \<in> set (files_of node). lf_name f = name \<and> lf_content f = Holds src)
    \<and> own_field src ''id'' = JStr (uo_id opts) \<and> requested_value opts src v
    \<and> validateFcTaskEntry v False = Inr e \<and> fe_id e = uo_id opts
    \<and> (uo_skipUnchanged opts \<and> deep_equal v src \<and> node' = node
       \<or> (\<exists>limit es. writableMaxEntries (wo_max opts) = Inr limit \<and> node' = replaced node (written_file env name v)
            \<and> ledger_entries limit node' (wo_session opts) = Some es \<and> graph_closed es
            \<and> set es = insert e {x. \<exists>g \<in> set (files_of node). is_json g \<and> lf_name g \<noteq> name \<and> file_entry g = Some x}))"
proof -
  obtain limit whole fs where h: "writableMaxEntries (wo_max opts) = Inr limit" "update_input opts = Inr whole"
    and fs: "node = SessionDir fs" and ul: "update_locked env opts limit whole node = (node', Inr name)"
    using assms(1) by (rule update_success)
  obtain sources ts issues used target e where sc: "scanTaskLedger (we_same env) node (wo_session opts) limit = ScanReady sources ts issues used"
    and t: "update_target (uo_id opts) sources issues = Inr target" "updated_entry opts whole (source_value target) = Inr e"
    and pr: "snd (validateLedgerSources (proposed_sources target (serialized_update whole (source_value target) e) sources)) = []"
    and n: "name = ts_name target"
    and k: "uo_skipUnchanged opts \<and> node' = node
         \<and> deep_equal (serialized_update whole (source_value target) e) (source_value target)
       \<or> we_size env (serialized_update whole (source_value target) e) \<le> MAX_LEDGER_ENTRY_BYTES
         \<and> used - ts_bytes target + we_size env (serialized_update whole (source_value target) e) \<le> MAX_LEDGER_TOTAL_BYTES
         \<and> node' = replaced node (written_file env name (serialized_update whole (source_value target) e))"
    using ul by (rule update_locked_success)
  define v where "v = serialized_update whole (source_value target) e"
  from sc fs have len: "length fs \<le> MAX_LEDGER_DIRECTORY_ENTRIES" and l: "entry_limit limit" "isSafePathSegment (wo_session opts)"
    and src: "sources = map source_of (sort_key lf_name (filter is_json fs))"
    and u: "used = total_size (filter readable (sort_key lf_name (filter is_json fs)))"
    and reg: "\<forall>f \<in> set fs. is_json f \<longrightarrow> lf_regular f" "length (filter is_json fs) \<le> nat \<lfloor>limit\<rfloor>"
    by (auto elim!: scan_ready)
  obtain f where f: "f \<in> set (sort_key lf_name (filter is_json fs))" "target = source_of f" "readable f" "lf_content f = Holds (source_value target)"
    "is_record (source_value target)" "ts_name target = lf_name f" "ts_bytes target = lf_size f"
    "own_field (source_value target) ''id'' = JStr (uo_id opts)"
    using t(1) unfolding src by (rule target_file)
  have nm: "name = lf_name f" using n f(6) by simp
  have df: "distinct (map lf_name fs)" using assms(2) fs by (simp add: files_of_def)
  then have d: "distinct (map lf_name (sort_key lf_name (filter is_json fs)))"
    by (rule distinct_sorted_files)
  have e: "entry_ok e \<and> fe_id e = uo_id opts" using updated_entry_ok [OF t(2)] update_input_ok [OF h(2)] by blast
  have v: "validateFcTaskEntry v False = Inr e" unfolding v_def using serialized_reads_back f(5) e by blast
  have held: "\<exists>f \<in> set (files_of node). lf_name f = name \<and> lf_content f = Holds (source_value target)"
    using f(1,4) nm fs by (auto simp: files_of_def)
  have asked: "requested_value opts (source_value target) v"
    unfolding v_def by (rule update_writes_request [OF h(2) t(2) f(5) assms(3)])
  show ?thesis
  proof (cases "uo_skipUnchanged opts \<and> node' = node \<and> deep_equal v (source_value target)")
    case False
    then have sz: "we_size env v \<le> MAX_LEDGER_ENTRY_BYTES" "used - lf_size f + we_size env v \<le> MAX_LEDGER_TOTAL_BYTES"
      and node': "node' = replaced node (written_file env name v)" using k f(7) by (auto simp: v_def)
    have "snd (validateLedgerSources (map source_of (replace_file name (f\<lparr>lf_content := Holds v\<rparr>) (sort_key lf_name (filter is_json fs))))) = []"
      using pr [folded v_def] unfolding src f(2) proposed_files [OF d f(1,3)] nm .
    then have clean: "clean_files (replace_file (lf_name f) (f\<lparr>lf_content := Holds v\<rparr>) (sort_key lf_name (filter is_json fs)))"
      using validated_files(1) [OF surjective_pairing, of "replace_file name (f\<lparr>lf_content := Holds v\<rparr>) (sort_key lf_name (filter is_json fs))"] nm by simp
    have ew: "file_entry (written_file env (lf_name f) v) = Some e" "readable (written_file env (lf_name f) v)"
      "file_entry (f\<lparr>lf_content := Holds v\<rparr>) = Some e"
      using v sz(1) by (simp_all add: file_entry_def written_file_def readable_def)
    have "f \<in> set (filter is_json fs)" using f(1) by simp
    from replaced_reads [OF len l reg df this f(3) clean ew(3,1,2) sz(2) [unfolded u]]
    show ?thesis using h(1) node' v e held asked f(8) fs nm by (auto simp: files_of_def)
  qed (use held asked f(8) v e in blast)
qed

lemma below_limit:
  assumes "\<not> of_nat n \<ge> (limit :: rat)" and "entry_limit limit"
  shows "n < nat \<lfloor>limit\<rfloor>"
proof -
  have "of_int \<lfloor>limit\<rfloor> = limit" using assms(2) by (simp add: entry_limit_def safe_integer_def is_integer_def)
  then have "int n < \<lfloor>limit\<rfloor>" using assms(1) by (metis not_le of_int_less_iff of_int_of_nat_eq)
  then show ?thesis by simp
qed

section \<open>Refused writes\<close>

definition entries_of :: "session_node \<Rightarrow> ledger_file list" where
  \<comment> \<open>the files of a directory that a scan takes for entries\<close>
  "entries_of node = filter is_json (files_of node)"

definition keeps_entries :: "session_node \<Rightarrow> session_node \<times> (ledger_refusal + string) \<Rightarrow> bool" where
  "keeps_entries node p = (\<forall>node' r. p = (node', Inl r) \<longrightarrow> r \<noteq> PublicationRefused True \<longrightarrow> r \<noteq> LockLost \<longrightarrow> entries_of node' = entries_of node)"

lemma keeps_refused [intro]: "(\<And>x. r = Inr x \<Longrightarrow> keeps_entries node (k x)) \<Longrightarrow> keeps_entries node (refused_or node r k)"
  by (cases r) (simp_all add: refused_or_def keeps_entries_def)

lemma keeps_same: "keeps_entries node (node, r)" "keeps_entries node (node', Inr name)"
  by (simp_all add: keeps_entries_def)

lemma keeps_locked: "keeps_entries node act \<Longrightarrow> keeps_entries node (with_lock env node act)"
  by (cases act) (auto simp: keeps_entries_def with_lock_def split: lock_outcome.splits if_splits)

lemma keeps_create: "publish_create env i v (files_of node) = (files, r) \<Longrightarrow> keeps_entries node (SessionDir files, r)"
  by (auto simp: keeps_entries_def publish_create_def Let_def entries_of_def files_of_def settled_def split: if_splits)

lemma keeps_update: "publish_update env name v (files_of node) = (files, r) \<Longrightarrow> keeps_entries node (SessionDir files, r)"
  by (auto simp: keeps_entries_def publish_update_def Let_def entries_of_def files_of_def settled_def split: if_splits)

lemma keeps_create_locked: "keeps_entries node (create_locked env opts limit e node)"
  unfolding create_locked_def
  by (intro keeps_refused) (auto simp del: case_prod_conv intro!: keeps_refused keeps_create split: prod.split)

lemma keeps_update_locked: "keeps_entries node (update_locked env opts limit whole node)"
proof (cases "scanTaskLedger (we_same env) node (wo_session opts) limit")
  case (ScanReady sources ts issues used)
  then show ?thesis unfolding update_locked_def ScanReady scan_result.case Let_def
    by (intro keeps_refused) (auto simp del: case_prod_conv intro!: keeps_refused keeps_update keeps_same split: list.splits prod.split)
qed (simp_all add: update_locked_def keeps_same)

lemma keeps_session:
  assumes "assertWritableSession env session create node = (node', r)"
  shows "entries_of node' = entries_of node"
  using assms by (auto simp: assertWritableSession_def Let_def entries_of_def files_of_def split: if_splits session_node.splits)

lemma keeps_after_session:
  assumes "\<And>node'. keeps_entries node' (k node')"
  shows "keeps_entries node (case assertWritableSession env session create node of (node', Inl r) \<Rightarrow> (node', Inl r)
    | (node', Inr _) \<Rightarrow> with_lock env node' (k node'))"
proof -
  obtain node1 r where a: "assertWritableSession env session create node = (node1, r)" by (cases "assertWritableSession env session create node")
  have "keeps_entries node1 (with_lock env node1 (k node1))" using assms by (rule keeps_locked)
  then show ?thesis using keeps_session [OF a] a by (cases r) (simp_all add: keeps_entries_def)
qed

text \<open>C29. A refused write changes no entry: whatever the reason, a create or an update that raises leaves
  every entry file as it was, except where the error says that the publication may be visible or where
  the lock was found lost only after the write.\<close>

theorem refused_write_changes_nothing:
  assumes "createTaskEntry env opts node = (node', Inl r) \<or> updateTaskEntry env upd node = (node', Inl r)"
    and "r \<noteq> PublicationRefused True" and "r \<noteq> LockLost"
  shows "entries_of node' = entries_of node"
proof -
  have "keeps_entries node (createTaskEntry env opts node)"
    unfolding createTaskEntry_def by (intro keeps_refused keeps_after_session keeps_create_locked)
  moreover have "keeps_entries node (updateTaskEntry env upd node)"
    unfolding updateTaskEntry_def by (intro keeps_refused keeps_after_session keeps_update_locked)
  ultimately show ?thesis using assms unfolding keeps_entries_def by blast
qed

theorem refused_write_changes_nothing_witness:
  "entries_of (fst (createTaskEntry calm_env (example_create\<lparr>wo_clear := True\<rparr>) (crowded []))) = [file_a]"
proof -
  have "createTaskEntry calm_env (example_create\<lparr>wo_clear := True\<rparr>) (crowded []) = (crowded [], Inl CannotClearOnCreate)"
    by (simp add: createTaskEntry_def refused_or_def writableMaxEntries_def DEFAULT_MAX_ENTRIES_def limit_1000 example_create_def dflt_def)
  moreover from refused_write_changes_nothing [OF disjI1 [OF this]]
  have "entries_of (crowded []) = entries_of (crowded [])" by simp
  ultimately show ?thesis by (simp add: entries_of_def crowded_def files_of_def ends_with_def starts_with_def)
qed

section \<open>The directory limit\<close>

lemma scan_names_over:
  assumes "\<forall>f \<in> set fs. is_json f \<longrightarrow> lf_regular f" and "length (acc @ filter is_json fs) \<le> limit"
    and "seen + length fs > MAX_LEDGER_DIRECTORY_ENTRIES" and "seen \<le> MAX_LEDGER_DIRECTORY_ENTRIES"
  shows "scan_names limit seen acc fs = Inl (ScanLimitExceeded ''directory'')"
  using assms by (induction limit seen acc fs rule: scan_names.induct) auto

text \<open>C30. The directory limit is checked by the scan only: a create is still accepted when the directory
  already holds as many names as a scan visits, and the file it adds makes every later read of the
  session, and so every later write, fail.\<close>

theorem create_at_directory_limit_blinds_ledger:
  assumes "createTaskEntry env opts node = (node', Inr name)" and "length (files_of node) = MAX_LEDGER_DIRECTORY_ENTRIES"
    and "writableMaxEntries (wo_max opts) = Inr limit"
  shows "readTaskLedger same node' (wo_session opts) limit = ReadUnavailable (ScanLimitExceeded ''directory'')"
proof -
  from assms(1) obtain limit' e fs ts used where l': "writableMaxEntries (wo_max opts) = Inr limit'" and fs: "files_of node = fs"
    and sc: "\<exists>sources. scanTaskLedger (we_same env) (SessionDir fs) (wo_session opts) limit' = ScanReady sources ts [] used"
    and lim: "\<not> of_nat (length ts) \<ge> limit'" and n: "name = fe_id e @ ''.json''"
    and node': "node' = SessionDir (cleaned env (entry_json e) (fs @ [written_file env name (entry_json e)]))"
    by (rule create_success) blast
  have ll: "limit' = limit" using l' assms(3) by simp
  obtain sources where sc: "scanTaskLedger (we_same env) (SessionDir fs) (wo_session opts) limit = ScanReady sources ts [] used"
    using sc ll by blast
  then have reg: "\<forall>f \<in> set fs. is_json f \<longrightarrow> lf_regular f" and ses: "isSafePathSegment (wo_session opts)" and el: "entry_limit limit"
    by (auto elim!: scan_ready)
  let ?fs = "cleaned env (entry_json e) (fs @ [written_file env name (entry_json e)])"
  have "\<forall>f \<in> set ?fs. is_json f \<longrightarrow> lf_regular f" using reg by (auto simp: cleaned_def written_file_def split: if_splits)
  moreover have "length (filter is_json ?fs) \<le> nat \<lfloor>limit\<rfloor>"
  proof -
    have "length ts = length (filter is_json fs)" using clean_of_scan(5) [OF sc] by (metis length_map size_mset)
    then show ?thesis using below_limit [OF lim [unfolded ll] el] by (simp add: n filter_snoc_json)
  qed
  moreover have "0 + length ?fs > MAX_LEDGER_DIRECTORY_ENTRIES" using assms(2) fs by (simp add: cleaned_def)
  ultimately have "scan_names (nat \<lfloor>limit\<rfloor>) 0 [] ?fs = Inl (ScanLimitExceeded ''directory'')"
    by (intro scan_names_over) simp_all
  then show ?thesis using el ses unfolding node' by (simp add: readTaskLedger_def scanTaskLedger_def)
qed

definition junk_file :: "nat \<Rightarrow> ledger_file" where
  "junk_file i = \<lparr>lf_name = replicate i (CHR ''x''), lf_regular = True, lf_size = 0, lf_content = NotJson\<rparr>"

theorem create_at_directory_limit_blinds_ledger_witness:
  "readTaskLedger (\<lambda>_. True) (fst (createTaskEntry calm_env example_create (crowded (map junk_file [1..<4096])))) ''s'' 1000
    = ReadUnavailable (ScanLimitExceeded ''directory'')"
proof -
  have j: "\<forall>f \<in> set (map junk_file [1..<4096]). \<not> is_json f"
    by (auto simp: junk_file_def ends_with_def starts_with_def dest!: arg_cong [of _ _ "\<lambda>s. CHR ''n'' \<in> set s"] split: if_splits)
  have l: "length (map junk_file [1..<4096]) < MAX_LEDGER_DIRECTORY_ENTRIES"
    and c: "length (files_of (crowded (map junk_file [1..<4096]))) = MAX_LEDGER_DIRECTORY_ENTRIES"
    by (simp_all add: MAX_LEDGER_DIRECTORY_ENTRIES_def files_of_def crowded_def)
  have w: "writableMaxEntries (wo_max example_create) = Inr 1000" "wo_session example_create = ''s''"
    by (simp_all add: example_create_def writableMaxEntries_def DEFAULT_MAX_ENTRIES_def limit_1000 dflt_def)
  show ?thesis
    using create_at_directory_limit_blinds_ledger [OF example_creates [OF j l] c w(1)] unfolding example_creates [OF j l] w(2) by simp
qed

section \<open>Closing an entry for a run\<close>

lemma effective_link [simp]: "effectiveFlowcrewTaskId (withEffectiveTaskLink e) = effectiveFlowcrewTaskId e"
  by (simp add: withEffectiveTaskLink_def effectiveFlowcrewTaskId_def [of "_\<lparr>fe_taskId := _\<rparr>"] split: option.splits)

lemma terminal_run_resolved:
  assumes "requireExpectedTerminalRun e r resolver = Inr v"
  shows "rv_runId v = Some r"
    and "\<exists>s st sem. rv_runStatus v = Some s \<and> resolveRunStatus (JStr s) = Known st sem \<and> lifecycle sem = Terminal"
    and "\<exists>tr x. resolver = Some tr \<and> effectiveFlowcrewTaskId x = effectiveFlowcrewTaskId e \<and> tr_resolve tr x = Some (Resolved v)"
proof -
  have res: "hd (resolveFcTaskRuns [e] resolver) = Resolved v"
    using assms by (auto simp: requireExpectedTerminalRun_def split: if_splits run_resolution.splits option.splits run_status_resolution.splits)
  show "rv_runId v = Some r" "\<exists>s st sem. rv_runStatus v = Some s \<and> resolveRunStatus (JStr s) = Known st sem \<and> lifecycle sem = Terminal"
    using assms res by (auto simp: requireExpectedTerminalRun_def split: if_splits option.splits run_status_resolution.splits)
  have "resolveFcTaskRun (withEffectiveTaskLink e) resolver = Resolved v"
    using res by (auto simp: resolveFcTaskRuns_def Let_def split: option.splits if_splits)
  then show "\<exists>tr x. resolver = Some tr \<and> effectiveFlowcrewTaskId x = effectiveFlowcrewTaskId e \<and> tr_resolve tr x = Some (Resolved v)"
    by (auto simp: resolveFcTaskRun_def split: option.splits if_splits intro!: exI [of _ "withEffectiveTaskLink (withEffectiveTaskLink e)"])
qed

text \<open>C28. An entry is closed only for its terminal run: an update that names an expected run \<open>r\<close> succeeds only if
  the entry it writes is linked to a task of the registry whose \<open>run_id\<close> names that run: the path it stands
  for in the archive ends in \<open>r\<close> and is a real directory there, the same before and after its record was
  read, and the record names this run and this project and has a known terminal status.\<close>

theorem close_requires_terminal_run:
  assumes "updateTaskEntry env opts node = (node', Inr name)" and "uo_expectedRunId opts = Some r"
    and "wo_resolver opts = Some (engine_resolver es eg entries)"
  shows "\<exists>e i f raw t q s st sem. fe_id e = uo_id opts \<and> effectiveFlowcrewTaskId e = Some i
    \<and> (uo_skipUnchanged opts \<and> node' = node \<or> (\<exists>v. node' = replaced node (written_file env name v) \<and> validateFcTaskEntry v False = Inr e))
    \<and> eg_registry eg = RegistryFile f \<and> map_of (registry_tasks (rf_bytes f)) i = Some raw \<and> parseEngineTask (es_cwd es) raw i = Some t
    \<and> own_field raw ''run_id'' = JStr q \<and> et_runId t = Some q \<and> r = last_segment (resolve_path (es_runRoot es) q)
    \<and> bound_run es t r (Some s) \<and> resolveRunStatus (JStr s) = Known st sem \<and> lifecycle sem = Terminal"
proof -
  obtain limit whole fs where h: "writableMaxEntries (wo_max opts) = Inr limit" "update_input opts = Inr whole"
    and fs: "node = SessionDir fs" and ul: "update_locked env opts limit whole node = (node', Inr name)"
    using assms(1) by (rule update_success)
  obtain sources ts issues used target e where sc: "scanTaskLedger (we_same env) node (wo_session opts) limit = ScanReady sources ts issues used"
    and t: "update_target (uo_id opts) sources issues = Inr target" "updated_entry opts whole (source_value target) = Inr e"
    and ver: "verify_update opts e = Inr ()"
    and k: "uo_skipUnchanged opts \<and> node' = node
         \<and> deep_equal (serialized_update whole (source_value target) e) (source_value target)
       \<or> we_size env (serialized_update whole (source_value target) e) \<le> MAX_LEDGER_ENTRY_BYTES
         \<and> used - ts_bytes target + we_size env (serialized_update whole (source_value target) e) \<le> MAX_LEDGER_TOTAL_BYTES
         \<and> node' = replaced node (written_file env name (serialized_update whole (source_value target) e))"
    using ul by (rule update_locked_success)
  from sc obtain gs where src: "sources = map source_of gs" by (rule scan_ready)
  have e: "entry_ok e \<and> fe_id e = uo_id opts" using updated_entry_ok [OF t(2)] update_input_ok [OF h(2)] by blast
  have rec: "is_record (source_value target)" using t(1) unfolding src by (rule target_file)
  have w: "uo_skipUnchanged opts \<and> node' = node \<or> (\<exists>v. node' = replaced node (written_file env name v) \<and> validateFcTaskEntry v False = Inr e)"
    using k serialized_reads_back [OF rec e [THEN conjunct1], of whole] by blast
  obtain v where req: "requireExpectedTerminalRun e r (Some (engine_resolver es eg entries)) = Inr v"
    using ver assms(2,3)
    by (cases "requireExpectedTerminalRun e r (Some (engine_resolver es eg entries))") (simp_all add: verify_update_def)
  note run = terminal_run_resolved [OF req]
  obtain s st sem where s: "rv_runStatus v = Some s" "resolveRunStatus (JStr s) = Known st sem" "lifecycle sem = Terminal"
    using run(2) by blast
  obtain x where x: "effectiveFlowcrewTaskId x = effectiveFlowcrewTaskId e" "tr_resolve (engine_resolver es eg entries) x = Some (Resolved v)"
    using run(3) by blast
  obtain i f raw t where b: "effectiveFlowcrewTaskId e = Some i" "eg_registry eg = RegistryFile f" "map_of (registry_tasks (rf_bytes f)) i = Some raw"
      "parseEngineTask (es_cwd es) raw i = Some t" "case rv_runId v of None \<Rightarrow> et_runId t = None | Some r \<Rightarrow> bound_run es t r (rv_runStatus v)"
    using resolved_run_is_bound [OF x(2)] unfolding x(1) by blast
  have bound: "bound_run es t r (Some s)" using b(5) run(1) s(1) by simp
  then obtain q where q: "et_runId t = Some q" "r = last_segment (resolve_path (es_runRoot es) q)"
    by (auto simp: bound_run_def)
  show ?thesis using e w b(1-4) s(2,3) bound q parsed_run_id [OF b(4) q(1)] by blast
qed

text \<open>An update that links the example entry to the example task and completes it for its run.\<close>

definition example_update :: update_options where
  "example_update = \<lparr>wo_session = ''s'', wo_entry = JObj [(''status'', JStr ''completed'')], wo_max = None, wo_taskId = Some 3, wo_clear = False,
     wo_resolver = Some (engine_resolver (example_store ''complete'') example_root []), uo_id = ''a'', uo_expectedRunId = Some ''r1'',
     uo_skipUnchanged = False\<rparr>"

definition closed_entry :: fc_entry where
  "closed_entry = example_entry ''a'' []\<lparr>fe_status := FcCompleted\<rparr>"

definition closed_value :: json where
  "closed_value = serialized_update None (entry_json (plain_entry ''a'' [])) closed_entry"

definition closed_file :: ledger_file where
  "closed_file = written_file calm_env ''a.json'' closed_value"

lemma closed_ok: "entry_ok closed_entry" "fe_id closed_entry = ''a''" "effectiveFlowcrewTaskId closed_entry = Some 3"
  by code_simp+

lemma closed_reads: "validateFcTaskEntry closed_value False = Inr closed_entry"
  unfolding closed_value_def by (rule serialized_reads_back [OF _ closed_ok(1)]) (simp add: entry_json_def is_record_def)

lemma source_a: "readable file_a" "source_value (source_of file_a) = entry_json (plain_entry ''a'' [])"
  "source_id (source_of file_a) = JStr ''a''" "ts_name (source_of file_a) = ''a.json''" "ts_bytes (source_of file_a) = 200"
proof -
  show r: "readable file_a" by (simp add: readable_def MAX_LEDGER_ENTRY_BYTES_def)
  then show "source_value (source_of file_a) = entry_json (plain_entry ''a'' [])" "source_id (source_of file_a) = JStr ''a''"
    "ts_name (source_of file_a) = ''a.json''" "ts_bytes (source_of file_a) = 200"
    by (simp_all add: source_value_def source_id_def source_of_def file_source_def entry_fields)
qed

lemma closed_updated: "updated_entry example_update None (entry_json (plain_entry ''a'' [])) = Inr closed_entry"
proof -
  have "validateFcTaskEntry (spread (supportedTaskRecord (entry_json (plain_entry ''a'' []))) (JObj [(''status'', JStr ''completed'')])) True
      = Inr (closed_entry\<lparr>fe_taskId := None\<rparr>)" by code_simp
  moreover have "safe_integer 3" using is_integer_def by (simp add: safe_integer_def is_integer_def max_safe_integer_def)
  ultimately show ?thesis
    by (simp add: updated_entry_def example_update_def entry_refusal_of_def applyExplicitTaskLink_def closed_entry_def example_entry_def)
qed

lemma closed_verified: "verify_update example_update closed_entry = Inr ()"
proof -
  have l: "withEffectiveTaskLink closed_entry = closed_entry"
    by (simp add: withEffectiveTaskLink_def closed_entry_def example_entry_def split: option.splits)
  have "fe_taskId closed_entry = Some 3" by (simp add: closed_entry_def example_entry_def)
  then have res: "resolveFcTaskRuns [closed_entry] (Some (engine_resolver (example_store ''complete'') example_root [])) = [Resolved (linked_run ''complete'')]"
    by (simp add: resolveFcTaskRuns_def Let_def l resolveFcTaskRun_def closed_ok example_resolved resolution_task_def linked_run_def)
       (simp add: engine_resolver_def)
  have "isSafePathSegment ''r1''" "resolveRunStatus (JStr ''complete'') = Known RComplete (run_semantics RComplete)"
    by code_simp+
  then have "requireExpectedTerminalRun closed_entry ''r1'' (Some (engine_resolver (example_store ''complete'') example_root [])) = Inr (linked_run ''complete'')"
    unfolding requireExpectedTerminalRun_def res by (auto simp: linked_run_def)
  then show ?thesis by (simp add: verify_update_def example_update_def)
qed

lemma example_proposed:
  "snd (validateLedgerSources (proposed_sources (source_of file_a) closed_value [source_of file_a])) = []"
proof -
  have "proposed_sources (source_of file_a) closed_value [source_of file_a] = map source_of [file_a\<lparr>lf_content := Holds closed_value\<rparr>]"
    using proposed_files [of "[file_a]" file_a closed_value] source_a(1) by (simp add: replace_file_def)
  moreover have "clean_files [file_a\<lparr>lf_content := Holds closed_value\<rparr>]"
    using source_a(1) closed_reads
    by (simp add: clean_files_def readable_def file_entry_def graph_closed_def closed_entry_def example_entry_def)
  ultimately show ?thesis using validated_files(1) [OF surjective_pairing, of "[file_a\<lparr>lf_content := Holds closed_value\<rparr>]"] by simp
qed

lemma example_locked:
  "update_locked calm_env example_update 1000 None (crowded []) = (SessionDir [closed_file], Inr ''a.json'')"
proof (rule example_scan [of "[]"])
  fix ts
  assume sc: "scanTaskLedger (\<lambda>_. True) (crowded []) ''s'' 1000 = ScanReady [source_of file_a] ts [] 200"
  have o: "we_same calm_env = (\<lambda>_. True)" "wo_session example_update = ''s''" "uo_id example_update = ''a''"
    "uo_skipUnchanged example_update = False" by (simp_all add: calm_env_def example_update_def)
  have t: "update_target ''a'' [source_of file_a] [] = Inr (source_of file_a)" by (simp add: update_target_def source_a)
  have sv: "(case ts_content (source_of file_a) of Parsed v \<Rightarrow> v | _ \<Rightarrow> JUndef) = entry_json (plain_entry ''a'' [])"
    using source_a(2) by (simp add: source_value_def)
  have ser: "serializeLedgerEntry calm_env closed_value = Inr 200"
    by (simp add: serializeLedgerEntry_def calm_env_def MAX_LEDGER_ENTRY_BYTES_def)
  have pub: "publish_update calm_env ''a.json'' closed_value (files_of (crowded [])) = ([closed_file], Inr ''a.json'')"
    by (simp add: publish_update_def settled_def calm_env_def crowded_def files_of_def replace_file_def closed_file_def)
  show ?thesis
    unfolding update_locked_def o sc scan_result.case t refused_or_def sum.case Let_def sv closed_updated closed_verified
      closed_value_def [symmetric] proposed_sources_def [symmetric] example_proposed list.case ser source_a(4,5) pub
    by (simp add: MAX_LEDGER_TOTAL_BYTES_def)
qed (simp_all add: MAX_LEDGER_DIRECTORY_ENTRIES_def)

lemma example_updates: "updateTaskEntry calm_env example_update (crowded []) = (SessionDir [closed_file], Inr ''a.json'')"
proof -
  have seg: "isSafePathSegment ''s''" "isSafePathSegment ''a''" "isSafePathSegment ''r1''" by code_simp+
  have "update_input example_update = Inr None"
    using seg by (simp add: update_input_def example_update_def isCompleteFcTaskEntry_def is_record_def has_own_def FC_TASK_FIELDS_def
        validateFcTaskPatch_def keys_of_def entry_refusal_of_def)
  moreover have "writableMaxEntries (wo_max example_update) = Inr 1000"
    by (simp add: example_update_def writableMaxEntries_def DEFAULT_MAX_ENTRIES_def limit_1000 dflt_def)
  moreover have "assertWritableSession calm_env (wo_session example_update) False (crowded []) = (crowded [], Inr ())"
    by (simp add: assertWritableSession_def seg crowded_def calm_env_def example_update_def)
  moreover have "we_lock calm_env = LockHeld True" by (simp add: calm_env_def)
  ultimately show ?thesis by (simp add: updateTaskEntry_def refused_or_def with_lock_def example_locked)
qed

theorem update_keeps_ledger_valid_witness:
  "\<exists>es. ledger_entries 1000 (fst (updateTaskEntry calm_env example_update (crowded []))) ''s'' = Some es \<and> set es = {closed_entry}"
proof -
  have o: "wo_max example_update = None" "wo_session example_update = ''s''" "\<not> uo_skipUnchanged example_update"
    by (simp_all add: example_update_def)
  have w: "writableMaxEntries None = Inr 1000" by (simp add: writableMaxEntries_def DEFAULT_MAX_ENTRIES_def limit_1000 dflt_def)
  have keys: "distinct (keys_of (wo_entry example_update))" by (simp add: example_update_def keys_of_def)
  have files: "files_of (crowded []) = [file_a]" "distinct (map lf_name (files_of (crowded [])))"
    by (simp_all add: crowded_def files_of_def)
  obtain v e es where u: "SessionDir [closed_file] = replaced (crowded []) (written_file calm_env ''a.json'' v)"
      "validateFcTaskEntry v False = Inr e" "ledger_entries 1000 (SessionDir [closed_file]) ''s'' = Some es"
      "set es = insert e {x. \<exists>g \<in> set (files_of (crowded [])). is_json g \<and> lf_name g \<noteq> ''a.json'' \<and> file_entry g = Some x}"
    using update_keeps_ledger_valid [OF example_updates files(2)] keys o w by auto
  have "v = closed_value"
    using u(1) by (simp add: replaced_def files replace_file_def closed_file_def written_file_def)
  then have "set es = {closed_entry}" using u(2,4) closed_reads files(1) by simp
  then show ?thesis using u(3) example_updates by auto
qed

theorem close_requires_terminal_run_witness:
  "\<exists>t s st sem. bound_run (example_store ''complete'') t ''r1'' (Some s) \<and> resolveRunStatus (JStr s) = Known st sem \<and> lifecycle sem = Terminal"
proof -
  have "uo_expectedRunId example_update = Some ''r1''"
    "wo_resolver example_update = Some (engine_resolver (example_store ''complete'') example_root [])"
    by (simp_all add: example_update_def)
  from close_requires_terminal_run [OF example_updates this] show ?thesis by blast
qed

end
