(* ===== verification/Lock_Protocol.thy ===== *)
theory Lock_Protocol
  imports Ledger_Write Ownership
begin

text \<open>
  The lock files of the shared stores: \<open>src/src/lock-publication.ts\<close> and the lock of the task registry
  (\<open>withLock\<close>, \<open>inspectLock\<close> in \<open>src/src/task-registry.ts\<close>).  A lock is a file that is linked into place with
  its complete owner record; a waiter may remove it when the recorded owner is dead, or when the record
  is unreadable and the file is old.

  The functions are the code's; \<open>lock_step\<close> interleaves them over any number of processes, one file-system
  access at a time.  What a process sees of the others is a \<open>host\<close> (\<open>Ownership\<close>); it is only assumed that
  a live process is not reported as missing, and that its start time does not change.
\<close>

section \<open>Owners\<close>

record lock_owner =
  lo_pid :: int
  lo_start :: "string option"
  lo_acquired :: "string option"
  lo_token :: "string option"
  lo_version :: "rat option"

definition text_field_of :: "json \<Rightarrow> string \<Rightarrow> string option" where
  "text_field_of v k = (case own_field v k of JStr s \<Rightarrow> Some s | _ \<Rightarrow> None)"

definition parseLockOwner :: "string \<Rightarrow> lock_owner option" where
  "parseLockOwner raw =
     (case json_parse raw of
        None \<Rightarrow> None
      | Some v \<Rightarrow> (case own_field v ''pid'' of
          JNum q \<Rightarrow>
            if \<not> safe_integer q \<or> q \<le> 0 then None
            else Some \<lparr>lo_pid = \<lfloor>q\<rfloor>,
                       lo_start = (case text_field_of v ''processStartTime'' of
                          Some s \<Rightarrow> if all_digits s then Some s else None | None \<Rightarrow> None),
                       lo_acquired = text_field_of v ''acquiredAt'', lo_token = text_field_of v ''token'',
                       lo_version = (case own_field v ''version'' of JNum n \<Rightarrow> Some n | _ \<Rightarrow> None)\<rparr>
        | _ \<Rightarrow> None))"

definition lockOwnerIdentity :: "host \<Rightarrow> int \<Rightarrow> (string \<times> json) list" where
  "lockOwnerIdentity h pid =
     [(''pid'', JNum (of_int pid)),
      (''processStartTime'', case linuxProcessStartTimeTicks h pid of None \<Rightarrow> JUndef | Some s \<Rightarrow> JStr s)]"

definition registry_owner :: "host \<Rightarrow> int \<Rightarrow> string \<Rightarrow> string \<Rightarrow> json" where
  \<comment> \<open>the owner record \<open>withLock\<close> publishes\<close>
  "registry_owner h pid acquired token =
     JObj (lockOwnerIdentity h pid @ [(''acquiredAt'', JStr acquired), (''token'', JStr token)])"

definition published_text :: "(rat \<Rightarrow> string) \<Rightarrow> json \<Rightarrow> string" where
  "published_text other owner = json_text other owner @ [line_feed]"

section \<open>Observation and recovery\<close>

record lock_file =
  lk_identity :: "nat \<times> nat"
  lk_mtime :: rat
  lk_raw :: string

record lock_observation =
  ob_owner :: "lock_owner option"
  ob_mtime :: rat
  ob_signature :: "(nat \<times> nat) \<times> rat \<times> string"
  \<comment> \<open>the size is that of the text\<close>

definition inspectLock :: "lock_file option \<Rightarrow> lock_observation option" where
  "inspectLock f =
     map_option (\<lambda>l. \<lparr>ob_owner = parseLockOwner (lk_raw l), ob_mtime = lk_mtime l,
                       ob_signature = (lk_identity l, lk_mtime l, lk_raw l)\<rparr>) f"

definition publishLockOwner :: "lock_file \<Rightarrow> lock_file option \<Rightarrow> lock_file option \<times> bool" where
  \<comment> \<open>\<open>link\<close> of the staged file: it never replaces an existing lock\<close>
  "publishLockOwner staged f = (case f of None \<Rightarrow> (Some staged, True) | Some l \<Rightarrow> (Some l, False))"

definition LEGACY_LOCK_STALE_MS :: rat where "LEGACY_LOCK_STALE_MS = 30000"

definition stale_observation :: "host \<Rightarrow> rat \<Rightarrow> lock_observation \<Rightarrow> bool" where
  "stale_observation h now ob =
     (case ob_owner ob of
        Some o' \<Rightarrow> processLiveness h (lo_pid o') (map_option (Pair LinuxTicks) (lo_start o')) = ProcDead
      | None \<Rightarrow> \<not> now - ob_mtime ob < LEGACY_LOCK_STALE_MS)"

definition unchanged_observation :: "lock_observation \<Rightarrow> lock_observation option \<Rightarrow> bool" where
  "unchanged_observation ob current = (case current of None \<Rightarrow> False | Some c \<Rightarrow> ob_signature c = ob_signature ob)"

datatype removal = Removed | RemovalMissing | RemovalRaises

definition recoverStaleLock :: "host \<Rightarrow> rat \<Rightarrow> lock_observation \<Rightarrow> lock_observation option \<Rightarrow> removal \<Rightarrow> bool option" where
  \<comment> \<open>whether the lock was recovered; \<open>None\<close> where it raises\<close>
  "recoverStaleLock h now ob current remove =
     (if \<not> stale_observation h now ob then Some False
      else if \<not> unchanged_observation ob current then Some False
      else case remove of Removed \<Rightarrow> Some True | RemovalMissing \<Rightarrow> Some False | RemovalRaises \<Rightarrow> None)"

definition owns_lock :: "string \<Rightarrow> lock_file option \<Rightarrow> bool" where
  \<comment> \<open>the check before a release\<close>
  "owns_lock token f = (case inspectLock f of None \<Rightarrow> False | Some ob \<Rightarrow> Option.bind (ob_owner ob) lo_token = Some token)"

section \<open>The protocol\<close>

datatype lock_phase = LkOutside | LkAcquiring | LkRefused | LkObserved lock_observation | LkStale lock_observation
  | LkRemoving | LkInside string | LkLeaving string | LkUnlinking

record lock_state =
  ls_file :: "lock_file option"
  ls_phase :: "int \<Rightarrow> lock_phase"
  ls_live :: "int set"
  ls_tokens :: "string set"
  \<comment> \<open>the tokens used so far: a \<open>randomUUID\<close> is new\<close>

definition at_phase :: "int \<Rightarrow> lock_phase \<Rightarrow> lock_state \<Rightarrow> lock_state" where
  "at_phase p x s = s\<lparr>ls_phase := (ls_phase s)(p := x)\<rparr>"

definition holding :: "lock_phase \<Rightarrow> bool" where
  \<comment> \<open>between the publication of a lock and its removal\<close>
  "holding x = (case x of LkInside _ \<Rightarrow> True | LkLeaving _ \<Rightarrow> True | LkUnlinking \<Rightarrow> True | _ \<Rightarrow> False)"

definition sees :: "(int \<Rightarrow> string option) \<Rightarrow> int set \<Rightarrow> host \<Rightarrow> bool" where
  \<comment> \<open>what the platform reports of live processes; \<open>started\<close> are their start times\<close>
  "sees started live h =
     (\<forall>p \<in> live. executing h p \<and> (linuxProcessStartTimeTicks h p = None \<or> linuxProcessStartTimeTicks h p = started p))"

inductive lock_step :: "bool \<Rightarrow> (rat \<Rightarrow> string) \<Rightarrow> (int \<Rightarrow> string option) \<Rightarrow> lock_state \<Rightarrow> lock_state \<Rightarrow> bool"
  for crash other started where
  step_begin: "p \<in> ls_live s \<Longrightarrow> ls_phase s p = LkOutside \<Longrightarrow> lock_step crash other started s (at_phase p LkAcquiring s)"
| step_publish: "p \<in> ls_live s \<Longrightarrow> ls_phase s p = LkAcquiring \<Longrightarrow> sees started (ls_live s) h \<Longrightarrow> token \<notin> ls_tokens s \<Longrightarrow>
    staged = \<lparr>lk_identity = i, lk_mtime = t, lk_raw = published_text other (registry_owner h p acquired token)\<rparr> \<Longrightarrow>
    publishLockOwner staged (ls_file s) = (f, True) \<Longrightarrow>
    lock_step crash other started s (at_phase p (LkInside token) (s\<lparr>ls_file := f, ls_tokens := insert token (ls_tokens s)\<rparr>))"
| step_refused: "p \<in> ls_live s \<Longrightarrow> ls_phase s p = LkAcquiring \<Longrightarrow> publishLockOwner staged (ls_file s) = (f, False) \<Longrightarrow>
    lock_step crash other started s (at_phase p LkRefused s)"
| step_inspect: "p \<in> ls_live s \<Longrightarrow> ls_phase s p = LkRefused \<Longrightarrow>
    lock_step crash other started s
      (at_phase p (case inspectLock (ls_file s) of None \<Rightarrow> LkAcquiring | Some ob \<Rightarrow> LkObserved ob) s)"
| step_decide: "p \<in> ls_live s \<Longrightarrow> ls_phase s p = LkObserved ob \<Longrightarrow> sees started (ls_live s) h \<Longrightarrow>
    lock_step crash other started s (at_phase p (if stale_observation h now ob then LkStale ob else LkAcquiring) s)"
| step_reinspect: "p \<in> ls_live s \<Longrightarrow> ls_phase s p = LkStale ob \<Longrightarrow>
    lock_step crash other started s
      (at_phase p (if unchanged_observation ob (inspectLock (ls_file s)) then LkRemoving else LkAcquiring) s)"
| step_remove: "p \<in> ls_live s \<Longrightarrow> ls_phase s p = LkRemoving \<Longrightarrow>
    lock_step crash other started s (at_phase p LkAcquiring (s\<lparr>ls_file := None\<rparr>))"
| step_timeout: "p \<in> ls_live s \<Longrightarrow> ls_phase s p = LkAcquiring \<Longrightarrow> lock_step crash other started s (at_phase p LkOutside s)"
| step_leave: "p \<in> ls_live s \<Longrightarrow> ls_phase s p = LkInside token \<Longrightarrow> lock_step crash other started s (at_phase p (LkLeaving token) s)"
| step_check: "p \<in> ls_live s \<Longrightarrow> ls_phase s p = LkLeaving token \<Longrightarrow>
    lock_step crash other started s (at_phase p (if owns_lock token (ls_file s) then LkUnlinking else LkOutside) s)"
| step_unlink: "p \<in> ls_live s \<Longrightarrow> ls_phase s p = LkUnlinking \<Longrightarrow>
    lock_step crash other started s (at_phase p LkOutside (s\<lparr>ls_file := None\<rparr>))"
| step_die: "p \<in> ls_live s \<Longrightarrow> crash \<or> \<not> holding (ls_phase s p) \<Longrightarrow>
    lock_step crash other started s (s\<lparr>ls_live := ls_live s - {p}\<rparr>)"

definition lock_init :: "lock_state \<Rightarrow> bool" where
  "lock_init s = (ls_file s = None \<and> (\<forall>p. ls_phase s p = LkOutside) \<and> (\<forall>p \<in> ls_live s. 0 < p \<and> p \<le> 2 ^ 53 - 1))"

section \<open>Exclusion\<close>

lemma live_owner_not_dead:
  assumes "executing h p" and "0 < p" and "p \<le> 2 ^ 53 - 1"
    and "linuxProcessStartTimeTicks h p = None \<or> linuxProcessStartTimeTicks h p = Some s" and "all_digits s"
  shows "processLiveness h p (Some (LinuxTicks, s)) \<noteq> ProcDead"
  using assms
  by (auto simp: processLiveness_def executing_def validProcessStartToken_def processStartToken_def posixProcessStartToken_def
      split: option.splits if_splits)

lemma published_parses:
  assumes "plain v" and "v \<noteq> JUndef"
  shows "json_parse (published_text other v) = Some (strip v)"
proof -
  have r: "reads other (strip v)" using clean_strip [OF assms] by (rule reads_clean)
  have "p_value (Suc (Suc (length (json_text other (strip v))))) (json_text other (strip v) @ [line_feed]) = Some (strip v, [line_feed])"
    using r unfolding reads_def by (simp add: delim_def line_feed_def is_digit_def)
  then show ?thesis unfolding strip_text by (simp add: json_parse_def published_text_def skip_ws_def line_feed_def)
qed

lemma ticks_digits: "linuxProcessStartTimeTicks h p = Some t \<Longrightarrow> all_digits t"
  by (auto simp: linuxProcessStartTimeTicks_def Let_def split: option.splits if_splits)

lemma owner_reads_back:
  assumes "0 < p" and "p \<le> 2 ^ 53 - 1"
  shows "parseLockOwner (published_text other (registry_owner h p acquired token))
    = Some \<lparr>lo_pid = p, lo_start = linuxProcessStartTimeTicks h p, lo_acquired = Some acquired, lo_token = Some token, lo_version = None\<rparr>"
proof -
  let ?v = "registry_owner h p acquired token"
  have n: "safe_number (of_int p)" "safe_integer (of_int p)"
    using assms by (simp_all add: safe_number_def safe_integer_def max_safe_integer_def is_integer_def)
  then have "plain ?v" by (simp add: registry_owner_def lockOwnerIdentity_def split: option.splits)
  then have parse: "json_parse (published_text other ?v) = Some (strip ?v)" by (rule published_parses) (simp add: registry_owner_def)
  show ?thesis
    unfolding parseLockOwner_def parse
    using assms n(2) ticks_digits [of h p]
    by (cases "linuxProcessStartTimeTicks h p")
      (simp_all add: registry_owner_def lockOwnerIdentity_def own_field_def text_field_of_def)
qed

definition written_by :: "(rat \<Rightarrow> string) \<Rightarrow> (int \<Rightarrow> string option) \<Rightarrow> int \<Rightarrow> string \<Rightarrow> string \<Rightarrow> bool" where
  "written_by other started p token raw =
     (\<exists>h acquired. raw = published_text other (registry_owner h p acquired token)
        \<and> (linuxProcessStartTimeTicks h p = None \<or> linuxProcessStartTimeTicks h p = started p))"

lemma written_owner:
  assumes "written_by other started p token raw" and "0 < p" and "p \<le> 2 ^ 53 - 1"
  obtains o' where "parseLockOwner raw = Some o'" and "lo_pid o' = p" and "lo_token o' = Some token"
    and "lo_start o' = None \<or> lo_start o' = started p" and "\<And>t. lo_start o' = Some t \<Longrightarrow> all_digits t"
  using assms owner_reads_back [OF assms(2,3)] ticks_digits unfolding written_by_def by fastforce

definition pid_ok :: "int \<Rightarrow> bool" where
  "pid_ok p = (0 < p \<and> p \<le> 2 ^ 53 - 1)"

definition observed_of :: "lock_phase \<Rightarrow> lock_observation option" where
  "observed_of x = (case x of LkObserved ob \<Rightarrow> Some ob | LkStale ob \<Rightarrow> Some ob | _ \<Rightarrow> None)"

definition raw_of :: "lock_observation \<Rightarrow> string" where
  "raw_of ob = snd (snd (ob_signature ob))"

definition known_raw :: "(rat \<Rightarrow> string) \<Rightarrow> (int \<Rightarrow> string option) \<Rightarrow> lock_state \<Rightarrow> string \<Rightarrow> bool" where
  "known_raw other started s raw = (\<exists>p token. pid_ok p \<and> written_by other started p token raw \<and> token \<in> ls_tokens s)"

definition held_token :: "lock_phase \<Rightarrow> string option" where
  "held_token x = (case x of LkInside token \<Rightarrow> Some token | LkLeaving token \<Rightarrow> Some token | _ \<Rightarrow> None)"

definition lock_inv :: "(rat \<Rightarrow> string) \<Rightarrow> (int \<Rightarrow> string option) \<Rightarrow> lock_state \<Rightarrow> bool" where
  "lock_inv other started s =
     ((\<forall>p \<in> ls_live s. pid_ok p)
      \<and> (\<forall>p. holding (ls_phase s p) \<longrightarrow> p \<in> ls_live s
             \<and> (\<exists>l token. ls_file s = Some l \<and> written_by other started p token (lk_raw l)
                  \<and> (held_token (ls_phase s p) = None \<or> held_token (ls_phase s p) = Some token)))
      \<and> (\<forall>l. ls_file s = Some l \<longrightarrow> (\<exists>p token. holding (ls_phase s p) \<and> written_by other started p token (lk_raw l) \<and> token \<in> ls_tokens s))
      \<and> (\<forall>p. ls_phase s p \<noteq> LkRemoving)
      \<and> (\<forall>p ob. observed_of (ls_phase s p) = Some ob \<longrightarrow>
             known_raw other started s (raw_of ob) \<and> ob_owner ob = parseLockOwner (raw_of ob))
      \<and> (\<forall>p ob l. ls_phase s p = LkStale ob \<longrightarrow> ls_file s = Some l \<longrightarrow> lk_raw l \<noteq> raw_of ob))"

lemma at_phase_fields [simp]: "ls_file (at_phase p x s) = ls_file s" "ls_live (at_phase p x s) = ls_live s"
  "ls_tokens (at_phase p x s) = ls_tokens s" "ls_phase (at_phase p x s) q = (if q = p then x else ls_phase s q)"
  by (simp_all add: at_phase_def)

lemma lock_invD:
  assumes "lock_inv other started s"
  shows "p \<in> ls_live s \<Longrightarrow> pid_ok p"
    and "holding (ls_phase s p) \<Longrightarrow> p \<in> ls_live s \<and> (\<exists>l token. ls_file s = Some l \<and> written_by other started p token (lk_raw l)
                  \<and> (held_token (ls_phase s p) = None \<or> held_token (ls_phase s p) = Some token))"
    and "ls_file s = Some l \<Longrightarrow> \<exists>p token. holding (ls_phase s p) \<and> written_by other started p token (lk_raw l) \<and> token \<in> ls_tokens s"
    and "ls_phase s p \<noteq> LkRemoving"
    and "observed_of (ls_phase s p) = Some ob \<Longrightarrow> known_raw other started s (raw_of ob) \<and> ob_owner ob = parseLockOwner (raw_of ob)"
    and "ls_phase s p = LkStale ob \<Longrightarrow> ls_file s = Some l \<Longrightarrow> lk_raw l \<noteq> raw_of ob"
  using assms unfolding lock_inv_def by blast+

lemma inv_phase:
  assumes "lock_inv other started s" and "p \<in> ls_live s" and "holding x = holding (ls_phase s p)"
    and "held_token x = None \<or> held_token x = held_token (ls_phase s p)" and "x \<noteq> LkRemoving"
    and "\<And>ob. observed_of x = Some ob \<Longrightarrow> known_raw other started s (raw_of ob) \<and> ob_owner ob = parseLockOwner (raw_of ob)"
    and "\<And>ob l. x = LkStale ob \<Longrightarrow> ls_file s = Some l \<Longrightarrow> lk_raw l \<noteq> raw_of ob"
  shows "lock_inv other started (at_phase p x s)"
proof -
  note inv = lock_invD [OF assms(1)]
  have k: "known_raw other started (at_phase p x s) raw = known_raw other started s raw" for raw by (simp add: known_raw_def)
  have "q \<in> ls_live s \<and> (\<exists>l token. ls_file s = Some l \<and> written_by other started q token (lk_raw l)
      \<and> (held_token (ls_phase (at_phase p x s) q) = None \<or> held_token (ls_phase (at_phase p x s) q) = Some token))"
    if "holding (ls_phase (at_phase p x s) q)" for q
    using that inv(2) [of q] assms(3,4) by (cases "q = p") auto
  moreover have "\<exists>q token. holding (ls_phase (at_phase p x s) q) \<and> written_by other started q token (lk_raw l) \<and> token \<in> ls_tokens s"
    if lk: "ls_file s = Some l" for l
  proof -
    obtain q token where q: "holding (ls_phase s q)" "written_by other started q token (lk_raw l)" "token \<in> ls_tokens s"
      using inv(3) [OF lk] by blast
    then have "holding (ls_phase (at_phase p x s) q)" using assms(3) by (cases "q = p") simp_all
    then show ?thesis using q(2,3) by blast
  qed
  moreover have "known_raw other started s (raw_of ob) \<and> ob_owner ob = parseLockOwner (raw_of ob)"
    if "observed_of (ls_phase (at_phase p x s) q) = Some ob" for q ob
    using that inv(5) [of q ob] assms(6) [of ob] by (cases "q = p") simp_all
  moreover have "lk_raw l \<noteq> raw_of ob" if "ls_phase (at_phase p x s) q = LkStale ob" "ls_file s = Some l" for q ob l
    using that inv(6) [of q ob l] assms(7) [of ob l] by (cases "q = p") simp_all
  moreover have "ls_phase (at_phase p x s) q \<noteq> LkRemoving" for q using inv(4) [of q] assms(5) by simp
  ultimately show ?thesis
    unfolding lock_inv_def k at_phase_fields(1-3) using inv(1) by blast
qed

lemma written_unique:
  assumes "written_by other started p token raw" and "written_by other started q token' raw" and "pid_ok p" and "pid_ok q"
  shows "p = q \<and> token = token'"
proof -
  obtain a where a: "parseLockOwner raw = Some a" "lo_pid a = p" "lo_token a = Some token"
    using assms(1,3) by (auto simp: pid_ok_def elim: written_owner)
  obtain b where b: "parseLockOwner raw = Some b" "lo_pid b = q" "lo_token b = Some token'"
    using assms(2,4) by (auto simp: pid_ok_def elim: written_owner)
  show ?thesis using a b by simp
qed

lemma inv_publish:
  assumes "lock_inv other started s" and "p \<in> ls_live s" and "token \<notin> ls_tokens s" and "ls_file s = None"
    and "written_by other started p token (lk_raw l)" and "\<not> holding (ls_phase s p)"
  shows "lock_inv other started (at_phase p (LkInside token) (s\<lparr>ls_file := Some l, ls_tokens := insert token (ls_tokens s)\<rparr>))"
proof -
  note inv = lock_invD [OF assms(1)]
  have none: "\<not> holding (ls_phase s q)" for q using inv(2) [of q] assms(4) by auto
  have "lk_raw l \<noteq> raw" if known: "known_raw other started s raw" for raw
  proof
    assume e: "lk_raw l = raw"
    obtain q token' where "pid_ok q" "written_by other started q token' raw" "token' \<in> ls_tokens s"
      using known by (auto simp: known_raw_def)
    then show False using written_unique [OF assms(5), of q token'] inv(1) [OF assms(2)] assms(3) e by auto
  qed
  moreover have "known_raw other started s raw \<Longrightarrow>
      known_raw other started (at_phase p (LkInside token) (s\<lparr>ls_file := Some l, ls_tokens := insert token (ls_tokens s)\<rparr>)) raw" for raw
    by (auto simp: known_raw_def)
  moreover have "known_raw other started s (raw_of ob)" if "ls_phase s q = LkStale ob" for q ob
    using inv(5) [of q ob] that by (simp add: observed_of_def)
  ultimately show ?thesis
    using assms(2,5) none inv(1,4,5)
    unfolding lock_inv_def by (auto simp: holding_def held_token_def observed_of_def split: if_splits)
qed

lemma inv_unlink:
  assumes "lock_inv other started s" and "p \<in> ls_live s" and "ls_phase s p = LkUnlinking"
  shows "lock_inv other started (at_phase p LkOutside (s\<lparr>ls_file := None\<rparr>))"
proof -
  note inv = lock_invD [OF assms(1)]
  have only: "q = p" if h: "holding (ls_phase s q)" for q
  proof -
    have hp: "holding (ls_phase s p)" using assms(3) by (simp add: holding_def)
    obtain l a b where "ls_file s = Some l" "written_by other started p a (lk_raw l)" "written_by other started q b (lk_raw l)"
      using inv(2) [OF hp] inv(2) [OF h] by auto
    then show ?thesis using written_unique inv(1) inv(2) [OF h] assms(2) by metis
  qed
  have k: "known_raw other started (at_phase p LkOutside (s\<lparr>ls_file := None\<rparr>)) raw = known_raw other started s raw" for raw
    by (simp add: known_raw_def)
  show ?thesis
    using only inv(1,4,5) unfolding lock_inv_def k by (auto simp: holding_def observed_of_def split: if_splits)
qed

lemma inv_die:
  assumes "lock_inv other started s" and "\<not> holding (ls_phase s p)"
  shows "lock_inv other started (s\<lparr>ls_live := ls_live s - {p}\<rparr>)"
proof -
  have k: "known_raw other started (s\<lparr>ls_live := ls_live s - {p}\<rparr>) raw = known_raw other started s raw" for raw
    by (simp add: known_raw_def)
  show ?thesis using assms lock_invD [OF assms(1)] unfolding lock_inv_def k by auto
qed

lemma live_observation_not_stale:
  assumes "lock_inv other started s" and "sees started (ls_live s) h" and "ls_file s = Some l"
    and "ob_owner ob = parseLockOwner (lk_raw l)"
  shows "\<not> stale_observation h now ob"
proof -
  note inv = lock_invD [OF assms(1)]
  obtain q token where q: "holding (ls_phase s q)" "written_by other started q token (lk_raw l)" using inv(3) [OF assms(3)] by blast
  then have live: "q \<in> ls_live s" "pid_ok q" using inv(1,2) by blast+
  then obtain o' where o': "parseLockOwner (lk_raw l) = Some o'" "lo_pid o' = q" "lo_start o' = None \<or> lo_start o' = started q"
      "\<And>t. lo_start o' = Some t \<Longrightarrow> all_digits t"
    using q(2) by (auto simp: pid_ok_def elim: written_owner)
  have ex: "executing h q" "linuxProcessStartTimeTicks h q = None \<or> linuxProcessStartTimeTicks h q = started q"
    using assms(2) live(1) by (auto simp: sees_def)
  have "processLiveness h q (map_option (Pair LinuxTicks) (lo_start o')) \<noteq> ProcDead"
  proof (cases "lo_start o'")
    case None
    then show ?thesis using executing_not_dead ex(1) live(2) by (simp add: pid_ok_def)
  next
    case (Some t)
    then have st: "map_option (Pair LinuxTicks) (lo_start o') = Some (LinuxTicks, t)" "started q = Some t" using o'(3) by auto
    show ?thesis unfolding st(1)
      using ex live(2) st(2) o'(4) [OF Some] by (intro live_owner_not_dead) (auto simp: pid_ok_def)
  qed
  then show ?thesis using assms(4) o'(1,2) by (simp add: stale_observation_def)
qed

lemma inspect_raw: "inspectLock f = Some ob \<Longrightarrow> \<exists>l. f = Some l \<and> raw_of ob = lk_raw l \<and> ob_owner ob = parseLockOwner (lk_raw l)"
  by (auto simp: inspectLock_def raw_of_def)

lemma lock_inv_step:
  assumes "lock_inv other started s" and "lock_step False other started s t"
  shows "lock_inv other started t"
  using assms(2)
proof cases
  case (step_publish p h token staged i tm acquired f)
  have "ls_file s = None" "f = Some staged" using step_publish by (auto simp: publishLockOwner_def split: option.splits)
  moreover have "written_by other started p token (lk_raw staged)"
    using step_publish by (auto simp: written_by_def sees_def)
  ultimately show ?thesis using inv_publish [OF assms(1)] step_publish by (simp add: holding_def)
next
  case (step_inspect p)
  show ?thesis unfolding step_inspect(1)
  proof (rule inv_phase [OF assms(1) step_inspect(2)])
    fix ob
    assume "observed_of (case inspectLock (ls_file s) of None \<Rightarrow> LkAcquiring | Some x \<Rightarrow> LkObserved x) = Some ob"
    then have "inspectLock (ls_file s) = Some ob" by (auto simp: observed_of_def split: option.splits)
    then obtain l where l: "ls_file s = Some l" "raw_of ob = lk_raw l" "ob_owner ob = parseLockOwner (lk_raw l)"
      by (auto dest: inspect_raw)
    then show "known_raw other started s (raw_of ob) \<and> ob_owner ob = parseLockOwner (raw_of ob)"
      using lock_invD(3) [OF assms(1) l(1)] lock_invD(1,2) [OF assms(1)] unfolding known_raw_def by metis
  qed (use step_inspect in \<open>auto simp: holding_def held_token_def split: option.splits\<close>)
next
  case (step_decide p ob h now)
  show ?thesis unfolding step_decide(1)
  proof (rule inv_phase [OF assms(1) step_decide(2)])
    fix ob'
    assume "observed_of (if stale_observation h now ob then LkStale ob else LkAcquiring) = Some ob'"
    then show "known_raw other started s (raw_of ob') \<and> ob_owner ob' = parseLockOwner (raw_of ob')"
      using lock_invD(5) [OF assms(1), of p ob] step_decide(3) by (auto simp: observed_of_def split: if_splits)
  next
    fix ob' l
    assume "(if stale_observation h now ob then LkStale ob else LkAcquiring) = LkStale ob'" and l: "ls_file s = Some l"
    then have "stale_observation h now ob" "ob' = ob" by (auto split: if_splits)
    then show "lk_raw l \<noteq> raw_of ob'"
      using live_observation_not_stale [OF assms(1) step_decide(4) l, of ob now] lock_invD(5) [OF assms(1), of p ob] step_decide(3)
      by (auto simp: observed_of_def)
  qed (use step_decide in \<open>auto simp: holding_def held_token_def\<close>)
next
  case (step_reinspect p ob)
  have "\<not> unchanged_observation ob (inspectLock (ls_file s))"
    using lock_invD(6) [OF assms(1) step_reinspect(3)]
    by (cases "ob_signature ob") (auto simp: unchanged_observation_def inspectLock_def raw_of_def split: option.splits)
  then show ?thesis unfolding step_reinspect(1)
    using step_reinspect by (intro inv_phase [OF assms(1)]) (auto simp: holding_def held_token_def observed_of_def)
next
  case (step_check p token)
  have h: "holding (ls_phase s p)" using step_check by (simp add: holding_def)
  obtain l where l: "ls_file s = Some l" "written_by other started p token (lk_raw l)"
    using lock_invD(2) [OF assms(1) h] step_check by (auto simp: held_token_def)
  have "pid_ok p" using lock_invD(1) [OF assms(1)] step_check(2) .
  then obtain o' where "parseLockOwner (lk_raw l) = Some o'" "lo_token o' = Some token"
    using l(2) by (auto simp: pid_ok_def elim: written_owner)
  then have "owns_lock token (ls_file s)" using l(1) by (simp add: owns_lock_def inspectLock_def)
  then show ?thesis unfolding step_check(1)
    using step_check by (intro inv_phase [OF assms(1)]) (auto simp: holding_def held_token_def observed_of_def)
next
  case (step_remove p)
  then show ?thesis using lock_invD(4) [OF assms(1), of p] by simp
next
  case (step_unlink p)
  then show ?thesis using inv_unlink [OF assms(1)] by simp
next
  case (step_die p)
  then show ?thesis using inv_die [OF assms(1)] by simp
qed (auto intro!: inv_phase [OF assms(1)] simp: holding_def held_token_def observed_of_def)

interpretation locks: machine lock_init "lock_step False other started" "lock_inv other started" for other started
proof
  fix s
  assume "lock_init s"
  then show "lock_inv other started s" by (auto simp: lock_init_def lock_inv_def holding_def observed_of_def pid_ok_def)
next
  fix s t
  assume "lock_inv other started s" and "lock_step False other started s t"
  then show "lock_inv other started t" by (rule lock_inv_step)
qed

text \<open>C38. The lock excludes: as long as no process dies between the publication of its lock and the removal,
  at most one process is there, whatever the waiters observe, decide and remove; it is alive, and the
  lock file names it.\<close>

theorem lock_exclusive:
  assumes "reachable lock_init (lock_step False other started) s" and "holding (ls_phase s p)" and "holding (ls_phase s q)"
  shows "p = q \<and> p \<in> ls_live s \<and> (\<exists>l o'. ls_file s = Some l \<and> parseLockOwner (lk_raw l) = Some o' \<and> lo_pid o' = p)"
proof -
  note inv = lock_invD [OF locks.reachable_inv [OF assms(1)]]
  obtain l a b where l: "ls_file s = Some l" "written_by other started p a (lk_raw l)" "written_by other started q b (lk_raw l)"
    using inv(2) [OF assms(2)] inv(2) [OF assms(3)] by auto
  have ok: "p \<in> ls_live s" "pid_ok p" "pid_ok q" using inv(1) inv(2) [OF assms(2)] inv(2) [OF assms(3)] by blast+
  then have "p = q" using written_unique [OF l(2,3)] by blast
  moreover obtain o' where "parseLockOwner (lk_raw l) = Some o'" "lo_pid o' = p"
    using l(2) ok(2) by (auto simp: pid_ok_def elim: written_owner)
  ultimately show ?thesis using l(1) ok(1) by blast
qed

section \<open>A stale lock\<close>

text \<open>Three processes on a Linux host: the first dies inside, the others wait.\<close>

definition all_started :: "int \<Rightarrow> string option" where
  "all_started = (\<lambda>_. Some ''42'')"

definition host_without :: "int set \<Rightarrow> host" where
  "host_without dead = Ownership.example_host ''42''\<lparr>h_signal := (\<lambda>p. if p \<in> dead then SigNoProcess else SigOk)\<rparr>"

definition three_processes :: lock_state where
  "three_processes = \<lparr>ls_file = None, ls_phase = (\<lambda>_. LkOutside), ls_live = {1, 2, 3}, ls_tokens = {}\<rparr>"

definition lock_of :: "(rat \<Rightarrow> string) \<Rightarrow> int \<Rightarrow> string \<Rightarrow> lock_file" where
  "lock_of other p token = \<lparr>lk_identity = (1, 1), lk_mtime = 0, lk_raw = published_text other (registry_owner (host_without {}) p [] token)\<rparr>"

lemma ticks_42: "linuxProcessStartTimeTicks (host_without dead) p = Some ''42''"
proof -
  have "linuxProcessStartTimeTicks (Ownership.example_host ''42'') 7 = Some ''42''" by code_simp
  then show ?thesis by (simp add: linuxProcessStartTimeTicks_def host_without_def Ownership.example_host_def)
qed

lemma sees_host: "live \<inter> dead = {} \<Longrightarrow> sees all_started live (host_without dead)"
proof -
  have "stat_state ''7 (node) S 1 1 1 1 1 1 1 1 1 1 1 1 1 1 1 1 1 1 42'' \<notin> {''Z'', ''X''}" by code_simp
  then have ex: "executing (host_without dead) p" if "p \<notin> dead" for p dead
    using that by (simp add: executing_def host_without_def Ownership.example_host_def)
  assume "live \<inter> dead = {}"
  then have "p \<notin> dead" if "p \<in> live" for p using that by blast
  then show ?thesis using ex by (simp add: sees_def ticks_42 all_started_def)
qed

definition seen_lock :: "lock_file \<Rightarrow> lock_observation" where
  "seen_lock l = \<lparr>ob_owner = parseLockOwner (lk_raw l), ob_mtime = lk_mtime l, ob_signature = (lk_identity l, lk_mtime l, lk_raw l)\<rparr>"

lemma at_phase_again [simp]: "at_phase p x (at_phase p y s) = at_phase p x s"
  by (simp add: at_phase_def)

lemma phase_of_update [simp]: "at_phase p x (at_phase p y s\<lparr>ls_file := f, ls_tokens := ts\<rparr>) = at_phase p x (s\<lparr>ls_file := f, ls_tokens := ts\<rparr>)"
  "at_phase p x (at_phase p y s\<lparr>ls_file := f\<rparr>) = at_phase p x (s\<lparr>ls_file := f\<rparr>)"
  by (simp_all add: at_phase_def)

abbreviation may_step :: "(rat \<Rightarrow> string) \<Rightarrow> lock_state \<Rightarrow> lock_state \<Rightarrow> bool" where
  "may_step other \<equiv> (lock_step True other all_started)\<^sup>*\<^sup>*"

lemma published_step:
  assumes "p \<in> ls_live s" and "ls_phase s p = LkAcquiring" and "ls_file s = None" and "token \<notin> ls_tokens s"
  shows "lock_step crash other all_started s
    (at_phase p (LkInside token) (s\<lparr>ls_file := Some (lock_of other p token), ls_tokens := insert token (ls_tokens s)\<rparr>))"
proof (rule step_publish [OF assms(1,2) _ assms(4)])
  show "sees all_started (ls_live s) (host_without {})" by (rule sees_host) simp
  show "publishLockOwner (lock_of other p token) (ls_file s) = (Some (lock_of other p token), True)"
    using assms(3) by (simp add: publishLockOwner_def)
qed (simp add: lock_of_def)

lemma waiter_observes:
  assumes "p \<in> ls_live s" and "ls_phase s p = LkOutside" and "ls_file s = Some l"
  shows "may_step other s (at_phase p (LkObserved (seen_lock l)) s)"
proof -
  have "may_step other s (at_phase p LkAcquiring s)" using assms(1,2) by (intro r_into_rtranclp step_begin)
  also have "may_step other (at_phase p LkAcquiring s) (at_phase p LkRefused s)"
    using lock_step.step_refused [of p "at_phase p LkAcquiring s" l "Some l" True other all_started] assms(1,3)
    by (simp add: publishLockOwner_def r_into_rtranclp)
  also have "may_step other (at_phase p LkRefused s)
      (at_phase p (case inspectLock (ls_file (at_phase p LkRefused s)) of None \<Rightarrow> LkAcquiring | Some ob \<Rightarrow> LkObserved ob) (at_phase p LkRefused s))"
    using assms(1) by (intro r_into_rtranclp step_inspect) simp_all
  finally show ?thesis using assms(3) by (simp add: inspectLock_def seen_lock_def)
qed

lemma waiter_recovers:
  assumes "p \<in> ls_live s" and "ls_phase s p = LkObserved (seen_lock l)" and "ls_file s = Some l"
    and "sees all_started (ls_live s) h" and "stale_observation h 0 (seen_lock l)"
  shows "may_step other s (at_phase p LkRemoving s)"
proof -
  have "may_step other s (at_phase p (if stale_observation h 0 (seen_lock l) then LkStale (seen_lock l) else LkAcquiring) s)"
    using assms(1,2,4) by (intro r_into_rtranclp step_decide)
  then have "may_step other s (at_phase p (LkStale (seen_lock l)) s)" using assms(5) by simp
  also have "may_step other (at_phase p (LkStale (seen_lock l)) s)
      (at_phase p (if unchanged_observation (seen_lock l) (inspectLock (ls_file (at_phase p (LkStale (seen_lock l)) s))) then LkRemoving else LkAcquiring)
        (at_phase p (LkStale (seen_lock l)) s))"
    using assms(1) by (intro r_into_rtranclp step_reinspect) simp_all
  finally show ?thesis using assms(3) by (simp add: inspectLock_def seen_lock_def unchanged_observation_def)
qed

lemma waiter_takes:
  assumes "p \<in> ls_live s" and "ls_phase s p = LkRemoving" and "token \<notin> ls_tokens s"
  shows "may_step other s (at_phase p (LkInside token) (s\<lparr>ls_file := Some (lock_of other p token), ls_tokens := insert token (ls_tokens s)\<rparr>))"
proof -
  let ?s = "at_phase p LkAcquiring (s\<lparr>ls_file := None\<rparr>)"
  have "may_step other s ?s" using assms(1,2) by (intro r_into_rtranclp step_remove)
  also have "may_step other ?s
      (at_phase p (LkInside token) (?s\<lparr>ls_file := Some (lock_of other p token), ls_tokens := insert token (ls_tokens ?s)\<rparr>))"
    using assms(1,3) by (intro r_into_rtranclp published_step) simp_all
  finally show ?thesis by simp
qed

lemma reachable_steps: "reachable init step s \<Longrightarrow> step\<^sup>*\<^sup>* s t \<Longrightarrow> reachable init step t"
  by (rotate_tac, induction rule: rtranclp_induct) (auto intro: reach_step)

definition first_inside :: "(rat \<Rightarrow> string) \<Rightarrow> lock_state" where
  "first_inside other = at_phase 1 (LkInside ''a'') (three_processes\<lparr>ls_file := Some (lock_of other 1 ''a''), ls_tokens := {''a''}\<rparr>)"

lemma first_reachable: "reachable lock_init (lock_step crash other all_started) (first_inside other)"
proof -
  have "reachable lock_init (lock_step crash other all_started) three_processes"
    by (rule reach_init) (simp add: lock_init_def three_processes_def)
  then have "reachable lock_init (lock_step crash other all_started) (at_phase 1 LkAcquiring three_processes)"
    by (rule reach_step) (auto intro!: step_begin simp: three_processes_def)
  then show ?thesis
  proof (rule reach_step)
    show "lock_step crash other all_started (at_phase 1 LkAcquiring three_processes) (first_inside other)"
      using published_step [of 1 "at_phase 1 LkAcquiring three_processes" "''a''" crash other]
      by (simp add: first_inside_def three_processes_def)
  qed
qed

theorem lock_exclusive_witness:
  "\<exists>l o'. ls_file (first_inside (\<lambda>_. [])) = Some l \<and> parseLockOwner (lk_raw l) = Some o' \<and> lo_pid o' = 1"
proof -
  have "holding (ls_phase (first_inside (\<lambda>_. [])) 1)" by (simp add: first_inside_def holding_def)
  then show ?thesis using lock_exclusive [OF first_reachable, of "\<lambda>_. []" 1 1] by blast
qed

text \<open>C39. Recovery of a stale lock is not exclusive: two waiters that have both inspected the lock of a dead owner
  both remove by path.  The second removes the lock the first has just published, and both are inside.\<close>

theorem stale_lock_granted_twice:
  "\<exists>s. reachable lock_init (lock_step True other all_started) s \<and> {2, 3} \<subseteq> ls_live s
     \<and> ls_phase s 2 = LkInside ''b'' \<and> ls_phase s 3 = LkInside ''c''"
proof -
  let ?step = "lock_step True other all_started" and ?l = "lock_of other 1 ''a''" and ?h = "host_without {1}"
  have step: "reachable lock_init ?step s \<Longrightarrow> may_step other s t \<Longrightarrow> reachable lock_init ?step t" for s t
    by (rule reachable_steps)
  have owner: "parseLockOwner (lk_raw ?l) = Some \<lparr>lo_pid = 1, lo_start = Some ''42'', lo_acquired = Some [], lo_token = Some ''a'', lo_version = None\<rparr>"
    using owner_reads_back [of 1 other "host_without {}" "[]" "''a''"] by (simp add: lock_of_def ticks_42)
  have sig: "h_signal ?h 1 = SigNoProcess" by (simp add: host_without_def)
  have valid: "validProcessStartToken (LinuxTicks, ''42'')" by code_simp
  have gone: "processLiveness ?h 1 (Some (LinuxTicks, ''42'')) = ProcDead"
    using sig valid by (simp add: processLiveness_def)
  have dead: "stale_observation ?h 0 (seen_lock ?l)"
    unfolding stale_observation_def seen_lock_def
    by (simp add: owner gone)
  define s1 where "s1 = first_inside other"
  define s2 where "s2 = at_phase 3 (LkObserved (seen_lock ?l)) (at_phase 2 (LkObserved (seen_lock ?l)) s1)"
  define s3 where "s3 = s2\<lparr>ls_live := {2, 3}\<rparr>"
  define s4 where "s4 = at_phase 3 LkRemoving (at_phase 2 LkRemoving s3)"
  define s5 where "s5 = at_phase 2 (LkInside ''b'') (s4\<lparr>ls_file := Some (lock_of other 2 ''b''), ls_tokens := {''b'', ''a''}\<rparr>)"
  define s6 where "s6 = at_phase 3 (LkInside ''c'') (s5\<lparr>ls_file := Some (lock_of other 3 ''c''), ls_tokens := {''c'', ''b'', ''a''}\<rparr>)"
  have r1: "reachable lock_init ?step s1" unfolding s1_def by (rule first_reachable)
  have "reachable lock_init ?step (at_phase 2 (LkObserved (seen_lock ?l)) s1)"
    by (rule step [OF r1 waiter_observes]) (simp_all add: s1_def first_inside_def three_processes_def)
  then have "reachable lock_init ?step s2" unfolding s2_def
    by (rule step [OF _ waiter_observes]) (simp_all add: s1_def first_inside_def three_processes_def)
  then have "reachable lock_init ?step s3"
  proof (rule reach_step)
    have "ls_live s2 - {1} = {2, 3}" by (auto simp: s2_def s1_def first_inside_def three_processes_def)
    moreover have "?step s2 (s2\<lparr>ls_live := ls_live s2 - {1}\<rparr>)" by (rule step_die) (simp_all add: s2_def s1_def first_inside_def three_processes_def)
    ultimately show "?step s2 s3" by (simp add: s3_def)
  qed
  then have "reachable lock_init ?step (at_phase 2 LkRemoving s3)"
    by (rule step [OF _ waiter_recovers [where h = ?h and l = ?l, OF _ _ _ _ dead]])
       (simp_all add: s3_def s2_def s1_def first_inside_def three_processes_def sees_host)
  then have "reachable lock_init ?step s4" unfolding s4_def
    by (rule step [OF _ waiter_recovers [where h = ?h and l = ?l, OF _ _ _ _ dead]])
       (simp_all add: s3_def s2_def s1_def first_inside_def three_processes_def sees_host)
  then have "reachable lock_init ?step s5"
  proof (rule step)
    show "may_step other s4 s5"
      using waiter_takes [of 2 s4 "''b''" other] by (simp add: s5_def s4_def s3_def s2_def s1_def first_inside_def three_processes_def)
  qed
  then have "reachable lock_init ?step s6"
  proof (rule step)
    show "may_step other s5 s6"
      using waiter_takes [of 3 s5 "''c''" other] by (simp add: s6_def s5_def s4_def s3_def s2_def s1_def first_inside_def three_processes_def)
  qed
  moreover have "{2, 3} \<subseteq> ls_live s6 \<and> ls_phase s6 2 = LkInside ''b'' \<and> ls_phase s6 3 = LkInside ''c''"
    by (simp add: s6_def s5_def s4_def s3_def)
  ultimately show ?thesis by blast
qed

end
