(* ===== verification/Engine_Paths.thy ===== *)
theory Engine_Paths
  imports Scope Ownership
begin

text \<open>
  Physical paths and the names the engine keeps for itself inside a run directory:
  \<open>prospectivePhysicalPath\<close> and \<open>isEngineOwnedRunPath\<close> of \<open>src/src/engine-owned-carriers.ts\<close>,
  \<open>artifactRootContains\<close> and the literal paths of \<open>src/src/artifact-location.ts\<close>.

  A resolved path is the list of its components below the root.  The file system is observed through
  \<open>lstat\<close> and \<open>readlink\<close>, a function from such lists to an entry; an error other than a missing
  entry raises.  The registered databases outside the run directory are not modelled.
\<close>

section \<open>Symbolic links\<close>

datatype fs_entry = FsLink string | FsDirectory | FsOther

datatype path_error = StatRaises | SymlinkLoop | NotDirectory "string list"

type_synonym fs_view = "string list \<Rightarrow> unit + fs_entry option"

definition link_parts :: "string \<Rightarrow> string list" where
  "link_parts l = split_on (CHR ''/'') (if isAbsolute l then drop 1 l else l)"

function walk_path :: "fs_view \<Rightarrow> nat \<Rightarrow> string list \<Rightarrow> string list \<Rightarrow> path_error + string list" where
  "walk_path fs links cursor [] = Inr cursor"
| "walk_path fs links cursor (component # pending) =
     (if component = [] \<or> component = ''.'' then walk_path fs links cursor pending
      else if component = ''..'' then walk_path fs links (butlast cursor) pending
      else case fs (cursor @ [component]) of
        Inl _ \<Rightarrow> Inl StatRaises
      | Inr (Some (FsLink l)) \<Rightarrow>
          if links + 1 > 40 then Inl SymlinkLoop
          else walk_path fs (links + 1) (if isAbsolute l then [] else cursor) (link_parts l @ pending)
      | Inr entry \<Rightarrow>
          if entry = Some FsOther \<and> pending \<noteq> [] then Inl (NotDirectory (cursor @ [component]))
          else walk_path fs links (cursor @ [component]) pending)"
  by pat_completeness auto

termination
  by (relation "measures [\<lambda>(_, links, _, _). 41 - links, \<lambda>(_, _, _, pending). length pending]") auto

definition prospectivePhysicalPath :: "fs_view \<Rightarrow> string \<Rightarrow> path_error + string list" where
  \<comment> \<open>of an absolute path\<close>
  "prospectivePhysicalPath fs path = walk_path fs 0 [] (split_on (CHR ''/'') (drop 1 path))"

definition path_text :: "string list \<Rightarrow> string" where
  "path_text p = CHR ''/'' # join_with ''/'' p"

definition artifactRootContains :: "string list \<Rightarrow> string list \<Rightarrow> bool" where
  \<comment> \<open>\<open>relative\<close> of two resolved paths does not go up; a name that begins with two dots and a backslash counts as going up\<close>
  "artifactRootContains base path =
     (prefix base path \<and> \<not> starts_with (''..'' @ [CHR 0x5C]) (join_with ''/'' (drop (length base) path)))"

section \<open>Names of the engine\<close>

record path_stage =
  ps_id :: string
  ps_gate :: bool
  ps_dynamic :: bool

definition around :: "string \<Rightarrow> string \<Rightarrow> string \<Rightarrow> bool" where
  \<comment> \<open>a prefix and a suffix with at least one character between them\<close>
  "around p q s = (starts_with p s \<and> ends_with q s \<and> length p + length q < length s)"

definition within_ends :: "string \<Rightarrow> string \<Rightarrow> string \<Rightarrow> string" where
  "within_ends p q s = take (length s - length p - length q) (drop (length p) s)"

definition engine_names :: "string list" where
  "engine_names =
     [''.run-reservation.json'', ''.run-state.lock'',
      ''run.json'', ''events.jsonl'', ''workflow.yaml'', ''task_brief.md'', ''brief_criteria.json'', ''validation_baseline.json'',
      ''dispatch_admission.json'', ''plan_history'', ''audit_findings'', ''signals'', ''stage_watchdog.json'',
      ''stage_evidence'', ''gate_reevaluation'', ''dispatch_rejections'', ''plan_retry'', ''declared_outputs'',
      ''terminal_snapshots'', ''guidance_history'', ''supervisor_rejections'', ''discarded'', ''approvals'', ''.rollback-preimages'',
      ''iteration_log.md'', ''run_event_status.json'', ''supervisor_guidance.md'', ''scheduler.pid'', ''scheduler.identity.json'',
      ''scheduler-heartbeat.json'', ''scheduler-loop-stall.json'', ''.reality-gate.json'', ''.reality-gate.failures.md'',
      ''approvals.jsonl'', ''user_input.md'', ''blockage_ledger.json'', ''repeated_blockage.json'', ''plan_retry_state.json'',
      ''gate_contract.json'', ''summary.md'', ''verdict.json'',
      ''research_round_input_error.json'', ''research_round_contract_repair.json'', ''research_integrity_rejections.json'',
      ''research_terminal_ready.json'', ''research_continue.json'', ''research_gate_exhausted.json'', ''goal_met.json'',
      ''repair_diff.json'', ''post_terminate_hook.log'']"

definition stage_record_names :: "string list" where
  "stage_record_names =
     [''status.json'', ''output_schema.json'', ''invocations'', ''attempt_generation.json'', ''command_activity.json'', ''session.json'',
      ''artifact_contract.json'', ''guidance_consumed.md'', ''guidance.md'', ''live.log'']"

definition lower_hex :: "char \<Rightarrow> bool" where
  "lower_hex c = (c \<in> set ''0123456789abcdef'')"

definition live_attempt_log :: "string \<Rightarrow> bool" where
  \<comment> \<open>\<open>live_attempt_<digits>_<24 hexadecimal digits>.log\<close>\<close>
  "live_attempt_log s =
     (around ''live_attempt_'' ''.log'' s
      \<and> (let mid = within_ends ''live_attempt_'' ''.log'' s; k = length mid - 25
         in 25 < length mid \<and> all_digits (take k mid) \<and> mid ! k = CHR ''_'' \<and> list_all lower_hex (drop (k + 1) mid)))"

definition stage_record :: "string \<Rightarrow> bool" where
  "stage_record n =
     (n \<in> set stage_record_names \<or> around ''plan_revision_decision_'' ''.json'' n
      \<or> around ''constraint_audit_attempt_'' ''.json'' n \<and> all_digits (within_ends ''constraint_audit_attempt_'' ''.json'' n)
      \<or> live_attempt_log n)"

definition isEngineOwnedRunPath :: "string \<Rightarrow> path_stage \<Rightarrow> bool" where
  "isEngineOwnedRunPath path stage =
     (let parts = split_on (CHR ''/'') path; first = hd parts in
      path = ''scratch'' \<or> path = ''scratch/.tmpdir'' \<or> path = []
      \<or> first = ''run-history'' \<or> starts_with ''run-history.'' path
      \<or> first \<in> set engine_names \<or> around ''validation_delta_'' ''.json'' first
      \<or> first = ''stages'' \<and>
          (length parts = 1 \<or> length parts = 2 \<and> parts ! 1 \<noteq> []
           \<or> 3 \<le> length parts \<and> parts ! 1 \<noteq> [] \<and> stage_record (parts ! 2))
      \<or> first = ''dispatch.yaml'' \<and> \<not> (ps_dynamic stage \<and> path = ''dispatch.yaml'')
      \<or> around ''verdict_'' ''.json'' first \<and> \<not> (ps_gate stage \<and> path = ''verdict_'' @ ps_id stage @ ''.json'')
      \<or> around ''handoff_'' ''.md'' first \<and> path \<noteq> ''handoff_'' @ ps_id stage @ ''.md'')"

definition name_char :: "char \<Rightarrow> bool" where
  "name_char c = (c \<in> set ''abcdefghijklmnopqrstuvwxyz0123456789_'')"

definition stage_id_text :: "string \<Rightarrow> bool" where
  "stage_id_text s = (s \<noteq> [] \<and> hd s \<in> set ''abcdefghijklmnopqrstuvwxyz'' \<and> length s \<le> 64 \<and> list_all name_char s)"

definition literalRelativePath :: "string \<Rightarrow> bool" where
  \<comment> \<open>\<open>ArtifactPathSchema\<close>\<close>
  "literalRelativePath p =
     (p \<noteq> [] \<and> \<not> isAbsolute p
      \<and> list_all (\<lambda>c. c \<notin> {[], ''.'', ''..''} \<and> CHR 0x5C \<notin> set c \<and> CHR 0x00 \<notin> set c) (split_on (CHR ''/'') p))"

section \<open>Resolution\<close>

definition settled_path :: "fs_view \<Rightarrow> bool \<Rightarrow> string list \<Rightarrow> bool" where
  \<comment> \<open>no component is a link, and none but the last, where it may, is anything but a directory or missing\<close>
  "settled_path fs leaf p =
     (\<forall>k < length p. p ! k \<notin> {[], ''.'', ''..''} \<and> CHR ''/'' \<notin> set (p ! k)
        \<and> (fs (take (Suc k) p) \<in> {Inr None, Inr (Some FsDirectory)} \<or> leaf \<and> Suc k = length p \<and> fs p = Inr (Some FsOther)))"

lemma settled_Nil [simp]: "settled_path fs leaf []"
  by (simp add: settled_path_def)

lemma settled_part:
  assumes "settled_path fs leaf p" and "k < length p"
  shows "p ! k \<notin> {[], ''.'', ''..''}" and "CHR ''/'' \<notin> set (p ! k)"
    and "fs (take (Suc k) p) \<in> {Inr None, Inr (Some FsDirectory)} \<or> leaf \<and> Suc k = length p \<and> fs p = Inr (Some FsOther)"
  using assms unfolding settled_path_def by blast+

lemma settled_butlast: "settled_path fs leaf p \<Longrightarrow> settled_path fs False (butlast p)"
proof -
  assume s: "settled_path fs leaf p"
  have "butlast p ! k \<notin> {[], ''.'', ''..''} \<and> CHR ''/'' \<notin> set (butlast p ! k) \<and> fs (take (Suc k) (butlast p)) \<in> {Inr None, Inr (Some FsDirectory)}"
    if k: "k < length (butlast p)" for k
  proof -
    have "k < length p" and "Suc k \<noteq> length p" using k by auto
    moreover have "take (Suc k) (butlast p) = take (Suc k) p" using k by (simp add: take_butlast)
    ultimately show ?thesis using settled_part [OF s, of k] k by (auto simp: nth_butlast)
  qed
  then show ?thesis unfolding settled_path_def by blast
qed

lemma settled_weaken: "settled_path fs False p \<Longrightarrow> settled_path fs leaf p"
  unfolding settled_path_def by blast

lemma settled_snoc:
  assumes "settled_path fs False p" and "c \<notin> {[], ''.'', ''..''}" and "CHR ''/'' \<notin> set c"
    and "fs (p @ [c]) \<in> {Inr None, Inr (Some FsDirectory)} \<or> leaf \<and> fs (p @ [c]) = Inr (Some FsOther)"
  shows "settled_path fs leaf (p @ [c])"
  using assms unfolding settled_path_def by (auto simp: nth_append less_Suc_eq)

lemma parts_slash: "\<forall>x \<in> set (split_on c s). c \<notin> set x"
  by (induction s) (auto split: list.splits)

lemma walk_settled:
  "walk_path fs links cursor pending = Inr p \<Longrightarrow> settled_path fs (pending = []) cursor \<Longrightarrow>
   \<forall>x \<in> set pending. CHR ''/'' \<notin> set x \<Longrightarrow> settled_path fs True p"
proof (induction fs links cursor pending rule: walk_path.induct)
  case (1 fs links cursor)
  then show ?case by simp
next
  case (2 fs links cursor c pending)
  have cur: "settled_path fs False cursor" using "2.prems"(2) by simp
  show ?case
  proof (cases "c = [] \<or> c = ''.'' \<or> c = ''..''")
    case True
    then show ?thesis
      using 2 settled_butlast [OF cur] settled_weaken [OF cur] settled_weaken [OF settled_butlast [OF cur]]
      by (auto split: if_splits)
  next
    case False
    then have ns: "CHR ''/'' \<notin> set c" "c \<notin> {[], ''.'', ''..''}" using "2.prems"(3) by auto
    show ?thesis
    proof (cases "\<exists>l. fs (cursor @ [c]) = Inr (Some (FsLink l))")
      case True
      then obtain l where l: "fs (cursor @ [c]) = Inr (Some (FsLink l))" by blast
      have "\<forall>x \<in> set (link_parts l). CHR ''/'' \<notin> set x" unfolding link_parts_def by (rule parts_slash)
      then have sl: "\<forall>x \<in> set (link_parts l @ pending). CHR ''/'' \<notin> set x" using "2.prems"(3) by auto
      have w: "walk_path fs (links + 1) (if isAbsolute l then [] else cursor) (link_parts l @ pending) = Inr p" and k: "\<not> links + 1 > 40"
        using "2.prems"(1) False l by (auto split: if_splits)
      have "settled_path fs (link_parts l @ pending = []) (if isAbsolute l then [] else cursor)"
        using cur by (simp add: settled_weaken)
      moreover have "\<not> (c = [] \<or> c = ''.'')" "c \<noteq> ''..''" using ns(2) by auto
      ultimately show ?thesis using "2.IH"(4) [OF _ _ l refl refl k] w sl by blast
    next
      case no: False
      obtain entry where e: "fs (cursor @ [c]) = Inr entry" using "2.prems"(1) False by (cases "fs (cursor @ [c])") auto
      then have w: "walk_path fs links (cursor @ [c]) pending = Inr p" and ok: "\<not> (entry = Some FsOther \<and> pending \<noteq> [])"
        using "2.prems"(1) False no by (auto split: option.splits fs_entry.splits if_splits)
      have "settled_path fs (pending = []) (cursor @ [c])"
        using e ok no by (intro settled_snoc [OF cur ns(2,1)]) (cases entry; cases "the entry"; auto)
      moreover have n: "\<not> (c = [] \<or> c = ''.'')" "c \<noteq> ''..''" using ns(2) by auto
      moreover have "\<forall>x \<in> set pending. CHR ''/'' \<notin> set x" using "2.prems"(3) by simp
      ultimately show ?thesis using "2.IH"(3) [OF n e] "2.IH"(5) [OF n e] "2.IH"(6) [OF n e] w ok no e
        by (metis fs_entry.exhaust not_Some_eq)
    qed
  qed
qed

lemma settled_walks:
  "settled_path fs True (cursor @ p) \<Longrightarrow> walk_path fs links cursor p = Inr (cursor @ p)"
proof (induction p arbitrary: cursor)
  case (Cons c p)
  have "settled_path fs True ((cursor @ [c]) @ p)" using Cons.prems by simp
  then have IH: "walk_path fs links (cursor @ [c]) p = Inr (cursor @ c # p)" using Cons.IH by fastforce
  have k: "length cursor < length (cursor @ c # p)" by simp
  have part: "c \<notin> {[], ''.'', ''..''}" using settled_part(1) [OF Cons.prems k] by simp
  have "fs (cursor @ [c]) \<in> {Inr None, Inr (Some FsDirectory)} \<or> p = [] \<and> fs (cursor @ [c]) = Inr (Some FsOther)"
    using settled_part(3) [OF Cons.prems k] by auto
  then show ?case using IH part by (auto split: if_splits)
qed simp

lemma split_join_parts:
  assumes "\<forall>x \<in> set xs. c \<notin> set x" and "xs \<noteq> []"
  shows "split_on c (join_with [c] xs) = xs"
  using assms
proof (induction "[c]" xs rule: join_with.induct)
  case (2 x)
  then show ?case by (induction x) auto
next
  case (3 x y ys)
  have "split_on c (x @ c # r) = x # split_on c r" if "c \<notin> set x" for r using that by (induction x) auto
  then show ?case using 3 by simp
qed simp

text \<open>A resolved path is physical: no component of it is a symbolic link, a parent step or empty, every
  component above the last is a directory or does not exist, and resolving it again changes nothing.\<close>

lemma resolved_path_physical:
  assumes "prospectivePhysicalPath fs path = Inr p"
  shows "settled_path fs True p \<and> prospectivePhysicalPath fs (path_text p) = Inr p"
proof -
  have "settled_path fs True p"
    using walk_settled [OF assms [unfolded prospectivePhysicalPath_def]] parts_slash by simp
  moreover from this have "prospectivePhysicalPath fs (path_text p) = Inr p"
  proof (cases "p = []")
    case False
    have "\<forall>x \<in> set p. CHR ''/'' \<notin> set x" using \<open>settled_path fs True p\<close> by (auto simp: settled_path_def in_set_conv_nth)
    then have "split_on (CHR ''/'') (drop 1 (path_text p)) = p" using split_join_parts [of p "CHR ''/''"] False by (simp add: path_text_def)
    then show ?thesis using settled_walks [of fs "[]" p 0] \<open>settled_path fs True p\<close> by (simp add: prospectivePhysicalPath_def)
  qed (simp add: prospectivePhysicalPath_def path_text_def)
  ultimately show ?thesis by blast
qed

end
