(* ===== verification/Approval_Inbox.thy ===== *)
theory Approval_Inbox
  imports Engine_Paths Registry_Ops
begin

text \<open>
  The approval inbox: \<open>src/src/inbox.ts\<close>, with \<open>src/src/jsonl.ts\<close> and the target test of
  \<open>src/src/approval-artifacts.ts\<close>.  The inbox of a run is an append-only log of request and resolution rows;
  the first request and the first resolution of an id win.  A decided item is published as a
  create-only decision file and one event.

  The operations are the code's; \<open>approval_step\<close> interleaves any number of processes, each of them
  reading the log, appending one row and reading again, as \<open>resolveRequest\<close> does, while requests
  are appended and settled items published.  The platform supplies the instants and the
  unique resolution ids; rows are appended whole, except where a statement says otherwise.
\<close>

section \<open>The log\<close>

definition jsonl_row :: "string \<Rightarrow> json option" where
  "jsonl_row line = (if trim line = [] then None else json_parse (trim line))"

definition parseJsonl :: "string \<Rightarrow> json list" where
  "parseJsonl raw = List.map_filter jsonl_row (split_on line_feed raw)"

definition isPendingInboxItemState :: "json \<Rightarrow> bool" where
  "isPendingInboxItemState s = (s = JStr ''pending'')"

type_synonym inbox_items = "(json \<times> json) list"
  \<comment> \<open>a \<open>Map\<close> from request ids to items, in insertion order\<close>

definition same_key :: "json \<Rightarrow> json \<Rightarrow> bool" where
  \<comment> \<open>keys of a \<open>Map\<close> are the same: two values read from texts are never the same object\<close>
  "same_key a b = (a = b \<and> (case a of JArr _ \<Rightarrow> False | JObj _ \<Rightarrow> False | _ \<Rightarrow> True))"

definition item_of :: "inbox_items \<Rightarrow> json \<Rightarrow> json option" where
  "item_of m k = map_option snd (find (\<lambda>e. same_key (fst e) k) m)"

definition settle_item :: "json \<Rightarrow> json \<Rightarrow> json" where
  "settle_item r it =
     set_field ''resolution'' r
       (set_field ''state'' (JStr (if own_field r ''decision'' = JStr ''approve'' then ''approved'' else ''denied'')) it)"

definition fold_record :: "json \<Rightarrow> inbox_items \<Rightarrow> inbox_items option" where
  \<comment> \<open>\<open>None\<close>: reading a field of \<open>null\<close> raises\<close>
  "fold_record r m =
     (let k = own_field r ''requestId'' in
      if r = JNull then None
      else if own_field r ''kind'' = JStr ''request'' then
        Some (if item_of m k = None then m @ [(k, set_field ''state'' (JStr ''pending'') r)] else m)
      else if own_field r ''kind'' = JStr ''resolution'' then
        (case item_of m k of
           None \<Rightarrow> Some m
         | Some it \<Rightarrow>
             if \<not> isPendingInboxItemState (own_field it ''state'') then Some m
             else Some (map (\<lambda>e. if same_key (fst e) k then (fst e, settle_item r (snd e)) else e) m))
      else Some m)"

primrec fold_records :: "json list \<Rightarrow> inbox_items \<Rightarrow> inbox_items option" where
  "fold_records [] m = Some m"
| "fold_records (r # rs) m = Option.bind (fold_record r m) (fold_records rs)"

definition foldItems :: "string \<Rightarrow> inbox_items option" where
  "foldItems raw = fold_records (parseJsonl raw) []"

definition appendJsonl :: "(rat \<Rightarrow> string) \<Rightarrow> json \<Rightarrow> string \<Rightarrow> string" where
  "appendJsonl other r raw = raw @ json_text other r @ [line_feed]"

section \<open>Requests and resolutions\<close>

definition isValidApprovalRequestId :: "string \<Rightarrow> bool" where
  "isValidApprovalRequestId i =
     (1 \<le> length i \<and> length i \<le> 64 \<and> list_all (\<lambda>c. is_letter c \<or> is_digit c \<or> c \<in> set ''._-'') i)"

record approval_env =
  ae_other :: "rat \<Rightarrow> string"
  ae_run :: string
  ae_fs :: fs_view

definition isStageOwnedApprovalTarget :: "approval_env \<Rightarrow> json \<Rightarrow> json \<Rightarrow> bool" where
  "isStageOwnedApprovalTarget env stageId target =
     (case (stageId, target) of
        (JStr s, JStr t) \<Rightarrow>
          if s = [] \<or> t = [] then False
          else (case prospectivePhysicalPath (ae_fs env) (ae_run env) of
              Inl _ \<Rightarrow> False
            | Inr run \<Rightarrow>
                (case prospectivePhysicalPath (ae_fs env) (if isAbsolute t then t else path_text run @ ''/'' @ t) of
                   Inl _ \<Rightarrow> False
                 | Inr p \<Rightarrow>
                     (let local = join_with ''/'' (drop (length run) p) in
                      prefix run p \<and> starts_with (''stages/'' @ s @ ''/'') local
                      \<and> \<not> isEngineOwnedRunPath local \<lparr>ps_id = s, ps_gate = False, ps_dynamic = False\<rparr>)))
      | _ \<Rightarrow> False)"

datatype approval_error = UnsafeRequestId | UnknownRequest | AlreadySettled json | EngineOwnedDecision

record resolve_opts =
  ro_by :: "string option"
  ro_reason :: "string option"
  ro_source :: "string option"

definition opt_field :: "string \<Rightarrow> string option \<Rightarrow> (string \<times> json) list" where
  "opt_field k v = (case v of Some s \<Rightarrow> if s = [] then [] else [(k, JStr s)] | None \<Rightarrow> [])"

definition resolution_record :: "string \<Rightarrow> string \<Rightarrow> string \<Rightarrow> string \<Rightarrow> bool \<Rightarrow> resolve_opts \<Rightarrow> json" where
  "resolution_record runId requestId uuid at_text approve opts =
     JObj ([(''kind'', JStr ''resolution''), (''runId'', JStr runId), (''requestId'', JStr requestId),
            (''resolutionId'', JStr uuid), (''decision'', JStr (if approve then ''approve'' else ''deny'')),
            (''by'', JStr (dflt (ro_by opts) ''operator'')), (''at'', JStr at_text)]
           @ opt_field ''reason'' (ro_reason opts) @ opt_field ''source'' (ro_source opts))"

definition decidable :: "inbox_items \<Rightarrow> string \<Rightarrow> approval_error + json" where
  \<comment> \<open>the item \<open>resolveRequest\<close> may decide, up to the authority\<close>
  "decidable items requestId =
     (case item_of items (JStr requestId) of
        None \<Rightarrow> Inl UnknownRequest
      | Some it \<Rightarrow> if \<not> isPendingInboxItemState (own_field it ''state'') then Inl (AlreadySettled it) else Inr it)"

definition request_record :: "json \<Rightarrow> json" where
  "request_record req = spread (JObj [(''kind'', JStr ''request'')]) req"

definition settled_by :: "string \<Rightarrow> json \<Rightarrow> bool" where
  \<comment> \<open>\<open>settled.resolution?.resolutionId === res.resolutionId\<close>\<close>
  "settled_by uuid it = (own_field (own_field it ''resolution'') ''resolutionId'' = JStr uuid)"

record inbox_world =
  iw_log :: string
  iw_decision :: "string \<Rightarrow> json option"
  iw_events :: "json list"

definition resolved_event :: "string \<Rightarrow> json \<Rightarrow> bool" where
  "resolved_event i e = (own_field e ''type'' = JStr ''approval_resolved'' \<and> own_field e ''requestId'' = JStr i)"

definition decision_record :: "json \<Rightarrow> json" where
  "decision_record it =
     (let r = own_field it ''resolution'' in
      JObj [(''requestId'', own_field it ''requestId''), (''decision'', own_field r ''decision''), (''by'', own_field r ''by''),
            (''reason'', coalesce (own_field r ''reason'') (JStr [])), (''at'', own_field r ''at'')])"

definition resolution_event :: "json \<Rightarrow> json" where
  "resolution_event it =
     (let r = own_field it ''resolution''; arrow = [CHR '' '', CHR 0xE2, CHR 0x86, CHR 0x92, CHR '' '']; t = own_field it ''target'' in
      JObj [(''type'', JStr ''approval_resolved''), (''runId'', own_field it ''runId''), (''timestamp'', own_field r ''at''),
            (''requestId'', own_field it ''requestId''), (''stageId'', own_field it ''stageId''),
            (''decision'', JStr (if own_field r ''decision'' = JStr ''approve'' then ''accepted'' else ''rejected'')),
            (''detail'', JStr (text_of (own_field r ''decision'') @ '' '' @ text_of (own_field it ''action'')
               @ (if truthy t then arrow @ text_of t else []) @ '' ('' @ text_of (own_field it ''requestId'') @ '')'')),
            (''source'', coalesce (own_field r ''source'') (JStr ''operator''))])"

definition may_publish :: "int \<Rightarrow> scheduler_observation \<Rightarrow> bool" where
  \<comment> \<open>under the run lock: only the resident scheduler publishes while one may be live\<close>
  "may_publish self obs =
     (case obs of ObsCorrupt _ \<Rightarrow> False | ObsUnverifiable _ \<Rightarrow> False | ObsLive p \<Rightarrow> p = self | _ \<Rightarrow> True)"

datatype inbox_exception = UnsafeIdRaised | InboxRowRaised

definition publishApprovalResolution ::
    "int \<Rightarrow> scheduler_observation \<Rightarrow> json \<Rightarrow> inbox_world \<Rightarrow> inbox_world \<times> (inbox_exception + unit)" where
  "publishApprovalResolution self obs it w =
     (let i = text_of (own_field it ''requestId''); told = list_ex (resolved_event i) (iw_events w) in
      if \<not> truthy (own_field it ''resolution'') then (w, Inr ())
      else if \<not> isValidApprovalRequestId i then (w, Inl UnsafeIdRaised)
      else if iw_decision w i \<noteq> None \<and> told then (w, Inr ())
      else if \<not> may_publish self obs then (w, Inr ())
      else (w\<lparr>iw_decision := (if iw_decision w i = None then (iw_decision w)(i \<mapsto> decision_record it) else iw_decision w),
              iw_events := (if told then iw_events w else iw_events w @ [resolution_event it])\<rparr>, Inr ()))"

record approval_call =
  ac_run :: string
  ac_uuid :: string
  ac_at :: string
  ac_self :: int
  ac_obs :: scheduler_observation

record resolve_result =
  rr_item :: "json option"
  rr_won :: bool
  rr_error :: "approval_error option"

type_synonym 'a inbox_result = "inbox_world \<times> (inbox_exception + 'a)"

definition settle_resolution :: "approval_call \<Rightarrow> string \<Rightarrow> inbox_world \<Rightarrow> resolve_result inbox_result" where
  \<comment> \<open>the second fold, after the append\<close>
  "settle_resolution c requestId w =
     (case Option.bind (foldItems (iw_log w)) (\<lambda>items. item_of items (JStr requestId)) of
        None \<Rightarrow> (w, Inl InboxRowRaised)
      | Some it \<Rightarrow>
          if settled_by (ac_uuid c) it
          then (case publishApprovalResolution (ac_self c) (ac_obs c) it w of
              (w', Inl e) \<Rightarrow> (w', Inl e)
            | (w', Inr _) \<Rightarrow> (w', Inr \<lparr>rr_item = Some it, rr_won = True, rr_error = None\<rparr>))
          else (w, Inr \<lparr>rr_item = Some it, rr_won = False, rr_error = None\<rparr>))"

definition append_resolution :: "approval_env \<Rightarrow> approval_call \<Rightarrow> string \<Rightarrow> bool \<Rightarrow> resolve_opts \<Rightarrow> inbox_world \<Rightarrow> inbox_world" where
  "append_resolution env c requestId approve opts w =
     w\<lparr>iw_log := appendJsonl (ae_other env) (resolution_record (ac_run c) requestId (ac_uuid c) (ac_at c) approve opts) (iw_log w)\<rparr>"

definition with_pending ::
    "string \<Rightarrow> (json \<Rightarrow> resolve_result inbox_result) \<Rightarrow> inbox_world \<Rightarrow> resolve_result inbox_result" where
  \<comment> \<open>the checks of \<open>resolveRequest\<close> before the authority\<close>
  "with_pending requestId k w =
     (if \<not> isValidApprovalRequestId requestId
      then (w, Inr \<lparr>rr_item = None, rr_won = False, rr_error = Some UnsafeRequestId\<rparr>)
      else case foldItems (iw_log w) of
        None \<Rightarrow> (w, Inl InboxRowRaised)
      | Some items \<Rightarrow>
          (case decidable items requestId of
             Inl e \<Rightarrow> (w, Inr \<lparr>rr_item = item_of items (JStr requestId), rr_won = False, rr_error = Some e\<rparr>)
           | Inr it \<Rightarrow> k it))"

definition owned_reason :: string where
  "owned_reason = ''Existing stage scratch authority; no human authorization required. This grants no external effects.''"

definition denied_reason :: string where
  "denied_reason = ''This request grants no new authority; existing admitted work may proceed. Use execution/scope mechanisms; request risk external only for an effect outside the run.''"

definition engine_decision :: "approval_env \<Rightarrow> approval_call \<Rightarrow> json \<Rightarrow> inbox_world \<Rightarrow> resolve_result inbox_result" where
  \<comment> \<open>what \<open>recordRequest\<close> decides without a human\<close>
  "engine_decision env c it w =
     (let i = text_of (own_field it ''requestId''); owned = isStageOwnedApprovalTarget env (own_field it ''stageId'') (own_field it ''target'') in
      with_pending i (\<lambda>_. settle_resolution c i (append_resolution env c i owned
          \<lparr>ro_by = Some ''engine'', ro_reason = Some (if owned then owned_reason else denied_reason), ro_source = Some ''scheduler''\<rparr> w)) w)"

definition recordRequest :: "approval_env \<Rightarrow> approval_call \<Rightarrow> json \<Rightarrow> inbox_world \<Rightarrow> (json option \<times> bool) inbox_result" where
  \<comment> \<open>the item and whether it was created\<close>
  "recordRequest env c req w =
     (let i = text_of (own_field req ''requestId''); r = request_record req in
      if \<not> isValidApprovalRequestId i then (w, Inl UnsafeIdRaised)
      else case foldItems (iw_log w) of
        None \<Rightarrow> (w, Inl InboxRowRaised)
      | Some items \<Rightarrow>
          (let existing = item_of items (JStr i);
               w1 = (if existing = None then w\<lparr>iw_log := appendJsonl (ae_other env) r (iw_log w)\<rparr> else w);
               it = dflt existing (set_field ''state'' (JStr ''pending'') r)
           in if isPendingInboxItemState (own_field it ''state'') \<and> own_field it ''risk'' \<noteq> JStr ''external''
              then (case engine_decision env c it w1 of
                  (w2, Inl e) \<Rightarrow> (w2, Inl e)
                | (w2, Inr res) \<Rightarrow> (w2, Inr (rr_item res, existing = None)))
              else (w1, Inr (Some it, existing = None))))"

definition resolveRequest ::
    "approval_env \<Rightarrow> approval_call \<Rightarrow> string \<Rightarrow> bool \<Rightarrow> resolve_opts \<Rightarrow> inbox_world \<Rightarrow> resolve_result inbox_result" where
  "resolveRequest env c requestId approve opts w =
     with_pending requestId (\<lambda>it.
       if own_field it ''risk'' \<noteq> JStr ''external'' \<and> ro_source opts \<noteq> Some ''scheduler''
       then (case recordRequest env c it w of
           (w', Inl e) \<Rightarrow> (w', Inl e)
         | (w', Inr (settled, _)) \<Rightarrow> (w', Inr \<lparr>rr_item = settled, rr_won = False, rr_error = Some EngineOwnedDecision\<rparr>))
       else settle_resolution c requestId (append_resolution env c requestId approve opts w)) w"

section \<open>What a row changes\<close>

definition whole :: "string \<Rightarrow> bool" where
  \<comment> \<open>no unterminated row\<close>
  "whole raw = (raw = [] \<or> last raw = line_feed)"

lemma jsonl_blank [simp]: "jsonl_row [] = None"
  by (simp add: jsonl_row_def trim_def)

lemma jsonl_record:
  assumes "plain (JObj m)"
  shows "jsonl_row (json_text other (JObj m)) = Some (strip (JObj m))"
proof -
  have "json_text other (JObj m) \<noteq> []" by simp
  then show ?thesis using record_line(3) [OF assms] json_reads_back [OF assms] unfolding jsonl_row_def by simp
qed

lemma split_terminated: "split_on d (a @ d # b) = split_on d a @ split_on d b"
proof (induction a)
  case (Cons x a)
  then show ?case by (cases "split_on d a") (auto split: list.splits)
qed simp

lemma rows_terminated: "parseJsonl (a @ line_feed # b) = parseJsonl a @ parseJsonl b"
  by (simp add: parseJsonl_def split_terminated List.map_filter_def)

lemma rows_Nil [simp]: "parseJsonl [] = []"
  by (simp add: parseJsonl_def List.map_filter_def)

lemma rows_whole:
  assumes "whole a"
  shows "parseJsonl (a @ b) = parseJsonl a @ parseJsonl b"
proof (cases "a = []")
  case False
  then have a: "a = butlast a @ line_feed # []" using assms append_butlast_last_id [of a] by (simp add: whole_def)
  have "parseJsonl (a @ b) = parseJsonl (butlast a @ line_feed # b)" by (subst a) simp
  moreover have "parseJsonl a = parseJsonl (butlast a)" by (subst a) (simp only: rows_terminated, simp)
  ultimately show ?thesis by (simp add: rows_terminated)
qed simp

lemma rows_append:
  assumes "whole raw" and "plain (JObj m)"
  shows "parseJsonl (appendJsonl other (JObj m) raw) = parseJsonl raw @ [strip (JObj m)]"
    and "whole (appendJsonl other (JObj m) raw)"
proof -
  have "split_on line_feed (json_text other (JObj m)) = [json_text other (JObj m)]"
    by (rule split_one [OF record_line(4) [OF assms(2)]])
  then have "parseJsonl (json_text other (JObj m)) = [strip (JObj m)]"
    using jsonl_record [OF assms(2), of other] unfolding parseJsonl_def by (simp only: List.map_filter_simps option.case)
  then have "parseJsonl (json_text other (JObj m) @ line_feed # []) = [strip (JObj m)]" by (simp only: rows_terminated) simp
  then show "parseJsonl (appendJsonl other (JObj m) raw) = parseJsonl raw @ [strip (JObj m)]"
    unfolding appendJsonl_def by (simp only: rows_whole [OF assms(1)])
qed (simp add: appendJsonl_def whole_def)

lemma fold_records_append: "fold_records (xs @ ys) m = Option.bind (fold_records xs m) (fold_records ys)"
  by (induction xs arbitrary: m) (auto split: bind_splits)

lemma fold_records_one: "fold_records [r] = fold_record r"
proof
  show "fold_records [r] m = fold_record r m" for m by (cases "fold_record r m") simp_all
qed

lemma fold_append:
  assumes "whole raw" and "plain (JObj m)"
  shows "foldItems (appendJsonl other (JObj m) raw) = Option.bind (foldItems raw) (fold_record (strip (JObj m)))"
  unfolding foldItems_def rows_append(1) [OF assms] fold_records_append fold_records_one ..

lemma item_of_Nil [simp]: "item_of [] k = None"
  by (simp add: item_of_def)

lemma item_of_snoc: "item_of (m @ [(k', v)]) k = (case item_of m k of Some it \<Rightarrow> Some it | None \<Rightarrow> if same_key k' k then Some v else None)"
  by (induction m) (simp_all add: item_of_def)

lemma item_of_settle:
  "item_of (map (\<lambda>e. if same_key (fst e) k' then (fst e, g (snd e)) else e) m) k
    = (if k = k' then map_option g (item_of m k) else item_of m k)"
  by (induction m) (auto simp: item_of_def same_key_def)

lemma settle_item_settled: "is_record it \<Longrightarrow> own_field (settle_item r it) ''state'' \<noteq> JStr ''pending''"
  by (cases it) (auto simp: settle_item_def set_field_def own_field_def is_record_def)

lemma fold_record_item:
  assumes "fold_record r m = Some m'" and "item_of m k = Some it"
  shows "\<exists>it'. item_of m' k = Some it' \<and> (it' = it \<or> isPendingInboxItemState (own_field it ''state'') \<and> it' = settle_item r it)"
  using assms
  by (auto simp: fold_record_def Let_def item_of_snoc item_of_settle split: if_splits option.splits)

lemma fold_record_settled:
  "fold_record r m = Some m' \<Longrightarrow> item_of m k = Some it \<Longrightarrow> \<not> isPendingInboxItemState (own_field it ''state'') \<Longrightarrow> item_of m' k = Some it"
  using fold_record_item by blast

definition items_ok :: "inbox_items \<Rightarrow> bool" where
  "items_ok m = (\<forall>e \<in> set m. is_record (snd e) \<and> own_field (snd e) ''requestId'' = fst e)"

lemma set_field_own: "own_field (set_field k v j) k' = (if k = k' \<and> is_record j then v else own_field j k')"
  by (cases j) (auto simp: set_field_def own_field_def is_record_def)

lemma settle_item_fields: "is_record it \<Longrightarrow> is_record (settle_item r it) \<and> own_field (settle_item r it) ''requestId'' = own_field it ''requestId''
    \<and> own_field (settle_item r it) ''resolution'' = r
    \<and> own_field (settle_item r it) ''state'' = JStr (if own_field r ''decision'' = JStr ''approve'' then ''approved'' else ''denied'')"
  by (cases it) (auto simp: settle_item_def set_field_def own_field_def is_record_def)

lemma fold_record_cases:
  assumes "fold_record r m = Some m'" and "e \<in> set m'"
  obtains "e \<in> set m"
    | "own_field r ''kind'' = JStr ''request''" "e = (own_field r ''requestId'', set_field ''state'' (JStr ''pending'') r)"
    | e0 where "e0 \<in> set m" and "e = (fst e0, settle_item r (snd e0))"
proof -
  have "e \<in> set m \<or> (own_field r ''kind'' = JStr ''request'' \<and> e = (own_field r ''requestId'', set_field ''state'' (JStr ''pending'') r))
      \<or> (\<exists>e0 \<in> set m. e = (fst e0, settle_item r (snd e0)))"
    using assms unfolding fold_record_def Let_def by (auto split: if_splits option.splits)
  then show thesis using that by blast
qed

lemma field_is_record: "own_field r k = JStr s \<Longrightarrow> is_record r"
  by (cases r) (simp_all add: own_field_def is_record_def)

lemma fold_record_ok:
  assumes "fold_record r m = Some m'" and "items_ok m"
  shows "items_ok m'"
  unfolding items_ok_def
proof
  fix e
  assume "e \<in> set m'"
  with assms(1) show "is_record (snd e) \<and> own_field (snd e) ''requestId'' = fst e"
  proof (cases rule: fold_record_cases)
    case 1
    then show ?thesis using assms(2) by (simp add: items_ok_def)
  next
    case 2
    then have "is_record r" by (simp add: field_is_record)
    then show ?thesis using 2 set_field_own [of "''state''" "JStr ''pending''" r "''requestId''"]
      by (cases r) (simp_all add: set_field_def is_record_def)
  next
    case (3 e0)
    then show ?thesis using assms(2) settle_item_fields [of "snd e0" r] by (simp add: items_ok_def)
  qed
qed

lemma fold_records_ok: "fold_records rs m = Some m' \<Longrightarrow> items_ok m \<Longrightarrow> items_ok m'"
  by (induction rs arbitrary: m) (auto simp: bind_eq_Some_conv dest: fold_record_ok)

lemma folded_ok: "foldItems raw = Some items \<Longrightarrow> items_ok items"
  using fold_records_ok [of _ "[]"] by (auto simp: foldItems_def items_ok_def)

lemma item_of_in: "item_of m k = Some it \<Longrightarrow> \<exists>e \<in> set m. fst e = k \<and> snd e = it"
  by (auto simp: item_of_def same_key_def dest!: find_SomeD)

lemma item_of_ok: "items_ok m \<Longrightarrow> item_of m k = Some it \<Longrightarrow> is_record it \<and> own_field it ''requestId'' = k"
  using item_of_in unfolding items_ok_def by blast

section \<open>Several processes\<close>

datatype approval_phase =
    ApIdle
  | ApReady string string json
  | ApAppended string string
  | ApSettled string string json
  | ApTold string string
  | ApPublishing json
  | ApGone

record approval_state =
  as_world :: inbox_world
  as_phase :: "nat \<Rightarrow> approval_phase"
  as_uuids :: "string set"

definition ap_phase :: "nat \<Rightarrow> approval_phase \<Rightarrow> approval_state \<Rightarrow> approval_state" where
  "ap_phase p x s = s\<lparr>as_phase := (as_phase s)(p := x)\<rparr>"

definition ap_log :: "string \<Rightarrow> approval_state \<Rightarrow> approval_state" where
  "ap_log raw s = s\<lparr>as_world := (as_world s)\<lparr>iw_log := raw\<rparr>\<rparr>"

inductive approval_step :: "(rat \<Rightarrow> string) \<Rightarrow> approval_state \<Rightarrow> approval_state \<Rightarrow> bool" for other where
  ap_request: "request_record req = JObj m \<Longrightarrow> plain (JObj m) \<Longrightarrow> own_field (JObj m) ''kind'' = JStr ''request'' \<Longrightarrow>
    own_field (JObj m) ''resolution'' = JUndef \<Longrightarrow>
    approval_step other s (ap_log (appendJsonl other (JObj m) (iw_log (as_world s))) s)"
| ap_begin: "as_phase s p = ApIdle \<Longrightarrow> isValidApprovalRequestId i \<Longrightarrow> foldItems (iw_log (as_world s)) = Some items \<Longrightarrow>
    decidable items i = Inr it \<Longrightarrow> own_field it ''risk'' = JStr ''external'' \<or> ro_source opts = Some ''scheduler'' \<Longrightarrow>
    uuid \<notin> as_uuids s \<Longrightarrow>
    approval_step other s
      (ap_phase p (ApReady i uuid (resolution_record run i uuid t approve opts)) (s\<lparr>as_uuids := insert uuid (as_uuids s)\<rparr>))"
| ap_append: "as_phase s p = ApReady i uuid r \<Longrightarrow>
    approval_step other s (ap_phase p (ApAppended i uuid) (ap_log (appendJsonl other r (iw_log (as_world s))) s))"
| ap_settle: "as_phase s p = ApAppended i uuid \<Longrightarrow> foldItems (iw_log (as_world s)) = Some items \<Longrightarrow> item_of items (JStr i) = Some it \<Longrightarrow>
    approval_step other s (ap_phase p (if settled_by uuid it then ApSettled i uuid it else ApGone) s)"
| ap_publish: "as_phase s p = ApSettled i uuid it \<Longrightarrow>
    approval_step other s (ap_phase p (ApTold i uuid) (s\<lparr>as_world := fst (publishApprovalResolution self obs it (as_world s))\<rparr>))"
| ap_poll: "as_phase s p = ApIdle \<Longrightarrow> foldItems (iw_log (as_world s)) = Some items \<Longrightarrow> item_of items k = Some it \<Longrightarrow>
    \<not> isPendingInboxItemState (own_field it ''state'') \<Longrightarrow> approval_step other s (ap_phase p (ApPublishing it) s)"
| ap_published: "as_phase s p = ApPublishing it \<Longrightarrow>
    approval_step other s (ap_phase p ApIdle (s\<lparr>as_world := fst (publishApprovalResolution self obs it (as_world s))\<rparr>))"
| ap_crash: "approval_step other s (ap_phase p ApGone s)"

definition approval_init :: "approval_state \<Rightarrow> bool" where
  "approval_init s = (iw_log (as_world s) = [] \<and> iw_decision (as_world s) = (\<lambda>_. None) \<and> iw_events (as_world s) = []
     \<and> as_phase s = (\<lambda>_. ApIdle) \<and> as_uuids s = {})"

definition phase_uuid :: "approval_phase \<Rightarrow> string option" where
  "phase_uuid x = (case x of ApReady _ u _ \<Rightarrow> Some u | ApAppended _ u \<Rightarrow> Some u | ApSettled _ u _ \<Rightarrow> Some u | ApTold _ u \<Rightarrow> Some u | _ \<Rightarrow> None)"

definition settled_item :: "inbox_items \<Rightarrow> json \<Rightarrow> json \<Rightarrow> bool" where
  "settled_item items k it = (item_of items k = Some it \<and> \<not> isPendingInboxItemState (own_field it ''state''))"

definition phase_ok :: "inbox_items \<Rightarrow> approval_phase \<Rightarrow> bool" where
  "phase_ok items x =
     (case x of
        ApReady i u r \<Rightarrow> \<exists>run t approve opts. r = resolution_record run i u t approve opts
      | ApSettled i u it \<Rightarrow> settled_item items (JStr i) it \<and> settled_by u it
      | ApTold i u \<Rightarrow> \<exists>it. settled_item items (JStr i) it \<and> settled_by u it
      | ApPublishing it \<Rightarrow> \<exists>k. settled_item items k it
      | _ \<Rightarrow> True)"

definition bare_items :: "inbox_items \<Rightarrow> bool" where
  \<comment> \<open>a pending item has no resolution\<close>
  "bare_items items =
     (\<forall>e \<in> set items. isPendingInboxItemState (own_field (snd e) ''state'') \<longrightarrow> own_field (snd e) ''resolution'' = JUndef)"

definition approval_inv :: "approval_state \<Rightarrow> bool" where
  "approval_inv s =
     (whole (iw_log (as_world s))
      \<and> (\<exists>items. foldItems (iw_log (as_world s)) = Some items \<and> bare_items items
           \<and> (\<forall>p. phase_ok items (as_phase s p))
           \<and> (\<forall>i d. iw_decision (as_world s) i = Some d \<longrightarrow> (\<exists>it. settled_item items (JStr i) it \<and> d = decision_record it)))
      \<and> (\<forall>p u. phase_uuid (as_phase s p) = Some u \<longrightarrow> u \<in> as_uuids s)
      \<and> (\<forall>p q u. phase_uuid (as_phase s p) = Some u \<longrightarrow> phase_uuid (as_phase s q) = Some u \<longrightarrow> p = q)
      \<and> (\<forall>i. length (filter (resolved_event i) (iw_events (as_world s))) \<le> 1))"

lemma fold_record_defined: "r \<noteq> JNull \<Longrightarrow> \<exists>m'. fold_record r m = Some m'"
  by (auto simp: fold_record_def Let_def split: option.splits)

lemma settled_kept: "fold_record r m = Some m' \<Longrightarrow> settled_item m k it \<Longrightarrow> settled_item m' k it"
  unfolding settled_item_def using fold_record_settled by blast

lemma phase_ok_mono: "(\<And>k it. settled_item m k it \<Longrightarrow> settled_item m' k it) \<Longrightarrow> phase_ok m x \<Longrightarrow> phase_ok m' x"
  unfolding phase_ok_def by (cases x; auto; blast)

lemma ap_fields [simp]: "as_world (ap_phase p x s) = as_world s" "as_uuids (ap_phase p x s) = as_uuids s"
  "as_phase (ap_phase p x s) q = (if q = p then x else as_phase s q)"
  "as_phase (ap_log raw s) = as_phase s" "as_uuids (ap_log raw s) = as_uuids s" "iw_log (as_world (ap_log raw s)) = raw"
  "iw_decision (as_world (ap_log raw s)) = iw_decision (as_world s)" "iw_events (as_world (ap_log raw s)) = iw_events (as_world s)"
  by (simp_all add: ap_phase_def ap_log_def)

lemma inv_items:
  assumes "approval_inv s"
  obtains items where "foldItems (iw_log (as_world s)) = Some items" and "bare_items items" and "\<forall>p. phase_ok items (as_phase s p)"
    and "\<forall>i d. iw_decision (as_world s) i = Some d \<longrightarrow> (\<exists>it. settled_item items (JStr i) it \<and> d = decision_record it)"
  using assms unfolding approval_inv_def by blast

lemma inv_others:
  assumes "approval_inv s"
  shows "whole (iw_log (as_world s))" and "phase_uuid (as_phase s p) = Some u \<Longrightarrow> u \<in> as_uuids s"
    and "phase_uuid (as_phase s p) = Some u \<Longrightarrow> phase_uuid (as_phase s q) = Some u \<Longrightarrow> p = q"
    and "length (filter (resolved_event i) (iw_events (as_world s))) \<le> 1"
  using assms unfolding approval_inv_def by blast+

lemma inv_phase_step:
  assumes "approval_inv s" and "\<And>items. foldItems (iw_log (as_world s)) = Some items \<Longrightarrow> phase_ok items x"
    and "phase_uuid x = None \<or> phase_uuid x = phase_uuid (as_phase s p)"
  shows "approval_inv (ap_phase p x s)"
proof -
  obtain items where items: "foldItems (iw_log (as_world s)) = Some items" "bare_items items" "\<forall>p. phase_ok items (as_phase s p)"
    "\<forall>i d. iw_decision (as_world s) i = Some d \<longrightarrow> (\<exists>it. settled_item items (JStr i) it \<and> d = decision_record it)"
    by (rule inv_items [OF assms(1)])
  have ph: "phase_ok items (as_phase (ap_phase p x s) q)" for q using items(1,3) assms(2) by simp
  have uu: "phase_uuid (as_phase (ap_phase p x s) q) = Some u \<Longrightarrow> phase_uuid (as_phase s q) = Some u" for q u
    using assms(3) by (auto split: if_splits)
  show ?thesis
    unfolding approval_inv_def ap_fields(1,2)
    using items(1,2,4) ph uu inv_others [OF assms(1)] by metis
qed

lemma fold_record_bare:
  assumes "fold_record r m = Some m'" and "items_ok m" and "bare_items m"
    and "own_field r ''kind'' = JStr ''request'' \<Longrightarrow> own_field r ''resolution'' = JUndef"
  shows "bare_items m'"
  unfolding bare_items_def
proof
  fix e
  assume "e \<in> set m'"
  with assms(1) show "isPendingInboxItemState (own_field (snd e) ''state'') \<longrightarrow> own_field (snd e) ''resolution'' = JUndef"
  proof (cases rule: fold_record_cases)
    case 1
    then show ?thesis using assms(3) by (simp add: bare_items_def)
  next
    case 2
    then show ?thesis using assms(4) by (simp add: set_field_own)
  next
    case (3 e0)
    then show ?thesis using assms(2) settle_item_settled [of "snd e0" r] by (simp add: items_ok_def isPendingInboxItemState_def)
  qed
qed

lemma strip_str [simp]: "strip v = JStr x \<longleftrightarrow> v = JStr x"
  by (cases v) auto

lemma inv_log_step:
  assumes "approval_inv s" and "plain (JObj m)"
    and "own_field (JObj m) ''kind'' = JStr ''request'' \<Longrightarrow> own_field (JObj m) ''resolution'' = JUndef"
  shows "approval_inv (ap_log (appendJsonl other (JObj m) (iw_log (as_world s))) s)"
proof -
  obtain items where items: "foldItems (iw_log (as_world s)) = Some items" "bare_items items" "\<forall>p. phase_ok items (as_phase s p)"
    "\<forall>i d. iw_decision (as_world s) i = Some d \<longrightarrow> (\<exists>it. settled_item items (JStr i) it \<and> d = decision_record it)"
    by (rule inv_items [OF assms(1)])
  note w = inv_others(1) [OF assms(1)]
  obtain items' where f: "fold_record (strip (JObj m)) items = Some items'"
    using fold_record_defined [of "strip (JObj m)" items] by auto
  have "foldItems (appendJsonl other (JObj m) (iw_log (as_world s))) = Some items'"
    unfolding fold_append [OF w assms(2)] items(1) by (simp add: f del: strip.simps)
  moreover have "bare_items items'"
    using fold_record_bare [OF f folded_ok [OF items(1)] items(2)] assms(3) by (simp add: own_strip [OF assms(2)] del: strip.simps)
  moreover have "phase_ok items' (as_phase s p)" for p
    using phase_ok_mono [OF settled_kept [OF f]] items(3) by blast
  moreover have "\<exists>it. settled_item items' (JStr i) it \<and> d = decision_record it" if "iw_decision (as_world s) i = Some d" for i d
    using items(4) that settled_kept [OF f] by blast
  ultimately show ?thesis
    unfolding approval_inv_def ap_fields using rows_append(2) [OF w assms(2)] inv_others(2,3,4) [OF assms(1)] by blast
qed

lemma resolution_plain: "\<exists>m. resolution_record run i u t approve opts = JObj m \<and> plain (JObj m)"
  by (auto simp: resolution_record_def opt_field_def split: option.splits)

lemma publish_effect:
  assumes "publishApprovalResolution self obs it w = (w', r)"
  shows "iw_log w' = iw_log w"
    and "iw_decision w' i = Some d \<Longrightarrow> iw_decision w i = Some d
           \<or> isValidApprovalRequestId i \<and> text_of (own_field it ''requestId'') = i \<and> d = decision_record it"
    and "length (filter (resolved_event i) (iw_events w)) \<le> 1 \<Longrightarrow> length (filter (resolved_event i) (iw_events w')) \<le> 1"
proof -
  show "iw_log w' = iw_log w" using assms by (auto simp: publishApprovalResolution_def Let_def split: if_splits)
  show "iw_decision w' i = Some d \<Longrightarrow> iw_decision w i = Some d
           \<or> isValidApprovalRequestId i \<and> text_of (own_field it ''requestId'') = i \<and> d = decision_record it"
    using assms by (auto simp: publishApprovalResolution_def Let_def split: if_splits)
  have id: "resolved_event i (resolution_event it) \<Longrightarrow> text_of (own_field it ''requestId'') = i"
    by (simp add: resolved_event_def resolution_event_def Let_def own_field_def text_of_def)
  show "length (filter (resolved_event i) (iw_events w)) \<le> 1 \<Longrightarrow> length (filter (resolved_event i) (iw_events w')) \<le> 1"
  proof (cases "iw_events w' = iw_events w")
    case False
    then have "iw_events w' = iw_events w @ [resolution_event it]"
      and none: "\<not> list_ex (resolved_event (text_of (own_field it ''requestId''))) (iw_events w)"
      using assms by (auto simp: publishApprovalResolution_def Let_def split: if_splits)
    then show "length (filter (resolved_event i) (iw_events w)) \<le> 1 \<Longrightarrow> ?thesis"
      using id none by (cases "resolved_event i (resolution_event it)") (auto simp: list_ex_iff filter_empty_conv)
  qed simp
qed

lemma inv_publish_step:
  assumes "approval_inv s" and "foldItems (iw_log (as_world s)) = Some items" and "settled_item items k it"
  shows "approval_inv (s\<lparr>as_world := fst (publishApprovalResolution self obs it (as_world s))\<rparr>)"
proof -
  obtain w' r where pub: "publishApprovalResolution self obs it (as_world s) = (w', r)" by (cases "publishApprovalResolution self obs it (as_world s)")
  obtain items' where "foldItems (iw_log (as_world s)) = Some items'" "bare_items items'" "\<forall>p. phase_ok items' (as_phase s p)"
    "\<forall>i d. iw_decision (as_world s) i = Some d \<longrightarrow> (\<exists>it. settled_item items' (JStr i) it \<and> d = decision_record it)"
    by (rule inv_items [OF assms(1)])
  with assms(2) have bare: "bare_items items" and ph: "\<forall>p. phase_ok items (as_phase s p)"
    and dec: "\<And>i d. iw_decision (as_world s) i = Some d \<Longrightarrow> \<exists>it. settled_item items (JStr i) it \<and> d = decision_record it" by simp_all
  have key: "own_field it ''requestId'' = k"
    using item_of_ok [OF folded_ok [OF assms(2)]] assms(3) by (simp add: settled_item_def)
  have "\<exists>it. settled_item items (JStr i) it \<and> d = decision_record it" if "iw_decision w' i = Some d" for i d
    using publish_effect(2) [OF pub that]
  proof
    assume "isValidApprovalRequestId i \<and> text_of (own_field it ''requestId'') = i \<and> d = decision_record it"
    moreover from this have "k = JStr i" unfolding key by (cases k) (auto simp: text_of_def isValidApprovalRequestId_def)
    ultimately show ?thesis using assms(3) by blast
  qed (rule dec)
  then show ?thesis
    unfolding approval_inv_def using pub publish_effect(1,3) [OF pub] assms(2) bare ph inv_others [OF assms(1)] by simp
qed

lemma won_item_settled:
  assumes "bare_items items" and "item_of items k = Some it" and "settled_by uuid it"
  shows "settled_item items k it"
  using assms item_of_in [OF assms(2)] unfolding settled_item_def settled_by_def bare_items_def by (auto simp: own_field_def)

lemma approval_inv_step:
  assumes "approval_inv s" and "approval_step other s t"
  shows "approval_inv t"
  using assms(2)
proof cases
  case (ap_request req m)
  show ?thesis unfolding ap_request(1) by (rule inv_log_step [OF assms(1) ap_request(3)]) (rule ap_request(5))
next
  case (ap_begin p i items it opts uuid run tm approve)
  let ?s = "s\<lparr>as_uuids := insert uuid (as_uuids s)\<rparr>"
  have none: "phase_uuid (as_phase s q) \<noteq> Some uuid" for q using inv_others(2) [OF assms(1)] ap_begin(7) by blast
  have un: "p = q" if "phase_uuid (as_phase s p) = Some u" "phase_uuid (as_phase s q) = Some u" for p q u
    using inv_others(3) [OF assms(1)] that by blast
  obtain items where items: "foldItems (iw_log (as_world s)) = Some items" "bare_items items" "\<forall>p. phase_ok items (as_phase s p)"
    "\<forall>i d. iw_decision (as_world s) i = Some d \<longrightarrow> (\<exists>it. settled_item items (JStr i) it \<and> d = decision_record it)"
    by (rule inv_items [OF assms(1)])
  have "phase_ok items (ApReady i uuid (resolution_record run i uuid tm approve opts))" by (auto simp: phase_ok_def)
  then have ph: "phase_ok items (as_phase t q)" for q using items(3) by (simp add: ap_begin(1) ap_phase_def)
  have uu: "phase_uuid (as_phase t q) = (if q = p then Some uuid else phase_uuid (as_phase s q))" for q
    by (simp add: ap_begin(1) ap_phase_def phase_uuid_def)
  have one: "q = q'" if "phase_uuid (as_phase t q) = Some u" "phase_uuid (as_phase t q') = Some u" for q q' u
    using that none un unfolding uu by (metis option.inject)
  have mem: "u \<in> as_uuids t" if "phase_uuid (as_phase t q) = Some u" for q u
    using that inv_others(2) [OF assms(1)] unfolding uu by (auto simp: ap_begin(1) split: if_splits)
  have w: "as_world t = as_world s" by (simp add: ap_begin(1) ap_phase_def)
  show ?thesis
    unfolding approval_inv_def w
    by (intro conjI exI [of _ items] allI impI)
      (use items(1,2,4) ph one mem inv_others(1,4) [OF assms(1)] in \<open>blast+\<close>)
next
  case (ap_append p i uuid r)
  obtain items where items: "\<forall>p. phase_ok items (as_phase s p)" by (rule inv_items [OF assms(1)])
  then obtain run tm approve opts where r: "r = resolution_record run i uuid tm approve opts"
    using ap_append(2) by (auto simp: phase_ok_def dest!: spec [of _ p])
  obtain m where m: "r = JObj m" "plain (JObj m)" using resolution_plain r by blast
  have "own_field (JObj m) ''kind'' = JStr ''resolution''" unfolding m(1) [symmetric] r by (simp add: resolution_record_def own_field_def)
  then have "approval_inv (ap_log (appendJsonl other r (iw_log (as_world s))) s)"
    unfolding m(1) by (intro inv_log_step [OF assms(1) m(2)]) simp
  then show ?thesis unfolding ap_append(1)
    by (rule inv_phase_step) (simp_all add: ap_append(2) phase_ok_def phase_uuid_def)
next
  case (ap_settle p i uuid items it)
  have bare: "bare_items items" using inv_items [OF assms(1)] ap_settle(3) by (metis option.inject)
  show ?thesis unfolding ap_settle(1)
  proof (rule inv_phase_step [OF assms(1)])
    show "phase_ok items' (if settled_by uuid it then ApSettled i uuid it else ApGone)"
      if "foldItems (iw_log (as_world s)) = Some items'" for items'
      using that ap_settle(3) won_item_settled [OF bare ap_settle(4)] by (auto simp: phase_ok_def)
  qed (simp add: ap_settle(2) phase_uuid_def)
next
  case (ap_publish p i uuid it self obs)
  obtain items where items: "foldItems (iw_log (as_world s)) = Some items" "\<forall>p. phase_ok items (as_phase s p)"
    by (rule inv_items [OF assms(1)])
  have won: "settled_item items (JStr i) it" "settled_by uuid it"
    using items(2) ap_publish(2) by (auto simp: phase_ok_def dest!: spec [of _ p])
  have log: "iw_log (fst (publishApprovalResolution self obs it (as_world s))) = iw_log (as_world s)"
    using publish_effect(1) by (cases "publishApprovalResolution self obs it (as_world s)") simp
  show ?thesis unfolding ap_publish(1)
    by (rule inv_phase_step [OF inv_publish_step [OF assms(1) items(1) won(1)]])
      (use log items(1) won in \<open>auto simp: phase_ok_def phase_uuid_def ap_publish(2)\<close>)
next
  case (ap_poll p items k it)
  show ?thesis unfolding ap_poll(1)
    by (rule inv_phase_step [OF assms(1)])
      (use ap_poll(3-5) in \<open>auto simp: phase_ok_def phase_uuid_def settled_item_def\<close>)
next
  case (ap_published p it self obs)
  obtain items where items: "foldItems (iw_log (as_world s)) = Some items" "\<forall>p. phase_ok items (as_phase s p)"
    by (rule inv_items [OF assms(1)])
  obtain k where "settled_item items k it"
    using items(2) ap_published(2) by (auto simp: phase_ok_def dest!: spec [of _ p])
  then show ?thesis unfolding ap_published(1)
    by (intro inv_phase_step [OF inv_publish_step [OF assms(1) items(1)]]) (auto simp: phase_ok_def phase_uuid_def)
next
  case (ap_crash p)
  then show ?thesis by (simp add: inv_phase_step [OF assms(1)] phase_ok_def phase_uuid_def)
qed

interpretation approvals: machine approval_init "approval_step other" approval_inv for other
proof
  fix s
  assume "approval_init s"
  moreover have "foldItems [] = Some []" by (simp add: foldItems_def)
  ultimately show "approval_inv s"
    by (simp add: approval_init_def approval_inv_def whole_def bare_items_def phase_ok_def phase_uuid_def)
next
  fix s t
  assume "approval_inv s" and "approval_step other s t"
  then show "approval_inv t" by (rule approval_inv_step)
qed

definition told :: "approval_phase \<Rightarrow> string \<Rightarrow> bool" where
  \<comment> \<open>the process was told that its decision won\<close>
  "told x i = (case x of ApSettled j _ _ \<Rightarrow> i = j | ApTold j _ \<Rightarrow> i = j | _ \<Rightarrow> False)"

text \<open>C32. One decision per request, whatever operators and schedulers race on it: at most one process is told that
  its decision won; once a process is told, the log holds that decision for every reader; a published
  decision file states what the log holds; and at most one event announces it.\<close>

theorem one_decision_per_request:
  assumes "reachable approval_init (approval_step other) s"
  shows "(told (as_phase s p) i \<and> told (as_phase s q) i \<longrightarrow> p = q)
    \<and> (told (as_phase s p) i \<longrightarrow>
        (\<exists>items it. foldItems (iw_log (as_world s)) = Some items \<and> settled_item items (JStr i) it
           \<and> Some (text_of (own_field (own_field it ''resolution'') ''resolutionId'')) = phase_uuid (as_phase s p)))
    \<and> (iw_decision (as_world s) i = Some d \<longrightarrow>
        (\<exists>items it. foldItems (iw_log (as_world s)) = Some items \<and> settled_item items (JStr i) it \<and> d = decision_record it))
    \<and> length (filter (resolved_event i) (iw_events (as_world s))) \<le> 1"
proof -
  have inv: "approval_inv s" by (rule approvals.reachable_inv [OF assms])
  obtain items where items: "foldItems (iw_log (as_world s)) = Some items" "\<forall>p. phase_ok items (as_phase s p)"
    "\<forall>i d. iw_decision (as_world s) i = Some d \<longrightarrow> (\<exists>it. settled_item items (JStr i) it \<and> d = decision_record it)"
    by (rule inv_items [OF inv])
  have won: "\<exists>it u. settled_item items (JStr i) it \<and> settled_by u it \<and> phase_uuid (as_phase s p) = Some u"
    if "told (as_phase s p) i" for p
    using that spec [OF items(2), of p] by (cases "as_phase s p") (auto simp: told_def phase_ok_def phase_uuid_def)
  have "p = q" if t: "told (as_phase s p) i" "told (as_phase s q) i"
  proof -
    obtain it u it' v where "settled_item items (JStr i) it" "settled_by u it" "phase_uuid (as_phase s p) = Some u"
      "settled_item items (JStr i) it'" "settled_by v it'" "phase_uuid (as_phase s q) = Some v"
      using won [OF t(1)] won [OF t(2)] by blast
    moreover from this have "u = v" by (simp add: settled_item_def settled_by_def)
    ultimately show ?thesis using inv_others(3) [OF inv] by blast
  qed
  moreover have "\<exists>it. settled_item items (JStr i) it
      \<and> Some (text_of (own_field (own_field it ''resolution'') ''resolutionId'')) = phase_uuid (as_phase s p)"
    if "told (as_phase s p) i"
    using won [OF that] by (auto simp: settled_by_def text_of_def)
  ultimately show ?thesis using items(1,3) inv_others(4) [OF inv] by blast
qed

section \<open>Authority\<close>

lemma spread_new: "distinct (map fst (m @ r)) \<Longrightarrow> spread (JObj m) (JObj r) = JObj (m @ r)"
proof (induction r arbitrary: m)
  case (Cons e r)
  obtain k v where e: "e = (k, v)" by (cases e)
  have "amap_set k v m = m @ [(k, v)]" using Cons.prems by (intro amap_set_new) (simp add: e)
  moreover have "spread (JObj (m @ [e])) (JObj r) = JObj ((m @ [e]) @ r)" using Cons.prems by (intro Cons.IH) simp
  ultimately show ?case by (simp add: spread_def set_field_def e)
qed (simp add: spread_def)

definition plain_request :: "json \<Rightarrow> string \<Rightarrow> bool" where
  "plain_request req i =
     (\<exists>r. req = JObj r \<and> plain req \<and> {''kind'', ''state'', ''resolution''} \<inter> set (map fst r) = {}
        \<and> own_field req ''requestId'' = JStr i \<and> isValidApprovalRequestId i)"

lemma plain_requestE:
  assumes "plain_request req i"
  obtains m where "request_record req = JObj m" and "plain (JObj m)" and "own_field (JObj m) ''kind'' = JStr ''request''"
    and "own_field (JObj m) ''resolution'' = JUndef" and "\<forall>k. k \<noteq> ''kind'' \<longrightarrow> own_field (JObj m) k = own_field req k"
    and "own_field req ''requestId'' = JStr i" and "isValidApprovalRequestId i"
proof -
  obtain r where r: "req = JObj r" "plain req" "''kind'' \<notin> set (map fst r)" "''resolution'' \<notin> set (map fst r)"
      "own_field req ''requestId'' = JStr i" "isValidApprovalRequestId i"
    using assms unfolding plain_request_def by auto
  let ?m = "[(''kind'', JStr ''request'')] @ r"
  have d: "distinct (map fst ?m)" using r(1,2,3) by simp
  have "request_record req = JObj ?m" unfolding request_record_def r(1) by (rule spread_new [OF d])
  moreover have "plain (JObj ?m)" using r(1,2) d by simp
  moreover have "own_field (JObj ?m) ''resolution'' = JUndef" using r(4) by (simp add: own_field_def map_of_eq_None_iff [THEN iffD2])
  moreover have "\<forall>k. k \<noteq> ''kind'' \<longrightarrow> own_field (JObj ?m) k = own_field req k" by (simp add: own_field_def r(1))
  ultimately show thesis using that r(5,6) by (simp add: own_field_def)
qed

lemma asked_item:
  assumes "whole (iw_log w)" and "foldItems (iw_log w) = Some items" and "item_of items (JStr i) = None"
    and "plain (JObj m)" and "own_field (JObj m) ''kind'' = JStr ''request''" and "own_field (JObj m) ''requestId'' = JStr i"
  shows "foldItems (appendJsonl other (JObj m) (iw_log w)) = Some (items @ [(JStr i, set_field ''state'' (JStr ''pending'') (strip (JObj m)))])"
  unfolding fold_append [OF assms(1,4)] assms(2)
  using assms(3,5,6) by (simp add: fold_record_def own_strip [OF assms(4)] Let_def del: strip.simps) (simp add: own_field_def)

lemma decided_item:
  assumes "whole raw" and "foldItems raw = Some items" and "item_of items (JStr i) = Some it"
    and "isPendingInboxItemState (own_field it ''state'')"
  shows "\<exists>items'. foldItems (appendJsonl other (resolution_record run i u t approve opts) raw) = Some items'
      \<and> item_of items' (JStr i) = Some (settle_item (strip (resolution_record run i u t approve opts)) it)"
    and "whole (appendJsonl other (resolution_record run i u t approve opts) raw)"
proof -
  let ?r = "resolution_record run i u t approve opts"
  obtain m where m: "?r = JObj m" "plain (JObj m)" using resolution_plain by blast
  have f: "own_field ?r ''kind'' = JStr ''resolution''" "own_field ?r ''requestId'' = JStr i"
    by (simp_all add: resolution_record_def own_field_def)
  then have f': "own_field (strip ?r) ''kind'' = JStr ''resolution''" "own_field (strip ?r) ''requestId'' = JStr i"
    using own_strip [OF m(2)] m(1) by simp_all
  have "strip ?r \<noteq> JNull" using f'(1) by (auto simp: own_field_def)
  then have "fold_record (strip ?r) items = Some (map (\<lambda>e. if same_key (fst e) (JStr i) then (fst e, settle_item (strip ?r) (snd e)) else e) items)"
    using f' assms(3,4) by (simp add: fold_record_def Let_def)
  then show "\<exists>items'. foldItems (appendJsonl other ?r raw) = Some items' \<and> item_of items' (JStr i) = Some (settle_item (strip ?r) it)"
    using fold_append [OF assms(1) m(2), of other] assms(2,3) m(1) by (simp add: item_of_settle)
  show "whole (appendJsonl other ?r raw)" unfolding m(1) by (rule rows_append(2) [OF assms(1) m(2)])
qed

lemma resolution_fields:
  "own_field (strip (resolution_record run i u t approve opts)) ''resolutionId'' = JStr u"
  "own_field (strip (resolution_record run i u t approve opts)) ''decision'' = JStr (if approve then ''approve'' else ''deny'')"
proof -
  have "plain (resolution_record run i u t approve opts)" using resolution_plain by metis
  then show "own_field (strip (resolution_record run i u t approve opts)) ''resolutionId'' = JStr u"
    "own_field (strip (resolution_record run i u t approve opts)) ''decision'' = JStr (if approve then ''approve'' else ''deny'')"
    by (simp_all add: own_strip) (simp_all add: resolution_record_def own_field_def)
qed

lemma settle_wins:
  assumes "whole (iw_log w)" and "foldItems (iw_log w) = Some items" and "item_of items (JStr i) = Some it"
    and "isPendingInboxItemState (own_field it ''state'')" and "isValidApprovalRequestId i"
  obtains w' items' where "settle_resolution c i (append_resolution env c i approve opts w)
        = (w', Inr \<lparr>rr_item = Some (settle_item (strip (resolution_record (ac_run c) i (ac_uuid c) (ac_at c) approve opts)) it), rr_won = True, rr_error = None\<rparr>)"
    and "iw_log w' = appendJsonl (ae_other env) (resolution_record (ac_run c) i (ac_uuid c) (ac_at c) approve opts) (iw_log w)"
    and "foldItems (iw_log w') = Some items'"
    and "item_of items' (JStr i) = Some (settle_item (strip (resolution_record (ac_run c) i (ac_uuid c) (ac_at c) approve opts)) it)"
proof -
  let ?r = "resolution_record (ac_run c) i (ac_uuid c) (ac_at c) approve opts"
  let ?w = "append_resolution env c i approve opts w" and ?it = "settle_item (strip ?r) it"
  have log: "iw_log ?w = appendJsonl (ae_other env) ?r (iw_log w)" by (simp add: append_resolution_def)
  obtain items' where f: "foldItems (iw_log ?w) = Some items'" "item_of items' (JStr i) = Some ?it"
    using decided_item(1) [OF assms(1-4)] unfolding log by blast
  obtain m where m: "?r = JObj m" "plain (JObj m)" using resolution_plain by blast
  have rec: "is_record it" "own_field it ''requestId'' = JStr i"
    using item_of_ok [OF folded_ok [OF assms(2)] assms(3)] by simp_all
  have won: "settled_by (ac_uuid c) ?it" using settle_item_fields [OF rec(1)] by (simp add: settled_by_def resolution_fields)
  obtain w' e where pub: "publishApprovalResolution (ac_self c) (ac_obs c) ?it ?w = (w', e)" by fastforce
  have "e = Inr ()"
    using pub assms(5) settle_item_fields [OF rec(1)] rec(2)
    by (auto simp: publishApprovalResolution_def Let_def text_of_def split: if_splits)
  then show thesis
    using that [of w' items'] pub f won publish_effect(1) [OF pub] log by (simp add: settle_resolution_def)
qed

definition engine_opts :: "bool \<Rightarrow> resolve_opts" where
  "engine_opts owned = \<lparr>ro_by = Some ''engine'', ro_reason = Some (if owned then owned_reason else denied_reason), ro_source = Some ''scheduler''\<rparr>"

text \<open>C33. Authority over a request: an external one is recorded and stays pending, with one row written and nothing
  published; any other is decided by the engine when it is recorded, approved exactly if its target
  lies in the scratch of its stage, and no later call of \<open>resolveRequest\<close> changes that decision.\<close>

theorem only_external_requests_wait:
  assumes "whole (iw_log w)" and "foldItems (iw_log w) = Some items" and "item_of items (JStr i) = None" and "plain_request req i"
  shows "if own_field req ''risk'' = JStr ''external''
    then \<exists>it. recordRequest env c req w = (w\<lparr>iw_log := appendJsonl (ae_other env) (request_record req) (iw_log w)\<rparr>, Inr (Some it, True))
           \<and> isPendingInboxItemState (own_field it ''state'')
    else \<exists>w' it. recordRequest env c req w = (w', Inr (Some it, True))
           \<and> own_field it ''state'' = JStr (if isStageOwnedApprovalTarget env (own_field req ''stageId'') (own_field req ''target'')
               then ''approved'' else ''denied'')
           \<and> (\<forall>env' c' approve opts. resolveRequest env' c' i approve opts w'
               = (w', Inr \<lparr>rr_item = Some it, rr_won = False, rr_error = Some (AlreadySettled it)\<rparr>))"
proof -
  obtain m where m: "request_record req = JObj m" "plain (JObj m)" "own_field (JObj m) ''kind'' = JStr ''request''"
      "own_field (JObj m) ''resolution'' = JUndef" "\<forall>k. k \<noteq> ''kind'' \<longrightarrow> own_field (JObj m) k = own_field req k"
      "own_field req ''requestId'' = JStr i" "isValidApprovalRequestId i"
    using assms(4) by (rule plain_requestE)
  let ?it = "set_field ''state'' (JStr ''pending'') (JObj m)" and ?sit = "set_field ''state'' (JStr ''pending'') (strip (JObj m))"
  let ?w = "w\<lparr>iw_log := appendJsonl (ae_other env) (JObj m) (iw_log w)\<rparr>"
  have f: "own_field ?it ''state'' = JStr ''pending''" "own_field ?sit ''state'' = JStr ''pending''"
    by (simp_all add: set_field_own is_record_def)
  have same: "own_field ?it k = own_field req k" if "k \<notin> {''kind'', ''state''}" for k using that m(5) by (auto simp: set_field_own)
  show ?thesis
  proof (cases "own_field req ''risk'' = JStr ''external''")
    case True
    then have "recordRequest env c req w = (?w, Inr (Some ?it, True))"
      using same [of "''risk''"] m(1,6,7) assms(2,3) by (simp add: recordRequest_def Let_def text_of_def)
    then show ?thesis using True f(1) by (auto simp: isPendingInboxItemState_def m(1))
  next
    case False
    let ?owned = "isStageOwnedApprovalTarget env (own_field req ''stageId'') (own_field req ''target'')"
    let ?r = "resolution_record (ac_run c) i (ac_uuid c) (ac_at c) ?owned (engine_opts ?owned)"
    have fold: "foldItems (iw_log ?w) = Some (items @ [(JStr i, ?sit)])"
      using asked_item [OF assms(1-3) m(2,3)] m(5,6) by simp
    have item: "item_of (items @ [(JStr i, ?sit)]) (JStr i) = Some ?sit" using assms(3) by (simp add: item_of_snoc same_key_def)
    have whole: "whole (iw_log ?w)" using rows_append(2) [OF assms(1) m(2)] by simp
    have pend: "isPendingInboxItemState (own_field ?sit ''state'')" unfolding isPendingInboxItemState_def by (rule f(2))
    obtain w' items' where w': "settle_resolution c i (append_resolution env c i ?owned (engine_opts ?owned) ?w)
          = (w', Inr \<lparr>rr_item = Some (settle_item (strip ?r) ?sit), rr_won = True, rr_error = None\<rparr>)"
        "iw_log w' = appendJsonl (ae_other env) ?r (iw_log ?w)"
        "foldItems (iw_log w') = Some items'" "item_of items' (JStr i) = Some (settle_item (strip ?r) ?sit)"
      by (rule settle_wins [OF whole fold item pend m(7)])
    have "engine_decision env c ?it ?w = settle_resolution c i (append_resolution env c i ?owned (engine_opts ?owned) ?w)"
      using fold item m(6,7) f(2) same [of "''stageId''"] same [of "''target''"] same [of "''requestId''"]
      by (simp add: engine_decision_def with_pending_def decidable_def isPendingInboxItemState_def engine_opts_def Let_def text_of_def)
    then have rec: "recordRequest env c req w = (w', Inr (Some (settle_item (strip ?r) ?sit), True))"
      using w'(1) same [of "''risk''"] m(1,6,7) assms(2,3) False f(1)
      by (simp add: recordRequest_def Let_def text_of_def isPendingInboxItemState_def)
    have "is_record ?sit" by (simp add: set_field_def is_record_def)
    then have st: "own_field (settle_item (strip ?r) ?sit) ''state'' = JStr (if ?owned then ''approved'' else ''denied'')"
      using settle_item_fields by (simp add: resolution_fields)
    have "resolveRequest env' c' i approve opts w'
        = (w', Inr \<lparr>rr_item = Some (settle_item (strip ?r) ?sit), rr_won = False, rr_error = Some (AlreadySettled (settle_item (strip ?r) ?sit))\<rparr>)"
      for env' c' approve opts
      using w'(3,4) m(7) st by (simp add: resolveRequest_def with_pending_def decidable_def isPendingInboxItemState_def)
    then show ?thesis using False rec st by auto
  qed
qed

section \<open>An unterminated row\<close>

lemma joined_records_unreadable:
  assumes "plain (JObj v)" and "plain (JObj w)"
  shows "json_parse (json_text other (JObj v) @ json_text other (JObj w)) = None"
proof -
  let ?v = "json_text other (JObj v)" and ?w = "json_text other (JObj w)"
  have r: "reads other (strip (JObj v))" by (rule reads_clean [OF clean_strip [OF assms(1)]]) simp
  have "p_value (Suc (length (?v @ ?w))) (?v @ ?w) = Some (strip (JObj v), ?w)"
    using r [unfolded reads_def strip_text, rule_format, of "length (?v @ ?w)" ?w] by (simp add: delim_def is_digit_def)
  moreover have "skip_ws ?w \<noteq> []" by (simp add: skip_ws_def)
  ultimately show ?thesis by (simp add: json_parse_def del: json_text.simps)
qed

text \<open>C34. The log does not survive the loss of one newline: when a crash cuts the end of a row that is otherwise
  complete, readers see its decision until the next append of any process, which makes both rows
  unreadable, so that the decision is undone and the appended row has no effect.\<close>

theorem unterminated_row_undoes_decision:
  assumes "whole raw" and "plain (JObj v)" and "plain (JObj w)"
  shows "foldItems (raw @ json_text other (JObj v)) = foldItems (appendJsonl other (JObj v) raw)
    \<and> foldItems (appendJsonl other (JObj w) (raw @ json_text other (JObj v))) = foldItems raw"
proof -
  let ?v = "json_text other (JObj v)" and ?w = "json_text other (JObj w)"
  have one: "split_on line_feed ?v = [?v]" "split_on line_feed (?v @ ?w) = [?v @ ?w]"
    by (intro split_one; simp add: record_line(4) [OF assms(2)] record_line(4) [OF assms(3)] del: json_text.simps)+
  have v: "parseJsonl ?v = [strip (JObj v)]"
    using jsonl_record [OF assms(2), of other] unfolding parseJsonl_def one(1) by (simp only: List.map_filter_simps option.case)
  obtain a where a: "?v = CHR ''{'' # a @ [CHR ''}'']" using record_text by blast
  obtain b where b: "?w = CHR ''{'' # b @ [CHR ''}'']" using record_text by blast
  have "trim (?v @ ?w) = ?v @ ?w"
    using trim_ends [of "CHR ''{''" "CHR ''}''" "a @ ''}{'' @ b"] unfolding a b by (simp add: is_space_def)
  moreover have "?v @ ?w \<noteq> []" unfolding a by simp
  ultimately have "jsonl_row (?v @ ?w) = None" unfolding jsonl_row_def using joined_records_unreadable [OF assms(2,3), of other] by (simp del: json_text.simps)
  then have "parseJsonl (?v @ ?w) = []" unfolding parseJsonl_def one(2) by (simp add: List.map_filter_simps del: json_text.simps)
  then have "parseJsonl ((?v @ ?w) @ line_feed # []) = []" by (simp only: rows_terminated) simp
  then have "parseJsonl (raw @ ((?v @ ?w) @ line_feed # [])) = parseJsonl raw" by (simp only: rows_whole [OF assms(1)]) simp
  then show ?thesis
    unfolding foldItems_def rows_append(1) [OF assms(1,2)]
    by (simp only: rows_whole [OF assms(1)] v appendJsonl_def append_assoc append_Cons append_Nil)
qed

definition asked_row :: "string \<Rightarrow> json" where
  "asked_row i = JObj [(''kind'', JStr ''request''), (''requestId'', JStr i), (''action'', JStr ''deploy''), (''risk'', JStr ''external'')]"

definition approved_row :: "string \<Rightarrow> json" where
  "approved_row i = resolution_record ''r'' i ''u'' ''t'' True \<lparr>ro_by = None, ro_reason = None, ro_source = None\<rparr>"

definition state_in :: "string \<Rightarrow> string \<Rightarrow> json" where
  "state_in raw i = (case Option.bind (foldItems raw) (\<lambda>items. item_of items (JStr i)) of None \<Rightarrow> JUndef | Some it \<Rightarrow> own_field it ''state'')"

theorem unterminated_row_undoes_decision_witness:
  "let other = (\<lambda>_. []); raw = appendJsonl other (asked_row ''a'') []; torn = raw @ json_text other (approved_row ''a'') in
     state_in torn ''a'' = JStr ''approved'' \<and> state_in (appendJsonl other (asked_row ''b'') torn) ''a'' = JStr ''pending''
     \<and> state_in (appendJsonl other (asked_row ''b'') torn) ''b'' = JUndef"
proof -
  let ?other = "\<lambda>_ :: rat. [] :: string"
  let ?raw = "appendJsonl ?other (asked_row ''a'') []"
  obtain v where v: "approved_row ''a'' = JObj v" "plain (JObj v)" unfolding approved_row_def using resolution_plain by metis
  have ask: "\<exists>w. asked_row i = JObj w \<and> plain (JObj w)" for i by (simp add: asked_row_def)
  obtain w where w: "asked_row ''b'' = JObj w" "plain (JObj w)" using ask by blast
  have whole: "whole ?raw" by (simp add: whole_def appendJsonl_def)
  note eq = unterminated_row_undoes_decision [OF whole v(2) w(2), of ?other, folded v(1) w(1)]
  have "foldItems ?raw = Some [(JStr ''a'', set_field ''state'' (JStr ''pending'') (asked_row ''a''))]" by code_simp
  moreover have "foldItems (appendJsonl ?other (approved_row ''a'') ?raw)
      = Some [(JStr ''a'', settle_item (approved_row ''a'') (set_field ''state'' (JStr ''pending'') (asked_row ''a'')))]" by code_simp
  ultimately show ?thesis unfolding Let_def state_in_def
    using eq by (simp add: item_of_def same_key_def settle_item_def set_field_def own_field_def asked_row_def approved_row_def resolution_record_def)
qed

section \<open>A race\<close>

definition plain_opts :: resolve_opts where
  "plain_opts = \<lparr>ro_by = None, ro_reason = None, ro_source = None\<rparr>"

definition denied_row :: json where
  "denied_row = resolution_record ''r'' ''a'' ''v'' ''t'' False plain_opts"

definition asked_log :: string where "asked_log = appendJsonl (\<lambda>_. []) (asked_row ''a'') []"
definition approved_log :: string where "approved_log = appendJsonl (\<lambda>_. []) (approved_row ''a'') asked_log"
definition raced_log :: string where "raced_log = appendJsonl (\<lambda>_. []) denied_row approved_log"
  \<comment> \<open>one request and the resolutions of two operators\<close>

definition idle_inbox :: approval_state where
  "idle_inbox = \<lparr>as_world = \<lparr>iw_log = [], iw_decision = (\<lambda>_. None), iw_events = []\<rparr>, as_phase = (\<lambda>_. ApIdle), as_uuids = {}\<rparr>"

lemma idle_inbox [simp]: "iw_log (as_world idle_inbox) = []" "as_phase idle_inbox p = ApIdle" "as_uuids idle_inbox = {}"
  by (simp_all add: idle_inbox_def)

definition raced :: approval_state where
  "raced = ap_phase 1 (ApAppended ''a'' ''v'') (ap_phase 0 (ApSettled ''a'' ''u''
       (settle_item (approved_row ''a'') (set_field ''state'' (JStr ''pending'') (asked_row ''a''))))
     (ap_log (raced_log) (idle_inbox\<lparr>as_uuids := {''v'', ''u''}\<rparr>)))"

lemma raced_items:
  "foldItems (asked_log) = Some [(JStr ''a'', set_field ''state'' (JStr ''pending'') (asked_row ''a''))]"
  "foldItems (raced_log) = Some [(JStr ''a'', settle_item (approved_row ''a'') (set_field ''state'' (JStr ''pending'') (asked_row ''a'')))]"
  by code_simp+

lemma raced_decidable: "decidable [(JStr ''a'', set_field ''state'' (JStr ''pending'') (asked_row ''a''))] ''a''
    = Inr (set_field ''state'' (JStr ''pending'') (asked_row ''a''))"
  by code_simp

lemma ap_phase_swap: "p \<noteq> q \<Longrightarrow> ap_phase p x (ap_phase q y s) = ap_phase q y (ap_phase p x s)"
  by (simp add: ap_phase_def fun_upd_twist)

lemma ap_phase_again [simp]: "ap_phase p x (ap_phase p y s) = ap_phase p x s"
  by (simp add: ap_phase_def)

lemma ap_log_phase [simp]: "ap_log raw (ap_phase p x s) = ap_phase p x (ap_log raw s)" "ap_log raw (ap_log raw' s) = ap_log raw s"
  "(ap_phase p x s)\<lparr>as_uuids := us\<rparr> = ap_phase p x (s\<lparr>as_uuids := us\<rparr>)" "(ap_log raw s)\<lparr>as_uuids := us\<rparr> = ap_log raw (s\<lparr>as_uuids := us\<rparr>)"
  by (simp_all add: ap_log_def ap_phase_def)

lemma raced_reachable: "reachable approval_init (approval_step (\<lambda>_. [])) raced"
proof -
  let ?step = "approval_step (\<lambda>_. [])" and ?deny = "resolution_record ''r'' ''a'' ''v'' ''t'' False plain_opts"
  let ?item = "set_field ''state'' (JStr ''pending'') (asked_row ''a'')"
  have external: "own_field ?item ''risk'' = JStr ''external'' \<or> ro_source plain_opts = Some ''scheduler''" by code_simp
  have valid: "isValidApprovalRequestId ''a''" by code_simp
  have approve: "approved_row ''a'' = resolution_record ''r'' ''a'' ''u'' ''t'' True plain_opts" by (simp add: approved_row_def plain_opts_def)
  note logs = asked_log_def approved_log_def raced_log_def [unfolded denied_row_def]
  obtain m where m: "asked_row ''a'' = JObj m" "request_record (asked_row ''a'') = JObj m" "plain (JObj m)"
    "own_field (JObj m) ''kind'' = JStr ''request''" "own_field (JObj m) ''resolution'' = JUndef"
    by (simp add: asked_row_def request_record_def spread_def set_field_def own_field_def)
  have "reachable approval_init ?step idle_inbox" by (rule reach_init) (simp add: approval_init_def idle_inbox_def)
  then have "reachable approval_init ?step (ap_log (asked_log) idle_inbox)"
    by (rule reach_step) (use ap_request [OF m(2-5), of "\<lambda>_. []" idle_inbox] in \<open>simp add: logs(1) m(1)\<close>)
  then have "reachable approval_init ?step (ap_phase 0 (ApReady ''a'' ''u'' (approved_row ''a''))
      (ap_log (asked_log) (idle_inbox\<lparr>as_uuids := {''u''}\<rparr>)))"
    by (rule reach_step) (use ap_begin [of "ap_log (asked_log) idle_inbox" 0 "''a''" _ _ plain_opts "''u''" "\<lambda>_. []" "''r''" "''t''" True]
      raced_items(1) raced_decidable external valid in \<open>simp add: approve\<close>)
  then have "reachable approval_init ?step (ap_phase 1 (ApReady ''a'' ''v'' ?deny) (ap_phase 0 (ApReady ''a'' ''u'' (approved_row ''a''))
      (ap_log (asked_log) (idle_inbox\<lparr>as_uuids := {''v'', ''u''}\<rparr>))))" (is "reachable _ _ ?s3")
    by (rule reach_step) (use ap_begin [of "ap_phase 0 (ApReady ''a'' ''u'' (approved_row ''a'')) (ap_log (asked_log) (idle_inbox\<lparr>as_uuids := {''u''}\<rparr>))"
        1 "''a''" _ _ plain_opts "''v''" "\<lambda>_. []" "''r''" "''t''" False]
      raced_items(1) raced_decidable external valid in simp)
  then have "reachable approval_init ?step (ap_phase 1 (ApReady ''a'' ''v'' ?deny) (ap_phase 0 (ApAppended ''a'' ''u'')
      (ap_log (approved_log) (idle_inbox\<lparr>as_uuids := {''v'', ''u''}\<rparr>))))" (is "reachable _ _ ?s4")
    by (rule reach_step) (use ap_append [of ?s3 0 "''a''" "''u''" "approved_row ''a''" "\<lambda>_. []"] in \<open>simp add: logs(2) ap_phase_swap [of 0 "Suc 0"]\<close>)
  then have "reachable approval_init ?step (ap_phase 1 (ApAppended ''a'' ''v'') (ap_phase 0 (ApAppended ''a'' ''u'')
      (ap_log (raced_log) (idle_inbox\<lparr>as_uuids := {''v'', ''u''}\<rparr>))))" (is "reachable _ _ ?s5")
    by (rule reach_step) (use ap_append [of ?s4 1 "''a''" "''v''" ?deny "\<lambda>_. []"] in \<open>simp add: logs(3)\<close>)
  then show ?thesis
  proof (rule reach_step)
    let ?won = "settle_item (approved_row ''a'') ?item"
    have won: "settled_by ''u'' ?won" "item_of [(JStr ''a'', ?won)] (JStr ''a'') = Some ?won" by code_simp+
    have "as_phase ?s5 0 = ApAppended ''a'' ''u''" "foldItems (iw_log (as_world ?s5)) = Some [(JStr ''a'', ?won)]"
      using raced_items(2) by simp_all
    from ap_settle [OF this won(2), of "\<lambda>_. []"] won(1) show "?step ?s5 raced"
      by (simp add: raced_def ap_phase_swap [of 0 "Suc 0"])
  qed
qed

theorem one_decision_per_request_witness:
  "\<not> told (as_phase raced 1) ''a'' \<and> (\<exists>items it. foldItems (iw_log (as_world raced)) = Some items \<and> settled_item items (JStr ''a'') it
     \<and> Some (text_of (own_field (own_field it ''resolution'') ''resolutionId'')) = phase_uuid (as_phase raced 0))"
proof -
  have "told (as_phase raced 0) ''a''" by (simp add: raced_def told_def)
  then show ?thesis using one_decision_per_request [OF raced_reachable, of 0 "''a''" 1] by auto
qed

definition scratch_request :: json where
  "scratch_request = JObj [(''requestId'', JStr ''a''), (''action'', JStr ''write''), (''risk'', JStr ''write''), (''stageId'', JStr ''build''),
     (''target'', JStr ''stages/build/tmp'')]"

theorem only_external_requests_wait_witness:
  "\<exists>w' it. recordRequest \<lparr>ae_other = (\<lambda>_. []), ae_run = ''/runs/r'', ae_fs = (\<lambda>_. Inr None)\<rparr>
      \<lparr>ac_run = ''r'', ac_uuid = ''u'', ac_at = ''t'', ac_self = 1, ac_obs = ObsMissing\<rparr> scratch_request
      \<lparr>iw_log = [], iw_decision = (\<lambda>_. None), iw_events = []\<rparr> = (w', Inr (Some it, True)) \<and> own_field it ''state'' = JStr ''approved''"
proof -
  let ?env = "\<lparr>ae_other = (\<lambda>_. []), ae_run = ''/runs/r'', ae_fs = (\<lambda>_. Inr None)\<rparr>"
  let ?w = "\<lparr>iw_log = [], iw_decision = (\<lambda>_. None), iw_events = []\<rparr>"
  have "plain_request scratch_request ''a''"
    by (simp add: plain_request_def scratch_request_def own_field_def isValidApprovalRequestId_def) code_simp
  moreover have "isStageOwnedApprovalTarget ?env (JStr ''build'') (JStr ''stages/build/tmp'')" by code_simp
  moreover have "foldItems [] = Some []" by (simp add: foldItems_def)
  ultimately show ?thesis
    using only_external_requests_wait [of ?w "[]" "''a''" scratch_request ?env]
    by (simp add: whole_def scratch_request_def own_field_def) blast
qed

end
