(* ===== verification/Guidance.thy ===== *)
theory Guidance
  imports Ledger_Entry Registry_Maintenance Engine_Paths
begin

text \<open>
  Guidance of a run: \<open>src/src/guidance.ts\<close>.  Messages to stages are appended to a ledger text as framed
  envelopes, one line of JSON metadata that states the length of the body, then the body.  The
  reader takes envelopes by their stated length, so that text inside a body that looks like an envelope is
  not one, and delivers to a stage what is addressed to it.

  Two of the code's regular expressions are read with a small matcher (\<open>rx\<close>); the other two are recursive
  functions.  The digest of an id is an argument, and so is the clock.
\<close>

section \<open>Envelopes\<close>

datatype guidance_source = FromSupervisor | FromOperator | FromScheduler

record guidance =
  gd_id :: string
  gd_target :: string
  gd_source :: guidance_source
  gd_createdAt :: string
  gd_body :: string
  gd_attempt :: "rat option"
  gd_criteria :: "string list option"
  gd_quarantine :: "string option"
    \<comment> \<open>the reason of a quarantined envelope\<close>

primrec source_name :: "guidance_source \<Rightarrow> string" where
  "source_name FromSupervisor = ''supervisor''"
| "source_name FromOperator = ''operator''"
| "source_name FromScheduler = ''scheduler''"

fun crlf_to_lf :: "string \<Rightarrow> string" where
  "crlf_to_lf [] = []"
| "crlf_to_lf (c # s) =
     (if c = CHR 0x0D \<and> s \<noteq> [] \<and> hd s = line_feed then line_feed # crlf_to_lf (tl s) else c # crlf_to_lf s)"

definition boundedBody :: "string \<Rightarrow> string" where
  "boundedBody body = trim (crlf_to_lf body)"

definition envelopeId :: "(string \<Rightarrow> string) \<Rightarrow> (rat \<Rightarrow> string) \<Rightarrow> string \<Rightarrow> guidance_source \<Rightarrow> string \<Rightarrow> string \<Rightarrow> rat option \<Rightarrow> string" where
  "envelopeId sha other target source createdAt body attempt =
     take 20 (sha (json_text other (JArr ([JStr target, JStr (source_name source), JStr createdAt, JStr body]
        @ (case attempt of None \<Rightarrow> [] | Some n \<Rightarrow> [JNum n])))))"

definition ENVELOPE_PREFIX :: string where "ENVELOPE_PREFIX = ''<!-- flowcrew-guidance ''"

definition ENVELOPE_SUFFIX :: string where "ENVELOPE_SUFFIX = '' -->''"

definition envelope_metadata :: "guidance \<Rightarrow> json" where
  "envelope_metadata e =
     JObj ([(''version'', JNum 1), (''id'', JStr (gd_id e)), (''target'', JStr (gd_target e)),
            (''source'', JStr (source_name (gd_source e))), (''createdAt'', JStr (gd_createdAt e)),
            (''bodyLength'', JNum (of_nat (length (boundedBody (gd_body e)))))]
           @ (case gd_attempt e of None \<Rightarrow> [] | Some n \<Rightarrow> [(''attemptIndex'', JNum n)])
           @ (case gd_criteria e of None \<Rightarrow> [] | Some cs \<Rightarrow> if cs = [] then [] else [(''criterionIds'', JArr (map JStr cs))])
           @ (case gd_quarantine e of None \<Rightarrow> [] | Some r \<Rightarrow> [(''quarantined'', JBool True), (''quarantineReason'', JStr r)]))"

definition renderGuidanceEnvelope :: "(rat \<Rightarrow> string) \<Rightarrow> guidance \<Rightarrow> string" where
  "renderGuidanceEnvelope other e =
     ENVELOPE_PREFIX @ json_text other (envelope_metadata e) @ ENVELOPE_SUFFIX @ [line_feed] @ boundedBody (gd_body e)"

section \<open>The reader\<close>

definition framedBodyLength :: "string \<Rightarrow> nat option" where
  "framedBodyLength meta =
     (case json_parse meta of
        None \<Rightarrow> None
      | Some v \<Rightarrow> (case own_field v ''bodyLength'' of
          JNum q \<Rightarrow> if safe_integer q \<and> 0 \<le> q then Some (nat \<lfloor>q\<rfloor>) else None
        | _ \<Rightarrow> None))"

definition nonempty_text :: "json \<Rightarrow> string option" where
  "nonempty_text v = (case v of JStr s \<Rightarrow> if s = [] then None else Some s | _ \<Rightarrow> None)"

definition named_source :: "json \<Rightarrow> guidance_source option" where
  "named_source v =
     (if v = JStr ''supervisor'' then Some FromSupervisor else if v = JStr ''operator'' then Some FromOperator
      else if v = JStr ''scheduler'' then Some FromScheduler else None)"

definition text_items :: "json \<Rightarrow> string list option" where
  "text_items v =
     (case v of
        JArr vs \<Rightarrow> if list_all (\<lambda>x. nonempty_text x \<noteq> None) vs then Some (uniq (List.map_filter nonempty_text vs)) else None
      | _ \<Rightarrow> None)"

definition parseEnvelopeBlock :: "string \<Rightarrow> string \<Rightarrow> guidance option" where
  "parseEnvelopeBlock meta body =
     (case json_parse meta of
        None \<Rightarrow> None
      | Some v \<Rightarrow>
          (case (nonempty_text (own_field v ''id''), nonempty_text (own_field v ''target''),
                 named_source (own_field v ''source''), nonempty_text (own_field v ''createdAt'')) of
             (Some i, Some target, Some src, Some createdAt) \<Rightarrow>
               if own_field v ''version'' \<noteq> JNum 1 then None
               else Some \<lparr>gd_id = i, gd_target = target, gd_source = src, gd_createdAt = createdAt, gd_body = boundedBody body,
                  gd_attempt = (case own_field v ''attemptIndex'' of JNum q \<Rightarrow> if safe_integer q \<and> 0 < q then Some q else None | _ \<Rightarrow> None),
                  gd_criteria = text_items (own_field v ''criterionIds''),
                  gd_quarantine = (if own_field v ''quarantined'' = JBool True
                     then Some (case own_field v ''quarantineReason'' of JStr r \<Rightarrow> r | _ \<Rightarrow> ''quarantined guidance'') else None)\<rparr>
           | _ \<Rightarrow> None))"

fun last_closing :: "string \<Rightarrow> nat option" where
  \<comment> \<open>the length up to and including the last closing brace followed by the suffix\<close>
  "last_closing [] = None"
| "last_closing (c # s) =
     (case last_closing s of
        Some k \<Rightarrow> Some (Suc k)
      | None \<Rightarrow> if c = CHR ''}'' \<and> starts_with ENVELOPE_SUFFIX s then Some 1 else None)"

definition marker_here :: "string \<Rightarrow> (string \<times> nat) option" where
  \<comment> \<open>a marker at the start of the text: its metadata and its length with the newline\<close>
  "marker_here s =
     (let r = drop (length ENVELOPE_PREFIX) s; line = takeWhile (\<lambda>c. c \<noteq> line_feed) r in
      if \<not> starts_with ENVELOPE_PREFIX s \<or> line = [] \<or> hd line \<noteq> CHR ''{'' then None
      else case last_closing (tl line) of
        None \<Rightarrow> None
      | Some k \<Rightarrow>
          (let n = length ENVELOPE_PREFIX + Suc k + length ENVELOPE_SUFFIX in
           Some (take (Suc k) line, if drop n s \<noteq> [] \<and> hd (drop n s) = line_feed then Suc n else n)))"

fun find_marker :: "string \<Rightarrow> (nat \<times> string \<times> nat) option" where
  \<comment> \<open>the characters before the first marker, its metadata and its length\<close>
  "find_marker [] = None"
| "find_marker (c # s) =
     (case marker_here (c # s) of
        Some (meta, n) \<Rightarrow> Some (0, meta, n)
      | None \<Rightarrow> map_option (\<lambda>(k, m). (Suc k, m)) (find_marker s))"

lemma marker_length: "marker_here s = Some (meta, n) \<Longrightarrow> 0 < n \<and> s \<noteq> []"
  by (auto simp: marker_here_def Let_def starts_with_def ENVELOPE_PREFIX_def ENVELOPE_SUFFIX_def split: if_splits option.splits)

lemma find_marker_length: "find_marker s = Some (k, meta, n) \<Longrightarrow> 0 < n \<and> s \<noteq> []"
  by (induction s arbitrary: k) (auto dest: marker_length split: option.splits)

function envelopes_of :: "string \<Rightarrow> guidance list" where
  "envelopes_of s =
     (case find_marker s of
        None \<Rightarrow> []
      | Some (k, meta, n) \<Rightarrow>
          (let r = drop (k + n) s;
               len = (case framedBodyLength meta of
                  Some len \<Rightarrow> len
                | None \<Rightarrow> (case find_marker r of Some (j, _, _) \<Rightarrow> j | None \<Rightarrow> length r))
           in if length r < len then []
              else (case parseEnvelopeBlock meta (take len r) of
                  Some e \<Rightarrow> if gd_body e = [] then [] else [e]
                | None \<Rightarrow> []) @ envelopes_of (drop len r)))"
  by pat_completeness auto

termination
  by (relation "measure length") (auto dest!: find_marker_length)

declare envelopes_of.simps [simp del]

section \<open>The older syntax\<close>

definition RUN_WIDE_GUIDANCE_TARGET :: string where "RUN_WIDE_GUIDANCE_TARGET = ''*''"

definition legacy_header :: "string \<Rightarrow> (string \<times> nat) option" where
  \<comment> \<open>\<open>[name]:\<close> and the white space after it\<close>
  "legacy_header s =
     (case s of
        [] \<Rightarrow> None
      | c # r \<Rightarrow>
          (let name = (if starts_with ''*'' r then ''*'' else takeWhile name_char r); t = drop (length name) r in
           if c = CHR ''['' \<and> (name = ''*'' \<or> stage_id_text name) \<and> starts_with '']:'' t
           then Some (name, length name + 3 + length (takeWhile is_space (drop 2 t)))
           else None))"

definition legacy_here :: "bool \<Rightarrow> string \<Rightarrow> (string \<times> nat) option" where
  "legacy_here start s =
     (case if start then legacy_header s else None of
        Some h \<Rightarrow> Some h
      | None \<Rightarrow> (case s of
          [] \<Rightarrow> None
        | c # r \<Rightarrow> if c = line_feed then map_option (\<lambda>(name, n). (name, Suc n)) (legacy_header r) else None))"

fun legacy_find :: "bool \<Rightarrow> string \<Rightarrow> (nat \<times> string \<times> nat) option" where
  "legacy_find start [] = None"
| "legacy_find start (c # s) =
     (case legacy_here start (c # s) of
        Some (name, n) \<Rightarrow> Some (0, name, n)
      | None \<Rightarrow> map_option (\<lambda>(k, m). (Suc k, m)) (legacy_find False s))"

lemma legacy_header_length: "legacy_header s = Some (name, n) \<Longrightarrow> 0 < n"
proof (cases s)
  case (Cons c r)
  then show "legacy_header s = Some (name, n) \<Longrightarrow> 0 < n" unfolding legacy_header_def Let_def by (simp only: list.case split: if_splits) auto
qed (simp add: legacy_header_def)

lemma legacy_here_length: "legacy_here start s = Some (name, n) \<Longrightarrow> 0 < n"
proof (cases "if start then legacy_header s else None")
  case None
  then show "legacy_here start s = Some (name, n) \<Longrightarrow> 0 < n"
    unfolding legacy_here_def by (cases s) (auto split: if_splits)
next
  case (Some h)
  then show "legacy_here start s = Some (name, n) \<Longrightarrow> 0 < n"
    unfolding legacy_here_def using legacy_header_length by (auto split: if_splits)
qed

lemma legacy_find_length: "legacy_find start s = Some (k, name, n) \<Longrightarrow> 0 < n \<and> s \<noteq> []"
proof (induction s arbitrary: start k)
  case (Cons c s)
  show ?case
  proof (cases "legacy_here start (c # s)")
    case None
    then show ?thesis using Cons by auto
  next
    case (Some h)
    then show ?thesis using Cons.prems legacy_here_length [of start "c # s"] by (cases h) auto
  qed
qed simp

function legacy_sections :: "bool \<Rightarrow> string \<Rightarrow> (string \<times> string) list" where
  \<comment> \<open>the targets and texts of the old syntax\<close>
  "legacy_sections start s =
     (case legacy_find start s of
        None \<Rightarrow> []
      | Some (k, name, n) \<Rightarrow>
          (let r = drop (k + n) s; len = (case legacy_find False r of Some (j, _, _) \<Rightarrow> j | None \<Rightarrow> length r)
           in (name, take len r) # legacy_sections False r))"
  by pat_completeness auto

termination
  by (relation "measure (\<lambda>(_, s). length s)") (auto dest!: legacy_find_length)

declare legacy_sections.simps [simp del]

definition legacy_entry :: "(string \<Rightarrow> string) \<Rightarrow> (rat \<Rightarrow> string) \<Rightarrow> string \<Rightarrow> string \<Rightarrow> string \<Rightarrow> guidance" where
  "legacy_entry sha other target createdAt body =
     \<lparr>gd_id = envelopeId sha other target FromSupervisor createdAt body None, gd_target = target, gd_source = FromSupervisor,
      gd_createdAt = createdAt, gd_body = body, gd_attempt = None, gd_criteria = None, gd_quarantine = None\<rparr>"

definition parseGuidanceLedger :: "(string \<Rightarrow> string) \<Rightarrow> (rat \<Rightarrow> string) \<Rightarrow> string \<Rightarrow> guidance list" where
  "parseGuidanceLedger sha other raw =
     (let s = crlf_to_lf raw; legacy = (case find_marker s of Some (k, _, _) \<Rightarrow> take k s | None \<Rightarrow> s) in
      envelopes_of s @
      List.map_filter (\<lambda>(name, section). let body = boundedBody section in
          if body = [] then None
          else Some (legacy_entry sha other (if name = ''all'' then RUN_WIDE_GUIDANCE_TARGET else name) ''legacy'' body))
        (legacy_sections True legacy))"

section \<open>Delivery\<close>

datatype rx = RxOne "char \<Rightarrow> bool" | RxMany "char \<Rightarrow> bool" | RxBound | RxEmpty | RxSeq rx rx | RxAlt rx rx
  \<comment> \<open>one character, one or more of them, a word boundary\<close>

definition is_word :: "char \<Rightarrow> bool" where
  "is_word c = (is_letter c \<or> is_digit c \<or> c = CHR ''_'')"

definition word_at :: "string \<Rightarrow> nat \<Rightarrow> bool" where
  "word_at s i = (i < length s \<and> is_word (s ! i))"

primrec rx_ends :: "string \<Rightarrow> rx \<Rightarrow> nat \<Rightarrow> nat list" where
  \<comment> \<open>the positions where a match that starts at the position may end\<close>
  "rx_ends s (RxOne P) i = (if i < length s \<and> P (s ! i) then [Suc i] else [])"
| "rx_ends s (RxMany P) i = [Suc i ..< Suc (i + length (takeWhile P (drop i s)))]"
| "rx_ends s RxBound i = (if (0 < i \<and> word_at s (i - 1)) \<noteq> word_at s i then [i] else [])"
| "rx_ends s RxEmpty i = [i]"
| "rx_ends s (RxSeq a b) i = concat (map (rx_ends s b) (rx_ends s a i))"
| "rx_ends s (RxAlt a b) i = rx_ends s a i @ rx_ends s b i"

definition rx_test :: "rx \<Rightarrow> string \<Rightarrow> bool" where
  "rx_test r s = list_ex (\<lambda>i. rx_ends s r i \<noteq> []) [0 ..< Suc (length s)]"

definition rx_word :: "string \<Rightarrow> rx" where
  "rx_word w = foldr (\<lambda>c. RxSeq (RxOne (\<lambda>d. d = c))) w RxEmpty"

definition rx_any :: "string list \<Rightarrow> rx" where
  "rx_any ws = foldr (\<lambda>w. RxAlt (rx_word w)) (butlast ws) (rx_word (last ws))"

definition prohibition_rx :: rx where
  "prohibition_rx = RxSeq RxBound (RxSeq (rx_any [''do not'', [CHR ''d'', CHR ''o'', CHR ''n'', CHR 0x27, CHR ''t''], ''never'', ''must not'', ''stop'']) RxBound)"

definition later_rx :: rx where
  "later_rx =
     (let gap = RxMany is_space; word_gap = RxSeq (RxMany is_word) gap in
      RxSeq RxBound (RxSeq (rx_any [''any'', ''all'']) (RxSeq gap (RxSeq (rx_word ''later'') (RxSeq gap
        (RxSeq (RxAlt RxEmpty (RxAlt word_gap (RxSeq word_gap word_gap)))
          (RxSeq (rx_any [''stage'', ''window'']) (RxSeq (RxAlt RxEmpty (rx_word ''s'')) RxBound))))))))"

definition operator_future_prohibition :: "guidance \<Rightarrow> bool" where
  "operator_future_prohibition e =
     (gd_source e = FromOperator \<and> rx_test prohibition_rx (lower (gd_body e)) \<and> rx_test later_rx (lower (gd_body e)))"

definition delivers :: "string \<Rightarrow> rat option \<Rightarrow> guidance \<Rightarrow> bool" where
  "delivers stageId attempt e =
     (gd_quarantine e = None \<and> (gd_attempt e = None \<or> gd_attempt e = attempt)
      \<and> (gd_target e = stageId \<or> gd_target e = RUN_WIDE_GUIDANCE_TARGET \<or> operator_future_prohibition e))"

fun uniq_ids :: "string list \<Rightarrow> guidance list \<Rightarrow> guidance list" where
  "uniq_ids seen [] = []"
| "uniq_ids seen (e # es) = (if gd_id e \<in> set seen then uniq_ids seen es else e # uniq_ids (gd_id e # seen) es)"

definition guidanceForStageFromText :: "(string \<Rightarrow> string) \<Rightarrow> (rat \<Rightarrow> string) \<Rightarrow> string \<Rightarrow> string \<Rightarrow> rat option \<Rightarrow> guidance list" where
  "guidanceForStageFromText sha other raw stageId attempt =
     uniq_ids [] (filter (delivers stageId attempt) (parseGuidanceLedger sha other raw))"

definition contains_text :: "string \<Rightarrow> string \<Rightarrow> bool" where
  "contains_text p s = list_ex (\<lambda>i. starts_with p (drop i s)) [0 ..< Suc (length s)]"

definition stage_file_entries :: "(string \<Rightarrow> string) \<Rightarrow> (rat \<Rightarrow> string) \<Rightarrow> string \<Rightarrow> rat option \<Rightarrow> string \<Rightarrow> guidance list" where
  "stage_file_entries sha other stageId attempt raw =
     (let structured = guidanceForStageFromText sha other raw stageId attempt in
      if structured \<noteq> [] then structured
      else if parseGuidanceLedger sha other raw = [] \<and> \<not> contains_text ENVELOPE_PREFIX raw \<and> trim raw \<noteq> []
      then [legacy_entry sha other stageId ''stage-local-legacy'' (boundedBody raw)]
      else [])"

definition readGuidanceForStage ::
    "(string \<Rightarrow> string) \<Rightarrow> (rat \<Rightarrow> string) \<Rightarrow> string option \<Rightarrow> string option \<Rightarrow> string \<Rightarrow> rat option \<Rightarrow> guidance list" where
  \<comment> \<open>the ledger of the run and the file of the stage, where they can be read\<close>
  "readGuidanceForStage sha other ledger stageFile stageId attempt =
     uniq_ids [] ((case ledger of None \<Rightarrow> [] | Some raw \<Rightarrow> guidanceForStageFromText sha other raw stageId attempt)
       @ (case stageFile of None \<Rightarrow> [] | Some raw \<Rightarrow> stage_file_entries sha other stageId attempt raw))"

section \<open>Writing\<close>

record guidance_input =
  gi_target :: "string option"
  gi_body :: string
  gi_source :: guidance_source
  gi_known :: "string list option"
  gi_createdAt :: "string option"
  gi_attempt :: "rat option"

definition prepareGuidanceEnvelope :: "(string \<Rightarrow> string) \<Rightarrow> (rat \<Rightarrow> string) \<Rightarrow> string \<Rightarrow> guidance_input \<Rightarrow> guidance" where
  "prepareGuidanceEnvelope sha other now inp =
     (let createdAt = dflt (gi_createdAt inp) now;
          body = boundedBody (gi_body inp);
          requested = (case gi_target inp of None \<Rightarrow> [] | Some t \<Rightarrow> trim t);
          known = (requested = RUN_WIDE_GUIDANCE_TARGET
            \<or> stage_id_text requested \<and> (case gi_known inp of None \<Rightarrow> True | Some ids \<Rightarrow> requested \<in> set ids));
          target = (if requested = [] then ''__missing__'' else requested)
      in \<lparr>gd_id = envelopeId sha other target (gi_source inp) createdAt body (gi_attempt inp), gd_target = target,
          gd_source = gi_source inp, gd_createdAt = createdAt, gd_body = body, gd_attempt = gi_attempt inp, gd_criteria = None,
          gd_quarantine = (if known then None
            else Some (if requested = [] then ''guidance did not declare a target stage''
                       else ''unknown or invalid target stage: '' @ requested))\<rparr>)"

definition append_envelope :: "(rat \<Rightarrow> string) \<Rightarrow> guidance \<Rightarrow> string option \<Rightarrow> string" where
  "append_envelope other e ledger =
     (case ledger of None \<Rightarrow> [] | Some raw \<Rightarrow> raw @ [line_feed, line_feed]) @ renderGuidanceEnvelope other e @ [line_feed]"

definition appendGuidanceEnvelope ::
    "(string \<Rightarrow> string) \<Rightarrow> (rat \<Rightarrow> string) \<Rightarrow> string \<Rightarrow> guidance_input \<Rightarrow> string option \<Rightarrow> string option \<times> guidance" where
  "appendGuidanceEnvelope sha other now inp ledger =
     (let e = prepareGuidanceEnvelope sha other now inp in (Some (append_envelope other e ledger), e))"

definition queueOperatorGuidance ::
    "(string \<Rightarrow> string) \<Rightarrow> (rat \<Rightarrow> string) \<Rightarrow> string \<Rightarrow> guidance_input \<Rightarrow> string option \<Rightarrow> string option \<times> guidance" where
  "queueOperatorGuidance sha other now inp slot =
     (let e = prepareGuidanceEnvelope sha other now (inp\<lparr>gi_source := FromOperator\<rparr>)
      in (Some (dflt slot [] @ renderGuidanceEnvelope other e @ [line_feed, line_feed]), e))"

record guidance_files =
  gf_ledger :: "string option"
  gf_input :: "string option"

definition routed_input :: "string \<Rightarrow> guidance option \<Rightarrow> string list \<Rightarrow> string \<Rightarrow> guidance_input" where
  \<comment> \<open>a request of the slot, or the whole text for the stage\<close>
  "routed_input stageId request known body =
     (case request of
        Some r \<Rightarrow> \<lparr>gi_target = Some (gd_target r), gi_body = gd_body r, gi_source = FromOperator, gi_known = Some known,
                   gi_createdAt = (if gd_createdAt r = ''legacy'' then None else Some (gd_createdAt r)), gi_attempt = None\<rparr>
      | None \<Rightarrow> \<lparr>gi_target = Some stageId, gi_body = body, gi_source = FromOperator, gi_known = Some known,
                 gi_createdAt = None, gi_attempt = None\<rparr>)"

fun append_all ::
    "(string \<Rightarrow> string) \<Rightarrow> (rat \<Rightarrow> string) \<Rightarrow> string \<Rightarrow> guidance_input list \<Rightarrow> string option \<Rightarrow> string option \<times> guidance list" where
  "append_all sha other now [] ledger = (ledger, [])"
| "append_all sha other now (i # is) ledger =
     (let (l, e) = appendGuidanceEnvelope sha other now i ledger; (l', es) = append_all sha other now is l in (l', e # es))"

definition routePendingOperatorGuidanceToStage ::
    "(string \<Rightarrow> string) \<Rightarrow> (rat \<Rightarrow> string) \<Rightarrow> string \<Rightarrow> (string \<times> bool) list option \<Rightarrow> string \<Rightarrow> guidance_files
      \<Rightarrow> guidance_files \<times> guidance option" where
  \<comment> \<open>\<open>stages\<close> are the stages of \<open>run.json\<close> with whether each is running, where it can be read; no file access fails\<close>
  "routePendingOperatorGuidanceToStage sha other now stages stageId files =
     (case (gf_input files, stages) of
        (Some raw, Some st) \<Rightarrow>
          (let known = map fst st @ (if stageId \<in> set (map fst st) then [] else [stageId]);
               running = filter (\<lambda>i. i = stageId \<or> map_of st i = Some True) known
           in if parseGuidanceLedger sha other raw = [] \<and> running \<noteq> [stageId] then (files, None)
              else (let body = trim raw; requests = parseGuidanceLedger sha other body in
                if body = [] then (files\<lparr>gf_input := None\<rparr>, None)
                else (let (l, es) = append_all sha other now
                        (if requests = [] then [routed_input stageId None known body]
                         else map (\<lambda>r. routed_input stageId (Some r) known body) requests) (gf_ledger files)
                      in (\<lparr>gf_ledger = l, gf_input = None\<rparr>,
                          find (\<lambda>e. gd_target e = stageId \<or> gd_target e = ''*'') es))))
      | _ \<Rightarrow> (files, None))"

section \<open>Framing\<close>

definition frameable :: "guidance \<Rightarrow> bool" where
  \<comment> \<open>what \<open>prepareGuidanceEnvelope\<close> builds from a text without carriage returns\<close>
  "frameable e =
     (gd_id e \<noteq> [] \<and> gd_target e \<noteq> [] \<and> gd_createdAt e \<noteq> [] \<and> gd_body e = trim (gd_body e) \<and> CHR 0x0D \<notin> set (gd_body e)
      \<and> length (gd_body e) < 2 ^ 53
      \<and> (case gd_attempt e of None \<Rightarrow> True | Some n \<Rightarrow> safe_integer n \<and> 0 < n)
      \<and> (case gd_criteria e of None \<Rightarrow> True | Some cs \<Rightarrow> cs \<noteq> [] \<and> distinct cs \<and> [] \<notin> set cs))"

lemma no_cr [simp]: "CHR 0x0D \<notin> set s \<Longrightarrow> crlf_to_lf s = s"
  by (induction s rule: crlf_to_lf.induct) auto

lemma frameable_body: "frameable e \<Longrightarrow> boundedBody (gd_body e) = gd_body e"
  by (simp add: frameable_def boundedBody_def)

lemma safe_integer_number: "safe_integer q \<Longrightarrow> safe_number q"
  by (auto simp: safe_integer_def safe_number_def max_safe_integer_def is_integer_def)

lemma metadata_plain: "frameable e \<Longrightarrow> plain (envelope_metadata e)"
  by (auto simp: envelope_metadata_def frameable_def safe_number_def list_all_iff frameable_body dest!: safe_integer_number split: option.splits)

lemma last_closing_end: "last_closing (u @ CHR ''}'' # ENVELOPE_SUFFIX) = Some (Suc (length u))"
proof (induction u)
  case Nil
  show ?case by code_simp
qed simp

lemma metadata_text:
  assumes "frameable e"
  obtains u where "json_text other (envelope_metadata e) = CHR ''{'' # u @ [CHR ''}'']"
    and "line_feed \<notin> set (json_text other (envelope_metadata e))" and "CHR 0x0D \<notin> set (json_text other (envelope_metadata e))"
proof -
  obtain m where m: "envelope_metadata e = JObj m" by (simp add: envelope_metadata_def)
  have p: "plain (JObj m)" using metadata_plain [OF assms] m by simp
  obtain u where u: "json_text other (JObj m) = CHR ''{'' # u @ [CHR ''}'']" using record_text by blast
  have "CHR 0x0D \<notin> set (json_text other (strip (JObj m)))"
  proof
    assume "CHR 0x0D \<in> set (json_text other (strip (JObj m)))"
    then have "(of_char (CHR 0x0D) :: nat) \<ge> 32" by (rule clean_printable [OF clean_strip [OF p], rotated]) simp
    then show False by simp
  qed
  then have "CHR 0x0D \<notin> set (json_text other (JObj m))" by (simp only: strip_text not_False_eq_True)
  then show thesis using that [of u] u record_line(4) [OF p, of other] m by simp
qed

lemma marker_at:
  assumes "frameable e"
  obtains n where "marker_here (renderGuidanceEnvelope other e @ rest) = Some (json_text other (envelope_metadata e), n)"
    and "drop n (renderGuidanceEnvelope other e @ rest) = gd_body e @ rest"
proof -
  let ?m = "json_text other (envelope_metadata e)" and ?P = ENVELOPE_PREFIX and ?S = ENVELOPE_SUFFIX
  obtain u where u: "?m = CHR ''{'' # u @ [CHR ''}'']" and nl: "line_feed \<notin> set ?m"
    using metadata_text [OF assms] by blast
  have s: "renderGuidanceEnvelope other e @ rest = ?P @ ?m @ ?S @ line_feed # gd_body e @ rest"
    by (simp add: renderGuidanceEnvelope_def frameable_body [OF assms])
  have "line_feed \<notin> set ?S" by code_simp
  then have line: "takeWhile (\<lambda>c. c \<noteq> line_feed) (?m @ ?S @ line_feed # gd_body e @ rest) = ?m @ ?S"
    using nl by (simp add: takeWhile_append)
  have closing: "last_closing (tl (?m @ ?S)) = Some (Suc (length u))"
    using last_closing_end [of u] by (simp add: u)
  have tk: "take (Suc (Suc (length u))) (?m @ ?S) = ?m" by (simp add: u)
  let ?n = "length ?P + length ?m + length ?S"
  have n: "length ?P + Suc (Suc (length u)) + length ?S = ?n" by (simp add: u)
  have d: "drop ?n (?P @ ?m @ ?S @ line_feed # gd_body e @ rest) = line_feed # gd_body e @ rest" by simp
  have h: "hd (?m @ ?S) = CHR ''{''" "?m @ ?S \<noteq> []" by (simp_all add: u)
  have st: "starts_with ?P (?P @ x)" "drop (length ?P) (?P @ x) = x" for x by (simp_all add: starts_with_def)
  have "marker_here (?P @ ?m @ ?S @ line_feed # gd_body e @ rest) = Some (?m, Suc ?n)"
    unfolding marker_here_def Let_def st line closing option.case n d tk using st h by simp
  moreover have "drop (Suc ?n) (?P @ ?m @ ?S @ line_feed # gd_body e @ rest) = gd_body e @ rest" by simp
  ultimately show thesis using that unfolding s by blast
qed

lemma no_marker_feed [simp]: "marker_here (line_feed # s) = None"
  by (simp add: marker_here_def starts_with_def ENVELOPE_PREFIX_def line_feed_def)

lemma find_marker_here: "marker_here s = Some (meta, n) \<Longrightarrow> find_marker s = Some (0, meta, n)"
  by (cases s) (auto dest: marker_length)

lemma find_marker_feeds: "find_marker (replicate j line_feed @ s) = map_option (\<lambda>(k, m). (j + k, m)) (find_marker s)"
  by (induction j) (auto simp: option.map_comp comp_def split_beta option.map_id [unfolded id_def])

lemma uniq_from_distinct: "distinct xs \<Longrightarrow> set xs \<inter> set seen = {} \<Longrightarrow> uniq_from seen xs = xs"
  by (induction xs arbitrary: seen) auto

lemma uniq_distinct: "distinct xs \<Longrightarrow> uniq xs = xs"
  by (simp add: uniq_def uniq_from_distinct)

lemma text_items_strs: "[] \<notin> set cs \<Longrightarrow> distinct cs \<Longrightarrow> text_items (JArr (map JStr cs)) = Some cs"
proof -
  assume n: "[] \<notin> set cs" and d: "distinct cs"
  have "List.map_filter nonempty_text (map JStr cs) = cs" "list_all (\<lambda>x. nonempty_text x \<noteq> None) (map JStr cs)"
    using n by (induction cs) (auto simp: nonempty_text_def List.map_filter_simps)
  then show ?thesis using uniq_distinct [OF d] by (simp add: text_items_def)
qed

lemma metadata_fields:
  assumes "frameable e"
  shows "own_field (strip (envelope_metadata e)) ''id'' = JStr (gd_id e)"
    and "own_field (strip (envelope_metadata e)) ''version'' = JNum 1"
    and "own_field (strip (envelope_metadata e)) ''target'' = JStr (gd_target e)"
    and "own_field (strip (envelope_metadata e)) ''source'' = JStr (source_name (gd_source e))"
    and "own_field (strip (envelope_metadata e)) ''createdAt'' = JStr (gd_createdAt e)"
    and "own_field (strip (envelope_metadata e)) ''bodyLength'' = JNum (of_nat (length (gd_body e)))"
    and "own_field (strip (envelope_metadata e)) ''attemptIndex'' = (case gd_attempt e of None \<Rightarrow> JUndef | Some n \<Rightarrow> JNum n)"
    and "own_field (strip (envelope_metadata e)) ''criterionIds'' = (case gd_criteria e of None \<Rightarrow> JUndef | Some cs \<Rightarrow> JArr (map JStr cs))"
    and "own_field (strip (envelope_metadata e)) ''quarantined'' = (case gd_quarantine e of None \<Rightarrow> JUndef | Some r \<Rightarrow> JBool True)"
    and "own_field (strip (envelope_metadata e)) ''quarantineReason'' = (case gd_quarantine e of None \<Rightarrow> JUndef | Some r \<Rightarrow> JStr r)"
  unfolding own_strip [OF metadata_plain [OF assms]]
  using assms by (auto simp: envelope_metadata_def own_field_def frameable_body frameable_def comp_def split: option.splits)

lemma parsed_envelope:
  assumes "frameable e"
  shows "framedBodyLength (json_text other (envelope_metadata e)) = Some (length (gd_body e))"
    and "parseEnvelopeBlock (json_text other (envelope_metadata e)) (gd_body e) = Some e"
proof -
  have parse: "json_parse (json_text other (envelope_metadata e)) = Some (strip (envelope_metadata e))"
    by (rule json_reads_back [OF metadata_plain [OF assms]]) (simp add: envelope_metadata_def)
  have safe: "safe_integer (of_nat (length (gd_body e)))"
    using assms by (simp add: frameable_def safe_integer_def max_safe_integer_def is_integer_def)
  show "framedBodyLength (json_text other (envelope_metadata e)) = Some (length (gd_body e))"
    unfolding framedBodyLength_def parse using metadata_fields(6) [OF assms] safe by simp
  have src: "named_source (JStr (source_name x)) = Some x" for x by (cases x) (simp_all add: named_source_def)
  have "text_items JUndef = None" by (simp add: text_items_def)
  then show "parseEnvelopeBlock (json_text other (envelope_metadata e)) (gd_body e) = Some e"
    unfolding parseEnvelopeBlock_def parse option.case metadata_fields [OF assms] src
    using assms by (cases e) (auto simp: frameable_body nonempty_text_def frameable_def text_items_strs boundedBody_def split: option.splits)
qed

lemma envelopes_marker:
  assumes "find_marker s = Some (k, meta, n)" and "drop (k + n) s = body @ rest" and "framedBodyLength meta = Some (length body)"
  shows "envelopes_of s = (case parseEnvelopeBlock meta body of Some e \<Rightarrow> if gd_body e = [] then [] else [e] | None \<Rightarrow> [])
      @ envelopes_of rest"
  by (subst envelopes_of.simps) (simp only: assms option.case prod.case Let_def length_append, simp)

lemma envelopes_step:
  assumes "frameable e"
  shows "envelopes_of (replicate j line_feed @ renderGuidanceEnvelope other e @ rest)
    = (if gd_body e = [] then [] else [e]) @ envelopes_of rest"
proof -
  let ?m = "json_text other (envelope_metadata e)" and ?s = "renderGuidanceEnvelope other e @ rest"
  obtain n where n: "marker_here ?s = Some (?m, n)" "drop n ?s = gd_body e @ rest" by (rule marker_at [OF assms])
  have f: "find_marker (replicate j line_feed @ ?s) = Some (j, ?m, n)"
    unfolding find_marker_feeds using find_marker_here [OF n(1)] by simp
  have d: "drop (j + n) (replicate j line_feed @ ?s) = gd_body e @ rest" using n(2) by simp
  show ?thesis using envelopes_marker [OF f d parsed_envelope(1) [OF assms]] parsed_envelope(2) [OF assms, of other] by simp
qed

lemma envelopes_feeds: "envelopes_of (replicate j line_feed) = []"
  using find_marker_feeds [of j "[]"] by (subst envelopes_of.simps) simp

lemma envelopes_ledger:
  "\<forall>e \<in> set es. frameable e \<Longrightarrow>
    envelopes_of (replicate j line_feed @ concat (map (\<lambda>e. [line_feed, line_feed] @ renderGuidanceEnvelope other e @ [line_feed]) es))
      = filter (\<lambda>e. gd_body e \<noteq> []) es"
proof (induction es arbitrary: j)
  case Nil
  then show ?case by (simp add: envelopes_feeds)
next
  case (Cons e es)
  let ?rest = "concat (map (\<lambda>e. [line_feed, line_feed] @ renderGuidanceEnvelope other e @ [line_feed]) es)"
  have e: "frameable e" using Cons.prems by simp
  have "replicate j line_feed @ concat (map (\<lambda>e. [line_feed, line_feed] @ renderGuidanceEnvelope other e @ [line_feed]) (e # es))
      = replicate (j + 2) line_feed @ renderGuidanceEnvelope other e @ (replicate 1 line_feed @ ?rest)"
    by (simp add: replicate_app_Cons_same)
  moreover have "envelopes_of (replicate 1 line_feed @ ?rest) = filter (\<lambda>e. gd_body e \<noteq> []) es"
    using Cons.IH [of 1] Cons.prems by simp
  ultimately show ?case by (simp only: envelopes_step [OF e]) simp
qed

definition appended :: "(rat \<Rightarrow> string) \<Rightarrow> guidance list \<Rightarrow> string option \<Rightarrow> string option" where
  "appended other es ledger = fold (\<lambda>e l. Some (append_envelope other e l)) es ledger"

lemma appended_more: "appended other es (Some raw)
    = Some (raw @ concat (map (\<lambda>e. [line_feed, line_feed] @ renderGuidanceEnvelope other e @ [line_feed]) es))"
  by (induction es arbitrary: raw) (simp_all add: appended_def append_envelope_def)

lemma appended_first: "appended other (e # es) None
    = Some (renderGuidanceEnvelope other e @ [line_feed]
        @ concat (map (\<lambda>e. [line_feed, line_feed] @ renderGuidanceEnvelope other e @ [line_feed]) es))"
  using appended_more [of other es "renderGuidanceEnvelope other e @ [line_feed]"] by (simp add: appended_def append_envelope_def)

lemma render_no_cr: "frameable e \<Longrightarrow> CHR 0x0D \<notin> set (renderGuidanceEnvelope other e)"
proof -
  assume f: "frameable e"
  have "CHR 0x0D \<notin> set ENVELOPE_PREFIX" "CHR 0x0D \<notin> set ENVELOPE_SUFFIX" "CHR 0x0D \<noteq> line_feed" by code_simp+
  moreover have "CHR 0x0D \<notin> set (gd_body e)" using f by (simp add: frameable_def)
  moreover have "CHR 0x0D \<notin> set (json_text other (envelope_metadata e))" using metadata_text [OF f, of other] by blast
  ultimately show ?thesis by (simp add: renderGuidanceEnvelope_def frameable_body [OF f])
qed

lemma ledger_reads_back:
  assumes "\<forall>e \<in> set es. frameable e" and "appended other es None = Some raw"
  shows "parseGuidanceLedger sha other raw = filter (\<lambda>e. gd_body e \<noteq> []) es"
proof (cases es)
  case Nil
  then show ?thesis using assms(2) by (simp add: appended_def)
next
  case (Cons e rest)
  let ?tail = "concat (map (\<lambda>e. [line_feed, line_feed] @ renderGuidanceEnvelope other e @ [line_feed]) rest)"
  have raw: "raw = renderGuidanceEnvelope other e @ (replicate 1 line_feed @ ?tail)"
    using assms(2) unfolding Cons appended_first by simp
  have e: "frameable e" using assms(1) Cons by simp
  have nf: "CHR 0x0D \<noteq> line_feed" by code_simp
  have "CHR 0x0D \<notin> set raw" unfolding raw using assms(1) nf render_no_cr [of _ other] by (auto simp: Cons)
  then have cr: "crlf_to_lf raw = raw" by simp
  obtain n where n: "marker_here raw = Some (json_text other (envelope_metadata e), n)" unfolding raw by (rule marker_at [OF e])
  have "envelopes_of raw = (if gd_body e = [] then [] else [e]) @ filter (\<lambda>e. gd_body e \<noteq> []) rest"
    unfolding raw using envelopes_step [OF e, of 0 other] envelopes_ledger [of rest 1 other] assms(1) by (simp add: Cons)
  moreover have "legacy_sections True [] = []" by (subst legacy_sections.simps) simp
  ultimately show ?thesis
    unfolding parseGuidanceLedger_def cr using find_marker_here [OF n] by (simp add: Cons List.map_filter_simps)
qed

lemma append_all_appended:
  "append_all sha other now is ledger = (appended other (map (prepareGuidanceEnvelope sha other now) is) ledger, map (prepareGuidanceEnvelope sha other now) is)"
  by (induction "is" arbitrary: ledger) (simp_all add: appended_def appendGuidanceEnvelope_def Let_def)

definition writable :: "guidance_input \<Rightarrow> bool" where
  \<comment> \<open>carriage returns only in line ends, a representable length\<close>
  "writable i =
     (CHR 0x0D \<notin> set (crlf_to_lf (gi_body i)) \<and> length (gi_body i) < 2 ^ 53 \<and> gi_createdAt i \<noteq> Some []
      \<and> (case gi_attempt i of None \<Rightarrow> True | Some n \<Rightarrow> safe_integer n \<and> 0 < n))"

lemma length_trim: "length (trim s) \<le> length s"
  unfolding trim_def using length_dropWhile_le order_trans by (metis length_rev)

lemma length_crlf: "length (crlf_to_lf s) \<le> length s"
  by (induction s rule: crlf_to_lf.induct) auto

lemma prepared_frameable:
  assumes "writable i" and "\<And>t. sha t \<noteq> []" and "now \<noteq> []"
  shows "frameable (prepareGuidanceEnvelope sha other now i)"
proof -
  let ?b = "crlf_to_lf (gi_body i)"
  have "CHR 0x0D \<notin> set (trim ?b)" using trim_in [of ?b] assms(1) by (auto simp: writable_def)
  moreover have "length (trim ?b) < 2 ^ 53"
    using length_trim [of ?b] length_crlf [of "gi_body i"] assms(1) by (simp add: writable_def)
  moreover have "dflt (gi_createdAt i) now \<noteq> []" using assms(1,3) by (auto simp: writable_def dflt_def split: option.splits)
  moreover have "case gi_attempt i of None \<Rightarrow> True | Some n \<Rightarrow> safe_integer n \<and> 0 < n" using assms(1) by (simp add: writable_def)
  ultimately show ?thesis
    using assms(2) by (simp add: frameable_def prepareGuidanceEnvelope_def Let_def envelopeId_def boundedBody_def trim_trim)
qed

text \<open>C35. Guidance is delivered exactly, as long as the bodies keep no carriage return once their line ends
  are normalised (\<open>writable\<close>): after any sequence of appended messages a stage reads those that are
  addressed to it or to the run, or in which the operator forbids something to all later stages, of its
  attempt or of none, in the order written, each id once; no text inside such a message is read as another
  message, and a message to an unknown target is read by nobody.\<close>

theorem guidance_delivered_exactly:
  assumes "\<forall>i \<in> set is. writable i" and "\<And>t. sha t \<noteq> []" and "now \<noteq> []"
  shows "readGuidanceForStage sha other (fst (append_all sha other now is None)) None stageId attempt
    = uniq_ids [] (filter (\<lambda>e. delivers stageId attempt e \<and> gd_body e \<noteq> []) (map (prepareGuidanceEnvelope sha other now) is))"
proof -
  let ?es = "map (prepareGuidanceEnvelope sha other now) is"
  have uu: "uniq_ids seen (uniq_ids seen' es) = uniq_ids seen' es" if "set seen \<subseteq> set seen'" for seen seen' es
    using that by (induction es arbitrary: seen seen') (auto simp: subset_insertI2)
  have f: "\<forall>e \<in> set ?es. frameable e" using prepared_frameable assms by auto
  show ?thesis
  proof (cases "appended other ?es None")
    case None
    then have "is = []" using appended_first by (cases "is") (auto simp: appended_def)
    then show ?thesis by (simp add: readGuidanceForStage_def)
  next
    case (Some raw)
    then show ?thesis
      using uu [of "[]" "[]"] ledger_reads_back [OF f Some, of sha]
      by (simp add: readGuidanceForStage_def append_all_appended guidanceForStageFromText_def conj_commute)
  qed
qed

definition operator_message :: "string \<Rightarrow> string \<Rightarrow> guidance_input" where
  "operator_message target body =
     \<lparr>gi_target = Some target, gi_body = body, gi_source = FromOperator, gi_known = Some [''build'', ''review''], gi_createdAt = Some ''t'',
      gi_attempt = None\<rparr>"

theorem guidance_delivered_exactly_witness:
  "let forged = [CHR ''a'', CHR 0x0D, line_feed] @ ''<!-- flowcrew-guidance {} -->'' @ [line_feed, CHR ''b'']; sha = (\<lambda>t. CHR ''x'' # t) in
     map (\<lambda>e. (gd_target e, gd_body e)) (readGuidanceForStage sha (\<lambda>_. [])
       (fst (append_all sha (\<lambda>_. []) ''t'' [operator_message ''build'' forged, operator_message ''review'' ''c''] None)) None ''build'' None)
       = [(''build'', CHR ''a'' # drop 2 forged)]"
proof -
  let ?forged = "[CHR ''a'', CHR 0x0D, line_feed] @ ''<!-- flowcrew-guidance {} -->'' @ [line_feed, CHR ''b'']"
  have w: "writable (operator_message ''build'' ?forged)" "writable (operator_message ''review'' ''c'')"
    by (simp_all add: writable_def operator_message_def line_feed_def)
  have read: "readGuidanceForStage (\<lambda>t. CHR ''x'' # t) (\<lambda>_. []) (fst (append_all (\<lambda>t. CHR ''x'' # t) (\<lambda>_. []) ''t''
         [operator_message ''build'' ?forged, operator_message ''review'' ''c''] None)) None ''build'' None
     = uniq_ids [] (filter (\<lambda>e. delivers ''build'' None e \<and> gd_body e \<noteq> []) (map (prepareGuidanceEnvelope (\<lambda>t. CHR ''x'' # t) (\<lambda>_. []) ''t'')
         [operator_message ''build'' ?forged, operator_message ''review'' ''c'']))"
    by (rule guidance_delivered_exactly) (use w in auto)
  have "map (\<lambda>e. (gd_target e, gd_body e)) (uniq_ids [] (filter (\<lambda>e. delivers ''build'' None e \<and> gd_body e \<noteq> [])
      (map (prepareGuidanceEnvelope (\<lambda>t. CHR ''x'' # t) (\<lambda>_. []) ''t'') [operator_message ''build'' ?forged, operator_message ''review'' ''c''])))
    = [(''build'', CHR ''a'' # drop 2 ?forged)]" by code_simp
  then show ?thesis unfolding Let_def read .
qed

text \<open>
  The condition on the bodies is needed.  A message is normalised when it is prepared and again when it is
  written, and its frame counts the characters after that; but the reader normalises the whole file once
  more before it cuts the frames.  Where a line ends in more carriage returns than the writer removes, the
  frame is too long for the text it is cut from: here the message to \<open>build\<close> swallows the beginning of
  the next marker, and the next message is delivered to nobody.
\<close>

definition kept_returns :: string where
  "kept_returns = CHR ''x'' # concat (replicate 4 [CHR 0x0D, CHR 0x0D, CHR 0x0D, line_feed]) @ ''y''"

lemma kept_returns_lose_the_next_message:
  "let sha = (\<lambda>t. CHR ''x'' # rev t) in
     map gd_body (readGuidanceForStage sha (\<lambda>_. [])
       (fst (append_all sha (\<lambda>_. []) ''t'' [operator_message ''build'' kept_returns, operator_message ''build'' ''c''] None)) None ''build'' None)
     = [CHR ''x'' # replicate 4 line_feed @ CHR ''y'' # replicate 3 line_feed @ ''<'']"
  by code_simp

end
