(* ===== verification/Artifact_Declarations.thy ===== *)
theory Artifact_Declarations
  imports Admission Engine_Paths
begin

text \<open>
  Declared artifacts: \<open>src/src/artifact-declarations.ts\<close> and \<open>src/src/artifact-location.ts\<close>.  A stage declares
  the files it produces and reads; the findings of a plan are part of the admission of a dispatch
  (\<open>Admission\<close> takes them as an argument).  The lemmas show what a plan without findings has: every read
  is bound to an artifact a stage it depends on produces, run outputs have ordered owners, and no stage
  produces a record of the engine.

  The inspection of links and hard links below an output (the second half of \<open>producesEngineOwnedArtifact\<close>)
  is an observation of the file system, as are the kinds of existing inputs.
\<close>

section \<open>Contracts\<close>

datatype artifact_root = ProjectRoot | RunRoot

datatype fact_value = FactText string | FactNumber rat

record artifact_fact =
  af_stage :: string
  af_status :: bool
    \<comment> \<open>the field: the status, or else the exit code\<close>
  af_equals :: fact_value

record produced_artifact =
  pa_id :: string
  pa_root :: artifact_root
  pa_path :: string
  pa_directory :: bool
  pa_nonempty :: bool
  pa_when :: "artifact_fact option"

datatype read_source = FromStage string string | FromInput | FromFramework bool
  \<comment> \<open>the brief of the task, or else the run state\<close>

record artifact_read =
  rd_id :: string
  rd_root :: artifact_root
  rd_path :: string
  rd_directory :: bool
  rd_source :: read_source
  rd_when :: "artifact_fact option"

record artifact_group =
  ag_id :: string
  ag_members :: "string list"

record artifact_contract =
  ac_produces :: "produced_artifact list"
  ac_reads :: "artifact_read list"
  ac_groups :: "artifact_group list"

record artifact_stage =
  as_stage :: stage_config
  as_contract :: "artifact_contract option"

fun seen_before :: "'a list \<Rightarrow> 'a list \<Rightarrow> bool" where
  \<comment> \<open>an element occurs again\<close>
  "seen_before seen [] = False"
| "seen_before seen (x # xs) = (x \<in> set seen \<or> seen_before (x # seen) xs)"

fun group_member_issues :: "artifact_contract \<Rightarrow> string list \<Rightarrow> string list \<Rightarrow> bool \<times> string list" where
  \<comment> \<open>whether a member is refused, and the members grouped so far\<close>
  "group_member_issues c grouped [] = (False, grouped)"
| "group_member_issues c grouped (m # ms) =
     (let bad = (case find (\<lambda>a. pa_id a = m) (ac_produces c) of
                   None \<Rightarrow> True | Some a \<Rightarrow> pa_when a \<noteq> None \<or> m \<in> set grouped);
          (more, grouped') = group_member_issues c (m # grouped) ms
      in (bad \<or> more, grouped'))"

fun group_issues :: "artifact_contract \<Rightarrow> string list \<Rightarrow> artifact_group list \<Rightarrow> bool" where
  "group_issues c grouped [] = False"
| "group_issues c grouped (g # gs) =
     (let (bad, grouped') = group_member_issues c grouped (ag_members g) in bad \<or> group_issues c grouped' gs)"

definition fact_ok :: "artifact_fact option \<Rightarrow> bool" where
  "fact_ok w =
     (case w of
        None \<Rightarrow> True
      | Some f \<Rightarrow> stage_id_text (af_stage f) \<and> (case af_equals f of FactText _ \<Rightarrow> True | FactNumber q \<Rightarrow> q = of_int \<lfloor>q\<rfloor>))"

definition read_ok :: "artifact_read \<Rightarrow> bool" where
  "read_ok r =
     (stage_id_text (rd_id r) \<and> literalRelativePath (rd_path r) \<and> fact_ok (rd_when r)
      \<and> (case rd_source r of FromStage s a \<Rightarrow> stage_id_text s \<and> stage_id_text a | _ \<Rightarrow> True))"

definition contract_valid :: "artifact_contract \<Rightarrow> bool" where
  \<comment> \<open>the schema accepts the contract\<close>
  "contract_valid c =
     (list_all (\<lambda>a. stage_id_text (pa_id a) \<and> literalRelativePath (pa_path a) \<and> fact_ok (pa_when a)) (ac_produces c)
      \<and> list_all read_ok (ac_reads c)
      \<and> list_all (\<lambda>g. stage_id_text (ag_id g) \<and> 2 \<le> length (ag_members g) \<and> list_all stage_id_text (ag_members g)) (ac_groups c)
      \<and> \<not> seen_before [] (map pa_id (ac_produces c) @ map rd_id (ac_reads c))
      \<and> \<not> seen_before [] (map (\<lambda>a. (pa_root a, pa_path a)) (ac_produces c))
      \<and> \<not> seen_before [] (map ag_id (ac_groups c))
      \<and> \<not> group_issues c [] (ac_groups c))"

section \<open>Activation\<close>

datatype activation = Active | Inactive | ActivationUnknown

definition artifactActivation :: "artifact_fact option \<Rightarrow> (string \<Rightarrow> (stage_state \<times> rat option) option) \<Rightarrow> activation" where
  \<comment> \<open>\<open>statuses\<close>: the state and the exit code of each stage\<close>
  "artifactActivation w statuses =
     (case w of
        None \<Rightarrow> Active
      | Some f \<Rightarrow>
          (case statuses (af_stage f) of
             None \<Rightarrow> ActivationUnknown
           | Some (st, exitCode) \<Rightarrow>
               if st \<notin> {SComplete, SFailed, SSkipped} then ActivationUnknown
               else if af_status f then (if FactText (stage_state_name st) = af_equals f then Active else Inactive)
               else (case exitCode of
                   None \<Rightarrow> ActivationUnknown
                 | Some q \<Rightarrow> if q \<noteq> of_int \<lfloor>q\<rfloor> then ActivationUnknown
                            else if FactNumber q = af_equals f then Active else Inactive)))"

section \<open>Findings\<close>

datatype artifact_finding =
    DeclarationRequired string
  | DeclarationInvalid string
  | FactUnreachable string string string
  | FactInvalid string string
  | LocationRefused string string
  | OwnershipUnknown string string
  | FrameworkPath string string
  | ConcurrentOwners string string string
  | ReadUnbound string string
  | ReadUnreachable string string string
  | FrameworkReadInvalid string string
  | InputAbsent string string

record artifact_view =
  av_fs :: fs_view
  av_project :: "string list option"
    \<comment> \<open>the resolved project and run directories, where the caller gives them\<close>
  av_run :: "string list option"
  av_kind :: "string list \<Rightarrow> unit + bool option"
    \<comment> \<open>what exists at a target: a directory, or else a file; an error raises\<close>
  av_linked :: "string \<Rightarrow> produced_artifact \<Rightarrow> unit + bool"
    \<comment> \<open>whether an output reaches a record of the engine through links\<close>

definition produces_in :: "artifact_stage \<Rightarrow> produced_artifact list" where
  "produces_in s = (case as_contract s of None \<Rightarrow> [] | Some c \<Rightarrow> ac_produces c)"

definition artifact_id :: "artifact_stage \<Rightarrow> string" where
  "artifact_id s = sc_id (as_stage s)"

definition stages_by_id :: "artifact_stage list \<Rightarrow> (string \<times> artifact_stage) list" where
  "stages_by_id stages = amap_of artifact_id stages"

fun ancestor_visit :: "(string \<times> artifact_stage) list \<Rightarrow> string \<Rightarrow> nat \<Rightarrow> artifact_stage \<Rightarrow> string list \<Rightarrow> bool \<times> string list"
  and ancestor_some :: "(string \<times> artifact_stage) list \<Rightarrow> string \<Rightarrow> nat \<Rightarrow> string list \<Rightarrow> string list \<Rightarrow> bool \<times> string list" where
  \<comment> \<open>the closure \<open>ancestor\<close> with its visited set; the fuel bounds the depth\<close>
  "ancestor_visit byId dependency 0 s visited = (False, visited)"
| "ancestor_visit byId dependency (Suc k) s visited =
     (if artifact_id s \<in> set visited then (False, visited)
      else ancestor_some byId dependency k (sc_depends_on (as_stage s)) (artifact_id s # visited))"
| "ancestor_some byId dependency k [] visited = (False, visited)"
| "ancestor_some byId dependency k (i # is) visited =
     (if i = dependency then (True, visited)
      else (case map_of byId i of
          None \<Rightarrow> ancestor_some byId dependency k is visited
        | Some t \<Rightarrow>
            (let (found, visited') = ancestor_visit byId dependency k t visited in
             if found then (True, visited') else ancestor_some byId dependency k is visited')))"

definition ancestor :: "(string \<times> artifact_stage) list \<Rightarrow> artifact_stage \<Rightarrow> string \<Rightarrow> bool" where
  "ancestor byId s dependency = fst (ancestor_visit byId dependency (Suc (Suc (length byId))) s [])"

definition below :: "string \<Rightarrow> string \<Rightarrow> bool" where
  "below directory path = starts_with (directory @ ''/'') path"

definition artifactProducerReadError :: "artifact_read \<Rightarrow> artifact_stage option \<Rightarrow> bool" where
  "artifactProducerReadError r producer =
     (case rd_source r of
        FromStage _ artifact \<Rightarrow>
          (case Option.bind producer (\<lambda>p. find (\<lambda>a. pa_id a = artifact) (produces_in p)) of
             None \<Rightarrow> True
           | Some a \<Rightarrow> pa_root a \<noteq> rd_root r
               \<or> \<not> (if pa_path a = rd_path r then pa_directory a = rd_directory r
                    else pa_directory a \<and> below (pa_path a) (rd_path r)))
      | _ \<Rightarrow> False)"

definition path_stage_of :: "artifact_stage \<Rightarrow> path_stage" where
  "path_stage_of s =
     \<lparr>ps_id = artifact_id s, ps_gate = sc_is_gate (as_stage s), ps_dynamic = sc_dynamic_dispatch (as_stage s)\<rparr>"

definition producesEngineOwnedArtifact :: "artifact_view \<Rightarrow> produced_artifact \<Rightarrow> artifact_stage \<Rightarrow> unit + bool" where
  "producesEngineOwnedArtifact view a s =
     (if pa_root a = RunRoot \<and> isEngineOwnedRunPath (pa_path a) (path_stage_of s) then Inr True
      else if av_run view = None \<or> pa_root a = ProjectRoot \<and> av_project view = None then Inr False
      else av_linked view (artifact_id s) a)"

definition resolveArtifactLocation :: "fs_view \<Rightarrow> string list \<Rightarrow> string \<Rightarrow> string list option" where
  \<comment> \<open>the target below a resolved root; \<open>None\<close> where it raises\<close>
  "resolveArtifactLocation fs base path =
     (if \<not> literalRelativePath path then None
      else (let target = base @ split_on (CHR ''/'') path in
        case prospectivePhysicalPath fs (path_text target) of
          Inl _ \<Rightarrow> None
        | Inr p \<Rightarrow> if artifactRootContains base p then Some target else None))"

definition output_overlap :: "produced_artifact \<Rightarrow> produced_artifact \<Rightarrow> bool" where
  "output_overlap a b =
     (pa_root b = RunRoot \<and> (pa_path b = pa_path a \<or> pa_directory b \<and> below (pa_path b) (pa_path a)
        \<or> pa_directory a \<and> below (pa_path a) (pa_path b)))"

definition fact_findings :: "artifact_stage list \<Rightarrow> artifact_stage \<Rightarrow> string \<Rightarrow> artifact_fact option \<Rightarrow> artifact_finding list" where
  "fact_findings stages s i w =
     (case w of
        None \<Rightarrow> []
      | Some f \<Rightarrow>
          (if ancestor (stages_by_id stages) s (af_stage f) then [] else [FactUnreachable (artifact_id s) i (af_stage f)])
          @ (if af_status f \<and> af_equals f \<notin> FactText ` set (map stage_state_name [SComplete, SFailed, SSkipped])
             then [FactInvalid (artifact_id s) i] else [])
          @ (if \<not> af_status f \<and> (case af_equals f of FactText _ \<Rightarrow> True | FactNumber _ \<Rightarrow> False)
             then [FactInvalid (artifact_id s) i] else []))"

definition location_findings :: "artifact_view \<Rightarrow> artifact_stage \<Rightarrow> string \<Rightarrow> artifact_root \<Rightarrow> string \<Rightarrow> artifact_finding list" where
  "location_findings view s i base path =
     (case (av_project view, av_run view) of
        (Some p, Some r) \<Rightarrow>
          if resolveArtifactLocation (av_fs view) (if base = RunRoot then r else p) path = None
          then [LocationRefused (artifact_id s) i] else []
      | _ \<Rightarrow> [])"

definition produced_findings :: "artifact_view \<Rightarrow> artifact_stage list \<Rightarrow> artifact_stage \<Rightarrow> produced_artifact \<Rightarrow> artifact_finding list" where
  "produced_findings view stages s a =
     (case producesEngineOwnedArtifact view a s of
        Inl _ \<Rightarrow> [OwnershipUnknown (artifact_id s) (pa_id a)]
      | Inr owned \<Rightarrow> if owned then [FrameworkPath (artifact_id s) (pa_id a)] else [])
     @ (if pa_root a = RunRoot then
          map (\<lambda>t. ConcurrentOwners (artifact_id s) (pa_id a) (artifact_id t))
            (filter (\<lambda>t. \<not> (artifact_id t = artifact_id s \<or> ancestor (stages_by_id stages) s (artifact_id t)
                            \<or> ancestor (stages_by_id stages) t (artifact_id s))
                         \<and> list_ex (output_overlap a) (produces_in t)) stages)
        else [])"

definition read_findings :: "artifact_view \<Rightarrow> artifact_stage list \<Rightarrow> artifact_stage \<Rightarrow> artifact_read \<Rightarrow> artifact_finding list" where
  "read_findings view stages s r =
     (case rd_source r of
        FromStage p _ \<Rightarrow>
          (let producer = map_of (stages_by_id stages) p in
           if artifactProducerReadError r producer then [ReadUnbound (artifact_id s) (rd_id r)]
           else if \<not> ancestor (stages_by_id stages) s (artifact_id (the producer)) then [ReadUnreachable (artifact_id s) (rd_id r) p]
           else [])
      | FromFramework brief \<Rightarrow>
          if rd_root r \<noteq> RunRoot \<or> rd_path r \<noteq> (if brief then ''task_brief.md'' else ''run.json'') \<or> rd_directory r
          then [FrameworkReadInvalid (artifact_id s) (rd_id r)] else []
      | FromInput \<Rightarrow>
          (case av_project view of
             None \<Rightarrow> []
           | Some p \<Rightarrow>
               if rd_root r = ProjectRoot \<or> av_run view \<noteq> None then
                 (case resolveArtifactLocation (av_fs view) (if rd_root r = RunRoot then the (av_run view) else p) (rd_path r) of
                    None \<Rightarrow> [LocationRefused (artifact_id s) (rd_id r)]
                  | Some target \<Rightarrow>
                      (case av_kind view target of
                         Inl _ \<Rightarrow> [LocationRefused (artifact_id s) (rd_id r)]
                       | Inr k \<Rightarrow> if k = Some (rd_directory r) then [] else [InputAbsent (artifact_id s) (rd_id r)]))
               else []))"

definition stage_findings :: "artifact_view \<Rightarrow> artifact_stage list \<Rightarrow> artifact_stage \<Rightarrow> artifact_finding list" where
  "stage_findings view stages s =
     (case as_contract s of
        None \<Rightarrow> [DeclarationRequired (artifact_id s)]
      | Some c \<Rightarrow>
          if \<not> contract_valid c then [DeclarationInvalid (artifact_id s)]
          else concat (map (\<lambda>a. fact_findings stages s (pa_id a) (pa_when a) @ location_findings view s (pa_id a) (pa_root a) (pa_path a))
                   (ac_produces c))
               @ concat (map (\<lambda>r. fact_findings stages s (rd_id r) (rd_when r) @ location_findings view s (rd_id r) (rd_root r) (rd_path r))
                   (ac_reads c))
               @ concat (map (produced_findings view stages s) (ac_produces c))
               @ concat (map (read_findings view stages s) (ac_reads c)))"

definition artifactDeclarationFindings :: "artifact_view \<Rightarrow> artifact_stage list \<Rightarrow> artifact_finding list" where
  "artifactDeclarationFindings view stages = concat (map (stage_findings view stages) stages)"

section \<open>Ancestors\<close>

definition artifact_edge :: "(string \<times> artifact_stage) list \<Rightarrow> string \<Rightarrow> string \<Rightarrow> bool" where
  "artifact_edge byId i j = (\<exists>t. map_of byId i = Some t \<and> j \<in> set (sc_depends_on (as_stage t)))"

lemma ancestor_sound:
  "ancestor_visit byId d k s v = (True, v') \<Longrightarrow> \<exists>i \<in> set (sc_depends_on (as_stage s)). (artifact_edge byId)\<^sup>*\<^sup>* i d"
  "ancestor_some byId d k is v = (True, v') \<Longrightarrow> \<exists>i \<in> set is. (artifact_edge byId)\<^sup>*\<^sup>* i d"
proof (induction byId d k s v and byId d k "is" v arbitrary: v' and v' rule: ancestor_visit_ancestor_some.induct)
  case (2 byId d k s v)
  then show ?case by (auto split: if_splits)
next
  case (4 byId d k i "is" v)
  show ?case
  proof (cases "i = d")
    case False
    show ?thesis
    proof (cases "map_of byId i")
      case None
      then show ?thesis using 4 False by auto
    next
      case (Some t)
      obtain found w where w: "ancestor_visit byId d k t v = (found, w)" by fastforce
      show ?thesis
      proof (cases found)
        case True
        then obtain j where "j \<in> set (sc_depends_on (as_stage t))" "(artifact_edge byId)\<^sup>*\<^sup>* j d"
          using "4.IH"(2) [OF False Some] w by auto
        then have "(artifact_edge byId)\<^sup>*\<^sup>* i d" using Some by (auto simp: artifact_edge_def intro: converse_rtranclp_into_rtranclp)
        then show ?thesis by simp
      next
        case nf: False
        then have "ancestor_some byId d k is w = (True, v')" using "4.prems" False Some w by simp
        then show ?thesis using "4.IH"(3) [OF False Some w [symmetric] refl] nf by auto
      qed
    qed
  qed simp
qed auto

definition explored :: "(string \<times> artifact_stage) list \<Rightarrow> string \<Rightarrow> string list \<Rightarrow> string \<Rightarrow> bool" where
  "explored byId d v m = (\<forall>j. artifact_edge byId m j \<longrightarrow> j \<noteq> d \<and> (map_of byId j \<noteq> None \<longrightarrow> j \<in> set v))"

lemma explored_more: "explored byId d v m \<Longrightarrow> set v \<subseteq> set v' \<Longrightarrow> explored byId d v' m"
  unfolding explored_def by blast

lemma ancestor_negative:
  assumes "\<And>i t. map_of byId i = Some t \<Longrightarrow> artifact_id t = i"
  shows "ancestor_visit byId d k s v = (False, v') \<Longrightarrow> map_of byId (artifact_id s) = Some s \<Longrightarrow> card (fst ` set byId - set v) < k \<Longrightarrow>
      set v \<subseteq> set v' \<and> artifact_id s \<in> set v' \<and> (\<forall>m \<in> set v' - set v. explored byId d v' m)"
    and "ancestor_some byId d k is v = (False, v') \<Longrightarrow> card (fst ` set byId - set v) < k \<Longrightarrow>
      set v \<subseteq> set v' \<and> (\<forall>i \<in> set is. i \<noteq> d \<and> (map_of byId i \<noteq> None \<longrightarrow> i \<in> set v')) \<and> (\<forall>m \<in> set v' - set v. explored byId d v' m)"
  using assms
proof (induction byId d k s v and byId d k "is" v arbitrary: v' and v' rule: ancestor_visit_ancestor_some.induct)
  case (2 byId d k s v)
  show ?case
  proof (cases "artifact_id s \<in> set v")
    case True
    then show ?thesis using "2.prems"(1) by auto
  next
    case False
    then have some: "ancestor_some byId d k (sc_depends_on (as_stage s)) (artifact_id s # v) = (False, v')" using "2.prems"(1) by simp
    have key: "artifact_id s \<in> fst ` set byId" using "2.prems"(2) by (metis fst_conv image_eqI map_of_SomeD)
    then have "card (fst ` set byId - set (artifact_id s # v)) < card (fst ` set byId - set v)"
      using False by (intro psubset_card_mono) auto
    then have fuel: "card (fst ` set byId - set (artifact_id s # v)) < k" using "2.prems"(3) by linarith
    have r: "set (artifact_id s # v) \<subseteq> set v'"
      "\<forall>i \<in> set (sc_depends_on (as_stage s)). i \<noteq> d \<and> (map_of byId i \<noteq> None \<longrightarrow> i \<in> set v')"
      "\<forall>m \<in> set v' - set (artifact_id s # v). explored byId d v' m"
      using "2.IH" [OF False some fuel "2.prems"(4)] by auto
    have "explored byId d v' (artifact_id s)" using r(2) "2.prems"(2) by (auto simp: explored_def artifact_edge_def)
    then show ?thesis using r(1,3) by auto
  qed
next
  case (4 byId d k i "is" v)
  have nd: "i \<noteq> d" using "4.prems"(1) by auto
  show ?case
  proof (cases "map_of byId i")
    case None
    then have "ancestor_some byId d k is v = (False, v')" using "4.prems"(1) nd by simp
    from "4.IH"(1) [OF nd None this "4.prems"(2,3)] show ?thesis using None nd by auto
  next
    case (Some t)
    obtain found w where w: "ancestor_visit byId d k t v = (found, w)" by fastforce
    have nf: "\<not> found" and rest: "ancestor_some byId d k is w = (False, v')"
      using "4.prems"(1) nd Some w by (auto split: if_splits)
    have t: "artifact_id t = i" using "4.prems"(3) [OF Some] .
    have a: "set v \<subseteq> set w" "artifact_id t \<in> set w" "\<forall>m \<in> set w - set v. explored byId d w m"
      using "4.IH"(2) [OF nd Some _ _ "4.prems"(2,3)] w nf Some t by auto
    have "card (fst ` set byId - set w) \<le> card (fst ` set byId - set v)" using a(1) by (intro card_mono) auto
    then have fuel: "card (fst ` set byId - set w) < k" using "4.prems"(2) by linarith
    have b: "set w \<subseteq> set v'" "\<forall>i \<in> set is. i \<noteq> d \<and> (map_of byId i \<noteq> None \<longrightarrow> i \<in> set v')" "\<forall>m \<in> set v' - set w. explored byId d v' m"
      using "4.IH"(3) [OF nd Some w [symmetric] refl nf rest fuel "4.prems"(3)] by auto
    have "explored byId d v' m" if "m \<in> set v' - set v" for m
      using that a(3) b(1,3) explored_more by (cases "m \<in> set w") blast+
    then show ?thesis using a(1,2) b(1,2) nd t by auto
  qed
qed auto

lemma stages_by_id_key: "map_of (stages_by_id stages) i = Some t \<Longrightarrow> t \<in> set stages \<and> artifact_id t = i"
  unfolding stages_by_id_def by (rule map_of_amap_of_Some)

lemma ancestor_correct:
  assumes "map_of (stages_by_id stages) (artifact_id s) = Some s"
  shows "ancestor (stages_by_id stages) s d \<longleftrightarrow> (artifact_edge (stages_by_id stages))\<^sup>+\<^sup>+ (artifact_id s) d"
proof
  let ?e = "artifact_edge (stages_by_id stages)"
  assume "ancestor (stages_by_id stages) s d"
  then obtain i where "i \<in> set (sc_depends_on (as_stage s))" "?e\<^sup>*\<^sup>* i d"
    unfolding ancestor_def by (metis ancestor_sound(1) prod.collapse)
  then show "?e\<^sup>+\<^sup>+ (artifact_id s) d" using assms by (auto simp: artifact_edge_def intro: rtranclp_into_tranclp2)
next
  let ?byId = "stages_by_id stages" and ?e = "artifact_edge (stages_by_id stages)"
  assume path: "?e\<^sup>+\<^sup>+ (artifact_id s) d"
  have "card (fst ` set ?byId - set []) \<le> length ?byId" using card_image_le [of "set ?byId" fst] card_length [of ?byId] by simp
  then have fuel: "card (fst ` set ?byId - set []) < Suc (Suc (length ?byId))" by simp
  show "ancestor ?byId s d"
  proof (rule ccontr)
    assume "\<not> ancestor ?byId s d"
    then obtain v where v: "ancestor_visit ?byId d (Suc (Suc (length ?byId))) s [] = (False, v)"
      unfolding ancestor_def by (metis prod.collapse)
    from ancestor_negative(1) [OF _ v assms fuel] stages_by_id_key
    have start: "artifact_id s \<in> set v" and ex: "\<And>m. m \<in> set v \<Longrightarrow> explored ?byId d v m" by fastforce+
    have "\<forall>m. ?e\<^sup>*\<^sup>* (artifact_id s) m \<longrightarrow> map_of ?byId m \<noteq> None \<longrightarrow> m \<in> set v"
    proof (intro allI impI)
      fix m
      assume "?e\<^sup>*\<^sup>* (artifact_id s) m" and "map_of ?byId m \<noteq> None"
      then show "m \<in> set v"
      proof (induction rule: rtranclp_induct)
        case (step y z)
        then have "y \<in> set v" by (auto simp: artifact_edge_def)
        then show ?case using ex [of y] step.hyps(2) step.prems by (auto simp: explored_def)
      qed (rule start)
    qed
    moreover obtain y where y: "?e\<^sup>*\<^sup>* (artifact_id s) y" "?e y d" using path by (cases rule: tranclp.cases) (auto intro: tranclp_into_rtranclp)
    ultimately have "y \<in> set v" by (auto simp: artifact_edge_def)
    then show False using ex [of y] y(2) by (auto simp: explored_def)
  qed
qed

section \<open>A plan without findings\<close>

lemma stage_by_id:
  assumes "distinct (map artifact_id stages)" and "s \<in> set stages"
  shows "map_of (stages_by_id stages) (artifact_id s) = Some s"
proof -
  obtain t where t: "map_of (stages_by_id stages) (artifact_id s) = Some t"
    using assms(2) map_of_amap_of_None [of artifact_id stages "artifact_id s"] unfolding stages_by_id_def by fastforce
  then have "t \<in> set stages" "artifact_id t = artifact_id s" by (auto dest: stages_by_id_key)
  then show ?thesis using t assms by (auto simp: distinct_map inj_on_def)
qed

abbreviation after :: "artifact_stage list \<Rightarrow> artifact_stage \<Rightarrow> artifact_stage \<Rightarrow> bool" where
  "after stages s t \<equiv> (artifact_edge (stages_by_id stages))\<^sup>+\<^sup>+ (artifact_id s) (artifact_id t)"

definition binds :: "artifact_read \<Rightarrow> artifact_stage \<Rightarrow> string \<Rightarrow> bool" where
  \<comment> \<open>the read names an artifact of the stage, or a path below a directory of it\<close>
  "binds r t artifact =
     (\<exists>a \<in> set (produces_in t). pa_id a = artifact \<and> pa_root a = rd_root r
        \<and> (pa_path a = rd_path r \<and> pa_directory a = rd_directory r
           \<or> pa_path a \<noteq> rd_path r \<and> pa_directory a \<and> below (pa_path a) (rd_path r)))"

lemma producer_binds:
  assumes "rd_source r = FromStage p artifact"
  shows "\<not> artifactProducerReadError r producer \<Longrightarrow> \<exists>t. producer = Some t \<and> binds r t artifact"
  using assms by (auto simp: artifactProducerReadError_def binds_def bind_eq_Some_conv split: option.splits if_splits dest!: find_SomeD)

lemma no_findings:
  assumes "artifactDeclarationFindings view stages = []" and "s \<in> set stages"
  obtains c where "as_contract s = Some c" and "contract_valid c"
    and "\<forall>a \<in> set (ac_produces c). fact_findings stages s (pa_id a) (pa_when a) = [] \<and> produced_findings view stages s a = []
          \<and> location_findings view s (pa_id a) (pa_root a) (pa_path a) = []"
    and "\<forall>r \<in> set (ac_reads c). fact_findings stages s (rd_id r) (rd_when r) = [] \<and> read_findings view stages s r = []
          \<and> location_findings view s (rd_id r) (rd_root r) (rd_path r) = []"
proof -
  have e: "stage_findings view stages s = []" using assms by (simp add: artifactDeclarationFindings_def)
  then obtain c where c: "as_contract s = Some c" by (cases "as_contract s") (simp_all add: stage_findings_def)
  have v: "contract_valid c" using e c by (cases "contract_valid c") (simp_all add: stage_findings_def)
  have "\<forall>a \<in> set (ac_produces c). fact_findings stages s (pa_id a) (pa_when a) = [] \<and> produced_findings view stages s a = []
          \<and> location_findings view s (pa_id a) (pa_root a) (pa_path a) = []"
    "\<forall>r \<in> set (ac_reads c). fact_findings stages s (rd_id r) (rd_when r) = [] \<and> read_findings view stages s r = []
          \<and> location_findings view s (rd_id r) (rd_root r) (rd_path r) = []"
    using e v by (simp_all add: stage_findings_def c)
  then show thesis by (rule that [OF c v])
qed

definition contract_facts :: "artifact_contract \<Rightarrow> artifact_fact list" where
  \<comment> \<open>the conditions of the artifacts of a contract\<close>
  "contract_facts c = List.map_filter pa_when (ac_produces c) @ List.map_filter rd_when (ac_reads c)"

definition can_turn :: "artifact_fact \<Rightarrow> activation \<Rightarrow> bool" where
  \<comment> \<open>some settled outcome of the stage decides the condition this way\<close>
  "can_turn f w =
     (\<exists>st q. st \<in> {SComplete, SFailed, SSkipped} \<and> (\<forall>statuses. statuses (af_stage f) = Some (st, Some (of_int q)) \<longrightarrow>
        artifactActivation (Some f) statuses = w))"

lemma settled_fact: "st \<in> {SComplete, SFailed, SSkipped} \<Longrightarrow> statuses (af_stage f) = Some (st, Some (of_int q)) \<Longrightarrow>
    artifactActivation (Some f) statuses
      = (if af_equals f = (if af_status f then FactText (stage_state_name st) else FactNumber (of_int q)) then Active else Inactive)"
  by (auto simp: artifactActivation_def)

lemma open_fact:
  assumes "fact_findings stages s i (Some f) = []" and "fact_ok (Some f)"
  shows "can_turn f Active \<and> can_turn f Inactive"
proof (cases "af_status f")
  case True
  then have "af_equals f \<in> FactText ` set (map stage_state_name [SComplete, SFailed, SSkipped])"
    using assms(1) by (auto simp: fact_findings_def split: if_splits)
  then obtain st where st: "st \<in> {SComplete, SFailed, SSkipped}" "af_equals f = FactText (stage_state_name st)"
    unfolding set_map image_image by (auto simp del: stage_state_name.simps)
  obtain st' where st': "st' \<in> {SComplete, SFailed, SSkipped}" "st' = (if st = SComplete then SFailed else SComplete)" by simp
  have "stage_state_name st' \<noteq> stage_state_name st" using st(1) st'(2) by auto
  then show ?thesis unfolding can_turn_def using st st'(1) True settled_fact [of _ _ f]
    by (intro conjI) (rule exI [of _ st], simp, rule exI [of _ st'], simp)
next
  case False
  then obtain r where r: "af_equals f = FactNumber r"
    using assms(1) by (cases "af_equals f") (auto simp: fact_findings_def)
  then obtain k where k: "af_equals f = FactNumber (of_int k)" using assms(2) by (auto simp: fact_ok_def)
  have "can_turn f Active" unfolding can_turn_def
    by (intro exI [of _ SComplete] exI [of _ k]) (use False k settled_fact [of SComplete _ f] in simp)
  moreover have "can_turn f Inactive" unfolding can_turn_def
    by (intro exI [of _ SComplete] exI [of _ "k + 1"]) (use False k settled_fact [of SComplete _ f "k + 1"] in simp)
  ultimately show ?thesis by simp
qed

lemma read_fits:
  assumes "read_findings view stages s r = []" and "rd_source r = FromStage p artifact"
  shows "\<exists>t. map_of (stages_by_id stages) p = Some t \<and> binds r t artifact \<and> ancestor (stages_by_id stages) s (artifact_id t)"
proof -
  have "\<not> artifactProducerReadError r (map_of (stages_by_id stages) p)"
    using assms by (auto simp: read_findings_def Let_def split: if_splits)
  then obtain t where t: "map_of (stages_by_id stages) p = Some t" "binds r t artifact" using producer_binds [OF assms(2)] by blast
  then have "ancestor (stages_by_id stages) s (artifact_id t)"
    using assms by (auto simp: read_findings_def Let_def split: if_splits)
  then show ?thesis using t by blast
qed

lemma produced_unowned:
  assumes "produced_findings view stages s a = []"
  shows "pa_root a = RunRoot \<longrightarrow> \<not> isEngineOwnedRunPath (pa_path a) (path_stage_of s)"
    and "av_run view \<noteq> None \<and> (pa_root a = ProjectRoot \<longrightarrow> av_project view \<noteq> None) \<longrightarrow> av_linked view (artifact_id s) a = Inr False"
proof -
  have "producesEngineOwnedArtifact view a s = Inr False"
    using assms by (auto simp: produced_findings_def split: sum.splits if_splits)
  then show "pa_root a = RunRoot \<longrightarrow> \<not> isEngineOwnedRunPath (pa_path a) (path_stage_of s)"
    "av_run view \<noteq> None \<and> (pa_root a = ProjectRoot \<longrightarrow> av_project view \<noteq> None) \<longrightarrow> av_linked view (artifact_id s) a = Inr False"
    by (auto simp: producesEngineOwnedArtifact_def split: if_splits)
qed

lemma produced_ordered:
  assumes "produced_findings view stages s a = []" and "pa_root a = RunRoot"
    and "t \<in> set stages" and "b \<in> set (produces_in t)" and "output_overlap a b"
  shows "artifact_id t = artifact_id s \<or> ancestor (stages_by_id stages) s (artifact_id t)
    \<or> ancestor (stages_by_id stages) t (artifact_id s)"
proof -
  have "list_ex (output_overlap a) (produces_in t)" using assms(4,5) by (auto simp: list_ex_iff)
  then show ?thesis using assms(1-3) unfolding produced_findings_def by (auto simp: filter_empty_conv)
qed

text \<open>C31. A dispatch is admitted only if its artifacts fit together.  Every stage has a valid contract, and
  where the directories are known every location resolves inside its root.  A read from a stage names an
  artifact that stage produces, and the reader depends on it.  No output in the run directory has the path
  of a record of the engine, and no output reaches one through a link where the directories were there to
  be inspected; two stages whose outputs in the run directory overlap are ordered by the dependencies.  The
  condition of an artifact is about a stage it depends on and is a real condition: some settled outcome of
  that stage meets it and some other refutes it.\<close>

theorem admitted_artifacts_fit:
  assumes "ar_pass (fst (inspectDispatchAdmission mg (map enc (artifactDeclarationFindings view stages)) inp))"
    and "in_base inp @ in_dispatched inp = map as_stage stages" and "s \<in> set stages"
  shows "\<exists>c. as_contract s = Some c \<and> contract_valid c
    \<and> (\<forall>p r. av_project view = Some p \<and> av_run view = Some r \<longrightarrow>
          (\<forall>a \<in> set (ac_produces c). resolveArtifactLocation (av_fs view) (if pa_root a = RunRoot then r else p) (pa_path a) \<noteq> None)
          \<and> (\<forall>a \<in> set (ac_reads c). resolveArtifactLocation (av_fs view) (if rd_root a = RunRoot then r else p) (rd_path a) \<noteq> None))
    \<and> (\<forall>r \<in> set (ac_reads c). \<forall>p artifact. rd_source r = FromStage p artifact \<longrightarrow>
          (\<exists>t \<in> set stages. artifact_id t = p \<and> after stages s t \<and> binds r t artifact))
    \<and> (\<forall>a \<in> set (ac_produces c).
          (pa_root a = RunRoot \<longrightarrow> \<not> isEngineOwnedRunPath (pa_path a) (path_stage_of s))
          \<and> (av_run view \<noteq> None \<and> (pa_root a = ProjectRoot \<longrightarrow> av_project view \<noteq> None) \<longrightarrow> av_linked view (artifact_id s) a = Inr False)
          \<and> (pa_root a = RunRoot \<longrightarrow> (\<forall>t \<in> set stages. \<forall>b \<in> set (produces_in t).
                output_overlap a b \<longrightarrow> t = s \<or> after stages s t \<or> after stages t s)))
    \<and> (\<forall>f \<in> set (contract_facts c). (artifact_edge (stages_by_id stages))\<^sup>+\<^sup>+ (artifact_id s) (af_stage f)
          \<and> can_turn f Active \<and> can_turn f Inactive)"
proof -
  note pass = assms(1) [folded passes_def]
  have none: "artifactDeclarationFindings view stages = []" using pass [unfolded passes_iff] by simp
  have "distinct (map sc_id (in_base inp @ in_dispatched inp))" using passes_graph [OF pass] by (simp add: stage_graph_ok_def)
  then have dist: "distinct (map artifact_id stages)" unfolding assms(2) by (simp add: artifact_id_def [abs_def] comp_def)
  have anc: "ancestor (stages_by_id stages) t d \<longleftrightarrow> (artifact_edge (stages_by_id stages))\<^sup>+\<^sup>+ (artifact_id t) d" if "t \<in> set stages" for t d
    by (rule ancestor_correct [OF stage_by_id [OF dist that]])
  obtain c where c: "as_contract s = Some c" "contract_valid c"
    and prod: "\<forall>a \<in> set (ac_produces c). fact_findings stages s (pa_id a) (pa_when a) = [] \<and> produced_findings view stages s a = []
          \<and> location_findings view s (pa_id a) (pa_root a) (pa_path a) = []"
    and rds: "\<forall>r \<in> set (ac_reads c). fact_findings stages s (rd_id r) (rd_when r) = [] \<and> read_findings view stages s r = []
          \<and> location_findings view s (rd_id r) (rd_root r) (rd_path r) = []"
    by (rule no_findings [OF none assms(3)])
  have located: "(\<forall>a \<in> set (ac_produces c). resolveArtifactLocation (av_fs view) (if pa_root a = RunRoot then r else p) (pa_path a) \<noteq> None)
      \<and> (\<forall>a \<in> set (ac_reads c). resolveArtifactLocation (av_fs view) (if rd_root a = RunRoot then r else p) (rd_path a) \<noteq> None)"
    if "av_project view = Some p \<and> av_run view = Some r" for p r
    using prod rds that by (fastforce simp: location_findings_def split: if_splits)
  have reads: "\<exists>t \<in> set stages. artifact_id t = p \<and> after stages s t \<and> binds r t artifact"
    if "r \<in> set (ac_reads c)" "rd_source r = FromStage p artifact" for r p artifact
    using read_fits [of view stages s r p artifact] rds that anc [OF assms(3)] stages_by_id_key by blast
  have unowned: "pa_root a = RunRoot \<longrightarrow> \<not> isEngineOwnedRunPath (pa_path a) (path_stage_of s)"
    "av_run view \<noteq> None \<and> (pa_root a = ProjectRoot \<longrightarrow> av_project view \<noteq> None) \<longrightarrow> av_linked view (artifact_id s) a = Inr False"
    if "a \<in> set (ac_produces c)" for a
    using produced_unowned [of view stages s a] prod that by blast+
  have ordered: "t = s \<or> after stages s t \<or> after stages t s"
    if a: "a \<in> set (ac_produces c)" "pa_root a = RunRoot" and t: "t \<in> set stages" "b \<in> set (produces_in t)" "output_overlap a b" for a t b
  proof -
    have "artifact_id t = artifact_id s \<Longrightarrow> t = s" using dist t(1) assms(3) by (auto simp: distinct_map inj_on_def)
    then show ?thesis using produced_ordered [OF _ a(2) t] prod a(1) anc [OF assms(3)] anc [OF t(1)] by blast
  qed
  have facts: "(artifact_edge (stages_by_id stages))\<^sup>+\<^sup>+ (artifact_id s) (af_stage f) \<and> can_turn f Active \<and> can_turn f Inactive"
    if f: "f \<in> set (contract_facts c)" for f
  proof -
    obtain i where i: "fact_findings stages s i (Some f) = []" using f prod rds by (auto simp: contract_facts_def map_filter_def)
    then have "ancestor (stages_by_id stages) s (af_stage f)" by (simp add: fact_findings_def split: if_splits)
    moreover have "fact_ok (Some f)"
      using f c(2) by (fastforce simp: contract_facts_def map_filter_def contract_valid_def list_all_iff read_ok_def)
    ultimately show ?thesis using anc [OF assms(3)] open_fact [OF i] by blast
  qed
  show ?thesis
    by (intro exI [of _ c] conjI ballI allI impI) (use c located reads unowned ordered facts in blast)+
qed

section \<open>An example\<close>

definition note_artifact :: "string \<Rightarrow> produced_artifact" where
  "note_artifact i = \<lparr>pa_id = i, pa_root = RunRoot, pa_path = ''notes/code.md'', pa_directory = False, pa_nonempty = True, pa_when = None\<rparr>"

definition demo_artifacts :: "artifact_stage list" where
  \<comment> \<open>the review reads what the code stage wrote, and the report writes it again\<close>
  "demo_artifacts =
     map (\<lambda>(s, c). \<lparr>as_stage = s, as_contract = Some c\<rparr>) (zip demo_plan
       [\<lparr>ac_produces = [note_artifact ''notes''], ac_reads = [], ac_groups = []\<rparr>,
        \<lparr>ac_produces = [], ac_reads = [\<lparr>rd_id = ''r'', rd_root = RunRoot, rd_path = ''notes/code.md'', rd_directory = False,
            rd_source = FromStage ''code'' ''notes'',
            rd_when = Some \<lparr>af_stage = ''code'', af_status = True, af_equals = FactText ''complete''\<rparr>\<rparr>], ac_groups = []\<rparr>,
        \<lparr>ac_produces = [], ac_reads = [], ac_groups = []\<rparr>,
        \<lparr>ac_produces = [note_artifact ''final''], ac_reads = [], ac_groups = []\<rparr>])"

definition bare_view :: artifact_view where
  "bare_view = \<lparr>av_fs = (\<lambda>_. Inr None), av_project = None, av_run = None, av_kind = (\<lambda>_. Inr None), av_linked = (\<lambda>_ _. Inr False)\<rparr>"

theorem admitted_artifacts_fit_witness:
  "\<exists>t \<in> set demo_artifacts. artifact_id t = ''code'' \<and> after demo_artifacts (demo_artifacts ! 1) t
     \<and> binds (hd (ac_reads (the (as_contract (demo_artifacts ! 1))))) t ''notes''"
proof -
  have none: "artifactDeclarationFindings bare_view demo_artifacts = []" by code_simp
  have pass: "ar_pass (fst (inspectDispatchAdmission (\<lambda>_ _. False) (map (\<lambda>_. JNull) (artifactDeclarationFindings bare_view demo_artifacts)) demo_input))"
    using demo_passes unfolding passes_def none by simp
  have stages: "in_base demo_input @ in_dispatched demo_input = map as_stage demo_artifacts"
    by (simp add: demo_input_def demo_artifacts_def demo_plan_def)
  have s: "demo_artifacts ! 1 \<in> set demo_artifacts" by (simp add: demo_artifacts_def demo_plan_def)
  have r: "rd_source (hd (ac_reads (the (as_contract (demo_artifacts ! 1))))) = FromStage ''code'' ''notes''"
    "hd (ac_reads (the (as_contract (demo_artifacts ! 1)))) \<in> set (ac_reads (the (as_contract (demo_artifacts ! 1))))"
    by (simp_all add: demo_artifacts_def demo_plan_def)
  obtain c where "as_contract (demo_artifacts ! 1) = Some c"
    and "\<forall>r \<in> set (ac_reads c). \<forall>p artifact. rd_source r = FromStage p artifact \<longrightarrow>
          (\<exists>t \<in> set demo_artifacts. artifact_id t = p \<and> after demo_artifacts (demo_artifacts ! 1) t \<and> binds r t artifact)"
    using admitted_artifacts_fit [OF pass stages s] by blast
  then show ?thesis using r by simp
qed

end
