(* ===== verification/Spec2Isabelle.thy ===== *)
theory Spec2Isabelle
  imports Attempt_Store Deadline Admission Research_Policy Plan_Retry Launch Gate_Recovery
    Registry_Session Registry_Maintenance Ledger_Update Lock_Protocol Approval_Inbox Guidance
    Artifact_Declarations
begin

text \<open>
  FlowCrew runs a plan of agent stages under a scheduler: a planner proposes a stage graph, the
  scheduler admits it, executes ready stages as attempts of external agents, records every attempt
  in a durable ledger, and ends the run by a declared terminal artifact.  This development models
  the decision and persistence core of \<open>src/src\<close> and proves what makes each part correct.

  Parts and theories, in the order a run meets them:

  \<^item> \<open>Js_Base\<close>: JSON values, insertion-ordered maps and sets, string helpers, and the two interface
    locales \<open>keyed_store\<close> (lookup after update) and \<open>machine\<close> (invariant of the reachable states),
    with \<open>history_machine\<close>, whose history only grows.  \<open>Search\<close>: the recursive \<open>visit\<close> closures of
    the code, as a depth-first search decided by reachability.
  \<^item> \<open>Lifecycle\<close> (\<open>lifecycle-status.ts\<close>): run, stage and task vocabularies and their guards.
  \<^item> \<open>Scope\<close> (\<open>scheduler/sched_admission/scope-services.ts\<close>), \<open>Frontier\<close> (\<open>frontier.ts\<close> and the
    graph functions of \<open>dispatch.ts\<close>), \<open>Condition\<close> (\<open>condition.ts\<close>), \<open>Coverage\<close>
    (\<open>condition-coverage.ts\<close>, \<open>configuration.ts\<close>) and \<open>Admission\<close> (\<open>inspectDispatchAdmission\<close>, the retry
    topology and the scope warnings): what a plan must satisfy before it runs, and what the frontier
    makes ready afterwards.  The lemmas show that admission accepts exactly the orderable graphs,
    that an admitted plan progresses, that its terminal artifact has one owner and its criteria are
    reviewed, and that the static condition assessments agree with the run-time evaluator.
  \<^item> \<open>Plan_Retry\<close> (\<open>plan-retry-monotone.ts\<close>): the bounded chain of refused proposals and its digests.
  \<^item> \<open>Usage\<close>, \<open>Attempts\<close>, \<open>Attempt_Ledger\<close> (\<open>invocation-usage.ts\<close> and the attempt operations of
    \<open>store.ts\<close>): begin, complete, close, settle, suspend and interrupt of an attempt; the ledger as a
    machine that never loses or rewrites an attempt.
  \<^item> \<open>Run_Store\<close>, \<open>Run_Commit\<close>, \<open>Attempt_Store\<close> (\<open>store.ts\<close>, \<open>run-events.ts\<close>): the run directory as a
    compact projection with append-only history files and a commit pointer; compare-and-swap
    updates; the attempt operations as they are published.  Writers that take no lock are placed before the
    commit, at the check of the publication and after its summary; between the last check and the rename
    none is.
  \<^item> \<open>Deadline\<close> (\<open>attempt-deadline.ts\<close>, retry decisions of \<open>stage-execution.ts\<close>): the deadline
    controller as a machine over timer firings, and the doubling retry budget.
  \<^item> \<open>Research_Policy\<close> (\<open>research-policy.ts\<close>): the keep, continue and stop decision over measured
    rounds, and the assessment that a ship target is reachable.
  \<^item> \<open>Ownership\<close>, \<open>Launch\<close> (\<open>process-liveness.ts\<close>, \<open>run-lock.ts\<close>, \<open>run-standing.ts\<close>): which process
    owns a run and its project, and the claim file of the launch window, as a machine that interleaves
    claims, probes and releases one access at a time: a live claim excludes, and the removal of an expired
    one is shown to grant the window twice.  The list of runs the scan of owners goes through is an argument;
    the run index behind it, with its scheduler mark, is not modelled.
  \<^item> \<open>Gate_Evidence\<close>, \<open>Gate_Verdict\<close>, \<open>Gate_Recovery\<close> (\<open>scheduler/sched_settlement/gate-*.ts\<close>):
    validation receipts bound to one execution of a gate, the cascade of engine checks between an
    authored verdict and its effect, its settlement, the stages a rejection sends back to work and
    the published research settlement.  The lemmas show that a pass is earned, that settlement is
    final, which stages an engine refusal of an authored pass sends back (a regression and an
    absent outcome some, every other refusal none), that the mechanical retries are bounded, and that the frontier releases work behind a gate only on an accepted verdict.

  \<^item> \<open>Json_Text\<close>: the printer and the parser of JSON texts, with their inverse law and the texts that
    are no prefix of one another, which the torn rows below need.
  \<^item> \<open>Task_Registry\<close>, \<open>Registry_Ops\<close>, \<open>Registry_Session\<close>, \<open>Registry_Maintenance\<close>, \<open>Tick_Log\<close>
    (\<open>task-registry.ts\<close>): the append-only file of task rows under the daemon.  The incremental reader
    refines a reader of the whole file; create, update, the lists, the session indexes and the
    recovery of orphan runs are operations on a \<open>registry_world\<close> that holds the files and the cache;
    repair and compaction rewrite the file; tick logs carry stage deltas.  The lemmas show that a torn
    append loses nothing, that repair keeps what is readable, that compaction changes no task, and
    what happens when the sequence file is lost.
  \<^item> \<open>Ledger_Entry\<close>, \<open>Engine_Link\<close>, \<open>Ledger_Write\<close>, \<open>Ledger_Laws\<close>, \<open>Ledger_Update\<close> (\<open>fc-tasks.ts\<close>): the
    operator's work ledger, one JSON file per entry.  An entry links to a task of the registry and,
    through it, to a run of the archive (\<open>Engine_Link\<close> reads the registry with the reader above and the
    run statuses of \<open>Lifecycle\<close>).  The lemmas show that what a reader obtains is typed, that create and
    update keep the ledger valid, that a refused write changes nothing, and that an entry is closed
    for a run only when the archive records that run as terminal.
  \<^item> \<open>Lock_Protocol\<close> (\<open>lock-publication.ts\<close>, \<open>withLock\<close> and \<open>inspectLock\<close> of \<open>task-registry.ts\<close>): the lock file the
    stores above are changed under, as a machine that interleaves any number of processes one
    file-system access at a time, over the liveness test of \<open>Ownership\<close>.  The lock excludes as long as
    no holder dies inside; the recovery of a dead owner's lock is shown to be grantable twice.

  \<^item> \<open>Engine_Paths\<close> (\<open>engine-owned-carriers.ts\<close>, \<open>artifact-location.ts\<close>): the resolution of symbolic links and the
    names the engine reserves in a run directory.  \<open>Artifact_Declarations\<close> (\<open>artifact-declarations.ts\<close>)
    uses both for the findings that \<open>Admission\<close> takes as an argument: what a stage declares to produce and
    to read fits the dependencies of an admitted plan.
  \<^item> \<open>Approval_Inbox\<close> (\<open>inbox.ts\<close>, \<open>jsonl.ts\<close>, \<open>approval-artifacts.ts\<close>): the append-only log in which actions wait for an
    operator, as operations and as a machine in which any number of processes read, append and read again.
    One decision wins and is published once, only external requests wait, and an unterminated row loses
    a decision.
  \<^item> \<open>Guidance\<close> (\<open>guidance.ts\<close>): messages to stages as framed envelopes in a ledger text; the reader delivers exactly
    what was addressed to a stage as long as no body keeps a carriage return after its line ends are
    normalised; with one that does, the next message can be lost, which is shown too.

  Conventions.  A TypeScript interface is a record, a string union a datatype, a \<open>throw\<close> an \<open>Inl\<close>; an
  operation with effects takes the state and returns it with its result, the state also where the
  operation raises after a partial effect.  Numbers the code compares are exact rationals and
  instants integers in milliseconds: the code stays within the safe integers or guards them, and the
  guards are modelled.  Payloads no decision reads are \<open>json\<close>.  File-system, process and clock
  observations are values of an explicit record (\<open>plan_dir\<close>, the run directory, \<open>host\<close>, \<open>clock\<close>).

  Texts are exact for ASCII, where a character is one UTF-16 unit and one byte, so a length is both the
  string length and the byte length the code compares; nothing is claimed of other characters.

  Arguments standing for code outside \<open>src\<close> or for the platform: SHA-256, the text of numbers that are no integers, \<open>localeCompare\<close>,
  \<open>posix.matchesGlob\<close>, \<open>Date.parse\<close> and \<open>toISOString\<close>, the neighbouring double of a boundary, the
  canonical id of a run directory.  Nothing is assumed of them beyond what a statement says.

  Bounds and fuel.  Loops over data are structural recursions.  \<open>Search.dfs\<close> takes fuel, and is used
  with the number of nodes plus one, proved enough; \<open>Run_Commit\<close> and \<open>Launch\<close> keep the retry counts of
  the code (their exhaustion is a value the code returns too); the coverage assessment keeps the
  bound of 4096 assignments of the code; the work ledger keeps the limits of the code on names, files and
  bytes.

  Left out inside modelled parts: \<open>evaluateGateVerdict\<close> also writes the artifacts of a completed study, which
  no decision here reads; the optional project directory of \<open>normalizedProjectPath\<close>, which no caller
  modelled here passes.

  Not modelled: the dashboard, the command line and setup dialogues (rendering, prompts), the
  worker and the adapters (external agent processes), the daemon loop over the task registry, the
  directory form of the ledger's lock, the terminal rendering of the ledger, the streaming reader of \<open>run.json\<close> (an argument of \<open>Engine_Link\<close>), the
  asynchronous scheduler loop that composes these decisions, git images of the workspace and
  their rollback, text analysis of briefs, and polling of process activity.
\<close>

end
